(* ===== verification/Machine.thy ===== *)
theory Machine
  imports Main "HOL-Library.Word" "HOL-Library.Monad_Syntax" "HOL-Library.AList"
begin

text \<open>
  The machine the C code runs on, shared by every component.

  \<^item> Machine integers are words: \<open>u8\<close>, \<open>u16\<close>, \<open>u32\<close>, \<open>u64\<close>; \<open>UINTN\<close> is \<open>u64\<close> (x86_64).
  \<^item> Memory is one flat list of bytes. An address is a natural number, address 0 is NULL and is
    never valid, and an access outside the list is a fault. Operations on memory are in the
    option monad and \<open>None\<close> is the fault, so a theorem that gives \<open>Some\<close> also says that
    no byte outside the mapped memory is touched.
  \<^item> \<open>overwrite m p bs\<close> is the memory \<open>m\<close> with the bytes \<open>bs\<close> at address \<open>p\<close>: the common
    vocabulary in which the writing operations are specified.
  \<^item> \<open>str16_at m p s\<close> and \<open>str8_at m p s\<close>: a NUL terminated CHAR16 or CHAR8 string \<open>s\<close> at \<open>p\<close>.
  \<^item> EFI status codes as in inc/efierr.h.
\<close>

unbundle bit_operations_syntax

type_synonym u8 = "8 word"
type_synonym u16 = "16 word"
type_synonym u32 = "32 word"
type_synonym u64 = "64 word"
type_synonym addr = nat
type_synonym mem = "u8 list"

text \<open>Addresses are written with numeral offsets: \<open>p + 2\<close> stays as it is.\<close>

declare add_2_eq_Suc [simp del] add_2_eq_Suc' [simp del]

named_theorems mem_simps \<open>reading and writing memory\<close>
named_theorems fault_free \<open>introduction rules: an operation in the option monad returns\<close>

subsection \<open>Words as natural numbers\<close>

lemma unat_bounds:
  "unat (a :: u8) < 256" "unat (b :: u16) < 65536" "unat (c :: u32) < 4294967296"
  "unat (d :: u64) < 18446744073709551616"
proof -
  have "unat a < 2 ^ LENGTH(8)" "unat b < 2 ^ LENGTH(16)" "unat c < 2 ^ LENGTH(32)" "unat d < 2 ^ LENGTH(64)"
    by (rule unsigned_less)+
  then show "unat (a :: u8) < 256" "unat (b :: u16) < 65536" "unat (c :: u32) < 4294967296"
    "unat (d :: u64) < 18446744073709551616" by simp_all
qed

lemma unat_word_of_nat:
  "n < 256 \<Longrightarrow> unat (word_of_nat n :: u8) = n" "n < 65536 \<Longrightarrow> unat (word_of_nat n :: u16) = n"
  "n < 4294967296 \<Longrightarrow> unat (word_of_nat n :: u32) = n"
  "n < 18446744073709551616 \<Longrightarrow> unat (word_of_nat n :: u64) = n"
  by (simp_all add: unsigned_of_nat take_bit_nat_eq_self)

lemma unat_ucast_widen:
  "unat (ucast (a :: u8) :: u16) = unat a" "unat (ucast (a :: u8) :: u32) = unat a"
  "unat (ucast (a :: u8) :: u64) = unat a" "unat (ucast (b :: u16) :: u32) = unat b"
  "unat (ucast (b :: u16) :: u64) = unat b" "unat (ucast (c :: u32) :: u64) = unat c"
  using unat_bounds(1) [of a] unat_bounds(2) [of b] unat_bounds(3) [of c]
  by (simp_all add: unsigned_ucast_eq take_bit_eq_mod)

subsection \<open>Wrap-around of UINTN values kept as natural numbers\<close>

definition uintn :: "nat \<Rightarrow> nat" where
  "uintn n = n mod 2 ^ 64"

lemma uintn_small [simp]: "n < 2 ^ 64 \<Longrightarrow> uintn n = n"
  by (simp add: uintn_def)

lemma uintn_less [simp]: "uintn n < 2 ^ 64"
  by (simp add: uintn_def)

subsection \<open>Ranges of memory\<close>

definition mapped :: "mem \<Rightarrow> addr \<Rightarrow> nat \<Rightarrow> bool" where
  "mapped m p n \<longleftrightarrow> 0 < p \<and> p + n \<le> length m"

definition disjoint_ranges :: "addr \<Rightarrow> nat \<Rightarrow> addr \<Rightarrow> nat \<Rightarrow> bool" where
  "disjoint_ranges p n q k \<longleftrightarrow> p + n \<le> q \<or> q + k \<le> p"

definition region :: "mem \<Rightarrow> addr \<Rightarrow> nat \<Rightarrow> u8 list" where
  "region m p n = take n (drop p m)"

definition overwrite :: "mem \<Rightarrow> addr \<Rightarrow> u8 list \<Rightarrow> mem" where
  "overwrite m p bs = take p m @ bs @ drop (p + length bs) m"

lemma length_region [simp]: "p + n \<le> length m \<Longrightarrow> length (region m p n) = n"
  by (auto simp: region_def min_def)

lemma length_overwrite [simp]:
  "p + length bs \<le> length m \<Longrightarrow> length (overwrite m p bs) = length m"
  by (simp add: overwrite_def)

lemma nth_overwrite:
  "p + length bs \<le> length m \<Longrightarrow> i < length m \<Longrightarrow>
   overwrite m p bs ! i = (if p \<le> i \<and> i < p + length bs then bs ! (i - p) else m ! i)"
  by (auto simp: overwrite_def nth_append min_def)

lemma overwrite_eqI:
  assumes "length m' = length m" "p + length bs \<le> length m"
    and "\<And>i. i < length m \<Longrightarrow>
      m' ! i = (if p \<le> i \<and> i < p + length bs then bs ! (i - p) else m ! i)"
  shows "m' = overwrite m p bs"
  using assms by (intro nth_equalityI) (simp_all add: nth_overwrite)

text \<open>Nothing but the \<open>n\<close> bytes at \<open>p\<close> differs.\<close>

definition same_outside :: "mem \<Rightarrow> mem \<Rightarrow> addr \<Rightarrow> nat \<Rightarrow> bool" where
  "same_outside m m' p n \<longleftrightarrow>
     length m' = length m \<and> (\<forall>i < length m. i < p \<or> p + n \<le> i \<longrightarrow> m' ! i = m ! i)"

lemma same_outside_overwrite [simp]:
  "p + length bs \<le> length m \<Longrightarrow> same_outside m (overwrite m p bs) p (length bs)"
  by (auto simp: same_outside_def nth_overwrite)

lemma same_outside_mono:
  "same_outside m m' p n \<Longrightarrow> q \<le> p \<Longrightarrow> p + n \<le> q + k \<Longrightarrow> same_outside m m' q k"
  by (auto simp: same_outside_def)

lemma overwrite_Nil [simp]: "overwrite m p [] = m"
  by (simp add: overwrite_def)

lemma overwrite_snoc:
  assumes "p + length bs < length m"
  shows "(overwrite m p bs)[p + length bs := b] = overwrite m p (bs @ [b])"
  using assms by (intro overwrite_eqI) (auto simp: nth_list_update nth_overwrite nth_append)

lemma overwrite_append:
  assumes "p + length as + length bs \<le> length m"
  shows "overwrite (overwrite m p as) (p + length as) bs = overwrite m p (as @ bs)"
  using assms by (intro overwrite_eqI) (auto simp: nth_overwrite nth_append)

lemma overwrite_twice:
  assumes "p + length bs \<le> length m" "length as = length bs"
  shows "overwrite (overwrite m p as) p bs = overwrite m p bs"
  using assms by (intro overwrite_eqI) (auto simp: nth_overwrite)

lemma overwrite_tail:
  assumes "p + length as + length bs \<le> length m" "length cs = length bs"
  shows "overwrite (overwrite m p (as @ bs)) (p + length as) cs = overwrite m p (as @ cs)"
proof -
  have "overwrite (overwrite m p (as @ bs)) (p + length as) cs =
      overwrite (overwrite (overwrite m p as) (p + length as) bs) (p + length as) cs"
    using assms(1) by (simp add: overwrite_append)
  also have "\<dots> = overwrite (overwrite m p as) (p + length as) cs"
    using assms by (intro overwrite_twice) simp_all
  finally show ?thesis using assms by (simp add: overwrite_append)
qed

text \<open>Writing inside a range that was just written, and writing what is already there.\<close>

lemma overwrite_update:
  assumes "p + length bs \<le> length m" "k < length bs"
  shows "(overwrite m p bs)[p + k := b] = overwrite m p (bs[k := b])"
  using assms by (intro overwrite_eqI) (auto simp: nth_list_update nth_overwrite)

lemma overwrite_keep:
  assumes "p + length bs + n \<le> length m"
  shows "overwrite m p (bs @ region m (p + length bs) n) = overwrite m p bs"
  using assms
  by (intro overwrite_eqI)
    (auto simp: nth_overwrite nth_append region_def min_def)

lemma overwrite_same: "p + n \<le> length m \<Longrightarrow> overwrite m p (region m p n) = m"
  by (rule overwrite_eqI [symmetric]) (auto simp: region_def)

lemma region_overwrite_disjoint:
  assumes "disjoint_ranges p n q (length bs)" "p + n \<le> length m" "q + length bs \<le> length m"
  shows "region (overwrite m q bs) p n = region m p n"
  using assms
  by (intro nth_equalityI) (auto simp: region_def nth_overwrite disjoint_ranges_def)

lemma region_overwrite_same:
  "p + length bs \<le> length m \<Longrightarrow> region (overwrite m p bs) p (length bs) = bs"
  by (intro nth_equalityI) (auto simp: region_def nth_overwrite)

lemma region_append: "region m p (a + b) = region m p a @ region m (p + a) b"
  by (simp add: region_def take_add add.commute drop_drop [symmetric] del: drop_drop)

subsection \<open>Reading and writing\<close>

definition rd8 :: "mem \<Rightarrow> addr \<Rightarrow> u8 option" where
  "rd8 m p = (if 0 < p \<and> p < length m then Some (m ! p) else None)"

definition wr8 :: "mem \<Rightarrow> addr \<Rightarrow> u8 \<Rightarrow> mem option" where
  "wr8 m p v = (if 0 < p \<and> p < length m then Some (m[p := v]) else None)"

definition rd_bytes :: "mem \<Rightarrow> addr \<Rightarrow> nat \<Rightarrow> u8 list option" where
  "rd_bytes m p n = (if mapped m p n then Some (region m p n) else None)"

definition wr_bytes :: "mem \<Rightarrow> addr \<Rightarrow> u8 list \<Rightarrow> mem option" where
  "wr_bytes m p bs = (if mapped m p (length bs) then Some (overwrite m p bs) else None)"

text \<open>Little endian values.\<close>

fun le_word :: "u8 list \<Rightarrow> 'a::len word" where
  "le_word [] = 0"
| "le_word (b # bs) = ucast b OR push_bit 8 (le_word bs)"

fun le_bytes :: "nat \<Rightarrow> 'a::len word \<Rightarrow> u8 list" where
  "le_bytes 0 w = []"
| "le_bytes (Suc n) w = ucast w # le_bytes n (drop_bit 8 w)"

definition rd16 :: "mem \<Rightarrow> addr \<Rightarrow> u16 option" where
  "rd16 m p = map_option le_word (rd_bytes m p 2)"

definition rd32 :: "mem \<Rightarrow> addr \<Rightarrow> u32 option" where
  "rd32 m p = map_option le_word (rd_bytes m p 4)"

definition rd64 :: "mem \<Rightarrow> addr \<Rightarrow> u64 option" where
  "rd64 m p = map_option le_word (rd_bytes m p 8)"

definition wr16 :: "mem \<Rightarrow> addr \<Rightarrow> u16 \<Rightarrow> mem option" where
  "wr16 m p v = wr_bytes m p (le_bytes 2 v)"

definition wr32 :: "mem \<Rightarrow> addr \<Rightarrow> u32 \<Rightarrow> mem option" where
  "wr32 m p v = wr_bytes m p (le_bytes 4 v)"

definition wr64 :: "mem \<Rightarrow> addr \<Rightarrow> u64 \<Rightarrow> mem option" where
  "wr64 m p v = wr_bytes m p (le_bytes 8 v)"

lemma length_le_bytes [simp]: "length (le_bytes n w) = n"
  by (induction n arbitrary: w) auto

lemma le_bytes_Nil [simp]: "le_bytes n w = [] \<longleftrightarrow> n = 0"
  by (cases n) auto

lemma bit_le_word:
  "bit (le_word bs :: 'a::len word) i \<longleftrightarrow>
     i < LENGTH('a) \<and> i div 8 < length bs \<and> bit (bs ! (i div 8)) (i mod 8)"
proof (induction bs arbitrary: i)
  case Nil
  then show ?case by simp
next
  case (Cons b bs)
  show ?case
  proof (cases "i < 8")
    case True
    then show ?thesis by (auto simp: bit_simps)
  next
    case False
    then have "i div 8 = Suc ((i - 8) div 8)" "(i - 8) mod 8 = i mod 8"
      by (simp_all add: le_div_geq le_mod_geq)
    moreover have "\<not> bit b i" using False by (simp add: impossible_bit)
    ultimately show ?thesis
      using False Cons.IH [of "i - 8"] by (auto simp: bit_simps)
  qed
qed

lemma nth_le_bytes:
  "i < n \<Longrightarrow> le_bytes n w ! i = ucast (drop_bit (8 * i) w)"
  by (induction n arbitrary: w i)
    (auto simp: nth_Cons drop_bit_drop_bit ac_simps split: nat.split)

lemma le_word_le_bytes [simp]:
  fixes w :: "'a::len word"
  assumes "LENGTH('a) \<le> 8 * n"
  shows "le_word (le_bytes n w) = w"
proof (rule bit_word_eqI)
  fix i assume i: "i < LENGTH('a)"
  with assms have n: "i div 8 < n" by (simp add: less_mult_imp_div_less mult.commute)
  have "8 * (i div 8) + i mod 8 = i" by simp
  with i n show "bit (le_word (le_bytes n w) :: 'a word) i = bit w i"
    by (simp add: bit_le_word nth_le_bytes bit_simps)
qed

lemma le_bytes_le_word [simp]:
  assumes "8 * length bs \<le> LENGTH('a)"
  shows "le_bytes (length bs) (le_word bs :: 'a::len word) = bs"
proof (rule nth_equalityI)
  fix i assume "i < length (le_bytes (length bs) (le_word bs :: 'a word))"
  then have i: "i < length bs" by simp
  show "le_bytes (length bs) (le_word bs :: 'a word) ! i = bs ! i"
  proof (rule bit_word_eqI)
    fix k assume "k < LENGTH(8)"
    then have k: "k < 8" by simp
    have "(8 * i + k) div 8 = i" "(8 * i + k) mod 8 = k" using k by simp_all
    moreover have "8 * i + k < LENGTH('a)" using i k assms by linarith
    ultimately show "bit (le_bytes (length bs) (le_word bs :: 'a word) ! i) k = bit (bs ! i) k"
      using i k by (simp add: nth_le_bytes bit_simps bit_le_word)
  qed
qed simp

lemma le_bytes_le_word_width:
  "length bs = 2 \<Longrightarrow> le_bytes 2 (le_word bs :: u16) = bs"
  "length bs = 4 \<Longrightarrow> le_bytes 4 (le_word bs :: u32) = bs"
  "length bs = 8 \<Longrightarrow> le_bytes 8 (le_word bs :: u64) = bs"
  using le_bytes_le_word [of bs, where 'a = 16] le_bytes_le_word [of bs, where 'a = 32]
    le_bytes_le_word [of bs, where 'a = 64] by auto

lemma le_bytes_inject:
  fixes v w :: "'a::len word"
  assumes "LENGTH('a) \<le> 8 * n"
  shows "le_bytes n v = le_bytes n w \<longleftrightarrow> v = w"
  using assms by (metis le_word_le_bytes)

lemma rd8_Some [mem_simps]: "rd8 m p = Some v \<longleftrightarrow> mapped m p 1 \<and> v = m ! p"
  by (auto simp: rd8_def mapped_def)

lemma rd_bytes_Some [mem_simps]: "rd_bytes m p n = Some bs \<longleftrightarrow> mapped m p n \<and> bs = region m p n"
  by (auto simp: rd_bytes_def)

lemma wr_bytes_Some [mem_simps]:
  "wr_bytes m p bs = Some m' \<longleftrightarrow> mapped m p (length bs) \<and> m' = overwrite m p bs"
  by (auto simp: wr_bytes_def)

lemma wr8_overwrite: "wr8 m p v = wr_bytes m p [v]"
  by (auto simp: wr8_def wr_bytes_def mapped_def overwrite_def upd_conv_take_nth_drop)

lemma wr8_within:
  assumes "mapped m p (length bs)" "k < length bs"
  shows "wr8 (overwrite m p bs) (p + k) v = Some (overwrite m p (bs[k := v]))"
  using assms overwrite_update [of p bs m k v] by (simp add: wr8_def mapped_def)

lemma mapped_mono: "mapped m p n \<Longrightarrow> p \<le> q \<Longrightarrow> q + k \<le> p + n \<Longrightarrow> mapped m q k"
  by (auto simp: mapped_def)

lemma mapped_overwrite [simp]:
  "q + length bs \<le> length m \<Longrightarrow> mapped (overwrite m q bs) p n = mapped m p n"
  by (simp add: mapped_def)

lemma mappedD: "mapped m p n \<Longrightarrow> 0 < p \<and> p + n \<le> length m"
  by (simp add: mapped_def)

text \<open>A read does not see a write to a disjoint range, and sees what was written.\<close>

lemma rd_bytes_overwrite_disjoint:
  "disjoint_ranges p n q (length bs) \<Longrightarrow> q + length bs \<le> length m \<Longrightarrow>
   rd_bytes (overwrite m q bs) p n = rd_bytes m p n"
  by (simp add: rd_bytes_def region_overwrite_disjoint mapped_def)

lemma rd_bytes_overwrite_same:
  "mapped m p (length bs) \<Longrightarrow> rd_bytes (overwrite m p bs) p (length bs) = Some bs"
  by (simp add: rd_bytes_def region_overwrite_same mapped_def)

lemma region_overwrite_within:
  assumes "p \<le> q" "q + n \<le> p + length bs" "p + length bs \<le> length m"
  shows "region (overwrite m p bs) q n = take n (drop (q - p) bs)"
  using assms by (intro nth_equalityI) (auto simp: region_def nth_overwrite)

lemma rd8_overwrite:
  "q + length bs \<le> length m \<Longrightarrow>
   rd8 (overwrite m q bs) p = (if q \<le> p \<and> p < q + length bs then (if p = 0 then None else Some (bs ! (p - q))) else rd8 m p)"
  by (auto simp: rd8_def nth_overwrite)

lemma rd64_wr64_same: "wr64 m p v = Some m' \<Longrightarrow> rd64 m' p = Some v"
  using rd_bytes_overwrite_same [of m p "le_bytes 8 v"] le_word_le_bytes [of 8 v]
  by (auto simp: wr64_def rd64_def wr_bytes_Some)

lemma rd64_wr64_disjoint:
  "wr64 m p v = Some m' \<Longrightarrow> disjoint_ranges q 8 p 8 \<Longrightarrow> rd64 m' q = rd64 m q"
  using rd_bytes_overwrite_disjoint [of q 8 p "le_bytes 8 v" m]
  by (auto simp: wr64_def rd64_def wr_bytes_Some mapped_def)

lemma wr64_mapped: "mapped m p 8 \<Longrightarrow> \<exists>m'. wr64 m p v = Some m' \<and> length m' = length m"
  by (auto simp: wr64_def wr_bytes_def mapped_def)

subsection \<open>NUL terminated strings\<close>

primrec enc16 :: "u16 list \<Rightarrow> u8 list" where
  "enc16 [] = []"
| "enc16 (c # cs) = le_bytes 2 c @ enc16 cs"

primrec str16_at :: "mem \<Rightarrow> addr \<Rightarrow> u16 list \<Rightarrow> bool" where
  "str16_at m p [] \<longleftrightarrow> rd16 m p = Some 0"
| "str16_at m p (c # cs) \<longleftrightarrow> rd16 m p = Some c \<and> c \<noteq> 0 \<and> str16_at m (p + 2) cs"

primrec str8_at :: "mem \<Rightarrow> addr \<Rightarrow> u8 list \<Rightarrow> bool" where
  "str8_at m p [] \<longleftrightarrow> rd8 m p = Some 0"
| "str8_at m p (c # cs) \<longleftrightarrow> rd8 m p = Some c \<and> c \<noteq> 0 \<and> str8_at m (p + 1) cs"

lemma length_enc16 [simp]: "length (enc16 s) = 2 * length s"
  by (induction s) auto

lemma enc16_append [simp]: "enc16 (s @ t) = enc16 s @ enc16 t"
  by (induction s) auto

lemma enc16_inject: "enc16 s = enc16 t \<longleftrightarrow> s = t"
proof (induction s arbitrary: t)
  case Nil
  then show ?case by (cases t) auto
next
  case (Cons c cs)
  then show ?case by (cases t) (auto simp: le_bytes_inject)
qed

lemma rd16_Some [mem_simps]:
  "rd16 m p = Some c \<longleftrightarrow> mapped m p 2 \<and> region m p 2 = le_bytes 2 c"
proof
  assume "rd16 m p = Some c"
  then have "mapped m p 2" and "c = le_word (region m p 2)"
    by (auto simp: rd16_def rd_bytes_def split: if_splits)
  moreover from this have "le_bytes (length (region m p 2)) (le_word (region m p 2) :: u16) = region m p 2"
    by (intro le_bytes_le_word) (simp add: mapped_def)
  ultimately show "mapped m p 2 \<and> region m p 2 = le_bytes 2 c" by (simp add: mapped_def)
next
  assume "mapped m p 2 \<and> region m p 2 = le_bytes 2 c"
  then show "rd16 m p = Some c" by (simp add: rd16_def rd_bytes_def)
qed

lemma str16_at_region:
  "str16_at m p s \<longleftrightarrow> 0 \<notin> set s \<and> mapped m p (2 * length s + 2) \<and>
     region m p (2 * length s + 2) = enc16 (s @ [0])"
proof (induction s arbitrary: p)
  case Nil
  show ?case by (simp add: rd16_Some numeral_2_eq_2)
next
  case (Cons c cs)
  have split: "region m p (2 * length (c # cs) + 2) = region m p 2 @ region m (p + 2) (2 * length cs + 2)"
    using region_append [of m p 2 "2 * length cs + 2"] by (simp add: algebra_simps)
  show ?case
  proof (cases "mapped m p (2 * length (c # cs) + 2)")
    case True
    then have "mapped m p 2" "mapped m (p + 2) (2 * length cs + 2)"
      by (auto elim: mapped_mono)
    then show ?thesis using True Cons.IH [of "p + 2"]
      unfolding split by (auto simp: rd16_Some mapped_def append_eq_append_conv)
  next
    case False
    then have "\<not> (mapped m p 2 \<and> mapped m (p + 2) (2 * length cs + 2))"
      by (auto simp: mapped_def)
    with False Cons.IH [of "p + 2"] show ?thesis by (auto simp: rd16_Some)
  qed
qed

lemma str16_at_unique: "str16_at m p s \<Longrightarrow> str16_at m p t \<Longrightarrow> s = t"
proof (induction s arbitrary: p t)
  case Nil
  then show ?case by (cases t) auto
next
  case (Cons c cs)
  then show ?case by (cases t) auto
qed

lemma str16_at_mapped: "str16_at m p s \<Longrightarrow> mapped m p (2 * length s + 2)"
  by (simp add: str16_at_region)

lemma str16_at_overwrite_disjoint:
  assumes "str16_at m p s" "disjoint_ranges p (2 * length s + 2) q (length bs)" "q + length bs \<le> length m"
  shows "str16_at (overwrite m q bs) p s"
  using assms by (simp add: str16_at_region region_overwrite_disjoint mapped_def)

lemma str16_at_overwrite_same:
  assumes "0 \<notin> set s" "mapped m p (2 * length s + 2)"
  shows "str16_at (overwrite m p (enc16 (s @ [0]))) p s"
  using assms region_overwrite_same [of p "enc16 (s @ [0])" m]
  by (simp add: str16_at_region mapped_def)

subsection \<open>Byte strings in memory\<close>

definition bytes_at :: "mem \<Rightarrow> addr \<Rightarrow> u8 list \<Rightarrow> bool" where
  "bytes_at m p bs \<longleftrightarrow> rd_bytes m p (length bs) = Some bs"

lemma bytes_at_append:
  "bytes_at m p (as @ bs) \<longleftrightarrow> bytes_at m p as \<and> bytes_at m (p + length as) bs"
proof -
  have "region m p (length as + length bs) = region m p (length as) @ region m (p + length as) (length bs)"
    by (rule region_append)
  then show ?thesis
    by (auto simp: bytes_at_def rd_bytes_def mapped_def append_eq_append_conv split: if_splits)
qed

lemma bytes_at_Cons:
  "bytes_at m p (b # bs) \<longleftrightarrow> rd8 m p = Some b \<and> bytes_at m (p + 1) bs"
proof -
  have "bytes_at m p [b] \<longleftrightarrow> rd8 m p = Some b"
    by (auto simp: bytes_at_def rd_bytes_def rd8_def mapped_def region_def take_Suc_conv_app_nth
        hd_drop_conv_nth take_Suc)
  then show ?thesis using bytes_at_append [of m p "[b]" bs] by simp
qed

lemma bytes_at_mapped: "bytes_at m p bs \<Longrightarrow> mapped m p (length bs)"
  by (auto simp: bytes_at_def rd_bytes_def split: if_splits)

lemma bytes_at_region: "bytes_at m p bs \<Longrightarrow> region m p (length bs) = bs"
  by (auto simp: bytes_at_def rd_bytes_def split: if_splits)

lemma bytes_at_overwrite: "mapped m p (length bs) \<Longrightarrow> bytes_at (overwrite m p bs) p bs"
  by (simp add: bytes_at_def rd_bytes_overwrite_same)

lemma bytes_at_overwrite_disjoint:
  "disjoint_ranges p (length as) q (length bs) \<Longrightarrow> q + length bs \<le> length m \<Longrightarrow>
   bytes_at (overwrite m q bs) p as = bytes_at m p as"
  by (simp add: bytes_at_def rd_bytes_overwrite_disjoint)

lemma bytes_at_words:
  "bytes_at m p (le_bytes 2 v @ bs) \<Longrightarrow> rd16 m p = Some v"
  "bytes_at m p (le_bytes 4 w @ bs) \<Longrightarrow> rd32 m p = Some w"
  "bytes_at m p (le_bytes 8 x @ bs) \<Longrightarrow> rd64 m p = Some x"
  unfolding bytes_at_append by (simp_all add: bytes_at_def rd16_def rd32_def rd64_def)

lemma str16_at_bytes: "str16_at m p s \<longleftrightarrow> 0 \<notin> set s \<and> bytes_at m p (enc16 (s @ [0]))"
  by (auto simp: str16_at_region bytes_at_def rd_bytes_def)

end
