(* ===== verification/RtMem.thy ===== *)
theory RtMem
  imports Machine
begin

text \<open>
  The memory routines of lib/runtime/efirtlib.c, their boot-time wrappers in lib/misc.c and
  lib/guid.c, and the \<open>memset\<close> and \<open>memcpy\<close> the compiler may call (lib/init.c).

  Each loop of the source is one recursive function over the remaining count. The interfaces
  the string and device path components rely on are two locales: \<open>mem_filler\<close> (fill a range)
  and \<open>mem_copier\<close> (copy between disjoint ranges), extended by \<open>mem_mover\<close> (ranges may overlap).
  \<open>RtSetMem\<close>, \<open>memset\<close>, \<open>RtCopyMem\<close>, \<open>RtCopyMemC\<close> and \<open>memcpy\<close> are their providers.
\<close>

subsection \<open>Definitions\<close>

fun RtZeroMem :: "mem \<Rightarrow> addr \<Rightarrow> nat \<Rightarrow> mem option" where
  "RtZeroMem m pt 0 = Some m"
| "RtZeroMem m pt (Suc Size) = do { m' \<leftarrow> wr8 m pt 0; RtZeroMem m' (pt + 1) Size }"

fun RtSetMem :: "mem \<Rightarrow> addr \<Rightarrow> nat \<Rightarrow> u8 \<Rightarrow> mem option" where
  "RtSetMem m pt 0 Value = Some m"
| "RtSetMem m pt (Suc Size) Value = do { m' \<leftarrow> wr8 m pt Value; RtSetMem m' (pt + 1) Size Value }"

fun copy_up :: "mem \<Rightarrow> addr \<Rightarrow> addr \<Rightarrow> nat \<Rightarrow> mem option" where
  "copy_up m d s 0 = Some m"
| "copy_up m d s (Suc len) =
     do { b \<leftarrow> rd8 m s; m' \<leftarrow> wr8 m d b; copy_up m' (d + 1) (s + 1) len }"

text \<open>The loop that runs from the end: \<open>d\<close> and \<open>s\<close> are one past the bytes still to copy.\<close>

fun copy_down :: "mem \<Rightarrow> addr \<Rightarrow> addr \<Rightarrow> nat \<Rightarrow> mem option" where
  "copy_down m d s 0 = Some m"
| "copy_down m d s (Suc len) =
     do { b \<leftarrow> rd8 m (s - 1); m' \<leftarrow> wr8 m (d - 1) b; copy_down m' (d - 1) (s - 1) len }"

definition RtCopyMem :: "mem \<Rightarrow> addr \<Rightarrow> addr \<Rightarrow> nat \<Rightarrow> mem option" where
  "RtCopyMem m Dest Src len =
     (if Dest = 0 \<or> Src = 0 \<or> Src = Dest then Some m
      else if Dest > Src \<and> Dest < Src + len then copy_down m (Dest + len) (Src + len) len
      else copy_up m Dest Src len)"

definition RtCopyMemC :: "mem \<Rightarrow> addr \<Rightarrow> addr \<Rightarrow> nat \<Rightarrow> mem option" where
  "RtCopyMemC m Dest Src len = RtCopyMem m Dest Src len"

fun RtCompareMem :: "mem \<Rightarrow> addr \<Rightarrow> addr \<Rightarrow> nat \<Rightarrow> int option" where
  "RtCompareMem m d s 0 = Some 0"
| "RtCompareMem m d s (Suc len) = do {
     x \<leftarrow> rd8 m d; y \<leftarrow> rd8 m s;
     if x \<noteq> y then Some (uint x - uint y) else RtCompareMem m (d + 1) (s + 1) len }"

text \<open>GUIDs are compared as four 32-bit values; \<open>r\<close> collects the differences.\<close>

definition RtCompareGuid :: "mem \<Rightarrow> addr \<Rightarrow> addr \<Rightarrow> bool option" where
  "RtCompareGuid m g1 g2 = do {
     a0 \<leftarrow> rd32 m g1; b0 \<leftarrow> rd32 m g2;
     a1 \<leftarrow> rd32 m (g1 + 4); b1 \<leftarrow> rd32 m (g2 + 4);
     a2 \<leftarrow> rd32 m (g1 + 8); b2 \<leftarrow> rd32 m (g2 + 8);
     a3 \<leftarrow> rd32 m (g1 + 12); b3 \<leftarrow> rd32 m (g2 + 12);
     let r = a0 - b0;
     let r = r OR (a1 - b1);
     let r = r OR (a2 - b2);
     let r = r OR (a3 - b3);
     Some (r = 0) }"

text \<open>\<open>gZeroGuid\<close> is a global object of the library; its address is a parameter.\<close>

definition RtIsZeroGuid :: "addr \<Rightarrow> mem \<Rightarrow> addr \<Rightarrow> bool option" where
  "RtIsZeroGuid gZeroGuid m Guid1 = RtCompareGuid m Guid1 gZeroGuid"

definition ZeroMem :: "mem \<Rightarrow> addr \<Rightarrow> nat \<Rightarrow> mem option" where
  "ZeroMem m Buffer Size = RtZeroMem m Buffer Size"

definition SetMem :: "mem \<Rightarrow> addr \<Rightarrow> nat \<Rightarrow> u8 \<Rightarrow> mem option" where
  "SetMem m Buffer Size Value = RtSetMem m Buffer Size Value"

definition CopyMem_1 :: "mem \<Rightarrow> addr \<Rightarrow> addr \<Rightarrow> nat \<Rightarrow> mem option" where
  "CopyMem_1 m Dest Src len = RtCopyMem m Dest Src len"

definition CopyMemC :: "mem \<Rightarrow> addr \<Rightarrow> addr \<Rightarrow> nat \<Rightarrow> mem option" where
  "CopyMemC m Dest Src len = RtCopyMemC m Dest Src len"

definition CompareMem :: "mem \<Rightarrow> addr \<Rightarrow> addr \<Rightarrow> nat \<Rightarrow> int option" where
  "CompareMem m Dest Src len = RtCompareMem m Dest Src len"

definition CompareGuid_1 :: "mem \<Rightarrow> addr \<Rightarrow> addr \<Rightarrow> bool option" where
  "CompareGuid_1 m Guid1 Guid2 = RtCompareGuid m Guid1 Guid2"

definition IsZeroGuid :: "addr \<Rightarrow> mem \<Rightarrow> addr \<Rightarrow> bool option" where
  "IsZeroGuid gZeroGuid m Guid1 = RtIsZeroGuid gZeroGuid m Guid1"

text \<open>\<open>memset\<close> takes an \<open>int\<close> and stores its low byte; both return their first argument.\<close>

fun memset_loop :: "mem \<Rightarrow> addr \<Rightarrow> u32 \<Rightarrow> nat \<Rightarrow> mem option" where
  "memset_loop m p c 0 = Some m"
| "memset_loop m p c (Suc n) = do { m' \<leftarrow> wr8 m p (ucast c); memset_loop m' (p + 1) c n }"

definition memset :: "mem \<Rightarrow> addr \<Rightarrow> u32 \<Rightarrow> nat \<Rightarrow> (mem \<times> addr) option" where
  "memset m s c n = do { m' \<leftarrow> memset_loop m s c n; Some (m', s) }"

definition memcpy :: "mem \<Rightarrow> addr \<Rightarrow> addr \<Rightarrow> nat \<Rightarrow> (mem \<times> addr) option" where
  "memcpy m dest src n = do { m' \<leftarrow> copy_up m dest src n; Some (m', dest) }"

subsection \<open>Filling\<close>

lemma RtSetMem_eq:
  "mapped m p n \<Longrightarrow> RtSetMem m p n v = Some (overwrite m p (replicate n v))"
proof (induction n arbitrary: m p)
  case 0
  then show ?case by simp
next
  case (Suc n)
  then have w: "wr8 m p v = Some (overwrite m p [v])"
    by (auto simp: wr8_overwrite wr_bytes_def mapped_def)
  have "mapped (overwrite m p [v]) (p + 1) n" using Suc.prems by (auto simp: mapped_def)
  then have "RtSetMem (overwrite m p [v]) (p + 1) n v =
      Some (overwrite (overwrite m p [v]) (p + length [v]) (replicate n v))"
    using Suc.IH by simp
  also have "\<dots> = Some (overwrite m p ([v] @ replicate n v))"
    using Suc.prems by (subst overwrite_append) (auto simp: mapped_def)
  finally show ?case using w by simp
qed

lemma RtZeroMem_RtSetMem: "RtZeroMem m p n = RtSetMem m p n 0"
  by (induction n arbitrary: m p) auto

lemma RtZeroMem_eq: "mapped m p n \<Longrightarrow> RtZeroMem m p n = Some (overwrite m p (replicate n 0))"
  by (simp add: RtZeroMem_RtSetMem RtSetMem_eq)

lemma memset_loop_RtSetMem: "memset_loop m p c n = RtSetMem m p n (ucast c)"
  by (induction n arbitrary: m p) auto

text \<open>Writing outside the mapped memory is a fault, whatever was written before.\<close>

lemma RtSetMem_fault: "n \<noteq> 0 \<Longrightarrow> \<not> mapped m p n \<Longrightarrow> RtSetMem m p n v = None"
proof (induction n arbitrary: m p)
  case (Suc n)
  show ?case
  proof (cases "wr8 m p v")
    case (Some m')
    then have m': "m' = m[p := v]" "0 < p" "p < length m" by (auto simp: wr8_def split: if_splits)
    with Suc.prems have "n \<noteq> 0" "\<not> mapped m' (p + 1) n" by (auto simp: mapped_def)
    with Suc.IH Some show ?thesis by simp
  qed simp
qed simp

subsection \<open>Copying\<close>

text \<open>
  Both loops keep the same invariant: the part already copied is in place, and the source
  bytes still to copy have not been overwritten. Upwards that holds unless the destination
  starts inside the source, downwards unless it starts before it.
\<close>

lemma rd8_mapped: "0 < s \<Longrightarrow> s < length m \<Longrightarrow> rd8 m s = Some (m ! s)"
  by (simp add: rd8_def)

lemma region_Suc: "s + Suc n \<le> length m \<Longrightarrow> region m s (Suc n) = m ! s # region m (s + 1) n"
  by (simp add: region_def Cons_nth_drop_Suc [symmetric])

lemma region_snoc: "s + Suc n \<le> length m \<Longrightarrow> region m s (Suc n) = region m s n @ [m ! (s + n)]"
  by (simp add: region_def take_Suc_conv_app_nth)

lemma copy_up_eq:
  assumes "mapped m d n" "mapped m s n" "d \<le> s \<or> s + n \<le> d"
  shows "copy_up m d s n = Some (overwrite m d (region m s n))"
  using assms
proof (induction n arbitrary: m d s)
  case 0
  then show ?case by (simp add: region_def)
next
  case (Suc n)
  let ?m = "overwrite m d [m ! s]"
  have w: "rd8 m s = Some (m ! s)" "wr8 m d (m ! s) = Some ?m"
    using Suc.prems by (auto simp: rd8_def wr8_overwrite wr_bytes_def mapped_def)
  have keep: "region ?m (s + 1) n = region m (s + 1) n"
    using Suc.prems
    by (intro region_overwrite_disjoint) (auto simp: disjoint_ranges_def mapped_def)
  have "copy_up ?m (d + 1) (s + 1) n = Some (overwrite ?m (d + 1) (region ?m (s + 1) n))"
    using Suc.prems by (intro Suc.IH) (auto simp: mapped_def)
  also have "\<dots> = Some (overwrite ?m (d + length [m ! s]) (region m (s + 1) n))"
    by (simp only: keep) simp
  also have "\<dots> = Some (overwrite m d ([m ! s] @ region m (s + 1) n))"
    using Suc.prems by (subst overwrite_append) (auto simp: mapped_def)
  finally show ?case using w Suc.prems by (simp add: region_Suc mapped_def)
qed

lemma copy_down_eq:
  assumes "mapped m d n" "mapped m s n" "s < d"
  shows "copy_down m (d + n) (s + n) n = Some (overwrite m d (region m s n))"
  using assms
proof (induction n arbitrary: m)
  case 0
  then show ?case by (simp add: region_def)
next
  case (Suc n)
  let ?b = "m ! (s + n)"
  let ?m = "overwrite m (d + n) [?b]"
  have w: "rd8 m (s + n) = Some ?b" "wr8 m (d + n) ?b = Some ?m"
    using Suc.prems by (auto simp: rd8_def wr8_overwrite wr_bytes_def mapped_def)
  have keep: "region ?m s n = region m s n"
    using Suc.prems
    by (intro region_overwrite_disjoint) (auto simp: disjoint_ranges_def mapped_def)
  have "copy_down ?m (d + n) (s + n) n = Some (overwrite ?m d (region m s n))"
    using Suc.prems keep Suc.IH [of ?m] by (auto simp: mapped_def)
  moreover have "overwrite ?m d (region m s n) = overwrite m d (region m s n @ [?b])"
    using Suc.prems
    by (intro overwrite_eqI) (auto simp: nth_overwrite nth_append mapped_def)
  ultimately show ?case using w Suc.prems by (simp add: region_snoc mapped_def)
qed

lemma RtCopyMem_eq:
  assumes "mapped m d n" "mapped m s n"
  shows "RtCopyMem m d s n = Some (overwrite m d (region m s n))"
proof -
  have nz: "d \<noteq> 0" "s \<noteq> 0" using assms by (auto simp: mapped_def)
  consider "s = d" | "s < d" "d < s + n" | "s < d" "s + n \<le> d" | "d < s" by linarith
  then show ?thesis
  proof cases
    case 1
    with assms show ?thesis by (simp add: RtCopyMem_def overwrite_same mapped_def)
  next
    case 2
    with assms nz copy_down_eq [of m d n s] show ?thesis by (simp add: RtCopyMem_def)
  next
    case 3
    with assms nz copy_up_eq [of m d n s] show ?thesis by (simp add: RtCopyMem_def)
  next
    case 4
    with assms nz copy_up_eq [of m d n s] show ?thesis by (simp add: RtCopyMem_def)
  qed
qed

lemma memcpy_eq:
  assumes "mapped m d n" "mapped m s n" "disjoint_ranges d n s n"
  shows "memcpy m d s n = Some (overwrite m d (region m s n), d)"
proof -
  have "d \<le> s \<or> s + n \<le> d" using assms(3) by (auto simp: disjoint_ranges_def)
  with assms copy_up_eq [of m d n s] show ?thesis by (simp add: memcpy_def)
qed

subsection \<open>Interfaces\<close>

locale mem_filler =
  fixes fill :: "mem \<Rightarrow> addr \<Rightarrow> nat \<Rightarrow> u8 \<Rightarrow> mem option"
  assumes fill: "mapped m p n \<Longrightarrow> fill m p n v = Some (overwrite m p (replicate n v))"
begin

lemma fill_reads_back:
  assumes "mapped m p n" "fill m p n v = Some m'"
  shows "rd_bytes m' p n = Some (replicate n v)"
  using assms rd_bytes_overwrite_same [of m p "replicate n v"] by (simp add: fill)

lemma fill_frame:
  assumes "mapped m p n" "fill m p n v = Some m'" "disjoint_ranges q k p n"
  shows "rd_bytes m' q k = rd_bytes m q k"
  using assms rd_bytes_overwrite_disjoint [of q k p "replicate n v" m] by (auto simp: fill mapped_def)

end

locale mem_copier =
  fixes copy :: "mem \<Rightarrow> addr \<Rightarrow> addr \<Rightarrow> nat \<Rightarrow> mem option"
  assumes copy_disjoint:
    "mapped m d n \<Longrightarrow> mapped m s n \<Longrightarrow> disjoint_ranges d n s n \<Longrightarrow>
     copy m d s n = Some (overwrite m d (region m s n))"
begin

lemma copy_reads_back:
  assumes "mapped m d n" "mapped m s n" "disjoint_ranges d n s n" "copy m d s n = Some m'"
  shows "rd_bytes m' d n = rd_bytes m s n" "rd_bytes m' s n = rd_bytes m s n"
  using assms rd_bytes_overwrite_same [of m d "region m s n"]
    rd_bytes_overwrite_disjoint [of s n d "region m s n" m]
  by (auto simp: copy_disjoint rd_bytes_def mapped_def disjoint_ranges_def)

text \<open>A copied string is the same string, and the original is kept.\<close>

lemma copy_string:
  assumes "str16_at m s t" "mapped m d (2 * length t + 2)"
    "disjoint_ranges d (2 * length t + 2) s (2 * length t + 2)"
  shows "\<exists>m'. copy m d s (2 * length t + 2) = Some m' \<and> length m' = length m \<and>
    str16_at m' d t \<and> str16_at m' s t"
proof -
  let ?n = "2 * length t + 2"
  have s: "mapped m s ?n" using assms(1) by (rule str16_at_mapped)
  have r: "region m s ?n = enc16 (t @ [0])" and z: "0 \<notin> set t"
    using assms(1) by (auto simp: str16_at_region)
  let ?m = "overwrite m d (enc16 (t @ [0]))"
  have "copy m d s ?n = Some ?m"
    using copy_disjoint [OF assms(2) s assms(3)] by (simp only: r)
  moreover have "str16_at ?m d t" using z assms(2) by (rule str16_at_overwrite_same)
  moreover have "str16_at ?m s t"
    using assms by (intro str16_at_overwrite_disjoint) (auto simp: disjoint_ranges_def mapped_def)
  ultimately show ?thesis using assms(2) by (auto simp: mapped_def)
qed

end

locale mem_mover =
  fixes copy :: "mem \<Rightarrow> addr \<Rightarrow> addr \<Rightarrow> nat \<Rightarrow> mem option"
  assumes copy_any:
    "mapped m d n \<Longrightarrow> mapped m s n \<Longrightarrow> copy m d s n = Some (overwrite m d (region m s n))"

sublocale mem_mover \<subseteq> mem_copier copy
  by unfold_locales (rule copy_any)

interpretation set_mem: mem_filler RtSetMem
  by unfold_locales (rule RtSetMem_eq)

interpretation SetMem: mem_filler SetMem
  by unfold_locales (simp add: SetMem_def RtSetMem_eq)

interpretation zero_mem: mem_filler "\<lambda>m p n v. memset_loop m p (ucast v) n"
  by unfold_locales (simp add: memset_loop_RtSetMem RtSetMem_eq ucast_up_ucast_id is_up)

interpretation copy_mem: mem_mover RtCopyMem
  by unfold_locales (rule RtCopyMem_eq)

interpretation copy_mem_c: mem_mover RtCopyMemC
  by unfold_locales (simp add: RtCopyMemC_def RtCopyMem_eq)

interpretation CopyMem: mem_mover CopyMem_1
  by unfold_locales (simp add: CopyMem_1_def RtCopyMem_eq)

interpretation CopyMemC: mem_mover CopyMemC
  by unfold_locales (simp add: CopyMemC_def RtCopyMemC_def RtCopyMem_eq)

text \<open>Bytes that are there are copied.\<close>

lemma copy_bytes:
  assumes "mapped m d (length bs)" "bytes_at m p bs"
  shows "CopyMem_1 m d p (length bs) = Some (overwrite m d bs)"
  using CopyMem.copy_any [OF assms(1) bytes_at_mapped [OF assms(2)]] bytes_at_region [OF assms(2)]
  by simp

interpretation memcpy: mem_copier "\<lambda>m d s n. map_option fst (memcpy m d s n)"
  by unfold_locales (simp add: memcpy_eq)

subsection \<open>Comparing\<close>

lemma RtCompareMem_eq:
  assumes "mapped m d n" "mapped m s n"
  shows "RtCompareMem m d s n = Some
     (case filter (\<lambda>(x, y). x \<noteq> y) (zip (region m d n) (region m s n)) of
        [] \<Rightarrow> 0 | (x, y) # _ \<Rightarrow> uint x - uint y)"
  using assms
proof (induction n arbitrary: d s)
  case 0
  then show ?case by (simp add: region_def)
next
  case (Suc n)
  show ?case
  proof (cases "m ! d = m ! s")
    case True
    moreover have "RtCompareMem m (Suc d) (Suc s) n = Some
       (case filter (\<lambda>(x, y). x \<noteq> y) (zip (region m (Suc d) n) (region m (Suc s) n)) of
          [] \<Rightarrow> 0 | (x, y) # _ \<Rightarrow> uint x - uint y)"
      using Suc.prems Suc.IH [of "Suc d" "Suc s"] by (auto simp: mapped_def)
    ultimately show ?thesis using Suc.prems
      by (simp add: rd8_mapped region_Suc mapped_def)
  next
    case False
    then show ?thesis using Suc.prems by (simp add: rd8_mapped region_Suc mapped_def)
  qed
qed

lemma RtCompareMem_zero_iff:
  assumes "mapped m d n" "mapped m s n"
  shows "RtCompareMem m d s n = Some 0 \<longleftrightarrow> region m d n = region m s n"
proof -
  have len: "length (region m d n) = length (region m s n)" using assms by (simp add: mapped_def)
  let ?f = "filter (\<lambda>(x, y). x \<noteq> y) (zip (region m d n) (region m s n))"
  have "(case ?f of [] \<Rightarrow> 0 | (x, y) # _ \<Rightarrow> uint x - uint y) = 0 \<longleftrightarrow> ?f = []"
  proof (cases ?f)
    case (Cons p ps)
    then have "p \<in> set ?f" by simp
    then have "fst p \<noteq> snd p" by auto
    with Cons show ?thesis by (auto simp: word_uint_eq_iff split: prod.split)
  qed simp
  also have "\<dots> \<longleftrightarrow> region m d n = region m s n"
    using len list_all2_iff [of "(=)" "region m d n" "region m s n"]
    by (auto simp: filter_empty_conv list.rel_eq)
  finally show ?thesis using assms by (simp add: RtCompareMem_eq)
qed

lemma le_word_inject:
  assumes "length as = length bs" "8 * length as \<le> LENGTH('a)"
  shows "(le_word as :: 'a::len word) = le_word bs \<longleftrightarrow> as = bs"
  using assms by (metis le_bytes_le_word)

lemma rd32_mapped: "mapped m p 4 \<Longrightarrow> rd32 m p = Some (le_word (region m p 4))"
  by (simp add: rd32_def rd_bytes_def)

lemma word_or_eq_0: "(a :: 'a::len word) OR b = 0 \<longleftrightarrow> a = 0 \<and> b = 0"
  by (auto simp: bit_eq_iff bit_simps)

lemma region_16:
  "region m p 16 = region m p 4 @ region m (p + 4) 4 @ region m (p + 8) 4 @ region m (p + 12) 4"
  using region_append [of m p 4 12] region_append [of m "p + 4" 4 8] region_append [of m "p + 8" 4 4]
  by (simp add: add.commute [of p])

lemma RtCompareGuid_eq:
  assumes "mapped m g1 16" "mapped m g2 16"
  shows "RtCompareGuid m g1 g2 = Some (region m g1 16 = region m g2 16)"
proof -
  have m1: "mapped m g1 4" "mapped m (g1 + 4) 4" "mapped m (g1 + 8) 4" "mapped m (g1 + 12) 4"
    and m2: "mapped m g2 4" "mapped m (g2 + 4) 4" "mapped m (g2 + 8) 4" "mapped m (g2 + 12) 4"
    using assms by (auto simp: mapped_def)
  have "region m g1 16 = region m g2 16 \<longleftrightarrow>
      region m g1 4 = region m g2 4 \<and> region m (g1 + 4) 4 = region m (g2 + 4) 4 \<and>
      region m (g1 + 8) 4 = region m (g2 + 8) 4 \<and> region m (g1 + 12) 4 = region m (g2 + 12) 4"
    unfolding region_16 using assms by (auto simp: mapped_def append_eq_append_conv)
  moreover have "(le_word (region m p 4) :: u32) = le_word (region m q 4) \<longleftrightarrow>
      region m p 4 = region m q 4" if "mapped m p 4" "mapped m q 4" for p q
    using that by (intro le_word_inject) (auto simp: mapped_def)
  ultimately show ?thesis using m1 m2
    by (simp add: RtCompareGuid_def rd32_mapped Let_def word_or_eq_0)
qed

subsection \<open>Properties\<close>

text \<open>C13. \<open>RtCopyMem\<close> (behind \<open>CopyMem\<close>) is a memory move: for any two mapped ranges, overlapping
  or not, the destination afterwards holds the bytes the source held before the call, and no byte
  outside the destination changes. No access faults.\<close>

theorem RtCopyMem_moves:
  assumes "mapped m Dest len" "mapped m Src len"
  shows "\<exists>m'. RtCopyMem m Dest Src len = Some m' \<and>
     rd_bytes m' Dest len = rd_bytes m Src len \<and> same_outside m m' Dest len"
proof -
  have "rd_bytes (overwrite m Dest (region m Src len)) Dest len = rd_bytes m Src len"
    using assms rd_bytes_overwrite_same [of m Dest "region m Src len"]
    by (simp add: rd_bytes_def mapped_def)
  with assms show ?thesis
    using same_outside_overwrite [of Dest "region m Src len" m]
    by (auto simp: copy_mem.copy_any mapped_def)
qed

theorem RtCopyMem_moves_witness:
  "RtCopyMem [0, 1, 2, 3, 4, 5] 2 1 3 = Some [0, 1, 1, 2, 3, 5] \<and>
   (\<exists>m'. RtCopyMem [0, 1, 2, 3, 4, 5] 2 1 3 = Some m' \<and>
     rd_bytes m' 2 3 = rd_bytes [0, 1, 2, 3, 4, 5] 1 3 \<and> same_outside [0, 1, 2, 3, 4, 5] m' 2 3)"
proof
  show "RtCopyMem [0, 1, 2, 3, 4, 5] 2 1 3 = Some [0, 1, 1, 2, 3, 5]" by code_simp
  show "\<exists>m'. RtCopyMem [0, 1, 2, 3, 4, 5] 2 1 3 = Some m' \<and>
     rd_bytes m' 2 3 = rd_bytes [0, 1, 2, 3, 4, 5] 1 3 \<and> same_outside [0, 1, 2, 3, 4, 5] m' 2 3"
    by (rule RtCopyMem_moves) (simp_all add: mapped_def)
qed

text \<open>\<open>CompareGuid\<close> on two mapped GUIDs answers true exactly when all 16 bytes agree:
  collecting the four 32-bit differences with \<open>|=\<close> loses nothing, although each difference wraps.\<close>

theorem CompareGuid_iff_bytes:
  assumes "mapped m Guid1 16" "mapped m Guid2 16"
  shows "CompareGuid_1 m Guid1 Guid2 = Some (rd_bytes m Guid1 16 = rd_bytes m Guid2 16)"
  using assms by (simp add: CompareGuid_1_def RtCompareGuid_eq rd_bytes_def)

theorem CompareGuid_iff_bytes_witness:
  "CompareGuid_1 (0 # replicate 16 7 @ replicate 15 7 @ [8]) 1 17 =
     Some (rd_bytes (0 # replicate 16 7 @ replicate 15 7 @ [8]) 1 16 =
           rd_bytes (0 # replicate 16 7 @ replicate 15 7 @ [8]) 17 16)"
  by (rule CompareGuid_iff_bytes) (simp_all add: mapped_def)

end
