(* ===== verification/RtStr.thy ===== *)
theory RtStr
  imports RtMem
begin

text \<open>
  The string routines of lib/runtime/rtstr.c and their boot-time wrappers in lib/str.c:
  CHAR16 strings in flat memory. A loop is a recursive function that reads the characters it
  reads in the source, in the same order, so that the fault behaviour is the source's.
  Character counts are natural numbers; the products that the source computes in \<open>UINTN\<close>
  are reduced with \<open>uintn\<close>.
\<close>

subsection \<open>Definitions\<close>

lemma rd16_bound [termination_simp]: "rd16 m p = Some c \<Longrightarrow> p + 2 \<le> length m \<and> 0 < p"
  by (auto simp: rd16_def rd_bytes_def mapped_def split: if_splits)

lemma wr16_length [termination_simp]: "wr16 m p v = Some m' \<Longrightarrow> length m' = length m"
  by (auto simp: wr16_def wr_bytes_def mapped_def split: if_splits)

function RtStrCmp :: "mem \<Rightarrow> addr \<Rightarrow> addr \<Rightarrow> int option" where
  "RtStrCmp m s1 s2 = do {
     c1 \<leftarrow> rd16 m s1; c2 \<leftarrow> rd16 m s2;
     if c1 \<noteq> 0 \<and> c1 = c2 then RtStrCmp m (s1 + 2) (s2 + 2)
     else Some (uint c1 - uint c2) }"
  by pat_completeness auto
termination
  by (relation "measure (\<lambda>(m, s1, s2). length m - s1)") (auto dest: rd16_bound)

function RtStrCpy :: "mem \<Rightarrow> addr \<Rightarrow> addr \<Rightarrow> mem option" where
  "RtStrCpy m Dest Src = do {
     c \<leftarrow> rd16 m Src;
     if c \<noteq> 0 then do { m' \<leftarrow> wr16 m Dest c; RtStrCpy m' (Dest + 2) (Src + 2) }
     else wr16 m Dest 0 }"
  by pat_completeness auto
termination
  by (relation "measure (\<lambda>(m, d, s). length m - s)") (auto dest!: rd16_bound wr16_length)

function RtStpCpy :: "mem \<Rightarrow> addr \<Rightarrow> addr \<Rightarrow> (mem \<times> addr) option" where
  "RtStpCpy m Dest Src = do {
     c \<leftarrow> rd16 m Src;
     if c \<noteq> 0 then do { m' \<leftarrow> wr16 m Dest c; RtStpCpy m' (Dest + 2) (Src + 2) }
     else do { m' \<leftarrow> wr16 m Dest 0; Some (m', Dest) } }"
  by pat_completeness auto
termination
  by (relation "measure (\<lambda>(m, d, s). length m - s)") (auto dest!: rd16_bound wr16_length)

function RtStrLen_loop :: "mem \<Rightarrow> addr \<Rightarrow> nat \<Rightarrow> nat option" where
  "RtStrLen_loop m s1 len = do {
     c \<leftarrow> rd16 m s1;
     if c \<noteq> 0 then RtStrLen_loop m (s1 + 2) (len + 1) else Some len }"
  by pat_completeness auto
termination
  by (relation "measure (\<lambda>(m, s, n). length m - s)") (auto dest: rd16_bound)

definition RtStrLen :: "mem \<Rightarrow> addr \<Rightarrow> nat option" where
  "RtStrLen m s1 = RtStrLen_loop m s1 0"

definition RtStrSize :: "mem \<Rightarrow> addr \<Rightarrow> nat option" where
  "RtStrSize m s1 = do { len \<leftarrow> RtStrLen_loop m s1 0; Some (uintn ((len + 1) * 2)) }"

text \<open>The character at \<open>s1\<close> is read before \<open>i < Len\<close> is tested.\<close>

function RtStrnLen_loop :: "mem \<Rightarrow> addr \<Rightarrow> nat \<Rightarrow> nat \<Rightarrow> nat option" where
  "RtStrnLen_loop m s1 Len i = do {
     c \<leftarrow> rd16 m s1;
     if c \<noteq> 0 \<and> i < Len then RtStrnLen_loop m (s1 + 2) Len (i + 1) else Some i }"
  by pat_completeness auto
termination
  by (relation "measure (\<lambda>(m, s, n, i). length m - s)") (auto dest: rd16_bound)

definition RtStrnLen :: "mem \<Rightarrow> addr \<Rightarrow> nat \<Rightarrow> nat option" where
  "RtStrnLen m s1 Len = RtStrnLen_loop m s1 Len 0"

definition RtStrnCpy :: "mem \<Rightarrow> addr \<Rightarrow> addr \<Rightarrow> nat \<Rightarrow> mem option" where
  "RtStrnCpy m Dest Src Len = do {
     Size \<leftarrow> RtStrnLen m Src Len;
     m \<leftarrow> (if Size \<noteq> Len then RtSetMem m (Dest + 2 * Size) (uintn ((Len - Size) * 2)) 0 else Some m);
     RtCopyMemC m Dest Src (uintn (Size * 2)) }"

definition RtStpnCpy :: "mem \<Rightarrow> addr \<Rightarrow> addr \<Rightarrow> nat \<Rightarrow> (mem \<times> addr) option" where
  "RtStpnCpy m Dest Src Len = do {
     Size \<leftarrow> RtStrnLen m Src Len;
     m \<leftarrow> (if Size \<noteq> Len then RtSetMem m (Dest + 2 * Size) (uintn ((Len - Size) * 2)) 0 else Some m);
     m \<leftarrow> RtCopyMemC m Dest Src (uintn (Size * 2));
     Some (m, Dest + 2 * Size) }"

definition RtStrCat :: "mem \<Rightarrow> addr \<Rightarrow> addr \<Rightarrow> mem option" where
  "RtStrCat m Dest Src = do { len \<leftarrow> RtStrLen m Dest; RtStrCpy m (Dest + 2 * len) Src }"

definition RtStrnCat :: "mem \<Rightarrow> addr \<Rightarrow> addr \<Rightarrow> nat \<Rightarrow> mem option" where
  "RtStrnCat m Dest Src Len = do {
     DestSize \<leftarrow> RtStrLen m Dest;
     Size \<leftarrow> RtStrnLen m Src Len;
     m \<leftarrow> RtCopyMemC m (Dest + 2 * DestSize) Src (uintn (Size * 2));
     wr16 m (Dest + 2 * (DestSize + Size)) 0 }"

definition RtBCDtoDecimal :: "u8 \<Rightarrow> u8" where
  "RtBCDtoDecimal BcdValue =
     (let High = drop_bit 4 (ucast BcdValue :: u64);
          Low = ucast BcdValue - push_bit 4 High
      in ucast (Low + High * 10))"

definition RtDecimaltoBCD :: "u8 \<Rightarrow> u8" where
  "RtDecimaltoBCD DecValue =
     (let High = (ucast DecValue :: u64) div 10;
          Low = ucast DecValue - High * 10
      in ucast (Low + push_bit 4 High))"

text \<open>lib/str.c and lib/misc.c: the wrappers.\<close>

definition StrCmp :: "mem \<Rightarrow> addr \<Rightarrow> addr \<Rightarrow> int option" where
  "StrCmp m s1 s2 = RtStrCmp m s1 s2"

definition StrCpy :: "mem \<Rightarrow> addr \<Rightarrow> addr \<Rightarrow> mem option" where
  "StrCpy m Dest Src = RtStrCpy m Dest Src"

definition StrnCpy :: "mem \<Rightarrow> addr \<Rightarrow> addr \<Rightarrow> nat \<Rightarrow> mem option" where
  "StrnCpy m Dest Src Len = RtStrnCpy m Dest Src Len"

definition StpCpy :: "mem \<Rightarrow> addr \<Rightarrow> addr \<Rightarrow> (mem \<times> addr) option" where
  "StpCpy m Dest Src = RtStpCpy m Dest Src"

definition StpnCpy :: "mem \<Rightarrow> addr \<Rightarrow> addr \<Rightarrow> nat \<Rightarrow> (mem \<times> addr) option" where
  "StpnCpy m Dest Src Len = RtStpnCpy m Dest Src Len"

definition StrCat :: "mem \<Rightarrow> addr \<Rightarrow> addr \<Rightarrow> mem option" where
  "StrCat m Dest Src = RtStrCat m Dest Src"

definition StrnCat :: "mem \<Rightarrow> addr \<Rightarrow> addr \<Rightarrow> nat \<Rightarrow> mem option" where
  "StrnCat m Dest Src Len = RtStrnCat m Dest Src Len"

definition StrnLen :: "mem \<Rightarrow> addr \<Rightarrow> nat \<Rightarrow> nat option" where
  "StrnLen m s1 Len = RtStrnLen m s1 Len"

definition StrLen :: "mem \<Rightarrow> addr \<Rightarrow> nat option" where
  "StrLen m s1 = RtStrLen m s1"

definition StrSize :: "mem \<Rightarrow> addr \<Rightarrow> nat option" where
  "StrSize m s1 = RtStrSize m s1"

definition DecimaltoBCD :: "u8 \<Rightarrow> u8" where
  "DecimaltoBCD DecValue = RtDecimaltoBCD DecValue"

definition BCDtoDecimal :: "u8 \<Rightarrow> u8" where
  "BCDtoDecimal BcdValue = RtBCDtoDecimal BcdValue"

declare RtStrCmp.simps [simp del] RtStrCpy.simps [simp del] RtStpCpy.simps [simp del]
  RtStrLen_loop.simps [simp del] RtStrnLen_loop.simps [simp del]

subsection \<open>Lengths and comparison\<close>

lemma RtStrLen_loop_eq: "str16_at m p s \<Longrightarrow> RtStrLen_loop m p n = Some (n + length s)"
proof (induction s arbitrary: p n)
  case Nil
  then show ?case by (simp add: RtStrLen_loop.simps [of m p])
next
  case (Cons c cs)
  then show ?case by (simp add: RtStrLen_loop.simps [of m p])
qed

lemma RtStrLen_eq [fault_free]: "str16_at m p s \<Longrightarrow> RtStrLen m p = Some (length s)"
  by (simp add: RtStrLen_def RtStrLen_loop_eq)

lemma RtStrSize_eq [fault_free]:
  "str16_at m p s \<Longrightarrow> RtStrSize m p = Some (uintn (2 * length s + 2))"
  by (simp add: RtStrSize_def RtStrLen_loop_eq algebra_simps)

lemma RtStrnLen_loop_eq: "str16_at m p s \<Longrightarrow> i \<le> n \<Longrightarrow> RtStrnLen_loop m p n i = Some (min (i + length s) n)"
proof (induction s arbitrary: p i)
  case Nil
  then show ?case by (simp add: RtStrnLen_loop.simps [of m p])
next
  case (Cons c cs)
  show ?case
  proof (cases "i < n")
    case True
    then have "RtStrnLen_loop m (p + 2) n (i + 1) = Some (min (i + 1 + length cs) n)"
      using Cons by simp
    then show ?thesis using Cons.prems True by (simp add: RtStrnLen_loop.simps [of m p])
  next
    case False
    then show ?thesis using Cons.prems by (simp add: RtStrnLen_loop.simps [of m p])
  qed
qed

lemma RtStrnLen_eq [fault_free]: "str16_at m p s \<Longrightarrow> RtStrnLen m p n = Some (min (length s) n)"
  by (simp add: RtStrnLen_def RtStrnLen_loop_eq)

text \<open>The value \<open>StrCmp\<close> returns: the difference at the first position where the strings,
  each with its NUL, differ.\<close>

fun str_diff :: "'a::len word list \<Rightarrow> 'a word list \<Rightarrow> int" where
  "str_diff [] [] = 0"
| "str_diff [] (d # ds) = - uint d"
| "str_diff (c # cs) [] = uint c"
| "str_diff (c # cs) (d # ds) = (if c = d then str_diff cs ds else uint c - uint d)"

lemma str_diff_zero_iff:
  "0 \<notin> set s \<Longrightarrow> 0 \<notin> set t \<Longrightarrow> str_diff s t = 0 \<longleftrightarrow> s = t"
  by (induction s t rule: str_diff.induct) (auto simp: uint_0_iff word_uint_eq_iff [symmetric])

lemma RtStrCmp_eq [fault_free]:
  "str16_at m p s \<Longrightarrow> str16_at m q t \<Longrightarrow> RtStrCmp m p q = Some (str_diff s t)"
proof (induction s t arbitrary: p q rule: str_diff.induct)
  case 1
  then show ?case by (simp add: RtStrCmp.simps [of m p])
next
  case (2 d ds)
  then show ?case by (simp add: RtStrCmp.simps [of m p])
next
  case (3 c cs)
  then show ?case by (simp add: RtStrCmp.simps [of m p])
next
  case (4 c cs d ds)
  then show ?case by (auto simp: RtStrCmp.simps [of m p])
qed

subsection \<open>Copying\<close>

lemma wr16_overwrite:
  "mapped m p 2 \<Longrightarrow> wr16 m p v = Some (overwrite m p (le_bytes 2 v))"
  by (simp add: wr16_def wr_bytes_def)

text \<open>
  A left-to-right copy is right when the destination does not start inside the string.
\<close>

lemma RtStpCpy_eq:
  assumes "str16_at m src t" "mapped m dest (2 * length t + 2)"
    "dest \<le> src \<or> src + 2 * length t + 2 \<le> dest"
  shows "RtStpCpy m dest src = Some (overwrite m dest (enc16 (t @ [0])), dest + 2 * length t)"
  using assms
proof (induction t arbitrary: m src dest)
  case Nil
  then show ?case by (simp add: RtStpCpy.simps [of m dest] wr16_overwrite numeral_2_eq_2)
next
  case (Cons c cs)
  let ?m = "overwrite m dest (le_bytes 2 c)"
  have w: "wr16 m dest c = Some ?m" using Cons.prems by (simp add: wr16_overwrite mapped_def)
  have "str16_at ?m (src + 2) cs"
    using Cons.prems by (intro str16_at_overwrite_disjoint) (auto simp: disjoint_ranges_def mapped_def)
  then have "RtStpCpy ?m (dest + 2) (src + 2) =
      Some (overwrite ?m (dest + 2) (enc16 (cs @ [0])), dest + 2 + 2 * length cs)"
    using Cons.prems by (intro Cons.IH) (auto simp: mapped_def)
  moreover have "overwrite ?m (dest + length (le_bytes 2 c)) (enc16 (cs @ [0])) =
      overwrite m dest (le_bytes 2 c @ enc16 (cs @ [0]))"
    using Cons.prems by (intro overwrite_append) (auto simp: mapped_def)
  ultimately show ?case using Cons.prems w
    by (simp add: RtStpCpy.simps [of m dest])
qed

lemma RtStrCpy_RtStpCpy: "RtStrCpy m d s = map_option fst (RtStpCpy m d s)"
proof (induction m d s rule: RtStrCpy.induct)
  case (1 m d s)
  then show ?case
    by (auto simp: RtStrCpy.simps [of m d s] RtStpCpy.simps [of m d s] split: bind_splits)
qed

lemma RtStrCpy_eq:
  assumes "str16_at m src t" "mapped m dest (2 * length t + 2)"
    "dest \<le> src \<or> src + 2 * length t + 2 \<le> dest"
  shows "RtStrCpy m dest src = Some (overwrite m dest (enc16 (t @ [0])))"
  using RtStpCpy_eq [OF assms] by (simp add: RtStrCpy_RtStpCpy)

lemma overwrite_prepend:
  assumes "p + length as + length bs \<le> length m"
  shows "overwrite (overwrite m (p + length as) bs) p as = overwrite m p (as @ bs)"
  using assms by (intro overwrite_eqI) (auto simp: nth_overwrite nth_append)

lemma str16_at_prefix:
  assumes "str16_at m p s" "n \<le> length s"
  shows "region m p (2 * n) = enc16 (take n s)"
proof -
  have r: "region m p (2 * length s + 2) = enc16 (s @ [0])" using assms by (simp add: str16_at_region)
  have "region m p (2 * n) = take (2 * n) (region m p (2 * length s + 2))"
    using assms(2) by (simp add: region_def min_def)
  also have "\<dots> = take (2 * n) (enc16 (take n s) @ enc16 (drop n s @ [0]))"
    using r by (metis append_assoc append_take_drop_id enc16_append)
  also have "\<dots> = enc16 (take n s)" using assms(2) by (simp add: min_def)
  finally show ?thesis .
qed

lemma enc16_replicate_0: "enc16 (replicate n 0) = replicate (2 * n) 0"
  by (induction n) (auto simp: numeral_2_eq_2)

text \<open>The bytes \<open>StrnCpy\<close> writes: at most \<open>n\<close> characters, then zeros up to \<open>n\<close> characters.\<close>

definition strn_bytes :: "nat \<Rightarrow> u16 list \<Rightarrow> u8 list" where
  "strn_bytes n t = enc16 (take n t @ replicate (n - length t) 0)"

lemma length_strn_bytes [simp]: "length (strn_bytes n t) = 2 * n"
  by (auto simp: strn_bytes_def min_def)

lemma RtStpnCpy_eq:
  assumes "str16_at m src t" "mapped m dest (2 * n)" "disjoint_ranges dest (2 * n) src (2 * length t + 2)"
    "2 * n < 2 ^ 64"
  shows "RtStpnCpy m dest src n = Some (overwrite m dest (strn_bytes n t), dest + 2 * min (length t) n)"
proof -
  let ?k = "min (length t) n"
  let ?as = "enc16 (take n t)" and ?bs = "replicate (2 * (n - length t)) (0 :: u8)"
  let ?m = "overwrite m (dest + 2 * ?k) ?bs"
  have len: "length ?as = 2 * ?k" by (simp add: min.commute)
  have room: "dest + length ?as + length ?bs \<le> length m" "0 < dest"
    using assms(2) by (auto simp: mapped_def min_def split: if_splits)
  have set: "(if ?k \<noteq> n then RtSetMem m (dest + 2 * ?k) (uintn ((n - ?k) * 2)) 0 else Some m) = Some ?m"
    using assms(2,4) set_mem.fill [of m "dest + 2 * ?k" "2 * (n - length t)" 0]
    by (auto simp: mapped_def min_def mult.commute)
  have "region ?m src (2 * ?k) = region m src (2 * ?k)"
    using assms by (intro region_overwrite_disjoint)
      (auto simp: disjoint_ranges_def mapped_def dest!: str16_at_mapped)
  also have "\<dots> = ?as" using str16_at_prefix [OF assms(1), of ?k] by (simp add: min_def)
  finally have "RtCopyMemC ?m dest src (2 * ?k) = Some (overwrite ?m dest ?as)"
    using assms(1,2) room len copy_mem_c.copy_any [of ?m dest "2 * ?k" src]
    by (auto simp: mapped_def min_def split: if_splits dest!: str16_at_mapped)
  moreover have "uintn (2 * ?k) = 2 * ?k" using assms(4) by (auto intro!: uintn_small simp: min_def)
  moreover have "overwrite ?m dest ?as = overwrite m dest (?as @ ?bs)"
    using overwrite_prepend [OF room(1)] by (simp add: len)
  moreover have "?as @ ?bs = strn_bytes n t" by (simp add: strn_bytes_def enc16_replicate_0)
  ultimately show ?thesis
    using set by (simp add: RtStpnCpy_def RtStrnLen_eq [OF assms(1)] mult.commute)
qed

lemma RtStrnCpy_RtStpnCpy: "RtStrnCpy m d s n = map_option fst (RtStpnCpy m d s n)"
  by (auto simp: RtStrnCpy_def RtStpnCpy_def split: bind_splits)

lemma RtStrnCpy_eq:
  assumes "str16_at m src t" "mapped m dest (2 * n)" "disjoint_ranges dest (2 * n) src (2 * length t + 2)"
    "2 * n < 2 ^ 64"
  shows "RtStrnCpy m dest src n = Some (overwrite m dest (strn_bytes n t))"
  using RtStpnCpy_eq [OF assms] by (simp add: RtStrnCpy_RtStpnCpy)

text \<open>Writing a terminated string right after the characters of another one concatenates them.\<close>

lemma str16_at_append:
  assumes "str16_at m p u" "0 \<notin> set v" "mapped m p (2 * (length u + length v) + 2)"
  shows "str16_at (overwrite m (p + 2 * length u) (enc16 (v @ [0]))) p (u @ v)"
proof -
  let ?q = "p + 2 * length u" and ?w = "enc16 (v @ [0])"
  let ?m = "overwrite m ?q ?w"
  have q: "mapped m ?q (length ?w)" using assms(3) by (auto simp: mapped_def)
  have "region ?m p (2 * length u) = region m p (2 * length u)"
    using q by (intro region_overwrite_disjoint) (auto simp: disjoint_ranges_def mapped_def)
  then have a: "region ?m p (2 * length u) = enc16 u"
    using str16_at_prefix [OF assms(1), of "length u"] by simp
  have b: "region ?m ?q (length ?w) = ?w" using q by (intro region_overwrite_same) (simp add: mapped_def)
  have "region ?m p (2 * length u + length ?w) = enc16 u @ ?w"
    by (simp only: region_append a b)
  moreover have "0 \<notin> set u" using assms(1) by (simp add: str16_at_region)
  ultimately show ?thesis
    using assms(2,3) q by (simp add: str16_at_region mapped_def algebra_simps)
qed

lemma RtStrCat_eq:
  assumes "str16_at m dest u" "str16_at m src t" "mapped m dest (2 * (length u + length t) + 2)"
    "disjoint_ranges dest (2 * (length u + length t) + 2) src (2 * length t + 2)"
  shows "RtStrCat m dest src = Some (overwrite m (dest + 2 * length u) (enc16 (t @ [0])))"
proof -
  have "RtStrCpy m (dest + 2 * length u) src = Some (overwrite m (dest + 2 * length u) (enc16 (t @ [0])))"
    using assms(2,3,4) by (intro RtStrCpy_eq) (auto simp: mapped_def disjoint_ranges_def)
  then show ?thesis by (simp add: RtStrCat_def RtStrLen_eq [OF assms(1)])
qed

lemma RtStrnCat_eq:
  assumes "str16_at m dest u" "str16_at m src t" "length m < 2 ^ 64"
    "mapped m dest (2 * (length u + min (length t) n) + 2)"
    "disjoint_ranges dest (2 * (length u + min (length t) n) + 2) src (2 * length t + 2)"
  shows "RtStrnCat m dest src n = Some (overwrite m (dest + 2 * length u) (enc16 (take n t @ [0])))"
proof -
  let ?k = "min (length t) n" and ?d = "dest + 2 * length u"
  have src: "mapped m src (2 * length t + 2)" using assms(2) by (rule str16_at_mapped)
  have r: "region m src (2 * ?k) = enc16 (take n t)"
    using str16_at_prefix [OF assms(2), of ?k] by (simp add: min_def)
  have "RtCopyMemC m ?d src (2 * ?k) = Some (overwrite m ?d (enc16 (take n t)))"
    using assms(4) src copy_mem_c.copy_any [of m ?d "2 * ?k" src] r
    by (auto simp: mapped_def min_def split: if_splits)
  moreover have "uintn (2 * ?k) = 2 * ?k"
    using src assms(3) by (intro uintn_small) (auto simp: mapped_def min_def split: if_splits)
  moreover have "wr16 (overwrite m ?d (enc16 (take n t))) (?d + 2 * ?k) 0 =
      Some (overwrite m ?d (enc16 (take n t @ [0])))"
  proof -
    have len: "2 * ?k = length (enc16 (take n t))" by (simp add: min.commute)
    have "overwrite (overwrite m ?d (enc16 (take n t))) (?d + length (enc16 (take n t))) (le_bytes 2 (0 :: u16))
        = overwrite m ?d (enc16 (take n t) @ le_bytes 2 (0 :: u16))"
      using assms(4) by (intro overwrite_append) (auto simp: mapped_def min_def split: if_splits)
    then show ?thesis
      using assms(4) unfolding len
      by (subst wr16_overwrite) (auto simp: mapped_def min_def split: if_splits)
  qed
  moreover have "dest + 2 * (length u + ?k) = ?d + 2 * ?k" by simp
  ultimately show ?thesis
    by (simp add: RtStrnCat_def RtStrLen_eq [OF assms(1)] RtStrnLen_eq [OF assms(2)] mult.commute add.assoc)
qed

subsection \<open>Properties\<close>

text \<open>\<open>StrnCpy\<close> with a terminated source: exactly \<open>Len\<close> characters of the destination are
  written, the first \<open>Len\<close> characters of the source padded with NULs, and nothing else changes.
  (No terminator is added when the source has \<open>Len\<close> characters or more.)\<close>

theorem StrnCpy_pads:
  assumes "str16_at m Src t" "mapped m Dest (2 * Len)"
    "disjoint_ranges Dest (2 * Len) Src (2 * length t + 2)" "2 * Len < 2 ^ 64"
  shows "\<exists>m'. StrnCpy m Dest Src Len = Some m' \<and>
     rd_bytes m' Dest (2 * Len) = Some (enc16 (take Len t @ replicate (Len - length t) 0)) \<and>
     same_outside m m' Dest (2 * Len)"
proof -
  have "rd_bytes (overwrite m Dest (strn_bytes Len t)) Dest (2 * Len) = Some (strn_bytes Len t)"
    using assms(2) rd_bytes_overwrite_same [of m Dest "strn_bytes Len t"] by simp
  moreover have "same_outside m (overwrite m Dest (strn_bytes Len t)) Dest (2 * Len)"
    using assms(2) same_outside_overwrite [of Dest "strn_bytes Len t" m] by (simp add: mapped_def)
  ultimately show ?thesis
    using RtStrnCpy_eq [OF assms] by (simp add: StrnCpy_def strn_bytes_def [symmetric] del: enc16_append)
qed

theorem StrnCpy_pads_witness:
  "\<exists>m'. StrnCpy [0, 65, 0, 0, 0, 9, 9, 9, 9, 9, 9, 9] 5 1 3 = Some m' \<and>
     rd_bytes m' 5 (2 * 3) = Some (enc16 (take 3 [65] @ replicate (3 - length [65 :: u16]) 0)) \<and>
     same_outside [0, 65, 0, 0, 0, 9, 9, 9, 9, 9, 9, 9] m' 5 (2 * 3)"
proof (rule StrnCpy_pads)
  show "str16_at [0, 65, 0, 0, 0, 9, 9, 9, 9, 9, 9, 9] 1 [65]" by code_simp
qed (simp_all add: mapped_def disjoint_ranges_def)

text \<open>C34. \<open>StrnCat\<close> appends at most \<open>Len\<close> characters and always terminates the result; the source
  string is kept and nothing outside the destination string changes.\<close>

theorem StrnCat_appends:
  assumes "str16_at m Dest u" "str16_at m Src t" "length m < 2 ^ 64"
    "mapped m Dest (2 * (length u + min (length t) Len) + 2)"
    "disjoint_ranges Dest (2 * (length u + min (length t) Len) + 2) Src (2 * length t + 2)"
  shows "\<exists>m'. StrnCat m Dest Src Len = Some m' \<and>
     str16_at m' Dest (u @ take Len t) \<and> str16_at m' Src t \<and>
     same_outside m m' Dest (2 * (length u + min (length t) Len) + 2)"
proof -
  let ?d = "Dest + 2 * length u" and ?bs = "enc16 (take Len t @ [0])"
  let ?m = "overwrite m ?d ?bs"
  have z: "0 \<notin> set t" using assms(2) by (simp add: str16_at_region)
  have room: "?d + length ?bs \<le> length m" using assms(4) by (simp add: mapped_def min.commute)
  have "str16_at ?m Dest (u @ take Len t)"
    using assms(1,4) z by (intro str16_at_append) (auto simp: min.commute dest: in_set_takeD)
  moreover have "str16_at ?m Src t"
    using assms(5) room by (intro str16_at_overwrite_disjoint [OF assms(2)])
      (auto simp: disjoint_ranges_def min.commute)
  moreover have "same_outside m ?m Dest (2 * (length u + min (length t) Len) + 2)"
    by (rule same_outside_mono [OF same_outside_overwrite [OF room]]) (simp_all add: min.commute)
  ultimately show ?thesis using RtStrnCat_eq [OF assms] by (simp add: StrnCat_def)
qed

theorem StrnCat_appends_witness:
  "\<exists>m'. StrnCat [0, 65, 0, 0, 0, 9, 9, 66, 0, 67, 0, 0, 0] 1 7 1 = Some m' \<and>
     str16_at m' 1 ([65] @ take 1 [66, 67]) \<and> str16_at m' 7 [66, 67] \<and>
     same_outside [0, 65, 0, 0, 0, 9, 9, 66, 0, 67, 0, 0, 0] m' 1 (2 * (length [65::u16] + min (length [66::u16, 67]) 1) + 2)"
proof (rule StrnCat_appends)
  show "str16_at [0, 65, 0, 0, 0, 9, 9, 66, 0, 67, 0, 0, 0] 1 [65]" by code_simp
  show "str16_at [0, 65, 0, 0, 0, 9, 9, 66, 0, 67, 0, 0, 0] 7 [66, 67]" by code_simp
qed (simp_all add: mapped_def disjoint_ranges_def)

lemma RtStrnLen_loop_fault:
  assumes "\<forall>i < n. \<exists>c. rd16 m (p + 2 * i) = Some c \<and> c \<noteq> 0" "rd16 m (p + 2 * n) = None"
  shows "RtStrnLen_loop m p (k + n) k = None"
  using assms
proof (induction n arbitrary: p k)
  case 0
  then show ?case by (simp add: RtStrnLen_loop.simps [of m p])
next
  case (Suc n)
  have "\<exists>c. rd16 m p = Some c \<and> c \<noteq> 0" using Suc.prems(1) by auto
  moreover have "\<exists>c. rd16 m (p + 2 + 2 * i) = Some c \<and> c \<noteq> 0" if "i < n" for i
    using Suc.prems(1) [rule_format, of "Suc i"] that by (simp add: algebra_simps)
  moreover have "RtStrnLen_loop m (p + 2) (Suc k + n) (Suc k) = None"
    using Suc.prems(2) calculation(2) by (intro Suc.IH) (auto simp: algebra_simps)
  ultimately show ?case by (auto simp: RtStrnLen_loop.simps [of m p])
qed

text \<open>\<open>StrnLen\<close> tests the character before the bound, so on an array of exactly \<open>Len\<close> characters
  without a NUL it also reads the character behind the array: where that is not mapped the call
  faults, although no character of the array is out of bounds.\<close>

theorem StrnLen_reads_past_the_bound:
  assumes "\<forall>i < Len. \<exists>c. rd16 m (s1 + 2 * i) = Some c \<and> c \<noteq> 0" "rd16 m (s1 + 2 * Len) = None"
  shows "StrnLen m s1 Len = None"
  using RtStrnLen_loop_fault [OF assms, of 0] by (simp add: StrnLen_def RtStrnLen_def)

theorem StrnLen_reads_past_the_bound_witness:
  "StrnLen [0, 65, 0, 66, 0] 1 2 = None \<and> StrnLen [0, 65, 0, 66, 0, 67, 0] 1 2 = Some 2"
proof
  have "\<forall>i < 2. \<exists>c. rd16 [0, 65, 0, 66, 0] (1 + 2 * i) = Some c \<and> c \<noteq> 0"
    by (simp add: less_2_cases_iff rd16_def rd_bytes_def mapped_def region_def)
  then show "StrnLen [0, 65, 0, 66, 0] 1 2 = None"
    by (rule StrnLen_reads_past_the_bound) (simp add: rd16_def rd_bytes_def mapped_def)
  show "StrnLen [0, 65, 0, 66, 0, 67, 0] 1 2 = Some 2" by code_simp
qed

end
