(* ===== verification/StrLib.thy ===== *)
theory StrLib
  imports RtStr
begin

text \<open>
  The rest of lib/str.c: bounded and ASCII comparison, hexadecimal and decimal parsing, the
  pattern matcher \<open>MetaMatch\<close>, and the operations that go through \<open>UnicodeInterface\<close>.

  \<open>MetaMatch\<close> is specified against a matcher on pattern syntax trees (\<open>glob_item\<close>), whose text is
  what the C code reads. \<open>UnicodeInterface\<close> is \<open>None\<close> while it still points to the library's stub
  and \<open>Some\<close> of the firmware's interface, a parameter, otherwise.
\<close>

subsection \<open>Comparison\<close>

function StrnCmp :: "mem \<Rightarrow> addr \<Rightarrow> addr \<Rightarrow> nat \<Rightarrow> int option" where
  "StrnCmp m s1 s2 len = do {
     c1 \<leftarrow> rd16 m s1;
     if c1 \<noteq> 0 \<and> len \<noteq> 0 then do {
       c2 \<leftarrow> rd16 m s2;
       if c1 \<noteq> c2 then Some (uint c1 - uint c2) else StrnCmp m (s1 + 2) (s2 + 2) (len - 1) }
     else if len \<noteq> 0 then do { c2 \<leftarrow> rd16 m s2; Some (uint c1 - uint c2) }
     else Some 0 }"
  by pat_completeness auto
termination
  by (relation "measure (\<lambda>(m, s1, s2, n). length m - s1)") (auto dest!: rd16_bound)

lemma rd8_bound: "rd8 m p = Some c \<Longrightarrow> p + 1 \<le> length m \<and> 0 < p"
  by (auto simp: rd8_def split: if_splits)

function AsciiStrLen_loop :: "mem \<Rightarrow> addr \<Rightarrow> nat \<Rightarrow> nat option" where
  "AsciiStrLen_loop m s1 len = do {
     c \<leftarrow> rd8 m s1;
     if c \<noteq> 0 then AsciiStrLen_loop m (s1 + 1) (len + 1) else Some len }"
  by pat_completeness auto
termination
  by (relation "measure (\<lambda>(m, s, n). length m - s)") (auto dest!: rd8_bound)

definition AsciiStrLen :: "mem \<Rightarrow> addr \<Rightarrow> nat option" where
  "AsciiStrLen m s1 = AsciiStrLen_loop m s1 0"

text \<open>The results are \<open>UINTN\<close>: a negative difference wraps.\<close>

function AsciiStrCmp :: "mem \<Rightarrow> addr \<Rightarrow> addr \<Rightarrow> u64 option" where
  "AsciiStrCmp m s1 s2 = do {
     c1 \<leftarrow> rd8 m s1; c2 \<leftarrow> rd8 m s2;
     if c1 \<noteq> 0 \<and> c1 = c2 then AsciiStrCmp m (s1 + 1) (s2 + 1)
     else Some (word_of_int (uint c1 - uint c2)) }"
  by pat_completeness auto
termination
  by (relation "measure (\<lambda>(m, s1, s2). length m - s1)") (auto dest!: rd8_bound)

function AsciiStrnCmp :: "mem \<Rightarrow> addr \<Rightarrow> addr \<Rightarrow> nat \<Rightarrow> u64 option" where
  "AsciiStrnCmp m s1 s2 len = do {
     c1 \<leftarrow> rd8 m s1;
     if c1 \<noteq> 0 \<and> len \<noteq> 0 then do {
       c2 \<leftarrow> rd8 m s2;
       if c1 \<noteq> c2 then Some (word_of_int (uint c1 - uint c2)) else AsciiStrnCmp m (s1 + 1) (s2 + 1) (len - 1) }
     else if len \<noteq> 0 then do { c2 \<leftarrow> rd8 m s2; Some (word_of_int (uint c1 - uint c2)) }
     else Some 0 }"
  by pat_completeness auto
termination
  by (relation "measure (\<lambda>(m, s1, s2, n). length m - s1)") (auto dest!: rd8_bound)

declare StrnCmp.simps [simp del] AsciiStrLen_loop.simps [simp del] AsciiStrCmp.simps [simp del]
  AsciiStrnCmp.simps [simp del]

subsection \<open>Parsing numbers\<close>

function skip_spaces :: "mem \<Rightarrow> addr \<Rightarrow> addr option" where
  "skip_spaces m str = do {
     c \<leftarrow> rd16 m str;
     if c = 32 then skip_spaces m (str + 2) else Some str }"
  by pat_completeness auto
termination
  by (relation "measure (\<lambda>(m, s). length m - s)") (auto dest!: rd16_bound)

text \<open>A lower case digit is first made upper case; \<open>u\<close> is a \<open>UINTN\<close> and wraps.\<close>

function xtoi_loop :: "mem \<Rightarrow> addr \<Rightarrow> u64 \<Rightarrow> u64 option" where
  "xtoi_loop m str u = do {
     c \<leftarrow> rd16 m str;
     if c = 0 then Some u
     else let c = (if 97 \<le> c \<and> c \<le> 102 then c - 32 else c) in
       if (48 \<le> c \<and> c \<le> 57) \<or> (65 \<le> c \<and> c \<le> 70)
       then xtoi_loop m (str + 2) (push_bit 4 u OR (ucast c - (if 65 \<le> c then 55 else 48)))
       else Some u }"
  by pat_completeness auto
termination
  by (relation "measure (\<lambda>(m, s, u). length m - s)") (auto dest!: rd16_bound)

definition xtoi :: "mem \<Rightarrow> addr \<Rightarrow> u64 option" where
  "xtoi m str = do { str \<leftarrow> skip_spaces m str; xtoi_loop m str 0 }"

function Atoi_loop :: "mem \<Rightarrow> addr \<Rightarrow> u64 \<Rightarrow> u64 option" where
  "Atoi_loop m str u = do {
     c \<leftarrow> rd16 m str;
     if c = 0 then Some u
     else if 48 \<le> c \<and> c \<le> 57 then Atoi_loop m (str + 2) (u * 10 + ucast c - 48)
     else Some u }"
  by pat_completeness auto
termination
  by (relation "measure (\<lambda>(m, s, u). length m - s)") (auto dest!: rd16_bound)

definition Atoi :: "mem \<Rightarrow> addr \<Rightarrow> u64 option" where
  "Atoi m str = do { str \<leftarrow> skip_spaces m str; Atoi_loop m str 0 }"

declare skip_spaces.simps [simp del] xtoi_loop.simps [simp del] Atoi_loop.simps [simp del]

subsection \<open>The pattern matcher\<close>

text \<open>
  The loop that looks for \<open>c\<close> in a character set; \<open>l\<close> is the low end a following range uses.
  It returns FALSE from \<open>MetaMatch\<close>, or leaves the loop with the last \<open>p\<close> and \<open>Pattern\<close>.
  The high end of a range is read without advancing, so it is read again as a plain character.
\<close>

datatype set_exit = SetFalse | SetExit u16 addr

function MetaMatch_set :: "mem \<Rightarrow> u16 \<Rightarrow> u16 \<Rightarrow> addr \<Rightarrow> set_exit option" where
  "MetaMatch_set m c l Pattern = do {
     p \<leftarrow> rd16 m Pattern;
     let Pattern = Pattern + 2;
     if p = 0 then Some (SetExit p Pattern)
     else if p = 93 then Some SetFalse
     else if p = 45 then do {
       p \<leftarrow> rd16 m Pattern;
       if p = 0 \<or> p = 93 then Some SetFalse
       else if l \<le> c \<and> c \<le> p then Some (SetExit p Pattern)
       else if c = p then Some (SetExit p Pattern)
       else MetaMatch_set m c p Pattern }
     else if c = p then Some (SetExit p Pattern)
     else MetaMatch_set m c p Pattern }"
  by pat_completeness auto
termination
  by (relation "measure (\<lambda>(m, c, l, P). length m - P)") (auto dest!: rd16_bound)

function MetaMatch_skip :: "mem \<Rightarrow> u16 \<Rightarrow> addr \<Rightarrow> addr option" where
  "MetaMatch_skip m p Pattern =
     (if p \<noteq> 0 \<and> p \<noteq> 93
      then do { p \<leftarrow> rd16 m Pattern; MetaMatch_skip m p (Pattern + 2) }
      else Some Pattern)"
  by pat_completeness auto
termination
  by (relation "measure (\<lambda>(m, p, P). length m - P)") (auto dest!: rd16_bound)

declare MetaMatch_set.simps [simp del] MetaMatch_skip.simps [simp del]

lemma MetaMatch_set_advances: "MetaMatch_set m c l P = Some (SetExit p P') \<Longrightarrow> P < P'"
proof (induction m c l P rule: MetaMatch_set.induct)
  case (1 m c l P)
  from "1.prems" show ?case
    by (subst (asm) MetaMatch_set.simps)
      (auto simp: Let_def split: bind_splits if_splits dest: "1.IH")
qed

lemma MetaMatch_skip_advances: "MetaMatch_skip m p P = Some P' \<Longrightarrow> P \<le> P'"
proof (induction m p P rule: MetaMatch_skip.induct)
  case (1 m p P)
  show ?case
  proof (cases "p \<noteq> 0 \<and> p \<noteq> 93")
    case True
    with "1.prems" obtain q where "rd16 m P = Some q" "MetaMatch_skip m q (P + 2) = Some P'"
      by (auto simp: MetaMatch_skip.simps [of m p P] split: bind_splits)
    with True "1.IH" [of q] show ?thesis by simp
  next
    case False
    with "1.prems" show ?thesis by (auto simp: MetaMatch_skip.simps [of m p P])
  qed
qed

function MetaMatch :: "mem \<Rightarrow> addr \<Rightarrow> addr \<Rightarrow> bool option"
  and MetaMatch_star :: "mem \<Rightarrow> addr \<Rightarrow> addr \<Rightarrow> bool option" where
  "MetaMatch m String Pattern = do {
     p \<leftarrow> rd16 m Pattern;
     let Pattern = Pattern + 2;
     if p = 0 then do { c \<leftarrow> rd16 m String; Some (c = 0) }
     else if p = 42 then MetaMatch_star m String Pattern
     else if p = 63 then do {
       c \<leftarrow> rd16 m String;
       if c = 0 then Some False else MetaMatch m (String + 2) Pattern }
     else if p = 91 then do {
       c \<leftarrow> rd16 m String;
       if c = 0 then Some False
       else do {
         r \<leftarrow> MetaMatch_set m c 0 Pattern;
         case r of
           SetFalse \<Rightarrow> Some False
         | SetExit p Pattern \<Rightarrow> do {
             Pattern \<leftarrow> MetaMatch_skip m p Pattern;
             MetaMatch m (String + 2) Pattern } } }
     else do {
       c \<leftarrow> rd16 m String;
       if c \<noteq> p then Some False else MetaMatch m (String + 2) Pattern } }"
| "MetaMatch_star m String Pattern = do {
     c \<leftarrow> rd16 m String;
     if c \<noteq> 0 then do {
       r \<leftarrow> MetaMatch m String Pattern;
       if r then Some True else MetaMatch_star m (String + 2) Pattern }
     else MetaMatch m String Pattern }"
  by pat_completeness auto
termination
  by (relation "measures [\<lambda>x. case x of Inl (m, S, P) \<Rightarrow> length m - P | Inr (m, S, P) \<Rightarrow> length m - P,
      \<lambda>x. case x of Inl (m, S, P) \<Rightarrow> length m - S | Inr (m, S, P) \<Rightarrow> length m - S,
      \<lambda>x. case x of Inl _ \<Rightarrow> 0 | Inr _ \<Rightarrow> 1]")
    (auto dest!: rd16_bound MetaMatch_set_advances MetaMatch_skip_advances)

declare MetaMatch.simps [simp del] MetaMatch_star.simps [simp del]

subsection \<open>Unicode collation\<close>

text \<open>The operations of an \<open>EFI_UNICODE_COLLATION_INTERFACE\<close> the library calls.\<close>

record unicode_interface =
  StriColl :: "mem \<Rightarrow> addr \<Rightarrow> addr \<Rightarrow> int option"
  MetaiMatch_fn :: "mem \<Rightarrow> addr \<Rightarrow> addr \<Rightarrow> bool option"
  StrLwr_fn :: "mem \<Rightarrow> addr \<Rightarrow> mem option"
  StrUpr_fn :: "mem \<Rightarrow> addr \<Rightarrow> mem option"

definition LibStubStriCmp :: "mem \<Rightarrow> addr \<Rightarrow> addr \<Rightarrow> int option" where
  "LibStubStriCmp m s1 s2 = StrCmp m s1 s2"

definition LibStubStrLwrUpr :: "mem \<Rightarrow> addr \<Rightarrow> mem option" where
  "LibStubStrLwrUpr m Str = Some m"

definition LibStubMetaiMatch :: "mem \<Rightarrow> addr \<Rightarrow> addr \<Rightarrow> bool option" where
  "LibStubMetaiMatch m String Pattern = MetaMatch m String Pattern"

definition LibStubUnicodeInterface :: unicode_interface where
  "LibStubUnicodeInterface = \<lparr> StriColl = LibStubStriCmp, MetaiMatch_fn = LibStubMetaiMatch,
     StrLwr_fn = LibStubStrLwrUpr, StrUpr_fn = LibStubStrLwrUpr \<rparr>"

definition StriCmp :: "unicode_interface option \<Rightarrow> mem \<Rightarrow> addr \<Rightarrow> addr \<Rightarrow> int option" where
  "StriCmp UnicodeInterface m s1 s2 =
     (case UnicodeInterface of
        None \<Rightarrow> StriColl LibStubUnicodeInterface m s1 s2
      | Some ui \<Rightarrow> StriColl ui m s1 s2)"

definition StrLwr :: "unicode_interface option \<Rightarrow> mem \<Rightarrow> addr \<Rightarrow> mem option" where
  "StrLwr UnicodeInterface m Str =
     (case UnicodeInterface of
        None \<Rightarrow> StrLwr_fn LibStubUnicodeInterface m Str
      | Some ui \<Rightarrow> StrLwr_fn ui m Str)"

definition StrUpr :: "unicode_interface option \<Rightarrow> mem \<Rightarrow> addr \<Rightarrow> mem option" where
  "StrUpr UnicodeInterface m Str =
     (case UnicodeInterface of
        None \<Rightarrow> StrUpr_fn LibStubUnicodeInterface m Str
      | Some ui \<Rightarrow> StrUpr_fn ui m Str)"

definition MetaiMatch :: "unicode_interface option \<Rightarrow> mem \<Rightarrow> addr \<Rightarrow> addr \<Rightarrow> bool option" where
  "MetaiMatch UnicodeInterface m String Pattern =
     (case UnicodeInterface of
        None \<Rightarrow> MetaiMatch_fn LibStubUnicodeInterface m String Pattern
      | Some ui \<Rightarrow> MetaiMatch_fn ui m String Pattern)"

subsection \<open>The matcher on syntax trees\<close>

datatype set_item = One u16 | Span u16 u16
datatype glob_item = Lit u16 | AnyChar | AnyString | OneOf "set_item list"

primrec set_text :: "set_item \<Rightarrow> u16 list" where
  "set_text (One x) = [x]"
| "set_text (Span lo hi) = [lo, 45, hi]"

primrec item_text :: "glob_item \<Rightarrow> u16 list" where
  "item_text (Lit x) = [x]"
| "item_text AnyChar = [63]"
| "item_text AnyString = [42]"
| "item_text (OneOf xs) = [91] @ concat (map set_text xs) @ [93]"

definition glob_text :: "glob_item list \<Rightarrow> u16 list" where
  "glob_text ps = concat (map item_text ps)"

definition set_char_ok :: "u16 \<Rightarrow> bool" where
  "set_char_ok x \<longleftrightarrow> x \<noteq> 0 \<and> x \<noteq> 45 \<and> x \<noteq> 93"

primrec set_item_ok :: "set_item \<Rightarrow> bool" where
  "set_item_ok (One x) \<longleftrightarrow> set_char_ok x"
| "set_item_ok (Span lo hi) \<longleftrightarrow> set_char_ok lo \<and> set_char_ok hi"

primrec glob_item_ok :: "glob_item \<Rightarrow> bool" where
  "glob_item_ok (Lit x) \<longleftrightarrow> x \<noteq> 0 \<and> x \<noteq> 42 \<and> x \<noteq> 63 \<and> x \<noteq> 91"
| "glob_item_ok AnyChar \<longleftrightarrow> True"
| "glob_item_ok AnyString \<longleftrightarrow> True"
| "glob_item_ok (OneOf xs) \<longleftrightarrow> list_all set_item_ok xs"

text \<open>A range with its ends swapped still contains both ends, as in the code.\<close>

primrec in_set_item :: "u16 \<Rightarrow> set_item \<Rightarrow> bool" where
  "in_set_item c (One x) \<longleftrightarrow> c = x"
| "in_set_item c (Span lo hi) \<longleftrightarrow> c = lo \<or> (lo \<le> c \<and> c \<le> hi) \<or> c = hi"

primrec char_matches :: "glob_item \<Rightarrow> u16 \<Rightarrow> bool" where
  "char_matches (Lit x) c \<longleftrightarrow> c = x"
| "char_matches AnyChar c \<longleftrightarrow> True"
| "char_matches AnyString c \<longleftrightarrow> False"
| "char_matches (OneOf xs) c \<longleftrightarrow> list_ex (in_set_item c) xs"

primrec glob_matches :: "glob_item list \<Rightarrow> u16 list \<Rightarrow> bool" where
  "glob_matches [] s \<longleftrightarrow> s = []"
| "glob_matches (p # ps) s \<longleftrightarrow>
     (if p = AnyString then list_ex (\<lambda>k. glob_matches ps (drop k s)) [0..<Suc (length s)]
      else case s of [] \<Rightarrow> False | c # cs \<Rightarrow> char_matches p c \<and> glob_matches ps cs)"

lemma str16_at_append_iff:
  "str16_at m p (a @ b) \<longleftrightarrow> (\<forall>i < length a. rd16 m (p + 2 * i) = Some (a ! i)) \<and> 0 \<notin> set a \<and>
     str16_at m (p + 2 * length a) b"
proof (induction a arbitrary: p)
  case Nil
  show ?case by simp
next
  case (Cons c cs)
  have "(\<forall>i < length (c # cs). rd16 m (p + 2 * i) = Some ((c # cs) ! i)) \<longleftrightarrow>
      rd16 m p = Some c \<and> (\<forall>i < length cs. rd16 m (p + 2 + 2 * i) = Some (cs ! i))"
    by (simp add: All_less_Suc2 algebra_simps)
  then show ?case using Cons.IH [of "p + 2"] by (auto simp: algebra_simps)
qed

lemma str16_at_drop: "str16_at m p (a @ b) \<Longrightarrow> str16_at m (p + 2 * length a) b"
  by (simp add: str16_at_append_iff)

lemma MetaMatch_skip_eq:
  "str16_at m P (ys @ 93 # rest) \<Longrightarrow> 93 \<notin> set ys \<Longrightarrow> p \<noteq> 0 \<Longrightarrow> p \<noteq> 93 \<Longrightarrow>
   MetaMatch_skip m p P = Some (P + 2 * length ys + 2)"
proof (induction ys arbitrary: p P)
  case Nil
  then show ?case
    by (simp add: MetaMatch_skip.simps [of m p P] MetaMatch_skip.simps [of m 93])
next
  case (Cons y ys)
  then have "MetaMatch_skip m y (P + 2) = Some (P + 2 + 2 * length ys + 2)" by simp
  then show ?case using Cons.prems by (simp add: MetaMatch_skip.simps [of m p P])
qed

lemma set_text_ok:
  "list_all set_item_ok xs \<Longrightarrow> 93 \<notin> set (concat (map set_text xs)) \<and> 0 \<notin> set (concat (map set_text xs))"
proof (induction xs)
  case (Cons x xs)
  then show ?case by (cases x) (auto simp: set_char_ok_def)
qed simp

lemma MetaMatch_set_eq:
  assumes "list_all set_item_ok xs" "str16_at m P (concat (map set_text xs) @ 93 # rest)"
  shows "if list_ex (in_set_item c) xs
    then \<exists>p P' ys. MetaMatch_set m c l P = Some (SetExit p P') \<and> p \<noteq> 0 \<and> p \<noteq> 93 \<and>
      93 \<notin> set ys \<and> str16_at m P' (ys @ 93 # rest) \<and>
      P' + 2 * length ys = P + 2 * length (concat (map set_text xs))
    else MetaMatch_set m c l P = Some SetFalse"
  using assms
proof (induction xs arbitrary: P l)
  case Nil
  then show ?case by (simp add: MetaMatch_set.simps [of m c l P])
next
  case (Cons x xs)
  let ?ys = "concat (map set_text xs)"
  have ok: "93 \<notin> set ?ys" using Cons.prems(1) set_text_ok [of xs] by simp
  show ?case
  proof (cases x)
    case (One d)
    have d: "rd16 m P = Some d" "set_char_ok d" "str16_at m (P + 2) (?ys @ 93 # rest)"
      using Cons.prems One by auto
    show ?thesis
    proof (cases "c = d")
      case True
      then have "MetaMatch_set m c l P = Some (SetExit d (P + 2))"
        using d by (simp add: MetaMatch_set.simps [of m d l P] set_char_ok_def)
      with True One d ok show ?thesis by (auto simp: set_char_ok_def intro!: exI [of _ ?ys])
    next
      case False
      then have "MetaMatch_set m c l P = MetaMatch_set m c d (P + 2)"
        using d by (simp add: MetaMatch_set.simps [of m c l P] set_char_ok_def)
      then show ?thesis using Cons.IH [of "P + 2" d] Cons.prems(1) d(3) One False
        by (auto simp: algebra_simps split: if_splits)
    qed
  next
    case (Span lo hi)
    have r: "rd16 m P = Some lo" "rd16 m (P + 2) = Some 45" "rd16 m (P + 4) = Some hi"
      "set_char_ok lo" "set_char_ok hi" "str16_at m (P + 2) (45 # hi # ?ys @ 93 # rest)"
      "str16_at m (P + 4) (hi # ?ys @ 93 # rest)" "str16_at m (P + 6) (?ys @ 93 # rest)"
      using Cons.prems Span by (auto simp: algebra_simps)
    consider "c = lo" | "c \<noteq> lo" "(lo \<le> c \<and> c \<le> hi) \<or> c = hi"
      | "c \<noteq> lo" "\<not> (lo \<le> c \<and> c \<le> hi)" "c \<noteq> hi" by blast
    then show ?thesis
    proof cases
      case 1
      then have "MetaMatch_set m c l P = Some (SetExit lo (P + 2))"
        using r by (simp add: MetaMatch_set.simps [of m lo l P] set_char_ok_def)
      with 1 Span r ok show ?thesis
        by (auto simp: set_char_ok_def intro!: exI [of _ "45 # hi # ?ys"])
    next
      case 2
      then have "MetaMatch_set m c l P = Some (SetExit hi (P + 4))"
        using r by (auto simp: MetaMatch_set.simps [of m c l P] MetaMatch_set.simps [of m c lo "P + 2"]
            set_char_ok_def Let_def algebra_simps)
      with 2 Span r ok show ?thesis
        by (auto simp: set_char_ok_def intro!: exI [of _ "hi # ?ys"])
    next
      case 3
      then have "MetaMatch_set m c l P = MetaMatch_set m c hi (P + 6)"
        using r by (auto simp: MetaMatch_set.simps [of m c l P] MetaMatch_set.simps [of m c lo "P + 2"]
            MetaMatch_set.simps [of m c hi "P + 4"] set_char_ok_def Let_def algebra_simps)
      then show ?thesis using Cons.IH [of "P + 6" hi] Cons.prems(1) r(8) Span 3
        by (auto simp: algebra_simps split: if_splits)
    qed
  qed
qed

lemma list_ex_upt_Suc:
  "list_ex f [0..<Suc n] \<longleftrightarrow> f 0 \<or> list_ex (\<lambda>k. f (Suc k)) [0..<n]"
  by (induction n) (auto simp: list_ex_iff less_Suc_eq)

lemma MetaMatch_one_char:
  assumes "glob_item_ok p" "p \<noteq> AnyString" "str16_at m S s" "str16_at m P (item_text p @ rest)"
    and IH: "\<And>S cs. str16_at m S cs \<Longrightarrow>
      MetaMatch m S (P + 2 * length (item_text p)) = Some (glob_matches ps cs)"
  shows "MetaMatch m S P = Some (case s of [] \<Rightarrow> False | c # cs \<Rightarrow> char_matches p c \<and> glob_matches ps cs)"
proof -
  have S: "case s of [] \<Rightarrow> rd16 m S = Some 0
      | c # cs \<Rightarrow> rd16 m S = Some c \<and> c \<noteq> 0 \<and> str16_at m (S + 2) cs"
    using assms(3) by (cases s) auto
  show ?thesis
  proof (cases p)
    case (Lit x)
    then show ?thesis using assms S IH
      by (auto simp: MetaMatch.simps [of m S P] split: list.splits)
  next
    case AnyChar
    then show ?thesis using assms S IH
      by (auto simp: MetaMatch.simps [of m S P] split: list.splits)
  next
    case AnyString
    with assms(2) show ?thesis by simp
  next
    case (OneOf xs)
    let ?t = "concat (map set_text xs)"
    have ok: "list_all set_item_ok xs" and P: "rd16 m P = Some 91" "str16_at m (P + 2) (?t @ 93 # rest)"
      using assms(1,4) OneOf by auto
    show ?thesis
    proof (cases s)
      case Nil
      then show ?thesis using S P by (simp add: MetaMatch.simps [of m S P])
    next
      case (Cons c cs)
      note c = MetaMatch_set_eq [OF ok P(2), of c 0]
      show ?thesis
      proof (cases "list_ex (in_set_item c) xs")
        case False
        with c S P Cons OneOf show ?thesis by (simp add: MetaMatch.simps [of m S P])
      next
        case True
        with c obtain p P' ys where e: "MetaMatch_set m c 0 (P + 2) = Some (SetExit p P')"
          "p \<noteq> 0" "p \<noteq> 93" "93 \<notin> set ys" "str16_at m P' (ys @ 93 # rest)"
          "P' + 2 * length ys = P + 2 + 2 * length ?t" by auto
        have "MetaMatch_skip m p P' = Some (P + 2 + 2 * length ?t + 2)"
          using MetaMatch_skip_eq [OF e(5,4,2,3)] e(6) by simp
        moreover have "P + 2 + 2 * length ?t + 2 = P + 2 * length (item_text (OneOf xs))" by simp
        ultimately show ?thesis
          using S P Cons OneOf e(1) True IH [of "S + 2" cs]
          by (simp add: MetaMatch.simps [of m S P])
      qed
    qed
  qed
qed

lemma MetaMatch_star_eq:
  assumes "\<And>S s. str16_at m S s \<Longrightarrow> MetaMatch m S P = Some (glob_matches ps s)" "str16_at m S s"
  shows "MetaMatch_star m S P = Some (list_ex (\<lambda>k. glob_matches ps (drop k s)) [0..<Suc (length s)])"
  using assms(2)
proof (induction s arbitrary: S)
  case Nil
  then show ?case using assms(1) [of S "[]"] by (simp add: MetaMatch_star.simps [of m S])
next
  case (Cons c cs)
  then have "MetaMatch_star m (S + 2) P =
      Some (list_ex (\<lambda>k. glob_matches ps (drop k cs)) [0..<Suc (length cs)])" by simp
  then show ?case using assms(1) [of S "c # cs"] Cons.prems
    by (subst list_ex_upt_Suc) (simp add: MetaMatch_star.simps [of m S])
qed

lemma MetaMatch_eq:
  "list_all glob_item_ok ps \<Longrightarrow> str16_at m S s \<Longrightarrow> str16_at m P (glob_text ps) \<Longrightarrow>
   MetaMatch m S P = Some (glob_matches ps s)"
proof (induction ps arbitrary: S P s)
  case Nil
  then show ?case by (cases s) (auto simp: MetaMatch.simps [of m S P] glob_text_def)
next
  case (Cons p ps)
  have P: "str16_at m P (item_text p @ glob_text ps)"
    using Cons.prems(3) by (simp add: glob_text_def)
  then have P': "str16_at m (P + 2 * length (item_text p)) (glob_text ps)" by (rule str16_at_drop)
  have IH: "MetaMatch m S (P + 2 * length (item_text p)) = Some (glob_matches ps s)"
    if "str16_at m S s" for S s
    using Cons.IH [OF _ that P'] Cons.prems(1) by simp
  show ?case
  proof (cases "p = AnyString")
    case True
    then have "MetaMatch_star m S (P + 2) =
        Some (list_ex (\<lambda>k. glob_matches ps (drop k s)) [0..<Suc (length s)])"
      using IH Cons.prems(2) by (intro MetaMatch_star_eq) auto
    then show ?thesis using True P by (simp add: MetaMatch.simps [of m S P])
  next
    case False
    then have "glob_matches (p # ps) s =
        (case s of [] \<Rightarrow> False | c # cs \<Rightarrow> char_matches p c \<and> glob_matches ps cs)" by simp
    moreover have "MetaMatch m S P =
        Some (case s of [] \<Rightarrow> False | c # cs \<Rightarrow> char_matches p c \<and> glob_matches ps cs)"
      using Cons.prems(1,2) False P IH by (intro MetaMatch_one_char) auto
    ultimately show ?thesis by simp
  qed
qed

subsection \<open>The values \<open>xtoi\<close> and \<open>Atoi\<close> read\<close>

definition hex_digit :: "u16 \<Rightarrow> nat option" where
  "hex_digit c =
     (if 48 \<le> c \<and> c \<le> 57 then Some (unat c - 48)
      else if 65 \<le> c \<and> c \<le> 70 then Some (unat c - 55)
      else if 97 \<le> c \<and> c \<le> 102 then Some (unat c - 87)
      else None)"

definition dec_digit :: "u16 \<Rightarrow> nat option" where
  "dec_digit c = (if 48 \<le> c \<and> c \<le> 57 then Some (unat c - 48) else None)"

text \<open>Positional value of a digit string over a base, continuing from \<open>n\<close>.\<close>

primrec digits_value :: "nat \<Rightarrow> (u16 \<Rightarrow> nat option) \<Rightarrow> nat \<Rightarrow> u16 list \<Rightarrow> nat" where
  "digits_value b f n [] = n"
| "digits_value b f n (d # ds) = digits_value b f (b * n + the (f d)) ds"

definition ends_number :: "(u16 \<Rightarrow> nat option) \<Rightarrow> u16 list \<Rightarrow> bool" where
  "ends_number f rest \<longleftrightarrow> (case rest of [] \<Rightarrow> True | c # _ \<Rightarrow> f c = None)"

lemma skip_spaces_eq:
  assumes "str16_at m p (replicate k 32 @ s)" "s = [] \<or> hd s \<noteq> 32"
  shows "skip_spaces m p = Some (p + 2 * k)"
  using assms
proof (induction k arbitrary: p)
  case 0
  then show ?case by (cases s) (auto simp: skip_spaces.simps [of m p])
next
  case (Suc k)
  then have "skip_spaces m (p + 2) = Some (p + 2 + 2 * k)" by simp
  with Suc.prems show ?case by (simp add: skip_spaces.simps [of m p])
qed

lemma push4_or:
  assumes "d < 16"
  shows "push_bit 4 (of_nat n :: u64) OR of_nat d = of_nat (16 * n + d)"
proof -
  have "push_bit 4 (of_nat n :: u64) AND of_nat d = 0"
  proof (rule bit_word_eqI)
    fix i assume "i < LENGTH(64)"
    have "\<not> bit d i" if "4 \<le> i"
    proof -
      have "d < 2 ^ i" using assms power_increasing [OF that, of "2 :: nat"] by simp
      then show ?thesis by (simp add: bit_iff_odd)
    qed
    then show "bit (push_bit 4 (of_nat n :: u64) AND of_nat d) i = bit (0 :: u64) i"
      by (auto simp: bit_simps)
  qed
  then have "push_bit 4 (of_nat n :: u64) OR of_nat d = push_bit 4 (of_nat n) + of_nat d"
    by (simp add: disjunctive_add_eq_or)
  then show ?thesis by (simp add: push_bit_eq_mult)
qed

lemma ucast_minus_of_nat:
  fixes c :: u16
  assumes "k \<le> unat c"
  shows "(ucast c - of_nat k :: u64) = of_nat (unat c - k)"
  using assms by (simp add: of_nat_diff)

lemma xtoi_loop_step:
  assumes "rd16 m p = Some c" "hex_digit c = Some d"
  shows "xtoi_loop m p (of_nat n) = xtoi_loop m (p + 2) (of_nat (16 * n + d))"
proof -
  define c' :: u16 where "c' = (if 97 \<le> c \<and> c \<le> 102 then c - 32 else c)"
  have c': "(48 \<le> c' \<and> c' \<le> 57) \<or> (65 \<le> c' \<and> c' \<le> 70)" "c \<noteq> 0"
    "d = (if 65 \<le> c' then unat c' - 55 else unat c' - 48)" "d < 16"
    using assms(2) unfolding c'_def hex_digit_def
    by (auto split: if_splits simp: unat_arith_simps)
  have "(ucast c' - (if 65 \<le> c' then 55 else 48) :: u64) = of_nat d"
    using c' ucast_minus_of_nat [of 55 c'] ucast_minus_of_nat [of 48 c']
    by (auto simp: word_le_nat_alt)
  then have "push_bit 4 (of_nat n :: u64) OR (ucast c' - (if 65 \<le> c' then 55 else 48)) = of_nat (16 * n + d)"
    using push4_or [OF c'(4), of n] by simp
  then show ?thesis using assms(1) c'(1,2)
    by (simp add: xtoi_loop.simps [of m p] Let_def c'_def [symmetric])
qed

lemma xtoi_loop_stop:
  assumes "str16_at m p rest" "ends_number hex_digit rest"
  shows "xtoi_loop m p u = Some u"
proof (cases rest)
  case Nil
  with assms show ?thesis by (simp add: xtoi_loop.simps [of m p])
next
  case (Cons c cs)
  define c' :: u16 where "c' = (if 97 \<le> c \<and> c \<le> 102 then c - 32 else c)"
  have "\<not> ((48 \<le> c' \<and> c' \<le> 57) \<or> (65 \<le> c' \<and> c' \<le> 70))"
    using assms(2) Cons unfolding ends_number_def c'_def hex_digit_def
    by (auto split: if_splits)
  then have "(if (48 \<le> c' \<and> c' \<le> 57) \<or> (65 \<le> c' \<and> c' \<le> 70) then x else Some u) = Some u" for x
    by (rule if_not_P)
  then show ?thesis using assms(1) Cons
    by (simp only: xtoi_loop.simps [of m p] Let_def c'_def [symmetric] str16_at.simps bind.bind_lunit if_False)
qed

lemma xtoi_loop_eq:
  "str16_at m p (ds @ rest) \<Longrightarrow> list_all (\<lambda>c. hex_digit c \<noteq> None) ds \<Longrightarrow> ends_number hex_digit rest \<Longrightarrow>
   xtoi_loop m p (of_nat n) = Some (of_nat (digits_value 16 hex_digit n ds))"
proof (induction ds arbitrary: p n)
  case Nil
  then show ?case by (simp add: xtoi_loop_stop)
next
  case (Cons c cs)
  then obtain d where d: "hex_digit c = Some d" by auto
  have "xtoi_loop m p (of_nat n) = xtoi_loop m (p + 2) (of_nat (16 * n + d))"
    using Cons.prems d by (intro xtoi_loop_step) auto
  also have "\<dots> = Some (of_nat (digits_value 16 hex_digit (16 * n + d) cs))"
    using Cons.prems by (intro Cons.IH) auto
  finally show ?case using d by simp
qed

lemma Atoi_loop_eq:
  "str16_at m p (ds @ rest) \<Longrightarrow> list_all (\<lambda>c. dec_digit c \<noteq> None) ds \<Longrightarrow> ends_number dec_digit rest \<Longrightarrow>
   Atoi_loop m p (of_nat n) = Some (of_nat (digits_value 10 dec_digit n ds))"
proof (induction ds arbitrary: p n)
  case Nil
  then show ?case
    by (cases rest) (auto simp: Atoi_loop.simps [of m p] ends_number_def dec_digit_def split: if_splits)
next
  case (Cons c cs)
  then obtain d where d: "dec_digit c = Some d" by auto
  then have c: "48 \<le> c" "c \<le> 57" "d = unat c - 48" "c \<noteq> 0" by (auto simp: dec_digit_def split: if_splits)
  then have "(of_nat n * 10 + ucast c - 48 :: u64) = of_nat (10 * n + d)"
    using ucast_minus_of_nat [of 48 c] by (simp add: word_le_nat_alt algebra_simps)
  moreover have "Atoi_loop m p u = Atoi_loop m (p + 2) (u * 10 + ucast c - 48)" for u
    using Cons.prems(1) c by (simp add: Atoi_loop.simps [of m p])
  ultimately have "Atoi_loop m p (of_nat n) = Atoi_loop m (p + 2) (of_nat (10 * n + d))"
    by (simp only:)
  also have "\<dots> = Some (of_nat (digits_value 10 dec_digit (10 * n + d) cs))"
    using Cons.prems by (intro Cons.IH) auto
  finally show ?case using d by simp
qed

lemma xtoi_eq:
  assumes "str16_at m p (replicate k 32 @ ds @ rest)" "list_all (\<lambda>c. hex_digit c \<noteq> None) ds"
    "ends_number hex_digit rest" "ds = [] \<longrightarrow> rest = [] \<or> hd rest \<noteq> 32"
  shows "xtoi m p = Some (of_nat (digits_value 16 hex_digit 0 ds))"
proof -
  have "ds @ rest = [] \<or> hd (ds @ rest) \<noteq> 32"
    using assms(2,4) by (cases ds) (auto simp: hex_digit_def split: if_splits)
  then have "skip_spaces m p = Some (p + 2 * k)" using assms(1) by (intro skip_spaces_eq)
  moreover have "str16_at m (p + 2 * k) (ds @ rest)" using str16_at_drop [OF assms(1)] by simp
  ultimately show ?thesis using xtoi_loop_eq [OF _ assms(2,3), of m "p + 2 * k" 0]
    by (simp add: xtoi_def)
qed

lemma Atoi_eq:
  assumes "str16_at m p (replicate k 32 @ ds @ rest)" "list_all (\<lambda>c. dec_digit c \<noteq> None) ds"
    "ends_number dec_digit rest" "ds = [] \<longrightarrow> rest = [] \<or> hd rest \<noteq> 32"
  shows "Atoi m p = Some (of_nat (digits_value 10 dec_digit 0 ds))"
proof -
  have "ds @ rest = [] \<or> hd (ds @ rest) \<noteq> 32"
    using assms(2,4) by (cases ds) (auto simp: dec_digit_def split: if_splits)
  then have "skip_spaces m p = Some (p + 2 * k)" using assms(1) by (intro skip_spaces_eq)
  moreover have "str16_at m (p + 2 * k) (ds @ rest)" using str16_at_drop [OF assms(1)] by simp
  ultimately show ?thesis using Atoi_loop_eq [OF _ assms(2,3), of m "p + 2 * k" 0]
    by (simp add: Atoi_def)
qed

lemma MetaMatch_set_unterminated:
  "str16_at m P ys \<Longrightarrow> 93 \<notin> set ys \<Longrightarrow> 45 \<notin> set ys \<Longrightarrow> c \<notin> set ys \<Longrightarrow> c \<noteq> 0 \<Longrightarrow>
   MetaMatch_set m c l P = Some (SetExit 0 (P + 2 * length ys + 2))"
proof (induction ys arbitrary: l P)
  case Nil
  then show ?case by (simp add: MetaMatch_set.simps [of m c l P])
next
  case (Cons y ys)
  then have "MetaMatch_set m c y (P + 2) = Some (SetExit 0 (P + 2 + 2 * length ys + 2))" by simp
  with Cons.prems show ?case by (auto simp: MetaMatch_set.simps [of m c l P] Let_def)
qed

subsection \<open>Properties\<close>

text \<open>C5. \<open>MetaMatch\<close> decides the pattern language: on the text of any pattern built from
  literals, \<open>?\<close>, \<open>*\<close> and closed character sets, it returns (terminates, no fault) and answers
  whether the whole string matches the pattern's syntax tree.\<close>

theorem MetaMatch_decides:
  assumes "list_all glob_item_ok ps" "str16_at m String s" "str16_at m Pattern (glob_text ps)"
  shows "MetaMatch m String Pattern = Some (glob_matches ps s)"
  using assms by (rule MetaMatch_eq)

theorem MetaMatch_decides_witness:
  "MetaMatch ([0] @ enc16 [97, 98, 99, 0] @ enc16 [42, 91, 97, 45, 98, 93, 63, 0]) 1 9 =
     Some (glob_matches [AnyString, OneOf [Span 97 98], AnyChar] [97, 98, 99]) \<and>
   glob_matches [AnyString, OneOf [Span 97 98], AnyChar] [97, 98, 99]"
proof
  show "MetaMatch ([0] @ enc16 [97, 98, 99, 0] @ enc16 [42, 91, 97, 45, 98, 93, 63, 0]) 1 9 =
     Some (glob_matches [AnyString, OneOf [Span 97 98], AnyChar] [97, 98, 99])"
  proof (rule MetaMatch_decides)
    show "list_all glob_item_ok [AnyString, OneOf [Span 97 98], AnyChar]" by code_simp
    show "str16_at ([0] @ enc16 [97, 98, 99, 0] @ enc16 [42, 91, 97, 45, 98, 93, 63, 0]) 1 [97, 98, 99]"
      by code_simp
    show "str16_at ([0] @ enc16 [97, 98, 99, 0] @ enc16 [42, 91, 97, 45, 98, 93, 63, 0]) 9
        (glob_text [AnyString, OneOf [Span 97 98], AnyChar])" by code_simp
  qed
  show "glob_matches [AnyString, OneOf [Span 97 98], AnyChar] [97, 98, 99]" by code_simp
qed

text \<open>A character set without its closing bracket: when no member equals the current
  character, the set loop has consumed the pattern's terminating NUL, and matching goes on with
  whatever is stored behind the pattern.\<close>

theorem MetaMatch_unterminated_set_reads_behind_pattern:
  assumes "str16_at m Pattern (91 # ys)" "93 \<notin> set ys" "45 \<notin> set ys" "c \<notin> set ys"
    "rd16 m String = Some c" "c \<noteq> 0"
  shows "MetaMatch m String Pattern = MetaMatch m (String + 2) (Pattern + 2 * length (91 # ys) + 2)"
proof -
  have "MetaMatch_set m c 0 (Pattern + 2) = Some (SetExit 0 (Pattern + 2 + 2 * length ys + 2))"
    using assms by (intro MetaMatch_set_unterminated) auto
  moreover have "MetaMatch_skip m 0 Q = Some Q" for Q by (simp add: MetaMatch_skip.simps [of m 0 Q])
  ultimately show ?thesis using assms(1,5,6)
    by (simp add: MetaMatch.simps [of m String Pattern] algebra_simps)
qed

theorem MetaMatch_unterminated_set_reads_behind_pattern_witness:
  "MetaMatch ([0] @ enc16 [97, 98, 0] @ enc16 [91, 120, 0]) 1 7 = None \<and>
   MetaMatch ([0] @ enc16 [97, 98, 0] @ enc16 [91, 120, 0] @ enc16 [98, 0]) 1 7 = Some True"
proof -
  have "MetaMatch ([0] @ enc16 [97, 98, 0] @ enc16 [91, 120, 0]) 1 7 =
      MetaMatch ([0] @ enc16 [97, 98, 0] @ enc16 [91, 120, 0]) (1 + 2) (7 + 2 * length [91, 120 :: u16] + 2)"
    by (rule MetaMatch_unterminated_set_reads_behind_pattern [of _ _ "[120]" 97]) code_simp+
  moreover have "MetaMatch ([0] @ enc16 [97, 98, 0] @ enc16 [91, 120, 0] @ enc16 [98, 0]) 1 7 =
      MetaMatch ([0] @ enc16 [97, 98, 0] @ enc16 [91, 120, 0] @ enc16 [98, 0]) (1 + 2) (7 + 2 * length [91, 120 :: u16] + 2)"
    by (rule MetaMatch_unterminated_set_reads_behind_pattern [of _ _ "[120]" 97]) code_simp+
  moreover have "MetaMatch ([0] @ enc16 [97, 98, 0] @ enc16 [91, 120, 0]) 3 13 = None"
    by code_simp
  moreover have "MetaMatch ([0] @ enc16 [97, 98, 0] @ enc16 [91, 120, 0] @ enc16 [98, 0]) 3 13 = Some True"
    by code_simp
  ultimately show ?thesis by simp
qed

text \<open>\<open>xtoi\<close> skips leading spaces and reads hexadecimal digits of either case up to the first
  other character: the result is their positional value modulo \<open>2 ^ 64\<close>.\<close>

theorem xtoi_reads_hex:
  assumes "str16_at m str (replicate k 32 @ ds @ rest)" "list_all (\<lambda>c. hex_digit c \<noteq> None) ds"
    "ends_number hex_digit rest" "ds = [] \<longrightarrow> rest = [] \<or> hd rest \<noteq> 32"
  shows "xtoi m str = Some (word_of_nat (digits_value 16 hex_digit 0 ds))"
  using assms by (rule xtoi_eq)

theorem xtoi_reads_hex_witness:
  "xtoi ([0] @ enc16 [32, 49, 97, 70, 120, 0]) 1 = Some (word_of_nat (digits_value 16 hex_digit 0 [49, 97, 70])) \<and>
   digits_value 16 hex_digit 0 [49, 97, 70] = 0x1AF"
proof
  have "str16_at ([0] @ enc16 [32, 49, 97, 70, 120, 0]) 1 (replicate 1 32 @ [49, 97, 70] @ [120])"
    by code_simp
  moreover have "list_all (\<lambda>c. hex_digit c \<noteq> None) [49, 97, 70]" by code_simp
  moreover have "ends_number hex_digit [120]" by code_simp
  ultimately show "xtoi ([0] @ enc16 [32, 49, 97, 70, 120, 0]) 1 = Some (word_of_nat (digits_value 16 hex_digit 0 [49, 97, 70]))"
    by (rule xtoi_reads_hex) simp
  show "digits_value 16 hex_digit 0 [49, 97, 70] = 0x1AF" by code_simp
qed

end
