(* ===== verification/Crc.thy ===== *)
theory Crc
  imports RtMem
begin

text \<open>
  lib/crc.c: the table driven CRC-32 of EFI table headers. \<open>EFI_TABLE_HEADER\<close> (inc/efidef.h) has
  \<open>HeaderSize\<close> at offset 12 and \<open>CRC32\<close> at offset 16. The reference is the bitwise reflected
  CRC-32 (polynomial 0xEDB88320): the table is checked against it entry by entry, and the loop,
  which keeps its accumulator in a 64-bit \<open>UINTN\<close>, computes it.
\<close>

subsection \<open>The code\<close>

definition CRCTable :: "u32 list" where
  "CRCTable =
  [0x00000000, 0x77073096, 0xEE0E612C, 0x990951BA, 0x076DC419, 0x706AF48F,
   0xE963A535, 0x9E6495A3, 0x0EDB8832, 0x79DCB8A4, 0xE0D5E91E, 0x97D2D988,
   0x09B64C2B, 0x7EB17CBD, 0xE7B82D07, 0x90BF1D91, 0x1DB71064, 0x6AB020F2,
   0xF3B97148, 0x84BE41DE, 0x1ADAD47D, 0x6DDDE4EB, 0xF4D4B551, 0x83D385C7,
   0x136C9856, 0x646BA8C0, 0xFD62F97A, 0x8A65C9EC, 0x14015C4F, 0x63066CD9,
   0xFA0F3D63, 0x8D080DF5, 0x3B6E20C8, 0x4C69105E, 0xD56041E4, 0xA2677172,
   0x3C03E4D1, 0x4B04D447, 0xD20D85FD, 0xA50AB56B, 0x35B5A8FA, 0x42B2986C,
   0xDBBBC9D6, 0xACBCF940, 0x32D86CE3, 0x45DF5C75, 0xDCD60DCF, 0xABD13D59,
   0x26D930AC, 0x51DE003A, 0xC8D75180, 0xBFD06116, 0x21B4F4B5, 0x56B3C423,
   0xCFBA9599, 0xB8BDA50F, 0x2802B89E, 0x5F058808, 0xC60CD9B2, 0xB10BE924,
   0x2F6F7C87, 0x58684C11, 0xC1611DAB, 0xB6662D3D, 0x76DC4190, 0x01DB7106,
   0x98D220BC, 0xEFD5102A, 0x71B18589, 0x06B6B51F, 0x9FBFE4A5, 0xE8B8D433,
   0x7807C9A2, 0x0F00F934, 0x9609A88E, 0xE10E9818, 0x7F6A0DBB, 0x086D3D2D,
   0x91646C97, 0xE6635C01, 0x6B6B51F4, 0x1C6C6162, 0x856530D8, 0xF262004E,
   0x6C0695ED, 0x1B01A57B, 0x8208F4C1, 0xF50FC457, 0x65B0D9C6, 0x12B7E950,
   0x8BBEB8EA, 0xFCB9887C, 0x62DD1DDF, 0x15DA2D49, 0x8CD37CF3, 0xFBD44C65,
   0x4DB26158, 0x3AB551CE, 0xA3BC0074, 0xD4BB30E2, 0x4ADFA541, 0x3DD895D7,
   0xA4D1C46D, 0xD3D6F4FB, 0x4369E96A, 0x346ED9FC, 0xAD678846, 0xDA60B8D0,
   0x44042D73, 0x33031DE5, 0xAA0A4C5F, 0xDD0D7CC9, 0x5005713C, 0x270241AA,
   0xBE0B1010, 0xC90C2086, 0x5768B525, 0x206F85B3, 0xB966D409, 0xCE61E49F,
   0x5EDEF90E, 0x29D9C998, 0xB0D09822, 0xC7D7A8B4, 0x59B33D17, 0x2EB40D81,
   0xB7BD5C3B, 0xC0BA6CAD, 0xEDB88320, 0x9ABFB3B6, 0x03B6E20C, 0x74B1D29A,
   0xEAD54739, 0x9DD277AF, 0x04DB2615, 0x73DC1683, 0xE3630B12, 0x94643B84,
   0x0D6D6A3E, 0x7A6A5AA8, 0xE40ECF0B, 0x9309FF9D, 0x0A00AE27, 0x7D079EB1,
   0xF00F9344, 0x8708A3D2, 0x1E01F268, 0x6906C2FE, 0xF762575D, 0x806567CB,
   0x196C3671, 0x6E6B06E7, 0xFED41B76, 0x89D32BE0, 0x10DA7A5A, 0x67DD4ACC,
   0xF9B9DF6F, 0x8EBEEFF9, 0x17B7BE43, 0x60B08ED5, 0xD6D6A3E8, 0xA1D1937E,
   0x38D8C2C4, 0x4FDFF252, 0xD1BB67F1, 0xA6BC5767, 0x3FB506DD, 0x48B2364B,
   0xD80D2BDA, 0xAF0A1B4C, 0x36034AF6, 0x41047A60, 0xDF60EFC3, 0xA867DF55,
   0x316E8EEF, 0x4669BE79, 0xCB61B38C, 0xBC66831A, 0x256FD2A0, 0x5268E236,
   0xCC0C7795, 0xBB0B4703, 0x220216B9, 0x5505262F, 0xC5BA3BBE, 0xB2BD0B28,
   0x2BB45A92, 0x5CB36A04, 0xC2D7FFA7, 0xB5D0CF31, 0x2CD99E8B, 0x5BDEAE1D,
   0x9B64C2B0, 0xEC63F226, 0x756AA39C, 0x026D930A, 0x9C0906A9, 0xEB0E363F,
   0x72076785, 0x05005713, 0x95BF4A82, 0xE2B87A14, 0x7BB12BAE, 0x0CB61B38,
   0x92D28E9B, 0xE5D5BE0D, 0x7CDCEFB7, 0x0BDBDF21, 0x86D3D2D4, 0xF1D4E242,
   0x68DDB3F8, 0x1FDA836E, 0x81BE16CD, 0xF6B9265B, 0x6FB077E1, 0x18B74777,
   0x88085AE6, 0xFF0F6A70, 0x66063BCA, 0x11010B5C, 0x8F659EFF, 0xF862AE69,
   0x616BFFD3, 0x166CCF45, 0xA00AE278, 0xD70DD2EE, 0x4E048354, 0x3903B3C2,
   0xA7672661, 0xD06016F7, 0x4969474D, 0x3E6E77DB, 0xAED16A4A, 0xD9D65ADC,
   0x40DF0B66, 0x37D83BF0, 0xA9BCAE53, 0xDEBB9EC5, 0x47B2CF7F, 0x30B5FFE9,
   0xBDBDF21C, 0xCABAC28A, 0x53B39330, 0x24B4A3A6, 0xBAD03605, 0xCDD70693,
   0x54DE5729, 0x23D967BF, 0xB3667A2E, 0xC4614AB8, 0x5D681B02, 0x2A6F2B94,
   0xB40BBE37, 0xC30C8EA1, 0x5A05DF1B, 0x2D02EF8D]"

primrec CalculateCrc_loop :: "mem \<Rightarrow> nat \<Rightarrow> addr \<Rightarrow> u64 \<Rightarrow> u64 option" where
  "CalculateCrc_loop m 0 pt Crc = Some Crc"
| "CalculateCrc_loop m (Suc Size) pt Crc = do {
     b \<leftarrow> rd8 m pt;
     CalculateCrc_loop m Size (pt + 1)
       (drop_bit 8 Crc XOR ucast (CRCTable ! unat ((ucast Crc :: u8) XOR b))) }"

definition CalculateCrc :: "mem \<Rightarrow> addr \<Rightarrow> nat \<Rightarrow> u32 option" where
  "CalculateCrc m pt Size = do {
     Crc \<leftarrow> CalculateCrc_loop m Size pt 0xffffffff;
     let Crc = Crc XOR 0xffffffff;
     Some (ucast Crc) }"

definition SetCrcAltSize :: "mem \<Rightarrow> nat \<Rightarrow> addr \<Rightarrow> mem option" where
  "SetCrcAltSize m Size Hdr = do {
     m \<leftarrow> wr32 m (Hdr + 16) 0;
     Crc \<leftarrow> CalculateCrc m Hdr Size;
     wr32 m (Hdr + 16) Crc }"

definition SetCrc :: "mem \<Rightarrow> addr \<Rightarrow> mem option" where
  "SetCrc m Hdr = do {
     HeaderSize \<leftarrow> rd32 m (Hdr + 12);
     SetCrcAltSize m (unat HeaderSize) Hdr }"

definition CheckCrcAltSize :: "mem \<Rightarrow> nat \<Rightarrow> nat \<Rightarrow> addr \<Rightarrow> (bool \<times> mem) option" where
  "CheckCrcAltSize m MaxSize Size Hdr =
     (if Size = 0 then Some (False, m)
      else if MaxSize \<noteq> 0 \<and> MaxSize < Size then Some (False, m)
      else do {
        OrgCrc \<leftarrow> rd32 m (Hdr + 16);
        m \<leftarrow> wr32 m (Hdr + 16) 0;
        Crc \<leftarrow> CalculateCrc m Hdr Size;
        m \<leftarrow> wr32 m (Hdr + 16) OrgCrc;
        Some (OrgCrc = Crc, m) })"

definition CheckCrc :: "mem \<Rightarrow> nat \<Rightarrow> addr \<Rightarrow> (bool \<times> mem) option" where
  "CheckCrc m MaxSize Hdr = do {
     HeaderSize \<leftarrow> rd32 m (Hdr + 12);
     CheckCrcAltSize m MaxSize (unat HeaderSize) Hdr }"

subsection \<open>The bitwise reference\<close>

definition crc_bit :: "u32 \<Rightarrow> u32" where
  "crc_bit x = (if bit x 0 then drop_bit 1 x XOR 0xEDB88320 else drop_bit 1 x)"

definition crc_byte :: "u32 \<Rightarrow> u8 \<Rightarrow> u32" where
  "crc_byte x b = (crc_bit ^^ 8) (x XOR ucast b)"

definition crc32 :: "u8 list \<Rightarrow> u32" where
  "crc32 bs = NOT (foldl crc_byte 0xffffffff bs)"

text \<open>One step is linear over exclusive or, and injective because the polynomial's top bit is set.\<close>

lemma crc_bit_xor: "crc_bit (x XOR y) = crc_bit x XOR crc_bit y"
  by (auto simp: crc_bit_def bit_simps ac_simps)

lemma crc_bit_pow_xor: "(crc_bit ^^ n) (x XOR y) = (crc_bit ^^ n) x XOR (crc_bit ^^ n) y"
  by (induction n) (simp_all add: crc_bit_xor)

text \<open>
  By linearity the 256 entries follow from those of the eight one-bit bytes: every doubling of
  the table exclusive-ors one of them to the entries so far.
\<close>

definition double_table :: "u32 list \<Rightarrow> u32 \<Rightarrow> u32 list" where
  "double_table xs b = xs @ map (\<lambda>x. x XOR b) xs"

definition table_ok :: "nat \<Rightarrow> u32 list \<Rightarrow> bool" where
  "table_ok k xs \<longleftrightarrow> length xs = 2 ^ k \<and> (\<forall>i < 2 ^ k. xs ! i = (crc_bit ^^ 8) (word_of_nat i))"

lemma table_ok_double:
  assumes "table_ok k xs" "b = (crc_bit ^^ 8) (2 ^ k)" "k < 32"
  shows "table_ok (Suc k) (double_table xs b)"
  unfolding table_ok_def
proof (intro conjI allI impI)
  show "length (double_table xs b) = 2 ^ Suc k" using assms(1) by (simp add: double_table_def table_ok_def)
  fix i :: nat assume i: "i < 2 ^ Suc k"
  show "double_table xs b ! i = (crc_bit ^^ 8) (word_of_nat i)"
  proof (cases "i < 2 ^ k")
    case True
    then show ?thesis using assms by (simp add: double_table_def nth_append table_ok_def)
  next
    case False
    then obtain j where j: "i = 2 ^ k + j" by (meson le_Suc_ex not_less)
    with i have "j < 2 ^ k" by simp
    then have "\<not> bit j k" by (simp add: bit_iff_odd)
    then have "word_of_nat j AND (2 ^ k :: u32) = 0"
      by (intro bit_word_eqI) (auto simp: bit_and_iff bit_of_nat_iff bit_exp_iff)
    then have "(word_of_nat i :: u32) = word_of_nat j XOR 2 ^ k"
      by (simp add: j disjunctive_add_eq_xor add.commute)
    then show ?thesis using assms j \<open>j < 2 ^ k\<close>
      by (simp add: double_table_def nth_append crc_bit_pow_xor table_ok_def)
  qed
qed

lemma CRCTable_doubles:
  "CRCTable = foldl double_table [0]
     [0x77073096, 0xEE0E612C, 0x076DC419, 0x0EDB8832, 0x1DB71064, 0x3B6E20C8, 0x76DC4190, 0xEDB88320]"
  by (simp add: double_table_def CRCTable_def)

lemma crc_bit_8: "(crc_bit ^^ 8) x = crc_bit (crc_bit (crc_bit (crc_bit (crc_bit (crc_bit (crc_bit (crc_bit x)))))))"
  by (simp add: numeral_eq_Suc)

lemma crc_bit_numeral:
  "crc_bit (numeral (num.Bit0 n)) = drop_bit 1 (numeral (num.Bit0 n))"
  "crc_bit (numeral (num.Bit1 n)) = drop_bit 1 (numeral (num.Bit1 n)) XOR 0xEDB88320"
  "crc_bit 1 = 0xEDB88320" "crc_bit 0 = 0"
  by (simp_all add: crc_bit_def)

lemma unat_lt2p_8: "unat (b :: u8) < 256"
proof -
  have "unat b < 2 ^ LENGTH(8)" by (rule unsigned_less)
  then show ?thesis by simp
qed

lemma CRCTable_nth: "CRCTable ! unat (b :: u8) = (crc_bit ^^ 8) (ucast b)"
proof -
  have "table_ok 0 [0]" by (simp add: table_ok_def crc_bit_8 crc_bit_numeral)
  then have "table_ok (Suc (Suc (Suc (Suc (Suc (Suc (Suc (Suc 0)))))))) CRCTable"
    unfolding CRCTable_doubles foldl.simps
    by (intro table_ok_double; simp add: crc_bit_8 crc_bit_numeral)
  then have "\<forall>i < 256. CRCTable ! i = (crc_bit ^^ 8) (word_of_nat i)"
    by (simp add: table_ok_def)
  then show ?thesis using unat_lt2p_8 [of b] by simp
qed

lemma crc_bit_clear: "\<not> bit x 0 \<Longrightarrow> crc_bit x = drop_bit 1 x"
  by (simp add: crc_bit_def)

lemma crc_bit_pow_clear:
  "(\<And>i. i < n \<Longrightarrow> \<not> bit x i) \<Longrightarrow> (crc_bit ^^ n) x = drop_bit n x"
proof (induction n)
  case 0
  then show ?case by simp
next
  case (Suc n)
  then have "(crc_bit ^^ n) x = drop_bit n x" by simp
  moreover have "\<not> bit (drop_bit n x) 0" using Suc.prems [of n] by (simp add: bit_simps)
  ultimately show ?case by (simp add: crc_bit_clear)
qed

lemma crc_bit_inj: "crc_bit x = crc_bit y \<longleftrightarrow> x = y"
proof
  assume "crc_bit x = crc_bit y"
  then have "crc_bit (x XOR y) = 0" by (simp add: crc_bit_xor)
  then show "x = y"
  proof (cases "bit (x XOR y) 0")
    case True
    with \<open>crc_bit (x XOR y) = 0\<close> have "bit (drop_bit 1 (x XOR y) XOR 0xEDB88320) 31 = bit (0 :: u32) 31"
      by (simp only: crc_bit_def if_True)
    then show ?thesis by (simp add: bit_simps impossible_bit)
  next
    case False
    with \<open>crc_bit (x XOR y) = 0\<close> have "drop_bit 1 (x XOR y) = 0" by (simp add: crc_bit_def)
    have "bit (x XOR y) i = bit (0 :: u32) i" for i
    proof (cases i)
      case (Suc j)
      have "bit (drop_bit 1 (x XOR y)) j = bit (0 :: u32) j" using \<open>drop_bit 1 (x XOR y) = 0\<close> by simp
      then have "\<not> bit (x XOR y) (1 + j)" by (simp only: bit_drop_bit_eq) simp
      with Suc show ?thesis by simp
    qed (use False in simp)
    then have "bit x i = bit y i" for i by (simp add: bit_xor_iff)
    then show ?thesis by (blast intro: bit_eqI)
  qed
qed simp

lemma crc_bit_pow_inj: "(crc_bit ^^ n) x = (crc_bit ^^ n) y \<longleftrightarrow> x = y"
  by (induction n) (simp_all add: crc_bit_inj)

lemma crc_byte_inj:
  "crc_byte x b = crc_byte y b \<longleftrightarrow> x = y" "crc_byte x b = crc_byte x c \<longleftrightarrow> b = c"
proof -
  have cancel: "y = z" if "x XOR y = x XOR z" for x y z :: u32
    using that by (metis xor.assoc xor_self_eq xor.left_neutral)
  show "crc_byte x b = crc_byte y b \<longleftrightarrow> x = y"
    by (metis cancel crc_byte_def crc_bit_pow_inj xor.commute)
  have "b = c" if "x XOR ucast b = x XOR (ucast c :: u32)"
  proof -
    have "ucast b = (ucast c :: u32)" using that by (rule cancel)
    then have "(ucast (ucast b :: u32) :: u8) = ucast (ucast c :: u32)" by simp
    then show ?thesis by (simp add: ucast_up_ucast_id is_up)
  qed
  then show "crc_byte x b = crc_byte x c \<longleftrightarrow> b = c" by (auto simp: crc_byte_def crc_bit_pow_inj)
qed

text \<open>The table step is eight bit steps.\<close>

lemma crc_table_step:
  "drop_bit 8 x XOR CRCTable ! unat ((ucast x :: u8) XOR b) = crc_byte x b"
proof -
  let ?y = "x XOR ucast b"
  let ?lo = "ucast ((ucast x :: u8) XOR b) :: u32"
  have "?lo = ?y AND mask 8"
    by (rule bit_word_eqI) (auto simp: bit_simps dest: bit_imp_le_length)
  moreover have "?y = (?y AND NOT (mask 8)) XOR (?y AND mask 8)"
    by (rule bit_word_eqI) (auto simp: bit_simps)
  ultimately have "crc_byte x b = (crc_bit ^^ 8) (?y AND NOT (mask 8)) XOR (crc_bit ^^ 8) ?lo"
    by (metis crc_byte_def crc_bit_pow_xor)
  moreover have "(crc_bit ^^ 8) (?y AND NOT (mask 8)) = drop_bit 8 (?y AND NOT (mask 8))"
    by (rule crc_bit_pow_clear) (auto simp: bit_simps)
  moreover have "drop_bit 8 (?y AND NOT (mask 8)) = drop_bit 8 x"
    by (rule bit_word_eqI) (auto simp: bit_simps dest: bit_imp_le_length)
  ultimately show ?thesis by (simp add: CRCTable_nth)
qed

lemma CalculateCrc_loop_eq:
  "mapped m pt n \<Longrightarrow> CalculateCrc_loop m n pt (ucast v) = Some (ucast (foldl crc_byte v (region m pt n)))"
proof (induction n arbitrary: pt v)
  case 0
  then show ?case by (simp add: region_def)
next
  case (Suc n)
  have r: "region m pt (Suc n) = m ! pt # region m (pt + 1) n"
    using Suc.prems by (simp add: region_def mapped_def Cons_nth_drop_Suc [symmetric])
  have "(ucast (ucast v :: u64) :: u8) = ucast v"
    by (rule bit_word_eqI) (auto simp: bit_simps)
  moreover have "drop_bit 8 (ucast v :: u64) XOR ucast y = ucast (drop_bit 8 v XOR y)" for y :: u32
    by (rule bit_word_eqI) (auto simp: bit_simps dest: bit_imp_le_length)
  moreover have "CalculateCrc_loop m n (pt + 1) (ucast (crc_byte v (m ! pt))) =
      Some (ucast (foldl crc_byte (crc_byte v (m ! pt)) (region m (pt + 1) n)))"
    using Suc.prems by (intro Suc.IH) (auto simp: mapped_def)
  moreover have "rd8 m pt = Some (m ! pt)" using Suc.prems by (auto simp: rd8_def mapped_def)
  ultimately show ?case by (simp add: r crc_table_step)
qed

lemma CalculateCrc_eq: "mapped m pt n \<Longrightarrow> CalculateCrc m pt n = Some (crc32 (region m pt n))"
proof -
  assume "mapped m pt n"
  then have "CalculateCrc_loop m n pt 0xffffffff = Some (ucast (foldl crc_byte 0xffffffff (region m pt n)))"
    using CalculateCrc_loop_eq [of m pt n "0xffffffff :: u32"] \<open>mapped m pt n\<close> by simp
  moreover have "ucast ((ucast x :: u64) XOR 0xffffffff) = NOT x" for x :: u32
  proof -
    have e: "(0xffffffff :: u64) = mask 32" by (simp add: mask_eq_exp_minus_1)
    show ?thesis unfolding e by (intro bit_word_eqI) (auto simp: bit_simps)
  qed
  ultimately show ?thesis by (simp add: CalculateCrc_def crc32_def)
qed

lemma foldl_crc_byte_inj: "foldl crc_byte x bs = foldl crc_byte y bs \<longleftrightarrow> x = y"
  by (induction bs arbitrary: x y) (simp_all add: crc_byte_inj)

text \<open>Changing one byte changes the checksum.\<close>

lemma crc32_one_byte:
  assumes "i < length bs" "b \<noteq> bs ! i"
  shows "crc32 (bs[i := b]) \<noteq> crc32 bs"
proof -
  have "foldl crc_byte 0xffffffff (bs[i := b]) \<noteq> foldl crc_byte 0xffffffff bs"
    using assms by (subst (2) id_take_nth_drop [OF assms(1)])
      (simp add: upd_conv_take_nth_drop foldl_crc_byte_inj crc_byte_inj)
  then show ?thesis by (simp add: crc32_def)
qed

subsection \<open>Headers\<close>

lemma le_bytes_0 [simp]: "le_bytes n 0 = replicate n 0"
  by (induction n) auto

text \<open>The checksum the code stores: over \<open>Size\<close> bytes with the \<open>CRC32\<close> field zero.\<close>

definition header_crc :: "mem \<Rightarrow> nat \<Rightarrow> addr \<Rightarrow> u32" where
  "header_crc m Size Hdr = crc32 (region (overwrite m (Hdr + 16) [0, 0, 0, 0]) Hdr Size)"

lemma replicate_4: "replicate 4 x = [x, x, x, x]"
  by (simp add: numeral_eq_Suc)

lemma wr32_Some: "mapped m p 4 \<Longrightarrow> wr32 m p v = Some (overwrite m p (le_bytes 4 v))"
  by (simp add: wr32_def wr_bytes_def)

lemma rd32_Some: "mapped m p 4 \<Longrightarrow> rd32 m p = Some (le_word (region m p 4))"
  by (simp add: rd32_def rd_bytes_def)

lemma SetCrcAltSize_eq:
  assumes "mapped m Hdr 20" "mapped m Hdr Size"
  shows "SetCrcAltSize m Size Hdr = Some (overwrite m (Hdr + 16) (le_bytes 4 (header_crc m Size Hdr)))"
proof -
  have f: "mapped m (Hdr + 16) 4" using assms by (auto elim: mapped_mono)
  then have "Hdr + 16 + 4 \<le> length m" by (simp add: mapped_def)
  then show ?thesis using assms f
    by (simp add: SetCrcAltSize_def wr32_Some CalculateCrc_eq overwrite_twice header_crc_def
        replicate_4)
qed

lemma CheckCrcAltSize_eq:
  assumes "mapped m Hdr 20" "mapped m Hdr Size" "Size \<noteq> 0" "MaxSize = 0 \<or> Size \<le> MaxSize"
  shows "CheckCrcAltSize m MaxSize Size Hdr =
    Some (le_word (region m (Hdr + 16) 4) = header_crc m Size Hdr, m)"
proof -
  let ?old = "region m (Hdr + 16) 4"
  have f: "mapped m (Hdr + 16) 4" using assms by (auto elim: mapped_mono)
  then have l: "Hdr + 16 + 4 \<le> length m" by (simp add: mapped_def)
  have "le_bytes (length ?old) (le_word ?old :: u32) = ?old"
    using l by (intro le_bytes_le_word) simp
  then have "overwrite m (Hdr + 16) (le_bytes 4 (le_word ?old :: u32)) = m"
    using l overwrite_same [OF l] by simp
  then show ?thesis using assms f l
    by (auto simp: CheckCrcAltSize_def wr32_Some rd32_Some CalculateCrc_eq overwrite_twice
        header_crc_def replicate_4)
qed

text \<open>The size the header names, and a header that \<open>SetCrc\<close> and \<open>CheckCrc\<close> can work on.\<close>

definition header_size :: "mem \<Rightarrow> addr \<Rightarrow> nat" where
  "header_size m Hdr = unat (le_word (region m (Hdr + 12) 4) :: u32)"

definition header_mapped :: "mem \<Rightarrow> addr \<Rightarrow> bool" where
  "header_mapped m Hdr \<longleftrightarrow> mapped m Hdr 20 \<and> mapped m Hdr (header_size m Hdr)"

lemma SetCrc_eq:
  "header_mapped m Hdr \<Longrightarrow>
   SetCrc m Hdr = Some (overwrite m (Hdr + 16) (le_bytes 4 (header_crc m (header_size m Hdr) Hdr)))"
proof -
  assume h: "header_mapped m Hdr"
  then have "mapped m (Hdr + 12) 4" by (auto simp: header_mapped_def elim: mapped_mono)
  then show ?thesis using h SetCrcAltSize_eq
    by (simp add: SetCrc_def rd32_Some header_mapped_def header_size_def)
qed

lemma CheckCrc_eq:
  assumes "header_mapped m Hdr" "header_size m Hdr \<noteq> 0" "MaxSize = 0 \<or> header_size m Hdr \<le> MaxSize"
  shows "CheckCrc m MaxSize Hdr =
    Some (le_word (region m (Hdr + 16) 4) = header_crc m (header_size m Hdr) Hdr, m)"
proof -
  have "mapped m (Hdr + 12) 4" using assms(1) by (auto simp: header_mapped_def elim: mapped_mono)
  then have "CheckCrc m MaxSize Hdr = CheckCrcAltSize m MaxSize (header_size m Hdr) Hdr"
    by (simp add: CheckCrc_def rd32_Some header_size_def)
  then show ?thesis using assms by (simp add: CheckCrcAltSize_eq header_mapped_def)
qed

text \<open>Rewriting the \<open>CRC32\<close> field changes neither the size nor the checksum of the header.\<close>

lemma header_overwrite_crc:
  assumes "header_mapped m Hdr" "length bs = 4"
  shows "header_size (overwrite m (Hdr + 16) bs) Hdr = header_size m Hdr"
    "header_mapped (overwrite m (Hdr + 16) bs) Hdr"
    "header_crc (overwrite m (Hdr + 16) bs) n Hdr = header_crc m n Hdr"
proof -
  have l: "Hdr + 16 + length bs \<le> length m" using assms by (simp add: header_mapped_def mapped_def)
  show 1: "header_size (overwrite m (Hdr + 16) bs) Hdr = header_size m Hdr"
    using l assms(2) by (simp add: header_size_def region_overwrite_disjoint disjoint_ranges_def)
  show "header_mapped (overwrite m (Hdr + 16) bs) Hdr"
    using assms l by (simp add: header_mapped_def 1)
  show "header_crc (overwrite m (Hdr + 16) bs) n Hdr = header_crc m n Hdr"
    using l assms(2) by (simp add: header_crc_def overwrite_twice)
qed

lemma header_crc_one_byte:
  assumes "mapped m Hdr n" "mapped m Hdr 20" "i < n" "i < 16 \<or> 20 \<le> i" "b \<noteq> m ! (Hdr + i)"
  shows "header_crc (m[Hdr + i := b]) n Hdr \<noteq> header_crc m n Hdr"
proof -
  let ?z = "overwrite m (Hdr + 16) [0, 0, 0, 0]"
  have l: "Hdr + 16 + 4 \<le> length m" "Hdr + n \<le> length m" using assms(1,2) by (auto simp: mapped_def)
  have "overwrite (m[Hdr + i := b]) (Hdr + 16) [0, 0, 0, 0] = ?z[Hdr + i := b]"
    using assms(3,4) l
    by (intro overwrite_eqI [symmetric]) (auto simp: nth_overwrite nth_list_update)
  moreover have "region (?z[Hdr + i := b]) Hdr n = (region ?z Hdr n)[i := b]"
    using assms(3) l by (simp add: region_def drop_update_swap take_update_swap)
  moreover have "crc32 ((region ?z Hdr n)[i := b]) \<noteq> crc32 (region ?z Hdr n)"
    using assms(3-5) l by (intro crc32_one_byte) (auto simp: region_def nth_overwrite)
  ultimately show ?thesis by (simp add: header_crc_def)
qed

lemma header_crc_in_field:
  assumes "mapped m Hdr 20" "i \<in> {16..<20}"
  shows "header_crc (m[Hdr + i := b]) n Hdr = header_crc m n Hdr"
proof -
  have "Hdr + 16 + 4 \<le> length m" using assms(1) by (simp add: mapped_def)
  then have "overwrite (m[Hdr + i := b]) (Hdr + 16) [0, 0, 0, 0] = overwrite m (Hdr + 16) [0, 0, 0, 0]"
    using assms(2) by (intro overwrite_eqI) (auto simp: nth_overwrite nth_list_update)
  then show ?thesis by (simp add: header_crc_def)
qed

lemma le_word_4_inject:
  "length bs = 4 \<Longrightarrow> length cs = 4 \<Longrightarrow> (le_word bs :: u32) = le_word cs \<longleftrightarrow> bs = cs"
  by (metis le_bytes_le_word_width(2))

subsection \<open>Properties\<close>

text \<open>C9. The table driven loop computes CRC-32: on any mapped range \<open>CalculateCrc\<close> returns the
  bitwise reflected CRC (polynomial 0xEDB88320, initial and final complement) of its bytes.\<close>

theorem CalculateCrc_is_crc32:
  assumes "mapped m pt Size"
  shows "CalculateCrc m pt Size = Some (crc32 (region m pt Size))"
  using assms by (rule CalculateCrc_eq)

theorem CalculateCrc_is_crc32_witness:
  "CalculateCrc [0, 0x31, 0x32, 0x33] 1 3 = Some (crc32 (region [0, 0x31, 0x32, 0x33] 1 3))"
  by (rule CalculateCrc_is_crc32) (simp add: mapped_def)

text \<open>C29. After \<open>SetCrc\<close> a table header passes \<open>CheckCrc\<close> (which leaves memory as it was), and it
  stops passing when any single byte of the header, the \<open>CRC32\<close> field included, is changed afterwards,
  except for the four bytes of the \<open>HeaderSize\<close> field, which decide what is checked. \<open>SetCrc\<close> itself changes
  nothing but the \<open>CRC32\<close> field.\<close>

theorem SetCrc_then_CheckCrc:
  assumes "header_mapped m Hdr" "0 < header_size m Hdr" "MaxSize = 0 \<or> header_size m Hdr \<le> MaxSize"
  shows "\<exists>m'. SetCrc m Hdr = Some m' \<and> same_outside m m' (Hdr + 16) 4 \<and>
     CheckCrc m' MaxSize Hdr = Some (True, m') \<and>
     (\<forall>i b. (i < header_size m Hdr \<or> i \<in> {16..<20}) \<and> i \<notin> {12..<16} \<and> b \<noteq> m' ! (Hdr + i) \<longrightarrow>
        CheckCrc (m'[Hdr + i := b]) MaxSize Hdr = Some (False, m'[Hdr + i := b]))"
proof -
  define n where "n = header_size m Hdr"
  define bs where "bs = le_bytes 4 (header_crc m n Hdr)"
  define m' where "m' = overwrite m (Hdr + 16) bs"
  have l: "Hdr + 16 + length bs \<le> length m" "length bs = 4"
    using assms(1) by (auto simp: header_mapped_def mapped_def bs_def)
  note h = header_overwrite_crc [OF assms(1) l(2), folded m'_def, folded n_def]
  have crc: "le_word (region m' (Hdr + 16) 4) = header_crc m' n Hdr"
    using l h region_overwrite_same [OF l(1)] by (simp add: m'_def bs_def)
  have "SetCrc m Hdr = Some m'" using assms(1) by (simp add: SetCrc_eq m'_def bs_def n_def)
  moreover have "same_outside m m' (Hdr + 16) 4"
    using same_outside_overwrite [OF l(1)] l(2) by (simp add: m'_def)
  moreover have "CheckCrc m' MaxSize Hdr = Some (True, m')"
    using h crc assms by (simp add: CheckCrc_eq n_def)
  moreover have "CheckCrc (m'[Hdr + i := b]) MaxSize Hdr = Some (False, m'[Hdr + i := b])"
    if i: "(i < n \<or> i \<in> {16..<20}) \<and> i \<notin> {12..<16} \<and> b \<noteq> m' ! (Hdr + i)" for i b
  proof -
    let ?m = "m'[Hdr + i := b]"
    have m: "mapped m' Hdr 20" "mapped m' Hdr n" using h(1,2) by (simp_all add: header_mapped_def)
    have r: "region ?m (Hdr + k) 4 = region m' (Hdr + k) 4" if "k = 12 \<or> k = 16" "i \<notin> {k..<k + 4}" for k
      using that m by (intro nth_equalityI) (auto simp: region_def mapped_def nth_list_update)
    then have s: "header_size ?m Hdr = n" using h(1) i by (simp add: header_size_def)
    have hm: "header_mapped ?m Hdr" using h(2) h(1) s by (simp add: header_mapped_def mapped_def)
    have "le_word (region ?m (Hdr + 16) 4) \<noteq> header_crc ?m n Hdr"
    proof (cases "i \<in> {16..<20}")
      case True
      have "region ?m (Hdr + 16) 4 \<noteq> region m' (Hdr + 16) 4"
        using True i m by (auto simp: region_def mapped_def list_eq_iff_nth_eq intro!: exI [of _ "i - 16"])
      moreover have "length (region ?m (Hdr + 16) 4) = 4" "length (region m' (Hdr + 16) 4) = 4"
        using m by (simp_all add: mapped_def)
      ultimately have "le_word (region ?m (Hdr + 16) 4) \<noteq> (le_word (region m' (Hdr + 16) 4) :: u32)"
        by (simp add: le_word_4_inject)
      moreover have "header_crc ?m n Hdr = header_crc m' n Hdr"
        using header_crc_in_field [OF m(1) True] .
      ultimately show ?thesis using crc by simp
    next
      case False
      then have "header_crc ?m n Hdr \<noteq> header_crc m' n Hdr"
        using i m by (intro header_crc_one_byte) auto
      then show ?thesis using crc r [of 16] False by simp
    qed
    then show ?thesis using assms hm s by (simp add: CheckCrc_eq n_def)
  qed
  ultimately show ?thesis unfolding n_def by blast
qed

theorem SetCrc_then_CheckCrc_witness:
  "let m = [0] @ replicate 8 7 @ replicate 4 0 @ [24, 0, 0, 0] @ replicate 8 0 in
   \<exists>m'. SetCrc m 1 = Some m' \<and> same_outside m m' (1 + 16) 4 \<and>
     CheckCrc m' 0 1 = Some (True, m') \<and>
     (\<forall>i b. (i < header_size m 1 \<or> i \<in> {16..<20}) \<and> i \<notin> {12..<16} \<and> b \<noteq> m' ! (1 + i) \<longrightarrow>
        CheckCrc (m'[1 + i := b]) 0 1 = Some (False, m'[1 + i := b]))"
  unfolding Let_def
  by (rule SetCrc_then_CheckCrc)
    (simp_all add: header_mapped_def header_size_def mapped_def region_def)

end
