(* ===== verification/Math64.thy ===== *)
theory Math64
  imports Machine
begin

text \<open>
  lib/<arch>/math.c: 64-bit shifts, multiplication and division for every architecture of the
  library. \<open>UINTN\<close> is a 32-bit word on ia32 and arm and a 64-bit word elsewhere. A shift by 64 or
  more and a division by zero are undefined in C (a trap, for the division) and give \<open>None\<close>. The
  optional \<open>Remainder\<close> is the second component of the result.

  ia32 divides bit by bit in assembly; the locale \<open>divider\<close> is the contract all the architectures
  share, on the divisors an architecture supports, and what the number printer relies on.
\<close>

subsection \<open>The common 64-bit operations\<close>

definition LShiftU64_x86_64 :: "u64 \<Rightarrow> u64 \<Rightarrow> u64 option" where
  "LShiftU64_x86_64 Operand Count =
     (if Count < 64 then Some (push_bit (unat Count) Operand) else None)"

definition RShiftU64_x86_64 :: "u64 \<Rightarrow> u64 \<Rightarrow> u64 option" where
  "RShiftU64_x86_64 Operand Count =
     (if Count < 64 then Some (drop_bit (unat Count) Operand) else None)"

definition MultU64x32_x86_64 :: "u64 \<Rightarrow> u64 \<Rightarrow> u64" where
  "MultU64x32_x86_64 Multiplicand Multiplier = Multiplicand * Multiplier"

definition DivU64x32_x86_64 :: "u64 \<Rightarrow> u64 \<Rightarrow> (u64 \<times> u64) option" where
  "DivU64x32_x86_64 Dividend Divisor =
     (if Divisor = 0 then None else Some (Dividend div Divisor, Dividend mod Divisor))"

definition LShiftU64_aarch64 :: "u64 \<Rightarrow> u64 \<Rightarrow> u64 option" where
  "LShiftU64_aarch64 Operand Count =
     (if Count < 64 then Some (push_bit (unat Count) Operand) else None)"

definition RShiftU64_aarch64 :: "u64 \<Rightarrow> u64 \<Rightarrow> u64 option" where
  "RShiftU64_aarch64 Operand Count =
     (if Count < 64 then Some (drop_bit (unat Count) Operand) else None)"

definition MultU64x32_aarch64 :: "u64 \<Rightarrow> u64 \<Rightarrow> u64" where
  "MultU64x32_aarch64 Multiplicand Multiplier = Multiplicand * Multiplier"

definition DivU64x32_aarch64 :: "u64 \<Rightarrow> u64 \<Rightarrow> (u64 \<times> u64) option" where
  "DivU64x32_aarch64 Dividend Divisor =
     (if Divisor = 0 then None else Some (Dividend div Divisor, Dividend mod Divisor))"

definition LShiftU64_loongarch64 :: "u64 \<Rightarrow> u64 \<Rightarrow> u64 option" where
  "LShiftU64_loongarch64 Operand Count =
     (if Count < 64 then Some (push_bit (unat Count) Operand) else None)"

definition RShiftU64_loongarch64 :: "u64 \<Rightarrow> u64 \<Rightarrow> u64 option" where
  "RShiftU64_loongarch64 Operand Count =
     (if Count < 64 then Some (drop_bit (unat Count) Operand) else None)"

definition MultU64x32_loongarch64 :: "u64 \<Rightarrow> u64 \<Rightarrow> u64" where
  "MultU64x32_loongarch64 Multiplicand Multiplier = Multiplicand * Multiplier"

definition DivU64x32_loongarch64 :: "u64 \<Rightarrow> u64 \<Rightarrow> (u64 \<times> u64) option" where
  "DivU64x32_loongarch64 Dividend Divisor =
     (if Divisor = 0 then None else Some (Dividend div Divisor, Dividend mod Divisor))"

definition LShiftU64_mips64el :: "u64 \<Rightarrow> u64 \<Rightarrow> u64 option" where
  "LShiftU64_mips64el Operand Count =
     (if Count < 64 then Some (push_bit (unat Count) Operand) else None)"

definition RShiftU64_mips64el :: "u64 \<Rightarrow> u64 \<Rightarrow> u64 option" where
  "RShiftU64_mips64el Operand Count =
     (if Count < 64 then Some (drop_bit (unat Count) Operand) else None)"

definition MultU64x32_mips64el :: "u64 \<Rightarrow> u64 \<Rightarrow> u64" where
  "MultU64x32_mips64el Multiplicand Multiplier = Multiplicand * Multiplier"

definition DivU64x32_mips64el :: "u64 \<Rightarrow> u64 \<Rightarrow> (u64 \<times> u64) option" where
  "DivU64x32_mips64el Dividend Divisor =
     (if Divisor = 0 then None else Some (Dividend div Divisor, Dividend mod Divisor))"

definition LShiftU64_riscv64 :: "u64 \<Rightarrow> u64 \<Rightarrow> u64 option" where
  "LShiftU64_riscv64 Operand Count =
     (if Count < 64 then Some (push_bit (unat Count) Operand) else None)"

definition RShiftU64_riscv64 :: "u64 \<Rightarrow> u64 \<Rightarrow> u64 option" where
  "RShiftU64_riscv64 Operand Count =
     (if Count < 64 then Some (drop_bit (unat Count) Operand) else None)"

definition MultU64x32_riscv64 :: "u64 \<Rightarrow> u64 \<Rightarrow> u64" where
  "MultU64x32_riscv64 Multiplicand Multiplier = Multiplicand * Multiplier"

definition DivU64x32_riscv64 :: "u64 \<Rightarrow> u64 \<Rightarrow> (u64 \<times> u64) option" where
  "DivU64x32_riscv64 Dividend Divisor =
     (if Divisor = 0 then None else Some (Dividend div Divisor, Dividend mod Divisor))"

definition LShiftU64_ia64 :: "u64 \<Rightarrow> u64 \<Rightarrow> u64 option" where
  "LShiftU64_ia64 Operand Count =
     (if Count < 64 then Some (push_bit (unat Count) Operand) else None)"

definition RShiftU64_ia64 :: "u64 \<Rightarrow> u64 \<Rightarrow> u64 option" where
  "RShiftU64_ia64 Operand Count =
     (if Count < 64 then Some (drop_bit (unat Count) Operand) else None)"

definition MultU64x32_ia64 :: "u64 \<Rightarrow> u64 \<Rightarrow> u64" where
  "MultU64x32_ia64 Multiplicand Multiplier = Multiplicand * Multiplier"

definition DivU64x32_ia64 :: "u64 \<Rightarrow> u64 \<Rightarrow> (u64 \<times> u64) option" where
  "DivU64x32_ia64 Dividend Divisor =
     (if Divisor = 0 then None else Some (Dividend div Divisor, Dividend mod Divisor))"

definition LShiftU64_arm :: "u64 \<Rightarrow> u32 \<Rightarrow> u64 option" where
  "LShiftU64_arm Operand Count =
     (if Count < 64 then Some (push_bit (unat Count) Operand) else None)"

definition RShiftU64_arm :: "u64 \<Rightarrow> u32 \<Rightarrow> u64 option" where
  "RShiftU64_arm Operand Count =
     (if Count < 64 then Some (drop_bit (unat Count) Operand) else None)"

definition MultU64x32_arm :: "u64 \<Rightarrow> u32 \<Rightarrow> u64" where
  "MultU64x32_arm Multiplicand Multiplier = Multiplicand * ucast Multiplier"

definition DivU64x32_arm :: "u64 \<Rightarrow> u32 \<Rightarrow> (u64 \<times> u32) option" where
  "DivU64x32_arm Dividend Divisor =
     (if Divisor = 0 then None else Some (Dividend div ucast Divisor, ucast (Dividend mod ucast Divisor)))"

definition LShiftU64_ia32 :: "u64 \<Rightarrow> u32 \<Rightarrow> u64 option" where
  "LShiftU64_ia32 Operand Count =
     (if Count < 64 then Some (push_bit (unat Count) Operand) else None)"

definition RShiftU64_ia32 :: "u64 \<Rightarrow> u32 \<Rightarrow> u64 option" where
  "RShiftU64_ia32 Operand Count =
     (if Count < 64 then Some (drop_bit (unat Count) Operand) else None)"

definition MultU64x32_ia32 :: "u64 \<Rightarrow> u32 \<Rightarrow> u64" where
  "MultU64x32_ia32 Multiplicand Multiplier = Multiplicand * ucast Multiplier"

subsection \<open>Bit by bit division on ia32\<close>

text \<open>
  One round of the assembly: \<open>shll\<close>, \<open>rcll\<close>, \<open>rcll\<close> shift \<open>Rem:Dividend\<close> left by one (the top
  bit of \<open>Rem\<close> is lost); \<open>cmp\<close>, \<open>cmc\<close>, \<open>sbb\<close> make \<open>eax\<close> all ones when \<open>Rem \<ge> Divisor\<close> and zero
  otherwise; subtracting \<open>eax\<close> from the low half of the dividend sets the quotient bit.
\<close>

definition Div_round :: "u32 \<Rightarrow> u64 \<times> u32 \<Rightarrow> u64 \<times> u32" where
  "Div_round Divisor s =
     (let (Dividend, Rem) = s;
          carry = bit Dividend 63;
          Dividend = push_bit 1 Dividend;
          Rem = push_bit 1 Rem OR (if carry then 1 else 0);
          eax = (if Divisor \<le> Rem then - 1 else 0 :: u32);
          low = (ucast Dividend :: u32) - eax;
          Dividend = (Dividend AND NOT (mask 32)) OR ucast low;
          eax = eax AND Divisor
      in (Dividend, Rem - eax))"

primrec Div_rounds :: "nat \<Rightarrow> u32 \<Rightarrow> u64 \<times> u32 \<Rightarrow> u64 \<times> u32" where
  "Div_rounds 0 Divisor s = s"
| "Div_rounds (Suc n) Divisor s = Div_rounds n Divisor (Div_round Divisor s)"

definition DivU64x32_ia32 :: "u64 \<Rightarrow> u32 \<Rightarrow> (u64 \<times> u32) option" where
  "DivU64x32_ia32 Dividend Divisor = Some (Div_rounds 64 Divisor (Dividend, 0))"

text \<open>The round on natural numbers.\<close>

lemma low_half_plus_one:
  fixes x :: u64
  assumes "\<not> bit x 0"
  shows "(x AND NOT (mask 32)) OR ucast ((ucast x :: u32) - - 1) = x + 1"
proof -
  have even: "(ucast x :: u32) AND 1 = 0"
    using assms by (intro bit_word_eqI) (auto simp: bit_simps intro!: gr0I)
  have "(ucast x :: u32) - - 1 = ucast x OR 1"
    using even by (simp add: disjunctive_add_eq_or)
  moreover have "x AND 1 = 0" using assms by (intro bit_word_eqI) (auto simp: bit_simps intro!: gr0I)
  then have "x + 1 = x OR 1" by (simp add: disjunctive_add_eq_or)
  moreover have "(x AND NOT (mask 32)) OR ucast ((ucast x :: u32) OR 1) = x OR 1"
    by (rule bit_word_eqI) (auto simp: bit_simps)
  ultimately show ?thesis by simp
qed

lemma low_half_same:
  fixes x :: u64
  shows "(x AND NOT (mask 32)) OR ucast ((ucast x :: u32) - 0) = x"
  by (rule bit_word_eqI) (auto simp: bit_simps)

lemma unat_push1_u64: "unat (push_bit 1 x :: u64) = 2 * unat x mod 2 ^ 64"
  by (simp add: push_bit_eq_mult unat_word_ariths mult.commute)

lemma unat_less_u64: "unat (x :: u64) < 2 ^ 64"
proof -
  have "unat x < 2 ^ LENGTH(64)" by (rule unsigned_less)
  then show ?thesis by simp
qed

lemma bit63: "bit (x :: u64) 63 \<longleftrightarrow> unat x div 2 ^ 63 = 1"
proof -
  have "unat x div 2 ^ 63 < 2" using unat_less_u64 [of x] by (simp add: div_less_iff_less_mult)
  moreover have "bit x 63 \<longleftrightarrow> odd (unat x div 2 ^ 63)"
    using bit_unsigned_iff [of x 63, where ?'a = nat] by (simp add: bit_iff_odd [of "unat x"])
  ultimately show ?thesis by (auto simp: less_2_cases_iff)
qed

lemma push1_or:
  fixes r :: u32
  assumes "unat r < 2 ^ 31" "b \<in> {0, 1}"
  shows "unat (push_bit 1 r OR of_nat b) = 2 * unat r + b"
proof -
  have "push_bit 1 r AND 1 = 0"
    by (intro bit_word_eqI) (auto simp: bit_and_iff bit_push_bit_iff bit_1_iff simp del: push_bit_of_Suc_0 push_bit_Suc push_bit_eq_mult)
  then have "push_bit 1 r AND of_nat b = 0" using assms(2) by auto
  then have "push_bit 1 r OR of_nat b = push_bit 1 r + of_nat b" by (simp add: disjunctive_add_eq_or)
  moreover have "unat (push_bit 1 r) = 2 * unat r"
    using assms(1) by (simp add: push_bit_eq_mult unat_word_ariths mult.commute)
  ultimately show ?thesis using assms by (auto simp: unat_word_ariths)
qed

lemma Div_round_nat:
  assumes "Divisor < 2 ^ 31" "Rem < Divisor"
  shows "case Div_round Divisor (Dividend, Rem) of (D', R') \<Rightarrow>
    (let R = 2 * unat Rem + unat Dividend div 2 ^ 63 in
       unat D' = 2 * unat Dividend mod 2 ^ 64 + R div unat Divisor \<and> unat R' = R mod unat Divisor)"
proof -
  define b where "b = unat Dividend div 2 ^ 63"
  define R where "R = 2 * unat Rem + b"
  have b: "b \<in> {0, 1}" using unat_less_u64 [of Dividend] by (auto simp: b_def less_2_cases_iff [symmetric] div_less_iff_less_mult)
  have d: "unat Divisor < 2 ^ 31" "unat Rem < unat Divisor"
    using assms by (simp_all add: word_less_nat_alt)
  define Rem1 :: u32 where "Rem1 = push_bit 1 Rem OR of_nat b"
  have carry: "(if bit Dividend 63 then 1 else 0 :: u32) = of_nat b"
    using b by (auto simp: bit63 b_def)
  have Rem1: "unat Rem1 = R"
    using d b push1_or [of Rem b] by (simp add: Rem1_def R_def)
  have lt: "R < 2 * unat Divisor" using d(2) b by (auto simp: R_def)
  have even: "\<not> bit (push_bit 1 Dividend) 0" by (simp add: bit_push_bit_iff del: push_bit_of_Suc_0 push_bit_Suc)
  have even': "2 * unat Dividend mod 2 ^ 64 + 1 < 2 ^ 64"
  proof -
    have "2 * unat Dividend mod 2 ^ 64 = 2 * (unat Dividend mod 2 ^ 63)"
      using mult_mod_right [of 2 "unat Dividend" "2 ^ 63"] by simp
    moreover have "2 * x + 1 < 2 ^ 64" if "x < 2 ^ 63" for x :: nat using that by simp
    ultimately show ?thesis using mod_less_divisor [of "2 ^ 63" "unat Dividend"] by (simp only: zero_less_power zero_less_numeral)
  qed
  show ?thesis
  proof (cases "Divisor \<le> Rem1")
    case True
    then have ge: "unat Divisor \<le> R" by (simp add: word_le_nat_alt Rem1)
    have "Div_round Divisor (Dividend, Rem) = (push_bit 1 Dividend + 1, Rem1 - Divisor)"
      unfolding Div_round_def Let_def split carry Rem1_def [symmetric]
      using True low_half_plus_one [OF even] by simp
    moreover have "unat (push_bit 1 Dividend + 1) = 2 * unat Dividend mod 2 ^ 64 + 1"
      using even' unat_push1_u64 [of Dividend]
      by (simp add: unat_word_ariths(1) del: push_bit_of_Suc_0 push_bit_Suc push_bit_eq_mult)
    moreover have "unat (Rem1 - Divisor) = R - unat Divisor"
      using True by (simp add: unat_sub Rem1)
    moreover have "R div unat Divisor = 1" "R mod unat Divisor = R - unat Divisor"
      using ge lt by (simp_all add: div_nat_eqI mod_nat_eqI le_mod_geq)
    ultimately show ?thesis unfolding b_def [symmetric] R_def [symmetric] by (simp add: Let_def)
  next
    case False
    then have less: "R < unat Divisor" by (simp add: word_le_nat_alt Rem1)
    have "Div_round Divisor (Dividend, Rem) = (push_bit 1 Dividend, Rem1)"
      unfolding Div_round_def Let_def split carry Rem1_def [symmetric]
      using False low_half_same [of "push_bit 1 Dividend"] by simp
    then show ?thesis using less unat_push1_u64 [of Dividend] unfolding b_def [symmetric] R_def [symmetric]
      by (simp add: Let_def Rem1 del: push_bit_of_Suc_0 push_bit_Suc push_bit_eq_mult)
  qed
qed

text \<open>
  After \<open>n\<close> rounds the top \<open>n\<close> bits of the dividend have been divided: the register holds the
  remaining bits above the quotient bits.
\<close>

lemma div_bit_split:
  fixes A q :: nat
  assumes "Suc n + k = 64" "A < 2 ^ Suc n" "q < 2 ^ k"
  shows "(A * 2 ^ k + q) div 2 ^ 63 = A div 2 ^ n"
    "2 * (A * 2 ^ k + q) mod 2 ^ 64 = (A mod 2 ^ n) * 2 ^ Suc k + 2 * q"
proof -
  have e: "63 = k + n" "64 = Suc k + n" using assms(1) by simp_all
  have p: "(2 :: nat) ^ 63 = 2 ^ k * 2 ^ n" "(2 :: nat) ^ 64 = 2 ^ Suc k * 2 ^ n"
    unfolding e power_add by (rule refl)+
  show "(A * 2 ^ k + q) div 2 ^ 63 = A div 2 ^ n"
    unfolding p(1) div_mult2_eq using assms(3) by simp
  define x where "x = 2 * (A * 2 ^ k + q)"
  have x: "x = A * 2 ^ Suc k + 2 * q" by (simp add: x_def)
  have "x div 2 ^ Suc k = A" "x mod 2 ^ Suc k = 2 * q"
    using assms(3) unfolding x by (simp_all add: div_nat_eqI)
  then have "x mod 2 ^ 64 = (A mod 2 ^ n) * 2 ^ Suc k + 2 * q"
    unfolding p(2) mod_mult2_eq [of x] by simp
  then show "2 * (A * 2 ^ k + q) mod 2 ^ 64 = (A mod 2 ^ n) * 2 ^ Suc k + 2 * q" unfolding x_def .
qed

lemma Div_rounds_nat:
  "Divisor < 2 ^ 31 \<Longrightarrow> Rem < Divisor \<Longrightarrow> n + k = 64 \<Longrightarrow> unat Dividend = A * 2 ^ k + q \<Longrightarrow>
   A < 2 ^ n \<Longrightarrow> q < 2 ^ k \<Longrightarrow> Div_rounds n Divisor (Dividend, Rem) = (D', R') \<Longrightarrow>
    unat D' = q * 2 ^ n + (unat Rem * 2 ^ n + A) div unat Divisor \<and>
    unat R' = (unat Rem * 2 ^ n + A) mod unat Divisor"
proof (induction n arbitrary: k Dividend Rem A q)
  case 0
  then show ?case by (auto simp: word_less_nat_alt)
next
  case (Suc n)
  obtain D1 R1 where r: "Div_round Divisor (Dividend, Rem) = (D1, R1)" by force
  let ?d = "unat Divisor"
  define R where "R = 2 * unat Rem + A div 2 ^ n"
  define A' where "A' = A mod 2 ^ n"
  note split = div_bit_split [OF Suc.prems(3,5,6), folded A'_def]
  have 1: "unat D1 = A' * 2 ^ Suc k + (2 * q + R div ?d)" "unat R1 = R mod ?d"
    using Div_round_nat [OF Suc.prems(1,2), of Dividend] r split Suc.prems(4)
    by (simp_all add: Let_def R_def)
  have d: "unat Rem < ?d" using Suc.prems(2) by (simp add: word_less_nat_alt)
  have "A div 2 ^ n < 2" using Suc.prems(5) by (simp add: less_mult_imp_div_less)
  then have "R < 2 * ?d" using d by (simp add: R_def)
  then have q: "R div ?d < 2" by (simp add: less_mult_imp_div_less)
  have A: "unat Rem * 2 ^ Suc n + A = R * 2 ^ n + A'"
    using mult_div_mod_eq [of "2 ^ n" A] by (simp add: R_def A'_def algebra_simps)
  have "unat D' = (2 * q + R div ?d) * 2 ^ n + (unat R1 * 2 ^ n + A') div ?d \<and>
      unat R' = (unat R1 * 2 ^ n + A') mod ?d"
  proof (rule Suc.IH)
    show "Divisor < 2 ^ 31" by (rule Suc.prems(1))
    show "R1 < Divisor" using d by (simp add: word_less_nat_alt 1(2))
    show "n + Suc k = 64" using Suc.prems(3) by simp
    show "2 * q + R div ?d < 2 ^ Suc k" using Suc.prems(6) q by simp
    show "Div_rounds n Divisor (D1, R1) = (D', R')" using Suc.prems(7) r by simp
  qed (simp_all add: 1 A'_def)
  moreover have "R * 2 ^ n + A' = ?d * (R div ?d * 2 ^ n) + (R mod ?d * 2 ^ n + A')"
  proof -
    have "R * 2 ^ n = (?d * (R div ?d) + R mod ?d) * 2 ^ n" by (simp only: mult_div_mod_eq)
    then show ?thesis by (simp only: distrib_right mult.assoc add.assoc)
  qed
  then have "(R * 2 ^ n + A') div ?d = R div ?d * 2 ^ n + (R mod ?d * 2 ^ n + A') div ?d"
    "(R * 2 ^ n + A') mod ?d = (R mod ?d * 2 ^ n + A') mod ?d"
    using d by (simp_all only: div_mult_self4 mod_mult_self4 not_less0 neq0_conv)
  ultimately show ?case unfolding A by (simp add: 1(2) algebra_simps)
qed

subsection \<open>The contract of division\<close>

locale divider =
  fixes divide :: "u64 \<Rightarrow> 'u::len word \<Rightarrow> (u64 \<times> 'u word) option"
    and supported :: "'u word \<Rightarrow> bool"
  assumes supported_pos: "supported d \<Longrightarrow> 0 < d"
    and divide_ok: "supported d \<Longrightarrow> \<exists>q r. divide n d = Some (q, r) \<and>
      unat q = unat n div unat d \<and> unat r = unat n mod unat d"
begin

lemma divide_exact:
  assumes "supported d" "divide n d = Some (q, r)"
  shows "unat n = unat q * unat d + unat r" "unat r < unat d"
proof -
  show "unat n = unat q * unat d + unat r"
    using divide_ok [OF assms(1), of n] assms(2) div_mult_mod_eq [of "unat n" "unat d"] by auto
  have "0 < unat d" using supported_pos [OF assms(1)] by (simp add: word_less_nat_alt)
  then show "unat r < unat d" using divide_ok [OF assms(1), of n] assms(2) by auto
qed

lemma divide_quotient_less:
  assumes "supported d" "divide n d = Some (q, r)" "1 < unat d" "n \<noteq> 0"
  shows "unat q < unat n"
  using divide_ok [OF assms(1), of n] assms(2-4) by (auto simp: unat_gt_0 intro!: div_less_dividend)

end

lemma ia32_divides:
  assumes "0 < d" "d < 2 ^ 31"
  shows "\<exists>q r. DivU64x32_ia32 n d = Some (q, r) \<and> unat q = unat n div unat d \<and> unat r = unat n mod unat d"
proof -
  obtain q r where "Div_rounds 64 d (n, 0) = (q, r)" by force
  with Div_rounds_nat [of d 0 64 0 n "unat n" 0] assms unat_less_u64 [of n] show ?thesis
    by (simp add: DivU64x32_ia32_def)
qed

interpretation div_x86_64: divider DivU64x32_x86_64 "\<lambda>d. 0 < d"
  by unfold_locales (auto simp: DivU64x32_x86_64_def unat_div unat_mod)

interpretation div_aarch64: divider DivU64x32_aarch64 "\<lambda>d. 0 < d"
  by unfold_locales (auto simp: DivU64x32_aarch64_def unat_div unat_mod)

interpretation div_loongarch64: divider DivU64x32_loongarch64 "\<lambda>d. 0 < d"
  by unfold_locales (auto simp: DivU64x32_loongarch64_def unat_div unat_mod)

interpretation div_mips64el: divider DivU64x32_mips64el "\<lambda>d. 0 < d"
  by unfold_locales (auto simp: DivU64x32_mips64el_def unat_div unat_mod)

interpretation div_riscv64: divider DivU64x32_riscv64 "\<lambda>d. 0 < d"
  by unfold_locales (auto simp: DivU64x32_riscv64_def unat_div unat_mod)

interpretation div_ia64: divider DivU64x32_ia64 "\<lambda>d. 0 < d"
  by unfold_locales (auto simp: DivU64x32_ia64_def unat_div unat_mod)

lemma unat_less_u32: "unat (x :: u32) < 2 ^ 32"
proof -
  have "unat x < 2 ^ LENGTH(32)" by (rule unsigned_less)
  then show ?thesis by simp
qed

lemma unat_ucast_up: "unat (ucast (d :: u32) :: u64) = unat d"
  using unat_less_u32 [of d] by (simp add: unsigned_ucast_eq take_bit_eq_mod)

lemma arm_remainder_fits: "unat (ucast (n mod ucast d :: u64) :: u32) = unat n mod unat (d :: u32)" if "0 < d"
proof -
  have "0 < unat d" using that by (simp add: word_less_nat_alt)
  then have "unat n mod unat d < unat d" by simp
  then have "unat n mod unat d < 2 ^ 32" using unat_less_u32 [of d] by linarith
  moreover have "unat (ucast x :: u32) = unat x mod 2 ^ 32" for x :: u64
    by (simp add: unsigned_ucast_eq take_bit_eq_mod)
  ultimately show ?thesis by (simp only: unat_mod unat_ucast_up mod_less)
qed

interpretation div_arm: divider DivU64x32_arm "\<lambda>d. 0 < d"
  by unfold_locales
    (auto simp: DivU64x32_arm_def unat_div arm_remainder_fits unat_ucast_up)

interpretation div_ia32: divider DivU64x32_ia32 "\<lambda>d. 0 < d \<and> d < 2 ^ 31"
  by unfold_locales (use ia32_divides in auto)

subsection \<open>Properties\<close>

text \<open>C30. The 64-round shift-and-subtract division of ia32 divides: for every 64-bit dividend and
  every non-zero divisor below \<open>2 ^ 31\<close> (the documented limit) it leaves the exact quotient in the
  dividend and the exact remainder in \<open>Rem\<close>.\<close>

theorem DivU64x32_ia32_divides:
  assumes "0 < Divisor" "Divisor < 2 ^ 31"
  shows "\<exists>q r. DivU64x32_ia32 Dividend Divisor = Some (q, r) \<and>
     unat q = unat Dividend div unat Divisor \<and> unat r = unat Dividend mod unat Divisor"
  using assms by (intro div_ia32.divide_ok) simp

theorem DivU64x32_ia32_divides_witness:
  "\<exists>q r. DivU64x32_ia32 (2 ^ 63 + 5) 10 = Some (q, r) \<and>
     unat q = unat (2 ^ 63 + 5 :: u64) div unat (10 :: u32) \<and>
     unat r = unat (2 ^ 63 + 5 :: u64) mod unat (10 :: u32)"
  by (rule DivU64x32_ia32_divides) simp_all

end
