(* ===== verification/Firmware.thy ===== *)
theory Firmware
  imports Machine
begin

text \<open>
  The firmware the library runs on. It is not part of the repository: its services are functions
  that the model takes as arguments, collected in records named after the tables of inc/efiapi.h
  and inc/eficon.h. A service maps the state (memory and the firmware's own state \<open>'w\<close>) to its status,
  the values it stores through its \<open>OUT\<close> pointers, and the next state. Only the services the
  modelled code calls are listed.

  \<open>pool_ok\<close>, \<open>variables_ok\<close> and the like state what the UEFI specification documents of a service
  in terms of an abstraction of the firmware's state, and are hypotheses of the theorems that rely
  on them; \<open>demo\<close> at the end is a concrete firmware that satisfies them, used by the witnesses.
\<close>

subsection \<open>Status codes (inc/efierr.h)\<close>

definition EFIERR :: "nat \<Rightarrow> u64" where
  "EFIERR a = 0x8000000000000000 OR word_of_nat a"

definition EFI_ERROR :: "u64 \<Rightarrow> bool" where
  "EFI_ERROR a \<longleftrightarrow> sint a < 0"

definition EFI_SUCCESS :: u64 where "EFI_SUCCESS = 0"
definition EFI_LOAD_ERROR :: u64 where "EFI_LOAD_ERROR = 0x8000000000000001"
definition EFI_INVALID_PARAMETER :: u64 where "EFI_INVALID_PARAMETER = 0x8000000000000002"
definition EFI_UNSUPPORTED :: u64 where "EFI_UNSUPPORTED = 0x8000000000000003"
definition EFI_BUFFER_TOO_SMALL :: u64 where "EFI_BUFFER_TOO_SMALL = 0x8000000000000005"
definition EFI_OUT_OF_RESOURCES :: u64 where "EFI_OUT_OF_RESOURCES = 0x8000000000000009"
definition EFI_NOT_FOUND :: u64 where "EFI_NOT_FOUND = 0x800000000000000E"
definition EFI_TIMEOUT :: u64 where "EFI_TIMEOUT = 0x8000000000000012"
definition EFI_ALREADY_STARTED :: u64 where "EFI_ALREADY_STARTED = 0x8000000000000014"

lemma EFIERR_codes:
  "EFIERR 1 = EFI_LOAD_ERROR" "EFIERR 2 = EFI_INVALID_PARAMETER" "EFIERR 3 = EFI_UNSUPPORTED"
  "EFIERR 5 = EFI_BUFFER_TOO_SMALL" "EFIERR 9 = EFI_OUT_OF_RESOURCES" "EFIERR 14 = EFI_NOT_FOUND"
  "EFIERR 18 = EFI_TIMEOUT" "EFIERR 20 = EFI_ALREADY_STARTED"
  by (simp_all add: EFIERR_def EFI_LOAD_ERROR_def EFI_INVALID_PARAMETER_def EFI_UNSUPPORTED_def
      EFI_BUFFER_TOO_SMALL_def EFI_OUT_OF_RESOURCES_def EFI_NOT_FOUND_def EFI_TIMEOUT_def
      EFI_ALREADY_STARTED_def)

lemma EFI_ERROR_bit: "EFI_ERROR a \<longleftrightarrow> bit a 63"
  by (simp add: EFI_ERROR_def sint_uint signed_take_bit_negative_iff bit_uint_iff)

lemma EFI_ERROR_codes [simp]:
  "\<not> EFI_ERROR EFI_SUCCESS" "EFI_ERROR EFI_LOAD_ERROR" "EFI_ERROR EFI_INVALID_PARAMETER"
  "EFI_ERROR EFI_UNSUPPORTED" "EFI_ERROR EFI_BUFFER_TOO_SMALL" "EFI_ERROR EFI_OUT_OF_RESOURCES"
  "EFI_ERROR EFI_NOT_FOUND" "EFI_ERROR EFI_TIMEOUT"
  "EFI_ERROR EFI_ALREADY_STARTED"
  by (simp_all add: EFI_ERROR_bit EFI_SUCCESS_def EFI_LOAD_ERROR_def EFI_INVALID_PARAMETER_def
      EFI_UNSUPPORTED_def EFI_BUFFER_TOO_SMALL_def EFI_OUT_OF_RESOURCES_def EFI_NOT_FOUND_def EFI_TIMEOUT_def
      EFI_ALREADY_STARTED_def)

lemma EFI_codes_distinct [simp]:
  "EFI_SUCCESS \<noteq> EFI_BUFFER_TOO_SMALL" "EFI_BUFFER_TOO_SMALL \<noteq> EFI_SUCCESS"
  "EFI_NOT_FOUND \<noteq> EFI_BUFFER_TOO_SMALL" "EFI_BUFFER_TOO_SMALL \<noteq> EFI_NOT_FOUND"
  "EFI_OUT_OF_RESOURCES \<noteq> EFI_BUFFER_TOO_SMALL" "EFI_TIMEOUT \<noteq> EFI_SUCCESS"
  "EFI_UNSUPPORTED \<noteq> EFI_ALREADY_STARTED" "EFI_OUT_OF_RESOURCES \<noteq> EFI_ALREADY_STARTED"
  by (simp_all add: EFI_SUCCESS_def EFI_BUFFER_TOO_SMALL_def EFI_NOT_FOUND_def EFI_OUT_OF_RESOURCES_def
      EFI_TIMEOUT_def EFI_UNSUPPORTED_def EFI_ALREADY_STARTED_def)

subsection \<open>State and services\<close>

record 'w st =
  ram :: mem
  fw :: 'w

text \<open>
  \<open>EFI_TPL\<close> and the sizes are \<open>UINTN\<close> as natural numbers; handles, events and interfaces are the
  addresses C passes around. \<open>BS_WaitForEvent\<close> gets the list of events and gives the index of the
  signalled one. \<open>BS_LocateDevicePath\<close> gives the rest of the path and the device when it stores them.
\<close>

record 'w boot_services =
  BS_RaiseTPL :: "nat \<Rightarrow> 'w st \<Rightarrow> nat \<times> 'w st"
  BS_RestoreTPL :: "nat \<Rightarrow> 'w st \<Rightarrow> 'w st"
  BS_AllocatePool :: "u32 \<Rightarrow> nat \<Rightarrow> 'w st \<Rightarrow> u64 \<times> addr \<times> 'w st"
  BS_FreePool :: "addr \<Rightarrow> 'w st \<Rightarrow> u64 \<times> 'w st"
  BS_GetMemoryMap :: "nat \<Rightarrow> addr \<Rightarrow> 'w st \<Rightarrow> u64 \<times> nat \<times> nat \<times> nat \<times> u32 \<times> 'w st"
  BS_CreateEvent :: "u32 \<Rightarrow> nat \<Rightarrow> addr \<Rightarrow> addr \<Rightarrow> 'w st \<Rightarrow> u64 \<times> addr \<times> 'w st"
  BS_SetTimer :: "addr \<Rightarrow> u32 \<Rightarrow> u64 \<Rightarrow> 'w st \<Rightarrow> u64 \<times> 'w st"
  BS_WaitForEvent :: "addr list \<Rightarrow> 'w st \<Rightarrow> u64 \<times> nat \<times> 'w st"
  BS_SignalEvent :: "addr \<Rightarrow> 'w st \<Rightarrow> u64 \<times> 'w st"
  BS_CloseEvent :: "addr \<Rightarrow> 'w st \<Rightarrow> u64 \<times> 'w st"
  BS_RegisterProtocolNotify :: "addr \<Rightarrow> addr \<Rightarrow> 'w st \<Rightarrow> u64 \<times> addr \<times> 'w st"
  BS_InstallProtocolInterface :: "addr \<Rightarrow> addr \<Rightarrow> addr \<Rightarrow> 'w st \<Rightarrow> u64 \<times> addr \<times> 'w st"
  BS_ReinstallProtocolInterface :: "addr \<Rightarrow> addr \<Rightarrow> addr \<Rightarrow> addr \<Rightarrow> 'w st \<Rightarrow> u64 \<times> 'w st"
  BS_UninstallProtocolInterface :: "addr \<Rightarrow> addr \<Rightarrow> addr \<Rightarrow> 'w st \<Rightarrow> u64 \<times> 'w st"
  BS_HandleProtocol :: "addr \<Rightarrow> addr \<Rightarrow> 'w st \<Rightarrow> u64 \<times> addr option \<times> 'w st"
  BS_LocateHandle :: "u32 \<Rightarrow> addr \<Rightarrow> addr \<Rightarrow> nat \<Rightarrow> addr \<Rightarrow> 'w st \<Rightarrow> u64 \<times> nat \<times> 'w st"
  BS_LocateDevicePath :: "addr \<Rightarrow> addr \<Rightarrow> 'w st \<Rightarrow> u64 \<times> (addr \<times> addr) option \<times> 'w st"

record 'w runtime_services =
  RT_GetVariable :: "addr \<Rightarrow> addr \<Rightarrow> nat \<Rightarrow> addr \<Rightarrow> 'w st \<Rightarrow> u64 \<times> nat \<times> 'w st"
  RT_SetVariable :: "addr \<Rightarrow> addr \<Rightarrow> u32 \<Rightarrow> nat \<Rightarrow> addr \<Rightarrow> 'w st \<Rightarrow> u64 \<times> 'w st"

text \<open>
  The console protocols. A string is passed by value (the characters in front of the NUL);
  \<open>Mode_Attribute\<close> and \<open>Mode_Mode\<close> read the protocol's \<open>Mode\<close> structure.
\<close>

record 'w text_output =
  OutputString :: "u16 list \<Rightarrow> 'w st \<Rightarrow> u64 \<times> 'w st"
  QueryMode :: "u32 \<Rightarrow> 'w st \<Rightarrow> u64 \<times> nat \<times> nat \<times> 'w st"
  SetAttribute :: "u64 \<Rightarrow> 'w st \<Rightarrow> u64 \<times> 'w st"
  SetCursorPosition :: "u64 \<Rightarrow> u64 \<Rightarrow> 'w st \<Rightarrow> u64 \<times> 'w st"
  Mode_Mode :: "'w st \<Rightarrow> u32"
  Mode_Attribute :: "'w st \<Rightarrow> u32"

record 'w text_input =
  ReadKeyStroke :: "'w st \<Rightarrow> u64 \<times> u16 \<times> u16 \<times> 'w st"
  WaitForKey :: addr

subsection \<open>What the UEFI specification documents of the pool\<close>

text \<open>
  \<open>blocks\<close> is the memory in use: the live pool blocks and the program's own static data and stack.
  An allocation hands out memory that is not in use and changes no other byte; a failed one changes
  nothing.
\<close>

type_synonym ranges = "(addr \<times> nat) set"

definition pool_ok :: "'w boot_services \<Rightarrow> ('w \<Rightarrow> ranges) \<Rightarrow> bool" where
  "pool_ok B blocks \<longleftrightarrow>
     (\<forall>t n s st p s'. BS_AllocatePool B t n s = (st, p, s') \<longrightarrow>
        (if EFI_ERROR st then s' = s
         else mapped (ram s) p n \<and> same_outside (ram s) (ram s') p n \<and>
           (\<forall>(q, k) \<in> blocks (fw s). disjoint_ranges p n q k) \<and> (p, n) \<notin> blocks (fw s) \<and>
           blocks (fw s') = insert (p, n) (blocks (fw s)))) \<and>
     (\<forall>p n s st s'. (p, n) \<in> blocks (fw s) \<and> BS_FreePool B p s = (st, s') \<longrightarrow>
        same_outside (ram s) (ram s') p n \<and> blocks (fw s') = blocks (fw s) - {(p, n)})"

definition in_use :: "ranges \<Rightarrow> addr \<Rightarrow> nat \<Rightarrow> bool" where
  "in_use bs p n \<longleftrightarrow> (\<exists>(q, k) \<in> bs. q \<le> p \<and> p + n \<le> q + k)"

lemma in_useI: "(q, k) \<in> K \<Longrightarrow> q \<le> p \<Longrightarrow> p + n \<le> q + k \<Longrightarrow> in_use K p n"
  by (auto simp: in_use_def)

lemma in_useE:
  assumes "in_use K p n"
  obtains q k where "(q, k) \<in> K" "q \<le> p" "p + n \<le> q + k"
  using assms by (auto simp: in_use_def)

lemma in_use_mono:
  assumes "in_use K p n" "p \<le> q" "q + k \<le> p + n"
  shows "in_use K q k"
proof -
  obtain a b where ab: "(a, b) \<in> K" "a \<le> p" "p + n \<le> a + b" using assms(1) by (rule in_useE)
  show ?thesis by (rule in_useI [OF ab(1)]) (use ab assms in linarith)+
qed

lemma in_use_disjoint:
  assumes "in_use K q k" "\<forall>(q, k) \<in> K. disjoint_ranges p n q k"
  shows "disjoint_ranges p n q k"
proof -
  obtain a b where ab: "(a, b) \<in> K" "a \<le> q" "q + k \<le> a + b" using assms(1) by (rule in_useE)
  have "disjoint_ranges p n a b" using assms(2) ab(1) by blast
  then show ?thesis using ab(2,3) by (auto simp: disjoint_ranges_def)
qed

lemma pool_allocate:
  assumes "pool_ok B blocks" "BS_AllocatePool B t n s = (st, p, s')" "\<not> EFI_ERROR st"
  shows "mapped (ram s) p n" "same_outside (ram s) (ram s') p n" "(p, n) \<notin> blocks (fw s)"
    "blocks (fw s') = insert (p, n) (blocks (fw s))"
    "in_use (blocks (fw s)) q k \<Longrightarrow> disjoint_ranges p n q k"
proof -
  have a: "mapped (ram s) p n \<and> same_outside (ram s) (ram s') p n \<and>
      (\<forall>(q, k) \<in> blocks (fw s). disjoint_ranges p n q k) \<and> (p, n) \<notin> blocks (fw s) \<and>
      blocks (fw s') = insert (p, n) (blocks (fw s))"
    using assms unfolding pool_ok_def by (metis (lifting))
  then show "mapped (ram s) p n" "same_outside (ram s) (ram s') p n" "(p, n) \<notin> blocks (fw s)"
    "blocks (fw s') = insert (p, n) (blocks (fw s))" by auto
  show "disjoint_ranges p n q k" if "in_use (blocks (fw s)) q k"
    using a that by (fastforce simp: in_use_def disjoint_ranges_def)
qed

lemma pool_allocate_fails:
  assumes "pool_ok B blocks" "BS_AllocatePool B t n s = (st, p, s')" "EFI_ERROR st"
  shows "s' = s"
  using assms unfolding pool_ok_def by (metis (lifting))

lemma pool_free:
  assumes "pool_ok B blocks" "(p, n) \<in> blocks (fw s)" "BS_FreePool B p s = (st, s')"
  shows "same_outside (ram s) (ram s') p n" "blocks (fw s') = blocks (fw s) - {(p, n)}"
  using assms unfolding pool_ok_def by (metis (lifting))+

text \<open>What is stored outside the changed range is still there.\<close>

lemma same_outside_region:
  assumes "same_outside m m' p n" "disjoint_ranges p n q k" "q + k \<le> length m"
  shows "region m' q k = region m q k"
  using assms
  by (intro nth_equalityI) (auto simp: region_def same_outside_def disjoint_ranges_def)

lemma same_outside_length: "same_outside m m' p n \<Longrightarrow> length m' = length m"
  by (simp add: same_outside_def)

lemma same_outside_mapped: "same_outside m m' p n \<Longrightarrow> mapped m' q k = mapped m q k"
  by (simp add: same_outside_def mapped_def)

lemma same_outside_rd_bytes:
  "same_outside m m' p n \<Longrightarrow> disjoint_ranges p n q k \<Longrightarrow> rd_bytes m' q k = rd_bytes m q k"
  by (auto simp: rd_bytes_def mapped_def same_outside_region dest: same_outside_length)

lemma same_outside_str16:
  "same_outside m m' p n \<Longrightarrow> disjoint_ranges p n q (2 * length t + 2) \<Longrightarrow> str16_at m q t \<Longrightarrow> str16_at m' q t"
  by (auto simp: str16_at_region mapped_def same_outside_region dest: same_outside_length)

subsection \<open>What it documents of the variable services\<close>

type_synonym variables = "u16 list \<times> u8 list \<Rightarrow> u8 list option"

text \<open>
  A variable is named by its string and vendor GUID. Reading reports the size that is needed when
  the buffer is too small; writing replaces the data, and writing no data deletes the variable. This is
  said only of the attributes the library passes, \<open>BOOTSERVICE_ACCESS\<close> and \<open>RUNTIME_ACCESS\<close> with or without
  \<open>NON_VOLATILE\<close> (7 and 6): appending and authenticated writes, which other attributes ask for, behave
  otherwise. A call that is refused changes no variable. Neither service touches other memory or the pool.
\<close>

definition variables_ok ::
  "'w runtime_services \<Rightarrow> ('w \<Rightarrow> ranges) \<Rightarrow> ('w \<Rightarrow> variables) \<Rightarrow> bool" where
  "variables_ok R blocks vars \<longleftrightarrow>
     (\<forall>name guid size buf s t. str16_at (ram s) name t \<and> mapped (ram s) guid 16 \<longrightarrow>
        (case vars (fw s) (t, region (ram s) guid 16) of
           None \<Rightarrow> \<exists>size'. RT_GetVariable R name guid size buf s = (EFI_NOT_FOUND, size', s)
         | Some d \<Rightarrow>
             if size < length d
             then RT_GetVariable R name guid size buf s = (EFI_BUFFER_TOO_SMALL, length d, s)
             else mapped (ram s) buf (length d) \<longrightarrow>
               RT_GetVariable R name guid size buf s =
                 (EFI_SUCCESS, length d, s\<lparr>ram := overwrite (ram s) buf d\<rparr>))) \<and>
     (\<forall>name guid attr size buf s t st s'. attr \<in> {6, 7} \<and>
        str16_at (ram s) name t \<and> mapped (ram s) guid 16 \<and> (size = 0 \<or> mapped (ram s) buf size) \<and>
        RT_SetVariable R name guid attr size buf s = (st, s') \<longrightarrow>
          ram s' = ram s \<and> blocks (fw s') = blocks (fw s) \<and>
          vars (fw s') = (if EFI_ERROR st then vars (fw s)
            else (vars (fw s)) ((t, region (ram s) guid 16) :=
              (if size = 0 then None else Some (region (ram s) buf size)))))"


lemma get_variable:
  assumes "variables_ok R blocks vars" "str16_at (ram s) name t" "mapped (ram s) guid 16"
  shows "vars (fw s) (t, region (ram s) guid 16) = None \<Longrightarrow>
      \<exists>n'. RT_GetVariable R name guid n buf s = (EFI_NOT_FOUND, n', s)"
    "vars (fw s) (t, region (ram s) guid 16) = Some d \<Longrightarrow> n < length d \<Longrightarrow>
      RT_GetVariable R name guid n buf s = (EFI_BUFFER_TOO_SMALL, length d, s)"
    "vars (fw s) (t, region (ram s) guid 16) = Some d \<Longrightarrow> length d \<le> n \<Longrightarrow>
      mapped (ram s) buf (length d) \<Longrightarrow>
      RT_GetVariable R name guid n buf s = (EFI_SUCCESS, length d, s\<lparr>ram := overwrite (ram s) buf d\<rparr>)"
proof -
  have "case vars (fw s) (t, region (ram s) guid 16) of
      None \<Rightarrow> \<exists>n'. RT_GetVariable R name guid n buf s = (EFI_NOT_FOUND, n', s)
    | Some d \<Rightarrow>
        if n < length d
        then RT_GetVariable R name guid n buf s = (EFI_BUFFER_TOO_SMALL, length d, s)
        else mapped (ram s) buf (length d) \<longrightarrow> RT_GetVariable R name guid n buf s =
          (EFI_SUCCESS, length d, s\<lparr>ram := overwrite (ram s) buf d\<rparr>)"
    using assms unfolding variables_ok_def by blast
  then show "vars (fw s) (t, region (ram s) guid 16) = None \<Longrightarrow>
      \<exists>n'. RT_GetVariable R name guid n buf s = (EFI_NOT_FOUND, n', s)"
    "vars (fw s) (t, region (ram s) guid 16) = Some d \<Longrightarrow> n < length d \<Longrightarrow>
      RT_GetVariable R name guid n buf s = (EFI_BUFFER_TOO_SMALL, length d, s)"
    "vars (fw s) (t, region (ram s) guid 16) = Some d \<Longrightarrow> length d \<le> n \<Longrightarrow>
      mapped (ram s) buf (length d) \<Longrightarrow>
      RT_GetVariable R name guid n buf s = (EFI_SUCCESS, length d, s\<lparr>ram := overwrite (ram s) buf d\<rparr>)"
    by simp_all
qed

lemma set_variable:
  assumes "variables_ok R blocks vars" "str16_at (ram s) name t" "mapped (ram s) guid 16"
    "n = 0 \<or> mapped (ram s) buf n" "RT_SetVariable R name guid attr n buf s = (st, s')" "attr = 6 \<or> attr = 7"
  shows "ram s' = ram s" "blocks (fw s') = blocks (fw s)"
    "vars (fw s') = (if EFI_ERROR st then vars (fw s)
       else (vars (fw s)) ((t, region (ram s) guid 16) :=
         (if n = 0 then None else Some (region (ram s) buf n))))"
  using assms unfolding variables_ok_def by blast+

subsection \<open>What it documents of task priority levels and the protocol database\<close>

text \<open>
  \<open>tpl\<close> is the current level. Raising it gives the level it had; raising and restoring touch neither
  memory nor the rest \<open>view\<close> of the firmware's state.
\<close>

definition tpl_ok :: "'w boot_services \<Rightarrow> ('w \<Rightarrow> nat) \<Rightarrow> ('w \<Rightarrow> 'v) \<Rightarrow> bool" where
  "tpl_ok B tpl view \<longleftrightarrow>
     (\<forall>t s old s'. BS_RaiseTPL B t s = (old, s') \<longrightarrow>
        old = tpl (fw s) \<and> tpl (fw s') = t \<and> ram s' = ram s \<and> view (fw s') = view (fw s)) \<and>
     (\<forall>t s. tpl (fw (BS_RestoreTPL B t s)) = t \<and> ram (BS_RestoreTPL B t s) = ram s \<and>
        view (fw (BS_RestoreTPL B t s)) = view (fw s))"

text \<open>
  \<open>db\<close> maps a handle and the bytes of a GUID to the installed interface. A new handle (for the handle
  0) is one without interfaces; an interface is installed once, removed or replaced only by its own
  address, and removed when it is there; an error changes nothing.
\<close>

type_synonym protocols = "addr \<times> u8 list \<rightharpoonup> addr"

definition protocols_ok :: "'w boot_services \<Rightarrow> ('w \<Rightarrow> protocols) \<Rightarrow> ('w \<Rightarrow> nat) \<Rightarrow> bool" where
  "protocols_ok B db tpl \<longleftrightarrow>
     (\<forall>h g i s st h' s'. BS_InstallProtocolInterface B h g i s = (st, h', s') \<longrightarrow>
        ram s' = ram s \<and> tpl (fw s') = tpl (fw s) \<and>
        (if EFI_ERROR st then h' = h \<and> db (fw s') = db (fw s)
         else (if h = 0 then h' \<noteq> 0 \<and> (\<forall>b. db (fw s) (h', b) = None) else h' = h) \<and>
           db (fw s) (h', region (ram s) g 16) = None \<and>
           db (fw s') = (db (fw s))((h', region (ram s) g 16) \<mapsto> i))) \<and>
     (\<forall>h g i s st s'. BS_UninstallProtocolInterface B h g i s = (st, s') \<longrightarrow>
        ram s' = ram s \<and> tpl (fw s') = tpl (fw s) \<and>
        (if db (fw s) (h, region (ram s) g 16) = Some i
         then \<not> EFI_ERROR st \<and> db (fw s') = (db (fw s))((h, region (ram s) g 16) := None)
         else EFI_ERROR st \<and> db (fw s') = db (fw s))) \<and>
     (\<forall>h g i j s st s'. BS_ReinstallProtocolInterface B h g i j s = (st, s') \<longrightarrow>
        ram s' = ram s \<and> tpl (fw s') = tpl (fw s) \<and>
        (if db (fw s) (h, region (ram s) g 16) = Some i
         then \<not> EFI_ERROR st \<and> db (fw s') = (db (fw s))((h, region (ram s) g 16) \<mapsto> j)
         else EFI_ERROR st \<and> db (fw s') = db (fw s)))"

lemma raise_tpl:
  assumes "tpl_ok B tpl view" "BS_RaiseTPL B t s = (old, s')"
  shows "old = tpl (fw s)" "tpl (fw s') = t" "ram s' = ram s" "view (fw s') = view (fw s)"
  using assms unfolding tpl_ok_def by blast+

lemma restore_tpl:
  assumes "tpl_ok B tpl view"
  shows "tpl (fw (BS_RestoreTPL B t s)) = t" "ram (BS_RestoreTPL B t s) = ram s"
    "view (fw (BS_RestoreTPL B t s)) = view (fw s)"
  using assms unfolding tpl_ok_def by blast+

lemma install_protocol:
  assumes "protocols_ok B db tpl" "BS_InstallProtocolInterface B h g i s = (st, h', s')"
  shows "ram s' = ram s" "tpl (fw s') = tpl (fw s)"
    "EFI_ERROR st \<Longrightarrow> h' = h" "EFI_ERROR st \<Longrightarrow> db (fw s') = db (fw s)"
    "\<not> EFI_ERROR st \<Longrightarrow> h \<noteq> 0 \<Longrightarrow> h' = h" "\<not> EFI_ERROR st \<Longrightarrow> h = 0 \<Longrightarrow> h' \<noteq> 0 \<and> db (fw s) (h', b) = None"
    "\<not> EFI_ERROR st \<Longrightarrow> db (fw s) (h', region (ram s) g 16) = None"
    "\<not> EFI_ERROR st \<Longrightarrow> db (fw s') = (db (fw s))((h', region (ram s) g 16) \<mapsto> i)"
  using assms unfolding protocols_ok_def by metis+

lemma uninstall_protocol:
  assumes "protocols_ok B db tpl" "BS_UninstallProtocolInterface B h g i s = (st, s')"
  shows "ram s' = ram s" "tpl (fw s') = tpl (fw s)"
    "EFI_ERROR st \<longleftrightarrow> db (fw s) (h, region (ram s) g 16) \<noteq> Some i"
    "db (fw s) (h, region (ram s) g 16) = Some i \<Longrightarrow>
       db (fw s') = (db (fw s))((h, region (ram s) g 16) := None)"
    "db (fw s) (h, region (ram s) g 16) \<noteq> Some i \<Longrightarrow> db (fw s') = db (fw s)"
  using assms unfolding protocols_ok_def by metis+

lemma reinstall_protocol:
  assumes "protocols_ok B db tpl" "BS_ReinstallProtocolInterface B h g i j s = (st, s')"
  shows "ram s' = ram s" "tpl (fw s') = tpl (fw s)"
    "EFI_ERROR st \<longleftrightarrow> db (fw s) (h, region (ram s) g 16) \<noteq> Some i"
    "db (fw s) (h, region (ram s) g 16) = Some i \<Longrightarrow>
       db (fw s') = (db (fw s))((h, region (ram s) g 16) \<mapsto> j)"
    "db (fw s) (h, region (ram s) g 16) \<noteq> Some i \<Longrightarrow> db (fw s') = db (fw s)"
  using assms unfolding protocols_ok_def by metis+

subsection \<open>A concrete firmware\<close>

text \<open>
  \<open>demo\<close> keeps its blocks, variables and installed protocols in association lists, its task priority
  level, the text of its console, the keys that will be typed and the open files. Its pool hands out memory above every block.
\<close>

record demo =
  demo_blocks :: "(addr \<times> nat) list"
  demo_vars :: "((u16 list \<times> u8 list) \<times> u8 list) list"
  demo_db :: "((addr \<times> u8 list) \<times> addr) list"
  demo_tpl :: nat
  demo_screen :: "u16 list"
  demo_keys :: "u16 list"
  demo_files :: "addr list"

definition blocks_of :: "demo \<Rightarrow> ranges" where
  "blocks_of w = Map.graph (map_of (demo_blocks w))"

definition vars_of :: "demo \<Rightarrow> variables" where
  "vars_of w = map_of (demo_vars w)"

definition demo_top :: "demo \<Rightarrow> addr" where
  "demo_top w = Suc (foldr max (map (\<lambda>(p, n). p + n) (demo_blocks w)) 0)"

definition demo_alloc :: "u32 \<Rightarrow> nat \<Rightarrow> demo st \<Rightarrow> u64 \<times> addr \<times> demo st" where
  "demo_alloc t n s =
     (let p = demo_top (fw s) in
      if p + n \<le> length (ram s)
      then (EFI_SUCCESS, p, s\<lparr>fw := (fw s)\<lparr>demo_blocks := (p, n) # demo_blocks (fw s)\<rparr>\<rparr>)
      else (EFI_OUT_OF_RESOURCES, 0, s))"

definition demo_free :: "addr \<Rightarrow> demo st \<Rightarrow> u64 \<times> demo st" where
  "demo_free p s =
     (EFI_SUCCESS, s\<lparr>fw := (fw s)\<lparr>demo_blocks := AList.delete p (demo_blocks (fw s))\<rparr>\<rparr>)"

definition demo_install :: "addr \<Rightarrow> addr \<Rightarrow> addr \<Rightarrow> demo st \<Rightarrow> u64 \<times> addr \<times> demo st" where
  "demo_install h g i s =
     (let h' = (if h = 0 then Suc (foldr max (map (fst \<circ> fst) (demo_db (fw s))) 0) else h);
          k = (h', region (ram s) g 16)
      in if map_of (demo_db (fw s)) k = None
         then (EFI_SUCCESS, h', s\<lparr>fw := (fw s)\<lparr>demo_db := (k, i) # demo_db (fw s)\<rparr>\<rparr>)
         else (EFI_INVALID_PARAMETER, h, s))"

definition demo_uninstall :: "addr \<Rightarrow> addr \<Rightarrow> addr \<Rightarrow> demo st \<Rightarrow> u64 \<times> demo st" where
  "demo_uninstall h g i s =
     (let k = (h, region (ram s) g 16)
      in if map_of (demo_db (fw s)) k = Some i
         then (EFI_SUCCESS, s\<lparr>fw := (fw s)\<lparr>demo_db := AList.delete k (demo_db (fw s))\<rparr>\<rparr>)
         else (EFI_NOT_FOUND, s))"

definition demo_reinstall :: "addr \<Rightarrow> addr \<Rightarrow> addr \<Rightarrow> addr \<Rightarrow> demo st \<Rightarrow> u64 \<times> demo st" where
  "demo_reinstall h g i j s =
     (let k = (h, region (ram s) g 16)
      in if map_of (demo_db (fw s)) k = Some i
         then (EFI_SUCCESS, s\<lparr>fw := (fw s)\<lparr>demo_db := AList.update k j (demo_db (fw s))\<rparr>\<rparr>)
         else (EFI_NOT_FOUND, s))"

definition demo_handle :: "addr \<Rightarrow> addr \<Rightarrow> demo st \<Rightarrow> u64 \<times> addr option \<times> demo st" where
  "demo_handle h g s =
     (case map_of (demo_db (fw s)) (h, region (ram s) g 16) of
        Some i \<Rightarrow> (EFI_SUCCESS, Some i, s) | None \<Rightarrow> (EFI_UNSUPPORTED, None, s))"

definition demo_locate :: "u32 \<Rightarrow> addr \<Rightarrow> addr \<Rightarrow> nat \<Rightarrow> addr \<Rightarrow> demo st \<Rightarrow> u64 \<times> nat \<times> demo st" where
  "demo_locate t g key n p s =
     (let hs = map (fst \<circ> fst) (filter (\<lambda>(k, i). snd k = region (ram s) g 16) (demo_db (fw s)));
          d = concat (map (\<lambda>h. le_bytes 8 (word_of_nat h :: u64)) hs)
      in if hs = [] then (EFI_NOT_FOUND, n, s)
         else if n < length d then (EFI_BUFFER_TOO_SMALL, length d, s)
         else (EFI_SUCCESS, length d, s\<lparr>ram := overwrite (ram s) p d\<rparr>))"

definition demo_boot :: "demo boot_services" where
  "demo_boot = \<lparr>
     BS_RaiseTPL = (\<lambda>t s. (demo_tpl (fw s), s\<lparr>fw := (fw s)\<lparr>demo_tpl := t\<rparr>\<rparr>)),
     BS_RestoreTPL = (\<lambda>t s. s\<lparr>fw := (fw s)\<lparr>demo_tpl := t\<rparr>\<rparr>),
     BS_AllocatePool = demo_alloc, BS_FreePool = demo_free,
     BS_GetMemoryMap = (\<lambda>n p s. (EFI_UNSUPPORTED, n, 0, 0, 0, s)),
     BS_CreateEvent = (\<lambda>t l f c s. (EFI_UNSUPPORTED, 0, s)),
     BS_SetTimer = (\<lambda>e t n s. (EFI_UNSUPPORTED, s)),
     BS_WaitForEvent = (\<lambda>es s. (EFI_UNSUPPORTED, 0, s)),
     BS_SignalEvent = (\<lambda>e s. (EFI_UNSUPPORTED, s)),
     BS_CloseEvent = (\<lambda>e s. (EFI_UNSUPPORTED, s)),
     BS_RegisterProtocolNotify = (\<lambda>g e s. (EFI_UNSUPPORTED, 0, s)),
     BS_InstallProtocolInterface = demo_install,
     BS_ReinstallProtocolInterface = demo_reinstall,
     BS_UninstallProtocolInterface = demo_uninstall,
     BS_HandleProtocol = demo_handle,
     BS_LocateHandle = demo_locate,
     BS_LocateDevicePath = (\<lambda>g p s. (EFI_NOT_FOUND, None, s)) \<rparr>"

function read_str16 :: "mem \<Rightarrow> addr \<Rightarrow> u16 list option" where
  "read_str16 m p = do {
     c \<leftarrow> rd16 m p;
     if c = 0 then Some [] else do { t \<leftarrow> read_str16 m (p + 2); Some (c # t) } }"
  by pat_completeness auto
termination
  by (relation "measure (\<lambda>(m, p). length m - p)") (auto simp: rd16_Some mapped_def)

declare read_str16.simps [simp del]

definition demo_get :: "addr \<Rightarrow> addr \<Rightarrow> nat \<Rightarrow> addr \<Rightarrow> demo st \<Rightarrow> u64 \<times> nat \<times> demo st" where
  "demo_get name guid n buf s =
     (case read_str16 (ram s) name of
        None \<Rightarrow> (EFI_INVALID_PARAMETER, n, s)
      | Some t \<Rightarrow>
          (case vars_of (fw s) (t, region (ram s) guid 16) of
             None \<Rightarrow> (EFI_NOT_FOUND, n, s)
           | Some d \<Rightarrow>
               if n < length d then (EFI_BUFFER_TOO_SMALL, length d, s)
               else (EFI_SUCCESS, length d, s\<lparr>ram := overwrite (ram s) buf d\<rparr>)))"

definition demo_set :: "addr \<Rightarrow> addr \<Rightarrow> u32 \<Rightarrow> nat \<Rightarrow> addr \<Rightarrow> demo st \<Rightarrow> u64 \<times> demo st" where
  "demo_set name guid attr n buf s =
     (case read_str16 (ram s) name of
        None \<Rightarrow> (EFI_INVALID_PARAMETER, s)
      | Some t \<Rightarrow>
          (let k = (t, region (ram s) guid 16); vs = AList.delete k (demo_vars (fw s)) in
           (EFI_SUCCESS, s\<lparr>fw := (fw s)\<lparr>demo_vars :=
              (if n = 0 then vs else (k, region (ram s) buf n) # vs)\<rparr>\<rparr>)))"

definition demo_runtime :: "demo runtime_services" where
  "demo_runtime = \<lparr> RT_GetVariable = demo_get, RT_SetVariable = demo_set \<rparr>"

lemma read_str16_eq: "str16_at m p t \<Longrightarrow> read_str16 m p = Some t"
  by (induction t arbitrary: p) (simp_all add: read_str16.simps [of m])

lemma demo_top_above:
  assumes "(q, k) \<in> set (demo_blocks w)"
  shows "q + k < demo_top w"
proof -
  have "x \<le> foldr max xs (0 :: nat)" if "x \<in> set xs" for x xs
    using that by (induction xs) auto
  moreover have "q + k \<in> set (map (\<lambda>(p, n). p + n) (demo_blocks w))" using assms by force
  ultimately show ?thesis unfolding demo_top_def by (simp add: less_Suc_eq_le)
qed

lemma blocks_of_set: "(q, k) \<in> blocks_of w \<Longrightarrow> (q, k) \<in> set (demo_blocks w)"
  by (auto simp: blocks_of_def Map.graph_def dest: map_of_SomeD)

lemma demo_pool_ok: "pool_ok demo_boot blocks_of"
proof -
  have graph: "blocks_of (w\<lparr>demo_blocks := (demo_top w, n) # demo_blocks w\<rparr>) =
      insert (demo_top w, n) (blocks_of w)" for w n
  proof -
    have "demo_top w \<notin> fst ` set (demo_blocks w)" using demo_top_above [of _ _ w] by fastforce
    then have "map_of (demo_blocks w) (demo_top w) = None" by (simp add: map_of_eq_None_iff)
    then show ?thesis by (auto simp: blocks_of_def Map.graph_def split: if_splits)
  qed
  have "blocks_of (w\<lparr>demo_blocks := AList.delete p (demo_blocks w)\<rparr>) = blocks_of w - {(p, n)}"
    if "(p, n) \<in> blocks_of w" for w p n
    using that by (auto simp: blocks_of_def Map.graph_def delete_conv split: if_splits)
  moreover have "disjoint_ranges (demo_top w) n q k" if "(q, k) \<in> blocks_of w" for w q k n
    using demo_top_above [OF blocks_of_set [OF that]] by (auto simp: disjoint_ranges_def)
  moreover have "(demo_top w, n) \<notin> blocks_of w" for w n
    using demo_top_above [OF blocks_of_set] by fastforce
  moreover have "0 < demo_top w" for w by (simp add: demo_top_def)
  ultimately show ?thesis
    unfolding pool_ok_def
    by (auto simp: demo_boot_def demo_alloc_def demo_free_def Let_def graph mapped_def same_outside_def
        split: if_splits)
qed

lemma demo_variables_ok: "variables_ok demo_runtime blocks_of vars_of"
  unfolding variables_ok_def
  by (auto simp: demo_runtime_def demo_get_def demo_set_def read_str16_eq vars_of_def Let_def
      blocks_of_def delete_conv fun_eq_iff mapped_def split: option.splits)

definition db_of :: "demo \<Rightarrow> protocols" where
  "db_of w = map_of (demo_db w)"

lemma demo_tpl_ok: "tpl_ok demo_boot demo_tpl db_of"
  by (auto simp: tpl_ok_def demo_boot_def db_of_def)

lemma demo_protocols_ok: "protocols_ok demo_boot db_of demo_tpl"
proof -
  have fresh: "map_of db (Suc (foldr max (map (fst \<circ> fst) db) 0), b) = None"
    for db :: "((addr \<times> u8 list) \<times> addr) list" and b
  proof -
    have "x \<le> foldr max xs (0 :: nat)" if "x \<in> set xs" for x xs
      using that by (induction xs) auto
    then have "h \<le> foldr max (map (fst \<circ> fst) db) 0" if "((h, c), i) \<in> set db" for h c i
      using that by force
    then show ?thesis by (fastforce simp: map_of_eq_None_iff)
  qed
  show ?thesis
    unfolding protocols_ok_def
    by (auto simp: demo_boot_def demo_install_def demo_uninstall_def demo_reinstall_def Let_def db_of_def
        fresh delete_conv update_conv split: if_splits)
qed

definition demo_console :: "demo text_output" where
  "demo_console = \<lparr>
     OutputString = (\<lambda>b s. (EFI_SUCCESS, s\<lparr>fw := (fw s)\<lparr>demo_screen := demo_screen (fw s) @ b\<rparr>\<rparr>)),
     QueryMode = (\<lambda>n s. (EFI_SUCCESS, 80, 25, s)),
     SetAttribute = (\<lambda>a s. (EFI_SUCCESS, s)), SetCursorPosition = (\<lambda>c r s. (EFI_SUCCESS, s)),
     Mode_Mode = (\<lambda>s. 0), Mode_Attribute = (\<lambda>s. 7) \<rparr>"

definition demo_input :: "demo text_input" where
  "demo_input = \<lparr>
     ReadKeyStroke = (\<lambda>s. case demo_keys (fw s) of
         [] \<Rightarrow> (EFI_NOT_FOUND, 0, 0, s)
       | k # ks \<Rightarrow> (EFI_SUCCESS, 0, k, s\<lparr>fw := (fw s)\<lparr>demo_keys := ks\<rparr>\<rparr>)),
     WaitForKey = 2 \<rparr>"

end
