(* ===== verification/Pool.thy ===== *)
theory Pool
  imports Firmware RtMem
begin

text \<open>
  lib/misc.c: pool memory, the \<open>GrowBuffer\<close> protocol for services that report the buffer size they
  need, the memory map, and the variables built on it.

  \<open>'w lib\<close> holds the library's globals (\<open>BS\<close>, \<open>RT\<close>, \<open>PoolAllocationType\<close>; lib/data.c). The library's
  operations take the state and return their result with the next state; \<open>None\<close> is a memory fault
  or, for the \<open>GrowBuffer\<close> loops, a firmware that asks for a larger buffer for ever.
\<close>

record 'w lib =
  BS :: "'w boot_services"
  RT :: "'w runtime_services"
  PoolAllocationType :: u32

definition with_ram :: "'w st \<Rightarrow> mem \<Rightarrow> 'w st" where
  "with_ram s m = s\<lparr>ram := m\<rparr>"

subsection \<open>Pool memory\<close>

definition AllocatePool :: "'w lib \<Rightarrow> nat \<Rightarrow> 'w st \<Rightarrow> addr \<times> 'w st" where
  "AllocatePool L Size s =
     (case BS_AllocatePool (BS L) (PoolAllocationType L) Size s of
        (Status, p, s) \<Rightarrow> (if EFI_ERROR Status then 0 else p, s))"

definition FreePool :: "'w lib \<Rightarrow> addr \<Rightarrow> 'w st \<Rightarrow> 'w st" where
  "FreePool L Buffer s = snd (BS_FreePool (BS L) Buffer s)"

definition AllocateZeroPool :: "'w lib \<Rightarrow> nat \<Rightarrow> 'w st \<Rightarrow> (addr \<times> 'w st) option" where
  "AllocateZeroPool L Size s =
     (case AllocatePool L Size s of
        (p, s) \<Rightarrow> if p \<noteq> 0 then do { m \<leftarrow> ZeroMem (ram s) p Size; Some (p, with_ram s m) }
                  else Some (p, s))"

definition ReallocatePool_1 :: "'w lib \<Rightarrow> nat \<Rightarrow> nat \<Rightarrow> addr \<Rightarrow> 'w st \<Rightarrow> (addr \<times> 'w st) option" where
  "ReallocatePool_1 L OldSize NewSize OldPool s =
     (case (if NewSize \<noteq> 0 then AllocatePool L NewSize s else (0, s)) of
        (NewPool, s) \<Rightarrow>
          if OldPool \<noteq> 0 then do {
            s \<leftarrow> (if NewPool \<noteq> 0
                 then map_option (with_ram s)
                   (CopyMem_1 (ram s) NewPool OldPool (if OldSize < NewSize then OldSize else NewSize))
                 else Some s);
            Some (NewPool, FreePool L OldPool s) }
          else Some (NewPool, s))"

subsection \<open>Growing buffers\<close>

text \<open>The result is \<open>TryAgain\<close> with the new \<open>*Status\<close> and \<open>*Buffer\<close>.\<close>

definition GrowBuffer ::
  "'w lib \<Rightarrow> u64 \<Rightarrow> addr \<Rightarrow> nat \<Rightarrow> 'w st \<Rightarrow> bool \<times> u64 \<times> addr \<times> 'w st" where
  "GrowBuffer L Status Buffer BufferSize s =
     (let Status = (if Buffer = 0 \<and> BufferSize \<noteq> 0 then EFI_BUFFER_TOO_SMALL else Status);
          (TryAgain, Status, Buffer, s) =
            (if Status = EFI_BUFFER_TOO_SMALL then
               let s = (if Buffer \<noteq> 0 then FreePool L Buffer s else s);
                   (Buffer, s) = AllocatePool L BufferSize s
               in if Buffer \<noteq> 0 then (True, Status, Buffer, s)
                  else (False, EFI_OUT_OF_RESOURCES, Buffer, s)
             else (False, Status, Buffer, s))
      in if \<not> TryAgain \<and> EFI_ERROR Status \<and> Buffer \<noteq> 0
         then (TryAgain, Status, 0, FreePool L Buffer s)
         else (TryAgain, Status, Buffer, s))"

text \<open>
  The loop \<open>while (GrowBuffer (&Status, &Buffer, BufferSize)) Status = call (&BufferSize, Buffer)\<close>
  that six functions of the library share; \<open>x\<close> holds what the call stores through other pointers.
\<close>

partial_function (option) grow_loop ::
  "'w lib \<Rightarrow> (nat \<Rightarrow> addr \<Rightarrow> 'x \<Rightarrow> 'w st \<Rightarrow> u64 \<times> nat \<times> 'x \<times> 'w st) \<Rightarrow>
   u64 \<Rightarrow> addr \<Rightarrow> nat \<Rightarrow> 'x \<Rightarrow> 'w st \<Rightarrow> (u64 \<times> addr \<times> nat \<times> 'x \<times> 'w st) option" where
  "grow_loop L call Status Buffer BufferSize x s =
     (case GrowBuffer L Status Buffer BufferSize s of
        (TryAgain, Status, Buffer, s) \<Rightarrow>
          if TryAgain
          then (case call BufferSize Buffer x s of
                  (Status, BufferSize, x, s) \<Rightarrow> grow_loop L call Status Buffer BufferSize x s)
          else Some (Status, Buffer, BufferSize, x, s))"

text \<open>
  \<open>EFI_MEMORY_DESCRIPTOR\<close> has 40 bytes. The result is the buffer, \<open>NoEntries\<close> where it is set, and
  the map key, descriptor size and version the firmware stored.
\<close>

definition LibMemoryMap ::
  "'w lib \<Rightarrow> 'w st \<Rightarrow> (addr \<times> nat option \<times> (nat \<times> nat \<times> u32) \<times> 'w st) option" where
  "LibMemoryMap L s = do {
     (Status, Buffer, BufferSize, (key, dsize, ver), s) \<leftarrow>
       grow_loop L
         (\<lambda>n p x s. case BS_GetMemoryMap (BS L) n p s of
            (Status, n, key, dsize, ver, s) \<Rightarrow> (Status, n, (key, dsize, ver), s))
         EFI_SUCCESS 0 40 (0, 0, 0) s;
     if EFI_ERROR Status then Some (Buffer, None, (key, dsize, ver), s)
     else if dsize = 0 then None
     else Some (Buffer, Some (BufferSize div dsize), (key, dsize, ver), s) }"

subsection \<open>Variables\<close>

definition get_variable_call ::
  "'w lib \<Rightarrow> addr \<Rightarrow> addr \<Rightarrow> nat \<Rightarrow> addr \<Rightarrow> unit \<Rightarrow> 'w st \<Rightarrow> u64 \<times> nat \<times> unit \<times> 'w st" where
  "get_variable_call L Name VendorGuid n p x s =
     (case RT_GetVariable (RT L) Name VendorGuid n p s of (Status, n, s) \<Rightarrow> (Status, n, x, s))"

definition LibGetVariableAndSize ::
  "'w lib \<Rightarrow> addr \<Rightarrow> addr \<Rightarrow> 'w st \<Rightarrow> (addr \<times> nat \<times> 'w st) option" where
  "LibGetVariableAndSize L Name VendorGuid s = do {
     (Status, Buffer, BufferSize, x, s) \<leftarrow>
       grow_loop L (get_variable_call L Name VendorGuid) EFI_SUCCESS 0 100 () s;
     Some (Buffer, if Buffer \<noteq> 0 then BufferSize else 0, s) }"

definition LibGetVariable :: "'w lib \<Rightarrow> addr \<Rightarrow> addr \<Rightarrow> 'w st \<Rightarrow> (addr \<times> 'w st) option" where
  "LibGetVariable L Name VendorGuid s = do {
     (Buffer, VarSize, s) \<leftarrow> LibGetVariableAndSize L Name VendorGuid s;
     Some (Buffer, s) }"

text \<open>The attributes: \<open>NON_VOLATILE\<close> 1, \<open>BOOTSERVICE_ACCESS\<close> 2, \<open>RUNTIME_ACCESS\<close> 4.\<close>

definition LibDeleteVariable :: "'w lib \<Rightarrow> addr \<Rightarrow> addr \<Rightarrow> 'w st \<Rightarrow> (u64 \<times> 'w st) option" where
  "LibDeleteVariable L VarName VarGuid s = do {
     (VarBuf, s) \<leftarrow> LibGetVariable L VarName VarGuid s;
     if VarBuf \<noteq> 0
     then (case RT_SetVariable (RT L) VarName VarGuid (2 OR 4 OR 1) 0 0 s of
             (Status, s) \<Rightarrow> Some (Status, FreePool L VarBuf s))
     else Some (EFI_NOT_FOUND, s) }"

definition LibSetNVVariable ::
  "'w lib \<Rightarrow> addr \<Rightarrow> addr \<Rightarrow> nat \<Rightarrow> addr \<Rightarrow> 'w st \<Rightarrow> u64 \<times> 'w st" where
  "LibSetNVVariable L VarName VarGuid DataSize Data s =
     RT_SetVariable (RT L) VarName VarGuid (2 OR 4 OR 1) DataSize Data s"

definition LibSetVariable ::
  "'w lib \<Rightarrow> addr \<Rightarrow> addr \<Rightarrow> nat \<Rightarrow> addr \<Rightarrow> 'w st \<Rightarrow> u64 \<times> 'w st" where
  "LibSetVariable L VarName VarGuid DataSize Data s =
     RT_SetVariable (RT L) VarName VarGuid (2 OR 4) DataSize Data s"

text \<open>The loop that copies the old boot order, \<open>n\<close> entries from index \<open>i\<close>.\<close>

primrec copy_boot_options :: "mem \<Rightarrow> addr \<Rightarrow> addr \<Rightarrow> nat \<Rightarrow> nat \<Rightarrow> mem option" where
  "copy_boot_options m new old i 0 = Some m"
| "copy_boot_options m new old i (Suc n) = do {
     v \<leftarrow> rd16 m (old + 2 * i);
     m \<leftarrow> wr16 m (new + 2 * i) v;
     copy_boot_options m new old (Suc i) n }"

text \<open>\<open>VarBootOrder\<close> and \<open>EfiGlobalVariable\<close> are the addresses of the two constants.\<close>

definition LibInsertToTailOfBootOrder ::
  "'w lib \<Rightarrow> addr \<Rightarrow> addr \<Rightarrow> u16 \<Rightarrow> bool \<Rightarrow> 'w st \<Rightarrow> (u64 \<times> 'w st) option" where
  "LibInsertToTailOfBootOrder L VarBootOrder EfiGlobalVariable BootOption OnlyInsertIfEmpty s = do {
     (BootOptionArray, VarSize, s) \<leftarrow> LibGetVariableAndSize L VarBootOrder EfiGlobalVariable s;
     if VarSize \<noteq> 0 \<and> OnlyInsertIfEmpty
     then Some (EFI_UNSUPPORTED, if BootOptionArray \<noteq> 0 then FreePool L BootOptionArray s else s)
     else
       let VarSize = uintn (VarSize + 2) in
       case AllocatePool L VarSize s of
         (NewBootOptionArray, s) \<Rightarrow>
           if NewBootOptionArray = 0 then Some (EFI_OUT_OF_RESOURCES, s)
           else do {
             m \<leftarrow> copy_boot_options (ram s) NewBootOptionArray BootOptionArray 0 (VarSize div 2 - 1);
             m \<leftarrow> wr16 m (NewBootOptionArray + 2 * (VarSize div 2 - 1)) BootOption;
             (case RT_SetVariable (RT L) VarBootOrder EfiGlobalVariable (2 OR 4 OR 1) VarSize
                     NewBootOptionArray (with_ram s m) of
                (Status, s) \<Rightarrow>
                  let s = FreePool L NewBootOptionArray s
                  in Some (Status, if BootOptionArray \<noteq> 0 then FreePool L BootOptionArray s else s)) } }"

subsection \<open>Memory in use\<close>

text \<open>
  \<open>same_on K m m'\<close>: the ranges of \<open>K\<close> hold the same bytes. \<open>pool_keeps B v\<close>: the pool services do
  not touch the part \<open>v\<close> of the firmware's state (such as its variables).
\<close>

definition same_on :: "ranges \<Rightarrow> mem \<Rightarrow> mem \<Rightarrow> bool" where
  "same_on K m m' \<longleftrightarrow> length m' = length m \<and>
     (\<forall>(q, k) \<in> K. \<forall>i < length m. q \<le> i \<and> i < q + k \<longrightarrow> m' ! i = m ! i)"

definition pool_keeps :: "'w boot_services \<Rightarrow> ('w \<Rightarrow> 'v) \<Rightarrow> bool" where
  "pool_keeps B v \<longleftrightarrow>
     (\<forall>t n s st p s'. BS_AllocatePool B t n s = (st, p, s') \<longrightarrow> v (fw s') = v (fw s)) \<and>
     (\<forall>p s st s'. BS_FreePool B p s = (st, s') \<longrightarrow> v (fw s') = v (fw s))"

lemma same_on_refl [simp]: "same_on K m m"
  by (simp add: same_on_def)

lemma same_on_trans: "same_on K a b \<Longrightarrow> same_on K b c \<Longrightarrow> same_on K a c"
  by (fastforce simp: same_on_def)

lemma same_on_outside:
  assumes "same_outside m m' p n" "\<forall>(q, k) \<in> K. disjoint_ranges p n q k"
  shows "same_on K m m'"
  using assms by (fastforce simp: same_on_def same_outside_def disjoint_ranges_def)

lemma same_on_overwrite:
  assumes "mapped m p (length bs)" "length bs \<le> n" "\<forall>(q, k) \<in> K. disjoint_ranges p n q k"
  shows "same_on K m (overwrite m p bs)"
  using assms
  by (fastforce simp: same_on_def nth_overwrite mapped_def disjoint_ranges_def)

lemma same_on_region:
  assumes "same_on K m m'" "in_use K q k" "q + k \<le> length m"
  shows "region m' q k = region m q k"
  using assms
  by (intro nth_equalityI) (fastforce simp: same_on_def region_def in_use_def)+

lemma same_on_length: "same_on K m m' \<Longrightarrow> length m' = length m"
  by (simp add: same_on_def)

lemma same_on_str16:
  assumes "same_on K m m'" "in_use K q (2 * length t + 2)" "str16_at m q t"
  shows "str16_at m' q t"
  using assms by (auto simp: str16_at_region mapped_def same_on_region dest: same_on_length)

lemma bytes_at_same_on:
  assumes "same_on K m m'" "in_use K p (length bs)" "bytes_at m p bs"
  shows "bytes_at m' p bs"
  using same_on_region [OF assms(1,2)] bytes_at_mapped [OF assms(3)] bytes_at_region [OF assms(3)]
    same_on_length [OF assms(1)]
  by (auto simp: bytes_at_def rd_bytes_def mapped_def)

text \<open>Allocating and freeing, in these terms.\<close>

lemma AllocatePool_cases:
  assumes "pool_ok (BS L) blocks" "AllocatePool L n s = (p, s')"
  obtains (fails) "p = 0" "s' = s"
  | (block) "p \<noteq> 0" "mapped (ram s) p n" "same_on (blocks (fw s)) (ram s) (ram s')"
      "blocks (fw s') = insert (p, n) (blocks (fw s))" "(p, n) \<notin> blocks (fw s)"
      "\<forall>(q, k) \<in> blocks (fw s). disjoint_ranges p n q k"
proof -
  obtain st q where b: "BS_AllocatePool (BS L) (PoolAllocationType L) n s = (st, q, s')"
      "p = (if EFI_ERROR st then 0 else q)"
    using assms(2) by (auto simp: AllocatePool_def split: prod.splits)
  show ?thesis
  proof (cases "EFI_ERROR st")
    case True
    then show ?thesis using fails pool_allocate_fails [OF assms(1) b(1)] b(2) by simp
  next
    case False
    note a = pool_allocate [OF assms(1) b(1) False]
    have d: "\<forall>(q', k) \<in> blocks (fw s). disjoint_ranges q n q' k"
      using a(5) by (fastforce simp: in_use_def)
    show ?thesis using block a(1-4) d same_on_outside [OF a(2) d] b(2) False
      by (simp add: mapped_def)
  qed
qed

lemma FreePool_block:
  assumes "pool_ok (BS L) blocks" "(p, n) \<in> blocks (fw s)" "\<forall>(q, k) \<in> K. disjoint_ranges p n q k"
  shows "same_on K (ram s) (ram (FreePool L p s))"
    "blocks (fw (FreePool L p s)) = blocks (fw s) - {(p, n)}"
  using pool_free [OF assms(1,2)] same_on_outside [OF _ assms(3)]
  by (simp_all add: FreePool_def prod_eq_iff)

lemma pool_keeps_AllocatePool:
  "pool_keeps (BS L) v \<Longrightarrow> AllocatePool L n s = (p, s') \<Longrightarrow> v (fw s') = v (fw s)"
  by (auto simp: pool_keeps_def AllocatePool_def split: prod.splits)

lemma pool_keeps_FreePool: "pool_keeps (BS L) v \<Longrightarrow> v (fw (FreePool L p s)) = v (fw s)"
  unfolding pool_keeps_def FreePool_def by (metis surjective_pairing)

lemma with_ram_simps [simp]: "ram (with_ram s m) = m" "fw (with_ram s m) = fw s"
  by (simp_all add: with_ram_def)

subsection \<open>\<open>GrowBuffer\<close> case by case\<close>

lemma GrowBuffer_first:
  "0 < n \<Longrightarrow> GrowBuffer L st 0 n s =
     (case AllocatePool L n s of (p, s') \<Rightarrow>
        if p = 0 then (False, EFI_OUT_OF_RESOURCES, 0, s') else (True, EFI_BUFFER_TOO_SMALL, p, s'))"
  by (auto simp: GrowBuffer_def Let_def split: prod.splits)

lemma GrowBuffer_again:
  "p \<noteq> 0 \<Longrightarrow> GrowBuffer L EFI_BUFFER_TOO_SMALL p n s =
     (case AllocatePool L n (FreePool L p s) of (p, s') \<Rightarrow>
        if p = 0 then (False, EFI_OUT_OF_RESOURCES, 0, s') else (True, EFI_BUFFER_TOO_SMALL, p, s'))"
  by (auto simp: GrowBuffer_def Let_def split: prod.splits)

lemma GrowBuffer_done:
  "p \<noteq> 0 \<Longrightarrow> st \<noteq> EFI_BUFFER_TOO_SMALL \<Longrightarrow> GrowBuffer L st p n s =
     (if EFI_ERROR st then (False, st, 0, FreePool L p s) else (False, st, p, s))"
  by (simp add: GrowBuffer_def Let_def)

text \<open>
  A call that reports the size \<open>length d\<close> it needs and stores \<open>d\<close> when the buffer is large enough:
  what the loop gives back is a new block holding \<open>d\<close>, or no block when the pool is exhausted.
\<close>

definition got_block ::
  "('w \<Rightarrow> ranges) \<Rightarrow> u8 list \<Rightarrow> 'w st \<Rightarrow> addr \<Rightarrow> nat \<Rightarrow> 'w st \<Rightarrow> bool" where
  "got_block blocks d s p n s' \<longleftrightarrow> n = length d \<and> rd_bytes (ram s') p n = Some d \<and>
     (\<exists>k \<ge> n. mapped (ram s') p k \<and> (p, k) \<notin> blocks (fw s) \<and>
        (\<forall>(q, j) \<in> blocks (fw s). disjoint_ranges p k q j) \<and>
        blocks (fw s') = insert (p, k) (blocks (fw s)))"

text \<open>
  Whether the pool gives the loop what it asks for: the first buffer of \<open>n\<close> bytes, and, when \<open>k\<close> bytes are
  needed and that is not enough, the second, of \<open>k\<close> bytes, after the first has been freed.
\<close>

definition pool_gives :: "'w lib \<Rightarrow> nat \<Rightarrow> nat \<Rightarrow> 'w st \<Rightarrow> bool" where
  "pool_gives L n k s \<longleftrightarrow>
     (case AllocatePool L n s of
        (p, s1) \<Rightarrow> p \<noteq> 0 \<and> (n < k \<longrightarrow> fst (AllocatePool L k (FreePool L p s1)) \<noteq> 0))"

lemma grow_loop_reads_or_exhausted:
  fixes s :: "'w st"
  assumes pool: "pool_ok (BS L) blocks" and keeps: "pool_keeps (BS L) v" and n: "0 < n"
    and call: "\<And>n p s1. same_on (blocks (fw s)) (ram s) (ram s1) \<Longrightarrow> v (fw s1) = v (fw s) \<Longrightarrow>
      (n < length d \<longrightarrow> call n p x s1 = (EFI_BUFFER_TOO_SMALL, length d, x, s1)) \<and>
      (length d \<le> n \<longrightarrow> mapped (ram s1) p (length d) \<longrightarrow>
         call n p x s1 = (EFI_SUCCESS, length d, x, with_ram s1 (overwrite (ram s1) p d)))"
  shows "\<exists>st p n' s'. grow_loop L call EFI_SUCCESS 0 n x s = Some (st, p, n', x, s') \<and>
    same_on (blocks (fw s)) (ram s) (ram s') \<and> v (fw s') = v (fw s) \<and>
    (if pool_gives L n (length d) s then p \<noteq> 0 \<and> st = EFI_SUCCESS \<and> got_block blocks d s p n' s'
     else p = 0 \<and> st = EFI_OUT_OF_RESOURCES \<and> blocks (fw s') = blocks (fw s))"
proof -
  let ?K = "blocks (fw s)"
  text \<open>The call on a block that is large enough, and the return.\<close>
  have final: "\<exists>s'. (case call k p x s1 of (st, n, x, s1) \<Rightarrow> grow_loop L call st p n x s1) =
        Some (EFI_SUCCESS, p, length d, x, s') \<and>
      same_on ?K (ram s) (ram s') \<and> v (fw s') = v (fw s) \<and> got_block blocks d s p (length d) s'"
    if s1: "same_on ?K (ram s) (ram s1)" "v (fw s1) = v (fw s)" and p: "p \<noteq> 0" "mapped (ram s1) p k"
      "(p, k) \<notin> ?K" "\<forall>(q, j) \<in> ?K. disjoint_ranges p k q j" "blocks (fw s1) = insert (p, k) ?K"
      and k: "length d \<le> k" for p k s1
  proof -
    have m: "mapped (ram s1) p (length d)" using p(2) k by (auto elim: mapped_mono)
    let ?s = "with_ram s1 (overwrite (ram s1) p d)"
    have "call k p x s1 = (EFI_SUCCESS, length d, x, ?s)" using call [OF s1] k m by blast
    moreover have "grow_loop L call EFI_SUCCESS p (length d) x ?s = Some (EFI_SUCCESS, p, length d, x, ?s)"
      using p(1) by (subst grow_loop.simps) (simp add: GrowBuffer_done)
    moreover have "same_on ?K (ram s) (ram ?s)"
      using same_on_trans [OF s1(1)] same_on_overwrite [OF m k p(4)] by simp
    moreover have "got_block blocks d s p (length d) ?s"
      unfolding got_block_def using p k m rd_bytes_overwrite_same [OF m]
      by (auto simp: mapped_def intro!: exI [of _ k])
    ultimately show ?thesis using s1(2) by auto
  qed
  obtain p s1 where a: "AllocatePool L n s = (p, s1)" by force
  note g = GrowBuffer_first [OF n, of L EFI_SUCCESS s]
  from pool a show ?thesis
  proof (cases rule: AllocatePool_cases)
    case fails
    then have "\<not> pool_gives L n (length d) s" using a by (simp add: pool_gives_def)
    with fails show ?thesis using a g by (subst grow_loop.simps) simp
  next
    case block
    have v1: "v (fw s1) = v (fw s)" using keeps a by (rule pool_keeps_AllocatePool)
    have len: "length (ram s1) = length (ram s)" using block(3) by (rule same_on_length)
    have loop: "grow_loop L call EFI_SUCCESS 0 n x s =
        (case call n p x s1 of (st, n, x, s1) \<Rightarrow> grow_loop L call st p n x s1)"
      using a g block(1) by (subst grow_loop.simps) simp
    show ?thesis
    proof (cases "length d \<le> n")
      case True
      have gives: "pool_gives L n (length d) s" using a block(1) True by (simp add: pool_gives_def)
      have "mapped (ram s1) p n" using block(2) len by (simp add: mapped_def)
      from final [OF block(3) v1 block(1) this block(5,6,4) True] block(1) gives
      show ?thesis unfolding loop by (metis (no_types, lifting))
    next
      case False
      then have c: "call n p x s1 = (EFI_BUFFER_TOO_SMALL, length d, x, s1)"
        using call [OF block(3) v1] by simp
      let ?f = "FreePool L p s1"
      have in1: "(p, n) \<in> blocks (fw s1)" using block(4) by simp
      note fr = FreePool_block [OF pool in1 block(6)]
      have bf: "blocks (fw ?f) = ?K" using fr(2) block(4,5) by simp
      have sf: "same_on ?K (ram s) (ram ?f)" using same_on_trans [OF block(3) fr(1)] .
      have vf: "v (fw ?f) = v (fw s)" using keeps v1 by (simp add: pool_keeps_FreePool)
      obtain p2 s2 where a2: "AllocatePool L (length d) ?f = (p2, s2)" by force
      note g2 = GrowBuffer_again [OF block(1), of L "length d" s1]
      from pool a2 show ?thesis
      proof (cases rule: AllocatePool_cases)
        case fails
        then have "\<not> pool_gives L n (length d) s" using a a2 False by (simp add: pool_gives_def)
        with fails show ?thesis unfolding loop c using a2 g2 bf sf vf
          by (simp add: grow_loop.simps [of L call EFI_BUFFER_TOO_SMALL])
      next
        case b2: block
        have gives: "pool_gives L n (length d) s" using a a2 block(1) b2(1) by (simp add: pool_gives_def)
        have v2: "v (fw s2) = v (fw s)" using pool_keeps_AllocatePool [OF keeps a2] vf by simp
        have s2: "same_on ?K (ram s) (ram s2)" using b2(3) sf by (auto simp: bf intro: same_on_trans)
        have m2: "mapped (ram s2) p2 (length d)"
          using b2(2) same_on_length [OF b2(3)] by (simp add: mapped_def)
        have "grow_loop L call EFI_BUFFER_TOO_SMALL p (length d) x s1 =
            (case call (length d) p2 x s2 of (st, n, x, s1) \<Rightarrow> grow_loop L call st p2 n x s1)"
          using a2 g2 b2(1) by (subst grow_loop.simps) simp
        from final [OF s2 v2 b2(1) m2 b2(5,6,4) [unfolded bf] order.refl] this b2(1) gives
        show ?thesis unfolding loop c split by (metis (no_types, lifting))
      qed
    qed
  qed
qed

text \<open>A call that fails with another error: the loop returns it and keeps no block.\<close>

lemma grow_loop_fails:
  fixes s :: "'w st"
  assumes pool: "pool_ok (BS L) blocks" and keeps: "pool_keeps (BS L) v" and n: "0 < n"
    and st: "EFI_ERROR st" "st \<noteq> EFI_BUFFER_TOO_SMALL"
    and call: "\<And>n p s1. same_on (blocks (fw s)) (ram s) (ram s1) \<Longrightarrow> v (fw s1) = v (fw s) \<Longrightarrow>
      \<exists>n'. call n p x s1 = (st, n', x, s1)"
  shows "\<exists>st' n' s'. grow_loop L call EFI_SUCCESS 0 n x s = Some (st', 0, n', x, s') \<and>
    same_on (blocks (fw s)) (ram s) (ram s') \<and> v (fw s') = v (fw s) \<and>
    (st' = st \<or> st' = EFI_OUT_OF_RESOURCES) \<and> blocks (fw s') = blocks (fw s)"
proof -
  obtain p s1 where a: "AllocatePool L n s = (p, s1)" by force
  note g = GrowBuffer_first [OF n, of L EFI_SUCCESS s]
  from pool a show ?thesis
  proof (cases rule: AllocatePool_cases)
    case fails
    then show ?thesis using a g by (subst grow_loop.simps) simp
  next
    case block
    have v1: "v (fw s1) = v (fw s)" using keeps a by (rule pool_keeps_AllocatePool)
    obtain n' where c: "call n p x s1 = (st, n', x, s1)" using call [OF block(3) v1] by blast
    have in1: "(p, n) \<in> blocks (fw s1)" using block(4) by simp
    note fr = FreePool_block [OF pool in1 block(6)]
    have "grow_loop L call EFI_SUCCESS 0 n x s = grow_loop L call st p n' x s1"
      using a g block(1) c by (subst grow_loop.simps) simp
    also have "\<dots> = Some (st, 0, n', x, FreePool L p s1)"
      using block(1) st by (subst grow_loop.simps) (simp add: GrowBuffer_done)
    finally show ?thesis using fr block(3-5) v1 keeps
      by (auto simp: pool_keeps_FreePool intro: same_on_trans)
  qed
qed

subsection \<open>A concrete library state\<close>

text \<open>The library on the \<open>demo\<close> firmware, with some bytes in use from address 1 and \<open>k\<close> free bytes.\<close>

definition demo_lib :: "demo lib" where
  "demo_lib = \<lparr> BS = demo_boot, RT = demo_runtime, PoolAllocationType = 4 \<rparr>"

definition demo_mem :: "u8 list \<Rightarrow> nat \<Rightarrow> demo st" where
  "demo_mem bs k = \<lparr> ram = [0] @ bs @ replicate k 0,
     fw = \<lparr> demo_blocks = [(1, length bs)], demo_vars = [],
       demo_db = [], demo_tpl = 4, demo_screen = [], demo_keys = [], demo_files = [] \<rparr> \<rparr>"

lemma demo_lib_pool: "pool_ok (BS demo_lib) blocks_of"
  by (simp add: demo_lib_def demo_pool_ok)

lemma demo_mem_in_use:
  "1 \<le> p \<Longrightarrow> p + n \<le> 1 + length bs \<Longrightarrow> in_use (blocks_of (fw (demo_mem bs k))) p n"
  by (rule in_useI [of 1 "length bs"]) (simp_all add: demo_mem_def blocks_of_def Map.graph_def)

lemma demo_mem_bytes:
  assumes "xs = as @ bs @ cs" "p = 1 + length as"
  shows "bytes_at (ram (demo_mem xs k)) p bs"
  unfolding assms
  by (simp add: demo_mem_def bytes_at_def rd_bytes_def mapped_def region_def)

end
