(* ===== verification/Variables.thy ===== *)
theory Variables
  imports Pool
begin

text \<open>
  What the variable operations of Pool (lib/misc.c) do, given the documented behaviour of the pool
  and variable services: reading a variable into a pool block, deleting one, and appending to the
  boot order.
\<close>

subsection \<open>Reading\<close>

text \<open>A variable's name and vendor GUID, stored in memory that is in use.\<close>

definition names_variable ::
  "('w \<Rightarrow> ranges) \<Rightarrow> 'w st \<Rightarrow> addr \<Rightarrow> addr \<Rightarrow> u16 list \<times> u8 list \<Rightarrow> bool" where
  "names_variable blocks s Name Guid k \<longleftrightarrow>
     (case k of (t, g) \<Rightarrow> str16_at (ram s) Name t \<and> in_use (blocks (fw s)) Name (2 * length t + 2) \<and>
        rd_bytes (ram s) Guid 16 = Some g \<and> in_use (blocks (fw s)) Guid 16)"

definition firmware_ok :: "'w lib \<Rightarrow> ('w \<Rightarrow> ranges) \<Rightarrow> ('w \<Rightarrow> variables) \<Rightarrow> bool" where
  "firmware_ok L blocks vars \<longleftrightarrow> pool_ok (BS L) blocks \<and> pool_keeps (BS L) vars \<and>
     variables_ok (RT L) blocks vars"

lemma names_variable_same_on:
  assumes "names_variable blocks s Name Guid (t, g)" "same_on (blocks (fw s)) (ram s) m"
  shows "str16_at m Name t" "mapped m Guid 16" "region m Guid 16 = g"
  using assms same_on_str16 [OF assms(2), of Name t] same_on_region [OF assms(2), of Guid 16]
  by (auto simp: names_variable_def rd_bytes_def mapped_def split: if_splits dest: same_on_length)

lemma LibGetVariableAndSize_found:
  assumes ok: "firmware_ok L blocks vars" and k: "names_variable blocks s Name Guid k"
    and d: "vars (fw s) k = Some d"
  shows "\<exists>p n s'. LibGetVariableAndSize L Name Guid s = Some (p, n, s') \<and>
    same_on (blocks (fw s)) (ram s) (ram s') \<and> vars (fw s') = vars (fw s) \<and>
    (if pool_gives L 100 (length d) s then p \<noteq> 0 \<and> got_block blocks d s p n s'
     else p = 0 \<and> n = 0 \<and> blocks (fw s') = blocks (fw s))"
proof -
  obtain t g where tg: "k = (t, g)" by force
  have "(n < length d \<longrightarrow> get_variable_call L Name Guid n p () s1 = (EFI_BUFFER_TOO_SMALL, length d, (), s1)) \<and>
      (length d \<le> n \<longrightarrow> mapped (ram s1) p (length d) \<longrightarrow> get_variable_call L Name Guid n p () s1 =
        (EFI_SUCCESS, length d, (), with_ram s1 (overwrite (ram s1) p d)))"
    if "same_on (blocks (fw s)) (ram s) (ram s1)" "vars (fw s1) = vars (fw s)" for n p s1
  proof -
    note m = names_variable_same_on [OF k [unfolded tg] that(1)]
    have v: "variables_ok (RT L) blocks vars" using ok by (simp add: firmware_ok_def)
    have "vars (fw s1) (t, region (ram s1) Guid 16) = Some d" using d m(3) that(2) tg by simp
    then show ?thesis
      using get_variable(2,3) [OF v m(1,2), of d] unfolding get_variable_call_def with_ram_def
      by simp
  qed
  with ok have "\<exists>st p n' s'. grow_loop L (get_variable_call L Name Guid) EFI_SUCCESS 0 100 () s = Some (st, p, n', (), s') \<and>
    same_on (blocks (fw s)) (ram s) (ram s') \<and> vars (fw s') = vars (fw s) \<and>
    (if pool_gives L 100 (length d) s then p \<noteq> 0 \<and> st = EFI_SUCCESS \<and> got_block blocks d s p n' s'
     else p = 0 \<and> st = EFI_OUT_OF_RESOURCES \<and> blocks (fw s') = blocks (fw s))"
    by (intro grow_loop_reads_or_exhausted) (simp_all add: firmware_ok_def)
  then show ?thesis by (auto simp: LibGetVariableAndSize_def split: if_splits)
qed

lemma LibGetVariableAndSize_missing:
  assumes ok: "firmware_ok L blocks vars" and k: "names_variable blocks s Name Guid k"
    and d: "vars (fw s) k = None"
  shows "\<exists>s'. LibGetVariableAndSize L Name Guid s = Some (0, 0, s') \<and>
    same_on (blocks (fw s)) (ram s) (ram s') \<and> vars (fw s') = vars (fw s) \<and>
    blocks (fw s') = blocks (fw s)"
proof -
  obtain t g where tg: "k = (t, g)" by force
  have "\<exists>n'. get_variable_call L Name Guid n p () s1 = (EFI_NOT_FOUND, n', (), s1)"
    if "same_on (blocks (fw s)) (ram s) (ram s1)" "vars (fw s1) = vars (fw s)" for n p s1
  proof -
    note m = names_variable_same_on [OF k [unfolded tg] that(1)]
    have v: "variables_ok (RT L) blocks vars" using ok by (simp add: firmware_ok_def)
    have "vars (fw s1) (t, region (ram s1) Guid 16) = None" using d m(3) that(2) tg by simp
    from get_variable(1) [OF v m(1,2) this] show ?thesis
      unfolding get_variable_call_def by (metis (no_types, lifting) case_prod_conv)
  qed
  with ok have "\<exists>st' n' s'. grow_loop L (get_variable_call L Name Guid) EFI_SUCCESS 0 100 () s = Some (st', 0, n', (), s') \<and>
    same_on (blocks (fw s)) (ram s) (ram s') \<and> vars (fw s') = vars (fw s) \<and>
    (st' = EFI_NOT_FOUND \<or> st' = EFI_OUT_OF_RESOURCES) \<and> blocks (fw s') = blocks (fw s)"
    by (intro grow_loop_fails) (simp_all add: firmware_ok_def)
  then show ?thesis by (auto simp: LibGetVariableAndSize_def)
qed

subsection \<open>Appending to the boot order\<close>

lemma copy_boot_options_eq:
  assumes "mapped m new (2 * (i + n))" "mapped m old (2 * (i + n)) \<or> i + n = 0"
    "disjoint_ranges new (2 * (i + n)) old (2 * (i + n)) \<or> i + n = 0"
  shows "copy_boot_options (overwrite m new (region m old (2 * i))) new old i n =
    Some (overwrite m new (region m old (2 * (i + n))))"
  using assms
proof (induction n arbitrary: i)
  case 0
  then show ?case by simp
next
  case (Suc n)
  let ?m = "overwrite m new (region m old (2 * i))"
  have len: "length (region m old (2 * i)) = 2 * i" using Suc.prems by (auto simp: mapped_def)
  have r: "region m old (2 * Suc i) = region m old (2 * i) @ region m (old + 2 * i) 2"
    using region_append [of m old "2 * i" 2] by (simp add: add.commute)
  have l2: "length (region m (old + 2 * i) 2) = 2" using Suc.prems by (auto simp: mapped_def)
  have rd: "rd16 ?m (old + 2 * i) = Some (le_word (region m (old + 2 * i) 2))"
    using Suc.prems len
    by (auto simp: rd16_def rd_bytes_def mapped_def region_overwrite_disjoint disjoint_ranges_def)
  have "le_bytes 2 (le_word (region m (old + 2 * i) 2) :: u16) = region m (old + 2 * i) 2"
    using l2 by (rule le_bytes_le_word_width)
  moreover have "mapped ?m (new + 2 * i) 2" using Suc.prems(1) len by (simp add: mapped_def)
  moreover have "overwrite ?m (new + 2 * i) (region m (old + 2 * i) 2) = overwrite m new (region m old (2 * Suc i))"
    using Suc.prems(1) len l2 overwrite_append [of new "region m old (2 * i)" "region m (old + 2 * i) 2" m]
    unfolding r by (simp add: mapped_def)
  ultimately have "wr16 ?m (new + 2 * i) (le_word (region m (old + 2 * i) 2)) =
      Some (overwrite m new (region m old (2 * Suc i)))"
    by (simp add: wr16_def wr_bytes_def l2 del: mult_Suc_right)
  moreover have "copy_boot_options (overwrite m new (region m old (2 * Suc i))) new old (Suc i) n =
      Some (overwrite m new (region m old (2 * (Suc i + n))))"
    using Suc.prems by (intro Suc.IH) auto
  ultimately show ?case using rd by simp
qed

lemma append_boot_option:
  assumes "mapped m new (n + 2)" "even n" "n = 0 \<or> rd_bytes m old n = Some d \<and> disjoint_ranges new (n + 2) old n"
    "n = 0 \<longrightarrow> d = []"
  shows "do { m' \<leftarrow> copy_boot_options m new old 0 (n div 2); wr16 m' (new + 2 * (n div 2)) v } =
    Some (overwrite m new (d @ le_bytes 2 v))"
proof -
  have e: "2 * (n div 2) = n" using assms(2) by simp
  have d: "region m old n = d" "length d = n"
    using assms(3,4) by (auto simp: rd_bytes_def region_def mapped_def split: if_splits)
  have "copy_boot_options (overwrite m new (region m old (2 * 0))) new old 0 (n div 2) =
      Some (overwrite m new (region m old (2 * (0 + n div 2))))"
    using assms by (intro copy_boot_options_eq)
      (auto simp: mapped_def disjoint_ranges_def rd_bytes_def e split: if_splits)
  then have "copy_boot_options m new old 0 (n div 2) = Some (overwrite m new d)"
    using d by (simp add: e region_def)
  moreover have "wr16 (overwrite m new d) (new + n) v = Some (overwrite m new (d @ le_bytes 2 v))"
    using assms(1) d overwrite_append [of new d "le_bytes 2 v" m]
    by (simp add: wr16_def wr_bytes_def mapped_def)
  ultimately show ?thesis by (simp add: e)
qed

text \<open>
  After a successful allocation next to the buffer \<open>p\<close> that holds the old order: what is written
  and freed. \<open>K\<close> is the memory in use before the call.
\<close>

lemma attributes: "(2 OR 4 OR 1 :: u32) = 7"
  by simp

lemma insert_boot_option_tail:
  assumes ok: "firmware_ok L blocks vars" and k: "names_variable blocks s Name Guid k"
    and s1: "same_on (blocks (fw s)) (ram s) (ram s1)" "vars (fw s1) = vars (fw s)"
    and p: "if p = 0 then n = 0 \<and> d = [] \<and> blocks (fw s1) = blocks (fw s) else got_block blocks d s p n s1"
    and n: "even n" "n + 2 < 2 ^ 64"
    and read: "LibGetVariableAndSize L Name Guid s = Some (p, n, s1)" "\<not> (n \<noteq> 0 \<and> only)"
  shows "\<exists>st s'. LibInsertToTailOfBootOrder L Name Guid opt only s = Some (st, s') \<and>
    (case AllocatePool L (n + 2) s1 of (q, s2) \<Rightarrow>
       if q = 0 then st = EFI_OUT_OF_RESOURCES \<and> vars (fw s') = vars (fw s) \<and> blocks (fw s') = blocks (fw s1)
       else st = fst (RT_SetVariable (RT L) Name Guid 7 (n + 2) q
               (with_ram s2 (overwrite (ram s2) q (d @ le_bytes 2 opt)))) \<and>
         vars (fw s') = (if EFI_ERROR st then vars (fw s) else (vars (fw s))(k \<mapsto> d @ le_bytes 2 opt)) \<and>
         blocks (fw s') = blocks (fw s))"
proof -
  obtain t g where tg: "k = (t, g)" by force
  let ?K = "blocks (fw s)"
  have pool: "pool_ok (BS L) blocks" and keeps: "pool_keeps (BS L) vars"
    and vok: "variables_ok (RT L) blocks vars" using ok by (simp_all add: firmware_ok_def)
  have dn: "n = length d" using p by (auto simp: got_block_def split: if_splits)
  have K1: "?K \<subseteq> blocks (fw s1)" using p by (auto simp: got_block_def split: if_splits)
  have v: "uintn (n + 2) = n + 2" "(n + 2) div 2 - 1 = n div 2" "(n + 2) div 2 - Suc 0 = n div 2" using n(2) by simp_all
  obtain q s2 where a: "AllocatePool L (n + 2) s1 = (q, s2)" by force
  have vars2: "vars (fw s2) = vars (fw s)" using pool_keeps_AllocatePool [OF keeps a] s1(2) by simp
  note unfold = LibInsertToTailOfBootOrder_def read(1) Let_def v
  from pool a show ?thesis
  proof (cases rule: AllocatePool_cases)
    case fails
    then show ?thesis using read(2) a vars2 by (auto simp: unfold)
  next
    case block
    have len: "length (ram s2) = length (ram s1)" using block(3) by (rule same_on_length)
    have same2: "same_on ?K (ram s) (ram s2)"
      using s1(1) block(3) K1 by (fastforce simp: same_on_def)
    have dis: "\<forall>(q', k) \<in> ?K. disjoint_ranges q (n + 2) q' k" using block(6) K1 by auto
    have m2: "mapped (ram s2) q (n + 2)" using block(2) len by (simp add: mapped_def)
    have old: "n = 0 \<or> rd_bytes (ram s2) p n = Some d \<and> disjoint_ranges q (n + 2) p n"
    proof (cases "p = 0")
      case False
      with p obtain j where j: "n \<le> j" "mapped (ram s1) p j" "(p, j) \<in> blocks (fw s1)"
        "rd_bytes (ram s1) p n = Some d" by (auto simp: got_block_def)
      then have "in_use (blocks (fw s1)) p n" by (auto simp: in_use_def)
      with block(3) j have "region (ram s2) p n = region (ram s1) p n"
        by (intro same_on_region) (auto simp: mapped_def)
      moreover have "disjoint_ranges q (n + 2) p n"
        using block(6) j(1,3) by (fastforce simp: disjoint_ranges_def)
      ultimately show ?thesis using j(4) len by (simp add: rd_bytes_def mapped_def split: if_splits)
    qed (use p in simp)
    define m3 where "m3 = overwrite (ram s2) q (d @ le_bytes 2 opt)"
    have len3: "length (d @ le_bytes 2 opt) = n + 2" using dn by simp
    have copy: "do { m' \<leftarrow> copy_boot_options (ram s2) q p 0 (n div 2); wr16 m' (q + 2 * (n div 2)) opt } = Some m3"
      unfolding m3_def using m2 n(1) old dn by (intro append_boot_option) auto
    have same3: "same_on ?K (ram s) m3"
      unfolding m3_def by (rule same_on_trans [OF same2 same_on_overwrite [OF m2 [folded len3] _ dis]])
        (simp add: dn)
    have m3: "rd_bytes m3 q (n + 2) = Some (d @ le_bytes 2 opt)"
      using rd_bytes_overwrite_same [OF m2 [folded len3]] unfolding m3_def len3 .
    then have q3: "mapped m3 q (n + 2)" "region m3 q (n + 2) = d @ le_bytes 2 opt"
      by (simp_all add: mem_simps)
    obtain st s4 where set: "RT_SetVariable (RT L) Name Guid 7 (n + 2) q (with_ram s2 m3) = (st, s4)"
      by force
    note nm = names_variable_same_on [OF k [unfolded tg] same3]
    note sv = set_variable [OF vok _ _ _ set, simplified, OF nm(1,2) q3(1)]
    have vars4: "vars (fw s4) = (if EFI_ERROR st then vars (fw s) else (vars (fw s))(k \<mapsto> d @ le_bytes 2 opt))"
      using sv(3) vars2 nm(3) q3(2) tg by simp
    let ?s5 = "FreePool L q s4"
    have in4: "(q, n + 2) \<in> blocks (fw s4)" using sv(2) block(4) by simp
    note f5 = FreePool_block [OF pool in4 dis]
    have b5: "blocks (fw ?s5) = blocks (fw s1)" using f5(2) sv(2) block(4,5) by simp
    let ?s6 = "if p \<noteq> 0 then FreePool L p ?s5 else ?s5"
    have ins: "LibInsertToTailOfBootOrder L Name Guid opt only s = Some (st, ?s6)"
      using read(2) a block(1) copy set by (auto simp: unfold attributes bind_eq_Some_conv)
    have "blocks (fw ?s6) = ?K"
    proof (cases "p = 0")
      case False
      with p obtain j where j: "(p, j) \<notin> ?K" "\<forall>(q, i) \<in> ?K. disjoint_ranges p j q i"
        "blocks (fw s1) = insert (p, j) ?K" by (auto simp: got_block_def)
      then have "(p, j) \<in> blocks (fw ?s5)" using b5 by simp
      from FreePool_block(2) [OF pool this j(2)] show ?thesis using False b5 j by simp
    qed (use p b5 in simp)
    moreover have "vars (fw ?s6) = vars (fw s4)" using keeps by (simp add: pool_keeps_FreePool)
    ultimately show ?thesis using ins vars4 a block(1) set unfolding m3_def by auto
  qed
qed

subsection \<open>Properties\<close>

text \<open>C7. \<open>LibGetVariableAndSize\<close> returns. It asks the pool for 100 bytes and, when the variable is larger, frees
  them and asks once more, for as many as the variable has. Exactly when the variable exists and the pool gives
  what is asked for, the result is a fresh pool block holding exactly the variable's data, with its size;
  otherwise it is NULL and size 0. Nothing else is left allocated, memory in use before the call and the
  variables themselves are unchanged.\<close>

theorem LibGetVariableAndSize_reads:
  assumes "firmware_ok L blocks vars" "names_variable blocks s Name Guid k"
  shows "\<exists>p n s'. LibGetVariableAndSize L Name Guid s = Some (p, n, s') \<and>
    same_on (blocks (fw s)) (ram s) (ram s') \<and> vars (fw s') = vars (fw s) \<and>
    (case vars (fw s) k of
       Some d \<Rightarrow> if pool_gives L 100 (length d) s then p \<noteq> 0 \<and> got_block blocks d s p n s'
         else p = 0 \<and> n = 0 \<and> blocks (fw s') = blocks (fw s)
     | None \<Rightarrow> p = 0 \<and> n = 0 \<and> blocks (fw s') = blocks (fw s))"
proof (cases "vars (fw s) k")
  case None
  from LibGetVariableAndSize_missing [OF assms None] None show ?thesis by auto
next
  case (Some d)
  from LibGetVariableAndSize_found [OF assms Some] Some show ?thesis by simp
qed

text \<open>A state with the name "B" at 1 and a GUID of sevens at 5, both in use.\<close>

definition demo_st :: "(u16 list \<times> u8 list \<times> u8 list) list \<Rightarrow> demo st" where
  "demo_st vs = \<lparr> ram = [0] @ enc16 [66, 0] @ replicate 16 7 @ replicate 200 0,
     fw = \<lparr> demo_blocks = [(1, 20)], demo_vars = map (\<lambda>(t, g, d). ((t, g), d)) vs,
       demo_db = [], demo_tpl = 4, demo_screen = [], demo_keys = [], demo_files = [] \<rparr> \<rparr>"

lemma demo_firmware_ok: "firmware_ok demo_lib blocks_of vars_of"
proof -
  have "pool_keeps demo_boot vars_of"
    by (auto simp: pool_keeps_def demo_boot_def demo_alloc_def demo_free_def vars_of_def Let_def
        split: if_splits)
  then show ?thesis by (simp add: firmware_ok_def demo_lib_def demo_pool_ok demo_variables_ok)
qed

lemma demo_names: "names_variable blocks_of (demo_st vs) 1 5 ([66], replicate 16 7)"
proof -
  have "str16_at ([0] @ enc16 [66, 0] @ replicate 16 7 @ replicate 200 0) 1 [66]" by code_simp
  moreover have "rd_bytes ([0] @ enc16 [66, 0] @ replicate 16 7 @ replicate 200 0) 5 16 = Some (replicate 16 7)"
    by code_simp
  moreover have "(1, 20) \<in> blocks_of (fw (demo_st vs))" by (simp add: blocks_of_def demo_st_def Map.graph_def)
  then have "in_use (blocks_of (fw (demo_st vs))) 1 4" "in_use (blocks_of (fw (demo_st vs))) 5 16"
    unfolding in_use_def by (intro bexI [of _ "(1, 20)"]; simp)+
  ultimately show ?thesis by (simp add: names_variable_def demo_st_def)
qed

text \<open>A variable of two bytes, and one for which the buffer must grow.\<close>

theorem LibGetVariableAndSize_reads_witness:
  "\<exists>p n s' q j s''. LibGetVariableAndSize demo_lib 1 5 (demo_st [([66], replicate 16 7, [3, 0])]) = Some (p, n, s') \<and>
    p \<noteq> 0 \<and> got_block blocks_of [3, 0] (demo_st [([66], replicate 16 7, [3, 0])]) p n s' \<and>
    LibGetVariableAndSize demo_lib 1 5 (demo_st [([66], replicate 16 7, replicate 150 9)]) = Some (q, j, s'') \<and>
    q \<noteq> 0 \<and> got_block blocks_of (replicate 150 9) (demo_st [([66], replicate 16 7, replicate 150 9)]) q j s''"
proof -
  have v: "vars_of (fw (demo_st [([66], replicate 16 7, d)])) ([66], replicate 16 7) = Some d" for d
    by (simp add: vars_of_def demo_st_def)
  have g: "pool_gives demo_lib 100 2 (demo_st [([66], replicate 16 7, d)])"
    "pool_gives demo_lib 100 150 (demo_st [([66], replicate 16 7, d)])" for d
    by (simp_all add: pool_gives_def AllocatePool_def FreePool_def demo_lib_def demo_boot_def demo_alloc_def
        demo_free_def demo_top_def demo_st_def)
  have len: "length [3, 0 :: u8] = 2" "length (replicate 150 (9 :: u8)) = 150" by simp_all
  show ?thesis
    using LibGetVariableAndSize_reads [OF demo_firmware_ok demo_names, of "[([66], replicate 16 7, [3, 0])]"]
      LibGetVariableAndSize_reads [OF demo_firmware_ok demo_names, of "[([66], replicate 16 7, replicate 150 9)]"]
    unfolding v option.case len if_P [OF g(1)] if_P [OF g(2)] by blast
qed

text \<open>C23. \<open>LibInsertToTailOfBootOrder\<close>, after the stored boot order has been read into the block at \<open>p\<close>, asks for
  a block for the longer order. When it gets one, the old order with the option behind it is written to the
  variable, the status is that of the write, and both blocks are freed, whether the write succeeds or not.
  When it gets none, the block at \<open>p\<close> is left allocated: that path does not free it. When options are only to
  be inserted into an empty order, nothing is changed and the block is freed. And the read reports a pool
  failure as a missing variable: when it gave no buffer (\<open>p = 0\<close>), the new order holds the inserted option
  only, whatever was stored.\<close>

theorem LibInsertToTailOfBootOrder_appends:
  assumes "firmware_ok L blocks vars" "names_variable blocks s VarBootOrder EfiGlobalVariable k"
    and "vars (fw s) k = Some d" "even (length d)" "length d + 2 < 2 ^ 64"
    and "LibGetVariableAndSize L VarBootOrder EfiGlobalVariable s = Some (p, n, s1)"
  shows "\<exists>st s'. LibInsertToTailOfBootOrder L VarBootOrder EfiGlobalVariable BootOption OnlyInsertIfEmpty s = Some (st, s') \<and>
    (if n \<noteq> 0 \<and> OnlyInsertIfEmpty
     then st = EFI_UNSUPPORTED \<and> vars (fw s') = vars (fw s) \<and> blocks (fw s') = blocks (fw s)
     else let order = (if p = 0 then [] else d) @ le_bytes 2 BootOption in
       case AllocatePool L (n + 2) s1 of (q, s2) \<Rightarrow>
         if q = 0
         then st = EFI_OUT_OF_RESOURCES \<and> vars (fw s') = vars (fw s) \<and>
           (if p = 0 then blocks (fw s') = blocks (fw s)
            else \<exists>j. (p, j) \<notin> blocks (fw s) \<and> blocks (fw s') = insert (p, j) (blocks (fw s)))
         else st = fst (RT_SetVariable (RT L) VarBootOrder EfiGlobalVariable 7 (n + 2) q
                 (with_ram s2 (overwrite (ram s2) q order))) \<and>
           vars (fw s') = (if EFI_ERROR st then vars (fw s) else (vars (fw s))(k \<mapsto> order)) \<and>
           blocks (fw s') = blocks (fw s))"
proof -
  have r: "same_on (blocks (fw s)) (ram s) (ram s1)" "vars (fw s1) = vars (fw s)"
    "if p = 0 then n = 0 \<and> blocks (fw s1) = blocks (fw s) else got_block blocks d s p n s1"
    using LibGetVariableAndSize_found [OF assms(1-3)] assms(6) by (auto split: if_splits)
  show ?thesis
  proof (cases "n \<noteq> 0 \<and> OnlyInsertIfEmpty")
    case True
    then have p: "p \<noteq> 0" using r(3) by (cases "p = 0") simp_all
    then obtain j where j: "(p, j) \<notin> blocks (fw s)" "\<forall>(q, i) \<in> blocks (fw s). disjoint_ranges p j q i"
      "blocks (fw s1) = insert (p, j) (blocks (fw s))" using r(3) by (auto simp: got_block_def)
    have "blocks (fw (FreePool L p s1)) = blocks (fw s)"
      using FreePool_block(2) [of L blocks p j s1, OF _ _ j(2)] assms(1) j(1,3) by (simp add: firmware_ok_def)
    moreover have "vars (fw (FreePool L p s1)) = vars (fw s)"
      using assms(1) r(2) by (simp add: firmware_ok_def pool_keeps_FreePool)
    ultimately show ?thesis using True p assms(6) by (simp add: LibInsertToTailOfBootOrder_def)
  next
    case False
    have "if p = 0 then n = 0 \<and> (if p = 0 then [] else d) = [] \<and> blocks (fw s1) = blocks (fw s)
        else got_block blocks (if p = 0 then [] else d) s p n s1"
      and "even n" "n + 2 < 2 ^ 64"
      using r(3) assms(4,5) by (auto simp: got_block_def split: if_splits)
    from insert_boot_option_tail [OF assms(1,2) r(1,2) this assms(6) False, of BootOption]
    obtain st s' where t: "LibInsertToTailOfBootOrder L VarBootOrder EfiGlobalVariable BootOption OnlyInsertIfEmpty s = Some (st, s')"
        "case AllocatePool L (n + 2) s1 of (q, s2) \<Rightarrow>
           if q = 0 then st = EFI_OUT_OF_RESOURCES \<and> vars (fw s') = vars (fw s) \<and> blocks (fw s') = blocks (fw s1)
           else st = fst (RT_SetVariable (RT L) VarBootOrder EfiGlobalVariable 7 (n + 2) q
                   (with_ram s2 (overwrite (ram s2) q ((if p = 0 then [] else d) @ le_bytes 2 BootOption)))) \<and>
             vars (fw s') = (if EFI_ERROR st then vars (fw s)
               else (vars (fw s))(k \<mapsto> (if p = 0 then [] else d) @ le_bytes 2 BootOption)) \<and>
             blocks (fw s') = blocks (fw s)"
      by (elim exE conjE) (rule that)
    have b: "if p = 0 then blocks (fw s1) = blocks (fw s)
        else \<exists>j. (p, j) \<notin> blocks (fw s) \<and> blocks (fw s1) = insert (p, j) (blocks (fw s))"
      using r(3) by (auto simp: got_block_def split: if_splits)
    show ?thesis
      by (rule exI [of _ st], rule exI [of _ s'])
        (use t b False in \<open>auto simp: Let_def split: prod.splits if_splits\<close>)
  qed
qed

theorem LibInsertToTailOfBootOrder_appends_witness:
  "\<exists>s'. LibInsertToTailOfBootOrder demo_lib 1 5 9 False (demo_st [([66], replicate 16 7, [3, 0])]) = Some (EFI_SUCCESS, s') \<and>
    vars_of (fw s') ([66], replicate 16 7) = Some [3, 0, 9, 0] \<and>
    blocks_of (fw s') = blocks_of (fw (demo_st [([66], replicate 16 7, [3, 0])]))"
proof -
  let ?s = "demo_st [([66], replicate 16 7, [3, 0])]" and ?k = "([66], replicate 16 7) :: u16 list \<times> u8 list"
  have v: "vars_of (fw ?s) ?k = Some [3, 0]" by (simp add: vars_of_def demo_st_def)
  let ?s1 = "?s\<lparr>fw := (fw ?s)\<lparr>demo_blocks := [(22, 100), (1, 20)]\<rparr>\<rparr>"
  let ?s2 = "?s1\<lparr>ram := overwrite (ram ?s) 22 [3, 0]\<rparr>"
  let ?s3 = "?s2\<lparr>fw := (fw ?s)\<lparr>demo_blocks := [(123, 4), (22, 100), (1, 20)]\<rparr>\<rparr>"
  have "GrowBuffer demo_lib EFI_SUCCESS 0 100 ?s = (True, EFI_BUFFER_TOO_SMALL, 22, ?s1)"
    by code_simp
  moreover have "get_variable_call demo_lib 1 5 100 22 () ?s1 = (EFI_SUCCESS, 2, (), ?s2)"
    by code_simp
  moreover have "GrowBuffer demo_lib EFI_SUCCESS 22 2 ?s2 = (False, EFI_SUCCESS, 22, ?s2)"
    by code_simp
  ultimately have read: "LibGetVariableAndSize demo_lib 1 5 ?s = Some (22, 2, ?s2)"
    by (simp add: LibGetVariableAndSize_def grow_loop.simps)
  have a: "AllocatePool demo_lib (2 + 2) ?s2 = (123, ?s3)" by code_simp
  have w: "fst (RT_SetVariable (RT demo_lib) 1 5 7 (2 + 2) 123 (with_ram ?s3 (overwrite (ram ?s3) 123 ([3, 0] @ le_bytes 2 (9 :: u16))))) =
      EFI_SUCCESS" by code_simp
  have b: "[3, 0] @ le_bytes 2 (9 :: u16) = [3, 0, 9, 0]" by code_simp
  have d: "even (length [3, 0 :: u8])" "length [3, 0 :: u8] + 2 < 2 ^ 64" by simp_all
  from LibInsertToTailOfBootOrder_appends [OF demo_firmware_ok demo_names v d read, of 9 False]
  show ?thesis
    unfolding a by (simp add: Let_def w [unfolded b, simplified] b [simplified] EFI_ERROR_def EFI_SUCCESS_def) auto
qed

end
