(* ===== verification/Mbr.thy ===== *)
theory Mbr
  imports RtMem Firmware
begin

text \<open>
  lib/misc.c: the validation of a master boot record and the search of the configuration table.
  \<open>MASTER_BOOT_RECORD\<close> (inc/efipart.h) has four 16-byte partition records from offset 446 and the
  signature at offset 510; \<open>LastBlock\<close> is \<open>BlkIo->Media->LastBlock\<close>. LBAs are 32-bit words and wrap.
\<close>

subsection \<open>ValidMBR\<close>

record mbr_partition =
  OSIndicator :: u8
  StartingLBA :: u32
  SizeInLBA :: u32

definition mbr_partition :: "mem \<Rightarrow> addr \<Rightarrow> nat \<Rightarrow> mbr_partition option" where
  "mbr_partition m Mbr i = do {
     os \<leftarrow> rd8 m (Mbr + 446 + 16 * i + 4);
     start \<leftarrow> rd32 m (Mbr + 446 + 16 * i + 8);
     n \<leftarrow> rd32 m (Mbr + 446 + 16 * i + 12);
     Some \<lparr> OSIndicator = os, StartingLBA = start, SizeInLBA = n \<rparr> }"

text \<open>The inner loop over the later partitions \<open>js\<close>: FALSE when one of them has an end in the range.\<close>

primrec ValidMBR_overlaps :: "mem \<Rightarrow> addr \<Rightarrow> u32 \<Rightarrow> u32 \<Rightarrow> nat list \<Rightarrow> bool option" where
  "ValidMBR_overlaps m Mbr StartLBA EndingLBA [] = Some True"
| "ValidMBR_overlaps m Mbr StartLBA EndingLBA (j # js) = do {
     P \<leftarrow> mbr_partition m Mbr j;
     if OSIndicator P = 0 \<or> SizeInLBA P = 0 then ValidMBR_overlaps m Mbr StartLBA EndingLBA js
     else if StartLBA \<le> StartingLBA P \<and> StartingLBA P \<le> EndingLBA then Some False
     else
       let NewEndingLBA = StartingLBA P + SizeInLBA P - 1 in
       if StartLBA \<le> NewEndingLBA \<and> NewEndingLBA \<le> EndingLBA then Some False
       else ValidMBR_overlaps m Mbr StartLBA EndingLBA js }"

primrec ValidMBR_loop :: "mem \<Rightarrow> addr \<Rightarrow> u64 \<Rightarrow> nat list \<Rightarrow> bool \<Rightarrow> bool option" where
  "ValidMBR_loop m Mbr LastBlock [] ValidMbr = Some ValidMbr"
| "ValidMBR_loop m Mbr LastBlock (i # is) ValidMbr = do {
     P \<leftarrow> mbr_partition m Mbr i;
     if OSIndicator P = 0 \<or> SizeInLBA P = 0 then ValidMBR_loop m Mbr LastBlock is ValidMbr
     else
       let StartLBA = StartingLBA P;
           EndingLBA = StartLBA + SizeInLBA P - 1
       in if LastBlock < ucast EndingLBA \<and> LastBlock < 0x80000 then Some False
          else if LastBlock < ucast EndingLBA \<and> LastBlock + 0x40000 < ucast EndingLBA then Some False
          else do {
            ok \<leftarrow> ValidMBR_overlaps m Mbr StartLBA EndingLBA is;
            if \<not> ok then Some False else ValidMBR_loop m Mbr LastBlock is True } }"

definition ValidMBR :: "mem \<Rightarrow> addr \<Rightarrow> u64 \<Rightarrow> bool option" where
  "ValidMBR m Mbr LastBlock = do {
     Signature \<leftarrow> rd16 m (Mbr + 510);
     if Signature \<noteq> 0xaa55 then Some False
     else ValidMBR_loop m Mbr LastBlock [0, 1, 2, 3] False }"

subsection \<open>The configuration table\<close>

text \<open>
  \<open>ST->ConfigurationTable\<close> points to \<open>n\<close> entries of a GUID and a pointer, 24 bytes each.
\<close>

function LibGetSystemConfigurationTable_loop ::
  "mem \<Rightarrow> addr \<Rightarrow> nat \<Rightarrow> addr \<Rightarrow> nat \<Rightarrow> (u64 \<times> u64 option) option" where
  "LibGetSystemConfigurationTable_loop m ConfigurationTable NumberOfTableEntries TableGuid Index =
     (if Index < NumberOfTableEntries then do {
        eq \<leftarrow> CompareGuid_1 m TableGuid (ConfigurationTable + 24 * Index);
        if eq then do {
          t \<leftarrow> rd64 m (ConfigurationTable + 24 * Index + 16);
          Some (EFI_SUCCESS, Some t) }
        else LibGetSystemConfigurationTable_loop m ConfigurationTable NumberOfTableEntries TableGuid (Index + 1) }
      else Some (EFI_NOT_FOUND, None))"
  by pat_completeness auto
termination
  by (relation "measure (\<lambda>(m, t, n, g, i). n - i)") auto

definition LibGetSystemConfigurationTable ::
  "mem \<Rightarrow> addr \<Rightarrow> nat \<Rightarrow> addr \<Rightarrow> (u64 \<times> u64 option) option" where
  "LibGetSystemConfigurationTable m ConfigurationTable NumberOfTableEntries TableGuid =
     LibGetSystemConfigurationTable_loop m ConfigurationTable NumberOfTableEntries TableGuid 0"

declare LibGetSystemConfigurationTable_loop.simps [simp del]

subsection \<open>What a valid record is\<close>

text \<open>The partition table as a list, and the code's verdict on it.\<close>

definition used :: "mbr_partition \<Rightarrow> bool" where
  "used P \<longleftrightarrow> OSIndicator P \<noteq> 0 \<and> SizeInLBA P \<noteq> 0"

definition last_lba :: "mbr_partition \<Rightarrow> u32" where
  "last_lba P = StartingLBA P + SizeInLBA P - 1"

definition on_disk :: "u64 \<Rightarrow> mbr_partition \<Rightarrow> bool" where
  "on_disk LastBlock P \<longleftrightarrow>
     ucast (last_lba P) \<le> LastBlock \<or> 0x80000 \<le> LastBlock \<and> ucast (last_lba P) \<le> LastBlock + 0x40000"

definition in_range :: "mbr_partition \<Rightarrow> u32 \<Rightarrow> bool" where
  "in_range P x \<longleftrightarrow> StartingLBA P \<le> x \<and> x \<le> last_lba P"

definition ends_apart :: "mbr_partition \<Rightarrow> mbr_partition \<Rightarrow> bool" where
  "ends_apart P Q \<longleftrightarrow> \<not> in_range P (StartingLBA Q) \<and> \<not> in_range P (last_lba Q)"

definition table_valid :: "u64 \<Rightarrow> mbr_partition list \<Rightarrow> bool" where
  "table_valid LastBlock Ps \<longleftrightarrow>
     list_ex used Ps \<and> (\<forall>P \<in> set Ps. used P \<longrightarrow> on_disk LastBlock P) \<and>
     sorted_wrt (\<lambda>P Q. used P \<and> used Q \<longrightarrow> ends_apart P Q) Ps"

definition partitions_at :: "mem \<Rightarrow> addr \<Rightarrow> mbr_partition list \<Rightarrow> bool" where
  "partitions_at m Mbr Ps \<longleftrightarrow> map (mbr_partition m Mbr) [0, 1, 2, 3] = map Some Ps"

lemma ValidMBR_overlaps_eq:
  "map (mbr_partition m Mbr) js = map Some Qs \<Longrightarrow>
   ValidMBR_overlaps m Mbr (StartingLBA P) (last_lba P) js =
     Some (\<forall>Q \<in> set Qs. used Q \<longrightarrow> ends_apart P Q)"
proof (induction js arbitrary: Qs)
  case Nil
  then show ?case by simp
next
  case (Cons j js)
  then obtain Q Qs' where Q: "Qs = Q # Qs'" "mbr_partition m Mbr j = Some Q"
    "map (mbr_partition m Mbr) js = map Some Qs'" by (cases Qs) auto
  from Cons.IH [OF Q(3)] Q(1,2) show ?case
    by (auto simp: used_def ends_apart_def in_range_def last_lba_def Let_def)
qed

lemma ValidMBR_loop_eq:
  "map (mbr_partition m Mbr) is = map Some Ps \<Longrightarrow>
   ValidMBR_loop m Mbr LastBlock is v = Some ((v \<or> list_ex used Ps) \<and>
     (\<forall>P \<in> set Ps. used P \<longrightarrow> on_disk LastBlock P) \<and>
     sorted_wrt (\<lambda>P Q. used P \<and> used Q \<longrightarrow> ends_apart P Q) Ps)"
proof (induction "is" arbitrary: Ps v)
  case Nil
  then show ?case by simp
next
  case (Cons i is')
  then obtain P Ps' where P: "Ps = P # Ps'" "mbr_partition m Mbr i = Some P"
    "map (mbr_partition m Mbr) is' = map Some Ps'" by (cases Ps) auto
  note IH = Cons.IH [OF P(3)] and ov = ValidMBR_overlaps_eq [OF P(3), of P]
  show ?case
  proof (cases "used P")
    case False
    then show ?thesis using IH P(1,2) by (auto simp: used_def)
  next
    case True
    have disk: "\<not> on_disk LastBlock P \<longleftrightarrow> LastBlock < ucast (last_lba P) \<and> LastBlock < 0x80000 \<or>
        LastBlock < ucast (last_lba P) \<and> LastBlock + 0x40000 < ucast (last_lba P)"
      unfolding on_disk_def by (meson not_le)
    have "ValidMBR_loop m Mbr LastBlock (i # is') v =
        (if \<not> on_disk LastBlock P then Some False
         else if \<not> (\<forall>Q \<in> set Ps'. used Q \<longrightarrow> ends_apart P Q) then Some False
         else ValidMBR_loop m Mbr LastBlock is' True)"
      unfolding disk using True [unfolded used_def] P(2) ov
      by (simp add: last_lba_def [symmetric] Let_def)
    with IH P(1) True show ?thesis by auto
  qed
qed

lemma ValidMBR_eq:
  assumes "rd16 m (Mbr + 510) = Some sig" "partitions_at m Mbr Ps"
  shows "ValidMBR m Mbr LastBlock = Some (sig = 0xaa55 \<and> table_valid LastBlock Ps)"
  using assms ValidMBR_loop_eq [OF assms(2) [unfolded partitions_at_def], of LastBlock False]
  by (auto simp: ValidMBR_def table_valid_def)

subsection \<open>Properties\<close>

lemma ascending_disjoint:
  assumes "sorted_wrt (\<lambda>P Q. used P \<and> used Q \<longrightarrow> StartingLBA P \<le> StartingLBA Q) Ps"
    "\<forall>P \<in> set Ps. used P \<longrightarrow> StartingLBA P \<le> last_lba P"
  shows "sorted_wrt (\<lambda>P Q. used P \<and> used Q \<longrightarrow> ends_apart P Q) Ps \<longleftrightarrow>
    sorted_wrt (\<lambda>P Q. used P \<and> used Q \<longrightarrow> (\<nexists>x. in_range P x \<and> in_range Q x)) Ps"
proof -
  have "ends_apart P Q \<longleftrightarrow> (\<nexists>x. in_range P x \<and> in_range Q x)"
    if "StartingLBA P \<le> StartingLBA Q" "StartingLBA Q \<le> last_lba Q" for P Q
  proof
    assume e: "ends_apart P Q"
    show "\<nexists>x. in_range P x \<and> in_range Q x"
    proof
      assume "\<exists>x. in_range P x \<and> in_range Q x"
      then obtain x where "StartingLBA Q \<le> x" "x \<le> last_lba P" by (auto simp: in_range_def)
      then have "StartingLBA Q \<le> last_lba P" by (rule order_trans)
      with e that show False by (simp add: ends_apart_def in_range_def)
    qed
  next
    assume "\<nexists>x. in_range P x \<and> in_range Q x"
    with that show "ends_apart P Q" unfolding ends_apart_def
      by (meson in_range_def order_refl)
  qed
  note key = this
  show ?thesis using assms
  proof (induction Ps)
    case Nil
    then show ?case by simp
  next
    case (Cons P Ps)
    have "(used P \<and> used Q \<longrightarrow> ends_apart P Q) \<longleftrightarrow>
        (used P \<and> used Q \<longrightarrow> (\<nexists>x. in_range P x \<and> in_range Q x))" if "Q \<in> set Ps" for Q
      using Cons.prems that key by auto
    with Cons show ?case by simp
  qed
qed

text \<open>C32. On a record whose used partitions are in ascending order and do not wrap past the end of
  the 32-bit LBA space, \<open>ValidMBR\<close> accepts exactly when the signature is right, at least one
  partition is used, all used partitions are on the disk, and no block belongs to two of them.\<close>

theorem ValidMBR_ascending:
  assumes "rd16 m (Mbr + 510) = Some sig" "partitions_at m Mbr Ps"
    "sorted_wrt (\<lambda>P Q. used P \<and> used Q \<longrightarrow> StartingLBA P \<le> StartingLBA Q) Ps"
    "\<forall>P \<in> set Ps. used P \<longrightarrow> StartingLBA P \<le> last_lba P"
  shows "ValidMBR m Mbr LastBlock = Some (sig = 0xaa55 \<and> list_ex used Ps \<and>
    (\<forall>P \<in> set Ps. used P \<longrightarrow> on_disk LastBlock P) \<and>
    sorted_wrt (\<lambda>P Q. used P \<and> used Q \<longrightarrow> (\<nexists>x. in_range P x \<and> in_range Q x)) Ps)"
  using ValidMBR_eq [OF assms(1,2)] ascending_disjoint [OF assms(3,4)]
  by (simp add: table_valid_def)

definition mbr_bytes :: "mbr_partition list \<Rightarrow> mem" where
  "mbr_bytes Ps = replicate 447 0 @
     concat (map (\<lambda>P. [0, 0, 0, 0, OSIndicator P, 0, 0, 0] @ le_bytes 4 (StartingLBA P) @ le_bytes 4 (SizeInLBA P)) Ps) @
     [0x55, 0xaa]"

abbreviation part :: "u32 \<Rightarrow> u32 \<Rightarrow> mbr_partition" where
  "part start n \<equiv> \<lparr> OSIndicator = 7, StartingLBA = start, SizeInLBA = n \<rparr>"

theorem ValidMBR_ascending_witness:
  "let Ps = [part 63 100, part 163 50, part 0 0, part 0 0] in
   ValidMBR (mbr_bytes Ps) 1 1000 = Some ((0xaa55 :: u16) = 0xaa55 \<and> list_ex used Ps \<and>
    (\<forall>P \<in> set Ps. used P \<longrightarrow> on_disk 1000 P) \<and>
    sorted_wrt (\<lambda>P Q. used P \<and> used Q \<longrightarrow> (\<nexists>x. in_range P x \<and> in_range Q x)) Ps)"
  unfolding Let_def
proof (rule ValidMBR_ascending)
  let ?Ps = "[part 63 100, part 163 50, part 0 0, part 0 0]"
  show "rd16 (mbr_bytes ?Ps) (1 + 510) = Some 0xaa55" by code_simp
  show "partitions_at (mbr_bytes ?Ps) 1 ?Ps" by code_simp
qed (simp_all add: used_def last_lba_def)

text \<open>The overlap test only asks whether a later partition begins or ends inside an earlier one.
  A later partition that encloses an earlier one passes: a record is accepted although every block
  of its first partition also belongs to the second.\<close>

theorem ValidMBR_accepts_enclosing:
  assumes "rd16 m (Mbr + 510) = Some 0xaa55" "partitions_at m Mbr [P, Q, R, S]"
    "used P" "used Q" "\<not> used R" "\<not> used S" "on_disk LastBlock P" "on_disk LastBlock Q"
    "StartingLBA Q < StartingLBA P" "last_lba P < last_lba Q" "StartingLBA P \<le> last_lba P"
  shows "ValidMBR m Mbr LastBlock = Some True \<and> (\<forall>x. in_range P x \<longrightarrow> in_range Q x)"
  using ValidMBR_eq [OF assms(1,2)] assms
  by (auto simp: table_valid_def ends_apart_def in_range_def)

theorem ValidMBR_accepts_enclosing_witness:
  "ValidMBR (mbr_bytes [part 100 10, part 50 200, part 0 0, part 0 0]) 1 1000 = Some True"
proof -
  let ?Ps = "[part 100 10, part 50 200, part 0 0, part 0 0]"
  have "rd16 (mbr_bytes ?Ps) (1 + 510) = Some 0xaa55" by code_simp
  moreover have "partitions_at (mbr_bytes ?Ps) 1 ?Ps" by code_simp
  ultimately show ?thesis
    using ValidMBR_accepts_enclosing [of "mbr_bytes ?Ps" 1 "part 100 10" "part 50 200" "part 0 0" "part 0 0" 1000]
    by (simp add: used_def last_lba_def on_disk_def)
qed

subsection \<open>The configuration table search\<close>

lemma LibGetSystemConfigurationTable_loop_eq:
  assumes "mapped m TableGuid 16" "mapped m T (24 * n)" "i \<le> n"
  shows "LibGetSystemConfigurationTable_loop m T n TableGuid i =
    (case find (\<lambda>j. region m (T + 24 * j) 16 = region m TableGuid 16) [i..<n] of
       None \<Rightarrow> Some (EFI_NOT_FOUND, None)
     | Some j \<Rightarrow> Some (EFI_SUCCESS, rd64 m (T + 24 * j + 16)))"
  using assms(3)
proof (induction "n - i" arbitrary: i)
  case 0
  then show ?case by (simp add: LibGetSystemConfigurationTable_loop.simps)
next
  case (Suc k)
  then have i: "i < n" "[i..<n] = i # [Suc i..<n]" by (auto simp: upt_conv_Cons)
  have m: "mapped m (T + 24 * i) 16" "mapped m (T + 24 * i + 16) 8"
    using assms(2) i(1) by (auto simp: mapped_def)
  have "CompareGuid_1 m TableGuid (T + 24 * i) = Some (region m (T + 24 * i) 16 = region m TableGuid 16)"
    using m(1) assms(1) by (auto simp: CompareGuid_1_def RtCompareGuid_eq)
  moreover have "\<exists>v. rd64 m (T + 24 * i + 16) = Some v"
    using m(2) by (simp add: rd64_def rd_bytes_def)
  ultimately show ?case
    using i Suc.hyps(1) [of "Suc i"] Suc.hyps(2)
    by (subst LibGetSystemConfigurationTable_loop.simps) (auto split: option.splits)
qed

text \<open>\<open>LibGetSystemConfigurationTable\<close> gives the pointer of the first entry whose GUID equals the
  one asked for, and \<open>EFI_NOT_FOUND\<close> exactly when no entry has it.\<close>

theorem LibGetSystemConfigurationTable_first:
  assumes "mapped m TableGuid 16" "mapped m T (24 * n)"
  shows "LibGetSystemConfigurationTable m T n TableGuid =
    (case find (\<lambda>j. region m (T + 24 * j) 16 = region m TableGuid 16) [0..<n] of
       None \<Rightarrow> Some (EFI_NOT_FOUND, None)
     | Some j \<Rightarrow> Some (EFI_SUCCESS, rd64 m (T + 24 * j + 16)))"
  unfolding LibGetSystemConfigurationTable_def
  using assms by (intro LibGetSystemConfigurationTable_loop_eq) auto

theorem LibGetSystemConfigurationTable_first_witness:
  "LibGetSystemConfigurationTable ([0] @ replicate 16 9 @ replicate 24 1 @ replicate 16 9 @ [5, 0, 0, 0, 0, 0, 0, 0]) 17 2 1 =
   (case find (\<lambda>j. region ([0] @ replicate 16 9 @ replicate 24 1 @ replicate 16 9 @ [5, 0, 0, 0, 0, 0, 0, 0]) (17 + 24 * j) 16 =
       region ([0] @ replicate 16 9 @ replicate 24 1 @ replicate 16 9 @ [5, 0, 0, 0, 0, 0, 0, 0]) 1 16) [0..<2] of
       None \<Rightarrow> Some (EFI_NOT_FOUND, None)
     | Some j \<Rightarrow> Some (EFI_SUCCESS, rd64 ([0] @ replicate 16 9 @ replicate 24 1 @ replicate 16 9 @ [5, 0, 0, 0, 0, 0, 0, 0]) (17 + 24 * j + 16)))"
  by (rule LibGetSystemConfigurationTable_first) (simp_all add: mapped_def)

end
