(* ===== verification/DevPath.thy ===== *)
theory DevPath
  imports Pool RtStr
begin

text \<open>
  lib/dpath.c, first part: the structure of device paths. A device path is a sequence of nodes in
  memory, each with a 4-byte header (type, subtype, 16-bit length of the whole node); a node of type
  0x7f ends an instance (subtype 1) or the whole path (subtype 0xff). The header macros are those
  of inc/efidevp.h; bit 7 of the type marks an unpacked node.

  Loops over nodes follow lengths stored in memory, so on a malformed path they may never return:
  they are \<open>partial_function (option)\<close> and \<open>None\<close> also means that. \<open>enc_path\<close> is the encoding of a
  list of instances, the abstraction the operations are specified with.
\<close>

subsection \<open>Node headers (inc/efidevp.h)\<close>

definition DevicePathType :: "mem \<Rightarrow> addr \<Rightarrow> u8 option" where
  "DevicePathType m a = map_option (\<lambda>t. t AND 0x7F) (rd8 m a)"

definition DevicePathSubType :: "mem \<Rightarrow> addr \<Rightarrow> u8 option" where
  "DevicePathSubType m a = rd8 m (a + 1)"

definition DevicePathNodeLength :: "mem \<Rightarrow> addr \<Rightarrow> nat option" where
  "DevicePathNodeLength m a = do {
     l0 \<leftarrow> rd8 m (a + 2);
     l1 \<leftarrow> rd8 m (a + 3);
     Some (unat (ucast l0 OR push_bit 8 (ucast l1) :: u32)) }"

definition NextDevicePathNode :: "mem \<Rightarrow> addr \<Rightarrow> addr option" where
  "NextDevicePathNode m a = map_option (\<lambda>l. a + l) (DevicePathNodeLength m a)"

definition IsDevicePathEndType :: "mem \<Rightarrow> addr \<Rightarrow> bool option" where
  "IsDevicePathEndType m a = map_option (\<lambda>t. t = 0x7f) (DevicePathType m a)"

definition IsDevicePathEnd :: "mem \<Rightarrow> addr \<Rightarrow> bool option" where
  "IsDevicePathEnd m a = do {
     e \<leftarrow> IsDevicePathEndType m a;
     if e then map_option (\<lambda>st. st = 0xff) (DevicePathSubType m a) else Some False }"

definition SetDevicePathNodeLength :: "mem \<Rightarrow> addr \<Rightarrow> nat \<Rightarrow> mem option" where
  "SetDevicePathNodeLength m a l = do {
     m \<leftarrow> wr8 m (a + 2) (word_of_nat l);
     wr8 m (a + 3) (word_of_nat (l div 256)) }"

definition SetDevicePathEndNode :: "mem \<Rightarrow> addr \<Rightarrow> mem option" where
  "SetDevicePathEndNode m a = do {
     m \<leftarrow> wr8 m a 0x7f;
     m \<leftarrow> wr8 m (a + 1) 0xff;
     m \<leftarrow> wr8 m (a + 2) 4;
     wr8 m (a + 3) 0 }"

text \<open>lib/data.c.\<close>

definition EndDevicePath :: "u8 list" where "EndDevicePath = [0x7f, 0xff, 4, 0]"
definition EndInstanceDevicePath :: "u8 list" where "EndInstanceDevicePath = [0x7f, 1, 4, 0]"

subsection \<open>Walking\<close>

partial_function (option) DevicePathSize_loop :: "mem \<Rightarrow> addr \<Rightarrow> addr option" where
  "DevicePathSize_loop m DevPath = do {
     e \<leftarrow> IsDevicePathEnd m DevPath;
     if e then Some DevPath
     else do { n \<leftarrow> NextDevicePathNode m DevPath; DevicePathSize_loop m n } }"

definition DevicePathSize :: "mem \<Rightarrow> addr \<Rightarrow> nat option" where
  "DevicePathSize m DevPath = do {
     e \<leftarrow> DevicePathSize_loop m DevPath;
     Some (e - DevPath + 4) }"

text \<open>
  The walk of \<open>DevicePathInstance\<close> to the end of the instance: the end node with the address
  behind it. It gives up after 01000 (octal) nodes, where it also dumps the path to the console.
\<close>

function DevicePathInstance_loop :: "mem \<Rightarrow> addr \<Rightarrow> nat \<Rightarrow> (addr \<times> addr) option" where
  "DevicePathInstance_loop m DevPath Count = do {
     n \<leftarrow> NextDevicePathNode m DevPath;
     e \<leftarrow> IsDevicePathEndType m DevPath;
     if e then Some (DevPath, n)
     else if 512 < Count then Some (DevPath, n)
     else DevicePathInstance_loop m n (Count + 1) }"
  by pat_completeness auto
termination
  by (relation "measure (\<lambda>(m, p, c). 514 - c)") auto

declare DevicePathInstance_loop.simps [simp del]

text \<open>The result is the instance's start with the new \<open>*DevicePath\<close> and \<open>*Size\<close>; \<open>None\<close> for NULL.\<close>

definition DevicePathInstance :: "mem \<Rightarrow> addr \<Rightarrow> (addr \<times> nat) option option" where
  "DevicePathInstance m DevicePath =
     (if DevicePath = 0 then Some None
      else do {
        (DevPath, Next) \<leftarrow> DevicePathInstance_loop m DevicePath 0;
        st \<leftarrow> DevicePathSubType m DevPath;
        Some (Some (if st = 0xff then 0 else Next, DevPath - DevicePath)) })"

partial_function (option) DevicePathInstanceCount_loop :: "mem \<Rightarrow> addr \<Rightarrow> nat \<Rightarrow> nat option" where
  "DevicePathInstanceCount_loop m DevicePath Count = do {
     r \<leftarrow> DevicePathInstance m DevicePath;
     (case r of None \<Rightarrow> Some Count
      | Some (DevicePath, Size) \<Rightarrow> DevicePathInstanceCount_loop m DevicePath (Count + 1)) }"

definition DevicePathInstanceCount :: "mem \<Rightarrow> addr \<Rightarrow> nat option" where
  "DevicePathInstanceCount m DevicePath = DevicePathInstanceCount_loop m DevicePath 0"

partial_function (option) LibMatchDevicePaths_loop :: "mem \<Rightarrow> addr \<Rightarrow> addr \<Rightarrow> bool option" where
  "LibMatchDevicePaths_loop m DevicePath Single = do {
     r \<leftarrow> DevicePathInstance m DevicePath;
     (case r of None \<Rightarrow> Some False
      | Some (Next, Size) \<Rightarrow> do {
          c \<leftarrow> CompareMem m Single DevicePath Size;
          if c = 0 then Some True else LibMatchDevicePaths_loop m Next Single }) }"

definition LibMatchDevicePaths :: "mem \<Rightarrow> addr \<Rightarrow> addr \<Rightarrow> bool option" where
  "LibMatchDevicePaths m Multi Single =
     (if Multi = 0 \<or> Single = 0 then Some False else LibMatchDevicePaths_loop m Multi Single)"

subsection \<open>Building\<close>

definition DuplicateDevicePath :: "'w lib \<Rightarrow> addr \<Rightarrow> 'w st \<Rightarrow> (addr \<times> 'w st) option" where
  "DuplicateDevicePath L DevPath s = do {
     Size \<leftarrow> DevicePathSize (ram s) DevPath;
     (case AllocatePool L Size s of
        (NewDevPath, s) \<Rightarrow>
          if NewDevPath \<noteq> 0
          then do { m \<leftarrow> CopyMem_1 (ram s) NewDevPath DevPath Size; Some (NewDevPath, with_ram s m) }
          else Some (NewDevPath, s)) }"

text \<open>The loop that copies the instances of \<open>Src1\<close>, each followed by \<open>Src2\<close>; it gives \<open>DstPos\<close>.\<close>

partial_function (option) AppendDevicePath_loop ::
  "mem \<Rightarrow> addr \<Rightarrow> addr \<Rightarrow> nat \<Rightarrow> addr \<Rightarrow> (mem \<times> addr) option" where
  "AppendDevicePath_loop m Src1 Src2 Src2Size DstPos = do {
     r \<leftarrow> DevicePathInstance m Src1;
     (case r of None \<Rightarrow> Some (m, DstPos)
      | Some (Next, Size) \<Rightarrow> do {
          m \<leftarrow> CopyMem_1 m DstPos Src1 Size;
          m \<leftarrow> CopyMem_1 m (DstPos + Size) Src2 Src2Size;
          m \<leftarrow> wr_bytes m (DstPos + Size + Src2Size) EndInstanceDevicePath;
          AppendDevicePath_loop m Next Src2 Src2Size (DstPos + Size + Src2Size + 4) }) }"

definition AppendDevicePath :: "'w lib \<Rightarrow> addr \<Rightarrow> addr \<Rightarrow> 'w st \<Rightarrow> (addr \<times> 'w st) option" where
  "AppendDevicePath L Src1 Src2 s =
     (if Src1 = 0 then DuplicateDevicePath L Src2 s
      else if Src2 = 0 then DuplicateDevicePath L Src1 s
      else do {
        Src1Size \<leftarrow> DevicePathSize (ram s) Src1;
        Src1Inst \<leftarrow> DevicePathInstanceCount (ram s) Src1;
        Src2Size \<leftarrow> DevicePathSize (ram s) Src2;
        (case AllocatePool L (Src1Size * Src1Inst + Src2Size) s of
           (Dst, s) \<Rightarrow>
             if Dst \<noteq> 0 then do {
               (m, DstPos) \<leftarrow> AppendDevicePath_loop (ram s) Src1 Src2 Src2Size Dst;
               m \<leftarrow> wr_bytes m (DstPos - 4) EndDevicePath;
               Some (Dst, with_ram s m) }
             else Some (Dst, s)) })"

definition AppendDevicePathNode :: "'w lib \<Rightarrow> addr \<Rightarrow> addr \<Rightarrow> 'w st \<Rightarrow> (addr \<times> 'w st) option" where
  "AppendDevicePathNode L Src1 Src2 s = do {
     Length \<leftarrow> DevicePathNodeLength (ram s) Src2;
     (case AllocatePool L (Length + 4) s of
        (Temp, s) \<Rightarrow>
          if Temp = 0 then Some (0, s)
          else do {
            m \<leftarrow> CopyMem_1 (ram s) Temp Src2 Length;
            Eop \<leftarrow> NextDevicePathNode m Temp;
            m \<leftarrow> SetDevicePathEndNode m Eop;
            (p, s) \<leftarrow> AppendDevicePath L Src1 Temp (with_ram s m);
            Some (p, FreePool L Temp s) }) }"

text \<open>\<open>DevicePathProtocol\<close> is the address of the protocol's GUID.\<close>

definition DevicePathFromHandle :: "'w lib \<Rightarrow> addr \<Rightarrow> addr \<Rightarrow> 'w st \<Rightarrow> (addr \<times> 'w st) option" where
  "DevicePathFromHandle L DevicePathProtocol Handle s =
     (case BS_HandleProtocol (BS L) Handle DevicePathProtocol s of
        (Status, DevicePath, s) \<Rightarrow>
          if EFI_ERROR Status then Some (0, s) else map_option (\<lambda>p. (p, s)) DevicePath)"

definition FileDevicePath :: "'w lib \<Rightarrow> addr \<Rightarrow> addr \<Rightarrow> addr \<Rightarrow> 'w st \<Rightarrow> (addr \<times> 'w st) option" where
  "FileDevicePath L DevicePathProtocol Device FileName s = do {
     Size \<leftarrow> StrSize (ram s) FileName;
     (FilePath, s) \<leftarrow> AllocateZeroPool L (Size + 4 + 4) s;
     if FilePath = 0 then Some (0, s)
     else do {
       m \<leftarrow> wr8 (ram s) FilePath 4;
       m \<leftarrow> wr8 m (FilePath + 1) 4;
       m \<leftarrow> SetDevicePathNodeLength m FilePath (Size + 4);
       m \<leftarrow> CopyMem_1 m (FilePath + 4) FileName Size;
       Eop \<leftarrow> NextDevicePathNode m FilePath;
       m \<leftarrow> SetDevicePathEndNode m Eop;
       if Device \<noteq> 0 then do {
         (d, s) \<leftarrow> DevicePathFromHandle L DevicePathProtocol Device (with_ram s m);
         (p, s) \<leftarrow> AppendDevicePath L d FilePath s;
         Some (p, FreePool L FilePath s) }
       else Some (FilePath, with_ram s m) } }"

definition AppendDevicePathInstance :: "'w lib \<Rightarrow> addr \<Rightarrow> addr \<Rightarrow> 'w st \<Rightarrow> (addr \<times> 'w st) option" where
  "AppendDevicePathInstance L Src Instance s =
     (if Src = 0 then DuplicateDevicePath L Instance s
      else do {
        SrcSize \<leftarrow> DevicePathSize (ram s) Src;
        InstanceSize \<leftarrow> DevicePathSize (ram s) Instance;
        (case AllocatePool L (SrcSize + InstanceSize) s of
           (Ptr, s) \<Rightarrow> do {
             m \<leftarrow> CopyMem_1 (ram s) Ptr Src SrcSize;
             DevPath \<leftarrow> DevicePathSize_loop m Ptr;
             m \<leftarrow> wr8 m (DevPath + 1) 1;
             DevPath \<leftarrow> NextDevicePathNode m DevPath;
             m \<leftarrow> CopyMem_1 m DevPath Instance InstanceSize;
             Some (Ptr, with_ram s m) }) })"

definition LibDuplicateDevicePathInstance :: "'w lib \<Rightarrow> addr \<Rightarrow> 'w st \<Rightarrow> (addr \<times> 'w st) option" where
  "LibDuplicateDevicePathInstance L DevPath s = do {
     r \<leftarrow> DevicePathInstance (ram s) DevPath;
     (case r of
        None \<Rightarrow> Some (0, s)
      | Some (Temp, Size) \<Rightarrow>
          if Size = 0 then Some (0, s)
          else (case AllocatePool L (Size + 4) s of
            (NewDevPath, s) \<Rightarrow>
              if NewDevPath = 0 then Some (0, s)
              else do {
                m \<leftarrow> CopyMem_1 (ram s) NewDevPath DevPath Size;
                Temp \<leftarrow> NextDevicePathNode m NewDevPath;
                m \<leftarrow> SetDevicePathEndNode m Temp;
                Some (NewDevPath, with_ram s m) })) }"

subsection \<open>Unpacking\<close>

text \<open>\<open>MIN_ALIGNMENT_SIZE\<close> is 4 on x86_64.\<close>

definition ALIGN_SIZE :: "nat \<Rightarrow> nat" where
  "ALIGN_SIZE a = (if a mod 4 \<noteq> 0 then 4 - a mod 4 else 0)"

partial_function (option) UnpackDevicePath_size :: "mem \<Rightarrow> addr \<Rightarrow> nat \<Rightarrow> nat option" where
  "UnpackDevicePath_size m Src Size = do {
     l \<leftarrow> DevicePathNodeLength m Src;
     let Size = Size + l;
     let Size = Size + ALIGN_SIZE Size;
     e \<leftarrow> IsDevicePathEnd m Src;
     if e then Some Size
     else do { n \<leftarrow> NextDevicePathNode m Src; UnpackDevicePath_size m n Size } }"

partial_function (option) UnpackDevicePath_copy :: "mem \<Rightarrow> addr \<Rightarrow> addr \<Rightarrow> mem option" where
  "UnpackDevicePath_copy m Src Dest = do {
     Size \<leftarrow> DevicePathNodeLength m Src;
     m \<leftarrow> CopyMem_1 m Dest Src Size;
     let Size = Size + ALIGN_SIZE Size;
     m \<leftarrow> SetDevicePathNodeLength m Dest Size;
     t \<leftarrow> rd8 m Dest;
     m \<leftarrow> wr8 m Dest (t OR 0x80);
     e \<leftarrow> IsDevicePathEnd m Src;
     if e then Some m
     else do { n \<leftarrow> NextDevicePathNode m Src; UnpackDevicePath_copy m n (Dest + Size) } }"

definition UnpackDevicePath :: "'w lib \<Rightarrow> addr \<Rightarrow> 'w st \<Rightarrow> (addr \<times> 'w st) option" where
  "UnpackDevicePath L DevPath s = do {
     Size \<leftarrow> UnpackDevicePath_size (ram s) DevPath 0;
     (NewPath, s) \<leftarrow> AllocateZeroPool L Size s;
     if NewPath \<noteq> 0 then do {
       m \<leftarrow> UnpackDevicePath_copy (ram s) DevPath NewPath;
       Some (NewPath, with_ram s m) }
     else Some (NewPath, s) }"

subsection \<open>Encoded paths\<close>

text \<open>A node is its type, subtype and data; a path is a non-empty list of instances.\<close>

type_synonym dp_node = "u8 \<times> u8 \<times> u8 list"

definition node_ok :: "dp_node \<Rightarrow> bool" where
  "node_ok nd \<longleftrightarrow> (case nd of (t, st, d) \<Rightarrow> t AND 0x7f \<noteq> 0x7f \<and> 4 + length d < 65536)"

definition enc_node :: "dp_node \<Rightarrow> u8 list" where
  "enc_node nd = (case nd of (t, st, d) \<Rightarrow> [t, st] @ le_bytes 2 (word_of_nat (4 + length d) :: u16) @ d)"

definition enc_nodes :: "dp_node list \<Rightarrow> u8 list" where
  "enc_nodes ns = concat (map enc_node ns)"

fun enc_path :: "dp_node list list \<Rightarrow> u8 list" where
  "enc_path [] = []"
| "enc_path [i] = enc_nodes i @ EndDevicePath"
| "enc_path (i # j # is) = enc_nodes i @ EndInstanceDevicePath @ enc_path (j # is)"

definition instance_ok :: "dp_node list \<Rightarrow> bool" where
  "instance_ok i \<longleftrightarrow> list_all node_ok i \<and> length i \<le> 513"

definition path_ok :: "dp_node list list \<Rightarrow> bool" where
  "path_ok is \<longleftrightarrow> is \<noteq> [] \<and> list_all instance_ok is"

lemma enc_nodes_simps [simp]:
  "enc_nodes [] = []" "enc_nodes (n # ns) = enc_node n @ enc_nodes ns"
  "enc_nodes (ns @ ms) = enc_nodes ns @ enc_nodes ms"
  by (simp_all add: enc_nodes_def)

lemma length_End [simp]: "length EndDevicePath = 4" "length EndInstanceDevicePath = 4"
  by (simp_all add: EndDevicePath_def EndInstanceDevicePath_def)

lemma enc_path_append_nodes:
  "enc_path ((i @ j) # js) = enc_nodes i @ enc_path (j # js)"
  by (cases js) simp_all

lemma enc_path_Cons:
  "enc_path (i # is) = enc_nodes i @ (if is = [] then EndDevicePath else EndInstanceDevicePath) @ enc_path is"
  by (cases "is") simp_all

lemma length_enc_path_pos: "is \<noteq> [] \<Longrightarrow> 4 \<le> length (enc_path is)"
  by (cases "is") (simp_all add: enc_path_Cons)

subsection \<open>Reading headers\<close>

lemma header_length:
  fixes w :: u16
  shows "unat (ucast (ucast w :: u8) OR push_bit 8 (ucast (ucast (drop_bit 8 w) :: u8)) :: u32) = unat w"
proof -
  have "(ucast (ucast w :: u8) OR push_bit 8 (ucast (ucast (drop_bit 8 w) :: u8)) :: u32) = ucast w"
    by (rule bit_word_eqI) (auto simp: bit_simps dest: bit_imp_le_length)
  then show ?thesis by (simp add: unat_ucast_widen)
qed

lemma bytes_at_header:
  assumes "bytes_at m p ([t, st] @ le_bytes 2 (w :: u16) @ bs)"
  shows "DevicePathType m p = Some (t AND 0x7f)" "DevicePathSubType m p = Some st"
    "DevicePathNodeLength m p = Some (unat w)" "rd8 m p = Some t"
proof -
  have "rd8 m p = Some t" "rd8 m (p + 1) = Some st" "rd8 m (p + 2) = Some (ucast w)"
    "rd8 m (p + 3) = Some (ucast (drop_bit 8 w))"
    using assms by (simp_all add: bytes_at_Cons numeral_2_eq_2 numeral_3_eq_3 le_bytes.simps)
  then show "DevicePathType m p = Some (t AND 0x7f)" "DevicePathSubType m p = Some st"
    "DevicePathNodeLength m p = Some (unat w)" "rd8 m p = Some t"
    by (simp_all add: DevicePathType_def DevicePathSubType_def DevicePathNodeLength_def header_length)
qed

lemma node_header:
  assumes "bytes_at m p (enc_node nd @ bs)" "node_ok nd"
  shows "IsDevicePathEndType m p = Some False" "IsDevicePathEnd m p = Some False"
    "DevicePathNodeLength m p = Some (length (enc_node nd))"
    "NextDevicePathNode m p = Some (p + length (enc_node nd))"
    "bytes_at m (p + length (enc_node nd)) bs" "rd8 m p = Some (fst nd)"
proof -
  obtain t st d where nd: "nd = (t, st, d)" by (cases nd)
  have w: "unat (word_of_nat (4 + length d) :: u16) = 4 + length d"
    using assms(2) by (intro unat_word_of_nat) (simp add: nd node_ok_def)
  have b: "bytes_at m p ([t, st] @ le_bytes 2 (word_of_nat (4 + length d) :: u16) @ d @ bs)"
    using assms(1) by (simp add: enc_node_def nd)
  note h = bytes_at_header [OF this]
  have l: "length (enc_node nd) = 4 + length d" by (simp add: enc_node_def nd)
  show "IsDevicePathEndType m p = Some False" "IsDevicePathEnd m p = Some False"
    using assms(2) h(1) by (simp_all add: IsDevicePathEndType_def IsDevicePathEnd_def node_ok_def nd)
  show "DevicePathNodeLength m p = Some (length (enc_node nd))"
    "NextDevicePathNode m p = Some (p + length (enc_node nd))"
    using h(3) unfolding NextDevicePathNode_def l w by simp_all
  show "bytes_at m (p + length (enc_node nd)) bs" using assms(1) by (simp add: bytes_at_append)
  show "rd8 m p = Some (fst nd)" using h(4) by (simp add: nd)
qed

lemma end_header:
  assumes "bytes_at m p ((if last_one then EndDevicePath else EndInstanceDevicePath) @ bs)"
  shows "IsDevicePathEndType m p = Some True" "IsDevicePathEnd m p = Some last_one"
    "DevicePathSubType m p = Some (if last_one then 0xff else 1)"
    "NextDevicePathNode m p = Some (p + 4)" "bytes_at m (p + 4) bs"
    "DevicePathNodeLength m p = Some 4" "rd8 m p = Some 0x7f"
proof -
  have "le_bytes 2 (4 :: u16) = [4, 0]" by code_simp
  then have e: "(if last_one then EndDevicePath else EndInstanceDevicePath) =
      [0x7f, if last_one then 0xff else 1] @ le_bytes 2 (4 :: u16)"
    by (simp add: EndDevicePath_def EndInstanceDevicePath_def)
  have "bytes_at m p ([0x7f, if last_one then 0xff else 1] @ le_bytes 2 (4 :: u16) @ bs)"
    using assms by (simp only: e append_assoc)
  note h = bytes_at_header [OF this]
  show "IsDevicePathEndType m p = Some True" "IsDevicePathEnd m p = Some last_one"
    "DevicePathSubType m p = Some (if last_one then 0xff else 1)"
    "NextDevicePathNode m p = Some (p + 4)" "DevicePathNodeLength m p = Some 4" "rd8 m p = Some 0x7f"
    using h by (simp_all add: IsDevicePathEndType_def IsDevicePathEnd_def NextDevicePathNode_def)
  have "length (if last_one then EndDevicePath else EndInstanceDevicePath) = 4" by simp
  then show "bytes_at m (p + 4) bs" using assms unfolding bytes_at_append by metis
qed

subsection \<open>Walks\<close>

lemma DevicePathSize_loop_nodes:
  "bytes_at m p (enc_nodes ns @ bs) \<Longrightarrow> list_all node_ok ns \<Longrightarrow>
   DevicePathSize_loop m p = DevicePathSize_loop m (p + length (enc_nodes ns))"
proof (induction ns arbitrary: p)
  case Nil
  then show ?case by simp
next
  case (Cons nd ns)
  then have b: "bytes_at m p (enc_node nd @ enc_nodes ns @ bs)" "node_ok nd" by simp_all
  note h = node_header [OF b]
  from Cons.IH [OF h(5)] Cons.prems(2) show ?case
    by (subst DevicePathSize_loop.simps) (simp add: h(2,4) add.assoc)
qed

lemma DevicePathSize_loop_eq:
  "bytes_at m p (enc_path is @ bs) \<Longrightarrow> is \<noteq> [] \<Longrightarrow> list_all (list_all node_ok) is \<Longrightarrow>
   DevicePathSize_loop m p = Some (p + length (enc_path is) - 4)"
proof (induction "is" arbitrary: p)
  case Nil
  then show ?case by simp
next
  case (Cons i js)
  have b: "bytes_at m p (enc_nodes i @ (if js = [] then EndDevicePath else EndInstanceDevicePath) @ enc_path js @ bs)"
    using Cons.prems(1) by (simp add: enc_path_Cons)
  then have e: "bytes_at m (p + length (enc_nodes i))
      ((if js = [] then EndDevicePath else EndInstanceDevicePath) @ enc_path js @ bs)"
    unfolding bytes_at_append by simp
  note h = end_header [OF e]
  have "DevicePathSize_loop m p = DevicePathSize_loop m (p + length (enc_nodes i))"
    using b Cons.prems(3) by (intro DevicePathSize_loop_nodes) simp_all
  also have "\<dots> = Some (p + length (enc_path (i # js)) - 4)"
  proof (cases "js = []")
    case True
    then show ?thesis using h(2) by (subst DevicePathSize_loop.simps) simp
  next
    case False
    with Cons.IH [OF h(5)] Cons.prems(3) length_enc_path_pos [of js] show ?thesis
      by (subst DevicePathSize_loop.simps) (simp add: h(2,4) enc_path_Cons)
  qed
  finally show ?case .
qed

lemma path_ok_nodes: "path_ok is \<Longrightarrow> list_all (list_all node_ok) is"
  by (auto simp: path_ok_def instance_ok_def list_all_iff)

lemma DevicePathSize_eq:
  assumes "bytes_at m p (enc_path is @ bs)" "path_ok is"
  shows "DevicePathSize m p = Some (length (enc_path is))"
  using DevicePathSize_loop_eq [OF assms(1)] assms(2) length_enc_path_pos [of "is"] path_ok_nodes [OF assms(2)]
  by (simp add: DevicePathSize_def path_ok_def)

lemma DevicePathInstance_loop_eq:
  assumes "bytes_at m p (enc_nodes ns @ (if last_one then EndDevicePath else EndInstanceDevicePath) @ bs)"
    "list_all node_ok ns" "c + length ns \<le> 513"
  shows "DevicePathInstance_loop m p c = Some (p + length (enc_nodes ns), p + length (enc_nodes ns) + 4)"
  using assms
proof (induction ns arbitrary: p c)
  case Nil
  then show ?case using end_header [of m p last_one bs]
    by (simp add: DevicePathInstance_loop.simps [of m p])
next
  case (Cons nd ns)
  then have b: "bytes_at m p (enc_node nd @ enc_nodes ns @ (if last_one then EndDevicePath else EndInstanceDevicePath) @ bs)"
    "node_ok nd" by simp_all
  note h = node_header [OF b]
  from Cons.IH [OF h(5), of "c + 1"] Cons.prems(2,3) show ?case
    by (simp add: DevicePathInstance_loop.simps [of m p] h(1,4) add.assoc)
qed

lemma DevicePathInstance_eq:
  assumes "bytes_at m p (enc_path (i # is) @ bs)" "instance_ok i"
  shows "DevicePathInstance m p =
    Some (Some (if is = [] then 0 else p + length (enc_nodes i) + 4, length (enc_nodes i)))"
proof -
  have b: "bytes_at m p (enc_nodes i @ (if is = [] then EndDevicePath else EndInstanceDevicePath) @ enc_path is @ bs)"
    using assms(1) by (simp add: enc_path_Cons)
  then have e: "bytes_at m (p + length (enc_nodes i))
      ((if is = [] then EndDevicePath else EndInstanceDevicePath) @ enc_path is @ bs)"
    unfolding bytes_at_append by simp
  have "0 < p" using bytes_at_mapped [OF b] by (simp add: mapped_def)
  then show ?thesis
    using DevicePathInstance_loop_eq [OF b] end_header(3) [OF e] assms(2)
    by (simp add: DevicePathInstance_def instance_ok_def)
qed

lemma DevicePathInstance_rest:
  assumes "bytes_at m p (enc_path (i # is) @ bs)" "is \<noteq> []"
  shows "bytes_at m (p + length (enc_nodes i) + 4) (enc_path is @ bs)"
  using assms by (simp add: enc_path_Cons bytes_at_append add.assoc)

lemma DevicePathInstanceCount_loop_eq:
  "bytes_at m p (enc_path is @ bs) \<Longrightarrow> path_ok is \<Longrightarrow>
   DevicePathInstanceCount_loop m p c = Some (c + length is)"
proof (induction "is" arbitrary: p c)
  case Nil
  then show ?case by (simp add: path_ok_def)
next
  case (Cons i js)
  note h = DevicePathInstance_eq [OF Cons.prems(1)]
  show ?case
  proof (cases "js = []")
    case True
    with h Cons.prems(2) show ?thesis
      by (simp add: DevicePathInstanceCount_loop.simps [of m p] DevicePathInstanceCount_loop.simps [of m 0]
          DevicePathInstance_def path_ok_def)
  next
    case False
    with Cons.IH [OF DevicePathInstance_rest [OF Cons.prems(1) False]] h Cons.prems(2) show ?thesis
      by (simp add: DevicePathInstanceCount_loop.simps [of m p] path_ok_def)
  qed
qed


subsection \<open>Copies\<close>

text \<open>
  A path stored in memory in use: after an allocation it is still there, and apart from the new
  block.
\<close>

lemma path_after_alloc:
  assumes "same_on K m m'" "\<forall>(q, k) \<in> K. disjoint_ranges p n q k"
    "in_use K q (length bs)" "bytes_at m q bs"
  shows "bytes_at m' q bs" "disjoint_ranges p n q (length bs)"
proof -
  show "bytes_at m' q bs" by (rule bytes_at_same_on [OF assms(1,3,4)])
  show "disjoint_ranges p n q (length bs)" by (rule in_use_disjoint [OF assms(3,2)])
qed

text \<open>What an operation that builds \<open>bs\<close> in one fresh block of \<open>n\<close> bytes has done.\<close>

definition built :: "('w \<Rightarrow> ranges) \<Rightarrow> 'w st \<Rightarrow> addr \<Rightarrow> nat \<Rightarrow> u8 list \<Rightarrow> 'w st \<Rightarrow> bool" where
  "built blocks s p n bs s' \<longleftrightarrow> same_on (blocks (fw s)) (ram s) (ram s') \<and>
     (if p = 0 then blocks (fw s') = blocks (fw s)
      else bytes_at (ram s') p bs \<and> length bs \<le> n \<and> (p, n) \<notin> blocks (fw s) \<and>
        blocks (fw s') = insert (p, n) (blocks (fw s)))"

lemma built_block:
  assumes "same_on (blocks (fw s)) (ram s) (ram s1)" "\<forall>(q, k) \<in> blocks (fw s). disjoint_ranges p n q k"
    "mapped (ram s1) p n" "length bs \<le> n" "blocks (fw s1) = insert (p, n) (blocks (fw s))"
    "(p, n) \<notin> blocks (fw s)" "p \<noteq> 0"
  shows "built blocks s p n bs (with_ram s1 (overwrite (ram s1) p bs))"
proof -
  have m: "mapped (ram s1) p (length bs)" using assms(3,4) by (auto elim: mapped_mono)
  show ?thesis
    using same_on_trans [OF assms(1) same_on_overwrite [OF m assms(4,2)]] bytes_at_overwrite [OF m] assms
    by (simp add: built_def)
qed

lemma DuplicateDevicePath_eq:
  assumes "pool_ok (BS L) blocks" "bytes_at (ram s) DevPath (enc_path is)" "path_ok is"
    "in_use (blocks (fw s)) DevPath (length (enc_path is))"
  shows "\<exists>p s'. DuplicateDevicePath L DevPath s = Some (p, s') \<and>
    built blocks s p (length (enc_path is)) (enc_path is) s'"
proof -
  let ?n = "length (enc_path is)"
  have sz: "DevicePathSize (ram s) DevPath = Some ?n"
    using DevicePathSize_eq [of "ram s" DevPath "is" "[]"] assms by simp
  obtain p s1 where a: "AllocatePool L ?n s = (p, s1)" by force
  from assms(1) a show ?thesis
  proof (cases rule: AllocatePool_cases)
    case fails
    then show ?thesis using sz a by (auto simp: DuplicateDevicePath_def built_def)
  next
    case block
    note pa = path_after_alloc [OF block(3,6) assms(4,2)]
    have m: "mapped (ram s1) p ?n" using block(2) same_on_length [OF block(3)] by (simp add: mapped_def)
    have "DuplicateDevicePath L DevPath s = Some (p, with_ram s1 (overwrite (ram s1) p (enc_path is)))"
      using sz a block(1) copy_bytes [OF m pa(1)] by (simp add: DuplicateDevicePath_def)
    with built_block [OF block(3,6) m order.refl block(4,5,1)] show ?thesis by blast
  qed
qed

subsection \<open>Appending\<close>

text \<open>What the loop of \<open>AppendDevicePath\<close> writes: \<open>b2\<close> is all of \<open>Src2\<close>, its end node included.\<close>

definition append_bytes :: "dp_node list list \<Rightarrow> u8 list \<Rightarrow> u8 list" where
  "append_bytes is b2 = concat (map (\<lambda>i. enc_nodes i @ b2 @ EndInstanceDevicePath) is)"

lemma append_bytes_Cons:
  "append_bytes (i # is) b2 = (enc_nodes i @ b2 @ EndInstanceDevicePath) @ append_bytes is b2"
  by (simp add: append_bytes_def)

lemma overwrite_append3:
  assumes "p + length as + length bs + length cs \<le> length m"
  shows "overwrite (overwrite (overwrite m p as) (p + length as) bs) (p + length as + length bs) cs =
    overwrite m p (as @ bs @ cs)"
  using assms overwrite_append [of p as bs m] overwrite_append [of p "as @ bs" cs m]
  by (simp add: add.assoc)

lemma AppendDevicePath_loop_eq:
  "bytes_at m Src1 (enc_path is) \<Longrightarrow> path_ok is \<Longrightarrow> bytes_at m Src2 b2 \<Longrightarrow>
   mapped m Dst (length (append_bytes is b2)) \<Longrightarrow>
   disjoint_ranges Dst (length (append_bytes is b2)) Src1 (length (enc_path is)) \<Longrightarrow>
   disjoint_ranges Dst (length (append_bytes is b2)) Src2 (length b2) \<Longrightarrow>
   AppendDevicePath_loop m Src1 Src2 (length b2) Dst =
     Some (overwrite m Dst (append_bytes is b2), Dst + length (append_bytes is b2))"
proof (induction "is" arbitrary: m Src1 Dst)
  case Nil
  then show ?case by (simp add: path_ok_def)
next
  case (Cons i js)
  let ?out = "enc_nodes i @ b2 @ EndInstanceDevicePath"
  let ?m = "overwrite m Dst ?out"
  define Dst' where "Dst' = Dst + length ?out"
  have inst: "DevicePathInstance m Src1 =
      Some (Some (if js = [] then 0 else Src1 + length (enc_nodes i) + 4, length (enc_nodes i)))"
    using DevicePathInstance_eq [of m Src1 i js "[]"] Cons.prems(1,2) by (simp add: path_ok_def)
  have room: "mapped m Dst (length ?out + length (append_bytes js b2))"
    using Cons.prems(4) by (simp add: append_bytes_Cons add.assoc)
  have room1: "mapped m Dst (length (enc_nodes i))" using room by (auto elim: mapped_mono)
  let ?m1 = "overwrite m Dst (enc_nodes i)"
  have len1: "length ?m1 = length m" using room1 by (simp add: mapped_def)
  have src: "bytes_at m Src1 (enc_nodes i)"
    using Cons.prems(1) by (simp add: enc_path_Cons bytes_at_append)
  have c1: "CopyMem_1 m Dst Src1 (length (enc_nodes i)) = Some ?m1"
    using copy_bytes [OF room1 src] .
  have room2: "mapped ?m1 (Dst + length (enc_nodes i)) (length b2)"
    using room len1 by (auto simp: mapped_def)
  have "bytes_at ?m1 Src2 b2"
    using Cons.prems(3,6) room1
    by (subst bytes_at_overwrite_disjoint) (auto simp: disjoint_ranges_def append_bytes_Cons mapped_def)
  from copy_bytes [OF room2 this]
  have c2: "CopyMem_1 ?m1 (Dst + length (enc_nodes i)) Src2 (length b2) =
      Some (overwrite ?m1 (Dst + length (enc_nodes i)) b2)" .
  have c3: "wr_bytes (overwrite ?m1 (Dst + length (enc_nodes i)) b2)
        (Dst + length (enc_nodes i) + length b2) EndInstanceDevicePath = Some ?m"
    using room len1 overwrite_append3 [of Dst "enc_nodes i" b2 EndInstanceDevicePath m]
    by (simp add: wr_bytes_def mapped_def)
  have D: "Dst + length (enc_nodes i) + length b2 + 4 = Dst'" by (simp add: Dst'_def)
  have step: "AppendDevicePath_loop m Src1 Src2 (length b2) Dst =
      AppendDevicePath_loop ?m (if js = [] then 0 else Src1 + length (enc_nodes i) + 4) Src2 (length b2) Dst'"
    by (subst AppendDevicePath_loop.simps) (simp only: inst c1 c2 c3 D bind.bind_lunit option.case split)
  show ?case
  proof (cases "js = []")
    case True
    then show ?thesis unfolding step
      by (simp add: AppendDevicePath_loop.simps [of _ 0] DevicePathInstance_def append_bytes_def Dst'_def)
  next
    case False
    let ?S = "Src1 + length (enc_nodes i) + 4"
    have len: "length ?m = length m" using room by (simp add: mapped_def)
    have lp: "length (enc_path (i # js)) = length (enc_nodes i) + 4 + length (enc_path js)"
      using False by (simp add: enc_path_Cons)
    have la: "length (append_bytes (i # js) b2) = length ?out + length (append_bytes js b2)"
      by (simp add: append_bytes_Cons)
    have dis: "disjoint_ranges Dst (length ?out + length (append_bytes js b2)) Src1 (length (enc_nodes i) + 4 + length (enc_path js))"
      "disjoint_ranges Dst (length ?out + length (append_bytes js b2)) Src2 (length b2)"
      using Cons.prems(5,6) unfolding lp la .
    have "bytes_at m ?S (enc_path js)"
      using DevicePathInstance_rest [of m Src1 i js "[]"] Cons.prems(1) False by simp
    then have "bytes_at ?m ?S (enc_path js)" "bytes_at ?m Src2 b2"
      using dis room Cons.prems(3)
      by (subst bytes_at_overwrite_disjoint; auto simp: disjoint_ranges_def mapped_def)+
    then have "AppendDevicePath_loop ?m ?S Src2 (length b2) Dst' =
        Some (overwrite ?m Dst' (append_bytes js b2), Dst' + length (append_bytes js b2))"
      using Cons.prems(2) False dis room len
      by (intro Cons.IH) (auto simp: path_ok_def mapped_def disjoint_ranges_def Dst'_def)
    then show ?thesis unfolding step using False room
        overwrite_append [of Dst ?out "append_bytes js b2" m]
      by (simp add: Dst'_def append_bytes_Cons mapped_def add.assoc)
  qed
qed

text \<open>The finished buffer: the last instance's end marker has become the end of the path.\<close>

definition appended :: "dp_node list list \<Rightarrow> u8 list \<Rightarrow> u8 list" where
  "appended is b2 = append_bytes (butlast is) b2 @ enc_nodes (last is) @ b2 @ EndDevicePath"

lemma append_bytes_last:
  assumes "is \<noteq> []"
  shows "append_bytes is b2 = (append_bytes (butlast is) b2 @ enc_nodes (last is) @ b2) @ EndInstanceDevicePath"
proof -
  have "append_bytes (butlast is @ [last is]) b2 =
      (append_bytes (butlast is) b2 @ enc_nodes (last is) @ b2) @ EndInstanceDevicePath"
    by (simp add: append_bytes_def)
  then show ?thesis using assms by simp
qed

lemma length_appended: "is \<noteq> [] \<Longrightarrow> length (appended is b2) = length (append_bytes is b2)"
  by (simp add: append_bytes_last appended_def)

lemma length_append_bytes:
  "is \<noteq> [] \<Longrightarrow> length (append_bytes is b2) = length (enc_path is) + length is * length b2"
  by (induction "is") (auto simp: append_bytes_def enc_path_Cons)

lemma appended_single: "appended [i] b2 = enc_nodes i @ b2 @ EndDevicePath"
  by (simp add: appended_def append_bytes_def)

lemma AppendDevicePath_writes:
  assumes src1: "bytes_at (ram s) Src1 (enc_path is)" "path_ok is" "in_use (blocks (fw s)) Src1 (length (enc_path is))"
    and src2: "bytes_at (ram s) Src2 (enc_path js)" "path_ok js" "in_use (blocks (fw s)) Src2 (length (enc_path js))"
    and alloc: "AllocatePool L (length (enc_path is) * length is + length (enc_path js)) s = (p, s1)" "p \<noteq> 0"
      "same_on (blocks (fw s)) (ram s) (ram s1)"
    and room: "mapped (ram s1) p (length (appended is (enc_path js)))"
      "disjoint_ranges p (length (appended is (enc_path js))) Src1 (length (enc_path is))"
      "disjoint_ranges p (length (appended is (enc_path js))) Src2 (length (enc_path js))"
  shows "AppendDevicePath L Src1 Src2 s =
    Some (p, with_ram s1 (overwrite (ram s1) p (appended is (enc_path js))))"
proof -
  let ?b2 = "enc_path js"
  let ?A = "append_bytes (butlast is) ?b2 @ enc_nodes (last is) @ ?b2"
  have ne: "is \<noteq> []" using src1(2) by (simp add: path_ok_def)
  have nz: "Src1 \<noteq> 0" "Src2 \<noteq> 0"
    using bytes_at_mapped [OF src1(1)] bytes_at_mapped [OF src2(1)] by (auto simp: mapped_def)
  have sizes: "DevicePathSize (ram s) Src1 = Some (length (enc_path is))"
    "DevicePathInstanceCount (ram s) Src1 = Some (length is)"
    "DevicePathSize (ram s) Src2 = Some (length ?b2)"
    using DevicePathSize_eq [of "ram s" Src1 "is" "[]"] DevicePathSize_eq [of "ram s" Src2 js "[]"]
      DevicePathInstanceCount_loop_eq [of "ram s" Src1 "is" "[]" 0] src1 src2
    by (simp_all add: DevicePathInstanceCount_def)
  have "bytes_at (ram s1) Src1 (enc_path is)" "bytes_at (ram s1) Src2 ?b2"
    using bytes_at_same_on [OF alloc(3) src1(3,1)] bytes_at_same_on [OF alloc(3) src2(3,1)] .
  then have loop: "AppendDevicePath_loop (ram s1) Src1 Src2 (length ?b2) p =
      Some (overwrite (ram s1) p (append_bytes is ?b2), p + length (append_bytes is ?b2))"
    using room src1(2) by (intro AppendDevicePath_loop_eq) (simp_all add: length_appended [OF ne])
  have pos: "p + length (append_bytes is ?b2) - 4 = p + length ?A"
    by (simp add: append_bytes_last [OF ne])
  have len: "p + length ?A + 4 \<le> length (ram s1)"
    using room(1) by (simp add: mapped_def appended_def)
  have "wr_bytes (overwrite (ram s1) p (append_bytes is ?b2)) (p + length (append_bytes is ?b2) - 4) EndDevicePath =
      Some (overwrite (overwrite (ram s1) p (?A @ EndInstanceDevicePath)) (p + length ?A) EndDevicePath)"
    unfolding pos using len room(1)
    by (simp add: wr_bytes_def mapped_def append_bytes_last [OF ne])
  also have "overwrite (overwrite (ram s1) p (?A @ EndInstanceDevicePath)) (p + length ?A) EndDevicePath =
      overwrite (ram s1) p (appended is ?b2)"
    using overwrite_tail [of p ?A EndInstanceDevicePath "ram s1" EndDevicePath] len
    by (simp add: appended_def)
  finally show ?thesis using nz sizes alloc(1,2) loop by (simp add: AppendDevicePath_def)
qed

lemma AppendDevicePath_one_instance:
  assumes pool: "pool_ok (BS L) blocks"
    and src1: "bytes_at (ram s) Src1 (enc_path [i])" "instance_ok i" "in_use (blocks (fw s)) Src1 (length (enc_path [i]))"
    and src2: "bytes_at (ram s) Src2 (enc_path js)" "path_ok js" "in_use (blocks (fw s)) Src2 (length (enc_path js))"
  shows "\<exists>p s'. AppendDevicePath L Src1 Src2 s = Some (p, s') \<and>
    p = fst (AllocatePool L (length (enc_path [i]) + length (enc_path js)) s) \<and>
    built blocks s p (length (enc_path [i]) + length (enc_path js)) (enc_nodes i @ enc_path js @ EndDevicePath) s'"
proof -
  let ?n = "length (enc_path [i]) + length (enc_path js)"
  have ok: "path_ok [i]" using src1(2) by (simp add: path_ok_def)
  have nz: "Src1 \<noteq> 0" "Src2 \<noteq> 0"
    using bytes_at_mapped [OF src1(1)] bytes_at_mapped [OF src2(1)] by (auto simp: mapped_def)
  obtain p s1 where a: "AllocatePool L ?n s = (p, s1)" by force
  have len: "length (appended [i] (enc_path js)) = ?n" by (simp add: appended_single)
  from pool a show ?thesis
  proof (cases rule: AllocatePool_cases)
    case fails
    have "DevicePathSize (ram s) Src1 = Some (length (enc_path [i]))"
      "DevicePathInstanceCount (ram s) Src1 = Some 1"
      "DevicePathSize (ram s) Src2 = Some (length (enc_path js))"
      using DevicePathSize_eq [of "ram s" Src1 "[i]" "[]"] DevicePathSize_eq [of "ram s" Src2 js "[]"]
        DevicePathInstanceCount_loop_eq [of "ram s" Src1 "[i]" "[]" 0] src1(1) ok src2(1,2)
      by (simp_all add: DevicePathInstanceCount_def)
    then have "AppendDevicePath L Src1 Src2 s = Some (0, s)"
      using nz a fails by (simp add: AppendDevicePath_def)
    then show ?thesis using a fails by (auto simp: built_def)
  next
    case block
    note p1 = path_after_alloc [OF block(3,6) src1(3,1)]
    note p2 = path_after_alloc [OF block(3,6) src2(3,1)]
    have m: "mapped (ram s1) p ?n" using block(2) same_on_length [OF block(3)] by (simp add: mapped_def)
    have "AppendDevicePath L Src1 Src2 s = Some (p, with_ram s1 (overwrite (ram s1) p (appended [i] (enc_path js))))"
      using src1 ok src2 a block(1,3) m p1(2) p2(2)
      by (intro AppendDevicePath_writes) (simp_all only: len, simp_all)
    then show ?thesis
      using built_block [OF block(3,6) m _ block(4,5,1), of "appended [i] (enc_path js)"] len a
      by (auto simp: appended_single)
  qed
qed

lemma append_writes_more_than_allocated:
  assumes "2 \<le> length is" "length (enc_path is) < length b2"
  shows "length (enc_path is) * length is + length b2 < length (appended is b2)"
proof -
  obtain k where k: "length is = k + 2" using assms(1) by (metis add.commute le_Suc_ex)
  have "length (enc_path is) * (k + 1) < length b2 * (k + 1)"
    using assms(2) by (intro mult_less_mono1) simp_all
  then have "length (enc_path is) * (k + 2) + length b2 < length (enc_path is) + (k + 2) * length b2"
    by (simp add: algebra_simps)
  then show ?thesis using assms(1) k by (subst length_appended; (subst length_append_bytes)?; auto)
qed

lemma appended_first:
  assumes "is \<noteq> []"
  shows "\<exists>rest. appended is b2 = enc_nodes (hd is) @ b2 @ rest"
proof -
  obtain i js where "is = i # js" using assms by (cases "is") auto
  then show ?thesis by (cases js) (simp_all add: appended_def append_bytes_def)
qed

end
