(* ===== verification/DevPathOps.thy ===== *)
theory DevPathOps
  imports DevPath
begin

text \<open>
  The remaining device path operations of lib/dpath.c on encoded paths: adding an instance,
  duplicating one, matching, unpacking; and the properties of all of them.
\<close>

subsection \<open>Adding and duplicating instances\<close>

lemma enc_path_split:
  "is \<noteq> [] \<Longrightarrow> \<exists>A. enc_path is = A @ EndDevicePath \<and>
     (\<forall>js. js \<noteq> [] \<longrightarrow> enc_path (is @ js) = A @ EndInstanceDevicePath @ enc_path js)"
proof (induction "is")
  case Nil
  then show ?case by simp
next
  case (Cons i ks)
  show ?case
  proof (cases "ks = []")
    case True
    then show ?thesis by (intro exI [of _ "enc_nodes i"]) (simp add: enc_path_Cons)
  next
    case False
    with Cons.IH obtain A where "enc_path ks = A @ EndDevicePath"
      "\<forall>js. js \<noteq> [] \<longrightarrow> enc_path (ks @ js) = A @ EndInstanceDevicePath @ enc_path js" by blast
    with False show ?thesis
      by (intro exI [of _ "enc_nodes i @ EndInstanceDevicePath @ A"]) (simp add: enc_path_Cons)
  qed
qed

lemma AppendDevicePathInstance_eq:
  assumes pool: "pool_ok (BS L) blocks"
    and src: "bytes_at (ram s) Src (enc_path is)" "path_ok is" "in_use (blocks (fw s)) Src (length (enc_path is))"
    and inst: "bytes_at (ram s) Instance (enc_path js)" "path_ok js" "in_use (blocks (fw s)) Instance (length (enc_path js))"
    and alloc: "AllocatePool L (length (enc_path is) + length (enc_path js)) s = (p, s1)" "p \<noteq> 0"
  shows "\<exists>s'. AppendDevicePathInstance L Src Instance s = Some (p, s') \<and>
    built blocks s p (length (enc_path is) + length (enc_path js)) (enc_path (is @ js)) s'"
proof -
  let ?n1 = "length (enc_path is)" and ?n2 = "length (enc_path js)"
  have ne: "is \<noteq> []" "js \<noteq> []" using src(2) inst(2) by (auto simp: path_ok_def)
  obtain A where A: "enc_path is = A @ EndDevicePath" "enc_path (is @ js) = A @ EndInstanceDevicePath @ enc_path js"
    using enc_path_split [OF ne(1)] ne(2) by blast
  have nz: "Src \<noteq> 0" using bytes_at_mapped [OF src(1)] by (auto simp: mapped_def)
  have sizes: "DevicePathSize (ram s) Src = Some ?n1" "DevicePathSize (ram s) Instance = Some ?n2"
    using DevicePathSize_eq [of "ram s" Src "is" "[]"] DevicePathSize_eq [of "ram s" Instance js "[]"] src inst
    by simp_all
  from pool alloc(1) show ?thesis
  proof (cases rule: AllocatePool_cases)
    case fails
    with alloc(2) show ?thesis by simp
  next
    case block
    note p1 = path_after_alloc [OF block(3,6) src(3,1)]
    note p2 = path_after_alloc [OF block(3,6) inst(3,1)]
    have m: "mapped (ram s1) p (?n1 + ?n2)" using block(2) same_on_length [OF block(3)] by (simp add: mapped_def)
    let ?m1 = "overwrite (ram s1) p (enc_path is)"
    have m1: "mapped (ram s1) p ?n1" using m by (auto elim: mapped_mono)
    have len: "length ?m1 = length (ram s1)" using m1 by (simp add: mapped_def)
    have at1: "bytes_at ?m1 p (enc_path is)" using m1 by (rule bytes_at_overwrite)
    have c1: "CopyMem_1 (ram s1) p Src ?n1 = Some ?m1" using m1 p1(1) by (rule copy_bytes)
    have "DevicePathSize_loop ?m1 p = Some (p + ?n1 - 4)"
      using DevicePathSize_loop_eq [of ?m1 p "is" "[]"] at1 ne(1) path_ok_nodes [OF src(2)] by simp
    then have c2: "DevicePathSize_loop ?m1 p = Some (p + length A)" by (simp add: A(1))
    let ?m2 = "overwrite (ram s1) p (A @ EndInstanceDevicePath)"
    have "(enc_path is)[length A + 1 := 1] = A @ EndInstanceDevicePath"
      by (simp add: A(1) list_update_append EndDevicePath_def EndInstanceDevicePath_def)
    then have c3: "wr8 ?m1 (p + length A + 1) 1 = Some ?m2"
      using wr8_within [OF m1, of "length A + 1" 1] by (simp add: A(1) add.assoc)
    have mA: "mapped (ram s1) p (length (A @ EndInstanceDevicePath))" using m1 by (simp add: A(1))
    have len2: "length ?m2 = length (ram s1)" using mA by (simp add: mapped_def)
    have "bytes_at ?m2 (p + length A) EndInstanceDevicePath"
      using bytes_at_overwrite [OF mA] by (simp add: bytes_at_append)
    then have c4: "NextDevicePathNode ?m2 (p + length A) = Some (p + length A + 4)"
      using end_header(4) [of ?m2 "p + length A" False "[]"] by simp
    have "bytes_at ?m2 Instance (enc_path js)"
      using p2 mA m by (subst bytes_at_overwrite_disjoint) (auto simp: disjoint_ranges_def mapped_def A(1))
    moreover have "mapped ?m2 (p + length A + 4) ?n2" using m len2 by (auto simp: mapped_def A(1))
    ultimately have "CopyMem_1 ?m2 (p + length A + 4) Instance ?n2 =
        Some (overwrite ?m2 (p + length A + 4) (enc_path js))"
      by (intro copy_bytes)
    also have "overwrite ?m2 (p + length A + 4) (enc_path js) = overwrite (ram s1) p (enc_path (is @ js))"
      using overwrite_append [of p "A @ EndInstanceDevicePath" "enc_path js" "ram s1"] m
      by (simp add: A mapped_def add.assoc)
    finally have "AppendDevicePathInstance L Src Instance s =
        Some (p, with_ram s1 (overwrite (ram s1) p (enc_path (is @ js))))"
      using nz sizes alloc c1 c2 c3 c4 by (simp add: AppendDevicePathInstance_def)
    moreover have "length (enc_path (is @ js)) \<le> ?n1 + ?n2" by (simp add: A)
    ultimately show ?thesis using built_block [OF block(3,6) m _ block(4,5,1)] by blast
  qed
qed

text \<open>Writing an end node.\<close>

lemma SetDevicePathEndNode_eq:
  assumes "mapped m a 4"
  shows "SetDevicePathEndNode m a = Some (overwrite m a EndDevicePath)"
proof -
  obtain b0 b1 b2 b3 where r: "region m a 4 = [b0, b1, b2, b3]"
  proof -
    have "length (region m a 4) = 4" using assms by (simp add: mapped_def)
    then have "\<exists>b0 b1 b2 b3. region m a 4 = [b0, b1, b2, b3]"
      by (auto simp: eval_nat_numeral length_Suc_conv)
    then show thesis using that by blast
  qed
  have m: "mapped m a (length [x0, x1, x2, x3])" for x0 x1 x2 x3 :: u8
    using assms by (simp add: eval_nat_numeral)
  have "overwrite m a [b0, b1, b2, b3] = m"
    using overwrite_same [of a 4 m] assms by (simp add: r mapped_def)
  then have "wr8 m a 0x7f = Some (overwrite m a [0x7f, b1, b2, b3])"
    using wr8_within [OF m, of 0 b0 b1 b2 b3 "0x7f"] by simp
  moreover have "wr8 (overwrite m a [0x7f, b1, b2, b3]) (a + 1) 0xff = Some (overwrite m a [0x7f, 0xff, b2, b3])"
    using wr8_within [OF m, of 1 "0x7f" b1 b2 b3 "0xff"] by simp
  moreover have "wr8 (overwrite m a [0x7f, 0xff, b2, b3]) (a + 2) 4 = Some (overwrite m a [0x7f, 0xff, 4, b3])"
    using wr8_within [OF m, of 2 "0x7f" "0xff" b2 b3 4] by (simp add: numeral_2_eq_2)
  moreover have "wr8 (overwrite m a [0x7f, 0xff, 4, b3]) (a + 3) 0 = Some (overwrite m a [0x7f, 0xff, 4, 0])"
    using wr8_within [OF m, of 3 "0x7f" "0xff" 4 b3 0] by (simp add: numeral_3_eq_3)
  ultimately show ?thesis by (simp add: SetDevicePathEndNode_def EndDevicePath_def)
qed

lemma LibDuplicateDevicePathInstance_eq:
  assumes pool: "pool_ok (BS L) blocks"
    and src: "bytes_at (ram s) DevPath (enc_path ((nd # ns) # is))" "path_ok ((nd # ns) # is)"
      "in_use (blocks (fw s)) DevPath (length (enc_path ((nd # ns) # is)))"
  shows "\<exists>p s'. LibDuplicateDevicePathInstance L DevPath s = Some (p, s') \<and>
    built blocks s p (length (enc_nodes (nd # ns)) + 4) (enc_path [[nd]]) s'"
proof -
  let ?i = "enc_nodes (nd # ns)" and ?n = "length (enc_nodes (nd # ns)) + 4"
  have ok: "instance_ok (nd # ns)" "node_ok nd" using src(2) by (auto simp: path_ok_def instance_ok_def)
  have split: "enc_path ((nd # ns) # is) = ?i @ (if is = [] then EndDevicePath else EndInstanceDevicePath) @ enc_path is"
    by (rule enc_path_Cons)
  obtain t where inst: "DevicePathInstance (ram s) DevPath = Some (Some (t, length ?i))"
    using DevicePathInstance_eq [of "ram s" DevPath "nd # ns" "is" "[]"] src(1) ok(1) by auto
  have nz: "length ?i \<noteq> 0" by (simp add: enc_node_def split: prod.splits)
  obtain p s1 where a: "AllocatePool L ?n s = (p, s1)" by force
  from pool a show ?thesis
  proof (cases rule: AllocatePool_cases)
    case fails
    then have "LibDuplicateDevicePathInstance L DevPath s = Some (0, s)"
      using inst nz a by (simp add: LibDuplicateDevicePathInstance_def del: enc_nodes_simps)
    then show ?thesis by (auto simp: built_def simp del: enc_nodes_simps)
  next
    case block
    have use: "in_use (blocks (fw s)) DevPath (length ?i)"
      using src(3) unfolding split by (rule in_use_mono) simp_all
    have at: "bytes_at (ram s) DevPath ?i" using src(1) unfolding split bytes_at_append by simp
    note p1 = path_after_alloc [OF block(3,6) use at]
    have m: "mapped (ram s1) p ?n" using block(2) same_on_length [OF block(3)] by (simp add: mapped_def)
    then have mi: "mapped (ram s1) p (length ?i)" by (auto elim: mapped_mono)
    let ?m1 = "overwrite (ram s1) p ?i"
    have len: "length ?m1 = length (ram s1)" using mi by (simp add: mapped_def)
    have c1: "CopyMem_1 (ram s1) p DevPath (length ?i) = Some ?m1" using mi p1(1) by (rule copy_bytes)
    have "bytes_at ?m1 p (enc_node nd @ enc_nodes ns)" using bytes_at_overwrite [OF mi] by simp
    from node_header(4) [OF this ok(2)]
    have c2: "NextDevicePathNode ?m1 p = Some (p + length (enc_node nd))" .
    have c3: "SetDevicePathEndNode ?m1 (p + length (enc_node nd)) =
        Some (overwrite ?m1 (p + length (enc_node nd)) EndDevicePath)"
      using m len by (intro SetDevicePathEndNode_eq) (auto simp: mapped_def)
    define m2 where "m2 = overwrite ?m1 (p + length (enc_node nd)) EndDevicePath"
    have ins: "LibDuplicateDevicePathInstance L DevPath s = Some (p, with_ram s1 m2)"
      using inst nz a block(1) c1 c2 c3
      by (simp add: LibDuplicateDevicePathInstance_def m2_def del: enc_nodes_simps)
    have mE: "mapped ?m1 (p + length (enc_node nd)) (length EndDevicePath)"
      using m len by (auto simp: mapped_def)
    have d: "\<forall>(q, k) \<in> blocks (fw s). disjoint_ranges (p + length (enc_node nd)) 4 q k"
      using block(6) by (fastforce simp: disjoint_ranges_def)
    have same: "same_on (blocks (fw s)) (ram s) m2"
      unfolding m2_def
      by (intro same_on_trans [OF block(3)] same_on_trans [OF same_on_overwrite [OF mi _ block(6)]]
          same_on_overwrite [OF mE _ d]) simp_all
    have "bytes_at m2 p (enc_node nd)"
      using \<open>bytes_at ?m1 p (enc_node nd @ enc_nodes ns)\<close> m len unfolding m2_def
      by (subst bytes_at_overwrite_disjoint) (auto simp: disjoint_ranges_def mapped_def bytes_at_append)
    moreover have "bytes_at m2 (p + length (enc_node nd)) EndDevicePath"
      unfolding m2_def by (rule bytes_at_overwrite [OF mE])
    ultimately have "bytes_at m2 p (enc_path [[nd]])" by (simp add: bytes_at_append)
    then have "built blocks s p ?n (enc_path [[nd]]) (with_ram s1 m2)"
      using same block(1,4,5) by (simp add: built_def)
    then show ?thesis using ins by blast
  qed
qed

subsection \<open>Matching\<close>

lemma LibMatchDevicePaths_loop_eq:
  "bytes_at m p (enc_path is @ bs) \<Longrightarrow> path_ok is \<Longrightarrow> \<forall>i \<in> set is. mapped m q (length (enc_nodes i)) \<Longrightarrow>
   LibMatchDevicePaths_loop m p q =
     Some (list_ex (\<lambda>i. region m q (length (enc_nodes i)) = enc_nodes i) is)"
proof (induction "is" arbitrary: p)
  case Nil
  then show ?case by (simp add: path_ok_def)
next
  case (Cons i js)
  have ok: "instance_ok i" using Cons.prems(2) by (simp add: path_ok_def)
  note h = DevicePathInstance_eq [OF Cons.prems(1) ok]
  have at: "bytes_at m p (enc_nodes i)" using Cons.prems(1) by (simp add: enc_path_Cons bytes_at_append)
  have q: "mapped m q (length (enc_nodes i))" using Cons.prems(3) by simp
  obtain c where c: "CompareMem m q p (length (enc_nodes i)) = Some c"
    "c = 0 \<longleftrightarrow> region m q (length (enc_nodes i)) = enc_nodes i"
    using RtCompareMem_eq [OF q bytes_at_mapped [OF at]] RtCompareMem_zero_iff [OF q bytes_at_mapped [OF at]]
      bytes_at_region [OF at]
    by (auto simp: CompareMem_def)
  have step: "LibMatchDevicePaths_loop m p q = (if c = 0 then Some True
      else LibMatchDevicePaths_loop m (if js = [] then 0 else p + length (enc_nodes i) + 4) q)"
    by (subst LibMatchDevicePaths_loop.simps) (simp add: h c(1))
  show ?case
  proof (cases "js = []")
    case True
    then show ?thesis using c(2)
      by (simp add: step LibMatchDevicePaths_loop.simps [of m 0] DevicePathInstance_def)
  next
    case False
    with Cons.IH [OF DevicePathInstance_rest [OF Cons.prems(1) False]] Cons.prems(2,3) c(2)
    show ?thesis by (simp add: step path_ok_def)
  qed
qed

subsection \<open>Unpacking\<close>

text \<open>
  The unpacked form: every node padded with zeros to a multiple of four bytes, its length
  adjusted and bit 7 of its type set, end nodes included.
\<close>

definition unpack_bytes :: "u8 \<Rightarrow> u8 \<Rightarrow> u8 list \<Rightarrow> u8 list" where
  "unpack_bytes t st d =
     (let n = 4 + length d in
      [t OR 0x80, st] @ le_bytes 2 (word_of_nat (n + ALIGN_SIZE n) :: u16) @ d @ replicate (ALIGN_SIZE n) 0)"

definition unpack_node :: "dp_node \<Rightarrow> u8 list" where
  "unpack_node nd = (case nd of (t, st, d) \<Rightarrow> unpack_bytes t st d)"

definition unpack_nodes :: "dp_node list \<Rightarrow> u8 list" where
  "unpack_nodes ns = concat (map unpack_node ns)"

text \<open>All the nodes of a path in order, end nodes included.\<close>

fun flat_path :: "dp_node list list \<Rightarrow> dp_node list" where
  "flat_path [] = []"
| "flat_path (i # is) = i @ [(0x7f, if is = [] then 0xff else 1, [])] @ flat_path is"

definition unpack_path :: "dp_node list list \<Rightarrow> u8 list" where
  "unpack_path is = unpack_nodes (flat_path is)"

text \<open>The largest node whose padded length still fits the 16-bit length field.\<close>

definition unpackable :: "dp_node \<Rightarrow> bool" where
  "unpackable nd \<longleftrightarrow> (case nd of (t, st, d) \<Rightarrow> 4 + length d \<le> 65532)"

lemma ALIGN_SIZE_facts:
  "(n + ALIGN_SIZE n) mod 4 = 0" "ALIGN_SIZE n < 4" "a mod 4 = 0 \<Longrightarrow> ALIGN_SIZE (a + n) = ALIGN_SIZE n"
proof -
  show "(n + ALIGN_SIZE n) mod 4 = 0" unfolding ALIGN_SIZE_def by presburger
  show "ALIGN_SIZE n < 4" unfolding ALIGN_SIZE_def by presburger
  show "a mod 4 = 0 \<Longrightarrow> ALIGN_SIZE (a + n) = ALIGN_SIZE n"
    unfolding ALIGN_SIZE_def by (simp add: mod_add_left_eq [of a 4 n, symmetric])
qed

lemma length_unpack_bytes: "length (unpack_bytes t st d) = 4 + length d + ALIGN_SIZE (4 + length d)"
  by (simp add: unpack_bytes_def Let_def)

text \<open>One node of the source, an end node or not, as the two loops see it.\<close>

definition raw_node :: "mem \<Rightarrow> addr \<Rightarrow> u8 \<Rightarrow> u8 \<Rightarrow> u8 list \<Rightarrow> bool \<Rightarrow> bool" where
  "raw_node m p t st d fin \<longleftrightarrow> 4 + length d \<le> 65532 \<and>
     bytes_at m p ([t, st] @ le_bytes 2 (word_of_nat (4 + length d) :: u16) @ d) \<and>
     fin = (t AND 0x7f = 0x7f \<and> st = 0xff)"

lemma raw_node_reads:
  assumes "raw_node m p t st d fin"
  shows "DevicePathNodeLength m p = Some (4 + length d)" "IsDevicePathEnd m p = Some fin"
    "NextDevicePathNode m p = Some (p + (4 + length d))" "rd8 m p = Some t"
proof -
  have w: "unat (word_of_nat (4 + length d) :: u16) = 4 + length d"
    using assms by (intro unat_word_of_nat) (simp add: raw_node_def)
  have b: "bytes_at m p ([t, st] @ le_bytes 2 (word_of_nat (4 + length d) :: u16) @ d)"
    using assms by (simp add: raw_node_def)
  note h = bytes_at_header [OF b]
  show "DevicePathNodeLength m p = Some (4 + length d)" using h(3) unfolding w .
  then show "NextDevicePathNode m p = Some (p + (4 + length d))" by (simp add: NextDevicePathNode_def)
  show "rd8 m p = Some t" by (rule h(4))
  show "IsDevicePathEnd m p = Some fin"
    using h(1,2) assms by (auto simp: IsDevicePathEnd_def IsDevicePathEndType_def raw_node_def)
qed

lemma size_step:
  assumes "raw_node m p t st d fin" "a mod 4 = 0"
  shows "UnpackDevicePath_size m p a =
    (if fin then Some (a + length (unpack_bytes t st d))
     else UnpackDevicePath_size m (p + (4 + length d)) (a + length (unpack_bytes t st d)))"
    "(a + length (unpack_bytes t st d)) mod 4 = 0"
proof -
  let ?n = "4 + length d"
  have al: "ALIGN_SIZE (a + ?n) = ALIGN_SIZE ?n" using assms(2) by (rule ALIGN_SIZE_facts)
  have len: "a + ?n + ALIGN_SIZE (a + ?n) = a + length (unpack_bytes t st d)"
    unfolding al length_unpack_bytes by simp
  note r = raw_node_reads [OF assms(1)]
  show "UnpackDevicePath_size m p a =
    (if fin then Some (a + length (unpack_bytes t st d))
     else UnpackDevicePath_size m (p + (4 + length d)) (a + length (unpack_bytes t st d)))"
    by (subst UnpackDevicePath_size.simps) (simp only: r len Let_def bind.bind_lunit)
  show "(a + length (unpack_bytes t st d)) mod 4 = 0"
    unfolding len [symmetric] using ALIGN_SIZE_facts(1) [of "a + ?n"] .
qed

lemma set_header:
  fixes w :: u16
  assumes "mapped m q (length ([t, st] @ le_bytes 2 w @ d))" "n = unat (v :: u16)"
  shows "SetDevicePathNodeLength (overwrite m q ([t, st] @ le_bytes 2 w @ d)) q n =
      Some (overwrite m q ([t, st] @ le_bytes 2 v @ d))"
    "wr8 (overwrite m q ([t, st] @ le_bytes 2 v @ d)) q u = Some (overwrite m q ([u, st] @ le_bytes 2 v @ d))"
proof -
  have le: "le_bytes 2 x = [ucast x, ucast (drop_bit 8 x)]" for x :: u16
    by (simp add: numeral_2_eq_2 le_bytes.simps)
  have n0: "(word_of_nat n :: u8) = ucast v" unfolding assms(2) by simp
  have n1: "(word_of_nat (n div 256) :: u8) = ucast (drop_bit 8 v)"
  proof -
    have "n div 256 = unat (drop_bit 8 v)"
      unfolding assms(2) by (simp add: drop_bit_eq_div unat_div)
    then show ?thesis by simp
  qed
  have m: "mapped m q (length (a # b # c # e # d))" for a b c e
    using assms(1) by (simp add: eval_nat_numeral)
  have "wr8 (overwrite m q (t # st # a # b # d)) (q + 2) c = Some (overwrite m q (t # st # c # b # d))" for a b c
    using wr8_within [OF m, of 2 t st a b c] by (simp add: numeral_2_eq_2)
  moreover have "wr8 (overwrite m q (t # st # a # b # d)) (q + 3) c = Some (overwrite m q (t # st # a # c # d))" for a b c
    using wr8_within [OF m, of 3 t st a b c] by (simp add: numeral_3_eq_3)
  ultimately show "SetDevicePathNodeLength (overwrite m q ([t, st] @ le_bytes 2 w @ d)) q n =
      Some (overwrite m q ([t, st] @ le_bytes 2 v @ d))"
    by (simp add: SetDevicePathNodeLength_def n0 n1 le)
  show "wr8 (overwrite m q ([t, st] @ le_bytes 2 v @ d)) q u = Some (overwrite m q ([u, st] @ le_bytes 2 v @ d))"
    using wr8_within [OF m, of 0 t st "ucast v" "ucast (drop_bit 8 v)" u] by (simp add: le)
qed

text \<open>Copying one node into zeroed memory.\<close>

lemma copy_step:
  assumes raw: "raw_node m p t st d fin"
    and zero: "bytes_at m q (replicate (length (unpack_bytes t st d)) 0)"
    and dis: "disjoint_ranges p (4 + length d) q (length (unpack_bytes t st d))"
  shows "UnpackDevicePath_copy m p q =
    (let m' = overwrite m q (unpack_bytes t st d) in
     if fin then Some m'
     else UnpackDevicePath_copy m' (p + (4 + length d)) (q + length (unpack_bytes t st d)))"
proof -
  let ?n = "4 + length d" and ?N = "length (unpack_bytes t st d)"
  let ?w = "word_of_nat ?n :: u16" and ?v = "word_of_nat ?N :: u16"
  let ?m' = "overwrite m q (unpack_bytes t st d)"
  have N: "?N = ?n + ALIGN_SIZE ?n" by (rule length_unpack_bytes)
  have small: "?n \<le> 65532" using raw by (simp add: raw_node_def)
  have "?N < 65536"
    using small ALIGN_SIZE_facts(2) [of ?n] ALIGN_SIZE_facts(1) [of ?n] unfolding N by linarith
  then have v: "unat ?v = ?N" by (rule unat_word_of_nat)
  have room: "mapped m q ?N" using bytes_at_mapped [OF zero] by simp
  let ?b = "[t, st] @ le_bytes 2 ?w @ d"
  have lb: "length ?b = ?n" by simp
  have mb: "mapped m q (length ?b)" using room unfolding lb by (rule mapped_mono) (simp_all add: N)
  have at: "bytes_at m p ?b" using raw by (simp only: raw_node_def)
  note r = raw_node_reads [OF raw]
  have c1: "CopyMem_1 m q p ?n = Some (overwrite m q ?b)" using copy_bytes [OF mb at] unfolding lb .
  have c2: "SetDevicePathNodeLength (overwrite m q ?b) q ?N = Some (overwrite m q ([t, st] @ le_bytes 2 ?v @ d))"
    using set_header(1) [OF mb, of ?N ?v] v by simp
  have "bytes_at (overwrite m q ([t, st] @ le_bytes 2 ?v @ d)) q ([t, st] @ le_bytes 2 ?v @ d)"
    using mb by (intro bytes_at_overwrite) simp
  then have c3: "rd8 (overwrite m q ([t, st] @ le_bytes 2 ?v @ d)) q = Some t"
    by (simp add: bytes_at_Cons)
  have c4: "wr8 (overwrite m q ([t, st] @ le_bytes 2 ?v @ d)) q (t OR 0x80) =
      Some (overwrite m q ([t OR 0x80, st] @ le_bytes 2 ?v @ d))"
    using set_header(2) [OF mb, of ?N ?v] v by simp
  have "region m (q + ?n) (ALIGN_SIZE ?n) = replicate (ALIGN_SIZE ?n) 0"
  proof -
    have "bytes_at m q (replicate ?n 0 @ replicate (ALIGN_SIZE ?n) 0)"
      using zero unfolding N by (simp add: replicate_add)
    then have "bytes_at m (q + ?n) (replicate (ALIGN_SIZE ?n) 0)" unfolding bytes_at_append by simp
    from bytes_at_region [OF this] show ?thesis by simp
  qed
  moreover have u: "unpack_bytes t st d = ([t OR 0x80, st] @ le_bytes 2 ?v @ d) @ replicate (ALIGN_SIZE ?n) 0"
    unfolding N by (simp add: unpack_bytes_def Let_def)
  moreover have "length ([t OR 0x80, st] @ le_bytes 2 ?v @ d) = ?n" by simp
  moreover have "q + ?n + ALIGN_SIZE ?n \<le> length m" using room by (simp add: mapped_def N)
  ultimately have e: "overwrite m q ([t OR 0x80, st] @ le_bytes 2 ?v @ d) = ?m'"
    using overwrite_keep [of q "[t OR 0x80, st] @ le_bytes 2 ?v @ d" "ALIGN_SIZE ?n" m] by metis
  have "bytes_at ?m' p ?b"
    using at dis room by (subst bytes_at_overwrite_disjoint) (auto simp: lb mapped_def)
  then have "raw_node ?m' p t st d fin" using raw by (simp only: raw_node_def)
  note r' = raw_node_reads [OF this]
  show ?thesis
    by (subst UnpackDevicePath_copy.simps)
      (simp only: r(1) c1 Let_def N [symmetric] c2 c3 c4 e r' bind.bind_lunit)
qed

text \<open>Sequences of nodes that end with the end node of the entire path.\<close>

definition final_node :: "dp_node \<Rightarrow> bool" where
  "final_node nd \<longleftrightarrow> (case nd of (t, st, d) \<Rightarrow> t AND 0x7f = 0x7f \<and> st = 0xff)"

fun terminated :: "dp_node list \<Rightarrow> bool" where
  "terminated [] \<longleftrightarrow> False"
| "terminated (nd # ns) \<longleftrightarrow> (if ns = [] then final_node nd else \<not> final_node nd \<and> terminated ns)"

lemma unpack_nodes_simps [simp]:
  "unpack_nodes [] = []" "unpack_nodes (nd # ns) = unpack_node nd @ unpack_nodes ns"
  by (simp_all add: unpack_nodes_def)

lemma raw_node_of:
  assumes "bytes_at m p (enc_node nd)" "unpackable nd" "nd = (t, st, d)"
  shows "raw_node m p t st d (final_node nd)"
  using assms by (simp add: raw_node_def enc_node_def unpackable_def final_node_def)

lemma UnpackDevicePath_size_eq:
  "terminated ns \<Longrightarrow> list_all unpackable ns \<Longrightarrow> bytes_at m p (enc_nodes ns) \<Longrightarrow> a mod 4 = 0 \<Longrightarrow>
   UnpackDevicePath_size m p a = Some (a + length (unpack_nodes ns))"
proof (induction ns arbitrary: p a)
  case Nil
  then show ?case by simp
next
  case (Cons nd ns)
  obtain t st d where nd: "nd = (t, st, d)" by (cases nd)
  have b: "bytes_at m p (enc_node nd)" "bytes_at m (p + length (enc_node nd)) (enc_nodes ns)"
    using Cons.prems(3) by (simp_all add: bytes_at_append)
  have r: "raw_node m p t st d (final_node nd)" using Cons.prems(2) b(1) nd by (intro raw_node_of) simp_all
  note step = size_step [OF r Cons.prems(4)]
  have l: "length (enc_node nd) = 4 + length d" by (simp add: enc_node_def nd)
  have u: "unpack_node nd = unpack_bytes t st d" by (simp add: unpack_node_def nd)
  show ?case
  proof (cases "ns = []")
    case True
    then show ?thesis using step(1) Cons.prems(1) u by simp
  next
    case False
    with Cons.IH [OF _ _ b(2) step(2)] Cons.prems(1,2) show ?thesis using step(1)
      by (simp add: u l)
  qed
qed

lemma UnpackDevicePath_copy_eq:
  "terminated ns \<Longrightarrow> list_all unpackable ns \<Longrightarrow> bytes_at m p (enc_nodes ns) \<Longrightarrow>
   bytes_at m q (replicate (length (unpack_nodes ns)) 0) \<Longrightarrow>
   disjoint_ranges p (length (enc_nodes ns)) q (length (unpack_nodes ns)) \<Longrightarrow>
   UnpackDevicePath_copy m p q = Some (overwrite m q (unpack_nodes ns))"
proof (induction ns arbitrary: m p q)
  case Nil
  then show ?case by simp
next
  case (Cons nd ns)
  obtain t st d where nd: "nd = (t, st, d)" by (cases nd)
  have b: "bytes_at m p (enc_node nd)" "bytes_at m (p + length (enc_node nd)) (enc_nodes ns)"
    using Cons.prems(3) by (simp_all add: bytes_at_append)
  have r: "raw_node m p t st d (final_node nd)" using Cons.prems(2) b(1) nd by (intro raw_node_of) simp_all
  have l: "length (enc_node nd) = 4 + length d" by (simp add: enc_node_def nd)
  have u: "unpack_node nd = unpack_bytes t st d" by (simp add: unpack_node_def nd)
  let ?U = "unpack_bytes t st d"
  have z: "bytes_at m q (replicate (length ?U) 0)" "bytes_at m (q + length ?U) (replicate (length (unpack_nodes ns)) 0)"
    using Cons.prems(4) by (simp_all add: u replicate_add bytes_at_append)
  have dis: "disjoint_ranges p (4 + length d + length (enc_nodes ns)) q (length ?U + length (unpack_nodes ns))"
    using Cons.prems(5) by (simp add: u l)
  have d1: "disjoint_ranges p (4 + length d) q (length ?U)" using dis by (auto simp: disjoint_ranges_def)
  note step = copy_step [OF r z(1) d1]
  show ?case
  proof (cases "ns = []")
    case True
    then show ?thesis using step Cons.prems(1) u by (simp add: Let_def)
  next
    case False
    let ?m = "overwrite m q ?U"
    have room: "q + length ?U + length (unpack_nodes ns) \<le> length m"
      using bytes_at_mapped [OF z(2)] by (simp add: mapped_def)
    have "bytes_at ?m (p + (4 + length d)) (enc_nodes ns)"
      using b(2) dis room by (subst bytes_at_overwrite_disjoint) (auto simp: l disjoint_ranges_def)
    moreover have "bytes_at ?m (q + length ?U) (replicate (length (unpack_nodes ns)) 0)"
      using z(2) room by (subst bytes_at_overwrite_disjoint) (auto simp: disjoint_ranges_def)
    moreover have "disjoint_ranges (p + (4 + length d)) (length (enc_nodes ns)) (q + length ?U) (length (unpack_nodes ns))"
      using dis by (auto simp: disjoint_ranges_def)
    ultimately have "UnpackDevicePath_copy ?m (p + (4 + length d)) (q + length ?U) =
        Some (overwrite ?m (q + length ?U) (unpack_nodes ns))"
      using Cons.prems(1,2) False by (intro Cons.IH) simp_all
    then show ?thesis using step False Cons.prems(1) room overwrite_append [of q ?U "unpack_nodes ns" m]
      by (simp add: Let_def u)
  qed
qed

lemma enc_path_flat: "enc_path is = enc_nodes (flat_path is)"
proof -
  have "le_bytes 2 (4 :: u16) = [4, 0]" by code_simp
  then have "enc_node (0x7f, 0xff, []) = EndDevicePath" "enc_node (0x7f, 1, []) = EndInstanceDevicePath"
    by (simp_all add: enc_node_def EndDevicePath_def EndInstanceDevicePath_def)
  then show ?thesis by (induction "is") (simp_all add: enc_path_Cons)
qed

lemma terminated_append:
  "\<forall>nd \<in> set ns. \<not> final_node nd \<Longrightarrow> terminated ms \<Longrightarrow> terminated (ns @ ms)"
  by (induction ns) auto

lemma flat_path_terminated: "path_ok is \<Longrightarrow> terminated (flat_path is)"
proof (induction "is")
  case Nil
  then show ?case by (simp add: path_ok_def)
next
  case (Cons i js)
  have nf: "\<forall>nd \<in> set i. \<not> final_node nd"
    using Cons.prems by (auto simp: path_ok_def instance_ok_def list_all_iff node_ok_def final_node_def)
  have "terminated ([(0x7f, if js = [] then 0xff else 1, [])] @ flat_path js)"
  proof (cases "js = []")
    case True
    then show ?thesis by (simp add: final_node_def)
  next
    case False
    with Cons have "terminated (flat_path js)" by (simp add: path_ok_def)
    then show ?thesis using False by (cases "flat_path js") (simp_all add: final_node_def)
  qed
  then show ?case using nf by (simp only: flat_path.simps terminated_append)
qed

lemma AllocateZeroPool_block:
  assumes "pool_ok (BS L) blocks" "AllocatePool L n s = (p, s1)" "p \<noteq> 0" "mapped (ram s1) p n"
  shows "AllocateZeroPool L n s = Some (p, with_ram s1 (overwrite (ram s1) p (replicate n 0)))"
  using assms(2-4) RtZeroMem_eq [OF assms(4)] by (simp add: AllocateZeroPool_def ZeroMem_def)

text \<open>When the pool gives a block, the padded path is written into it.\<close>

lemma UnpackDevicePath_alloc:
  assumes pool: "pool_ok (BS L) blocks"
    and src: "bytes_at (ram s) DevPath (enc_path is)" "path_ok is" "in_use (blocks (fw s)) DevPath (length (enc_path is))"
      "list_all (list_all unpackable) is"
    and a: "AllocatePool L (length (unpack_path is)) s = (p, s1)" "p \<noteq> 0"
  shows "UnpackDevicePath L DevPath s = Some (p, with_ram s1 (overwrite (ram s1) p (unpack_path is)))"
proof -
  let ?n = "length (unpack_path is)"
  have t: "terminated (flat_path is)" using src(2) by (rule flat_path_terminated)
  have un: "list_all unpackable (flat_path is)"
    using src(4) by (induction "is") (simp_all add: unpackable_def)
  have b: "bytes_at (ram s) DevPath (enc_nodes (flat_path is))" using src(1) by (simp add: enc_path_flat)
  have sz: "UnpackDevicePath_size (ram s) DevPath 0 = Some ?n"
    using UnpackDevicePath_size_eq [OF t un b, of 0] by (simp add: unpack_path_def)
  from pool a(1) show ?thesis
  proof (cases rule: AllocatePool_cases)
    case fails
    then show ?thesis using a(2) by simp
  next
    case block
    note p1 = path_after_alloc [OF block(3,6) src(3,1)]
    have m: "mapped (ram s1) p ?n" using block(2) same_on_length [OF block(3)] by (simp add: mapped_def)
    let ?m0 = "overwrite (ram s1) p (replicate ?n 0)"
    have z: "AllocateZeroPool L ?n s = Some (p, with_ram s1 ?m0)"
      using AllocateZeroPool_block [OF pool a m] .
    have "bytes_at ?m0 p (replicate (length (unpack_nodes (flat_path is))) 0)"
      using bytes_at_overwrite [of "ram s1" p "replicate ?n 0"] m by (simp add: unpack_path_def)
    moreover have "bytes_at ?m0 DevPath (enc_nodes (flat_path is))"
      using p1 m by (subst bytes_at_overwrite_disjoint) (auto simp: enc_path_flat disjoint_ranges_def mapped_def)
    ultimately have "UnpackDevicePath_copy ?m0 DevPath p = Some (overwrite ?m0 p (unpack_path is))"
      using UnpackDevicePath_copy_eq [OF t un, of ?m0 DevPath p] p1(2)
      by (auto simp: unpack_path_def enc_path_flat disjoint_ranges_def)
    also have "overwrite ?m0 p (unpack_path is) = overwrite (ram s1) p (unpack_path is)"
      using m by (intro overwrite_twice) (simp_all add: mapped_def)
    finally show ?thesis using sz z block(1) by (simp add: UnpackDevicePath_def with_ram_def)
  qed
qed

lemma UnpackDevicePath_eq:
  assumes pool: "pool_ok (BS L) blocks"
    and src: "bytes_at (ram s) DevPath (enc_path is)" "path_ok is" "in_use (blocks (fw s)) DevPath (length (enc_path is))"
      "list_all (list_all unpackable) is"
  shows "\<exists>p s'. UnpackDevicePath L DevPath s = Some (p, s') \<and> p = fst (AllocatePool L (length (unpack_path is)) s) \<and>
    built blocks s p (length (unpack_path is)) (unpack_path is) s'"
proof -
  let ?n = "length (unpack_path is)"
  obtain p s1 where a: "AllocatePool L ?n s = (p, s1)" by force
  from pool a show ?thesis
  proof (cases rule: AllocatePool_cases)
    case fails
    have "list_all unpackable (flat_path is)" using src(4) by (induction "is") (simp_all add: unpackable_def)
    then have "UnpackDevicePath_size (ram s) DevPath 0 = Some ?n"
      using UnpackDevicePath_size_eq [OF flat_path_terminated [OF src(2)], of "ram s" DevPath 0] src(1)
      by (simp add: unpack_path_def enc_path_flat)
    moreover have "AllocateZeroPool L ?n s = Some (0, s)" using fails a by (simp add: AllocateZeroPool_def)
    ultimately show ?thesis using fails a by (auto simp: UnpackDevicePath_def built_def)
  next
    case block
    have "mapped (ram s1) p ?n" using block(2) same_on_length [OF block(3)] by (simp add: mapped_def)
    from built_block [OF block(3,6) this order.refl block(4,5,1)] show ?thesis
      using UnpackDevicePath_alloc [OF pool src a block(1)] a by auto
  qed
qed

lemma bytes_at_prefix: "bytes_at m p bs \<Longrightarrow> bs = as @ cs \<Longrightarrow> bytes_at m p as"
  by (simp add: bytes_at_append)

subsection \<open>Properties\<close>

text \<open>Walking an encoded path: \<open>DevicePathSize\<close> is the length of the whole encoding and
  \<open>DevicePathInstanceCount\<close> the number of its instances; \<open>DevicePathInstance\<close> gives the first
  instance's size without its end node and moves on to the encoding of the others, or to NULL.\<close>

theorem DevicePath_walks:
  assumes "bytes_at m p (enc_path (i # is) @ bs)" "path_ok (i # is)"
  shows "DevicePathSize m p = Some (length (enc_path (i # is))) \<and>
    DevicePathInstanceCount m p = Some (length (i # is)) \<and>
    (\<exists>n. DevicePathInstance m p = Some (Some (n, length (enc_nodes i))) \<and>
      (if is = [] then n = 0 else bytes_at m n (enc_path is @ bs)))"
proof -
  have "instance_ok i" using assms(2) by (simp add: path_ok_def)
  then show ?thesis
    using DevicePathSize_eq [OF assms] DevicePathInstanceCount_loop_eq [OF assms, of 0]
      DevicePathInstance_eq [OF assms(1)] DevicePathInstance_rest [OF assms(1)]
    by (simp add: DevicePathInstanceCount_def)
qed

theorem DevicePath_walks_witness:
  "DevicePathSize ([0] @ enc_path [[(1, 1, [3, 4])], [(2, 1, [])]]) 1 = Some 18 \<and>
   DevicePathInstanceCount ([0] @ enc_path [[(1, 1, [3, 4])], [(2, 1, [])]]) 1 = Some 2"
proof -
  have "bytes_at ([0] @ enc_path [[(1, 1, [3, 4])], [(2, 1, [])]]) 1 (enc_path [[(1, 1, [3, 4])], [(2, 1, [])]] @ [])"
    by code_simp
  moreover have "path_ok [[(1, 1, [3, 4])], [(2, 1, [])]]"
    by (simp add: path_ok_def instance_ok_def node_ok_def)
  moreover have "length (enc_path [[(1, 1, [3, 4])], [(2, 1, [])]]) = 18" by code_simp
  ultimately show ?thesis
    using DevicePath_walks [of "[0] @ enc_path [[(1, 1, [3, 4])], [(2, 1, [])]]" 1 "[(1, 1, [3, 4])]" "[[(2, 1, [])]]" "[]"]
    by simp
qed

text \<open>C24. \<open>AppendDevicePath\<close> with a single instance in \<open>Src1\<close>: the result is what the pool answers to the
  request of exactly the size that is needed. Unless that is NULL, it is a fresh block whose path is the
  instance's nodes followed by \<open>Src2\<close>. No memory in use changes.\<close>

theorem AppendDevicePath_single:
  assumes "pool_ok (BS L) blocks"
    "bytes_at (ram s) Src1 (enc_path [i])" "instance_ok i" "in_use (blocks (fw s)) Src1 (length (enc_path [i]))"
    "bytes_at (ram s) Src2 (enc_path (j # js))" "path_ok (j # js)" "in_use (blocks (fw s)) Src2 (length (enc_path (j # js)))"
  shows "\<exists>p s'. AppendDevicePath L Src1 Src2 s = Some (p, s') \<and>
    p = fst (AllocatePool L (length (enc_path [i]) + length (enc_path (j # js))) s) \<and>
    built blocks s p (length (enc_path [i]) + length (enc_path (j # js)))
      (enc_path ((i @ j) # js) @ EndDevicePath) s'"
  using AppendDevicePath_one_instance [OF assms] by (simp add: enc_path_append_nodes)

theorem AppendDevicePath_single_witness:
  "let s = demo_mem (enc_path [[(1, 1, [3])]] @ enc_path [[(2, 1, [])]]) 100 in
   \<exists>s'. AppendDevicePath demo_lib 1 10 s = Some (19, s') \<and>
    built blocks_of s 19 (length (enc_path [[(1, 1, [3])]]) + length (enc_path [[(2, 1, [])]]))
      (enc_path [[(1, 1, [3])] @ [(2, 1, [])]] @ EndDevicePath) s'"
proof -
  let ?xs = "enc_path [[(1, 1, [3])]] @ enc_path [[(2, 1, [])]]"
  have "fst (AllocatePool demo_lib (length (enc_path [[(1, 1, [3])]]) + length (enc_path [[(2, 1, [])]])) (demo_mem ?xs 100)) = 19"
    by code_simp
  moreover have "\<exists>p s'. AppendDevicePath demo_lib 1 10 (demo_mem ?xs 100) = Some (p, s') \<and>
    p = fst (AllocatePool demo_lib (length (enc_path [[(1, 1, [3])]]) + length (enc_path [[(2, 1, [])]])) (demo_mem ?xs 100)) \<and>
    built blocks_of (demo_mem ?xs 100) p (length (enc_path [[(1, 1, [3])]]) + length (enc_path [[(2, 1, [])]]))
      (enc_path [[(1, 1, [3])] @ [(2, 1, [])]] @ EndDevicePath) s'"
  proof (rule AppendDevicePath_single [OF demo_lib_pool])
    show "bytes_at (ram (demo_mem ?xs 100)) 1 (enc_path [[(1, 1, [3])]])"
      by (rule demo_mem_bytes [of _ "[]" _ "enc_path [[(2, 1, [])]]"]) simp_all
    show "bytes_at (ram (demo_mem ?xs 100)) 10 (enc_path [[(2, 1, [])]])"
      by (rule demo_mem_bytes [of _ "enc_path [[(1, 1, [3])]]" _ "[]"]) (simp_all add: enc_node_def)
    show "in_use (blocks_of (fw (demo_mem ?xs 100))) 1 (length (enc_path [[(1, 1, [3])]]))"
      by (rule demo_mem_in_use) simp_all
    show "in_use (blocks_of (fw (demo_mem ?xs 100))) 10 (length (enc_path [[(2, 1, [])]]))"
      by (rule demo_mem_in_use) (simp_all add: enc_node_def)
  qed (simp_all add: instance_ok_def path_ok_def node_ok_def)
  ultimately show ?thesis unfolding Let_def by simp
qed

text \<open>With several instances in \<open>Src1\<close> the buffer of \<open>AppendDevicePath\<close> is sized
  \<open>Src1Size * Src1Inst + Src2Size\<close>, although \<open>Src2\<close> is copied once per instance: when \<open>Src2\<close> is
  longer than \<open>Src1\<close>, more bytes are written than were allocated. And since every copy of \<open>Src2\<close>
  keeps its own end node, the path read back is the first instance with \<open>Src2\<close> only.\<close>

theorem AppendDevicePath_multi_overflows:
  assumes "bytes_at (ram s) Src1 (enc_path is)" "path_ok is" "in_use (blocks (fw s)) Src1 (length (enc_path is))"
    "bytes_at (ram s) Src2 (enc_path (j # js))" "path_ok (j # js)" "in_use (blocks (fw s)) Src2 (length (enc_path (j # js)))"
    "2 \<le> length is" "length (enc_path is) < length (enc_path (j # js))"
    "n = length (enc_path is) * length is + length (enc_path (j # js))"
    "AllocatePool L n s = (p, s1)" "p \<noteq> 0" "same_on (blocks (fw s)) (ram s) (ram s1)"
    "mapped (ram s1) p (length (appended is (enc_path (j # js))))"
    "disjoint_ranges p (length (appended is (enc_path (j # js)))) Src1 (length (enc_path is))"
    "disjoint_ranges p (length (appended is (enc_path (j # js)))) Src2 (length (enc_path (j # js)))"
  shows "\<exists>out s'. AppendDevicePath L Src1 Src2 s = Some (p, s') \<and>
    ram s' = overwrite (ram s1) p out \<and> n < length out \<and>
    bytes_at (ram s') p (enc_path ((hd is @ j) # js))"
proof -
  let ?out = "appended is (enc_path (j # js))"
  have ne: "is \<noteq> []" using assms(7) by auto
  have "AppendDevicePath L Src1 Src2 s = Some (p, with_ram s1 (overwrite (ram s1) p ?out))"
    by (rule AppendDevicePath_writes) (use assms in simp_all)
  moreover have "n < length ?out"
    unfolding assms(9) using assms(7,8) by (rule append_writes_more_than_allocated)
  moreover obtain rest where "?out = enc_nodes (hd is) @ enc_path (j # js) @ rest"
    using appended_first [OF ne] by blast
  then have "?out = enc_path ((hd is @ j) # js) @ rest" by (simp add: enc_path_append_nodes)
  then have "bytes_at (overwrite (ram s1) p ?out) p (enc_path ((hd is @ j) # js))"
    by (rule bytes_at_prefix [OF bytes_at_overwrite [OF assms(13)]])
  ultimately show ?thesis by (metis with_ram_simps(1))
qed

theorem AppendDevicePath_multi_overflows_witness:
  "let s = demo_mem (enc_path [[], []] @ enc_path [[(2, 1, [7, 7, 7, 7])]]) 100;
       s1 = snd (snd (demo_alloc 4 28 s)) in
   \<exists>out s'. AppendDevicePath demo_lib 1 9 s = Some (22, s') \<and>
    ram s' = overwrite (ram s1) 22 out \<and> 28 < length out \<and>
    bytes_at (ram s') 22 (enc_path [hd [[], []] @ [(2, 1, [7, 7, 7, 7])]])"
  unfolding Let_def
proof (rule AppendDevicePath_multi_overflows)
  let ?xs = "enc_path [[], []] @ enc_path [[(2, 1, [7, 7, 7, 7])]]"
  show "bytes_at (ram (demo_mem ?xs 100)) 1 (enc_path [[], []])"
    by (rule demo_mem_bytes [of _ "[]" _ "enc_path [[(2, 1, [7, 7, 7, 7])]]"]) simp_all
  show "bytes_at (ram (demo_mem ?xs 100)) 9 (enc_path [[(2, 1, [7, 7, 7, 7])]])"
    by (rule demo_mem_bytes [of _ "enc_path [[], []]" _ "[]"]) (simp_all add: enc_node_def)
  show "in_use (blocks_of (fw (demo_mem ?xs 100))) 1 (length (enc_path [[], []]))"
    by (rule demo_mem_in_use) simp_all
  show "in_use (blocks_of (fw (demo_mem ?xs 100))) 9 (length (enc_path [[(2, 1, [7, 7, 7, 7])]]))"
    by (rule demo_mem_in_use) (simp_all add: enc_node_def)
  show "AllocatePool demo_lib 28 (demo_mem ?xs 100) = (22, snd (snd (demo_alloc 4 28 (demo_mem ?xs 100))))"
    by code_simp
  show "same_on (blocks_of (fw (demo_mem ?xs 100))) (ram (demo_mem ?xs 100)) (ram (snd (snd (demo_alloc 4 28 (demo_mem ?xs 100)))))"
    by (simp add: demo_alloc_def Let_def)
qed (simp_all add: path_ok_def instance_ok_def node_ok_def enc_node_def appended_def append_bytes_def
    demo_alloc_def demo_mem_def Let_def mapped_def disjoint_ranges_def)

text \<open>C16. \<open>AppendDevicePathInstance\<close> builds the path with the instances of \<open>Src\<close> followed by those of
  \<open>Instance\<close>, in a fresh block of exactly the two sizes.\<close>

theorem AppendDevicePathInstance_appends:
  assumes "pool_ok (BS L) blocks"
    "bytes_at (ram s) Src (enc_path is)" "path_ok is" "in_use (blocks (fw s)) Src (length (enc_path is))"
    "bytes_at (ram s) Instance (enc_path js)" "path_ok js" "in_use (blocks (fw s)) Instance (length (enc_path js))"
    "AllocatePool L (length (enc_path is) + length (enc_path js)) s = (p, s1)" "p \<noteq> 0"
  shows "\<exists>s'. AppendDevicePathInstance L Src Instance s = Some (p, s') \<and>
    built blocks s p (length (enc_path is) + length (enc_path js)) (enc_path (is @ js)) s'"
  using assms by (rule AppendDevicePathInstance_eq)

theorem AppendDevicePathInstance_appends_witness:
  "let s = demo_mem (enc_path [[(1, 1, [3])]] @ enc_path [[(2, 1, [])]]) 100 in
   \<exists>s'. AppendDevicePathInstance demo_lib 1 10 s = Some (19, s') \<and>
    built blocks_of s 19 (length (enc_path [[(1, 1, [3])]]) + length (enc_path [[(2, 1, [])]]))
      (enc_path ([[(1, 1, [3])]] @ [[(2, 1, [])]])) s'"
  unfolding Let_def
proof (rule AppendDevicePathInstance_appends [OF demo_lib_pool])
  let ?xs = "enc_path [[(1, 1, [3])]] @ enc_path [[(2, 1, [])]]"
  show "bytes_at (ram (demo_mem ?xs 100)) 1 (enc_path [[(1, 1, [3])]])"
    by (rule demo_mem_bytes [of _ "[]" _ "enc_path [[(2, 1, [])]]"]) simp_all
  show "bytes_at (ram (demo_mem ?xs 100)) 10 (enc_path [[(2, 1, [])]])"
    by (rule demo_mem_bytes [of _ "enc_path [[(1, 1, [3])]]" _ "[]"]) (simp_all add: enc_node_def)
  show "in_use (blocks_of (fw (demo_mem ?xs 100))) 1 (length (enc_path [[(1, 1, [3])]]))"
    by (rule demo_mem_in_use) simp_all
  show "in_use (blocks_of (fw (demo_mem ?xs 100))) 10 (length (enc_path [[(2, 1, [])]]))"
    by (rule demo_mem_in_use) (simp_all add: enc_node_def)
  show "AllocatePool demo_lib (length (enc_path [[(1, 1, [3])]]) + length (enc_path [[(2, 1, [])]])) (demo_mem ?xs 100) =
      (19, snd (snd (demo_alloc 4 17 (demo_mem ?xs 100))))"
    by code_simp
qed (simp_all add: path_ok_def instance_ok_def node_ok_def)

text \<open>\<open>LibDuplicateDevicePathInstance\<close> puts the end node behind the first node of the copy, not
  behind the last: whatever follows the first node of the instance is lost.\<close>

theorem LibDuplicateDevicePathInstance_first_node:
  assumes "pool_ok (BS L) blocks"
    "bytes_at (ram s) DevPath (enc_path ((nd # ns) # is))" "path_ok ((nd # ns) # is)"
    "in_use (blocks (fw s)) DevPath (length (enc_path ((nd # ns) # is)))"
  shows "\<exists>p s'. LibDuplicateDevicePathInstance L DevPath s = Some (p, s') \<and>
    built blocks s p (length (enc_nodes (nd # ns)) + 4) (enc_path [[nd]]) s'"
  using assms by (rule LibDuplicateDevicePathInstance_eq)

theorem LibDuplicateDevicePathInstance_first_node_witness:
  "let s = demo_mem (enc_path [[(1, 1, [3]), (2, 1, [])]]) 100 in
   \<exists>p s'. LibDuplicateDevicePathInstance demo_lib 1 s = Some (p, s') \<and>
    built blocks_of s p (length (enc_nodes [(1, 1, [3]), (2, 1, [])]) + 4) (enc_path [[(1, 1, [3])]]) s'"
  unfolding Let_def
proof (rule LibDuplicateDevicePathInstance_first_node [OF demo_lib_pool])
  let ?xs = "enc_path [[(1, 1, [3]), (2, 1, [])]]"
  show "bytes_at (ram (demo_mem ?xs 100)) 1 ?xs" by (rule demo_mem_bytes [of _ "[]" _ "[]"]) simp_all
  show "in_use (blocks_of (fw (demo_mem ?xs 100))) 1 (length ?xs)" by (rule demo_mem_in_use) simp_all
qed (simp_all add: path_ok_def instance_ok_def node_ok_def)

text \<open>\<open>LibMatchDevicePaths\<close> compares without the end nodes: it answers whether the bytes at
  \<open>Single\<close> begin with the nodes of some instance of \<open>Multi\<close>, so a longer path matches too.\<close>

theorem LibMatchDevicePaths_prefix:
  assumes "bytes_at m Multi (enc_path is @ bs)" "path_ok is" "\<forall>i \<in> set is. mapped m Single (length (enc_nodes i))"
    "Single \<noteq> 0"
  shows "LibMatchDevicePaths m Multi Single =
    Some (list_ex (\<lambda>i. region m Single (length (enc_nodes i)) = enc_nodes i) is)"
proof -
  have "Multi \<noteq> 0" using bytes_at_mapped [OF assms(1)] by (auto simp: mapped_def)
  then show ?thesis using LibMatchDevicePaths_loop_eq [OF assms(1-3)] assms(4)
    by (simp add: LibMatchDevicePaths_def)
qed

theorem LibMatchDevicePaths_prefix_witness:
  "LibMatchDevicePaths ([0] @ enc_path [[(1, 1, [3])]] @ enc_path [[(1, 1, [3]), (2, 1, [])]]) 1 10 = Some True"
proof -
  let ?m = "[0] @ enc_path [[(1, 1, [3])]] @ enc_path [[(1, 1, [3]), (2, 1, [])]]"
  have "bytes_at ?m 1 (enc_path [[(1, 1, [3])]] @ [])" by code_simp
  moreover have "path_ok [[(1, 1, [3])]]" by (simp add: path_ok_def instance_ok_def node_ok_def)
  moreover have "mapped ?m 10 (length (enc_nodes [(1, 1, [3])]))" by code_simp
  ultimately have "LibMatchDevicePaths ?m 1 10 =
      Some (list_ex (\<lambda>i. region ?m 10 (length (enc_nodes i)) = enc_nodes i) [[(1, 1, [3])]])"
    by (intro LibMatchDevicePaths_prefix [of _ _ _ "[]"]) simp_all
  moreover have "region ?m 10 (length (enc_nodes [(1, 1, [3])])) = enc_nodes [(1, 1, [3])]" by code_simp
  ultimately show ?thesis by simp
qed

text \<open>C31. \<open>UnpackDevicePath\<close> of a path whose nodes have at most 65532 bytes returns what the pool answers to
  the request of the exact size of the unpacked path. Unless that is NULL, it is a fresh block with every
  node zero padded to a multiple of four bytes, its length updated and bit 7 of its type set.\<close>

theorem UnpackDevicePath_pads:
  assumes "pool_ok (BS L) blocks"
    "bytes_at (ram s) DevPath (enc_path is)" "path_ok is" "in_use (blocks (fw s)) DevPath (length (enc_path is))"
    "list_all (list_all unpackable) is"
  shows "\<exists>p s'. UnpackDevicePath L DevPath s = Some (p, s') \<and>
    p = fst (AllocatePool L (length (unpack_path is)) s) \<and>
    built blocks s p (length (unpack_path is)) (unpack_path is) s'"
  by (rule UnpackDevicePath_eq [OF assms])

theorem UnpackDevicePath_pads_witness:
  "let s = demo_mem (enc_path [[(1, 1, [3])]]) 100 in
   \<exists>s'. UnpackDevicePath demo_lib 1 s = Some (11, s') \<and>
    built blocks_of s 11 (length (unpack_path [[(1, 1, [3])]])) (unpack_path [[(1, 1, [3])]]) s' \<and>
    unpack_path [[(1, 1, [3])]] = [0x81, 1, 8, 0, 3, 0, 0, 0] @ [0xff, 0xff, 4, 0]"
proof -
  let ?xs = "enc_path [[(1, 1, [3])]]"
  have "bytes_at (ram (demo_mem ?xs 100)) 1 ?xs" by (rule demo_mem_bytes [of _ "[]" _ "[]"]) simp_all
  moreover have "in_use (blocks_of (fw (demo_mem ?xs 100))) 1 (length ?xs)" by (rule demo_mem_in_use) simp_all
  moreover have "path_ok [[(1, 1, [3])]]" "list_all (list_all unpackable) [[(1, 1, [3])]]"
    by (simp_all add: path_ok_def instance_ok_def node_ok_def unpackable_def)
  moreover have "unpack_path [[(1, 1, [3])]] = [0x81, 1, 8, 0, 3, 0, 0, 0] @ [0xff, 0xff, 4, 0]" by code_simp
  moreover have "fst (AllocatePool demo_lib (length (unpack_path [[(1, 1, [3])]])) (demo_mem ?xs 100)) = 11" by code_simp
  ultimately show ?thesis using UnpackDevicePath_pads [OF demo_lib_pool, of "demo_mem ?xs 100" 1 "[[(1, 1, [3])]]"]
    by (simp add: Let_def)
qed

end
