(* ===== verification/PrintFmt.thy ===== *)
theory PrintFmt
  imports StrLib Math64
begin

text \<open>
  lib/print.c: the conversions of numbers to text. They write CHAR16 text and its NUL to a buffer;
  here they return that text, without the NUL. The digits are first collected, lowest first, in the
  local array \<open>str\<close> of 30 or 40 characters: the functions below run out of that array (\<open>None\<close>)
  rather than out of digits. \<open>ValueToString\<close> uses the architecture's \<open>DivU64x32\<close>, its first argument;
  what it needs of it is the locale \<open>divider\<close> of Math64.
\<close>

subsection \<open>The code\<close>

definition Hex :: "u8 list" where
  "Hex = [48, 49, 50, 51, 52, 53, 54, 55, 56, 57, 65, 66, 67, 68, 69, 70]"

primrec ValueToHex_digits :: "nat \<Rightarrow> u64 \<Rightarrow> u8 list option" where
  "ValueToHex_digits 0 v = (if v = 0 then Some [] else None)"
| "ValueToHex_digits (Suc room) v =
     (if v = 0 then Some []
      else do {
        v' \<leftarrow> RShiftU64_x86_64 v 4;
        ds \<leftarrow> ValueToHex_digits room v';
        Some (Hex ! unat (v AND 0xf) # ds) })"

definition ValueToHex :: "u64 \<Rightarrow> u16 list option" where
  "ValueToHex v =
     (if v = 0 then Some [48]
      else do { str \<leftarrow> ValueToHex_digits 30 v; Some (map ucast (rev str)) })"

primrec ValueToString_digits ::
  "(u64 \<Rightarrow> 'u::len word \<Rightarrow> (u64 \<times> 'u word) option) \<Rightarrow> nat \<Rightarrow> u64 \<Rightarrow> u8 list option" where
  "ValueToString_digits DivU64x32 0 v = (if v = 0 then Some [] else None)"
| "ValueToString_digits DivU64x32 (Suc room) v =
     (if v = 0 then Some []
      else do {
        (v, r) \<leftarrow> DivU64x32 v 10;
        ds \<leftarrow> ValueToString_digits DivU64x32 room v;
        Some ((ucast r + 48) # ds) })"

text \<open>The loop that puts the digits, highest first, with a comma when the countdown ends.\<close>

fun ValueToString_put :: "nat \<Rightarrow> u8 list \<Rightarrow> u16 list" where
  "ValueToString_put c [] = []"
| "ValueToString_put c (d # ds) =
     (if c - 1 = 0 then [44, ucast d] @ ValueToString_put 3 ds
      else ucast d # ValueToString_put (c - 1) ds)"

definition ValueToString ::
  "(u64 \<Rightarrow> 'u::len word \<Rightarrow> (u64 \<times> 'u word) option) \<Rightarrow> bool \<Rightarrow> u64 \<Rightarrow> u16 list option" where
  "ValueToString DivU64x32 Comma v =
     (if v = 0 then Some [48]
      else
        let sign = (if v <s 0 then [45] else []);
            v = (if v <s 0 then - v else v)
        in do {
          str \<leftarrow> ValueToString_digits DivU64x32 40 v;
          let c = (if Comma then [3, 1, 2] ! (length str mod 3) else 999) + 1;
          Some (sign @ ValueToString_put c (rev str)) })"

subsection \<open>The digits of a number\<close>

fun digits_of :: "nat \<Rightarrow> nat \<Rightarrow> nat list" where
  "digits_of b n = (if b < 2 \<or> n = 0 then [] else digits_of b (n div b) @ [n mod b])"

declare digits_of.simps [simp del]

lemma digits_of_0 [simp]: "digits_of b 0 = []"
  by (simp add: digits_of.simps)

lemma digits_of_pos: "1 < b \<Longrightarrow> 0 < n \<Longrightarrow> digits_of b n = digits_of b (n div b) @ [n mod b]"
  by (subst digits_of.simps) simp

lemma digits_of_less: "d \<in> set (digits_of b n) \<Longrightarrow> d < b"
proof (induction b n rule: digits_of.induct)
  case (1 b n)
  show ?case
  proof (cases "b < 2 \<or> n = 0")
    case True
    then show ?thesis using "1.prems" by (simp add: digits_of.simps)
  next
    case False
    then show ?thesis using 1 by (auto simp: digits_of_pos)
  qed
qed

lemma digits_of_value: "1 < b \<Longrightarrow> foldl (\<lambda>n d. b * n + d) 0 (digits_of b n) = n"
proof (induction b n rule: digits_of.induct)
  case (1 b n)
  then show ?case by (cases "n = 0") (auto simp: digits_of_pos)
qed

lemma digits_of_leading: "1 < b \<Longrightarrow> 0 < n \<Longrightarrow> \<exists>d ds. digits_of b n = d # ds \<and> 0 < d"
proof (induction b n rule: digits_of.induct)
  case (1 b n)
  show ?case
  proof (cases "n div b = 0")
    case True
    then show ?thesis using 1 by (simp add: digits_of_pos div_eq_0_iff)
  next
    case False
    then obtain d ds where "digits_of b (n div b) = d # ds" "0 < d" using 1 by auto
    then show ?thesis using 1 by (simp add: digits_of_pos)
  qed
qed

lemma length_digits_of: "1 < b \<Longrightarrow> n < b ^ k \<Longrightarrow> length (digits_of b n) \<le> k"
proof (induction k arbitrary: n)
  case 0
  then show ?case by simp
next
  case (Suc k)
  show ?case
  proof (cases "n = 0")
    case False
    have "n div b < b ^ k" using Suc.prems by (simp add: div_less_iff_less_mult mult.commute)
    then show ?thesis using Suc False by (simp add: digits_of_pos)
  qed simp
qed

definition hex_char :: "nat \<Rightarrow> u16" where
  "hex_char d = word_of_nat (if d < 10 then 48 + d else 55 + d)"

definition dec_char :: "nat \<Rightarrow> u16" where
  "dec_char d = word_of_nat (48 + d)"

definition hex_text :: "nat \<Rightarrow> u16 list" where
  "hex_text n = (if n = 0 then [48] else map hex_char (digits_of 16 n))"

definition dec_text :: "nat \<Rightarrow> u16 list" where
  "dec_text n = (if n = 0 then [48] else map dec_char (digits_of 10 n))"

subsection \<open>Hexadecimal\<close>

lemma Hex_nth: "d < 16 \<Longrightarrow> ucast (Hex ! d) = hex_char d"
proof -
  assume "d < 16"
  then have "d \<in> {0, 1, 2, 3, 4, 5, 6, 7, 8, 9, 10, 11, 12, 13, 14, 15}"
    unfolding insert_iff empty_iff by arith
  then show ?thesis by (elim insertE) (simp_all add: Hex_def hex_char_def)
qed

lemma ValueToHex_digits_eq:
  "unat v < 16 ^ room \<Longrightarrow>
   \<exists>ds. ValueToHex_digits room v = Some ds \<and> map ucast (rev ds) = map hex_char (digits_of 16 (unat v))"
proof (induction room arbitrary: v)
  case 0
  then show ?case by (simp add: unat_eq_zero)
next
  case (Suc room)
  show ?case
  proof (cases "v = 0")
    case False
    have s: "RShiftU64_x86_64 v 4 = Some (drop_bit 4 v)" by (simp add: RShiftU64_x86_64_def)
    have d: "unat (drop_bit 4 v) = unat v div 16" by (simp add: drop_bit_eq_div unat_div)
    have m: "unat (v AND 0xf) = unat v mod 16"
    proof -
      have "v AND 0xf = take_bit 4 v" by (simp add: take_bit_eq_mask mask_eq_exp_minus_1)
      then have "unat (v AND 0xf) = take_bit 4 (unat v)" by (simp only: unsigned_take_bit_eq)
      then show ?thesis by (simp add: take_bit_eq_mod)
    qed
    have "unat (drop_bit 4 v) < 16 ^ room"
      using Suc.prems unfolding d by (simp add: div_less_iff_less_mult mult.commute)
    from Suc.IH [OF this] obtain ds where ds: "ValueToHex_digits room (drop_bit 4 v) = Some ds"
      "map ucast (rev ds) = map hex_char (digits_of 16 (unat v div 16))" unfolding d by blast
    have "0 < unat v" using False by (simp add: unat_gt_0)
    then show ?thesis using False s ds Hex_nth [of "unat v mod 16"]
      by (simp add: m digits_of_pos)
  qed simp
qed

lemma ValueToHex_eq: "ValueToHex v = Some (hex_text (unat v))"
proof (cases "v = 0")
  case True
  then show ?thesis by (simp add: ValueToHex_def hex_text_def)
next
  case False
  have "unat v < 16 ^ 30" using unat_bounds(4) [of v] by simp
  from ValueToHex_digits_eq [OF this] False show ?thesis
    by (auto simp: ValueToHex_def hex_text_def unat_eq_zero)
qed

subsection \<open>Decimal\<close>

context divider
begin

lemma ValueToString_digits_eq:
  assumes ten: "supported 10" "unat (10 :: 'u word) = 10"
  shows "unat v < 10 ^ room \<Longrightarrow>
    \<exists>ds. ValueToString_digits divide room v = Some ds \<and>
      map ucast (rev ds) = map dec_char (digits_of 10 (unat v)) \<and> length ds = length (digits_of 10 (unat v))"
proof (induction room arbitrary: v)
  case 0
  then show ?case by (simp add: unat_eq_zero)
next
  case (Suc room)
  show ?case
  proof (cases "v = 0")
    case False
    obtain q r where "divide v 10 = Some (q, r)" "unat q = unat v div unat (10 :: 'u word)"
      "unat r = unat v mod unat (10 :: 'u word)" using divide_ok [OF ten(1), of v] by metis
    then have qr: "divide v 10 = Some (q, r)" "unat q = unat v div 10" "unat r = unat v mod 10"
      by (simp_all only: ten(2))
    have "unat q < 10 ^ room" using Suc.prems qr(2) by (simp add: div_less_iff_less_mult mult.commute)
    from Suc.IH [OF this] obtain ds where ds: "ValueToString_digits divide room q = Some ds"
      "map ucast (rev ds) = map dec_char (digits_of 10 (unat v div 10))"
      "length ds = length (digits_of 10 (unat v div 10))" unfolding qr(2) by blast
    have "0 < unat v" using False by (simp add: unat_gt_0)
    moreover have "(ucast (ucast r + 48 :: u8) :: u16) = dec_char (unat v mod 10)"
    proof -
      have "unat v mod 10 < 10" by simp
      then have r: "unat r < 10" using qr(3) by simp
      have "unat (ucast r :: u8) = unat r" using r by (simp add: unsigned_ucast_eq take_bit_eq_mod)
      then have "unat (ucast r + 48 :: u8) = unat r + 48" using r by (simp add: unat_word_ariths)
      then have "unat (ucast (ucast r + 48 :: u8) :: u16) = unat (dec_char (unat v mod 10))"
        using qr(3) \<open>unat v mod 10 < 10\<close>
        by (simp add: unat_ucast_widen dec_char_def unat_word_of_nat del: of_nat_add)
      then show ?thesis by (simp add: unsigned_word_eqI)
    qed
    ultimately show ?thesis using False qr(1) ds by (simp add: digits_of_pos)
  qed simp
qed

end

text \<open>Groups of three digits, each behind a comma; the first group takes what is left over.\<close>

fun commas :: "u16 list \<Rightarrow> u16 list" where
  "commas [] = []"
| "commas (x # xs) = [44] @ take 3 (x # xs) @ commas (drop 3 (x # xs))"

declare commas.simps [simp del]

definition comma_text :: "u16 list \<Rightarrow> u16 list" where
  "comma_text s =
     (let k = (if length s mod 3 = 0 then 3 else length s mod 3) in take k s @ commas (drop k s))"

definition signed_text :: "bool \<Rightarrow> u64 \<Rightarrow> u16 list" where
  "signed_text Comma v =
     (let digits = dec_text (nat \<bar>sint v\<bar>)
      in (if sint v < 0 then [45] else []) @ (if Comma then comma_text digits else digits))"

lemma unat_abs_word:
  fixes v :: u64
  shows "unat (if v <s 0 then - v else v) = nat \<bar>sint v\<bar>"
proof -
  have range: "- (2 ^ 63) \<le> sint v" "sint v < 2 ^ 63" using sint_ge [of v] sint_lt [of v] by simp_all
  have small: "unat (word_of_int i :: u64) = nat i" if "0 \<le> i" "i < 2 ^ 64" for i
    using that by (simp add: unsigned_of_int take_bit_int_eq_self)
  have "v = word_of_int (sint v)" "- v = word_of_int (- sint v)" by simp_all
  then show ?thesis using range small [of "sint v"] small [of "- sint v"]
    by (auto simp: word_sless_alt)
qed

lemma ValueToString_put_group:
  "k \<le> 3 \<Longrightarrow> ValueToString_put (k + 1) ds = take k (map ucast ds) @ commas (drop k (map ucast ds))"
proof (induction "length ds" arbitrary: k ds rule: less_induct)
  case less
  show ?case
  proof (cases ds)
    case Nil
    then show ?thesis by (simp add: commas.simps)
  next
    case (Cons d ds')
    show ?thesis
    proof (cases k)
      case 0
      have "ValueToString_put (2 + 1) ds' = take 2 (map ucast ds') @ commas (drop 2 (map ucast ds'))"
        using less.hyps [of ds' 2] Cons by simp
      then show ?thesis using 0 Cons
        by (simp add: commas.simps(2) numeral_3_eq_3 numeral_2_eq_2)
    next
      case (Suc j)
      have "ValueToString_put (j + 1) ds' = take j (map ucast ds') @ commas (drop j (map ucast ds'))"
        using less.hyps [of ds' j] less.prems Cons Suc by simp
      then show ?thesis using Suc Cons by simp
    qed
  qed
qed

lemma ValueToString_put_plain: "length ds < c \<Longrightarrow> ValueToString_put c ds = map ucast ds"
  by (induction ds arbitrary: c) auto

lemma comma_text_removes: "44 \<notin> set s \<Longrightarrow> filter (\<lambda>c. c \<noteq> 44) (comma_text s) = s"
proof -
  have filter_id: "44 \<notin> set t \<Longrightarrow> filter (\<lambda>c. c \<noteq> 44) t = t" for t :: "u16 list"
    by (induction t) auto
  have groups: "44 \<notin> set t \<Longrightarrow> filter (\<lambda>c. c \<noteq> 44) (commas t) = t" for t
  proof (induction t rule: commas.induct)
    case (2 x xs)
    have "44 \<notin> set (take 3 (x # xs))" "44 \<notin> set (drop 3 (x # xs))"
      using 2(2) set_take_subset [of 3 "x # xs"] set_drop_subset [of 3 "x # xs"] by blast+
    then show ?case using 2(1) filter_id [of "take 3 (x # xs)"]
      by (simp add: commas.simps(2) del: take_Cons_numeral drop_Cons_numeral set_simps)
  qed (simp add: commas.simps)
  assume s: "44 \<notin> set s"
  have "44 \<notin> set (take k s)" "44 \<notin> set (drop k s)" for k
    using s by (auto dest: in_set_takeD in_set_dropD)
  then show ?thesis
    by (simp add: comma_text_def Let_def groups filter_id)
qed

context divider
begin

lemma ValueToString_eq:
  assumes ten: "supported 10" "unat (10 :: 'u word) = 10"
  shows "ValueToString divide Comma v = Some (signed_text Comma v)"
proof (cases "v = 0")
  case True
  then show ?thesis by (simp add: ValueToString_def signed_text_def dec_text_def comma_text_def commas.simps Let_def)
next
  case False
  define w where "w = (if v <s 0 then - v else v)"
  have w: "unat w = nat \<bar>sint v\<bar>" unfolding w_def by (rule unat_abs_word)
  have "unat w < 10 ^ 40" using unat_bounds(4) [of w] by simp
  from ValueToString_digits_eq [OF ten this] obtain ds where ds:
    "ValueToString_digits divide 40 w = Some ds" "map ucast (rev ds) = map dec_char (digits_of 10 (unat w))"
    "length ds = length (digits_of 10 (unat w))" by blast
  have "unat w < 10 ^ 20" using unat_bounds(4) [of w] by simp
  then have len: "length ds \<le> 20" unfolding ds(3) by (intro length_digits_of) simp_all
  have "w \<noteq> 0" using False by (simp add: w_def)
  then have digits: "dec_text (nat \<bar>sint v\<bar>) = map ucast (rev ds)"
    using ds(2) w by (metis dec_text_def unat_eq_zero)
  let ?k = "[3, 1, 2] ! (length ds mod 3)"
  have "length ds mod 3 = 0 \<or> length ds mod 3 = 1 \<or> length ds mod 3 = 2" by linarith
  then have k: "?k = (if length ds mod 3 = 0 then 3 else length ds mod 3)" "?k \<le> (3 :: nat)"
    by (elim disjE; simp)+
  have "ValueToString_put ((if Comma then ?k else 999) + 1) (rev ds) =
    (if Comma then comma_text (map ucast (rev ds)) else map ucast (rev ds))"
    using ValueToString_put_group [OF k(2), of "rev ds"] ValueToString_put_plain [of "rev ds" 1000] len k(1)
    by (simp add: comma_text_def Let_def del: add_2_eq_Suc')
  moreover have "v <s 0 \<longleftrightarrow> sint v < 0" by (simp add: word_sless_alt)
  ultimately show ?thesis using False ds(1) digits
    by (simp add: ValueToString_def signed_text_def Let_def w_def)
qed

end

text \<open>The decimal conversion with the division the library is built with.\<close>

lemma ValueToString_x86_64: "ValueToString DivU64x32_x86_64 Comma v = Some (signed_text Comma v)"
  by (rule div_x86_64.ValueToString_eq) simp_all

end
