(* ===== verification/Print.thy ===== *)
theory Print
  imports PrintFmt Pool
begin

text \<open>
  inc/internal/print.h and inc/internal/va_print.h: the formatted print engine.

  \<^item> \<open>PRINT_STATE\<close> is the record \<open>pstate\<close>: the position in the format, the remaining arguments, the
    buffered characters \<open>Buf\<close> (the array from \<open>Buffer\<close> to \<open>Pos\<close>), the count \<open>Len\<close>, the attributes,
    and \<open>Sink\<close>, the state the output routine works on. What a call of \<open>_Print\<close> never changes is the
    record \<open>pconfig\<close>.
  \<^item> \<open>PRINT_ITEM\<close> is the record \<open>pitem\<close>; the scratch buffer is the text it holds.
  \<^item> An argument list is the list of its 64-bit slots in the order of the call; a 32-bit argument is
    the low half of its slot. Reading behind the last argument is a fault.
  \<^item> The format, the strings among the arguments and what the conversions look at are read from memory when
    the engine comes to them: \<open>Mem\<close> gives the memory in the state the output routine works on, which holds
    what has been output so far.
  \<^item> \<open>last_char\<close> of \<open>PPUTC\<close> is read at \<open>Pos - 1\<close>, which after a flush is the halfword below the local
    array: \<open>Below\<close> stands for what is found there.
  \<^item> The conversions that are functions of their own (\<open>%D\<close>, \<open>%f\<close>, \<open>%g\<close>, \<open>%r\<close>, \<open>%t\<close>) are the record
    \<open>converters\<close>, since \<open>GuidToString\<close>, \<open>TimeToString\<close>, \<open>StatusToString\<close> and \<open>DevicePathToStr\<close>
    call the engine themselves.
\<close>

subsection \<open>Strings read character by character\<close>

datatype text_src = Wide addr | Ascii addr | Text "u16 list"

fun PGETC :: "mem \<Rightarrow> text_src \<Rightarrow> nat \<Rightarrow> u16 option" where
  "PGETC m (Wide p) i = rd16 m (p + 2 * i)"
| "PGETC m (Ascii p) i = map_option ucast (rd8 m (p + i))"
| "PGETC m (Text s) i = (if i < length s then Some (s ! i) else if i = length s then Some 0 else None)"

text \<open>How far a source can be read.\<close>

fun src_room :: "mem \<Rightarrow> text_src \<Rightarrow> nat" where
  "src_room m (Wide p) = length m"
| "src_room m (Ascii p) = length m"
| "src_room m (Text s) = Suc (length s)"

lemma PGETC_room: "PGETC m src i = Some c \<Longrightarrow> i < src_room m src"
  by (cases src) (auto simp: rd16_def rd_bytes_def rd8_def mapped_def split: if_splits)

subsection \<open>State\<close>

record 'x pstate =
  Idx :: nat
  Args :: "u64 list"
  Buf :: "u16 list"
  Len :: u64
  Attr :: u64
  RestoreAttr :: u64
  Sink :: 'x

record converters =
  conv_dpath :: "mem \<Rightarrow> u64 \<Rightarrow> u16 list option"
  conv_float :: "mem \<Rightarrow> bool \<Rightarrow> u64 \<Rightarrow> u16 list option"
  conv_guid :: "mem \<Rightarrow> u64 \<Rightarrow> u16 list option"
  conv_status :: "mem \<Rightarrow> u64 \<Rightarrow> u16 list option"
  conv_time :: "mem \<Rightarrow> u64 \<Rightarrow> u16 list option"

record 'x pconfig =
  Mem :: "'x \<Rightarrow> mem"
  fmt :: text_src
  AttrNorm :: u64
  AttrHighlight :: u64
  AttrError :: u64
  Output :: "u16 list \<Rightarrow> 'x \<Rightarrow> 'x option"
  SetAttr :: "(u64 \<Rightarrow> 'x \<Rightarrow> 'x) option"
  Below :: u16
  Convert :: converters

record pitem =
  Item :: "text_src option"
  Width :: u64
  FieldWidth :: u64
  WidthParse_field :: bool
  Pad :: u16
  PadBefore :: bool
  Comma :: bool
  Long :: bool

definition PRINT_STRING_LEN :: nat where
  "PRINT_STRING_LEN = 200"

definition PRINT_ITEM_BUFFER_LEN :: nat where
  "PRINT_ITEM_BUFFER_LEN = 100"

subsection \<open>Output\<close>

definition PFLUSH :: "'x pconfig \<Rightarrow> 'x pstate \<Rightarrow> 'x pstate option" where
  "PFLUSH cfg ps = do { x \<leftarrow> Output cfg (Buf ps) (Sink ps); Some (ps\<lparr>Buf := [], Sink := x\<rparr>) }"

definition PSETATTR :: "'x pconfig \<Rightarrow> u64 \<Rightarrow> 'x pstate \<Rightarrow> 'x pstate option" where
  "PSETATTR cfg a ps = do {
     ps \<leftarrow> PFLUSH cfg ps;
     let ps = ps\<lparr>RestoreAttr := Attr ps\<rparr>;
     let ps = (case SetAttr cfg of Some f \<Rightarrow> ps\<lparr>Sink := f a (Sink ps)\<rparr> | None \<Rightarrow> ps);
     Some (ps\<lparr>Attr := a\<rparr>) }"

definition PPUTC_store :: "'x pconfig \<Rightarrow> u16 \<Rightarrow> 'x pstate \<Rightarrow> 'x pstate option" where
  "PPUTC_store cfg c ps =
     (let ps = ps\<lparr>Buf := Buf ps @ [c], Len := Len ps + 1\<rparr>
      in if PRINT_STRING_LEN - 1 \<le> length (Buf ps) then PFLUSH cfg ps else Some ps)"

definition last_char :: "'x pconfig \<Rightarrow> 'x pstate \<Rightarrow> u16" where
  "last_char cfg ps =
     (if 0 < Len ps then if Buf ps = [] then Below cfg else last (Buf ps) else 0)"

definition PPUTC :: "'x pconfig \<Rightarrow> u16 \<Rightarrow> 'x pstate \<Rightarrow> 'x pstate option" where
  "PPUTC cfg c ps = do {
     ps \<leftarrow> (if c = 10 \<and> last_char cfg ps \<noteq> 13 then PPUTC_store cfg 13 ps else Some ps);
     PPUTC_store cfg c ps }"

primrec PPUTC_times :: "'x pconfig \<Rightarrow> u16 \<Rightarrow> nat \<Rightarrow> 'x pstate \<Rightarrow> 'x pstate option" where
  "PPUTC_times cfg c 0 ps = Some ps"
| "PPUTC_times cfg c (Suc n) ps = do { ps \<leftarrow> PPUTC cfg c ps; PPUTC_times cfg c n ps }"

text \<open>The item is put character by character.\<close>

primrec PPUTC_item :: "'x pconfig \<Rightarrow> text_src \<Rightarrow> nat \<Rightarrow> nat \<Rightarrow> 'x pstate \<Rightarrow> 'x pstate option" where
  "PPUTC_item cfg src i 0 ps = Some ps"
| "PPUTC_item cfg src i (Suc n) ps = do {
     c \<leftarrow> PGETC (Mem cfg (Sink ps)) src i;
     ps \<leftarrow> PPUTC cfg c ps;
     PPUTC_item cfg src (i + 1) n ps }"

text \<open>The length of the item: up to its NUL, at most the field width.\<close>

function PITEM_Len :: "mem \<Rightarrow> text_src \<Rightarrow> u64 \<Rightarrow> nat \<Rightarrow> nat option" where
  "PITEM_Len m src width i =
     (if i < unat width then do {
        c \<leftarrow> PGETC m src i;
        if c = 0 then Some i else PITEM_Len m src width (i + 1) }
      else Some i)"
  by auto
termination by (relation "measure (\<lambda>(m, src, width, i). unat width - i)") auto

declare PITEM_Len.simps [simp del]

definition PITEM :: "'x pconfig \<Rightarrow> pitem \<Rightarrow> 'x pstate \<Rightarrow> 'x pstate option" where
  "PITEM cfg it ps = do {
     src \<leftarrow> Item it;
     n \<leftarrow> PITEM_Len (Mem cfg (Sink ps)) src (FieldWidth it) 0;
     let field = (if FieldWidth it = - 1 then n else unat (FieldWidth it));
     let width = (if unat (Width it) < n then n else unat (Width it));
     ps \<leftarrow> (if PadBefore it then PPUTC_times cfg 32 (field - width) ps else Some ps);
     ps \<leftarrow> PPUTC_times cfg (Pad it) (width - n) ps;
     ps \<leftarrow> PPUTC_item cfg src 0 n ps;
     if \<not> PadBefore it then PPUTC_times cfg 32 (field - width) ps else Some ps }"

subsection \<open>Arguments\<close>

definition VA_ARG :: "'x pstate \<Rightarrow> (u64 \<times> 'x pstate) option" where
  "VA_ARG ps = (case Args ps of [] \<Rightarrow> None | a # as \<Rightarrow> Some (a, ps\<lparr>Args := as\<rparr>))"

text \<open>\<open>Item.Long ? VA_ARG(INT64) : VA_ARG(INT32)\<close>, and the same with unsigned types.\<close>

definition VA_ARG_signed :: "bool \<Rightarrow> 'x pstate \<Rightarrow> (u64 \<times> 'x pstate) option" where
  "VA_ARG_signed long ps = do {
     (a, ps) \<leftarrow> VA_ARG ps;
     Some (if long then a else scast (ucast a :: u32), ps) }"

definition VA_ARG_unsigned :: "bool \<Rightarrow> 'x pstate \<Rightarrow> (u64 \<times> 'x pstate) option" where
  "VA_ARG_unsigned long ps = do {
     (a, ps) \<leftarrow> VA_ARG ps;
     Some (if long then a else ucast (ucast a :: u32), ps) }"

subsection \<open>Directives\<close>

definition set_width :: "u64 \<Rightarrow> pitem \<Rightarrow> pitem" where
  "set_width w it = (if WidthParse_field it then it\<lparr>FieldWidth := w\<rparr> else it\<lparr>Width := w\<rparr>)"

definition with_item :: "text_src \<Rightarrow> pitem \<Rightarrow> pitem" where
  "with_item src it = it\<lparr>Item := Some src\<rparr>"

text \<open>
  The digits of a width. \<open>i\<close> is the position behind the digit \<open>c\<close>; the position that is returned is
  that of the first character that is not a digit.
\<close>

function Print_digits :: "mem \<Rightarrow> text_src \<Rightarrow> u64 \<Rightarrow> u16 \<Rightarrow> nat \<Rightarrow> (u64 \<times> nat) option" where
  "Print_digits m src w c i = do {
     let w = w * 10 + ucast c - 48;
     c \<leftarrow> PGETC m src i;
     if 48 \<le> c \<and> c \<le> 57 then Print_digits m src w c (i + 1) else Some (w, i) }"
  by auto
termination by (relation "measure (\<lambda>(m, src, w, c, i). src_room m src - i)") (auto dest: PGETC_room)

declare Print_digits.simps [simp del]

text \<open>The string of a literal, and \<open>(null)\<close> for a null argument.\<close>

abbreviation ch :: "char \<Rightarrow> u16" where
  "ch c \<equiv> of_char c"

definition text16 :: "string \<Rightarrow> u16 list" where
  "text16 s = map of_char s"

definition str_arg :: "(addr \<Rightarrow> text_src) \<Rightarrow> u64 \<Rightarrow> text_src" where
  "str_arg mk a = (if a = 0 then Text (text16 ''(null)'') else mk (unat a))"

text \<open>
  The \<open>switch\<close> on the character \<open>c\<close> of a directive, in the order of its cases; \<open>a\<close> is the local
  \<open>Attr\<close>. \<open>%X\<close> sets a width and falls through to \<open>%x\<close>. The width \<open>%p\<close> sets is the value of
  \<open>sizeof(void *) == (8 ? 16 : 8) + 2\<close>.
\<close>

definition Print_hex :: "pitem \<Rightarrow> u16 list \<Rightarrow> 'x pstate \<Rightarrow> (pitem \<times> 'x pstate) option" where
  "Print_hex it prefix ps = do {
     (v, ps) \<leftarrow> VA_ARG_unsigned (Long it) ps;
     s \<leftarrow> ValueToHex v;
     Some (with_item (Text (prefix @ s)) it, ps) }"

definition Print_dec :: "pitem \<Rightarrow> (u64 \<times> 'x pstate) option \<Rightarrow> (pitem \<times> 'x pstate) option" where
  "Print_dec it arg = do {
     (v, ps) \<leftarrow> arg;
     s \<leftarrow> ValueToString DivU64x32_x86_64 (Comma it) v;
     Some (with_item (Text s) it, ps) }"

definition Print_conv ::
  "pitem \<Rightarrow> (u64 \<Rightarrow> u16 list option) \<Rightarrow> 'x pstate \<Rightarrow> (pitem \<times> 'x pstate) option" where
  "Print_conv it conv ps = do {
     (v, ps) \<leftarrow> VA_ARG ps;
     s \<leftarrow> conv v;
     Some (with_item (Text s) it, ps) }"

definition Print_item ::
  "'x pconfig \<Rightarrow> u16 \<Rightarrow> pitem \<Rightarrow> 'x pstate \<Rightarrow> (pitem \<times> 'x pstate) option" where
  "Print_item cfg c it ps =
    (let C = Convert cfg; m = Mem cfg (Sink ps) in
     if c = ch CHR ''%'' then Some (with_item (Text [ch CHR ''%'']) it, ps)
     else if c = ch CHR '','' then Some (it\<lparr>Comma := True\<rparr>, ps)
     else if c = ch CHR ''-'' then Some (it\<lparr>PadBefore := False\<rparr>, ps)
     else if c = ch CHR ''*'' then do { (v, ps) \<leftarrow> VA_ARG ps; Some (set_width v it, ps) }
     else if c = ch CHR ''.'' then Some (it\<lparr>WidthParse_field := True\<rparr>, ps)
     else if c = ch CHR ''0'' then Some (it\<lparr>Pad := ch CHR ''0''\<rparr>, ps)
     else if ch CHR ''1'' \<le> c \<and> c \<le> ch CHR ''9'' then do {
       (w, i) \<leftarrow> Print_digits m (fmt cfg) 0 c (Idx ps);
       Some (set_width w it, ps\<lparr>Idx := i\<rparr>) }
     else if c = ch CHR ''a'' then do {
       (v, ps) \<leftarrow> VA_ARG ps; Some (with_item (str_arg Ascii v) it, ps) }
     else if c = ch CHR ''c'' then do {
       (v, ps) \<leftarrow> VA_ARG ps;
       Some (with_item (Text [ucast v]) it, ps) }
     else if c = ch CHR ''D'' then
       Print_conv it (\<lambda>v. map_option (take (PRINT_ITEM_BUFFER_LEN - 1)) (conv_dpath C m v)) ps
     else if c = ch CHR ''d'' then Print_dec it (VA_ARG_signed (Long it) ps)
     else if c = ch CHR ''f'' then Print_conv it (conv_float C m (Comma it)) ps
     else if c = ch CHR ''g'' then Print_conv it (conv_guid C m) ps
     else if c = ch CHR ''l'' then Some (it\<lparr>Long := True\<rparr>, ps)
     else if c = ch CHR ''p'' then
       Print_hex (it\<lparr>Width := of_bool ((8 :: nat) = 16 + 2), Pad := ch CHR ''0''\<rparr>) (text16 ''0x'') ps
     else if c = ch CHR ''r'' then Print_conv it (conv_status C m) ps
     else if c = ch CHR ''s'' then do {
       (v, ps) \<leftarrow> VA_ARG ps; Some (with_item (str_arg Wide v) it, ps) }
     else if c = ch CHR ''t'' then Print_conv it (conv_time C m) ps
     else if c = ch CHR ''u'' then Print_dec it (VA_ARG_unsigned (Long it) ps)
     else if c = ch CHR ''X'' then
       Print_hex (it\<lparr>Width := (if Long it then 16 else 8), Pad := ch CHR ''0''\<rparr>) [] ps
     else if c = ch CHR ''x'' then Print_hex it [] ps
     else Some (with_item (Text [ch CHR ''?'']) it, ps))"

definition Print_directive ::
  "'x pconfig \<Rightarrow> u16 \<Rightarrow> pitem \<Rightarrow> u64 \<Rightarrow> 'x pstate \<Rightarrow> (pitem \<times> u64 \<times> 'x pstate) option" where
  "Print_directive cfg c it a ps =
    (if c = ch CHR ''E'' then Some (it, AttrError cfg, ps)
     else if c = ch CHR ''e'' then do { ps \<leftarrow> PSETATTR cfg (AttrError cfg) ps; Some (it, a, ps) }
     else if c = ch CHR ''H'' then Some (it, AttrHighlight cfg, ps)
     else if c = ch CHR ''h'' then do { ps \<leftarrow> PSETATTR cfg (AttrHighlight cfg) ps; Some (it, a, ps) }
     else if c = ch CHR ''N'' then Some (it, AttrNorm cfg, ps)
     else if c = ch CHR ''n'' then do { ps \<leftarrow> PSETATTR cfg (AttrNorm cfg) ps; Some (it, a, ps) }
     else do { (it, ps) \<leftarrow> Print_item cfg c it ps; Some (it, a, ps) })"

subsection \<open>The loops of \<open>_Print\<close>\<close>

definition new_item :: pitem where
  "new_item = \<lparr>Item = None, Width = 0, FieldWidth = - 1, WidthParse_field = False, Pad = ch CHR '' '',
     PadBefore = True, Comma = False, Long = False\<rparr>"

text \<open>
  The loop over the characters of one directive; it ends at the item, an attribute, or the NUL. Both loops
  end when they read a NUL from the format, which output may have moved: they are partial.
\<close>

partial_function (option) Print_directives ::
  "'x pconfig \<Rightarrow> pitem \<Rightarrow> u64 \<Rightarrow> 'x pstate \<Rightarrow> 'x pstate option" where
  "Print_directives cfg it a ps = do {
     c \<leftarrow> PGETC (Mem cfg (Sink ps)) (fmt cfg) (Idx ps);
     let ps = ps\<lparr>Idx := Idx ps + 1\<rparr>;
     if c = 0 then Some ps
     else do {
       (it, a, ps) \<leftarrow> Print_directive cfg c it a ps;
       if Item it \<noteq> None then PITEM cfg it ps
       else if a \<noteq> 0 then do { ps \<leftarrow> PSETATTR cfg a ps; Some (ps\<lparr>RestoreAttr := 0\<rparr>) }
       else Print_directives cfg it a ps } }"

partial_function (option) Print_loop :: "'x pconfig \<Rightarrow> 'x pstate \<Rightarrow> 'x pstate option" where
  "Print_loop cfg ps = do {
     c \<leftarrow> PGETC (Mem cfg (Sink ps)) (fmt cfg) (Idx ps);
     let ps = ps\<lparr>Idx := Idx ps + 1\<rparr>;
     if c = 0 then Some ps
     else if c \<noteq> ch CHR ''%'' then do { ps \<leftarrow> PPUTC cfg c ps; Print_loop cfg ps }
     else do {
       ps \<leftarrow> Print_directives cfg new_item 0 (ps\<lparr>RestoreAttr := 0\<rparr>);
       ps \<leftarrow> (if RestoreAttr ps \<noteq> 0 then PSETATTR cfg (RestoreAttr ps) ps else Some ps);
       Print_loop cfg ps } }"

text \<open>\<open>_Print\<close>: the number of characters and the final state.\<close>

definition Print_1 :: "'x pconfig \<Rightarrow> 'x pstate \<Rightarrow> (u64 \<times> 'x pstate) option" where
  "Print_1 cfg ps = do {
     ps \<leftarrow> Print_loop cfg (ps\<lparr>Len := 0, Buf := [], Idx := 0\<rparr>);
     ps \<leftarrow> PFLUSH cfg ps;
     Some (Len ps, ps) }"

end
