(* ===== verification/PrintSpec.thy ===== *)
theory PrintSpec
  imports Print
begin

text \<open>
  What the print engine promises, independently of how it scans the format.

  \<^item> A format is the list of its pieces (\<open>piece\<close>): literal characters, attribute changes, and
    directives with flags, widths and a conversion; \<open>unparse\<close> writes it down as the string a C
    program holds. \<open>render\<close> gives the text of the pieces for a list of arguments.
  \<^item> \<open>text_sink\<close> is the interface between the engine and its output routine: the routine accepts a
    string and has then been given that text behind the text it had before. The lemma \<open>Print_renders\<close>
    proved in the locale says that the engine gives it exactly the rendered text, with a carriage
    return in front of every newline, and returns its length.
\<close>

subsection \<open>Text of an item\<close>

definition clean :: "u16 list \<Rightarrow> bool" where
  "clean s \<longleftrightarrow> 0 \<notin> set s \<and> 13 \<notin> set s"

definition item_text :: "pitem \<Rightarrow> u16 list \<Rightarrow> u16 list" where
  "item_text it s =
     (let n = min (length s) (unat (FieldWidth it));
          field = (if FieldWidth it = - 1 then n else unat (FieldWidth it));
          width = max n (unat (Width it));
          pad = replicate (field - width) 32
      in (if PadBefore it then pad else []) @ replicate (width - n) (Pad it) @ take n s @
         (if PadBefore it then [] else pad))"

definition crlf :: "u16 \<Rightarrow> u16 list" where
  "crlf c = (if c = 10 then [13, 10] else [c])"

definition with_cr :: "u16 list \<Rightarrow> u16 list" where
  "with_cr s = concat (map crlf s)"

lemma with_cr_simps [simp]:
  "with_cr [] = []" "with_cr (c # s) = crlf c @ with_cr s" "with_cr (s @ t) = with_cr s @ with_cr t"
  by (simp_all add: with_cr_def)

lemma clean_simps [simp]:
  "clean []" "clean (c # s) \<longleftrightarrow> c \<noteq> 0 \<and> c \<noteq> 13 \<and> clean s" "clean (s @ t) \<longleftrightarrow> clean s \<and> clean t"
  by (auto simp: clean_def)

text \<open>A source holds the string \<open>s\<close> when it gives its characters and then a NUL.\<close>

primrec src_at :: "mem \<Rightarrow> text_src \<Rightarrow> nat \<Rightarrow> u16 list \<Rightarrow> bool" where
  "src_at m src i [] \<longleftrightarrow> True"
| "src_at m src i (c # cs) \<longleftrightarrow> PGETC m src i = Some c \<and> src_at m src (i + 1) cs"

definition src_text :: "mem \<Rightarrow> text_src \<Rightarrow> u16 list \<Rightarrow> bool" where
  "src_text m src s \<longleftrightarrow> 0 \<notin> set s \<and> src_at m src 0 (s @ [0])"

lemma src_at_append: "src_at m src i (s @ t) \<longleftrightarrow> src_at m src i s \<and> src_at m src (i + length s) t"
  by (induction s arbitrary: i) (auto simp: add.assoc)

lemma src_at_Text: "0 \<notin> set s \<Longrightarrow> src_at m (Text (p @ s @ q)) (length p) s"
proof (induction s arbitrary: p)
  case (Cons c s)
  then show ?case using Cons.IH [of "p @ [c]"] by (simp add: nth_append)
qed simp

lemma src_text_Text: "0 \<notin> set s \<Longrightarrow> src_text m (Text s) s"
  using src_at_Text [of s m "[]" "[]"] by (simp add: src_text_def src_at_append)

lemma src_text_Text_0: "src_text m (Text [0]) []"
  by (simp add: src_text_def)

lemma src_text_Wide: "str16_at m p s \<Longrightarrow> src_text m (Wide p) s"
proof -
  have at: "str16_at m (p + 2 * i) s \<Longrightarrow> src_at m (Wide p) i (s @ [0])" for i
  proof (induction s arbitrary: i)
    case (Cons c s)
    then show ?case using Cons.IH [of "Suc i"] by (simp add: algebra_simps)
  qed simp
  have "str16_at m p s \<Longrightarrow> 0 \<notin> set s"
    by (induction s arbitrary: p) auto
  then show "str16_at m p s \<Longrightarrow> ?thesis" using at [of 0] by (simp add: src_text_def)
qed

lemma src_text_Ascii: "str8_at m p s \<Longrightarrow> src_text m (Ascii p) (map ucast s)"
proof -
  have at: "str8_at m (p + i) s \<Longrightarrow> src_at m (Ascii p) i (map ucast s @ [0])" for i
  proof (induction s arbitrary: i)
    case (Cons c s)
    then show ?case using Cons.IH [of "Suc i"] by (simp add: algebra_simps)
  qed simp
  have zero: "(ucast c :: u16) = 0 \<longleftrightarrow> c = 0" for c :: u8
    using unat_ucast_widen(1) [of c] by (metis unat_eq_zero)
  have "str8_at m p s \<Longrightarrow> 0 \<notin> set (map ucast s :: u16 list)"
    by (induction s arbitrary: p) (auto simp: zero eq_commute [of 0])
  then show "str8_at m p s \<Longrightarrow> ?thesis" using at [of 0] by (simp add: src_text_def)
qed

lemma PITEM_Len_src:
  "0 \<notin> set s \<Longrightarrow> src_at m src i (s @ [0]) \<Longrightarrow>
   PITEM_Len m src w i = Some (if i < unat w then min (i + length s) (unat w) else i)"
proof (induction s arbitrary: i)
  case Nil
  then show ?case by (subst PITEM_Len.simps) auto
next
  case (Cons c s)
  then show ?case by (cases s; subst PITEM_Len.simps) (auto simp: min_def)
qed

subsection \<open>The interface of an output routine\<close>

text \<open>
  \<open>given d t x\<close>: the routine has been given the text \<open>t\<close> in all, and \<open>d\<close> says whether it has been
  called at all. \<open>fits\<close> bounds the text it can take. The assumptions are what the engine relies
  on; attribute changes must not disturb the text. \<open>memory x\<close> is the memory in the state \<open>x\<close>, from which
  the format and the arguments are read, and \<open>kept\<close> says of it what output leaves as it is.
\<close>

locale text_sink =
  fixes Output :: "u16 list \<Rightarrow> 'x \<Rightarrow> 'x option"
    and SetAttr :: "(u64 \<Rightarrow> 'x \<Rightarrow> 'x) option"
    and given :: "bool \<Rightarrow> u16 list \<Rightarrow> 'x \<Rightarrow> bool"
    and fits :: "u16 list \<Rightarrow> bool"
    and memory :: "'x \<Rightarrow> mem"
    and kept :: "mem \<Rightarrow> bool"
  assumes output_gives: "given d t x \<Longrightarrow> 0 \<notin> set b \<Longrightarrow> fits (t @ b) \<Longrightarrow>
      \<exists>x'. Output b x = Some x' \<and> given True (t @ b) x'"
    and setattr_keeps: "SetAttr = Some f \<Longrightarrow> given d t x \<Longrightarrow> given d t (f a x)"
    and fits_prefix: "fits (t @ b) \<Longrightarrow> fits t"
    and given_kept: "given d t x \<Longrightarrow> kept (memory x)"
begin

definition sink_of :: "'x pconfig \<Rightarrow> bool" where
  "sink_of cfg \<longleftrightarrow> pconfig.Output cfg = Output \<and> pconfig.SetAttr cfg = SetAttr \<and>
     Mem cfg = memory \<and> Below cfg \<noteq> 13"

definition printed :: "u16 list \<Rightarrow> 'x pstate \<Rightarrow> bool" where
  "printed t ps \<longleftrightarrow>
     (\<exists>u d. t = u @ Buf ps \<and> given d u (Sink ps)) \<and> 0 \<notin> set (Buf ps) \<and>
     (t = [] \<or> last t \<noteq> 13) \<and> Len ps = word_of_nat (length t)"

lemma printed_kept: "sink_of cfg \<Longrightarrow> printed t ps \<Longrightarrow> kept (Mem cfg (Sink ps))"
  using given_kept by (auto simp: printed_def sink_of_def)

definition step_to :: "'x pstate option \<Rightarrow> u16 list \<Rightarrow> 'x pstate \<Rightarrow> bool" where
  "step_to r t ps \<longleftrightarrow>
     (\<exists>ps'. r = Some ps' \<and> printed t ps' \<and> Idx ps' = Idx ps \<and> Args ps' = Args ps)"

lemma PFLUSH_gives:
  assumes "sink_of cfg" "t = u @ Buf ps" "given d u (Sink ps)" "0 \<notin> set (Buf ps)" "fits t"
  shows "\<exists>x. PFLUSH cfg ps = Some (ps\<lparr>Buf := [], Sink := x\<rparr>) \<and> given True t x"
  using output_gives [OF assms(3,4)] assms(1,2,5) by (auto simp: PFLUSH_def sink_of_def)

lemma PFLUSH_prints:
  assumes "sink_of cfg" "printed t ps" "fits t"
  shows "\<exists>x. PFLUSH cfg ps = Some (ps\<lparr>Buf := [], Sink := x\<rparr>) \<and> given True t x \<and>
     printed t (ps\<lparr>Buf := [], Sink := x\<rparr>)"
proof -
  from assms(2) obtain u d where "t = u @ Buf ps" "given d u (Sink ps)" "0 \<notin> set (Buf ps)"
    unfolding printed_def by blast
  from PFLUSH_gives [OF assms(1) this assms(3)] obtain x where
    "PFLUSH cfg ps = Some (ps\<lparr>Buf := [], Sink := x\<rparr>)" "given True t x" by blast
  then show ?thesis using assms(2) by (auto simp: printed_def)
qed

lemma PSETATTR_prints:
  assumes "sink_of cfg" "printed t ps" "fits t"
  shows "step_to (PSETATTR cfg a ps) t ps"
proof -
  from PFLUSH_prints [OF assms] obtain x where x:
    "PFLUSH cfg ps = Some (ps\<lparr>Buf := [], Sink := x\<rparr>)" "given True t x"
    "printed t (ps\<lparr>Buf := [], Sink := x\<rparr>)" by blast
  have set: "pconfig.SetAttr cfg = SetAttr" using assms(1) by (simp add: sink_of_def)
  let ?qs = "ps\<lparr>Buf := [], Sink := (case SetAttr of Some f \<Rightarrow> f a x | None \<Rightarrow> x),
      RestoreAttr := Attr ps, Attr := a\<rparr>"
  have "PSETATTR cfg a ps = Some ?qs"
    using x(1) set by (simp add: PSETATTR_def split: option.split)
  moreover have "given True t (Sink ?qs)"
    using x(2) setattr_keeps by (simp split: option.split)
  then have "printed t ?qs" using x(3) by (auto simp: printed_def)
  ultimately show ?thesis by (simp add: step_to_def)
qed

lemma PPUTC_store_prints:
  assumes "sink_of cfg" "fits (t @ [c])" "c \<noteq> 0"
    and ps: "t = u @ Buf ps" "given d u (Sink ps)" "0 \<notin> set (Buf ps)" "Len ps = word_of_nat (length t)"
  obtains qs u' d' where "PPUTC_store cfg c ps = Some qs" "t @ [c] = u' @ Buf qs" "given d' u' (Sink qs)"
    "0 \<notin> set (Buf qs)" "Len qs = word_of_nat (length (t @ [c]))" "Idx qs = Idx ps" "Args qs = Args ps"
proof -
  let ?rs = "ps\<lparr>Buf := Buf ps @ [c], Len := Len ps + 1\<rparr>"
  show thesis
  proof (cases "PRINT_STRING_LEN - 1 \<le> length (Buf ?rs)")
    case True
    have "\<exists>x. PFLUSH cfg ?rs = Some (?rs\<lparr>Buf := [], Sink := x\<rparr>) \<and> given True (t @ [c]) x"
      using assms by (intro PFLUSH_gives) auto
    then obtain x where "PFLUSH cfg ?rs = Some (?rs\<lparr>Buf := [], Sink := x\<rparr>)" "given True (t @ [c]) x"
      by blast
    then show thesis using True ps(4)
      by (intro that [of "?rs\<lparr>Buf := [], Sink := x\<rparr>" "t @ [c]" True])
        (simp_all add: PPUTC_store_def add.commute)
  next
    case False
    then show thesis using ps assms(3)
      by (intro that [of ?rs u d]) (auto simp: PPUTC_store_def add.commute)
  qed
qed

lemma printed_snoc:
  assumes "t @ [c] = u @ Buf qs" "given d u (Sink qs)" "0 \<notin> set (Buf qs)"
    "Len qs = word_of_nat (length (t @ [c]))" "c \<noteq> 13"
  shows "printed (t @ [c]) qs"
  unfolding printed_def
proof (intro conjI)
  show "\<exists>u d. t @ [c] = u @ Buf qs \<and> given d u (Sink qs)" using assms(1,2) by blast
  show "t @ [c] = [] \<or> last (t @ [c]) \<noteq> 13" using assms(5) by simp
qed (rule assms(3), rule assms(4))

lemma PPUTC_prints:
  assumes cfg: "sink_of cfg" and ps: "printed t ps" and c: "c \<noteq> 0" "c \<noteq> 13" and fits: "fits (t @ crlf c)"
  shows "step_to (PPUTC cfg c ps) (t @ crlf c) ps"
proof -
  from ps obtain u d where u: "t = u @ Buf ps" "given d u (Sink ps)" "0 \<notin> set (Buf ps)"
    "Len ps = word_of_nat (length t)" "t = [] \<or> last t \<noteq> 13" unfolding printed_def by blast
  show ?thesis
  proof (cases "c = 10")
    case True
    have "last_char cfg ps \<noteq> 13"
      using u(1,4,5) cfg by (auto simp: last_char_def sink_of_def)
    have f: "fits (t @ [13])" "fits ((t @ [13]) @ [10])"
      using fits True fits_prefix [of "t @ [13]" "[10]"] by (simp_all add: crlf_def)
    obtain qs u' d' where qs: "PPUTC_store cfg 13 ps = Some qs" "t @ [13] = u' @ Buf qs" "given d' u' (Sink qs)"
      "0 \<notin> set (Buf qs)" "Len qs = word_of_nat (length (t @ [13]))" "Idx qs = Idx ps" "Args qs = Args ps"
      by (rule PPUTC_store_prints [OF cfg f(1) _ u(1-4)]) auto
    obtain rs u2 d2 where rs: "PPUTC_store cfg 10 qs = Some rs" "(t @ [13]) @ [10] = u2 @ Buf rs"
      "given d2 u2 (Sink rs)" "0 \<notin> set (Buf rs)" "Len rs = word_of_nat (length ((t @ [13]) @ [10]))"
      "Idx rs = Idx qs" "Args rs = Args qs"
      by (rule PPUTC_store_prints [OF cfg f(2) _ qs(2-5)]) auto
    have "PPUTC cfg c ps = Some rs" using True \<open>last_char cfg ps \<noteq> 13\<close> qs(1) rs(1) by (simp add: PPUTC_def)
    moreover have "printed (t @ crlf c) rs"
      using printed_snoc [OF rs(2-5)] True by (simp add: crlf_def)
    ultimately show ?thesis using qs rs by (simp add: step_to_def)
  next
    case False
    then have f: "fits (t @ [c])" using fits by (simp add: crlf_def)
    obtain qs u' d' where qs: "PPUTC_store cfg c ps = Some qs" "t @ [c] = u' @ Buf qs" "given d' u' (Sink qs)"
      "0 \<notin> set (Buf qs)" "Len qs = word_of_nat (length (t @ [c]))" "Idx qs = Idx ps" "Args qs = Args ps"
      by (rule PPUTC_store_prints [OF cfg f c(1) u(1-4)])
    have "printed (t @ crlf c) qs" using printed_snoc [OF qs(2-5) c(2)] False by (simp add: crlf_def)
    then show ?thesis using qs False by (simp add: step_to_def PPUTC_def)
  qed
qed

text \<open>Steps compose.\<close>

lemma step_to_bind:
  assumes "step_to r t ps" "\<And>qs. printed t qs \<Longrightarrow> Idx qs = Idx ps \<Longrightarrow> Args qs = Args ps \<Longrightarrow> step_to (f qs) t' qs"
  shows "step_to (r \<bind> f) t' ps"
  using assms unfolding step_to_def by fastforce

lemma step_to_Some: "printed t ps \<Longrightarrow> step_to (Some ps) t ps"
  by (simp add: step_to_def)

lemma PPUTC_times_prints:
  assumes "sink_of cfg" "c \<noteq> 0" "c \<noteq> 13" "c \<noteq> 10"
  shows "printed t ps \<Longrightarrow> fits (t @ replicate n c) \<Longrightarrow>
    step_to (PPUTC_times cfg c n ps) (t @ replicate n c) ps"
proof (induction n arbitrary: t ps)
  case 0
  then show ?case by (simp add: step_to_Some)
next
  case (Suc n)
  have f: "fits ((t @ crlf c) @ replicate n c)" using Suc.prems(2) assms(4) by (simp add: crlf_def)
  have "step_to (PPUTC cfg c ps \<bind> PPUTC_times cfg c n) ((t @ crlf c) @ replicate n c) ps"
    using PPUTC_prints [OF assms(1) Suc.prems(1) assms(2,3)] fits_prefix [OF f] Suc.IH [of "t @ crlf c"] f
    by (intro step_to_bind) blast+
  then show ?case using assms(4) by (simp add: crlf_def)
qed

lemma PPUTC_item_prints:
  assumes "sink_of cfg"
  shows "printed t ps \<Longrightarrow> clean s \<Longrightarrow> (\<And>m. kept m \<Longrightarrow> src_at m src i s) \<Longrightarrow> fits (t @ with_cr s) \<Longrightarrow>
    step_to (PPUTC_item cfg src i (length s) ps) (t @ with_cr s) ps"
proof (induction s arbitrary: t ps i)
  case Nil
  then show ?case by (simp add: step_to_Some)
next
  case (Cons c s)
  have f: "fits ((t @ crlf c) @ with_cr s)" using Cons.prems(4) by simp
  have "step_to (PPUTC cfg c ps \<bind> PPUTC_item cfg src (i + 1) (length s)) ((t @ crlf c) @ with_cr s) ps"
  proof (rule step_to_bind)
    show "step_to (PPUTC cfg c ps) (t @ crlf c) ps"
      using PPUTC_prints [OF assms Cons.prems(1)] fits_prefix [OF f] Cons.prems(2) by simp
    fix qs assume "printed (t @ crlf c) qs"
    then show "step_to (PPUTC_item cfg src (i + 1) (length s) qs) ((t @ crlf c) @ with_cr s) qs"
      using Cons.IH [of "t @ crlf c" qs "i + 1"] Cons.prems(2,3) f by simp
  qed
  moreover have "PGETC (Mem cfg (Sink ps)) src i = Some c"
    using Cons.prems(3) [OF printed_kept [OF assms Cons.prems(1)]] by simp
  ultimately show ?case by simp
qed

lemma with_cr_replicate: "c \<noteq> 10 \<Longrightarrow> with_cr (replicate n c) = replicate n c"
  by (induction n) (auto simp: crlf_def)

lemma PITEM_prints:
  assumes cfg: "sink_of cfg" and src: "Item it = Some src" "\<And>m. kept m \<Longrightarrow> src_text m src s" "13 \<notin> set (item_text it s)"
    and pad: "Pad it \<noteq> 0" "Pad it \<noteq> 13" "Pad it \<noteq> 10"
    and ps: "printed t ps" and fits: "fits (t @ with_cr (item_text it s))"
  shows "step_to (PITEM cfg it ps) (t @ with_cr (item_text it s)) ps"
proof -
  define n where "n = min (length s) (unat (FieldWidth it))"
  define field where "field = (if FieldWidth it = - 1 then n else unat (FieldWidth it))"
  define width where "width = (if unat (Width it) < n then n else unat (Width it))"
  define before where "before = (if PadBefore it then replicate (field - width) (32 :: u16) else [])"
  define after where "after = (if PadBefore it then [] else replicate (field - width) (32 :: u16))"
  have width: "width = max n (unat (Width it))" by (simp add: width_def max_def)
  have now: "src_text (Mem cfg (Sink ps)) src s" using src(2) [OF printed_kept [OF cfg ps]] .
  then have len: "PITEM_Len (Mem cfg (Sink ps)) src (FieldWidth it) 0 = Some n"
    using PITEM_Len_src [of s "Mem cfg (Sink ps)" src 0 "FieldWidth it"] by (auto simp: src_text_def n_def)
  have t: "with_cr (item_text it s) =
      before @ replicate (width - n) (Pad it) @ with_cr (take n s) @ after"
    unfolding item_text_def Let_def n_def [symmetric] field_def [symmetric] width [symmetric]
    using pad(3) by (simp add: before_def after_def with_cr_replicate)
  have "set (take n s) \<subseteq> set (item_text it s)"
    by (auto simp: item_text_def Let_def n_def)
  then have taken: "clean (take n s)" "length (take n s) = n"
    using now src(3) by (auto simp: clean_def src_text_def n_def dest: in_set_takeD)
  have taken_at: "src_at m src 0 (take n s)" if "kept m" for m
    using src(2) [OF that] src_at_append [of m src 0 "take n s" "drop n s"] by (simp add: src_text_def src_at_append)
  let ?t1 = "t @ before" and ?t2 = "(t @ before) @ replicate (width - n) (Pad it)"
  have f: "fits ?t1" "fits ?t2" "fits (?t2 @ with_cr (take n s))" "fits ((?t2 @ with_cr (take n s)) @ after)"
    using fits fits_prefix [of "?t1"] fits_prefix [of ?t2] fits_prefix [of "?t2 @ with_cr (take n s)" after]
    unfolding t by simp_all
  have pit: "PITEM cfg it ps =
     (if PadBefore it then PPUTC_times cfg 32 (field - width) ps else Some ps) \<bind> (\<lambda>ps.
     PPUTC_times cfg (Pad it) (width - n) ps \<bind> (\<lambda>ps.
     PPUTC_item cfg src 0 n ps \<bind> (\<lambda>ps.
     if \<not> PadBefore it then PPUTC_times cfg 32 (field - width) ps else Some ps)))"
    using src(1) len by (simp add: PITEM_def Let_def field_def width_def)
  have "step_to (PITEM cfg it ps) ((?t2 @ with_cr (take n s)) @ after) ps"
    unfolding pit
  proof (intro step_to_bind)
    show "step_to (if PadBefore it then PPUTC_times cfg 32 (field - width) ps else Some ps) ?t1 ps"
      using PPUTC_times_prints [OF cfg, of 32 t ps] ps f(1)
      by (cases "PadBefore it") (simp_all add: before_def step_to_Some)
  next
    fix qs assume "printed ?t1 qs"
    then show "step_to (PPUTC_times cfg (Pad it) (width - n) qs) ?t2 qs"
      using PPUTC_times_prints [OF cfg pad] f(2) by blast
  next
    fix qs assume "printed ?t2 qs"
    then show "step_to (PPUTC_item cfg src 0 n qs) (?t2 @ with_cr (take n s)) qs"
      using PPUTC_item_prints [OF cfg _ taken(1) taken_at f(3)] taken(2) by simp
  next
    fix qs assume "printed (?t2 @ with_cr (take n s)) qs"
    then show "step_to (if \<not> PadBefore it then PPUTC_times cfg 32 (field - width) qs else Some qs)
        ((?t2 @ with_cr (take n s)) @ after) qs"
      using PPUTC_times_prints [OF cfg, of 32 "?t2 @ with_cr (take n s)" qs] f(4)
      by (cases "PadBefore it") (simp_all add: after_def step_to_Some)
  qed
  then show ?thesis unfolding t by simp
qed

end

end
