(* ===== verification/PrintPieces.thy ===== *)
theory PrintPieces
  imports PrintSpec
begin

text \<open>
  The format language of \<open>_Print\<close> and its meaning: the pieces of a format, the string that denotes
  them, the text they render to, and the theorem that the engine renders every well-formed format.
  \<open>render\<close> is the text in one memory, \<open>renders\<close> the text in all memories of a set, piece by piece: the
  engine reads its arguments while it prints.
\<close>

subsection \<open>Formats\<close>

datatype attr = A_norm | A_highlight | A_error

text \<open>
  \<open>Once\<close> is \<open>%n\<close>, \<open>%h\<close>, \<open>%e\<close> inside a directive. \<open>Lost\<close> is \<open>%N\<close>, \<open>%H\<close>, \<open>%E\<close> when the attribute it
  asks for is 0, as it is for every output that is not a console: the directive does not end there.
  Flags stand in front of the width and behind it (\<open>%016lx\<close>); there a \<open>0\<close> would be one of its digits.
\<close>

datatype flag = Zero_pad | Left | Commas | Long_arg | Once attr | Lost attr

datatype width = Num nat | Star

datatype conv = C_percent | C_s | C_a | C_c | C_d | C_u | C_x | C_X | C_p |
  C_D | C_f | C_g | C_r | C_t | C_other u16

datatype piece = Lit u16 | Set_attr attr | Dir "flag list" "width option" "width option" "flag list" conv

fun attr_upper :: "attr \<Rightarrow> u16" where
  "attr_upper A_norm = ch CHR ''N''"
| "attr_upper A_highlight = ch CHR ''H''"
| "attr_upper A_error = ch CHR ''E''"

fun flag_char :: "flag \<Rightarrow> u16" where
  "flag_char Zero_pad = ch CHR ''0''"
| "flag_char Left = ch CHR ''-''"
| "flag_char Commas = ch CHR '',''"
| "flag_char Long_arg = ch CHR ''l''"
| "flag_char (Once A_norm) = ch CHR ''n''"
| "flag_char (Once A_highlight) = ch CHR ''h''"
| "flag_char (Once A_error) = ch CHR ''e''"
| "flag_char (Lost a) = attr_upper a"

fun width_text :: "width \<Rightarrow> u16 list" where
  "width_text (Num n) = dec_text n"
| "width_text Star = [ch CHR ''*'']"

fun conv_char :: "conv \<Rightarrow> u16" where
  "conv_char C_percent = ch CHR ''%''"
| "conv_char C_s = ch CHR ''s''"
| "conv_char C_a = ch CHR ''a''"
| "conv_char C_c = ch CHR ''c''"
| "conv_char C_d = ch CHR ''d''"
| "conv_char C_u = ch CHR ''u''"
| "conv_char C_x = ch CHR ''x''"
| "conv_char C_X = ch CHR ''X''"
| "conv_char C_p = ch CHR ''p''"
| "conv_char C_D = ch CHR ''D''"
| "conv_char C_f = ch CHR ''f''"
| "conv_char C_g = ch CHR ''g''"
| "conv_char C_r = ch CHR ''r''"
| "conv_char C_t = ch CHR ''t''"
| "conv_char (C_other c) = c"

fun unparse_piece :: "piece \<Rightarrow> u16 list" where
  "unparse_piece (Lit c) = [c]"
| "unparse_piece (Set_attr a) = [ch CHR ''%'', attr_upper a]"
| "unparse_piece (Dir fl w p gl c) =
     [ch CHR ''%''] @ map flag_char fl @ (case w of Some w \<Rightarrow> width_text w | None \<Rightarrow> []) @
     (case p of Some p \<Rightarrow> ch CHR ''.'' # width_text p | None \<Rightarrow> []) @ map flag_char gl @ [conv_char c]"

definition unparse :: "piece list \<Rightarrow> u16 list" where
  "unparse ps = concat (map unparse_piece ps)"

text \<open>Characters that mean something behind a \<open>%\<close>.\<close>

definition directive_chars :: "u16 list" where
  "directive_chars = text16 ''%,-*.0123456789acDdEefgHhlNnprstuXx''"

fun attr_value :: "'x pconfig \<Rightarrow> attr \<Rightarrow> u64" where
  "attr_value cfg A_norm = AttrNorm cfg"
| "attr_value cfg A_highlight = AttrHighlight cfg"
| "attr_value cfg A_error = AttrError cfg"

fun flag_ok :: "'x pconfig \<Rightarrow> flag \<Rightarrow> bool" where
  "flag_ok cfg (Lost a) \<longleftrightarrow> attr_value cfg a = 0"
| "flag_ok cfg f \<longleftrightarrow> True"

fun width_ok :: "width \<Rightarrow> bool" where
  "width_ok (Num n) \<longleftrightarrow> 0 < n \<and> n < 2 ^ 64"
| "width_ok Star \<longleftrightarrow> True"

fun conv_ok :: "conv \<Rightarrow> bool" where
  "conv_ok (C_other c) \<longleftrightarrow> c \<noteq> 0 \<and> c \<notin> set directive_chars"
| "conv_ok c \<longleftrightarrow> True"

fun piece_ok :: "'x pconfig \<Rightarrow> piece \<Rightarrow> bool" where
  "piece_ok cfg (Lit c) \<longleftrightarrow> c \<noteq> 0 \<and> c \<noteq> ch CHR ''%''"
| "piece_ok cfg (Set_attr a) \<longleftrightarrow> attr_value cfg a \<noteq> 0"
| "piece_ok cfg (Dir fl w p gl c) \<longleftrightarrow>
     list_all (flag_ok cfg) fl \<and> pred_option width_ok w \<and> pred_option width_ok p \<and>
     list_all (flag_ok cfg) gl \<and> Zero_pad \<notin> set gl \<and> conv_ok c"

subsection \<open>Their text\<close>

fun apply_flag :: "flag \<Rightarrow> pitem \<Rightarrow> pitem" where
  "apply_flag Zero_pad it = it\<lparr>Pad := ch CHR ''0''\<rparr>"
| "apply_flag Left it = it\<lparr>PadBefore := False\<rparr>"
| "apply_flag Commas it = it\<lparr>Comma := True\<rparr>"
| "apply_flag Long_arg it = it\<lparr>Long := True\<rparr>"
| "apply_flag (Once a) it = it"
| "apply_flag (Lost a) it = it"

fun width_arg :: "width \<Rightarrow> u64 list \<Rightarrow> (u64 \<times> u64 list) option" where
  "width_arg (Num n) args = Some (word_of_nat n, args)"
| "width_arg Star [] = None"
| "width_arg Star (a # args) = Some (a, args)"

function read_text :: "mem \<Rightarrow> text_src \<Rightarrow> nat \<Rightarrow> u16 list option" where
  "read_text m src i = do {
     c \<leftarrow> PGETC m src i;
     if c = 0 then Some [] else do { s \<leftarrow> read_text m src (i + 1); Some (c # s) } }"
  by auto
termination by (relation "measure (\<lambda>(m, src, i). src_room m src - i)") (auto dest: PGETC_room)

declare read_text.simps [simp del]

definition int_arg :: "bool \<Rightarrow> u64 \<Rightarrow> u64" where
  "int_arg long a = (if long then a else scast (ucast a :: u32))"

definition uint_arg :: "bool \<Rightarrow> u64 \<Rightarrow> u64" where
  "uint_arg long a = (if long then a else ucast (ucast a :: u32))"

text \<open>The text a conversion makes of its argument.\<close>

fun conv_text :: "converters \<Rightarrow> mem \<Rightarrow> pitem \<Rightarrow> conv \<Rightarrow> u64 \<Rightarrow> u16 list option" where
  "conv_text C m it C_s a = read_text m (str_arg Wide a) 0"
| "conv_text C m it C_a a = read_text m (str_arg Ascii a) 0"
| "conv_text C m it C_c a = Some (if ucast a = (0 :: u16) then [] else [ucast a])"
| "conv_text C m it C_d a = Some (signed_text (Comma it) (int_arg (Long it) a))"
| "conv_text C m it C_u a = Some (signed_text (Comma it) (uint_arg (Long it) a))"
| "conv_text C m it C_x a = Some (hex_text (unat (uint_arg (Long it) a)))"
| "conv_text C m it C_X a = Some (hex_text (unat (uint_arg (Long it) a)))"
| "conv_text C m it C_p a = Some (text16 ''0x'' @ hex_text (unat (uint_arg (Long it) a)))"
| "conv_text C m it C_D a = map_option (take (PRINT_ITEM_BUFFER_LEN - 1)) (conv_dpath C m a)"
| "conv_text C m it C_f a = conv_float C m (Comma it) a"
| "conv_text C m it C_g a = conv_guid C m a"
| "conv_text C m it C_r a = conv_status C m a"
| "conv_text C m it C_t a = conv_time C m a"
| "conv_text C m it _ a = None"

text \<open>\<open>%X\<close> and \<open>%p\<close> override the width and the pad character.\<close>

fun conv_item :: "conv \<Rightarrow> pitem \<Rightarrow> pitem" where
  "conv_item C_X it = it\<lparr>Width := (if Long it then 16 else 8), Pad := ch CHR ''0''\<rparr>"
| "conv_item C_p it = it\<lparr>Width := 0, Pad := ch CHR ''0''\<rparr>"
| "conv_item c it = it"

fun conv_render ::
  "converters \<Rightarrow> mem \<Rightarrow> pitem \<Rightarrow> conv \<Rightarrow> u64 list \<Rightarrow> (u16 list \<times> u64 list) option" where
  "conv_render C m it C_percent args = Some (item_text it [ch CHR ''%''], args)"
| "conv_render C m it (C_other c) args = Some (item_text it [ch CHR ''?''], args)"
| "conv_render C m it c [] = None"
| "conv_render C m it c (a # args) = do {
     s \<leftarrow> conv_text C m it c a;
     if 0 \<in> set s then None else Some (item_text (conv_item c it) s, args) }"

definition dir_item :: "flag list \<Rightarrow> width option \<Rightarrow> width option \<Rightarrow> u64 list \<Rightarrow> (pitem \<times> u64 list) option" where
  "dir_item fl w p args = do {
     let it = fold apply_flag fl new_item;
     (it, args) \<leftarrow> (case w of None \<Rightarrow> Some (it, args)
                 | Some w \<Rightarrow> do { (v, args) \<leftarrow> width_arg w args; Some (it\<lparr>Width := v\<rparr>, args) });
     (case p of None \<Rightarrow> Some (it, args)
      | Some p \<Rightarrow> do { (v, args) \<leftarrow> width_arg p args;
                      Some (it\<lparr>WidthParse_field := True, FieldWidth := v\<rparr>, args) }) }"

fun render :: "converters \<Rightarrow> mem \<Rightarrow> piece list \<Rightarrow> u64 list \<Rightarrow> u16 list option" where
  "render C m [] args = Some []"
| "render C m (Lit c # ps) args = do { t \<leftarrow> render C m ps args; Some (c # t) }"
| "render C m (Set_attr a # ps) args = render C m ps args"
| "render C m (Dir fl w p gl c # ps) args = do {
     (it, args) \<leftarrow> dir_item fl w p args;
     (s, args) \<leftarrow> conv_render C m (fold apply_flag gl it) c args;
     t \<leftarrow> render C m ps args;
     Some (s @ t) }"

text \<open>
  In every memory of \<open>M\<close> the argument of each conversion has the same text, and \<open>t\<close> is what the pieces render to.
\<close>

fun conv_renders ::
  "converters \<Rightarrow> (mem \<Rightarrow> bool) \<Rightarrow> pitem \<Rightarrow> conv \<Rightarrow> u64 list \<Rightarrow> u16 list \<Rightarrow> u64 list \<Rightarrow> bool" where
  "conv_renders C M it C_percent args t as \<longleftrightarrow> t = item_text it [ch CHR ''%''] \<and> as = args"
| "conv_renders C M it (C_other c) args t as \<longleftrightarrow> t = item_text it [ch CHR ''?''] \<and> as = args"
| "conv_renders C M it c [] t as \<longleftrightarrow> False"
| "conv_renders C M it c (a # args) t as \<longleftrightarrow>
     (\<exists>s. (\<forall>m. M m \<longrightarrow> conv_text C m it c a = Some s) \<and> 0 \<notin> set s \<and> t = item_text (conv_item c it) s \<and> as = args)"

fun renders :: "converters \<Rightarrow> (mem \<Rightarrow> bool) \<Rightarrow> piece list \<Rightarrow> u64 list \<Rightarrow> u16 list \<Rightarrow> bool" where
  "renders C M [] args t \<longleftrightarrow> t = []"
| "renders C M (Lit c # ps) args t \<longleftrightarrow> (\<exists>u. t = c # u \<and> renders C M ps args u)"
| "renders C M (Set_attr a # ps) args t \<longleftrightarrow> renders C M ps args t"
| "renders C M (Dir fl w p gl c # ps) args t \<longleftrightarrow>
     (\<exists>it as s bs u. dir_item fl w p args = Some (it, as) \<and>
        conv_renders C M (fold apply_flag gl it) c as s bs \<and> renders C M ps bs u \<and> t = s @ u)"

text \<open>In a single memory that is \<open>render\<close>.\<close>

lemma conv_renders_one: "conv_renders C (\<lambda>m'. m' = m) it c args t as \<longleftrightarrow> conv_render C m it c args = Some (t, as)"
  by (cases c; cases args) (auto simp: bind_eq_Some_conv)

lemma renders_one: "renders C (\<lambda>m'. m' = m) pcs args t \<longleftrightarrow> render C m pcs args = Some t"
proof (induction pcs arbitrary: args t)
  case (Cons pc pcs)
  then show ?case by (cases pc) (auto simp: bind_eq_Some_conv conv_renders_one)
qed auto

lemma conv_renders_render: "conv_renders C M it c args t as \<Longrightarrow> M m \<Longrightarrow> conv_render C m it c args = Some (t, as)"
  by (cases c; cases args) auto

lemma renders_render: "renders C M pcs args t \<Longrightarrow> M m \<Longrightarrow> render C m pcs args = Some t"
proof (induction pcs arbitrary: args t)
  case (Cons pc pcs)
  then show ?case by (cases pc) (fastforce dest: conv_renders_render)+
qed simp

text \<open>
  Conversions that look at memory. With one of them at most, without flags and widths, a format that has the
  same text in every memory has it piece by piece, since the text of the other pieces is the same anyway.
\<close>

definition reading :: "conv \<Rightarrow> bool" where
  "reading c \<longleftrightarrow> c \<in> {C_s, C_a, C_D, C_f, C_g, C_r, C_t}"

fun readers :: "piece \<Rightarrow> nat" where
  "readers (Dir fl w p gl c) = (if reading c then if fl = [] \<and> w = None \<and> p = None \<and> gl = [] then 1 else 2 else 0)"
| "readers pc = 0"

definition one_reader :: "piece list \<Rightarrow> bool" where
  "one_reader pcs \<longleftrightarrow> sum_list (map readers pcs) \<le> 1"

lemma conv_text_blind: "\<not> reading c \<Longrightarrow> conv_text C m it c a = conv_text C m' it c a"
  by (cases c) (simp_all add: reading_def)

lemma conv_renders_blind:
  assumes "\<not> reading c" "conv_render C m0 it c args = Some (t, as)"
  shows "conv_renders C M it c args t as"
  using assms by (cases c; cases args) (auto simp: reading_def bind_eq_Some_conv split: if_splits)

lemma renders_blind:
  "sum_list (map readers pcs) = 0 \<Longrightarrow> render C m0 pcs args = Some t \<Longrightarrow> renders C M pcs args t"
proof (induction pcs arbitrary: args t)
  case (Cons pc pcs)
  show ?case
  proof (cases pc)
    case (Dir fl w p gl c)
    then obtain it as s bs u where d: "dir_item fl w p args = Some (it, as)"
      "conv_render C m0 (fold apply_flag gl it) c as = Some (s, bs)" "render C m0 pcs bs = Some u" "t = s @ u"
      using Cons.prems(2) by (auto simp: bind_eq_Some_conv)
    have "\<not> reading c" using Cons.prems(1) Dir by (auto split: if_splits)
    from conv_renders_blind [OF this d(2)] have "conv_renders C M (fold apply_flag gl it) c as s bs" .
    moreover have "renders C M pcs bs u" using Cons.IH [OF _ d(3)] Cons.prems(1) by simp
    ultimately show ?thesis using d(1,4) Dir by auto
  qed (use Cons in \<open>auto simp: bind_eq_Some_conv\<close>)
qed simp

lemma item_text_new:
  assumes "length (item_text new_item s) < 2 ^ 64 - 1"
  shows "item_text new_item s = s"
proof -
  have "unat (- 1 :: u64) = 2 ^ 64 - 1" by (simp add: unsigned_minus_1_eq_mask mask_eq_exp_minus_1)
  then have t: "item_text new_item s = take (2 ^ 64 - 1) s"
    by (cases "length s \<le> 2 ^ 64 - 1") (simp_all add: item_text_def new_item_def Let_def max_def min_def)
  then have "length s < 2 ^ 64 - 1" using assms by (auto simp: min_def split: if_splits)
  then show ?thesis unfolding t by (intro take_all) simp
qed

lemma renders_one_reader:
  assumes "one_reader pcs" "\<And>m. M m \<Longrightarrow> render C m pcs args = Some t" "M m0" "length t < 2 ^ 64 - 1"
  shows "renders C M pcs args t"
  using assms(1,2,4)
proof (induction pcs arbitrary: args t)
  case Nil
  then show ?case using assms(3) by simp
next
  case (Cons pc pcs)
  have one: "one_reader pcs" using Cons.prems(1) by (simp add: one_reader_def)
  note at = Cons.prems(2) [OF assms(3)]
  show ?case
  proof (cases pc)
    case (Lit x)
    obtain u where u: "t = x # u" using at Lit by (auto simp: bind_eq_Some_conv)
    have "render C m pcs args = Some u" if "M m" for m using Cons.prems(2) [OF that] Lit u by (auto simp: bind_eq_Some_conv)
    then show ?thesis using Cons.IH [OF one] u Lit Cons.prems(3) by auto
  next
    case (Set_attr a)
    then show ?thesis using Cons.IH [OF one] Cons.prems(2,3) by simp
  next
    case (Dir fl w p gl c)
    then obtain it as s bs u where d: "dir_item fl w p args = Some (it, as)"
      "conv_render C m0 (fold apply_flag gl it) c as = Some (s, bs)" "render C m0 pcs bs = Some u" "t = s @ u"
      using at by (auto simp: bind_eq_Some_conv)
    show ?thesis
    proof (cases "reading c")
      case False
      note blind = conv_renders_blind [OF False d(2)]
      have "render C m pcs bs = Some u" if "M m" for m
        using Cons.prems(2) [OF that] Dir d(1,4) conv_renders_render [OF blind [of "\<lambda>m'. m' = m"] refl]
        by (auto simp: bind_eq_Some_conv)
      then have "renders C M pcs bs u" using Cons.IH [OF one] Cons.prems(3) d(4) by simp
      then show ?thesis using blind [of M] d(1,4) Dir by auto
    next
      case True
      then have plain: "fl = []" "w = None" "p = None" "gl = []" and none: "sum_list (map readers pcs) = 0"
        using Cons.prems(1) Dir by (auto simp: one_reader_def split: if_splits)
      have it: "it = new_item" "as = args" using d(1) plain by (simp_all add: dir_item_def)
      have ci: "conv_item c new_item = new_item" "c \<noteq> C_percent" "\<And>x. c \<noteq> C_other x" using True by (auto simp: reading_def)
      note rest = renders_blind [OF none d(3)]
      obtain a where a: "args = a # bs"
        using d(2) ci(2,3) unfolding it plain by (cases c; cases args) (auto simp: bind_eq_Some_conv split: if_splits)
      have c: "conv_text C m new_item c a = Some s \<and> 0 \<notin> set s" if m: "M m" for m
      proof -
        obtain s' bs' u' where x: "conv_render C m new_item c (a # bs) = Some (s', bs')" "render C m pcs bs' = Some u'"
          "t = s' @ u'"
          using Cons.prems(2) [OF m] Dir d(1) it plain a by (auto simp: bind_eq_Some_conv)
        then obtain y where y: "conv_text C m new_item c a = Some y" "0 \<notin> set y" "s' = item_text new_item y" "bs' = bs"
          using ci by (cases c) (auto simp: bind_eq_Some_conv split: if_splits)
        have "render C m pcs bs = Some u" using rest [of "\<lambda>m'. m' = m"] by (simp add: renders_one)
        then have "s' = s" using x(2,3) y(4) d(4) by simp
        moreover have "item_text new_item y = y" using item_text_new [of y] x(3) y(3) Cons.prems(3) by simp
        ultimately show ?thesis using y by simp
      qed
      have "conv_render C m0 new_item c (a # bs) = Some (item_text new_item s, bs)"
        using c [OF assms(3)] ci by (cases c) auto
      then have "item_text new_item s = s" using d(2) unfolding it plain a by simp
      then have "conv_renders C M new_item c (a # bs) s bs"
      proof -
        have "\<exists>y. (\<forall>m. M m \<longrightarrow> conv_text C m new_item c a = Some y) \<and> 0 \<notin> set y \<and> s = item_text (conv_item c new_item) y \<and>
            bs = bs"
          using c [OF assms(3)] c \<open>item_text new_item s = s\<close> unfolding ci(1) by (intro exI [of _ s]) simp
        then show ?thesis using ci(2,3) by (cases c) (blast | simp only: conv_renders.simps simp_thms)+
      qed
      then show ?thesis using rest [of M] d(1,4) Dir plain it a by auto
    qed
  qed
qed

subsection \<open>Scanning\<close>

lemma read_text_src: "read_text m src i = Some s \<longleftrightarrow> 0 \<notin> set s \<and> src_at m src i (s @ [0])"
proof (induction m src i arbitrary: s rule: read_text.induct)
  case (1 m src i)
  show ?case
  proof (cases "PGETC m src i")
    case None
    then show ?thesis by (cases s) (auto simp: read_text.simps [of m src i])
  next
    case (Some c)
    show ?thesis
    proof (cases "c = 0")
      case True
      then show ?thesis using Some by (cases s) (auto simp: read_text.simps [of m src i])
    next
      case False
      then show ?thesis using Some "1.IH" [OF Some False]
        by (cases s) (auto simp: read_text.simps [of m src i] bind_eq_Some_conv)
    qed
  qed
qed

lemma read_text_src_text: "read_text m src 0 = Some s \<longleftrightarrow> src_text m src s"
  by (simp add: read_text_src src_text_def)

lemma dec_char_word:
  assumes "d < 10"
  shows "unat (dec_char d) = 48 + d" "ucast (dec_char d) = (48 + word_of_nat d :: u64)"
proof -
  have "take_bit 16 (48 + d) = 48 + d" using assms by (intro take_bit_nat_eq_self) simp
  then show "unat (dec_char d) = 48 + d" "ucast (dec_char d) = (48 + word_of_nat d :: u64)"
    unfolding dec_char_def unsigned_of_nat by (simp_all del: of_nat_add) simp
qed

lemma Print_digits_text:
  "src_at m src i (map dec_char ds @ [x]) \<Longrightarrow> \<forall>d \<in> set (d # ds). d < 10 \<Longrightarrow> x < 48 \<or> 57 < x \<Longrightarrow>
   Print_digits m src w (dec_char d) i =
     Some (foldl (\<lambda>w d. 10 * w + word_of_nat d) w (d # ds), i + length ds)"
proof (induction ds arbitrary: d w i)
  case Nil
  then show ?case
    by (subst Print_digits.simps) (auto simp: Let_def dec_char_word)
next
  case (Cons e ds)
  have "48 \<le> dec_char e" "dec_char e \<le> 57" using Cons.prems(2) by (simp_all add: word_le_nat_alt dec_char_word)
  then show ?case using Cons.prems Cons.IH [of "i + 1" e "10 * w + word_of_nat d"]
    by (subst Print_digits.simps) (auto simp: Let_def dec_char_word ac_simps)
qed

lemma foldl_word:
  "foldl (\<lambda>w d. 10 * w + word_of_nat d) (word_of_nat k) ds = (word_of_nat (foldl (\<lambda>n d. 10 * n + d) k ds) :: u64)"
proof (induction ds arbitrary: k)
  case (Cons d ds)
  show ?case using Cons [of "10 * k + d"] by simp
qed simp

lemma dec_text_scan:
  assumes n: "0 < n" and src: "src_at m src i (dec_text n @ [x])" and x: "x < 48 \<or> 57 < x"
  obtains c where "PGETC m src i = Some c" "49 \<le> c" "c \<le> 57"
    "Print_digits m src 0 c (i + 1) = Some (word_of_nat n, i + length (dec_text n))"
proof -
  from digits_of_leading [of 10 n] n obtain d ds where ds: "digits_of 10 n = d # ds" "0 < d" by auto
  then have small: "\<forall>d \<in> set (d # ds). d < 10" using digits_of_less [of _ 10 n] by auto
  have body: "dec_text n = dec_char d # map dec_char ds" using n ds by (simp add: dec_text_def)
  have "foldl (\<lambda>w d. 10 * w + word_of_nat d) 0 (d # ds) = (word_of_nat n :: u64)"
    using foldl_word [of 0 "d # ds"] digits_of_value [of 10 n] ds(1) by simp
  then have "Print_digits m src 0 (dec_char d) (i + 1) = Some (word_of_nat n, i + length (dec_text n))"
    using Print_digits_text [of m src "i + 1" ds x d 0] src small x by (simp add: body)
  moreover have "49 \<le> dec_char d" "dec_char d \<le> 57"
    using small ds(2) by (simp_all add: word_le_nat_alt dec_char_word)
  ultimately show thesis using src by (intro that [of "dec_char d"]) (simp_all add: body)
qed

subsection \<open>The engine renders the pieces\<close>

text \<open>One step of the loop over a directive, at a character that does not end it.\<close>

lemma Print_directives_step:
  assumes "PGETC (Mem cfg (Sink ps)) (fmt cfg) (Idx ps) = Some c" "c \<noteq> 0"
    and "Print_directive cfg c it a (ps\<lparr>Idx := Idx ps + 1\<rparr>) = Some (it', 0, qs)" "Item it' = None"
  shows "Print_directives cfg it a ps = Print_directives cfg it' 0 qs"
  using assms by (subst Print_directives.simps) simp

lemma Print_directives_item:
  assumes "PGETC (Mem cfg (Sink ps)) (fmt cfg) (Idx ps) = Some c" "c \<noteq> 0"
    and "Print_directive cfg c it a (ps\<lparr>Idx := Idx ps + 1\<rparr>) = Some (it', a', qs)" "Item it' \<noteq> None"
  shows "Print_directives cfg it a ps = PITEM cfg it' qs"
  using assms by (subst Print_directives.simps) simp

lemma Print_directive_upper: "Print_directive cfg (attr_upper b) it a ps = Some (it, attr_value cfg b, ps)"
  by (cases b) (simp_all add: Print_directive_def)

lemma Print_directive_once:
  "Print_directive cfg (flag_char (Once b)) it a ps =
     do { ps \<leftarrow> PSETATTR cfg (attr_value cfg b) ps; Some (it, a, ps) }"
  by (cases b) (simp_all add: Print_directive_def)

lemma Print_directive_flag:
  "Print_directive cfg (flag_char Zero_pad) it a ps = Some (apply_flag Zero_pad it, a, ps)"
  "Print_directive cfg (flag_char Left) it a ps = Some (apply_flag Left it, a, ps)"
  "Print_directive cfg (flag_char Commas) it a ps = Some (apply_flag Commas it, a, ps)"
  "Print_directive cfg (flag_char Long_arg) it a ps = Some (apply_flag Long_arg it, a, ps)"
  by (simp_all add: Print_directive_def Print_item_def Let_def)

lemma Print_directive_width:
  "Print_directive cfg (ch CHR ''*'') it a ps = do { (v, ps) \<leftarrow> VA_ARG ps; Some (set_width v it, a, ps) }"
  "Print_directive cfg (ch CHR ''.'') it a ps = Some (it\<lparr>WidthParse_field := True\<rparr>, a, ps)"
  "49 \<le> c \<Longrightarrow> c \<le> 57 \<Longrightarrow> Print_directive cfg c it a ps =
     do { (w, i) \<leftarrow> Print_digits (Mem cfg (Sink ps)) (fmt cfg) 0 c (Idx ps); Some (set_width w it, a, ps\<lparr>Idx := i\<rparr>) }"
proof -
  show "Print_directive cfg (ch CHR ''*'') it a ps = do { (v, ps) \<leftarrow> VA_ARG ps; Some (set_width v it, a, ps) }"
    "Print_directive cfg (ch CHR ''.'') it a ps = Some (it\<lparr>WidthParse_field := True\<rparr>, a, ps)"
    by (simp_all add: Print_directive_def Print_item_def Let_def case_prod_unfold)
  assume c: "49 \<le> c" "c \<le> 57"
  then have "c \<noteq> 69" "c \<noteq> 101" "c \<noteq> 72" "c \<noteq> 104" "c \<noteq> 78" "c \<noteq> 110" "c \<noteq> 37" "c \<noteq> 44" "c \<noteq> 45"
    "c \<noteq> 42" "c \<noteq> 46" "c \<noteq> 48" by auto
  then show "Print_directive cfg c it a ps =
     do { (w, i) \<leftarrow> Print_digits (Mem cfg (Sink ps)) (fmt cfg) 0 c (Idx ps); Some (set_width w it, a, ps\<lparr>Idx := i\<rparr>) }"
    using c by (simp add: Print_directive_def Print_item_def Let_def case_prod_unfold)
qed

lemma flag_char_nonzero: "flag_char f \<noteq> 0" "attr_upper b \<noteq> 0"
proof -
  show "attr_upper b \<noteq> 0" for b by (cases b) simp_all
  then show "flag_char f \<noteq> 0" by (cases f rule: flag_char.cases) simp_all
qed

lemma apply_flag_Item [simp]: "Item (apply_flag f it) = Item it"
  by (cases f) simp_all

lemma flags_Pad: "Pad it \<in> {32, 48} \<Longrightarrow> Pad (fold apply_flag fl it) \<in> {32, 48}"
proof (induction fl arbitrary: it)
  case (Cons f fl)
  then show ?case by (cases f) simp_all
qed simp

lemma dir_item_Pad: "dir_item fl w p args = Some (it, args') \<Longrightarrow> Pad it \<in> {32, 48}"
  using flags_Pad [of new_item fl]
  by (auto simp: dir_item_def new_item_def Let_def bind_eq_Some_conv split: option.splits)

text \<open>What stands behind a width is not a digit.\<close>

lemma flag_char_not_digit: "f \<noteq> Zero_pad \<Longrightarrow> flag_char f < 48 \<or> 57 < flag_char f"
proof -
  have "48 \<le> attr_upper a \<and> 57 < attr_upper a" for a by (cases a) simp_all
  then show "f \<noteq> Zero_pad \<Longrightarrow> ?thesis" by (cases f rule: flag_char.cases) simp_all
qed

lemma not_digit:
  assumes "c \<notin> set directive_chars"
  shows "c < 48 \<or> 57 < c"
proof (rule ccontr)
  assume "\<not> (c < 48 \<or> 57 < c)"
  then have "48 \<le> unat c" "unat c \<le> 57" by (simp_all add: not_less word_le_nat_alt)
  then have "unat c \<in> {48, 49, 50, 51, 52, 53, 54, 55, 56, 57}" unfolding insert_iff empty_iff by arith
  then have "unat c \<in> unat ` {48 :: u16, 49, 50, 51, 52, 53, 54, 55, 56, 57}" by simp
  then obtain x where "x \<in> {48 :: u16, 49, 50, 51, 52, 53, 54, 55, 56, 57}" "unat c = unat x"
    by (elim imageE)
  then have "c \<in> {48, 49, 50, 51, 52, 53, 54, 55, 56, 57}" by (simp only: unsigned_word_eqI [of c x])
  then show False using assms by (auto simp: directive_chars_def text16_def)
qed

lemma conv_char_not_digit: "conv_ok c \<Longrightarrow> conv_char c < 48 \<or> 57 < conv_char c"
  by (cases c) (simp_all add: not_digit)

lemma conv_char_nonzero: "conv_ok c \<Longrightarrow> conv_char c \<noteq> 0"
  by (cases c) simp_all

lemma Print_directive_unknown:
  assumes "c \<notin> set directive_chars"
  shows "Print_directive cfg c it a ps = Some (with_item (Text [ch CHR ''?'']) it, a, ps)"
proof -
  have "c \<noteq> 69" "c \<noteq> 101" "c \<noteq> 72" "c \<noteq> 104" "c \<noteq> 78" "c \<noteq> 110" "c \<noteq> 37" "c \<noteq> 44" "c \<noteq> 45"
    "c \<noteq> 42" "c \<noteq> 46" "c \<noteq> 48" "c \<noteq> 97" "c \<noteq> 99" "c \<noteq> 68" "c \<noteq> 100" "c \<noteq> 102" "c \<noteq> 103" "c \<noteq> 108"
    "c \<noteq> 112" "c \<noteq> 114" "c \<noteq> 115" "c \<noteq> 116" "c \<noteq> 117" "c \<noteq> 88" "c \<noteq> 120"
    using assms by (auto simp: directive_chars_def text16_def)
  moreover have "(49 \<le> c \<and> c \<le> 57) = False"
  proof -
    have "48 \<le> c" if "49 \<le> c" using that by (simp add: word_le_nat_alt)
    then show ?thesis using not_digit [OF assms] by auto
  qed
  ultimately show ?thesis by (simp add: Print_directive_def Print_item_def Let_def) blast
qed

text \<open>A conversion consumes its argument and leaves an item that holds the specified text.\<close>

definition holds_item ::
  "(mem \<Rightarrow> bool) \<Rightarrow> (pitem \<times> u64 \<times> 'x pstate) option \<Rightarrow> pitem \<Rightarrow> u16 list \<Rightarrow> 'x pstate \<Rightarrow> bool" where
  "holds_item M r it s ps \<longleftrightarrow>
     (\<exists>src. r = Some (with_item src it, 0, ps) \<and> (\<forall>m. M m \<longrightarrow> src_text m src s))"

lemma holds_item_Text:
  "r = Some (with_item (Text s) it, 0, ps) \<Longrightarrow> 0 \<notin> set s \<Longrightarrow> holds_item M r it s ps"
  by (auto simp: holds_item_def intro: src_text_Text)

lemma Print_directive_conv:
  assumes "c \<noteq> C_percent" "\<And>u. c \<noteq> C_other u" "\<And>m. M m \<Longrightarrow> conv_text (Convert cfg) m it c a = Some s" "0 \<notin> set s"
    "Args ps = a # args" "M (Mem cfg (Sink ps))"
  shows "holds_item M (Print_directive cfg (conv_char c) it 0 ps) (conv_item c it) s (ps\<lparr>Args := args\<rparr>)"
proof (cases c)
  case C_s
  then have "src_text m (str_arg Wide a) s" if "M m" for m using assms(3) [OF that] by (simp add: read_text_src_text)
  then show ?thesis using C_s assms(5)
    by (auto simp: holds_item_def Print_directive_def Print_item_def VA_ARG_def intro!: exI [of _ "str_arg Wide a"])
next
  case C_a
  then have "src_text m (str_arg Ascii a) s" if "M m" for m using assms(3) [OF that] by (simp add: read_text_src_text)
  then show ?thesis using C_a assms(5)
    by (auto simp: holds_item_def Print_directive_def Print_item_def VA_ARG_def intro!: exI [of _ "str_arg Ascii a"])
next
  case C_c
  then have "src_text m (Text [ucast a]) s" for m
    using assms(3) [OF assms(6)] assms(4) src_text_Text [of "[ucast a]"] by (auto simp: src_text_Text_0 split: if_splits)
  then show ?thesis using C_c assms(5)
    by (auto simp: holds_item_def Print_directive_def Print_item_def VA_ARG_def intro!: exI [of _ "Text [ucast a]"])
qed (use assms(1,2,4,5) assms(3) [OF assms(6)] in \<open>auto intro!: holds_item_Text simp: Print_directive_def Print_item_def
      Print_conv_def Print_hex_def Print_dec_def VA_ARG_def VA_ARG_signed_def VA_ARG_unsigned_def int_arg_def uint_arg_def
      ValueToHex_eq ValueToString_x86_64\<close>)

lemma Print_directive_conv_render:
  assumes "conv_ok c" "conv_renders (Convert cfg) M it c (Args ps) s' args" "M (Mem cfg (Sink ps))"
  obtains s where "holds_item M (Print_directive cfg (conv_char c) it 0 ps) (conv_item c it) s (ps\<lparr>Args := args\<rparr>)"
    "s' = item_text (conv_item c it) s"
proof (cases "c = C_percent \<or> (\<exists>u. c = C_other u)")
  case True
  then show thesis
  proof (elim disjE exE)
    assume "c = C_percent"
    then show thesis using assms
      by (intro that [of "[ch CHR ''%'']"] holds_item_Text) (auto simp: Print_directive_def Print_item_def)
  next
    fix u assume "c = C_other u"
    then show thesis using assms
      by (intro that [of "[ch CHR ''?'']"] holds_item_Text) (auto simp: Print_directive_unknown)
  qed
next
  case False
  then obtain a s where a: "Args ps = a # args" "\<And>m. M m \<Longrightarrow> conv_text (Convert cfg) m it c a = Some s" "0 \<notin> set s"
    "s' = item_text (conv_item c it) s"
    using assms(2) by (cases c; cases "Args ps") auto
  then show thesis using False Print_directive_conv [of c M cfg it a s ps args] assms(3) that by blast
qed

context text_sink
begin

text \<open>The format holds \<open>s\<close> at \<open>i\<close>, whatever output there was.\<close>

definition at_fmt :: "'x pconfig \<Rightarrow> nat \<Rightarrow> u16 list \<Rightarrow> bool" where
  "at_fmt cfg i s \<longleftrightarrow> (\<forall>m. kept m \<longrightarrow> src_at m (fmt cfg) i s)"

lemma at_fmt_append: "at_fmt cfg i (s @ t) \<longleftrightarrow> at_fmt cfg i s \<and> at_fmt cfg (i + length s) t"
  by (auto simp: at_fmt_def src_at_append)

lemma at_fmt_Cons: "at_fmt cfg i (c # t) \<longleftrightarrow> at_fmt cfg i [c] \<and> at_fmt cfg (i + 1) t"
  by (auto simp: at_fmt_def)

lemma at_fmt_Nil [simp]: "at_fmt cfg i []"
  by (simp add: at_fmt_def)

lemma at_fmt_now: "at_fmt cfg i s \<Longrightarrow> sink_of cfg \<Longrightarrow> printed t ps \<Longrightarrow> src_at (Mem cfg (Sink ps)) (fmt cfg) i s"
  using printed_kept by (simp add: at_fmt_def)

definition scans :: "'x pconfig \<Rightarrow> u16 list \<Rightarrow> pitem \<Rightarrow> 'x pstate \<Rightarrow> nat \<Rightarrow> pitem \<Rightarrow> 'x pstate \<Rightarrow> bool" where
  "scans cfg t it ps n it' qs \<longleftrightarrow>
     Print_directives cfg it 0 ps = Print_directives cfg it' 0 qs \<and> printed t qs \<and> Item it' = None \<and>
     Idx qs = Idx ps + n"

lemma scans_trans:
  "scans cfg t it ps n it' qs \<Longrightarrow> scans cfg t it' qs k it'' rs \<Longrightarrow> scans cfg t it ps (n + k) it'' rs"
  by (simp add: scans_def)

lemma printed_Idx [simp]:
  "printed t (ps\<lparr>Idx := i\<rparr>) = printed t ps" "printed t (ps\<lparr>Args := as\<rparr>) = printed t ps"
  "printed t (ps\<lparr>RestoreAttr := r\<rparr>) = printed t ps"
  by (simp_all add: printed_def)

lemma flag_scans:
  assumes cfg: "sink_of cfg" "flag_ok cfg f" and src: "at_fmt cfg (Idx ps) [flag_char f]"
    and ps: "printed t ps" "fits t" and it: "Item it = None"
  shows "\<exists>qs. scans cfg t it ps 1 (apply_flag f it) qs \<and> Args qs = Args ps"
proof -
  let ?ps = "ps\<lparr>Idx := Idx ps + 1\<rparr>"
  have "\<exists>qs. Print_directive cfg (flag_char f) it 0 ?ps = Some (apply_flag f it, 0, qs) \<and> printed t qs \<and>
      Idx qs = Idx ps + 1 \<and> Args qs = Args ps"
  proof (cases f)
    case (Once b)
    have "step_to (PSETATTR cfg (attr_value cfg b) ?ps) t ?ps"
      using cfg(1) ps by (intro PSETATTR_prints) simp_all
    then show ?thesis using Once by (auto simp: step_to_def Print_directive_once simp del: flag_char.simps)
  next
    case (Lost b)
    then show ?thesis using cfg(2) ps by (auto simp: Print_directive_upper)
  qed (use ps in \<open>simp_all add: Print_directive_flag del: flag_char.simps\<close>)
  moreover have "PGETC (Mem cfg (Sink ps)) (fmt cfg) (Idx ps) = Some (flag_char f)"
    using at_fmt_now [OF src cfg(1) ps(1)] by simp
  ultimately show ?thesis using Print_directives_step [OF _ flag_char_nonzero(1)] it
    by (fastforce simp: scans_def)
qed

lemma flags_scan:
  assumes cfg: "sink_of cfg" and fits: "fits t"
  shows "list_all (flag_ok cfg) fl \<Longrightarrow> at_fmt cfg (Idx ps) (map flag_char fl) \<Longrightarrow>
    printed t ps \<Longrightarrow> Item it = None \<Longrightarrow>
    \<exists>qs. scans cfg t it ps (length fl) (fold apply_flag fl it) qs \<and> Args qs = Args ps"
proof (induction fl arbitrary: it ps)
  case Nil
  then show ?case by (auto simp: scans_def)
next
  case (Cons f fl)
  have at: "at_fmt cfg (Idx ps) [flag_char f]" "at_fmt cfg (Idx ps + 1) (map flag_char fl)"
    using Cons.prems(2) at_fmt_Cons [of cfg "Idx ps" "flag_char f" "map flag_char fl"] by simp_all
  have "\<exists>qs. scans cfg t it ps 1 (apply_flag f it) qs \<and> Args qs = Args ps"
    using Cons.prems cfg fits at(1) by (intro flag_scans) simp_all
  then obtain qs where qs: "scans cfg t it ps 1 (apply_flag f it) qs" "Args qs = Args ps" by blast
  have "\<exists>rs. scans cfg t (apply_flag f it) qs (length fl) (fold apply_flag fl (apply_flag f it)) rs \<and> Args rs = Args qs"
    using Cons.prems qs at(2) by (intro Cons.IH) (simp_all add: scans_def)
  then show ?case using scans_trans [OF qs(1)] qs(2) by auto
qed

lemma width_scans:
  assumes cfg: "sink_of cfg" and w: "width_ok w" "width_arg w (Args ps) = Some (v, args)"
    and src: "at_fmt cfg (Idx ps) (width_text w @ [x])" "x < 48 \<or> 57 < x"
    and ps: "printed t ps" and it: "Item it = None"
  shows "\<exists>qs. scans cfg t it ps (length (width_text w)) (set_width v it) qs \<and> Args qs = args"
proof (cases w)
  case (Num n)
  obtain c where c: "PGETC (Mem cfg (Sink ps)) (fmt cfg) (Idx ps) = Some c" "49 \<le> c" "c \<le> 57"
    "Print_digits (Mem cfg (Sink ps)) (fmt cfg) 0 c (Idx ps + 1) = Some (word_of_nat n, Idx ps + length (dec_text n))"
    using dec_text_scan [of n "Mem cfg (Sink ps)" "fmt cfg" "Idx ps" x] at_fmt_now [OF src(1) cfg ps] src(2) w(1) Num by auto
  have "Print_directive cfg c it 0 (ps\<lparr>Idx := Idx ps + 1\<rparr>) =
      Some (set_width v it, 0, ps\<lparr>Idx := Idx ps + length (dec_text n)\<rparr>)"
    using c w(2) Num by (simp add: Print_directive_width(3))
  moreover have "c \<noteq> 0" using c(2) by auto
  ultimately have "scans cfg t it ps (length (width_text w)) (set_width v it)
      (ps\<lparr>Idx := Idx ps + length (dec_text n)\<rparr>)"
    using Print_directives_step [OF c(1)] it ps Num by (simp add: scans_def set_width_def)
  then show ?thesis using w(2) Num by auto
next
  case Star
  then obtain a where a: "Args ps = a # args" "v = a" using w(2) by (cases "Args ps") auto
  have "Print_directive cfg (ch CHR ''*'') it 0 (ps\<lparr>Idx := Idx ps + 1\<rparr>) =
      Some (set_width v it, 0, ps\<lparr>Idx := Idx ps + 1, Args := args\<rparr>)"
    using a by (simp only: Print_directive_width) (simp add: VA_ARG_def)
  then have "scans cfg t it ps (length (width_text w)) (set_width v it) (ps\<lparr>Idx := Idx ps + 1, Args := args\<rparr>)"
    using Print_directives_step [of cfg ps "ch CHR ''*''"] it ps at_fmt_now [OF src(1) cfg ps] Star
    by (simp add: scans_def set_width_def)
  then show ?thesis by auto
qed

lemma optional_width_scans:
  assumes "sink_of cfg" "pred_option width_ok w"
    and "(case w of None \<Rightarrow> Some (it, Args ps)
          | Some w \<Rightarrow> do { (v, args) \<leftarrow> width_arg w (Args ps); Some (it\<lparr>Width := v\<rparr>, args) }) = Some (it', args)"
    and "at_fmt cfg (Idx ps) ((case w of Some w \<Rightarrow> width_text w | None \<Rightarrow> []) @ [x])"
    and "x < 48 \<or> 57 < x" "printed t ps" "Item it = None" "\<not> WidthParse_field it"
  shows "\<exists>qs. scans cfg t it ps (length (case w of Some w \<Rightarrow> width_text w | None \<Rightarrow> [])) it' qs \<and> Args qs = args"
proof (cases w)
  case None
  then show ?thesis using assms by (auto simp: scans_def)
next
  case (Some w')
  then obtain v where "width_arg w' (Args ps) = Some (v, args)" "it' = set_width v it"
    using assms(3,8) by (auto simp: bind_eq_Some_conv set_width_def)
  then show ?thesis using width_scans [OF assms(1)] assms Some by (auto simp: pred_option_def)
qed

lemma optional_field_scans:
  assumes "sink_of cfg" "pred_option width_ok p"
    and "(case p of None \<Rightarrow> Some (it, Args ps)
          | Some p \<Rightarrow> do { (v, args) \<leftarrow> width_arg p (Args ps);
                            Some (it\<lparr>WidthParse_field := True, FieldWidth := v\<rparr>, args) }) = Some (it', args)"
    and "at_fmt cfg (Idx ps) ((case p of Some p \<Rightarrow> ch CHR ''.'' # width_text p | None \<Rightarrow> []) @ [x])"
    and "x < 48 \<or> 57 < x" "printed t ps" "Item it = None"
  shows "\<exists>qs. scans cfg t it ps (length (case p of Some p \<Rightarrow> ch CHR ''.'' # width_text p | None \<Rightarrow> [])) it' qs \<and>
    Args qs = args"
proof (cases p)
  case None
  then show ?thesis using assms by (auto simp: scans_def)
next
  case (Some p')
  let ?ps = "ps\<lparr>Idx := Idx ps + 1\<rparr>" and ?it = "it\<lparr>WidthParse_field := True\<rparr>"
  obtain v where v: "width_arg p' (Args ps) = Some (v, args)" "it' = set_width v ?it"
    using assms(3) Some by (auto simp: bind_eq_Some_conv set_width_def)
  have dot: "scans cfg t it ps 1 ?it ?ps"
  proof -
    have "Print_directive cfg (ch CHR ''.'') it 0 ?ps = Some (?it, 0, ?ps)"
      by (simp only: Print_directive_width)
    then show ?thesis
      using Print_directives_step [of cfg ps "ch CHR ''.''" it 0 ?it ?ps] at_fmt_now [OF assms(4,1,6)] assms(6,7) Some
      by (simp add: scans_def)
  qed
  have "\<exists>qs. scans cfg t ?it ?ps (length (width_text p')) (set_width v ?it) qs \<and> Args qs = args"
    using width_scans [OF assms(1), of p' ?ps v args x t ?it] assms Some v
      at_fmt_Cons [of cfg "Idx ps" "ch CHR ''.''" "width_text p' @ [x]"] by (simp add: pred_option_def)
  then obtain qs where qs: "scans cfg t ?it ?ps (length (width_text p')) it' qs" "Args qs = args"
    using v(2) by blast
  have "scans cfg t it ps (1 + length (width_text p')) it' qs" by (rule scans_trans [OF dot qs(1)])
  then show ?thesis using qs(2) Some by auto
qed

lemma dir_scans:
  assumes cfg: "sink_of cfg" and fits: "fits t" and ps: "printed t ps"
    and ok: "list_all (flag_ok cfg) fl" "pred_option width_ok w" "pred_option width_ok p"
    and item: "dir_item fl w p (Args ps) = Some (it, args)"
    and src: "at_fmt cfg (Idx ps) (map flag_char fl @
        (case w of Some w \<Rightarrow> width_text w | None \<Rightarrow> []) @
        (case p of Some p \<Rightarrow> ch CHR ''.'' # width_text p | None \<Rightarrow> []) @ [x])"
    and x: "x < 48 \<or> 57 < x"
  obtains qs where "Print_directives cfg new_item 0 ps = Print_directives cfg it 0 qs" "printed t qs"
    "Item it = None" "Args qs = args" "Idx qs = Idx ps + length (map flag_char fl @
        (case w of Some w \<Rightarrow> width_text w | None \<Rightarrow> []) @
        (case p of Some p \<Rightarrow> ch CHR ''.'' # width_text p | None \<Rightarrow> []))"
proof -
  let ?it0 = "fold apply_flag fl new_item"
  let ?wt = "case w of Some w \<Rightarrow> width_text w | None \<Rightarrow> []"
  let ?pt = "case p of Some p \<Rightarrow> ch CHR ''.'' # width_text p | None \<Rightarrow> []"
  have parse: "\<not> WidthParse_field ?it0" "Item ?it0 = None"
  proof -
    have "WidthParse_field (fold apply_flag fl it) = WidthParse_field it \<and>
      Item (fold apply_flag fl it) = Item it" for it
    proof (induction fl arbitrary: it)
      case (Cons f fl)
      then show ?case by (cases f) simp_all
    qed simp
    then show "\<not> WidthParse_field ?it0" "Item ?it0 = None" by (simp_all add: new_item_def)
  qed
  have "\<exists>qs. scans cfg t new_item ps (length fl) ?it0 qs \<and> Args qs = Args ps"
    using src ps ok by (intro flags_scan [OF cfg fits]) (simp_all add: at_fmt_append new_item_def)
  then obtain q1 where q1: "scans cfg t new_item ps (length fl) ?it0 q1" "Args q1 = Args ps" by blast
  obtain it1 args1 where it1:
    "(case w of None \<Rightarrow> Some (?it0, Args q1)
          | Some w \<Rightarrow> do { (v, args) \<leftarrow> width_arg w (Args q1); Some (?it0\<lparr>Width := v\<rparr>, args) }) = Some (it1, args1)"
    "(case p of None \<Rightarrow> Some (it1, args1)
          | Some p \<Rightarrow> do { (v, args) \<leftarrow> width_arg p args1;
                            Some (it1\<lparr>WidthParse_field := True, FieldWidth := v\<rparr>, args) }) = Some (it, args)"
    using item unfolding dir_item_def Let_def q1(2) [symmetric] bind_eq_Some_conv
    by (elim exE conjE, case_tac y) (simp only: prod.case)
  define y where "y = hd (?pt @ [x])"
  obtain r where "?pt @ [x] = y # r" by (cases p) (simp_all add: y_def)
  then have "at_fmt cfg (Idx ps + length fl) ((?wt @ [y]) @ r)"
    using src by (simp only: at_fmt_append append_assoc length_map append_Cons append_Nil)
  then have y: "at_fmt cfg (Idx q1) (?wt @ [y])"
    using q1(1) by (simp only: at_fmt_append scans_def)
  have y': "y < 48 \<or> 57 < y" using x by (cases p) (simp_all add: y_def)
  have "\<exists>qs. scans cfg t ?it0 q1 (length ?wt) it1 qs \<and> Args qs = args1"
    using optional_width_scans [OF cfg ok(2) it1(1) y y' _ parse(2,1)] q1 by (simp add: scans_def)
  then obtain q2 where q2: "scans cfg t ?it0 q1 (length ?wt) it1 q2" "Args q2 = args1" by blast
  have "\<exists>qs. scans cfg t it1 q2 (length ?pt) it qs \<and> Args qs = args"
  proof (rule optional_field_scans [OF cfg ok(3) _ _ x])
    show "at_fmt cfg (Idx q2) (?pt @ [x])"
      using src q1(1) q2(1) by (simp add: scans_def at_fmt_append add.assoc)
    show "printed t q2" "Item it1 = None" using q2(1) by (simp_all add: scans_def)
  qed (simp only: q2(2) it1(2))
  then obtain q3 where q3: "scans cfg t it1 q2 (length ?pt) it q3" "Args q3 = args" by blast
  have "scans cfg t new_item ps (length fl + length ?wt + length ?pt) it q3"
    by (rule scans_trans [OF scans_trans [OF q1(1) q2(1)] q3(1)])
  then show thesis using q3(2) by (intro that [of q3]) (auto simp: scans_def)
qed

lemma directives_render:
  assumes cfg: "sink_of cfg" and ok: "piece_ok cfg (Dir fl w p gl c)"
    and dir: "dir_item fl w p (Args ps) = Some (it, args')"
      "conv_renders (Convert cfg) kept (fold apply_flag gl it) c args' s args"
    and src: "at_fmt cfg (Idx ps) (tl (unparse_piece (Dir fl w p gl c)))"
    and t: "printed t ps" "13 \<notin> set s" "fits (t @ with_cr s)"
  shows "\<exists>qs. Print_directives cfg new_item 0 ps = Some qs \<and> printed (t @ with_cr s) qs \<and>
    Idx qs = Idx ps + length (tl (unparse_piece (Dir fl w p gl c))) \<and> Args qs = args"
proof -
  let ?body = "map flag_char fl @ (case w of Some w \<Rightarrow> width_text w | None \<Rightarrow> []) @
        (case p of Some p \<Rightarrow> ch CHR ''.'' # width_text p | None \<Rightarrow> [])"
  let ?tail = "map flag_char gl @ [conv_char c]" and ?it = "fold apply_flag gl it"
  have conv: "conv_ok c" using ok by simp
  obtain x xs where x: "?tail = x # xs" by (cases "?tail") simp_all
  have "x < 48 \<or> 57 < x"
    using x ok conv_char_not_digit [OF conv] flag_char_not_digit [of "hd gl"] by (cases gl) auto
  moreover have at: "at_fmt cfg (Idx ps) (?body @ x # xs)" using src by (simp add: x [symmetric])
  then have "at_fmt cfg (Idx ps) (?body @ [x])"
    using at_fmt_append [of cfg "Idx ps" "?body @ [x]" xs] by simp
  ultimately obtain q0 where q0: "Print_directives cfg new_item 0 ps = Print_directives cfg it 0 q0" "printed t q0"
    "Item it = None" "Args q0 = args'" "Idx q0 = Idx ps + length ?body"
    by (rule_tac dir_scans [OF cfg fits_prefix [OF t(3)] t(1) _ _ _ dir(1)]) (use ok in auto)
  have tail: "at_fmt cfg (Idx q0) ?tail" using at unfolding x q0(5) at_fmt_append by simp
  have "\<exists>qs. scans cfg t it q0 (length gl) ?it qs \<and> Args qs = Args q0"
    using tail ok q0 by (intro flags_scan [OF cfg fits_prefix [OF t(3)]]) (simp_all add: at_fmt_append)
  then obtain qs where "scans cfg t it q0 (length gl) ?it qs" "Args qs = args'" using q0(4) by auto
  then have qs: "Print_directives cfg new_item 0 ps = Print_directives cfg ?it 0 qs" "printed t qs"
    "Item ?it = None" "Args qs = args'" "Idx qs = Idx ps + length ?body + length gl"
    using q0(1,5) by (simp_all add: scans_def)
  let ?qs = "qs\<lparr>Idx := Idx qs + 1\<rparr>"
  have conv_render': "conv_renders (Convert cfg) kept ?it c (Args ?qs) s args" using dir(2) qs(4) by simp
  have now: "kept (Mem cfg (Sink ?qs))" using printed_kept [OF cfg qs(2)] by simp
  obtain u where u: "holds_item kept (Print_directive cfg (conv_char c) ?it 0 ?qs) (conv_item c ?it) u (?qs\<lparr>Args := args\<rparr>)"
    "s = item_text (conv_item c ?it) u"
    by (rule Print_directive_conv_render [OF conv conv_render' now])
  then obtain src' where item: "Print_directive cfg (conv_char c) ?it 0 ?qs =
      Some (with_item src' (conv_item c ?it), 0, ?qs\<lparr>Args := args\<rparr>)" "\<And>m. kept m \<Longrightarrow> src_text m src' u"
    unfolding holds_item_def by blast
  let ?item = "with_item src' (conv_item c ?it)"
  have it: "Item ?item = Some src'" "item_text ?item u = s"
    using u(2) by (simp_all add: with_item_def item_text_def Let_def)
  have pads: "Pad ?it \<in> {32, 48}" by (rule flags_Pad [OF dir_item_Pad [OF dir(1)]])
  have pad: "Pad ?item \<noteq> 0" "Pad ?item \<noteq> 13" "Pad ?item \<noteq> 10" using pads by (cases c; auto simp: with_item_def)+
  have "at_fmt cfg (Idx qs) [conv_char c]" using tail q0(5) qs(5) by (simp add: at_fmt_append)
  from at_fmt_now [OF this cfg qs(2)] have "PGETC (Mem cfg (Sink qs)) (fmt cfg) (Idx qs) = Some (conv_char c)" by simp
  then have "Print_directives cfg new_item 0 ps = PITEM cfg ?item (?qs\<lparr>Args := args\<rparr>)"
    unfolding qs(1) by (rule Print_directives_item [OF _ conv_char_nonzero [OF conv] item(1)]) (simp add: it(1))
  moreover have "step_to (PITEM cfg ?item (?qs\<lparr>Args := args\<rparr>)) (t @ with_cr (item_text ?item u)) (?qs\<lparr>Args := args\<rparr>)"
    using t qs(2) it pad item(2) by (intro PITEM_prints [OF cfg]) simp_all
  ultimately show ?thesis using it(2) qs(5) by (auto simp: step_to_def)
qed

lemma restore_attr_prints:
  assumes "sink_of cfg" "printed t ps" "fits t"
  shows "step_to (if RestoreAttr ps \<noteq> 0 then PSETATTR cfg (RestoreAttr ps) ps else Some ps) t ps"
  using PSETATTR_prints [OF assms] assms(2) by (simp add: step_to_Some)

lemma loop_renders:
  assumes cfg: "sink_of cfg"
  shows "list_all (piece_ok cfg) pcs \<Longrightarrow> renders (Convert cfg) kept pcs (Args ps) t \<Longrightarrow>
    at_fmt cfg (Idx ps) (unparse pcs @ [0]) \<Longrightarrow> printed u ps \<Longrightarrow> 13 \<notin> set t \<Longrightarrow>
    fits (u @ with_cr t) \<Longrightarrow> \<exists>qs. Print_loop cfg ps = Some qs \<and> printed (u @ with_cr t) qs"
proof (induction pcs arbitrary: ps t u)
  case Nil
  then have "PGETC (Mem cfg (Sink ps)) (fmt cfg) (Idx ps) = Some 0"
    using at_fmt_now [OF Nil.prems(3) cfg Nil.prems(4)] by (simp add: unparse_def)
  then show ?case using Nil by (subst Print_loop.simps) simp
next
  case (Cons pc pcs)
  have src: "at_fmt cfg (Idx ps) (unparse_piece pc)"
    "at_fmt cfg (Idx ps + length (unparse_piece pc)) (unparse pcs @ [0])"
    using Cons.prems(3) by (simp_all add: unparse_def at_fmt_append)
  note here = at_fmt_now [OF src(1) cfg Cons.prems(4)]
  let ?ps = "ps\<lparr>Idx := Idx ps + 1\<rparr>"
  show ?case
  proof (cases pc)
    case (Lit c)
    obtain t' where t': "renders (Convert cfg) kept pcs (Args ps) t'" "t = c # t'"
      using Cons.prems(2) Lit by auto
    have c: "c \<noteq> 0" "c \<noteq> ch CHR ''%''" "c \<noteq> 13" using Cons.prems(1,5) Lit t'(2) by auto
    have f: "fits ((u @ crlf c) @ with_cr t')" using Cons.prems(6) t'(2) by simp
    have "step_to (PPUTC cfg c ?ps) (u @ crlf c) ?ps"
      using Cons.prems(4) c fits_prefix [OF f] by (intro PPUTC_prints [OF cfg]) simp_all
    then obtain qs where qs: "PPUTC cfg c ?ps = Some qs" "printed (u @ crlf c) qs" "Idx qs = Idx ps + 1"
      "Args qs = Args ps" by (auto simp: step_to_def)
    have "Print_loop cfg ps = Print_loop cfg qs"
      using here Lit c qs(1) by (subst Print_loop.simps) simp
    moreover have "\<exists>rs. Print_loop cfg qs = Some rs \<and> printed ((u @ crlf c) @ with_cr t') rs"
      using Cons.prems qs t' src(2) Lit f by (intro Cons.IH) simp_all
    ultimately show ?thesis using t'(2) by simp
  next
    case (Set_attr a)
    have a: "attr_value cfg a \<noteq> 0" using Cons.prems(1) Set_attr by simp
    let ?qs = "?ps\<lparr>RestoreAttr := 0\<rparr>"
    let ?rs = "?qs\<lparr>Idx := Idx ?qs + 1\<rparr>"
    have step: "step_to (PSETATTR cfg (attr_value cfg a) ?rs) u ?rs"
      using Cons.prems(4) fits_prefix [OF Cons.prems(6)] by (intro PSETATTR_prints [OF cfg]) simp_all
    then obtain vs where vs: "PSETATTR cfg (attr_value cfg a) ?rs = Some vs" "printed u vs"
      "Idx vs = Suc (Suc (Idx ps))" "Args vs = Args ps" by (auto simp: step_to_def)
    have "Print_directives cfg new_item 0 ?qs = Some (vs\<lparr>RestoreAttr := 0\<rparr>)"
    proof -
      have "PGETC (Mem cfg (Sink ?qs)) (fmt cfg) (Idx ?qs) = Some (attr_upper a)" using here Set_attr by simp
      then show ?thesis using a vs(1) flag_char_nonzero(2) [of a]
        by (subst Print_directives.simps) (simp add: Print_directive_upper new_item_def)
    qed
    then have "Print_loop cfg ps = Print_loop cfg (vs\<lparr>RestoreAttr := 0\<rparr>)"
      using here Set_attr by (subst Print_loop.simps) simp
    moreover have "\<exists>rs. Print_loop cfg (vs\<lparr>RestoreAttr := 0\<rparr>) = Some rs \<and> printed (u @ with_cr t) rs"
      using Cons.prems vs src(2) Set_attr by (intro Cons.IH) (simp_all add: numeral_2_eq_2)
    ultimately show ?thesis by simp
  next
    case (Dir fl w p gl c)
    obtain it args' s args t' where d: "dir_item fl w p (Args ps) = Some (it, args')"
      "conv_renders (Convert cfg) kept (fold apply_flag gl it) c args' s args" "renders (Convert cfg) kept pcs args t'"
      "t = s @ t'"
      using Cons.prems(2) Dir by auto
    have f: "fits ((u @ with_cr s) @ with_cr t')" using Cons.prems(6) d(4) by simp
    let ?qs = "?ps\<lparr>RestoreAttr := 0\<rparr>"
    have rest: "at_fmt cfg (Idx ps + 1) (tl (unparse_piece (Dir fl w p gl c)))"
      using src(1) Dir at_fmt_Cons [of cfg "Idx ps" "ch CHR ''%''" "tl (unparse_piece (Dir fl w p gl c))"] by simp
    have "\<exists>qs. Print_directives cfg new_item 0 ?qs = Some qs \<and> printed (u @ with_cr s) qs \<and>
      Idx qs = Idx ?qs + length (tl (unparse_piece (Dir fl w p gl c))) \<and> Args qs = args"
      using Cons.prems(1,4,5) Dir d rest fits_prefix [OF f]
      by (intro directives_render [OF cfg]) (simp_all add: numeral_2_eq_2)
    then obtain qs where qs: "Print_directives cfg new_item 0 ?qs = Some qs" "printed (u @ with_cr s) qs"
      "Idx qs = Idx ps + length (unparse_piece pc)" "Args qs = args" using Dir by auto
    obtain rs where rs: "(if RestoreAttr qs \<noteq> 0 then PSETATTR cfg (RestoreAttr qs) qs else Some qs) = Some rs"
      "printed (u @ with_cr s) rs" "Idx rs = Idx qs" "Args rs = Args qs"
      using restore_attr_prints [OF cfg qs(2) fits_prefix [OF f]] by (auto simp: step_to_def)
    have "Print_loop cfg ps = Print_loop cfg rs"
      using here Dir qs(1) rs(1) by (subst Print_loop.simps) simp
    moreover have "\<exists>vs. Print_loop cfg rs = Some vs \<and> printed ((u @ with_cr s) @ with_cr t') vs"
      using Cons.prems qs rs d src(2) f by (intro Cons.IH) simp_all
    ultimately show ?thesis using d(4) by simp
  qed
qed

theorem Print_renders:
  assumes cfg: "sink_of cfg" and ok: "list_all (piece_ok cfg) pcs"
    and src: "\<And>m. kept m \<Longrightarrow> src_text m (fmt cfg) (unparse pcs)"
    and t: "renders (Convert cfg) kept pcs (Args ps) t" "13 \<notin> set t" "fits (with_cr t)"
    and start: "given d [] (Sink ps)"
  shows "\<exists>qs. Print_1 cfg ps = Some (word_of_nat (length (with_cr t)), qs) \<and> given True (with_cr t) (Sink qs)"
proof -
  let ?ps = "ps\<lparr>Len := 0, Buf := [], Idx := 0\<rparr>"
  have "printed [] ?ps" using start by (auto simp: printed_def)
  moreover have "at_fmt cfg (Idx ?ps) (unparse pcs @ [0])" using src by (simp add: src_text_def at_fmt_def)
  ultimately obtain qs where qs: "Print_loop cfg ?ps = Some qs" "printed (with_cr t) qs"
    using loop_renders [OF cfg ok, of ?ps t "[]"] t by auto
  obtain x where "PFLUSH cfg qs = Some (qs\<lparr>Buf := [], Sink := x\<rparr>)" "given True (with_cr t) x"
    using PFLUSH_prints [OF cfg qs(2) t(3)] by blast
  then show ?thesis using qs by (simp add: Print_1_def printed_def)
qed

end

end
