(* ===== verification/Guids.thy ===== *)
theory Guids
  imports Machine
begin

text \<open>
  lib/data.c and lib/guid.c: the GUIDs the library knows by name, with the values of the macros in
  inc/, and the table \<open>KnownGuids\<close> that \<open>GuidToString\<close> searches. \<open>guid_bytes\<close> is the layout of
  \<open>EFI_GUID\<close> in memory.
\<close>

subsection \<open>GUIDs\<close>

datatype EFI_GUID = GUID u32 u16 u16 "u8 list"

fun guid_bytes :: "EFI_GUID \<Rightarrow> u8 list" where
  "guid_bytes (GUID d1 d2 d3 d4) = le_bytes 4 d1 @ le_bytes 2 d2 @ le_bytes 2 d3 @ d4"

definition gEfiGlobalVariableGuid :: EFI_GUID where
  "gEfiGlobalVariableGuid = GUID 0x8be4df61 0x93ca 0x11d2 [0xaa, 0x0d, 0x00, 0xe0, 0x98, 0x03, 0x2b, 0x8c]"

definition gZeroGuid :: EFI_GUID where
  "gZeroGuid = GUID 0x00000000 0x0000 0x0000 [0x00, 0x00, 0x00, 0x00, 0x00, 0x00, 0x00, 0x00]"

definition gEfiDevicePathProtocolGuid :: EFI_GUID where
  "gEfiDevicePathProtocolGuid = GUID 0x09576e91 0x6d3f 0x11d2 [0x8e, 0x39, 0x00, 0xa0, 0xc9, 0x69, 0x72, 0x3b]"

definition gEfiLoadedImageProtocolGuid :: EFI_GUID where
  "gEfiLoadedImageProtocolGuid = GUID 0x5b1b31a1 0x9562 0x11d2 [0x8e, 0x3f, 0x00, 0xa0, 0xc9, 0x69, 0x72, 0x3b]"

definition gEfiSimpleTextInProtocolGuid :: EFI_GUID where
  "gEfiSimpleTextInProtocolGuid = GUID 0x387477c1 0x69c7 0x11d2 [0x8e, 0x39, 0x00, 0xa0, 0xc9, 0x69, 0x72, 0x3b]"

definition gEfiSimpleTextOutProtocolGuid :: EFI_GUID where
  "gEfiSimpleTextOutProtocolGuid = GUID 0x387477c2 0x69c7 0x11d2 [0x8e, 0x39, 0x00, 0xa0, 0xc9, 0x69, 0x72, 0x3b]"

definition gEfiBlockIoProtocolGuid :: EFI_GUID where
  "gEfiBlockIoProtocolGuid = GUID 0x964e5b21 0x6459 0x11d2 [0x8e, 0x39, 0x00, 0xa0, 0xc9, 0x69, 0x72, 0x3b]"

definition gEfiBlockIo2ProtocolGuid :: EFI_GUID where
  "gEfiBlockIo2ProtocolGuid = GUID 0xa77b2472 0xe282 0x4e9f [0xa2, 0x45, 0xc2, 0xc0, 0xe2, 0x7b, 0xbc, 0xc1]"

definition gEfiDiskIoProtocolGuid :: EFI_GUID where
  "gEfiDiskIoProtocolGuid = GUID 0xce345171 0xba0b 0x11d2 [0x8e, 0x4f, 0x00, 0xa0, 0xc9, 0x69, 0x72, 0x3b]"

definition gEfiDiskIo2ProtocolGuid :: EFI_GUID where
  "gEfiDiskIo2ProtocolGuid = GUID 0x151c8eae 0x7f2c 0x472c [0x9e, 0x54, 0x98, 0x28, 0x19, 0x4f, 0x6a, 0x88]"

definition gEfiSimpleFileSystemProtocolGuid :: EFI_GUID where
  "gEfiSimpleFileSystemProtocolGuid = GUID 0x964e5b22 0x6459 0x11d2 [0x8e, 0x39, 0x00, 0xa0, 0xc9, 0x69, 0x72, 0x3b]"

definition gEfiLoadFileProtocolGuid :: EFI_GUID where
  "gEfiLoadFileProtocolGuid = GUID 0x56ec3091 0x954c 0x11d2 [0x8e, 0x3f, 0x00, 0xa0, 0xc9, 0x69, 0x72, 0x3b]"

definition gEfiDeviceIoProtocolGuid :: EFI_GUID where
  "gEfiDeviceIoProtocolGuid = GUID 0xaf6ac311 0x84c3 0x11d2 [0x8e, 0x3c, 0x00, 0xa0, 0xc9, 0x69, 0x72, 0x3b]"

definition gEfiUnicodeCollationProtocolGuid :: EFI_GUID where
  "gEfiUnicodeCollationProtocolGuid = GUID 0x1d85cd7f 0xf43d 0x11d2 [0x9a, 0x0c, 0x00, 0x90, 0x27, 0x3f, 0xc1, 0x4d]"

definition gEfiSerialIoProtocolGuid :: EFI_GUID where
  "gEfiSerialIoProtocolGuid = GUID 0xbb25cf6f 0xf1d4 0x11d2 [0x9a, 0x0c, 0x00, 0x90, 0x27, 0x3f, 0xc1, 0xfd]"

definition gEfiSimpleNetworkProtocolGuid :: EFI_GUID where
  "gEfiSimpleNetworkProtocolGuid = GUID 0xa19832b9 0xac25 0x11d3 [0x9a, 0x2d, 0x00, 0x90, 0x27, 0x3f, 0xc1, 0x4d]"

definition gEfiPxeBaseCodeProtocolGuid :: EFI_GUID where
  "gEfiPxeBaseCodeProtocolGuid = GUID 0x03c4e603 0xac28 0x11d3 [0x9a, 0x2d, 0x00, 0x90, 0x27, 0x3f, 0xc1, 0x4d]"

definition gEfiPxeBaseCodeCallbackProtocolGuid :: EFI_GUID where
  "gEfiPxeBaseCodeCallbackProtocolGuid = GUID 0x245dca21 0xfb7b 0x11d3 [0x8f, 0x01, 0x00, 0xa0, 0xc9, 0x69, 0x72, 0x3b]"

definition gEfiNetworkInterfaceIdentifierProtocolGuid :: EFI_GUID where
  "gEfiNetworkInterfaceIdentifierProtocolGuid = GUID 0xe18541cd 0xf755 0x4f73 [0x92, 0x8d, 0x64, 0x3c, 0x8a, 0x79, 0xb2, 0x29]"

definition gEfiComponentNameProtocolGuid :: EFI_GUID where
  "gEfiComponentNameProtocolGuid = GUID 0x107a772c 0xd5e1 0x11d4 [0x9a, 0x46, 0x00, 0x90, 0x27, 0x3f, 0xc1, 0x4d]"

definition gEfiComponentName2ProtocolGuid :: EFI_GUID where
  "gEfiComponentName2ProtocolGuid = GUID 0x6a7a5cff 0xe8d9 0x4f70 [0xba, 0xda, 0x75, 0xab, 0x30, 0x25, 0xce, 0x14]"

definition gEfiFileInfoGuid :: EFI_GUID where
  "gEfiFileInfoGuid = GUID 0x09576e92 0x6d3f 0x11d2 [0x8e, 0x39, 0x00, 0xa0, 0xc9, 0x69, 0x72, 0x3b]"

definition gEfiFileSystemInfoGuid :: EFI_GUID where
  "gEfiFileSystemInfoGuid = GUID 0x09576e93 0x6d3f 0x11d2 [0x8e, 0x39, 0x00, 0xa0, 0xc9, 0x69, 0x72, 0x3b]"

definition gEfiFileSystemVolumeLabelInfoIdGuid :: EFI_GUID where
  "gEfiFileSystemVolumeLabelInfoIdGuid = GUID 0xdb47d7d3 0xfe81 0x11d3 [0x9a, 0x35, 0x00, 0x90, 0x27, 0x3f, 0xc1, 0x4d]"

definition gEfiMpServicesProtocolGuid :: EFI_GUID where
  "gEfiMpServicesProtocolGuid = GUID 0x3fdda605 0xa76e 0x4f46 [0xad, 0x29, 0x12, 0xf4, 0x53, 0x1b, 0x3d, 0x08]"

definition VariableStoreProtocol :: EFI_GUID where
  "VariableStoreProtocol = GUID 0xf088cd91 0xa046 0x11d2 [0x8e, 0x42, 0x00, 0xa0, 0xc9, 0x69, 0x72, 0x3b]"

definition LegacyBootProtocol :: EFI_GUID where
  "LegacyBootProtocol = GUID 0x376e5eb2 0x30e4 0x11d3 [0xba, 0xe5, 0x00, 0x80, 0xc7, 0x3c, 0x88, 0x81]"

definition VgaClassProtocol :: EFI_GUID where
  "VgaClassProtocol = GUID 0x0e3d6310 0x6fe4 0x11d3 [0xbb, 0x81, 0x00, 0x80, 0xc7, 0x3c, 0x88, 0x81]"

definition TextOutSpliterProtocol :: EFI_GUID where
  "TextOutSpliterProtocol = GUID 0x56d830a0 0x7e7a 0x11d3 [0xbb, 0xa0, 0x00, 0xa0, 0xc9, 0x69, 0x72, 0x3b]"

definition ErrorOutSpliterProtocol :: EFI_GUID where
  "ErrorOutSpliterProtocol = GUID 0xf0ba9039 0x68f1 0x425e [0xaa, 0x7f, 0xd9, 0xaa, 0xf9, 0x1b, 0x82, 0xa1]"

definition TextInSpliterProtocol :: EFI_GUID where
  "TextInSpliterProtocol = GUID 0xf9a3c550 0x7fb5 0x11d3 [0xbb, 0xa0, 0x00, 0xa0, 0xc9, 0x69, 0x72, 0x3b]"

definition gEfiPcAnsiGuid :: EFI_GUID where
  "gEfiPcAnsiGuid = GUID 0xe0c14753 0xf9be 0x11d2 [0x9a, 0x0c, 0x00, 0x90, 0x27, 0x3f, 0xc1, 0x4d]"

definition gEfiVT100Guid :: EFI_GUID where
  "gEfiVT100Guid = GUID 0xdfa66065 0xb419 0x11d3 [0x9a, 0x2d, 0x00, 0x90, 0x27, 0x3f, 0xc1, 0x4d]"

definition gEfiVT100PlusGuid :: EFI_GUID where
  "gEfiVT100PlusGuid = GUID 0x7baec70b 0x57e0 0x4c76 [0x8e, 0x87, 0x2f, 0x9e, 0x28, 0x08, 0x83, 0x43]"

definition gEfiVTUTF8Guid :: EFI_GUID where
  "gEfiVTUTF8Guid = GUID 0xad15a0d6 0x8bec 0x4acf [0xa0, 0x73, 0xd0, 0x1d, 0xe7, 0x7e, 0x2d, 0x88]"

definition EfiPartTypeSystemPartitionGuid :: EFI_GUID where
  "EfiPartTypeSystemPartitionGuid = GUID 0xc12a7328 0xf81f 0x11d2 [0xba, 0x4b, 0x00, 0xa0, 0xc9, 0x3e, 0xc9, 0x3b]"

definition EfiPartTypeLegacyMbrGuid :: EFI_GUID where
  "EfiPartTypeLegacyMbrGuid = GUID 0x024dee41 0x33e7 0x11d3 [0x9d, 0x69, 0x00, 0x08, 0xc7, 0x81, 0xf3, 0x9f]"

definition UnknownDevice :: EFI_GUID where
  "UnknownDevice = GUID 0xcf31fac5 0xc24e 0x11d2 [0x85, 0xf3, 0x00, 0xa0, 0xc9, 0x3e, 0xc9, 0x3b]"

definition ShellInterfaceProtocol :: EFI_GUID where
  "ShellInterfaceProtocol = GUID 0x47c7b223 0xc42a 0x11d2 [0x8e, 0x57, 0x00, 0xa0, 0xc9, 0x69, 0x72, 0x3b]"

definition SEnvId :: EFI_GUID where
  "SEnvId = GUID 0x47c7b224 0xc42a 0x11d2 [0x8e, 0x57, 0x00, 0xa0, 0xc9, 0x69, 0x72, 0x3b]"

definition SMapId :: EFI_GUID where
  "SMapId = GUID 0x47c7b225 0xc42a 0x11d2 [0x8e, 0x57, 0x00, 0xa0, 0xc9, 0x69, 0x72, 0x3b]"

definition SProtId :: EFI_GUID where
  "SProtId = GUID 0x47c7b226 0xc42a 0x11d2 [0x8e, 0x57, 0x00, 0xa0, 0xc9, 0x69, 0x72, 0x3b]"

definition SAliasId :: EFI_GUID where
  "SAliasId = GUID 0x47c7b227 0xc42a 0x11d2 [0x8e, 0x57, 0x00, 0xa0, 0xc9, 0x69, 0x72, 0x3b]"

subsection \<open>The names\<close>

definition KnownGuids :: "(EFI_GUID \<times> string) list" where
  "KnownGuids = [
     (gZeroGuid, ''NullGuid''),
     (gEfiGlobalVariableGuid, ''EfiVar''),
     (VariableStoreProtocol, ''VarStore''),
     (gEfiDevicePathProtocolGuid, ''DevPath''),
     (gEfiLoadedImageProtocolGuid, ''LdImg''),
     (gEfiSimpleTextInProtocolGuid, ''TxtIn''),
     (gEfiSimpleTextOutProtocolGuid, ''TxtOut''),
     (gEfiBlockIoProtocolGuid, ''BlkIo''),
     (gEfiBlockIo2ProtocolGuid, ''BlkIo2''),
     (gEfiDiskIoProtocolGuid, ''DskIo''),
     (gEfiDiskIo2ProtocolGuid, ''DskIo2''),
     (gEfiSimpleFileSystemProtocolGuid, ''Fs''),
     (gEfiLoadFileProtocolGuid, ''LdFile''),
     (gEfiDeviceIoProtocolGuid, ''DevIo''),
     (gEfiComponentNameProtocolGuid, ''CName''),
     (gEfiComponentName2ProtocolGuid, ''CName2''),
     (gEfiMpServicesProtocolGuid, ''Mp''),
     (gEfiFileInfoGuid, ''FileInfo''),
     (gEfiFileSystemInfoGuid, ''FsInfo''),
     (gEfiFileSystemVolumeLabelInfoIdGuid, ''FsVolInfo''),
     (gEfiUnicodeCollationProtocolGuid, ''Unicode''),
     (LegacyBootProtocol, ''LegacyBoot''),
     (gEfiSerialIoProtocolGuid, ''SerIo''),
     (VgaClassProtocol, ''VgaClass''),
     (gEfiSimpleNetworkProtocolGuid, ''Net''),
     (gEfiNetworkInterfaceIdentifierProtocolGuid, ''Nii''),
     (gEfiPxeBaseCodeProtocolGuid, ''Pxe''),
     (gEfiPxeBaseCodeCallbackProtocolGuid, ''PxeCb''),
     (TextOutSpliterProtocol, ''TxtOutSplit''),
     (ErrorOutSpliterProtocol, ''ErrOutSplit''),
     (TextInSpliterProtocol, ''TxtInSplit''),
     (gEfiPcAnsiGuid, ''PcAnsi''),
     (gEfiVT100Guid, ''Vt100''),
     (gEfiVT100PlusGuid, ''Vt100Plus''),
     (gEfiVTUTF8Guid, ''VtUtf8''),
     (UnknownDevice, ''UnknownDev''),
     (EfiPartTypeSystemPartitionGuid, ''ESP''),
     (EfiPartTypeLegacyMbrGuid, ''GPT MBR''),
     (ShellInterfaceProtocol, ''ShellInt''),
     (SEnvId, ''SEnv''),
     (SProtId, ''ShellProtId''),
     (SMapId, ''ShellDevPathMap''),
     (SAliasId, ''ShellAlias'')]"

lemmas guid_values =
  gZeroGuid_def gEfiGlobalVariableGuid_def VariableStoreProtocol_def
  gEfiDevicePathProtocolGuid_def gEfiLoadedImageProtocolGuid_def
  gEfiSimpleTextInProtocolGuid_def gEfiSimpleTextOutProtocolGuid_def gEfiBlockIoProtocolGuid_def
  gEfiBlockIo2ProtocolGuid_def gEfiDiskIoProtocolGuid_def gEfiDiskIo2ProtocolGuid_def
  gEfiSimpleFileSystemProtocolGuid_def gEfiLoadFileProtocolGuid_def gEfiDeviceIoProtocolGuid_def
  gEfiComponentNameProtocolGuid_def gEfiComponentName2ProtocolGuid_def
  gEfiMpServicesProtocolGuid_def gEfiFileInfoGuid_def gEfiFileSystemInfoGuid_def
  gEfiFileSystemVolumeLabelInfoIdGuid_def gEfiUnicodeCollationProtocolGuid_def
  LegacyBootProtocol_def gEfiSerialIoProtocolGuid_def VgaClassProtocol_def
  gEfiSimpleNetworkProtocolGuid_def gEfiNetworkInterfaceIdentifierProtocolGuid_def
  gEfiPxeBaseCodeProtocolGuid_def gEfiPxeBaseCodeCallbackProtocolGuid_def
  TextOutSpliterProtocol_def ErrorOutSpliterProtocol_def TextInSpliterProtocol_def
  gEfiPcAnsiGuid_def gEfiVT100Guid_def gEfiVT100PlusGuid_def gEfiVTUTF8Guid_def
  UnknownDevice_def EfiPartTypeSystemPartitionGuid_def EfiPartTypeLegacyMbrGuid_def
  ShellInterfaceProtocol_def SEnvId_def SProtId_def SMapId_def SAliasId_def

text \<open>No GUID has two names, and the values are told apart by their bytes.\<close>

lemma guid_bytes_inject:
  "length d4 = length e4 \<Longrightarrow> guid_bytes (GUID d1 d2 d3 d4) = guid_bytes (GUID e1 e2 e3 e4) \<longleftrightarrow>
     d1 = e1 \<and> d2 = e2 \<and> d3 = e3 \<and> d4 = e4"
  by (auto simp: le_bytes_inject)

lemma KnownGuids_distinct: "distinct (map fst KnownGuids)"
  by (simp add: KnownGuids_def guid_values)

end
