(* ===== verification/PrintApi.thy ===== *)
theory PrintApi
  imports PrintPieces Guids
begin

text \<open>
  lib/va_print.c, lib/print.c, lib/guid.c, lib/error.c: the output routines behind the engine and the
  functions a program calls.

  \<^item> \<open>SPrint_1\<close> and \<open>PoolPrint_1\<close> are \<open>_SPrint\<close> and \<open>_PoolPrint\<close>: they append to the buffer of a
    \<open>POOL_PRINT\<close>. The console's output routine is the firmware's \<open>OutputString\<close>.
  \<^item> \<open>'w plib\<close> holds what the functions use besides the pool: the consoles of the system table, the
    debug dmask, the halfword below the engine's local buffer, and the two conversions that are not
    modelled here (\<open>FloatToString\<close>, \<open>DevicePathToStr\<close>).
  \<^item> \<open>GuidToString\<close>, \<open>StatusToString\<close> and \<open>TimeToString\<close> give the text they print to the buffer
    they are handed, which they call \<open>UnicodeSPrint\<close> without a limit for (\<open>sprint_text\<close>).
\<close>

subsection \<open>Appending to a buffer\<close>

record POOL_PRINT =
  sp_str :: addr
  sp_len :: nat
  sp_maxlen :: nat

text \<open>\<open>CopyMem\<close> from the engine's local buffer.\<close>

definition copy_local :: "mem \<Rightarrow> addr \<Rightarrow> u8 list \<Rightarrow> mem option" where
  "copy_local m p bs = (if bs = [] then Some m else wr_bytes m p bs)"

definition SPrint_1 :: "u16 list \<Rightarrow> POOL_PRINT \<times> 'w st \<Rightarrow> (POOL_PRINT \<times> 'w st) option" where
  "SPrint_1 Buffer x = (case x of (spc, s) \<Rightarrow>
     let n = length (takeWhile (\<lambda>c. c \<noteq> 0) Buffer);
         n = (if sp_maxlen spc < uintn (sp_len spc + n) then uintn (sp_maxlen spc + 2 ^ 64 - sp_len spc) else n)
     in do {
       m \<leftarrow> copy_local (ram s) (sp_str spc + 2 * sp_len spc) (enc16 (take n Buffer));
       let spc = spc\<lparr>sp_len := uintn (sp_len spc + n)\<rparr>;
       m \<leftarrow> (if sp_len spc < sp_maxlen spc then wr16 m (sp_str spc + 2 * sp_len spc) 0
            else if sp_maxlen spc \<noteq> 0 then wr16 m (sp_str spc + 2 * sp_maxlen spc) 0
            else Some m);
       Some (spc, with_ram s m) })"

definition PoolPrint_1 ::
  "'w lib \<Rightarrow> u16 list \<Rightarrow> POOL_PRINT \<times> 'w st \<Rightarrow> (POOL_PRINT \<times> 'w st) option" where
  "PoolPrint_1 L Buffer x = (case x of (spc, s) \<Rightarrow>
     let newlen = uintn (sp_len spc + length (takeWhile (\<lambda>c. c \<noteq> 0) Buffer) + 1) in
     if sp_maxlen spc < newlen then do {
       let newlen = uintn (newlen + PRINT_STRING_LEN);
       (str, s) \<leftarrow> ReallocatePool_1 L (uintn (2 * sp_len spc)) (uintn (2 * newlen)) (sp_str spc) s;
       let spc = spc\<lparr>sp_maxlen := newlen, sp_str := str\<rparr>;
       SPrint_1 Buffer (if str = 0 then spc\<lparr>sp_len := 0, sp_maxlen := 0\<rparr> else spc, s) }
     else SPrint_1 Buffer (spc, s))"

subsection \<open>Printing to a buffer\<close>

definition print_start :: "u64 list \<Rightarrow> u64 \<Rightarrow> 'x \<Rightarrow> 'x pstate" where
  "print_start args attr x =
     \<lparr>Idx = 0, Args = args, Buf = [], Len = 0, Attr = attr, RestoreAttr = 0, Sink = x\<rparr>"

text \<open>The cleared \<open>PRINT_STATE\<close> of a call that only prints text.\<close>

definition text_config ::
  "converters \<Rightarrow> u16 \<Rightarrow> ('x \<Rightarrow> mem) \<Rightarrow> text_src \<Rightarrow> (u16 list \<Rightarrow> 'x \<Rightarrow> 'x option) \<Rightarrow> 'x pconfig" where
  "text_config cv below memory src out =
     \<lparr>Mem = memory, fmt = src, AttrNorm = 0, AttrHighlight = 0, AttrError = 0, Output = out,
      SetAttr = None, Below = below, Convert = cv\<rparr>"

definition PoolCatPrint_1 ::
  "converters \<Rightarrow> u16 \<Rightarrow> text_src \<Rightarrow> u64 list \<Rightarrow> POOL_PRINT \<times> 'w st \<Rightarrow>
   (u16 list \<Rightarrow> POOL_PRINT \<times> 'w st \<Rightarrow> (POOL_PRINT \<times> 'w st) option) \<Rightarrow> (POOL_PRINT \<times> 'w st) option" where
  "PoolCatPrint_1 cv below src args x out = do {
     (n, ps) \<leftarrow> Print_1 (text_config cv below (\<lambda>(spc, s). ram s) src out) (print_start args 0 x);
     Some (Sink ps) }"

definition UnicodeVSPrint ::
  "converters \<Rightarrow> u16 \<Rightarrow> addr \<Rightarrow> nat \<Rightarrow> text_src \<Rightarrow> u64 list \<Rightarrow> 'w st \<Rightarrow> (nat \<times> 'w st) option" where
  "UnicodeVSPrint cv below Str Size src args s = do {
     let spc = \<lparr>sp_str = Str, sp_len = 0, sp_maxlen = uintn (Size div 2 + (2 ^ 64 - 1))\<rparr>;
     (spc, s) \<leftarrow> PoolCatPrint_1 cv below src args (spc, s) SPrint_1;
     Some (sp_len spc, s) }"

definition UnicodeSPrint ::
  "converters \<Rightarrow> u16 \<Rightarrow> addr \<Rightarrow> nat \<Rightarrow> text_src \<Rightarrow> u64 list \<Rightarrow> 'w st \<Rightarrow> (nat \<times> 'w st) option" where
  "UnicodeSPrint cv below Str Size src args s = UnicodeVSPrint cv below Str Size src args s"

text \<open>Printing to a local buffer without a limit, as the text that it then holds.\<close>

definition append_text :: "u16 list \<Rightarrow> u16 list \<Rightarrow> u16 list option" where
  "append_text Buffer x = Some (x @ Buffer)"

definition sprint_text :: "converters \<Rightarrow> u16 \<Rightarrow> mem \<Rightarrow> string \<Rightarrow> u64 list \<Rightarrow> u16 list option" where
  "sprint_text cv below m f args = do {
     (n, ps) \<leftarrow> Print_1 (text_config cv below (\<lambda>x. m) (Text (text16 f)) append_text) (print_start args 0 []);
     Some (Sink ps) }"

subsection \<open>Conversions of their own\<close>

definition no_converters :: converters where
  "no_converters = \<lparr>conv_dpath = \<lambda>m v. None, conv_float = \<lambda>m c v. None, conv_guid = \<lambda>m v. None,
     conv_status = \<lambda>m v. None, conv_time = \<lambda>m v. None\<rparr>"

definition GuidToString :: "u16 \<Rightarrow> mem \<Rightarrow> u64 \<Rightarrow> u16 list option" where
  "GuidToString below m p = do {
     bs \<leftarrow> rd_bytes m (unat p) 16;
     case find (\<lambda>(g, name). guid_bytes g = bs) KnownGuids of
       Some (g, name) \<Rightarrow> sprint_text no_converters below m name []
     | None \<Rightarrow>
         sprint_text no_converters below m ''%08x-%04x-%04x-%02x%02x-%02x%02x%02x%02x%02x%02x''
           ([ucast (le_word (take 4 bs) :: u32), ucast (le_word (take 2 (drop 4 bs)) :: u16),
             ucast (le_word (take 2 (drop 6 bs)) :: u16)] @ map ucast (drop 8 bs)) }"

definition ErrorCodeTable :: "(u64 \<times> string) list" where
  "ErrorCodeTable = [
     (EFI_SUCCESS, ''Success''), (EFIERR 1, ''Load Error''), (EFIERR 2, ''Invalid Parameter''),
     (EFIERR 3, ''Unsupported''), (EFIERR 4, ''Bad Buffer Size''), (EFIERR 5, ''Buffer Too Small''),
     (EFIERR 6, ''Not Ready''), (EFIERR 7, ''Device Error''), (EFIERR 8, ''Write Protected''),
     (EFIERR 9, ''Out of Resources''), (EFIERR 10, ''Volume Corrupt''), (EFIERR 11, ''Volume Full''),
     (EFIERR 12, ''No Media''), (EFIERR 13, ''Media changed''), (EFIERR 14, ''Not Found''),
     (EFIERR 15, ''Access Denied''), (EFIERR 16, ''No Response''), (EFIERR 17, ''No mapping''),
     (EFIERR 18, ''Time out''), (EFIERR 19, ''Not started''), (EFIERR 20, ''Already started''),
     (EFIERR 21, ''Aborted''), (EFIERR 22, ''ICMP Error''), (EFIERR 23, ''TFTP Error''),
     (EFIERR 24, ''Protocol Error''), (EFIERR 25, ''Incompatible Version''),
     (EFIERR 26, ''Security Policy Violation''), (EFIERR 27, ''CRC Error''), (EFIERR 28, ''End of Media''),
     (EFIERR 31, ''End of File''), (EFIERR 32, ''Invalid Languages''), (EFIERR 33, ''Compromised Data''),
     (EFIERR 34, ''IP Address Conflict''), (EFIERR 35, ''HTTP Error''),
     (1, ''Warning Unknown Glyph''), (2, ''Warning Delete Failure''), (3, ''Warning Write Failure''),
     (4, ''Warning Buffer Too Small''), (5, ''Warning Stale Data''), (6, ''Warning File System''),
     (7, ''Warning Reset Required'')]"

definition StatusToString :: "u16 \<Rightarrow> mem \<Rightarrow> u64 \<Rightarrow> u16 list option" where
  "StatusToString below m Status =
     (case find (\<lambda>(code, desc). code = Status) ErrorCodeTable of
        Some (code, desc) \<Rightarrow> Some (text16 desc)
      | None \<Rightarrow> sprint_text no_converters below m ''%X'' [Status])"

definition TimeToString :: "u16 \<Rightarrow> mem \<Rightarrow> u64 \<Rightarrow> u16 list option" where
  "TimeToString below m Time = do {
     Year \<leftarrow> rd16 m (unat Time);
     Month \<leftarrow> rd8 m (unat Time + 2);
     Day \<leftarrow> rd8 m (unat Time + 3);
     Hour \<leftarrow> rd8 m (unat Time + 4);
     Minute \<leftarrow> rd8 m (unat Time + 5);
     let (hour, AmPm) =
       (if Hour = 0 then (12, ch CHR ''a'')
        else if 12 \<le> Hour then (if 13 \<le> Hour then ucast Hour - 12 else ucast Hour, ch CHR ''p'')
        else (ucast Hour, ch CHR ''a''));
     sprint_text no_converters below m ''%02d/%02d/%02d  %02d:%02d%c''
       [ucast Month, ucast Day, ucast (Year mod 100), hour, ucast Minute, ucast AmPm] }"

subsection \<open>The functions a program calls\<close>

record 'w plib =
  PLib :: "'w lib"
  ConOut :: "'w text_output"
  StdErr :: "'w text_output option"
  LibRuntimeDebugOut :: "'w text_output option"
  EFIDebug :: u64
  BelowBuffer :: u16
  FloatToString :: "mem \<Rightarrow> bool \<Rightarrow> u64 \<Rightarrow> u16 list option"
  DevicePathToStr :: "mem \<Rightarrow> u64 \<Rightarrow> u16 list option"

definition converters_of :: "'w plib \<Rightarrow> converters" where
  "converters_of P = \<lparr>conv_dpath = DevicePathToStr P, conv_float = FloatToString P,
     conv_guid = GuidToString (BelowBuffer P), conv_status = StatusToString (BelowBuffer P),
     conv_time = TimeToString (BelowBuffer P)\<rparr>"

definition VPoolPrint :: "'w plib \<Rightarrow> text_src \<Rightarrow> u64 list \<Rightarrow> 'w st \<Rightarrow> (addr \<times> 'w st) option" where
  "VPoolPrint P src args s = do {
     (spc, s) \<leftarrow> PoolCatPrint_1 (converters_of P) (BelowBuffer P) src args
        (\<lparr>sp_str = 0, sp_len = 0, sp_maxlen = 0\<rparr>, s) (PoolPrint_1 (PLib P));
     Some (sp_str spc, s) }"

definition PoolPrint :: "'w plib \<Rightarrow> text_src \<Rightarrow> u64 list \<Rightarrow> 'w st \<Rightarrow> (addr \<times> 'w st) option" where
  "PoolPrint P src args s = VPoolPrint P src args s"

definition CatPrint ::
  "'w plib \<Rightarrow> POOL_PRINT \<Rightarrow> text_src \<Rightarrow> u64 list \<Rightarrow> 'w st \<Rightarrow> (addr \<times> POOL_PRINT \<times> 'w st) option" where
  "CatPrint P Str src args s = do {
     (Str, s) \<leftarrow> PoolCatPrint_1 (converters_of P) (BelowBuffer P) src args (Str, s) (PoolPrint_1 (PLib P));
     Some (sp_str Str, Str, s) }"

text \<open>The loop that narrows the characters of the result.\<close>

primrec narrow_chars :: "mem \<Rightarrow> addr \<Rightarrow> addr \<Rightarrow> nat \<Rightarrow> nat \<Rightarrow> mem option" where
  "narrow_chars m dst src i 0 = Some m"
| "narrow_chars m dst src i (Suc n) = do {
     c \<leftarrow> rd16 m (src + 2 * i);
     m \<leftarrow> wr8 m (dst + i) (ucast c);
     narrow_chars m dst src (i + 1) n }"

definition AsciiVSPrint ::
  "'w plib \<Rightarrow> addr \<Rightarrow> nat \<Rightarrow> addr \<Rightarrow> u64 list \<Rightarrow> 'w st \<Rightarrow> (nat \<times> 'w st) option" where
  "AsciiVSPrint P Str Size f args s =
     (case AllocatePool (PLib P) (uintn (Size * 2)) s of
        (UnicodeStr, s) \<Rightarrow>
          if UnicodeStr = 0 then Some (0, s)
          else do {
            (UnicodeFmt, s) \<leftarrow> PoolPrint P (Text (text16 ''%a'')) [word_of_nat f] s;
            if UnicodeFmt = 0 then Some (0, FreePool (PLib P) UnicodeStr s)
            else do {
              (n, s) \<leftarrow> UnicodeVSPrint (converters_of P) (BelowBuffer P) UnicodeStr (uintn (Size * 2))
                          (Wide UnicodeFmt) args s;
              let s = FreePool (PLib P) UnicodeFmt s;
              m \<leftarrow> narrow_chars (ram s) Str UnicodeStr 0 n;
              m \<leftarrow> wr8 m (Str + n) 0;
              Some (n, FreePool (PLib P) UnicodeStr (with_ram s m)) } })"

definition AsciiSPrint ::
  "'w plib \<Rightarrow> addr \<Rightarrow> nat \<Rightarrow> addr \<Rightarrow> u64 list \<Rightarrow> 'w st \<Rightarrow> (nat \<times> 'w st) option" where
  "AsciiSPrint P Str Size f args s = AsciiVSPrint P Str Size f args s"

subsection \<open>Printing to a console\<close>

definition EFI_TEXT_ATTR :: "u64 \<Rightarrow> u64 \<Rightarrow> u64" where
  "EFI_TEXT_ATTR f b = f OR push_bit 4 b"

definition EFI_LIGHTGRAY :: u64 where "EFI_LIGHTGRAY = 7"
definition EFI_WHITE :: u64 where "EFI_WHITE = 15"
definition EFI_YELLOW :: u64 where "EFI_YELLOW = 14"
definition EFI_RED :: u64 where "EFI_RED = 4"

definition console_output :: "'w text_output \<Rightarrow> u16 list \<Rightarrow> 'w st \<Rightarrow> 'w st option" where
  "console_output Out Buffer s = Some (snd (OutputString Out (takeWhile (\<lambda>c. c \<noteq> 0) Buffer) s))"

definition console_config ::
  "'w plib \<Rightarrow> 'w text_output option \<Rightarrow> u64 \<Rightarrow> text_src \<Rightarrow> 'w st pconfig" where
  "console_config P Out attr src =
     (let back = drop_bit 4 attr AND 0xF in
      \<lparr>Mem = ram, fmt = src, AttrNorm = EFI_TEXT_ATTR EFI_LIGHTGRAY back,
       AttrHighlight = EFI_TEXT_ATTR EFI_WHITE back, AttrError = EFI_TEXT_ATTR EFI_YELLOW back,
       Output = (case Out of Some out \<Rightarrow> console_output out | None \<Rightarrow> (\<lambda>Buffer s. Some s)),
       SetAttr = map_option (\<lambda>out a s. snd (SetAttribute out a s)) Out,
       Below = BelowBuffer P, Convert = converters_of P\<rparr>)"

definition IPrint_1 ::
  "'w plib \<Rightarrow> u64 \<Rightarrow> u64 \<Rightarrow> 'w text_output \<Rightarrow> addr \<Rightarrow> addr \<Rightarrow> u64 list \<Rightarrow> 'w st \<Rightarrow> (u64 \<times> 'w st) option" where
  "IPrint_1 P Column Row Out f fa args s = do {
     let attr = scast (Mode_Attribute Out s);
     let src = (if f \<noteq> 0 then Wide f else Ascii fa);
     let s = (if Column \<noteq> - 1 then snd (SetCursorPosition Out Column Row s) else s);
     (n, ps) \<leftarrow> Print_1 (console_config P (Some Out) attr src) (print_start args attr s);
     Some (n, Sink ps) }"

definition VPrint :: "'w plib \<Rightarrow> addr \<Rightarrow> u64 list \<Rightarrow> 'w st \<Rightarrow> (u64 \<times> 'w st) option" where
  "VPrint P f args s = IPrint_1 P (- 1) (- 1) (ConOut P) f 0 args s"

definition Print :: "'w plib \<Rightarrow> addr \<Rightarrow> u64 list \<Rightarrow> 'w st \<Rightarrow> (u64 \<times> 'w st) option" where
  "Print P f args s = IPrint_1 P (- 1) (- 1) (ConOut P) f 0 args s"

definition PrintAt :: "'w plib \<Rightarrow> u64 \<Rightarrow> u64 \<Rightarrow> addr \<Rightarrow> u64 list \<Rightarrow> 'w st \<Rightarrow> (u64 \<times> 'w st) option" where
  "PrintAt P Column Row f args s = IPrint_1 P Column Row (ConOut P) f 0 args s"

definition IPrint :: "'w plib \<Rightarrow> 'w text_output \<Rightarrow> addr \<Rightarrow> u64 list \<Rightarrow> 'w st \<Rightarrow> (u64 \<times> 'w st) option" where
  "IPrint P Out f args s = IPrint_1 P (- 1) (- 1) Out f 0 args s"

definition IPrintAt ::
  "'w plib \<Rightarrow> 'w text_output \<Rightarrow> u64 \<Rightarrow> u64 \<Rightarrow> addr \<Rightarrow> u64 list \<Rightarrow> 'w st \<Rightarrow> (u64 \<times> 'w st) option" where
  "IPrintAt P Out Column Row f args s = IPrint_1 P Column Row Out f 0 args s"

definition AsciiPrint :: "'w plib \<Rightarrow> addr \<Rightarrow> u64 list \<Rightarrow> 'w st \<Rightarrow> (u64 \<times> 'w st) option" where
  "AsciiPrint P f args s = IPrint_1 P (- 1) (- 1) (ConOut P) 0 f args s"

text \<open>\<open>DbgPrint\<close>, with the attribute changes around the text; without a debug console nothing is output.\<close>

definition D_WARN :: u64 where "D_WARN = 0x00000002"
definition D_ERROR :: u64 where "D_ERROR = 0x80000000"

definition DbgPrint :: "'w plib \<Rightarrow> u64 \<Rightarrow> addr \<Rightarrow> u64 list \<Rightarrow> 'w st \<Rightarrow> 'w st option" where
  "DbgPrint P dmask f args s =
    (if EFIDebug P AND dmask = 0 then Some s
     else do {
       let out = (case LibRuntimeDebugOut P of Some out \<Rightarrow> Some out | None \<Rightarrow> StdErr P);
       let saved = (case out of Some out \<Rightarrow> scast (Mode_Attribute out s)
                    | None \<Rightarrow> EFI_TEXT_ATTR EFI_LIGHTGRAY EFI_RED);
       let cfg = console_config P out saved (Ascii f);
       let attr = (if dmask AND D_ERROR \<noteq> 0 then AttrError cfg
                   else if dmask AND D_WARN \<noteq> 0 then AttrHighlight cfg else AttrNorm cfg);
       let set = (\<lambda>a s. case SetAttr cfg of Some f \<Rightarrow> f a s | None \<Rightarrow> s);
       let s = set attr s;
       (n, ps) \<leftarrow> Print_1 cfg (print_start args (if out = None then saved else attr) s);
       Some (set saved (Sink ps)) })"

end
