(* ===== verification/PrintOut.thy ===== *)
theory PrintOut
  imports PrintApi
begin

text \<open>
  The output routines satisfy the interface \<open>text_sink\<close> of the print engine, so every function that
  prints renders its format: to a buffer (truncated, terminated, nothing else changed) and to a
  console. The behaviour of the engine at the edges of its format language ends the theory.
\<close>

subsection \<open>Text\<close>

text \<open>An item without a field width: padded in front to the width.\<close>

lemma item_text_plain:
  assumes "FieldWidth it = - 1" "length s < 2 ^ 64"
  shows "item_text it s = replicate (unat (Width it) - length s) (Pad it) @ s"
proof -
  have "unat (- 1 :: u64) = 2 ^ 64 - 1" by (simp add: unsigned_minus_1_eq_mask mask_eq_exp_minus_1)
  then have n: "min (length s) (unat (- 1 :: u64)) = length s" using assms(2) by simp
  show ?thesis using assms(1) by (simp add: item_text_def n Let_def max_def)
qed

text \<open>
  What a format renders to depends on the memory and the conversions alone. An output that is not a
  console has no attributes: there \<open>Set_attr\<close> is not a piece of a well-formed format, \<open>Lost\<close> is a flag.
\<close>

definition text_render :: "converters \<Rightarrow> mem \<Rightarrow> piece list \<Rightarrow> u64 list \<Rightarrow> u16 list option" where
  "text_render cv m pcs args = render cv m pcs args"

fun text_piece_ok :: "piece \<Rightarrow> bool" where
  "text_piece_ok (Lit c) \<longleftrightarrow> c \<noteq> 0 \<and> c \<noteq> ch CHR ''%''"
| "text_piece_ok (Set_attr a) \<longleftrightarrow> False"
| "text_piece_ok (Dir fl w p gl c) \<longleftrightarrow>
     pred_option width_ok w \<and> pred_option width_ok p \<and> Zero_pad \<notin> set gl \<and> conv_ok c"

definition text_ok :: "piece list \<Rightarrow> bool" where
  "text_ok pcs \<longleftrightarrow> list_all text_piece_ok pcs"

lemma text_config_attr: "attr_value (text_config cv below memory src out) a = 0"
  by (cases a) (simp_all add: text_config_def)

lemma text_config_flag: "flag_ok (text_config cv below memory src out) f"
  by (cases f) (simp_all add: text_config_attr)

lemma text_config_piece: "piece_ok (text_config cv below memory src out) pc \<longleftrightarrow> text_piece_ok pc"
  by (cases pc) (simp_all add: text_config_attr list_all_iff text_config_flag)

lemma text_config_ok: "list_all (piece_ok (text_config cv below memory src out)) pcs \<longleftrightarrow> text_ok pcs"
  by (simp add: text_ok_def list_all_iff text_config_piece)

interpretation plain: text_sink append_text None "\<lambda>d t x. x = t" "\<lambda>t. True" "\<lambda>x. m" "\<lambda>m'. m' = m" for m
  by unfold_locales (simp_all add: append_text_def)

lemma sprint_text_renders:
  assumes "below \<noteq> 13" "text_ok pcs" "text16 f = unparse pcs" "0 \<notin> set (unparse pcs)"
    and "text_render cv m pcs args = Some t" "13 \<notin> set t"
  shows "sprint_text cv below m f args = Some (with_cr t)"
proof -
  let ?cfg = "text_config cv below (\<lambda>x. m) (Text (text16 f)) append_text"
  have "plain.sink_of m ?cfg" using assms(1) by (simp add: plain.sink_of_def text_config_def)
  moreover have "src_text m' (fmt ?cfg) (unparse pcs)" for m'
    using assms(3,4) src_text_Text by (simp add: text_config_def)
  moreover have "renders (Convert ?cfg) (\<lambda>m'. m' = m) pcs args t"
    using assms(5) by (simp add: renders_one text_render_def text_config_def)
  ultimately show ?thesis
    using plain.Print_renders [of m ?cfg pcs "print_start args 0 []" t] assms(2,6)
    by (auto simp: sprint_text_def print_start_def text_config_ok)
qed

subsection \<open>Numbers are printed in clean characters\<close>

lemma with_cr_plain: "10 \<notin> set s \<Longrightarrow> with_cr s = s"
  by (induction s) (auto simp: crlf_def)

lemma number_text_chars:
  "c \<in> set (dec_text n) \<or> c \<in> set (hex_text n) \<Longrightarrow> 48 \<le> unat c \<and> unat c < 71"
proof -
  have dec: "d < 10 \<Longrightarrow> unat (dec_char d) = 48 + d" for d by (rule dec_char_word)
  have hex: "d < 16 \<Longrightarrow> unat (hex_char d) = (if d < 10 then 48 + d else 55 + d)" for d
    by (simp add: hex_char_def unat_word_of_nat del: of_nat_add)
  assume "c \<in> set (dec_text n) \<or> c \<in> set (hex_text n)"
  then show ?thesis
    by (auto simp: dec_text_def hex_text_def dec hex dest!: digits_of_less split: if_splits)
qed

lemma number_text_clean:
  "0 \<notin> set (dec_text n)" "10 \<notin> set (dec_text n)" "13 \<notin> set (dec_text n)"
  "0 \<notin> set (hex_text n)" "10 \<notin> set (hex_text n)" "13 \<notin> set (hex_text n)"
  using number_text_chars [of 0 n] number_text_chars [of 10 n] number_text_chars [of 13 n] by auto

lemma length_dec_text: "n < 10 ^ k \<Longrightarrow> 0 < k \<Longrightarrow> length (dec_text n) \<le> k"
  using length_digits_of [of 10 n k] by (simp add: dec_text_def)

lemma length_hex_text: "n < 16 ^ k \<Longrightarrow> 0 < k \<Longrightarrow> length (hex_text n) \<le> k"
  using length_digits_of [of 16 n k] by (simp add: hex_text_def)

subsection \<open>A buffer of a POOL_PRINT\<close>

text \<open>
  \<open>given_buf s0 Str limit room d t\<close>: from the state \<open>s0\<close>, the text \<open>t\<close> has gone to the buffer at \<open>Str\<close>
  that takes \<open>limit\<close> characters and a NUL, of which \<open>room\<close> and a NUL are mapped memory.
\<close>

definition given_buf ::
  "'w st \<Rightarrow> addr \<Rightarrow> nat \<Rightarrow> nat \<Rightarrow> bool \<Rightarrow> u16 list \<Rightarrow> POOL_PRINT \<times> 'w st \<Rightarrow> bool" where
  "given_buf s0 Str limit room d t x \<longleftrightarrow>
     0 < limit \<and> limit < 2 ^ 64 \<and> mapped (ram s0) Str (2 * (room + 1)) \<and>
     min (length t) limit \<le> room \<and>
     fst x = \<lparr>sp_str = Str, sp_len = min (length t) limit, sp_maxlen = limit\<rparr> \<and>
     (snd x = with_ram s0 (overwrite (ram s0) Str (enc16 (take limit t @ [0]))) \<or>
      \<not> d \<and> t = [] \<and> snd x = s0)"

definition fits_buf :: "nat \<Rightarrow> nat \<Rightarrow> u16 list \<Rightarrow> bool" where
  "fits_buf limit room t \<longleftrightarrow> min (length t) limit \<le> room \<and> length t < 2 ^ 64"

lemma overwrite_tail_longer:
  assumes "length bs \<le> length cs" "p + length as + length cs \<le> length m"
  shows "overwrite (overwrite m p (as @ bs)) (p + length as) cs = overwrite m p (as @ cs)"
  using assms by (intro overwrite_eqI) (auto simp: nth_overwrite nth_append)

lemma SPrint_1_gives:
  assumes g: "given_buf s0 Str limit room d t x" and b: "0 \<notin> set b" and f: "fits_buf limit room (t @ b)"
  shows "\<exists>x'. SPrint_1 b x = Some x' \<and> given_buf s0 Str limit room True (t @ b) x'"
proof -
  obtain s where x: "x = (\<lparr>sp_str = Str, sp_len = min (length t) limit, sp_maxlen = limit\<rparr>, s)"
    using g by (cases x) (simp add: given_buf_def)
  define k where "k = min (length t) limit"
  define n where "n = min (length (t @ b)) limit - k"
  have lim: "0 < limit" "limit < 2 ^ 64" and m0: "mapped (ram s0) Str (2 * (room + 1))"
    using g by (simp_all add: given_buf_def)
  have len: "length t + length b < 2 ^ 64" "min (length (t @ b)) limit \<le> room"
    using f by (simp_all add: fits_buf_def)
  have kn: "k + n = min (length (t @ b)) limit" "k \<le> limit" by (auto simp: k_def n_def)
  have nul: "takeWhile (\<lambda>c. c \<noteq> 0) b = b" using b by (auto simp: takeWhile_eq_all_conv)
  have count: "(if limit < uintn (k + length b) then uintn (limit + 2 ^ 64 - k) else length b) = n"
  proof (cases "limit < k + length b")
    case True
    have "uintn (limit + 2 ^ 64 - k) = limit - k"
    proof -
      have "limit + 2 ^ 64 - k = 2 ^ 64 + (limit - k)" using kn(2) by simp
      then show ?thesis using lim(2) by (simp only: uintn_def mod_add_self1) simp
    qed
    moreover have "uintn (k + length b) = k + length b" using len(1) by (intro uintn_small) (simp add: k_def)
    ultimately show ?thesis using True by (auto simp: n_def k_def)
  next
    case False
    then show ?thesis using lim(2) by (auto simp: n_def k_def)
  qed
  have "take (limit - length t) b = take n b"
    by (cases "limit \<le> length t") (auto simp: n_def k_def min_def)
  then have taken: "take limit (t @ b) = take limit t @ take n b" "length (take limit t) = k" "length (take n b) = n"
    by (auto simp: n_def k_def)
  let ?new = "overwrite (ram s0) Str (enc16 (take limit (t @ b) @ [0]))"
  have room: "Str + 2 * k + 2 * n + 2 \<le> length (ram s0)" "0 < Str"
    using m0 len(2) kn(1) by (auto simp: mapped_def)
  have base: "ram s = overwrite (ram s0) Str (enc16 (take limit t) @ le_bytes 2 (0 :: u16)) \<or> t = [] \<and> ram s = ram s0"
    using g x by (auto simp: given_buf_def with_ram_def)
  then have len_s: "length (ram s) = length (ram s0)" using room taken(2) by auto
  have "overwrite (ram s) (Str + 2 * k) (enc16 (take n b) @ le_bytes 2 (0 :: u16)) = ?new"
    using base
  proof
    assume "ram s = overwrite (ram s0) Str (enc16 (take limit t) @ le_bytes 2 (0 :: u16))"
    then show ?thesis
      using overwrite_tail_longer [of "le_bytes 2 (0 :: u16)" "enc16 (take n b) @ le_bytes 2 (0 :: u16)" Str
          "enc16 (take limit t)" "ram s0"] room taken by simp
  qed (simp add: k_def n_def min_def)
  then have writes: "overwrite (overwrite (ram s) (Str + 2 * k) (enc16 (take n b))) (Str + 2 * (k + n)) (le_bytes 2 (0 :: u16)) = ?new"
    using overwrite_append [of "Str + 2 * k" "enc16 (take n b)" "le_bytes 2 (0 :: u16)" "ram s"] room taken(3) len_s
    by (simp add: algebra_simps)
  have c1: "copy_local (ram s) (Str + 2 * k) (enc16 (take n b)) = Some (overwrite (ram s) (Str + 2 * k) (enc16 (take n b)))"
    using room taken(3) len_s by (auto simp: copy_local_def wr_bytes_def mapped_def)
  have c2: "(if k + n < limit then wr16 (overwrite (ram s) (Str + 2 * k) (enc16 (take n b))) (Str + 2 * (k + n)) 0
     else if limit \<noteq> 0 then wr16 (overwrite (ram s) (Str + 2 * k) (enc16 (take n b))) (Str + 2 * limit) 0
     else Some (overwrite (ram s) (Str + 2 * k) (enc16 (take n b)))) = Some ?new"
  proof -
    have "wr16 (overwrite (ram s) (Str + 2 * k) (enc16 (take n b))) (Str + 2 * (k + n)) 0 = Some ?new"
      using writes room taken(3) len_s by (simp add: wr16_def wr_bytes_def mapped_def)
    moreover have "k + n \<le> limit" using kn(1) by simp
    ultimately show ?thesis using lim(1) by (cases "k + n = limit") simp_all
  qed
  have c3: "uintn (k + n) = k + n" using lim(2) kn(1) by (intro uintn_small) simp
  have "SPrint_1 b x = Some (\<lparr>sp_str = Str, sp_len = k + n, sp_maxlen = limit\<rparr>, with_ram s ?new)"
    by (simp only: SPrint_1_def x prod.case Let_def POOL_PRINT.simps k_def [symmetric] nul count c1 c2 c3
        Option.bind.bind_lunit)
  moreover have "with_ram s ?new = with_ram s0 ?new" using g x by (auto simp: given_buf_def with_ram_def)
  ultimately show ?thesis using lim m0 len(2) kn(1) by (auto simp: given_buf_def)
qed

text \<open>Outside the buffer the memory is as it was.\<close>

lemma given_buf_outside:
  assumes "given_buf s0 Str limit room d t x"
  shows "same_outside (ram s0) (ram (snd x)) Str (2 * (room + 1))"
proof -
  have "length (enc16 (take limit t @ [0])) \<le> 2 * (room + 1)" using assms by (auto simp: given_buf_def min_def split: if_splits)
  moreover have "same_outside (ram s0) (overwrite (ram s0) Str bs) Str (2 * (room + 1))"
    if "length bs \<le> 2 * (room + 1)" for bs
    using assms that by (auto simp: given_buf_def same_outside_def nth_overwrite mapped_def)
  ultimately show ?thesis using assms by (auto simp: given_buf_def with_ram_def same_outside_def [of m m for m])
qed

interpretation buf: text_sink SPrint_1 None "given_buf s0 Str limit room" "fits_buf limit room" "\<lambda>(spc, s). ram s"
  "\<lambda>m. same_outside (ram s0) m Str (2 * (room + 1))" for s0 Str limit room
proof unfold_locales
  show "\<exists>x'. SPrint_1 b x = Some x' \<and> given_buf s0 Str limit room True (t @ b) x'"
    if "given_buf s0 Str limit room d t x" "0 \<notin> set b" "fits_buf limit room (t @ b)" for d t x b
    using that by (rule SPrint_1_gives)
  show "fits_buf limit room (t @ b) \<Longrightarrow> fits_buf limit room t" for t b by (auto simp: fits_buf_def)
  show "given_buf s0 Str limit room d t x \<Longrightarrow> same_outside (ram s0) (case x of (spc, s) \<Rightarrow> ram s) Str (2 * (room + 1))" for d t x
    using given_buf_outside [of s0 Str limit room d t x] by (simp add: case_prod_beta)
qed simp

text \<open>A buffer for the NUL alone takes nothing, not even the NUL.\<close>

lemma SPrint_1_full:
  assumes "length b < 2 ^ 64"
  shows "SPrint_1 b (\<lparr>sp_str = Str, sp_len = 0, sp_maxlen = 0\<rparr>, s) =
    Some (\<lparr>sp_str = Str, sp_len = 0, sp_maxlen = 0\<rparr>, s)"
proof -
  let ?n = "length (takeWhile (\<lambda>c. c \<noteq> 0) b)"
  have n: "uintn ?n = ?n"
    using assms le_less_trans [OF length_takeWhile_le [of "\<lambda>c. c \<noteq> 0" b]] by (intro uintn_small) blast
  have zero: "uintn 18446744073709551616 = 0" by (simp add: uintn_def)
  show ?thesis
    by (cases "?n = 0") (auto simp: SPrint_1_def n zero copy_local_def with_ram_def Let_def)
qed

interpretation full: text_sink SPrint_1 None
  "\<lambda>d t x. x = (\<lparr>sp_str = Str, sp_len = 0, sp_maxlen = 0\<rparr>, s0)" "\<lambda>t. length t < 2 ^ 64"
  "\<lambda>(spc, s). ram s" "\<lambda>m. m = ram s0" for Str s0
  by unfold_locales (simp_all add: SPrint_1_full)

subsection \<open>A console\<close>

text \<open>
  What the UEFI specification documents of a text console, for an abstraction \<open>screen\<close> of the
  firmware's state: the text that was written to it. Strings are written behind what is there;
  attributes and the cursor leave it alone. None of this writes to the memory \<open>K\<close> of the caller.
\<close>

definition console_ok :: "'w text_output \<Rightarrow> ranges \<Rightarrow> ('w \<Rightarrow> u16 list) \<Rightarrow> bool" where
  "console_ok Out K screen \<longleftrightarrow>
     (\<forall>b s. screen (fw (snd (OutputString Out b s))) = screen (fw s) @ b \<and> same_on K (ram s) (ram (snd (OutputString Out b s)))) \<and>
     (\<forall>a s. screen (fw (snd (SetAttribute Out a s))) = screen (fw s) \<and> same_on K (ram s) (ram (snd (SetAttribute Out a s)))) \<and>
     (\<forall>c r s. screen (fw (snd (SetCursorPosition Out c r s))) = screen (fw s) \<and>
        same_on K (ram s) (ram (snd (SetCursorPosition Out c r s))))"

interpretation con: text_sink "console_output Out" "Some (\<lambda>a s. snd (SetAttribute Out a s))"
  "\<lambda>d t s. console_ok Out K screen \<and> screen (fw s) = t0 @ t \<and> same_on K m (ram s)" "\<lambda>t. True" ram "same_on K m"
  for Out K screen t0 m
proof unfold_locales
  fix d t and s :: "'a st" and b :: "u16 list"
  assume "console_ok Out K screen \<and> screen (fw s) = t0 @ t \<and> same_on K m (ram s)" "0 \<notin> set b"
  moreover from this(2) have "takeWhile (\<lambda>c. c \<noteq> 0) b = b" by (auto simp: takeWhile_eq_all_conv)
  ultimately show "\<exists>x'. console_output Out b s = Some x' \<and> console_ok Out K screen \<and> screen (fw x') = t0 @ t @ b \<and>
      same_on K m (ram x')"
    by (auto simp: console_output_def console_ok_def intro: same_on_trans)
qed (auto simp: console_ok_def intro: same_on_trans)

subsection \<open>Rendering to a buffer and to a console\<close>

lemma UnicodeVSPrint_buf:
  assumes cfg: "below \<noteq> 13" "text_ok pcs"
      "\<And>m. same_outside (ram s) m Str (2 * (room + 1)) \<Longrightarrow> src_text m src (unparse pcs)"
    and t: "renders cv (\<lambda>m. same_outside (ram s) m Str (2 * (room + 1))) pcs args t" "13 \<notin> set t"
      "length (with_cr t) < 2 ^ 64"
    and limit: "limit = uintn (Size div 2 + (2 ^ 64 - 1))" "0 < limit"
    and room: "mapped (ram s) Str (2 * (room + 1))" "min (length (with_cr t)) limit \<le> room"
  shows "UnicodeVSPrint cv below Str Size src args s =
    Some (min (length (with_cr t)) limit, with_ram s (overwrite (ram s) Str (enc16 (take limit (with_cr t) @ [0]))))"
proof -
  let ?cfg = "text_config cv below (\<lambda>(spc, s). ram s) src SPrint_1"
  let ?ps = "print_start args 0 (\<lparr>sp_str = Str, sp_len = 0, sp_maxlen = limit\<rparr>, s)"
  have small: "limit < 2 ^ 64" unfolding limit(1) by (rule uintn_less)
  have "buf.sink_of ?cfg" using cfg(1) by (simp add: buf.sink_of_def text_config_def)
  moreover have "src_text m (fmt ?cfg) (unparse pcs)" if "same_outside (ram s) m Str (2 * (room + 1))" for m
    using cfg(3) [OF that] by (simp add: text_config_def)
  moreover have "given_buf s Str limit room False [] (Sink ?ps)"
    using limit(2) room small by (simp add: given_buf_def print_start_def)
  moreover have "fits_buf limit room (with_cr t)" using room(2) t(3) by (simp add: fits_buf_def)
  ultimately obtain qs where "Print_1 ?cfg ?ps = Some (word_of_nat (length (with_cr t)), qs)"
    "given_buf s Str limit room True (with_cr t) (Sink qs)"
    using buf.Print_renders [of ?cfg pcs s Str room ?ps t limit False] cfg(2) t(1,2)
    by (auto simp: print_start_def text_config_ok) (auto simp: text_config_def)
  then show ?thesis
    unfolding UnicodeVSPrint_def limit(1) [symmetric]
    by (cases "Sink qs") (auto simp: PoolCatPrint_1_def given_buf_def)
qed

text \<open>C3. \<open>UnicodeVSPrint\<close> (hence \<open>UnicodeSPrint\<close>), with a buffer of at least two characters, prints exactly the
  rendered text of its format, a carriage return in front of every newline, truncated to the buffer and NUL
  terminated; it returns the number of characters and changes nothing else. The format is any well-formed
  list of pieces, read from memory or a literal. The buffer must not overlap the format or the strings and
  objects the arguments point to: they read the same whatever the buffer holds. (The engine reads them while
  it prints, and would see its own output.)
\<close>

theorem UnicodeVSPrint_renders:
  assumes "below \<noteq> 13" "text_ok pcs"
    and "\<And>m. same_outside (ram s) m Str (2 * (Size div 2)) \<Longrightarrow> src_text m src (unparse pcs)"
    and "renders cv (\<lambda>m. same_outside (ram s) m Str (2 * (Size div 2))) pcs args t" "13 \<notin> set t"
    and "length (with_cr t) < 2 ^ 64"
    and "4 \<le> Size" "Size < 2 ^ 64" "mapped (ram s) Str (2 * (Size div 2))"
  shows "UnicodeVSPrint cv below Str Size src args s =
    Some (min (length (with_cr t)) (Size div 2 - 1),
      with_ram s (overwrite (ram s) Str (enc16 (take (Size div 2 - 1) (with_cr t) @ [0]))))"
proof -
  have limit: "Size div 2 - 1 = uintn (Size div 2 + (2 ^ 64 - 1))"
  proof -
    have "Size div 2 + (2 ^ 64 - 1) = 2 ^ 64 + (Size div 2 - 1)" using assms(7) by simp
    then show ?thesis using assms(8) by (simp only: uintn_def mod_add_self1) simp
  qed
  have size: "2 * (Size div 2 - 1 + 1) = 2 * (Size div 2)" using assms(7) by simp
  show ?thesis
    by (rule UnicodeVSPrint_buf [OF assms(1,2) _ _ assms(5,6) limit, where room = "Size div 2 - 1", unfolded size])
      (use assms in simp_all)
qed

definition wit_pieces :: "piece list" where
  "wit_pieces = [Dir [Zero_pad] (Some (Num 5)) None [] C_d, Lit 44, Lit 10]"

definition wit_state :: "unit st" where
  "wit_state = \<lparr>ram = [0] @ enc16 (unparse wit_pieces @ [0]) @ replicate 20 7, fw = ()\<rparr>"

lemma wit_format: "str16_at (ram wit_state) 1 (unparse wit_pieces)"
  by code_simp

lemma wit_render:
  "text_render no_converters (ram wit_state) wit_pieces [- 42] = Some [48, 48, 45, 52, 50, 44, 10]"
proof -
  have r: "replicate 2 (48 :: u16) = [48, 48]" by (simp add: numeral_2_eq_2)
  have i: "int_arg False (- 42) = - 42" by (simp add: int_arg_def)
  have s: "signed_text False (- 42) = [45, 52, 50]"
    by (simp add: signed_text_def dec_text_def digits_of.simps dec_char_def)
  show ?thesis
    by (simp add: text_render_def wit_pieces_def dir_item_def new_item_def i s r item_text_plain Let_def)
qed

lemma wit_reads:
  assumes "same_outside (ram wit_state) m 17 n"
  shows "src_text m (Wide 1) (unparse wit_pieces)"
proof -
  have "length (unparse wit_pieces) = 6" by code_simp
  then have "disjoint_ranges 17 n 1 (2 * length (unparse wit_pieces) + 2)" by (simp add: disjoint_ranges_def)
  then show ?thesis using same_outside_str16 [OF assms _ wit_format] src_text_Wide by blast
qed

lemma wit_renders: "renders no_converters M wit_pieces [- 42] [48, 48, 45, 52, 50, 44, 10]"
  by (rule renders_blind [OF _ wit_render [unfolded text_render_def]]) (simp add: wit_pieces_def reading_def)

theorem UnicodeVSPrint_renders_witness:
  "UnicodeVSPrint no_converters 0 17 12 (Wide 1) [- 42] wit_state =
    Some (5, with_ram wit_state (overwrite (ram wit_state) 17 (enc16 [48, 48, 45, 52, 50, 0])))"
proof -
  have c: "with_cr [48, 48, 45, 52, 50, 44, 10] = [48, 48, 45, 52, 50, 44, 13, 10]"
    by (simp add: crlf_def)
  have m: "mapped (ram wit_state) 17 (2 * (12 div 2))" by code_simp
  have ok: "text_ok wit_pieces" by (simp add: text_ok_def wit_pieces_def)
  show ?thesis
    using UnicodeVSPrint_renders [of 0 wit_pieces wit_state 17 12 "Wide 1" no_converters "[- 42]",
      OF _ ok wit_reads wit_renders _ _ _ _ m] c by (simp add: crlf_def)
qed

text \<open>A size of 0, documented as "no limit", and a size of 1, which is not, both print the whole text,
  however long: \<open>StrSize / sizeof(CHAR16) - 1\<close> wraps around.
\<close>

theorem UnicodeVSPrint_no_limit:
  assumes "below \<noteq> 13" "text_ok pcs"
    and "\<And>m. same_outside (ram s) m Str (2 * (length (with_cr t) + 1)) \<Longrightarrow> src_text m src (unparse pcs)"
    and "renders cv (\<lambda>m. same_outside (ram s) m Str (2 * (length (with_cr t) + 1))) pcs args t" "13 \<notin> set t"
    and "length (with_cr t) < 2 ^ 64 - 1"
    and "Size = 0 \<or> Size = 1" "mapped (ram s) Str (2 * (length (with_cr t) + 1))"
  shows "UnicodeVSPrint cv below Str Size src args s =
    Some (length (with_cr t), with_ram s (overwrite (ram s) Str (enc16 (with_cr t @ [0]))))"
proof -
  have limit: "2 ^ 64 - 1 = uintn (Size div 2 + (2 ^ 64 - 1))" using assms(7) by (auto simp: uintn_def)
  have "min (length (with_cr t)) (2 ^ 64 - 1) = length (with_cr t)" using assms(6) by simp
  then show ?thesis
    using UnicodeVSPrint_buf [OF assms(1-5) _ limit _ assms(8)] assms(6) by simp
qed

theorem UnicodeVSPrint_no_limit_witness:
  "UnicodeVSPrint no_converters 0 17 1 (Wide 1) [- 42] wit_state =
    Some (8, with_ram wit_state (overwrite (ram wit_state) 17 (enc16 [48, 48, 45, 52, 50, 44, 13, 10, 0])))"
proof -
  have c: "with_cr [48, 48, 45, 52, 50, 44, 10] = [48, 48, 45, 52, 50, 44, 13, 10]"
    by (simp add: crlf_def)
  have m: "mapped (ram wit_state) 17 (2 * (length (with_cr [48, 48, 45, 52, 50, 44, 10]) + 1))" by code_simp
  have ok: "text_ok wit_pieces" by (simp add: text_ok_def wit_pieces_def)
  show ?thesis
    using UnicodeVSPrint_no_limit [of 0 wit_pieces wit_state 17 _ "Wide 1" no_converters "[- 42]" 1,
      OF _ ok wit_reads wit_renders _ _ _ m] c by (simp add: crlf_def)
qed

text \<open>A buffer of one character (2 or 3 bytes) is left as it is: nothing is printed, and the buffer is
  not NUL terminated either, although there is room for the NUL.
\<close>

theorem UnicodeVSPrint_not_terminated:
  assumes "below \<noteq> 13" "text_ok pcs" "src_text (ram s) src (unparse pcs)"
    and "text_render cv (ram s) pcs args = Some t" "13 \<notin> set t"
    and "length (with_cr t) < 2 ^ 64" "Size = 2 \<or> Size = 3"
  shows "UnicodeVSPrint cv below Str Size src args s = Some (0, s)"
proof -
  let ?cfg = "text_config cv below (\<lambda>(spc, s). ram s) src SPrint_1"
  let ?x = "(\<lparr>sp_str = Str, sp_len = 0, sp_maxlen = 0\<rparr>, s)"
  have limit: "uintn (Size div 2 + (2 ^ 64 - 1)) = 0" using assms(7) by (auto simp: uintn_def)
  have "full.sink_of ?cfg" using assms(1) by (simp add: full.sink_of_def text_config_def)
  moreover have "src_text (ram s) (fmt ?cfg) (unparse pcs)" using assms(3) by (simp add: text_config_def)
  moreover have "renders (Convert ?cfg) (\<lambda>m. m = ram s) pcs args t"
    using assms(4) by (simp add: renders_one text_render_def text_config_def)
  ultimately obtain qs where "Print_1 ?cfg (print_start args 0 ?x) = Some (word_of_nat (length (with_cr t)), qs)"
    "Sink qs = ?x"
    using full.Print_renders [of ?cfg pcs s "print_start args 0 ?x" t Str] assms
    by (auto simp: print_start_def text_config_ok)
  then show ?thesis unfolding UnicodeVSPrint_def limit by (simp add: PoolCatPrint_1_def)
qed

theorem UnicodeVSPrint_not_terminated_witness:
  "UnicodeVSPrint no_converters 0 17 2 (Wide 1) [- 42] wit_state = Some (0, wit_state)"
proof -
  have ok: "text_ok wit_pieces" by (simp add: text_ok_def wit_pieces_def)
  show ?thesis
    using UnicodeVSPrint_not_terminated [of 0 wit_pieces wit_state "Wide 1" no_converters "[- 42]" _ 2 17,
      OF _ ok src_text_Wide [OF wit_format] wit_render] by (simp add: crlf_def)
qed

text \<open>On a console every attribute is set, since no foreground is 0: there is no \<open>Lost\<close> flag.\<close>

fun console_flag_ok :: "flag \<Rightarrow> bool" where
  "console_flag_ok (Lost a) \<longleftrightarrow> False"
| "console_flag_ok f \<longleftrightarrow> True"

fun console_piece_ok :: "piece \<Rightarrow> bool" where
  "console_piece_ok (Lit c) \<longleftrightarrow> c \<noteq> 0 \<and> c \<noteq> ch CHR ''%''"
| "console_piece_ok (Set_attr a) \<longleftrightarrow> True"
| "console_piece_ok (Dir fl w p gl c) \<longleftrightarrow>
     list_all console_flag_ok fl \<and> pred_option width_ok w \<and> pred_option width_ok p \<and>
     list_all console_flag_ok gl \<and> Zero_pad \<notin> set gl \<and> conv_ok c"

lemma console_attr: "attr_value (console_config P Out attr src) a \<noteq> 0"
  by (cases a) (simp_all add: console_config_def Let_def EFI_TEXT_ATTR_def or_eq_0_iff EFI_LIGHTGRAY_def
      EFI_WHITE_def EFI_YELLOW_def)

lemma console_flag: "flag_ok (console_config P Out attr src) f \<longleftrightarrow> console_flag_ok f"
  by (cases f) (simp_all add: console_attr)

lemma console_piece: "piece_ok (console_config P Out attr src) pc \<longleftrightarrow> console_piece_ok pc"
  by (cases pc) (simp_all add: console_attr list_all_iff console_flag)

text \<open>C20. Printing to a console writes the rendered text behind what the screen holds, whatever
  attributes the format sets, and returns the number of characters; the attributes a piece selects are
  the console's own, with the background it started with. The format and what the arguments point to are in
  the memory \<open>K\<close> that the console leaves alone.
\<close>

theorem IPrint_renders:
  assumes "BelowBuffer P \<noteq> 13" "console_ok Out K screen" "f \<noteq> 0"
    and "str16_at (ram s) f (unparse pcs)" "in_use K f (2 * length (unparse pcs) + 2)"
    and "list_all console_piece_ok pcs"
    and "renders (converters_of P) (same_on K (ram s)) pcs args t" "13 \<notin> set t"
  shows "\<exists>s'. IPrint P Out f args s = Some (word_of_nat (length (with_cr t)), s') \<and>
    screen (fw s') = screen (fw s) @ with_cr t \<and> same_on K (ram s) (ram s')"
proof -
  let ?attr = "scast (Mode_Attribute Out s)"
  let ?cfg = "console_config P (Some Out) ?attr (Wide f)"
  have "con.sink_of Out ?cfg" using assms(1) by (simp add: con.sink_of_def console_config_def Let_def)
  moreover have "src_text m (fmt ?cfg) (unparse pcs)" if "same_on K (ram s) m" for m
    using src_text_Wide [OF same_on_str16 [OF that assms(5,4)]] by (simp add: console_config_def Let_def)
  moreover have "renders (Convert ?cfg) (same_on K (ram s)) pcs args t"
    using assms(7) by (simp add: console_config_def Let_def)
  ultimately show ?thesis
    using con.Print_renders [of Out ?cfg pcs K "ram s" "print_start args ?attr s" t screen "screen (fw s)"] assms
    by (auto simp: print_start_def IPrint_def IPrint_1_def Let_def list_all_iff console_piece)
qed

definition wit_plib :: "demo plib" where
  "wit_plib = \<lparr>PLib = demo_lib, ConOut = demo_console, StdErr = None, LibRuntimeDebugOut = None, EFIDebug = 0,
     BelowBuffer = 0, FloatToString = (\<lambda>m c v. None), DevicePathToStr = (\<lambda>m v. None)\<rparr>"

definition wit_console_pieces :: "piece list" where
  "wit_console_pieces = [Set_attr A_error, Dir [] None None [] C_x, Set_attr A_norm, Lit 10]"

theorem IPrint_renders_witness:
  "\<exists>s'. IPrint wit_plib demo_console 1 [255] (demo_mem (enc16 (unparse wit_console_pieces @ [0])) 8) =
      Some (4, s') \<and> demo_screen (fw s') = [70, 70, 13, 10]"
proof -
  let ?s = "demo_mem (enc16 (unparse wit_console_pieces @ [0])) 8"
  have src: "str16_at (ram ?s) 1 (unparse wit_console_pieces)" by code_simp
  have con: "console_ok demo_console (blocks_of (fw ?s)) demo_screen" by (simp add: console_ok_def demo_console_def)
  have used: "in_use (blocks_of (fw ?s)) 1 (2 * length (unparse wit_console_pieces) + 2)"
    by (rule demo_mem_in_use) simp_all
  have ok: "list_all console_piece_ok wit_console_pieces" by (simp add: wit_console_pieces_def)
  have r: "renders (converters_of wit_plib) M wit_console_pieces [255] [70, 70, 10]" for M
  proof -
    have h: "hex_text (unat (uint_arg False 255)) = [70, 70]"
      by (simp add: uint_arg_def hex_text_def digits_of.simps hex_char_def)
    have "render (converters_of wit_plib) [] wit_console_pieces [255] = Some [70, 70, 10]"
      by (simp add: wit_console_pieces_def dir_item_def new_item_def h item_text_plain)
    then show ?thesis by (rule renders_blind [rotated]) (simp add: wit_console_pieces_def reading_def)
  qed
  have start: "demo_screen (fw ?s) = []" by (simp add: demo_mem_def)
  show ?thesis
    using IPrint_renders [OF _ con _ src used ok r] start by (auto simp: wit_plib_def crlf_def)
qed

subsection \<open>The edges of the format language\<close>

text \<open>A format that ends in \<open>%\<close> is read past its NUL: with nothing readable behind the string, printing
  does not return.
\<close>

theorem Print_percent_at_end:
  "sprint_text cv below m ''%'' args = None"
proof -
  let ?cfg = "text_config cv below (\<lambda>x. m) (Text (text16 ''%'')) append_text"
  have t: "text16 ''%'' = [37]" by (simp add: text16_def)
  have "Print_loop ?cfg (print_start args 0 []) = None"
    by (subst Print_loop.simps)
      (simp add: text_config_def print_start_def t Print_directives.simps Print_loop.simps)
  then show ?thesis by (simp add: sprint_text_def Print_1_def print_start_def)
qed

text \<open>\<open>%H\<close>, \<open>%E\<close> and \<open>%N\<close> do not end a directive when the output has no attributes: in
  \<open>UnicodeSPrint\<close> and \<open>PoolPrint\<close> the text behind them is taken for the directive, here \<open>i\<close> for an
  unknown conversion, so \<open>%Hi\<close> prints \<open>?\<close> and not \<open>i\<close>.
\<close>

theorem Print_attribute_swallows:
  "sprint_text cv 0 m ''%Hi'' [] = Some [ch CHR ''?'']"
proof -
  have u: "unparse [Dir [Lost A_highlight] None None [] (C_other (ch CHR ''i''))] = text16 ''%Hi''"
    by (simp add: unparse_def text16_def)
  have ok: "text_ok [Dir [Lost A_highlight] None None [] (C_other (ch CHR ''i''))]"
    by (simp add: text_ok_def directive_chars_def text16_def)
  have r: "text_render cv m [Dir [Lost A_highlight] None None [] (C_other (ch CHR ''i''))] [] = Some [63]"
    by (simp add: text_render_def dir_item_def new_item_def item_text_plain)
  have "sprint_text cv 0 m ''%Hi'' [] = Some (with_cr [63])"
    by (rule sprint_text_renders [OF _ ok u [symmetric] _ r]) (simp_all add: unparse_def)
  then show ?thesis by (simp add: crlf_def)
qed

text \<open>\<open>%lu\<close>, documented as unsigned decimal, prints a value from 2^63 on as a negative number.
\<close>

theorem Print_unsigned_negative:
  assumes "2 ^ 63 \<le> unat v"
  shows "sprint_text cv 0 m ''%lu'' [v] = Some (ch CHR ''-'' # dec_text (2 ^ 64 - unat v))"
proof -
  let ?pcs = "[Dir [Long_arg] None None [] C_u]" and ?t = "ch CHR ''-'' # dec_text (2 ^ 64 - unat v)"
  have sint: "sint v = int (unat v) - 2 ^ 64"
  proof -
    have "int (2 ^ 63) \<le> int (unat v)" "int (unat v) < int (2 ^ 64)"
      unfolding of_nat_le_iff of_nat_less_iff using assms unat_bounds(4) [of v] by simp_all
    then have u: "2 ^ 63 \<le> uint v" "uint v < 2 ^ 64" by simp_all
    then have "uint v div 2 ^ 63 = 1" by (intro int_div_pos_eq [of _ _ _ "uint v - 2 ^ 63"]) simp_all
    then have "bit (uint v) 63" by (simp add: bit_iff_odd)
    then have "sint v = take_bit 64 (uint v) - 2 ^ 64"
      by (simp add: sint_uint signed_take_bit_eq_take_bit_minus)
    moreover have "take_bit 64 (uint v) = uint v" using u by (intro take_bit_int_eq_self) simp_all
    ultimately show ?thesis by simp
  qed
  have "nat \<bar>int k - 2 ^ 64\<bar> = 2 ^ 64 - k" "int k - 2 ^ 64 < 0" if "k < 2 ^ 64" for k using that by simp_all
  from this [of "unat v"] have "nat \<bar>sint v\<bar> = 2 ^ 64 - unat v" "sint v < 0"
    unfolding sint using unat_bounds(4) [of v] by simp_all
  then have s: "signed_text False v = ?t" by (simp add: signed_text_def)
  have "(2 :: nat) ^ 64 - unat v < 10 ^ 20" by (rule le_less_trans [OF diff_le_self]) simp
  from length_dec_text [OF this] have len: "length ?t < 2 ^ 64" by simp
  have r: "text_render cv m ?pcs [v] = Some ?t"
    using number_text_clean(1) [of "2 ^ 64 - unat v"] s len
    by (simp add: text_render_def dir_item_def new_item_def uint_arg_def item_text_plain)
  have "sprint_text cv 0 m ''%lu'' [v] = Some (with_cr ?t)"
    by (rule sprint_text_renders [OF _ _ _ _ r])
      (simp_all add: unparse_def text16_def text_ok_def number_text_clean)
  then show ?thesis using with_cr_plain [of ?t] number_text_clean(2) by simp
qed

theorem Print_unsigned_negative_witness:
  "sprint_text no_converters 0 [] ''%lu'' [0xFFFFFFFFFFFFFFFF] = Some [45, 49]"
proof -
  have "dec_text 1 = [49]" by (simp add: dec_text_def digits_of.simps dec_char_def)
  then show ?thesis using Print_unsigned_negative [of "0xFFFFFFFFFFFFFFFF" no_converters "[]"] by simp
qed

end
