(* ===== verification/PrintNames.thy ===== *)
theory PrintNames
  imports PrintOut
begin

text \<open>
  The text of GUIDs, status codes and times: lib/guid.c, lib/error.c and \<open>TimeToString\<close> of
  lib/print.c, by rendering the formats they hand to \<open>UnicodeSPrint\<close>.
\<close>

subsection \<open>Zero padded numbers\<close>

definition zero_padded :: "nat \<Rightarrow> u16 list \<Rightarrow> u16 list" where
  "zero_padded k s = replicate (k - length s) 48 @ s"

definition padded :: "conv \<Rightarrow> nat \<Rightarrow> piece" where
  "padded c k = Dir [Zero_pad] (Some (Num k)) None [] c"

lemma padded_item:
  "k < 2 ^ 64 \<Longrightarrow> dir_item [Zero_pad] (Some (Num k)) None args =
     Some (new_item\<lparr>Pad := 48, Width := word_of_nat k\<rparr>, args)"
  by (simp add: dir_item_def)

lemma padded_text:
  "k < 2 ^ 64 \<Longrightarrow> length s < 2 ^ 64 \<Longrightarrow>
   item_text (new_item\<lparr>Pad := 48, Width := word_of_nat k\<rparr>) s = zero_padded k s"
  by (simp add: item_text_plain zero_padded_def new_item_def unat_word_of_nat)

lemma padded_fields:
  "Comma (new_item\<lparr>Pad := x, Width := y\<rparr>) = False" "Long (new_item\<lparr>Pad := x, Width := y\<rparr>) = False"
  by (simp_all add: new_item_def)

lemma int_arg_small:
  assumes "unat a < 2 ^ 31"
  shows "signed_text False (int_arg False a) = dec_text (unat a)" "uint_arg False a = a"
proof -
  have "take_bit 32 (unat a) = unat a" using assms by (intro take_bit_nat_eq_self) simp
  then have u: "unat (ucast a :: u32) = unat a" by (simp add: unsigned_ucast_eq)
  have "unat (ucast (ucast a :: u32) :: u64) = unat a" using u by (simp only: unat_ucast_widen)
  then show "uint_arg False a = a" by (simp add: uint_arg_def unsigned_word_eqI)
  have less: "uint a < 2 ^ 31"
  proof -
    have "int (unat a) < int (2 ^ 31)" unfolding of_nat_less_iff using assms by simp
    then show ?thesis by simp
  qed
  have "- (2 ^ 31) \<le> uint a" by (rule order_trans [OF _ uint_nonnegative]) simp
  with less have self: "signed_take_bit 31 (uint a) = uint a" by (intro signed_take_bit_int_eq_self)
  have "- (2 ^ 63) \<le> uint a" by (rule order_trans [OF _ uint_nonnegative]) simp
  then have "signed_take_bit 63 (uint a) = uint a" using less by (intro signed_take_bit_int_eq_self) simp_all
  moreover have "sint (int_arg False a) = signed_take_bit 63 (signed_take_bit 31 (uint a))"
    unfolding int_arg_def if_False
    by (subst signed_scast_eq, subst signed_ucast_eq) (simp only: len_num1 len_bit0, simp)
  ultimately have "sint (int_arg False a) = uint a" by (simp only: self)
  then show "signed_text False (int_arg False a) = dec_text (unat a)"
    by (simp add: signed_text_def)
qed

lemma length_number_text: "length (dec_text (unat (v :: u64))) < 2 ^ 64" "length (hex_text (unat (v :: u64))) < 2 ^ 64"
proof -
  have "unat v < 10 ^ 20" "unat v < 16 ^ 16" using unat_bounds(4) [of v] by simp_all
  then show "length (dec_text (unat v)) < 2 ^ 64" "length (hex_text (unat v)) < 2 ^ 64"
    using length_dec_text [of "unat v" 20] length_hex_text [of "unat v" 16] by simp_all
qed

lemma text_render_simps:
  "text_render cv m [] args = Some []"
  "text_render cv m (Lit c # pcs) args = do { t \<leftarrow> text_render cv m pcs args; Some (c # t) }"
  "k < 2 ^ 64 \<Longrightarrow> unat a < 2 ^ 31 \<Longrightarrow> text_render cv m (padded C_d k # pcs) (a # args) =
     do { t \<leftarrow> text_render cv m pcs args; Some (zero_padded k (dec_text (unat a)) @ t) }"
  "k < 2 ^ 64 \<Longrightarrow> text_render cv m (padded C_x k # pcs) (a # args) =
     do { t \<leftarrow> text_render cv m pcs args; Some (zero_padded k (hex_text (unat (uint_arg False a))) @ t) }"
proof -
  show "text_render cv m [] args = Some []"
    "text_render cv m (Lit c # pcs) args = do { t \<leftarrow> text_render cv m pcs args; Some (c # t) }"
    by (simp_all add: text_render_def)
  assume k: "k < 2 ^ 64"
  show "unat a < 2 ^ 31 \<Longrightarrow> text_render cv m (padded C_d k # pcs) (a # args) =
     do { t \<leftarrow> text_render cv m pcs args; Some (zero_padded k (dec_text (unat a)) @ t) }"
    using k by (simp add: text_render_def padded_def padded_item padded_text int_arg_small(1) length_number_text [simplified]
        number_text_clean padded_fields)
  show "text_render cv m (padded C_x k # pcs) (a # args) =
     do { t \<leftarrow> text_render cv m pcs args; Some (zero_padded k (hex_text (unat (uint_arg False a))) @ t) }"
    using k by (simp add: text_render_def padded_def padded_item padded_text length_number_text [simplified]
        number_text_clean padded_fields)
qed

lemma zero_padded_clean:
  assumes "c \<noteq> 48"
  shows "c \<notin> set s \<Longrightarrow> c \<notin> set (zero_padded k s)"
  using assms by (auto simp: zero_padded_def)

lemmas number_clean = number_text_clean zero_padded_clean

subsection \<open>Times\<close>

definition two_digits :: "nat \<Rightarrow> u16 list" where
  "two_digits n = zero_padded 2 (dec_text n)"

definition hour12 :: "nat \<Rightarrow> nat" where
  "hour12 h = (if h = 0 then 12 else if 12 < h then h - 12 else h)"

definition time_text :: "nat \<Rightarrow> nat \<Rightarrow> nat \<Rightarrow> nat \<Rightarrow> nat \<Rightarrow> u16 list" where
  "time_text y mo d h mi = two_digits mo @ text16 ''/'' @ two_digits d @ text16 ''/'' @ two_digits (y mod 100) @
     text16 ''  '' @ two_digits (hour12 h) @ text16 '':'' @ two_digits mi @
     text16 (if h < 12 then ''a'' else ''p'')"

definition time_pieces :: "piece list" where
  "time_pieces = [padded C_d 2, Lit 47, padded C_d 2, Lit 47, padded C_d 2, Lit 32, Lit 32, padded C_d 2, Lit 58,
     padded C_d 2, Dir [] None None [] C_c]"

lemma time_pieces_unparse: "text16 ''%02d/%02d/%02d  %02d:%02d%c'' = unparse time_pieces"
  by (simp add: unparse_def time_pieces_def text16_def padded_def dec_text_def digits_of.simps dec_char_def)

lemma text_render_char:
  assumes "ucast a \<noteq> (0 :: u16)"
  shows "text_render cv m [Dir [] None None [] C_c] [a] = Some [ucast a]"
  using assms by (simp add: text_render_def dir_item_def new_item_def item_text_plain)

text \<open>\<open>TimeToString\<close> prints month, day, two-digit year, the hour on a twelve hour clock, the minute and
  \<open>a\<close> or \<open>p\<close>, for every time whatever its fields: noon and midnight are 12, and no number is cut off.
\<close>

theorem TimeToString_prints:
  assumes "below \<noteq> 13" "bytes_at m p (le_bytes 2 (y :: u16) @ [mo, d, h, mi])" "p < 2 ^ 64"
  shows "TimeToString below m (word_of_nat p) =
    Some (time_text (unat y) (unat mo) (unat d) (unat h) (unat mi))"
proof -
  have p: "unat (word_of_nat p :: u64) = p" using assms(3) by (simp add: unat_word_of_nat)
  have fields: "rd16 m p = Some y" "rd8 m (p + 2) = Some mo" "rd8 m (p + 3) = Some d" "rd8 m (p + 4) = Some h"
    "rd8 m (p + 5) = Some mi"
    using assms(2) bytes_at_words(1) [OF assms(2)] by (simp_all add: bytes_at_append bytes_at_Cons add.commute)
  define hour :: u64 where
    "hour = (if h = 0 then 12 else if 12 \<le> h then if 13 \<le> h then ucast h - 12 else ucast h else ucast h)"
  define ampm :: u16 where "ampm = (if 12 \<le> h then 112 else 97)"
  have small: "unat (ucast b :: u64) < 2 ^ 31" for b :: u8
    using unat_bounds(1) [of b] by (simp add: unat_ucast_widen)
  have year: "unat (ucast (y mod 100) :: u64) = unat y mod 100" by (simp add: unat_ucast_widen unat_mod)
  have hour: "unat hour = hour12 (unat h)" "unat hour < 2 ^ 31"
  proof -
    have c: "(12 :: u8) \<le> h \<longleftrightarrow> 12 \<le> unat h" "(13 :: u8) \<le> h \<longleftrightarrow> 13 \<le> unat h" "h = 0 \<longleftrightarrow> unat h = 0"
      by (simp_all add: word_le_nat_alt unat_eq_zero)
    have "unat (ucast h - 12 :: u64) = unat h - 12" if "12 \<le> unat h"
      using that unat_sub [of "12 :: u64" "ucast h"] by (simp add: word_le_nat_alt unat_ucast_widen)
    then show "unat hour = hour12 (unat h)"
      unfolding hour_def hour12_def c by (auto simp: unat_ucast_widen)
    then show "unat hour < 2 ^ 31" using unat_bounds(1) [of h] by (auto simp: hour12_def)
  qed
  have ampm: "ucast (ucast ampm :: u64) = ampm" "ampm \<noteq> 0" "ampm \<noteq> 10" "ampm \<noteq> 13"
    by (simp_all add: ampm_def)
  let ?args = "[ucast mo, ucast d, ucast (y mod 100), hour, ucast mi, ucast ampm]"
  let ?t = "time_text (unat y) (unat mo) (unat d) (unat h) (unat mi)"
  have "text_render no_converters m time_pieces ?args = Some ?t"
  proof -
    have y: "unat (ucast (y mod 100) :: u64) < 2 ^ 31" unfolding year by (rule less_trans [of _ 100]) simp_all
    have k: "(2 :: nat) < 2 ^ 64" by simp
    have a: "h < 12 \<longleftrightarrow> \<not> 12 \<le> h" for h :: u8 by auto
    have "text_render no_converters m time_pieces ?args = Some (two_digits (unat mo) @ 47 # two_digits (unat d) @ 47 #
        two_digits (unat y mod 100) @ 32 # 32 # two_digits (hour12 (unat h)) @ 58 # two_digits (unat mi) @ [ampm])"
      unfolding time_pieces_def
      by (simp only: text_render_simps(2) text_render_simps(3) [OF k small] text_render_simps(3) [OF k y]
          text_render_simps(3) [OF k hour(2)] text_render_char ampm Option.bind.bind_lunit year hour(1) unat_ucast_widen
          two_digits_def not_False_eq_True) (simp add: unat_mod)
    then show ?thesis
      by (simp add: time_text_def text16_def ampm_def word_le_nat_alt not_less)
  qed
  moreover have "10 \<notin> set ?t" "13 \<notin> set ?t"
    by (auto simp: time_text_def two_digits_def text16_def number_clean)
  moreover have "text_ok time_pieces" by (simp add: text_ok_def time_pieces_def padded_def)
  moreover have "0 \<notin> set (unparse time_pieces)"
    by (simp add: time_pieces_unparse [symmetric] text16_def)
  ultimately have "sprint_text no_converters below m ''%02d/%02d/%02d  %02d:%02d%c'' ?args = Some ?t"
    using sprint_text_renders [OF assms(1) _ time_pieces_unparse] with_cr_plain by metis
  then show ?thesis
    by (auto simp: TimeToString_def p fields hour_def ampm_def Let_def split: if_splits)
qed

definition wit_time :: mem where
  "wit_time = [0, 0xE6, 7, 2, 29, 0, 5]"

theorem TimeToString_prints_witness:
  "TimeToString 0 wit_time 1 = Some (text16 ''02/29/22  12:05a'')"
proof -
  have at1: "bytes_at wit_time 1 (le_bytes 2 (2022 :: u16) @ [2, 29, 0, 5])" by code_simp
  have "time_text 2022 2 29 0 5 = text16 ''02/29/22  12:05a''"
    by (simp add: time_text_def two_digits_def zero_padded_def hour12_def dec_text_def digits_of.simps dec_char_def text16_def)
  then show ?thesis using TimeToString_prints [OF _ at1, of 0] by simp
qed

subsection \<open>GUIDs\<close>

definition guid_pieces :: "piece list" where
  "guid_pieces = [padded C_x 8, Lit 45, padded C_x 4, Lit 45, padded C_x 4, Lit 45, padded C_x 2, padded C_x 2, Lit 45,
     padded C_x 2, padded C_x 2, padded C_x 2, padded C_x 2, padded C_x 2, padded C_x 2]"

lemma guid_pieces_unparse:
  "text16 ''%08x-%04x-%04x-%02x%02x-%02x%02x%02x%02x%02x%02x'' = unparse guid_pieces"
  by (simp add: unparse_def guid_pieces_def text16_def padded_def dec_text_def digits_of.simps dec_char_def)

definition hex_digits :: "nat \<Rightarrow> nat \<Rightarrow> u16 list" where
  "hex_digits k n = zero_padded k (hex_text n)"

fun guid_text :: "EFI_GUID \<Rightarrow> u16 list" where
  "guid_text (GUID d1 d2 d3 d4) =
     hex_digits 8 (unat d1) @ [45] @ hex_digits 4 (unat d2) @ [45] @ hex_digits 4 (unat d3) @ [45] @
     concat (map (\<lambda>b. hex_digits 2 (unat b)) (take 2 d4)) @ [45] @
     concat (map (\<lambda>b. hex_digits 2 (unat b)) (drop 2 d4))"

fun guid_ok :: "EFI_GUID \<Rightarrow> bool" where
  "guid_ok (GUID d1 d2 d3 d4) \<longleftrightarrow> length d4 = 8"

lemma guid_bytes_eq: "guid_ok g \<Longrightarrow> guid_ok h \<Longrightarrow> guid_bytes g = guid_bytes h \<longleftrightarrow> g = h"
  by (cases g; cases h) (simp add: guid_bytes_inject del: guid_bytes.simps)

lemma KnownGuids_ok:
  "list_all (\<lambda>(g, name). guid_ok g \<and> list_all (\<lambda>c. c \<notin> {0, 10, 13, 37}) (text16 name)) KnownGuids"
  by code_simp

lemma find_guid:
  assumes "guid_ok g" "\<forall>(h, n) \<in> set tab. guid_ok h" "distinct (map fst tab)"
  shows "find (\<lambda>(h, name). guid_bytes h = guid_bytes g) tab =
    (case map_of tab g of Some n \<Rightarrow> Some (g, n) | None \<Rightarrow> None)"
  using assms(2,3)
proof (induction tab)
  case (Cons hn tab)
  obtain h n where hn: "hn = (h, n)" by (cases hn)
  then show ?case using Cons guid_bytes_eq [of h g] assms(1) by auto
qed simp

lemma text_render_literal: "text_render cv m (map Lit s) [] = Some s"
  by (induction s) (simp_all add: text_render_simps)

lemma unparse_literal: "unparse (map Lit s) = s"
  by (induction s) (simp_all add: unparse_def)

lemma uint_arg_32: "unat (uint_arg False (ucast (w :: u32))) = unat w"
proof -
  have "unat (ucast (ucast w :: u64) :: u32) = unat w"
  proof -
    have "take_bit LENGTH(32) (unat w) = unat w" using unat_bounds(3) [of w] by (intro take_bit_nat_eq_self) simp
    then show ?thesis by (subst unsigned_ucast_eq) (simp only: unat_ucast_widen)
  qed
  then show ?thesis by (simp only: uint_arg_def if_False unat_ucast_widen)
qed

lemma uint_arg_small: "unat v < 2 ^ 31 \<Longrightarrow> unat (uint_arg False v) = unat v"
  by (simp add: int_arg_small)

lemma guid_args_render:
  assumes "length d4 = 8"
  shows "text_render cv m guid_pieces
      ([ucast (d1 :: u32), ucast (d2 :: u16), ucast (d3 :: u16)] @ map ucast (d4 :: u8 list)) =
    Some (guid_text (GUID d1 d2 d3 d4))"
proof -
  obtain b0 b1 b2 b3 b4 b5 b6 b7 where d4: "d4 = [b0, b1, b2, b3, b4, b5, b6, b7]"
    using assms by (auto simp: numeral_eq_Suc length_Suc_conv)
  have byte: "unat (uint_arg False (ucast b)) = unat b" for b :: u8
    using unat_bounds(1) [of b] by (subst uint_arg_small) (simp_all add: unat_ucast_widen)
  have half: "unat (uint_arg False (ucast b)) = unat b" for b :: u16
    using unat_bounds(2) [of b] by (subst uint_arg_small) (simp_all add: unat_ucast_widen)
  have k: "(2 :: nat) < 2 ^ 64" "(4 :: nat) < 2 ^ 64" "(8 :: nat) < 2 ^ 64" by simp_all
  have "text_render cv m guid_pieces ([ucast d1, ucast d2, ucast d3] @ map ucast d4) =
    Some (hex_digits 8 (unat d1) @ 45 # hex_digits 4 (unat d2) @ 45 # hex_digits 4 (unat d3) @ 45 #
      hex_digits 2 (unat b0) @ hex_digits 2 (unat b1) @ 45 # hex_digits 2 (unat b2) @ hex_digits 2 (unat b3) @
      hex_digits 2 (unat b4) @ hex_digits 2 (unat b5) @ hex_digits 2 (unat b6) @ hex_digits 2 (unat b7) @ [])"
    unfolding guid_pieces_def d4 list.map append.simps
    by (simp only: text_render_simps(1,2) text_render_simps(4) [OF k(1)] text_render_simps(4) [OF k(2)]
        text_render_simps(4) [OF k(3)] Option.bind.bind_lunit byte half uint_arg_32 hex_digits_def)
  then show ?thesis by (simp add: d4)
qed

lemma guid_text_clean: "c \<in> {0, 10, 13} \<Longrightarrow> c \<notin> set (guid_text g)"
  by (cases g) (auto simp: hex_digits_def number_clean)

lemma guid_bytes_length: "guid_ok g \<Longrightarrow> length (guid_bytes g) = 16"
  by (cases g) simp

text \<open>\<open>GuidToString\<close> gives a GUID of the table its name, the one name the table has for it, and any
  other GUID its 36 characters of hexadecimal fields.
\<close>

theorem GuidToString_names:
  assumes "below \<noteq> 13" "guid_ok g" "bytes_at m p (guid_bytes g)" "p < 2 ^ 64"
  shows "GuidToString below m (word_of_nat p) =
    Some (case map_of KnownGuids g of Some name \<Rightarrow> text16 name | None \<Rightarrow> guid_text g)"
proof -
  have p: "unat (word_of_nat p :: u64) = p" using assms(4) by (simp add: unat_word_of_nat)
  have bs: "rd_bytes m p 16 = Some (guid_bytes g)"
    using assms(2,3) guid_bytes_length by (auto simp: bytes_at_def)
  have known: "\<forall>(h, n) \<in> set KnownGuids. guid_ok h \<and> list_all (\<lambda>c. c \<notin> {0, 10, 13, 37}) (text16 n)"
    using KnownGuids_ok by (simp add: list_all_iff)
  have f: "find (\<lambda>(h, name). guid_bytes h = guid_bytes g) KnownGuids =
    (case map_of KnownGuids g of Some n \<Rightarrow> Some (g, n) | None \<Rightarrow> None)"
    using known KnownGuids_distinct by (intro find_guid [OF assms(2)]) auto
  show ?thesis
  proof (cases "map_of KnownGuids g")
    case (Some n)
    then have n: "list_all (\<lambda>c. c \<notin> {0, 10, 13, 37}) (text16 n)" using known map_of_SomeD by fastforce
    have "text_ok (map Lit (text16 n))" "0 \<notin> set (unparse (map Lit (text16 n)))" "13 \<notin> set (text16 n)"
      "10 \<notin> set (text16 n)"
      using n by (auto simp: text_ok_def list_all_iff unparse_literal)
    then have "sprint_text no_converters below m n [] = Some (text16 n)"
      using sprint_text_renders [OF assms(1) _ unparse_literal [symmetric] _ text_render_literal] with_cr_plain
      by metis
    then show ?thesis using Some f by (simp add: GuidToString_def p bs)
  next
    case None
    obtain d1 d2 d3 d4 where g: "g = GUID d1 d2 d3 d4" "length d4 = 8" using assms(2) by (cases g) auto
    have w: "le_word (take 4 (guid_bytes g)) = d1" "le_word (take 2 (drop 4 (guid_bytes g))) = d2"
      "le_word (take 2 (drop 6 (guid_bytes g))) = d3" "drop 8 (guid_bytes g) = d4"
      by (simp_all add: g)
    have "text_ok guid_pieces" by (simp add: text_ok_def guid_pieces_def padded_def)
    moreover have "0 \<notin> set (unparse guid_pieces)" by (simp add: guid_pieces_unparse [symmetric] text16_def)
    ultimately have "sprint_text no_converters below m ''%08x-%04x-%04x-%02x%02x-%02x%02x%02x%02x%02x%02x''
        ([ucast d1, ucast d2, ucast d3] @ map ucast d4) = Some (guid_text g)"
      using sprint_text_renders [OF assms(1) _ guid_pieces_unparse _ guid_args_render [OF g(2)]]
        with_cr_plain [of "guid_text g"] guid_text_clean [of 13 g] guid_text_clean [of 10 g] unfolding g(1)
      by (metis insertI1 insertI2)
    then show ?thesis using None f by (simp add: GuidToString_def p bs w)
  qed
qed

lemma replicate_zeros: "replicate 6 (48 :: u16) = [48, 48, 48, 48, 48, 48]" "replicate 2 (48 :: u16) = [48, 48]"
  by (simp_all add: numeral_eq_Suc)

definition wit_guids :: mem where
  "wit_guids = [0] @ guid_bytes gEfiBlockIoProtocolGuid @
     guid_bytes (GUID 0x12345678 0xABCD 0x0012 [1, 2, 3, 4, 5, 6, 7, 8])"

theorem GuidToString_names_witness:
  "GuidToString 0 wit_guids 1 = Some (text16 ''BlkIo'') \<and>
   GuidToString 0 wit_guids 17 = Some (text16 ''12345678-ABCD-0012-0102-030405060708'')"
proof
  have "bytes_at wit_guids 1 (guid_bytes gEfiBlockIoProtocolGuid)" by code_simp
  moreover have "guid_ok gEfiBlockIoProtocolGuid" by code_simp
  moreover have "map_of KnownGuids gEfiBlockIoProtocolGuid = Some ''BlkIo''" by code_simp
  ultimately show "GuidToString 0 wit_guids 1 = Some (text16 ''BlkIo'')"
    using GuidToString_names [of 0 gEfiBlockIoProtocolGuid wit_guids 1] by simp
  let ?g = "GUID 0x12345678 0xABCD 0x0012 [1, 2, 3, 4, 5, 6, 7, 8]"
  have "bytes_at wit_guids 17 (guid_bytes ?g)" by code_simp
  moreover have "map_of KnownGuids ?g = None" by code_simp
  moreover have "guid_text ?g = text16 ''12345678-ABCD-0012-0102-030405060708''"
    by (simp add: hex_digits_def zero_padded_def hex_text_def digits_of.simps hex_char_def text16_def
        replicate_zeros)
  ultimately show "GuidToString 0 wit_guids 17 = Some (text16 ''12345678-ABCD-0012-0102-030405060708'')"
    using GuidToString_names [of 0 ?g wit_guids 17] by simp
qed

subsection \<open>Status codes\<close>

lemma find_map_of:
  "find (\<lambda>(k, v). k = x) tab = (case map_of tab x of Some v \<Rightarrow> Some (x, v) | None \<Rightarrow> None)"
  by (induction tab) auto

text \<open>\<open>StatusToString\<close> gives a status of the table its description and any other the eight hexadecimal
  digits of its low half: the error bit, which tells an error from a warning, is not printed.
\<close>

theorem StatusToString_describes:
  assumes "below \<noteq> 13"
  shows "StatusToString below m v =
    Some (case map_of ErrorCodeTable v of Some d \<Rightarrow> text16 d
          | None \<Rightarrow> hex_digits 8 (unat v mod 2 ^ 32))"
proof (cases "map_of ErrorCodeTable v")
  case (Some d)
  then show ?thesis by (simp add: StatusToString_def find_map_of)
next
  case None
  let ?pcs = "[Dir [] None None [] C_X]" and ?t = "hex_digits 8 (unat v mod 2 ^ 32)"
  have "unat (uint_arg False v) = unat v mod 2 ^ 32"
    by (simp only: uint_arg_def if_False unat_ucast_widen) (simp add: unsigned_ucast_eq take_bit_eq_mod)
  then have "text_render no_converters m ?pcs [v] = Some ?t"
    using length_number_text(2) [of "uint_arg False v"]
    by (simp add: text_render_def dir_item_def new_item_def item_text_plain number_text_clean hex_digits_def
        zero_padded_def)
  moreover have "13 \<notin> set ?t" "10 \<notin> set ?t" by (auto simp: hex_digits_def number_clean)
  moreover have "text16 ''%X'' = unparse ?pcs" "0 \<notin> set (unparse ?pcs)" "text_ok ?pcs"
    by (simp_all add: unparse_def text16_def text_ok_def)
  ultimately have "sprint_text no_converters below m ''%X'' [v] = Some ?t"
    using sprint_text_renders [OF assms] with_cr_plain by metis
  then show ?thesis using None by (simp add: StatusToString_def find_map_of)
qed

theorem StatusToString_describes_witness:
  "StatusToString 0 [] (EFIERR 14) = Some (text16 ''Not Found'') \<and>
   StatusToString 0 [] 0x80000000000000FF = Some (text16 ''000000FF'')"
proof -
  have a: "map_of ErrorCodeTable (EFIERR 14) = Some ''Not Found''"
    "map_of ErrorCodeTable 0x80000000000000FF = None" by code_simp+
  have "hex_digits 8 255 = text16 ''000000FF''"
    by (simp add: hex_digits_def zero_padded_def hex_text_def digits_of.simps hex_char_def text16_def
        replicate_zeros)
  then show ?thesis
    using a StatusToString_describes [of 0 "[]" "EFIERR 14"] StatusToString_describes [of 0 "[]" "0x80000000000000FF"]
    by simp
qed

end
