(* ===== verification/Handles.thy ===== *)
theory Handles
  imports DevPath
begin

text \<open>
  lib/hand.c: locating handles and protocols, and installing, removing and replacing several protocol
  interfaces at once.

  A GUID argument is its address. The variadic operations get the list of the words behind the last
  named parameter, as \<open>va_arg\<close> reads them; a list that ends before its NULL is \<open>None\<close>. The cell
  \<open>*Handle\<close> of \<open>LibInstallProtocolInterfaces\<close> is an argument and a result.
\<close>

subsection \<open>Locating\<close>

definition locate_call ::
  "'w lib \<Rightarrow> u32 \<Rightarrow> addr \<Rightarrow> addr \<Rightarrow> nat \<Rightarrow> addr \<Rightarrow> unit \<Rightarrow> 'w st \<Rightarrow> u64 \<times> nat \<times> unit \<times> 'w st" where
  "locate_call L SearchType Protocol SearchKey n p x s =
     (case BS_LocateHandle (BS L) SearchType Protocol SearchKey n p s of
        (Status, n, s) \<Rightarrow> (Status, n, x, s))"

text \<open>The status with \<open>*NoHandles\<close> and \<open>*Buffer\<close>.\<close>

definition LibLocateHandle ::
  "'w lib \<Rightarrow> u32 \<Rightarrow> addr \<Rightarrow> addr \<Rightarrow> 'w st \<Rightarrow> (u64 \<times> nat \<times> addr \<times> 'w st) option" where
  "LibLocateHandle L SearchType Protocol SearchKey s = do {
     (Status, Buffer, BufferSize, x, s) \<leftarrow>
       grow_loop L (locate_call L SearchType Protocol SearchKey) EFI_SUCCESS 0 (50 * 8) () s;
     Some (Status, if EFI_ERROR Status then 0 else BufferSize div 8, Buffer, s) }"

text \<open>
  The loop over the handles: \<open>n\<close> of them from \<open>Handles\<close>, with the status and \<open>*Interface\<close> so far.
  \<open>ByProtocol\<close> is 2.
\<close>

primrec LibLocateProtocol_loop ::
  "'w lib \<Rightarrow> addr \<Rightarrow> addr \<Rightarrow> nat \<Rightarrow> u64 \<Rightarrow> addr \<Rightarrow> 'w st \<Rightarrow> (u64 \<times> addr \<times> 'w st) option" where
  "LibLocateProtocol_loop L ProtocolGuid Handles 0 Status Interface s = Some (Status, Interface, s)"
| "LibLocateProtocol_loop L ProtocolGuid Handles (Suc n) Status Interface s = do {
     h \<leftarrow> rd64 (ram s) Handles;
     (case BS_HandleProtocol (BS L) (unat h) ProtocolGuid s of
        (Status, i, s) \<Rightarrow>
          let Interface = (case i of None \<Rightarrow> Interface | Some i \<Rightarrow> i)
          in if \<not> EFI_ERROR Status then Some (Status, Interface, s)
             else LibLocateProtocol_loop L ProtocolGuid (Handles + 8) n Status Interface s) }"

definition LibLocateProtocol :: "'w lib \<Rightarrow> addr \<Rightarrow> 'w st \<Rightarrow> (u64 \<times> addr \<times> 'w st) option" where
  "LibLocateProtocol L ProtocolGuid s = do {
     (Status, NumberHandles, Handles, s) \<leftarrow> LibLocateHandle L 2 ProtocolGuid 0 s;
     if EFI_ERROR Status then Some (Status, 0, s)
     else do {
       (Status, Interface, s) \<leftarrow> LibLocateProtocol_loop L ProtocolGuid Handles NumberHandles Status 0 s;
       Some (Status, Interface, if Handles \<noteq> 0 then FreePool L Handles s else s) } }"

subsection \<open>Handles by disk signature\<close>

text \<open>
  Whether the path at \<open>DevPath\<close> has a hard drive node (type 4, subtype 1) in front of an end node and
  not behind another hard drive node, with the given types and signature. The fields of
  \<open>HARDDRIVE_DEVICE_PATH\<close> read here are \<open>Signature\<close> at 24, \<open>MBRType\<close> at 40 and \<open>SignatureType\<close> at 41;
  \<open>SIGNATURE_TYPE_MBR\<close> is 1 and \<open>SIGNATURE_TYPE_GUID\<close> is 2. The fault is a malformed path.
\<close>

definition drive_node_matches :: "mem \<Rightarrow> u8 \<Rightarrow> u8 \<Rightarrow> addr \<Rightarrow> addr \<Rightarrow> bool option" where
  "drive_node_matches m MBRType SignatureType Signature DevPath = do {
     Next \<leftarrow> NextDevicePathNode m DevPath;
     e \<leftarrow> IsDevicePathEndType m Next;
     if \<not> e then Some False
     else do {
       t \<leftarrow> rd8 m (DevPath + 40);
       if t \<noteq> MBRType then Some False
       else do {
         st \<leftarrow> rd8 m (DevPath + 41);
         if st \<noteq> SignatureType then Some False
         else if SignatureType = 1 then do {
           a \<leftarrow> rd32 m Signature; b \<leftarrow> rd32 m (DevPath + 24); Some (a = b) }
         else if SignatureType = 2 then CompareGuid_1 m Signature (DevPath + 24)
         else Some False } } }"

partial_function (option) drive_matches ::
  "mem \<Rightarrow> u8 \<Rightarrow> u8 \<Rightarrow> addr \<Rightarrow> addr \<Rightarrow> bool \<Rightarrow> bool \<Rightarrow> bool option" where
  "drive_matches m MBRType SignatureType Signature DevPath Previous Match = do {
     t \<leftarrow> DevicePathType m DevPath;
     st \<leftarrow> (if t = 4 then DevicePathSubType m DevPath else Some 0);
     let drive = (t = 4 \<and> st = 1);
     Match \<leftarrow> (if drive \<and> \<not> Previous
       then map_option (\<lambda>b. Match \<or> b) (drive_node_matches m MBRType SignatureType Signature DevPath)
       else Some Match);
     e \<leftarrow> IsDevicePathEnd m DevPath;
     if e then Some Match
     else do {
       n \<leftarrow> NextDevicePathNode m DevPath;
       drive_matches m MBRType SignatureType Signature n drive Match } }"

text \<open>
  The loop that replaces the handles that do not match by NULL and counts the others. \<open>DevicePath\<close> is
  the local variable: \<open>None\<close> while nothing has been stored in it, and kept from the handle before when
  \<open>HandleProtocol\<close> stores nothing.
\<close>

primrec filter_handles ::
  "'w lib \<Rightarrow> addr \<Rightarrow> u8 \<Rightarrow> u8 \<Rightarrow> addr \<Rightarrow> addr \<Rightarrow> nat \<Rightarrow> addr option \<Rightarrow> nat \<Rightarrow> 'w st \<Rightarrow> (nat \<times> 'w st) option" where
  "filter_handles L DevicePathProtocol MBRType SignatureType Signature Handles 0 DevicePath NoHandles s =
     Some (NoHandles, s)"
| "filter_handles L DevicePathProtocol MBRType SignatureType Signature Handles (Suc n) DevicePath NoHandles s = do {
     h \<leftarrow> rd64 (ram s) Handles;
     (case BS_HandleProtocol (BS L) (unat h) DevicePathProtocol s of
        (Status, i, s) \<Rightarrow> do {
          let DevicePath = (case i of None \<Rightarrow> DevicePath | Some p \<Rightarrow> Some p);
          p \<leftarrow> DevicePath;
          Match \<leftarrow> (if p \<noteq> 0 then drive_matches (ram s) MBRType SignatureType Signature p False False
                   else Some False);
          if Match
          then filter_handles L DevicePathProtocol MBRType SignatureType Signature (Handles + 8) n
                 DevicePath (NoHandles + 1) s
          else do {
            m \<leftarrow> wr64 (ram s) Handles 0;
            filter_handles L DevicePathProtocol MBRType SignatureType Signature (Handles + 8) n
              DevicePath NoHandles (with_ram s m) } }) }"

text \<open>The loop that copies what is left.\<close>

primrec collect_handles :: "mem \<Rightarrow> addr \<Rightarrow> nat \<Rightarrow> addr \<Rightarrow> nat \<Rightarrow> (mem \<times> nat) option" where
  "collect_handles m Handles 0 Buffer NoHandles = Some (m, NoHandles)"
| "collect_handles m Handles (Suc n) Buffer NoHandles = do {
     h \<leftarrow> rd64 m Handles;
     if h \<noteq> 0
     then do {
       m \<leftarrow> wr64 m (Buffer + 8 * NoHandles) h;
       collect_handles m (Handles + 8) n Buffer (NoHandles + 1) }
     else collect_handles m (Handles + 8) n Buffer NoHandles }"

definition LibLocateHandleByDiskSignature ::
  "'w lib \<Rightarrow> addr \<Rightarrow> addr \<Rightarrow> u8 \<Rightarrow> u8 \<Rightarrow> addr \<Rightarrow> 'w st \<Rightarrow> (u64 \<times> nat \<times> addr \<times> 'w st) option" where
  "LibLocateHandleByDiskSignature L BlockIoProtocol DevicePathProtocol MBRType SignatureType Signature s = do {
     (Status, BlockIoBuffer, BufferSize, x, s) \<leftarrow>
       grow_loop L (locate_call L 2 BlockIoProtocol 0) EFI_SUCCESS 0 (50 * 8) () s;
     let NoBlockIoHandles = (if EFI_ERROR Status then 0 else BufferSize div 8);
     if NoBlockIoHandles = 0 then Some (Status, 0, 0, FreePool L BlockIoBuffer s)
     else do {
       (NoHandles, s) \<leftarrow> filter_handles L DevicePathProtocol MBRType SignatureType Signature
         BlockIoBuffer NoBlockIoHandles None 0 s;
       if NoHandles = 0 then Some (EFI_SUCCESS, 0, 0, FreePool L BlockIoBuffer s)
       else (case AllocatePool L (NoHandles * 8) s of
         (Buffer, s) \<Rightarrow>
           if Buffer = 0 then Some (EFI_OUT_OF_RESOURCES, 0, 0, FreePool L BlockIoBuffer s)
           else do {
             (m, NoHandles) \<leftarrow> collect_handles (ram s) BlockIoBuffer NoBlockIoHandles Buffer 0;
             Some (EFI_SUCCESS, NoHandles, Buffer, FreePool L BlockIoBuffer (with_ram s m)) }) } }"

subsection \<open>Files\<close>

text \<open>
  The file protocols of inc/efiprot.h, called through the interface pointers the firmware hands out:
  \<open>OpenVolume\<close> of \<open>EFI_FILE_IO_INTERFACE\<close>, the others of \<open>EFI_FILE\<close>. \<open>FileOpen\<close> gives the new handle
  when it stores one; its name argument is the address of the string.
\<close>

record 'w file_services =
  OpenVolume :: "addr \<Rightarrow> 'w st \<Rightarrow> u64 \<times> addr \<times> 'w st"
  FileOpen :: "addr \<Rightarrow> addr \<Rightarrow> u64 \<Rightarrow> u64 \<Rightarrow> 'w st \<Rightarrow> u64 \<times> addr option \<times> 'w st"
  FileClose :: "addr \<Rightarrow> 'w st \<Rightarrow> u64 \<times> 'w st"
  FileRead :: "addr \<Rightarrow> u64 \<Rightarrow> addr \<Rightarrow> 'w st \<Rightarrow> u64 \<times> u64 \<times> 'w st"
  SetPosition :: "addr \<Rightarrow> u64 \<Rightarrow> 'w st \<Rightarrow> u64 \<times> 'w st"
  GetInfo :: "addr \<Rightarrow> addr \<Rightarrow> nat \<Rightarrow> addr \<Rightarrow> 'w st \<Rightarrow> u64 \<times> nat \<times> 'w st"

text \<open>\<open>HandleProtocol\<close> succeeds only with an interface stored; a success without one is \<open>None\<close>.\<close>

definition LibOpenRoot ::
  "'w lib \<Rightarrow> 'w file_services \<Rightarrow> addr \<Rightarrow> addr \<Rightarrow> 'w st \<Rightarrow> (addr \<times> 'w st) option" where
  "LibOpenRoot L F FileSystemProtocol DeviceHandle s =
     (case BS_HandleProtocol (BS L) DeviceHandle FileSystemProtocol s of
        (Status, Volume, s) \<Rightarrow>
          if \<not> EFI_ERROR Status then do {
            v \<leftarrow> Volume;
            (case OpenVolume F v s of
               (Status, File, s) \<Rightarrow> Some (if EFI_ERROR Status then 0 else File, s)) }
          else Some (0, s))"

definition get_info_call ::
  "'w file_services \<Rightarrow> addr \<Rightarrow> addr \<Rightarrow> nat \<Rightarrow> addr \<Rightarrow> unit \<Rightarrow> 'w st \<Rightarrow> u64 \<times> nat \<times> unit \<times> 'w st" where
  "get_info_call F FHand Kind n p x s =
     (case GetInfo F FHand Kind n p s of (Status, n, s) \<Rightarrow> (Status, n, x, s))"

text \<open>The sizes are those of the structures in front of their names: 80, 36 and 0 bytes.\<close>

definition LibFileInfo ::
  "'w lib \<Rightarrow> 'w file_services \<Rightarrow> addr \<Rightarrow> addr \<Rightarrow> 'w st \<Rightarrow> (addr \<times> 'w st) option" where
  "LibFileInfo L F GenericFileInfo FHand s = do {
     (Status, Buffer, BufferSize, x, s) \<leftarrow>
       grow_loop L (get_info_call F FHand GenericFileInfo) EFI_SUCCESS 0 (80 + 200) () s;
     Some (Buffer, s) }"

definition LibFileSystemInfo ::
  "'w lib \<Rightarrow> 'w file_services \<Rightarrow> addr \<Rightarrow> addr \<Rightarrow> 'w st \<Rightarrow> (addr \<times> 'w st) option" where
  "LibFileSystemInfo L F FileSystemInfo FHand s = do {
     (Status, Buffer, BufferSize, x, s) \<leftarrow>
       grow_loop L (get_info_call F FHand FileSystemInfo) EFI_SUCCESS 0 (36 + 200) () s;
     Some (Buffer, s) }"

definition LibFileSystemVolumeLabelInfo ::
  "'w lib \<Rightarrow> 'w file_services \<Rightarrow> addr \<Rightarrow> addr \<Rightarrow> 'w st \<Rightarrow> (addr \<times> 'w st) option" where
  "LibFileSystemVolumeLabelInfo L F FileSystemVolumeLabelInfo FHand s = do {
     (Status, Buffer, BufferSize, x, s) \<leftarrow>
       grow_loop L (get_info_call F FHand FileSystemVolumeLabelInfo) EFI_SUCCESS 0 (0 + 200) () s;
     Some (Buffer, s) }"

subsection \<open>Installing and removing interfaces\<close>

text \<open>\<open>TPL_NOTIFY\<close> is 16. The loop gives the status, \<open>*Handle\<close> and \<open>Index\<close>.\<close>

fun install_loop ::
  "'w lib \<Rightarrow> addr \<Rightarrow> addr list \<Rightarrow> nat \<Rightarrow> 'w st \<Rightarrow> (u64 \<times> addr \<times> nat \<times> 'w st) option" where
  "install_loop L h [] Index s = None"
| "install_loop L h (Protocol # args) Index s =
     (if Protocol = 0 then Some (EFI_SUCCESS, h, Index, s)
      else case args of
        [] \<Rightarrow> None
      | Interface # args \<Rightarrow>
          (case BS_InstallProtocolInterface (BS L) h Protocol Interface s of
             (Status, h, s) \<Rightarrow>
               if EFI_ERROR Status then Some (Status, h, Index, s)
               else install_loop L h args (Index + 1) s))"

fun remove_loop :: "'w lib \<Rightarrow> addr \<Rightarrow> addr list \<Rightarrow> nat \<Rightarrow> 'w st \<Rightarrow> 'w st option" where
  "remove_loop L h args 0 s = Some s"
| "remove_loop L h (Protocol # Interface # args) (Suc Index) s =
     remove_loop L h args Index (snd (BS_UninstallProtocolInterface (BS L) h Protocol Interface s))"
| "remove_loop L h args (Suc Index) s = None"

definition LibInstallProtocolInterfaces ::
  "'w lib \<Rightarrow> addr \<Rightarrow> addr list \<Rightarrow> 'w st \<Rightarrow> (u64 \<times> addr \<times> 'w st) option" where
  "LibInstallProtocolInterfaces L Handle args s =
     (case BS_RaiseTPL (BS L) 16 s of
        (OldTpl, s) \<Rightarrow> do {
          (Status, h, Index, s) \<leftarrow> install_loop L Handle args 0 s;
          (h, s) \<leftarrow> (if EFI_ERROR Status
            then map_option (\<lambda>s. (Handle, s)) (remove_loop L h args Index s)
            else Some (h, s));
          Some (Status, h, BS_RestoreTPL (BS L) OldTpl s) })"

fun LibUninstallProtocolInterfaces :: "'w lib \<Rightarrow> addr \<Rightarrow> addr list \<Rightarrow> 'w st \<Rightarrow> 'w st option" where
  "LibUninstallProtocolInterfaces L Handle [] s = None"
| "LibUninstallProtocolInterfaces L Handle (Protocol # args) s =
     (if Protocol = 0 then Some s
      else case args of
        [] \<Rightarrow> None
      | Interface # args \<Rightarrow>
          LibUninstallProtocolInterfaces L Handle args
            (snd (BS_UninstallProtocolInterface (BS L) Handle Protocol Interface s)))"

text \<open>
  \<open>Handle\<close> is the address of the handle's cell, an \<open>EFI_HANDLE *\<close>, and it is what the code passes to
  \<open>ReinstallProtocolInterface\<close>, which takes the handle.
\<close>

fun reinstall_loop ::
  "'w lib \<Rightarrow> addr \<Rightarrow> addr list \<Rightarrow> nat \<Rightarrow> 'w st \<Rightarrow> (u64 \<times> nat \<times> 'w st) option" where
  "reinstall_loop L Handle [] Index s = None"
| "reinstall_loop L Handle (Protocol # args) Index s =
     (if Protocol = 0 then Some (EFI_SUCCESS, Index, s)
      else case args of
        OldInterface # NewInterface # args \<Rightarrow>
          (case BS_ReinstallProtocolInterface (BS L) Handle Protocol OldInterface NewInterface s of
             (Status, s) \<Rightarrow>
               if EFI_ERROR Status then Some (Status, Index, s)
               else reinstall_loop L Handle args (Index + 1) s)
      | _ \<Rightarrow> None)"

fun undo_reinstall_loop :: "'w lib \<Rightarrow> addr \<Rightarrow> addr list \<Rightarrow> nat \<Rightarrow> 'w st \<Rightarrow> 'w st option" where
  "undo_reinstall_loop L Handle args 0 s = Some s"
| "undo_reinstall_loop L Handle (Protocol # OldInterface # NewInterface # args) (Suc Index) s =
     undo_reinstall_loop L Handle args Index
       (snd (BS_ReinstallProtocolInterface (BS L) Handle Protocol NewInterface OldInterface s))"
| "undo_reinstall_loop L Handle args (Suc Index) s = None"

definition LibReinstallProtocolInterfaces ::
  "'w lib \<Rightarrow> addr \<Rightarrow> addr list \<Rightarrow> 'w st \<Rightarrow> (u64 \<times> 'w st) option" where
  "LibReinstallProtocolInterfaces L Handle args s =
     (case BS_RaiseTPL (BS L) 16 s of
        (OldTpl, s) \<Rightarrow> do {
          (Status, Index, s) \<leftarrow> reinstall_loop L Handle args 0 s;
          s \<leftarrow> (if EFI_ERROR Status then undo_reinstall_loop L Handle args Index s else Some s);
          Some (Status, BS_RestoreTPL (BS L) OldTpl s) })"

subsection \<open>The variadic arguments and what they add to the database\<close>

text \<open>The words behind \<open>Handle\<close> for a list of protocols with their interfaces.\<close>

definition arg_list :: "(addr \<times> addr) list \<Rightarrow> addr list" where
  "arg_list ps = concat (map (\<lambda>(g, i). [g, i]) ps) @ [0]"

lemma arg_list_simps [simp]:
  "arg_list [] = [0]" "arg_list ((g, i) # ps) = g # i # arg_list ps"
  by (simp_all add: arg_list_def)

text \<open>The entries of the interfaces on a handle, and a database that has gained just these.\<close>

definition entries :: "mem \<Rightarrow> addr \<Rightarrow> (addr \<times> addr) list \<Rightarrow> ((addr \<times> u8 list) \<times> addr) list" where
  "entries m h ps = map (\<lambda>(g, i). ((h, region m g 16), i)) ps"

definition gained :: "protocols \<Rightarrow> ((addr \<times> u8 list) \<times> addr) list \<Rightarrow> protocols \<Rightarrow> bool" where
  "gained D es D' \<longleftrightarrow>
     distinct (map fst es) \<and> (\<forall>k \<in> set (map fst es). D k = None) \<and> D' = D ++ map_of es"

lemma entries_simps [simp]:
  "entries m h [] = []" "entries m h ((g, i) # ps) = ((h, region m g 16), i) # entries m h ps"
  "entries m h (ps @ qs) = entries m h ps @ entries m h qs"
  by (simp_all add: entries_def)

lemma entries_handle: "k \<in> set (map fst (entries m h ps)) \<Longrightarrow> fst k = h"
  by (auto simp: entries_def)

lemma gained_Nil [simp]: "gained D [] D' \<longleftrightarrow> D' = D"
  by (auto simp: gained_def)

lemma map_add_upd_left:
  assumes "k \<notin> dom g"
  shows "f(k \<mapsto> i) ++ g = (f ++ g)(k \<mapsto> i)"
  using assms by (auto simp: map_add_def fun_eq_iff split: option.splits)

lemma gained_Cons:
  assumes "D k = None" "gained (D(k \<mapsto> i)) es D'"
  shows "gained D ((k, i) # es) D'"
proof -
  have k: "k \<notin> fst ` set es" using assms(2) by (auto simp: gained_def)
  then have "D(k \<mapsto> i) ++ map_of es = D ++ map_of ((k, i) # es)"
    by (simp add: map_add_upd_left dom_map_of_conv_image_fst)
  with assms k show ?thesis by (auto simp: gained_def split: if_splits)
qed

lemma gained_remove:
  assumes "gained D ((k, i) # es) D'"
  shows "D' k = Some i" "gained D es (D'(k := None))"
proof -
  have k: "k \<notin> fst ` set es" "D k = None" using assms by (auto simp: gained_def)
  show "D' k = Some i" using assms by (simp add: gained_def)
  have "map_of es k = None" using k(1) by (simp add: map_of_eq_None_iff)
  then have "(D ++ map_of ((k, i) # es))(k := None) = D ++ map_of es"
    using k(2) by (auto simp: fun_eq_iff map_add_def)
  with assms show "gained D es (D'(k := None))" by (simp add: gained_def)
qed

subsection \<open>The loops\<close>

lemma install_loop_run:
  assumes ok: "protocols_ok (BS L) db tpl" and g: "0 \<notin> fst ` set ps"
  shows "\<exists>st h' ps1 ps2 s'. install_loop L h (arg_list ps) n s = Some (st, h', n + length ps1, s') \<and>
    ps = ps1 @ ps2 \<and> (\<not> EFI_ERROR st \<longrightarrow> ps2 = []) \<and> ram s' = ram s \<and> tpl (fw s') = tpl (fw s) \<and>
    gained (db (fw s)) (entries (ram s) h' ps1) (db (fw s')) \<and>
    (if h = 0 \<and> ps1 \<noteq> [] then h' \<noteq> 0 \<and> (\<forall>b. db (fw s) (h', b) = None) else h' = h)"
  using g
proof (induction ps arbitrary: h n s)
  case Nil
  then show ?case by (auto intro!: exI [of _ "[]"])
next
  case (Cons p ps)
  obtain g i where p: "p = (g, i)" by force
  obtain st h1 s1 where c: "BS_InstallProtocolInterface (BS L) h g i s = (st, h1, s1)"
    by (metis prod_cases3)
  note f = install_protocol [OF ok c]
  have g0: "g \<noteq> 0" using Cons.prems p by (metis fst_conv image_eqI list.set_intros(1))
  have ps: "0 \<notin> fst ` set ps" using Cons.prems by simp
  show ?case
  proof (cases "EFI_ERROR st")
    case True
    then have "install_loop L h (arg_list (p # ps)) n s = Some (st, h, n + length [], s1)"
      using c g0 p f(3) by simp
    moreover have "gained (db (fw s)) (entries (ram s) h []) (db (fw s1))" using True f(4) by simp
    ultimately show ?thesis using f(1,2) True
      by (intro exI [of _ st] exI [of _ h] exI [of _ "[]"] exI [of _ "p # ps"] exI [of _ s1]) simp
  next
    case False
    let ?k = "(h1, region (ram s) g 16)"
    have h1: "if h = 0 then h1 \<noteq> 0 \<and> (\<forall>b. db (fw s) (h1, b) = None) else h1 = h"
      using False f(5,6) by simp
    obtain st' h' ps1 ps2 s' where r:
      "install_loop L h1 (arg_list ps) (n + 1) s1 = Some (st', h', n + 1 + length ps1, s')"
      "ps = ps1 @ ps2" "\<not> EFI_ERROR st' \<longrightarrow> ps2 = []" "ram s' = ram s1" "tpl (fw s') = tpl (fw s1)"
      "gained (db (fw s1)) (entries (ram s1) h' ps1) (db (fw s'))"
      "if h1 = 0 \<and> ps1 \<noteq> [] then h' \<noteq> 0 \<and> (\<forall>b. db (fw s1) (h', b) = None) else h' = h1"
      using Cons.IH [OF ps, of h1 "n + 1" s1] by blast
    have "h1 \<noteq> 0" using h1 by (auto split: if_splits)
    then have h': "h' = h1" using r(7) by simp
    have "install_loop L h (arg_list (p # ps)) n s = Some (st', h', n + length (p # ps1), s')"
      using c g0 p False r(1) by simp
    moreover have "gained (db (fw s)) (entries (ram s) h' (p # ps1)) (db (fw s'))"
      using gained_Cons [of "db (fw s)" ?k i] f(7,8) [OF False] r(6) f(1) p h' by simp
    ultimately show ?thesis using r(2-5) f(1,2) h1 h'
      by (intro exI [of _ st'] exI [of _ h'] exI [of _ "p # ps1"] exI [of _ ps2] exI [of _ s'])
        (simp split: if_splits)
  qed
qed

lemma remove_loop_run:
  assumes ok: "protocols_ok (BS L) db tpl"
    and "gained D (entries (ram s) h ps) (db (fw s))"
  shows "\<exists>s'. remove_loop L h (arg_list (ps @ qs)) (length ps) s = Some s' \<and> ram s' = ram s \<and>
    tpl (fw s') = tpl (fw s) \<and> db (fw s') = D"
  using assms(2)
proof (induction ps arbitrary: s)
  case Nil
  then show ?case by simp
next
  case (Cons p ps)
  obtain g i where p: "p = (g, i)" by force
  obtain st s1 where c: "BS_UninstallProtocolInterface (BS L) h g i s = (st, s1)" by force
  note f = uninstall_protocol [OF ok c]
  note r = gained_remove [OF Cons.prems [unfolded p entries_simps]]
  have "gained D (entries (ram s1) h ps) (db (fw s1))" using r f(1,4) by simp
  from Cons.IH [OF this] show ?case using f(1,2) c p by simp
qed

lemma LibUninstallProtocolInterfaces_remove_loop:
  "0 \<notin> fst ` set ps \<Longrightarrow>
   LibUninstallProtocolInterfaces L h (arg_list ps) s = remove_loop L h (arg_list ps) (length ps) s"
  by (induction ps arbitrary: s) auto

lemma reinstall_loop_first:
  assumes ok: "protocols_ok (BS L) db tpl" and "g \<noteq> 0" "db (fw s) (h, region (ram s) g 16) \<noteq> Some i"
  shows "\<exists>st s'. reinstall_loop L h (g # i # j # args) n s = Some (st, n, s') \<and> EFI_ERROR st \<and>
    ram s' = ram s \<and> tpl (fw s') = tpl (fw s) \<and> db (fw s') = db (fw s)"
proof -
  obtain st s1 where c: "BS_ReinstallProtocolInterface (BS L) h g i j s = (st, s1)" by force
  show ?thesis using reinstall_protocol [OF ok c] assms(2,3) c by simp
qed

lemma install_atomic:
  assumes "tpl_ok (BS L) tpl db" "protocols_ok (BS L) db tpl" "0 \<notin> fst ` set ps"
  shows "\<exists>st h' s'. LibInstallProtocolInterfaces L h (arg_list ps) s = Some (st, h', s') \<and>
    ram s' = ram s \<and> tpl (fw s') = tpl (fw s) \<and>
    (if EFI_ERROR st then h' = h \<and> db (fw s') = db (fw s)
     else gained (db (fw s)) (entries (ram s) h' ps) (db (fw s')) \<and>
       (if h = 0 \<and> ps \<noteq> [] then h' \<noteq> 0 \<and> (\<forall>b. db (fw s) (h', b) = None) else h' = h))"
proof -
  obtain old s0 where o: "BS_RaiseTPL (BS L) 16 s = (old, s0)" by force
  note r = raise_tpl [OF assms(1) o]
  note t = restore_tpl [OF assms(1)]
  obtain st h' ps1 ps2 s1 where i: "install_loop L h (arg_list ps) 0 s0 = Some (st, h', 0 + length ps1, s1)"
    "ps = ps1 @ ps2" "\<not> EFI_ERROR st \<longrightarrow> ps2 = []" "ram s1 = ram s0" "tpl (fw s1) = tpl (fw s0)"
    "gained (db (fw s0)) (entries (ram s0) h' ps1) (db (fw s1))"
    "if h = 0 \<and> ps1 \<noteq> [] then h' \<noteq> 0 \<and> (\<forall>b. db (fw s0) (h', b) = None) else h' = h"
    using install_loop_run [OF assms(2,3), of h 0 s0] by blast
  show ?thesis
  proof (cases "EFI_ERROR st")
    case True
    obtain s2 where u: "remove_loop L h' (arg_list ps) (length ps1) s1 = Some s2" "ram s2 = ram s1"
      "db (fw s2) = db (fw s0)"
      using remove_loop_run [OF assms(2), of "db (fw s0)" s1 h' ps1 ps2] i(2,4,6) by auto
    show ?thesis using True o i(1,4) u r t by (simp add: LibInstallProtocolInterfaces_def)
  next
    case False
    then have "ps = ps1" using i(2,3) by simp
    then show ?thesis using False o i(1,4-7) r t
      by (auto simp: LibInstallProtocolInterfaces_def split: if_splits)
  qed
qed

subsection \<open>Properties\<close>

text \<open>C6. \<open>LibInstallProtocolInterfaces\<close> installs all the interfaces or none: when it succeeds the
  database has gained exactly the entries of its arguments, all on one handle (a handle without
  interfaces when \<open>*Handle\<close> was NULL); when any installation fails, the interfaces installed before it
  are removed again, the database is what it was and so is \<open>*Handle\<close>. Memory is not touched, and the
  task priority level on return is the one of the call.\<close>

theorem LibInstallProtocolInterfaces_all_or_nothing:
  assumes "tpl_ok (BS L) tpl db" "protocols_ok (BS L) db tpl" "0 \<notin> fst ` set ps"
  shows "\<exists>st h' s'. LibInstallProtocolInterfaces L h (arg_list ps) s = Some (st, h', s') \<and>
    ram s' = ram s \<and> tpl (fw s') = tpl (fw s) \<and>
    (if EFI_ERROR st then h' = h \<and> db (fw s') = db (fw s)
     else gained (db (fw s)) (entries (ram s) h' ps) (db (fw s')) \<and>
       (if h = 0 \<and> ps \<noteq> [] then h' \<noteq> 0 \<and> (\<forall>b. db (fw s) (h', b) = None) else h' = h))"
  using assms by (rule install_atomic)

definition demo_guids :: "demo st" where
  "demo_guids = demo_mem (replicate 16 1 @ replicate 16 2) 0"

theorem LibInstallProtocolInterfaces_all_or_nothing_witness:
  "\<exists>st h' s'. LibInstallProtocolInterfaces demo_lib 0 (arg_list [(1, 100), (17, 200), (1, 300)]) demo_guids
      = Some (st, h', s') \<and> EFI_ERROR st \<and> h' = 0 \<and> demo_tpl (fw s') = 4 \<and> db_of (fw s') = Map.empty"
proof -
  have "map_option fst (LibInstallProtocolInterfaces demo_lib 0 (arg_list [(1, 100), (17, 200), (1, 300)])
      demo_guids) = Some EFI_INVALID_PARAMETER"
    by code_simp
  then show ?thesis
    using LibInstallProtocolInterfaces_all_or_nothing
      [of demo_lib demo_tpl db_of "[(1, 100), (17, 200), (1, 300)]" 0 demo_guids]
      demo_tpl_ok demo_protocols_ok
    by (auto simp: demo_lib_def demo_guids_def demo_mem_def db_of_def)
qed

text \<open>C28. Uninstalling takes back what installing did: after a successful
  \<open>LibInstallProtocolInterfaces\<close>, \<open>LibUninstallProtocolInterfaces\<close> with the handle it gave and the
  same arguments leads back to the database it started from.\<close>

theorem LibUninstallProtocolInterfaces_undoes:
  assumes "tpl_ok (BS L) tpl db" "protocols_ok (BS L) db tpl" "0 \<notin> fst ` set ps"
    "LibInstallProtocolInterfaces L h (arg_list ps) s = Some (st, h', s')" "\<not> EFI_ERROR st"
  shows "\<exists>s''. LibUninstallProtocolInterfaces L h' (arg_list ps) s' = Some s'' \<and>
    ram s'' = ram s \<and> tpl (fw s'') = tpl (fw s) \<and> db (fw s'') = db (fw s)"
proof -
  obtain "gained (db (fw s)) (entries (ram s') h' ps) (db (fw s'))" "ram s' = ram s"
    "tpl (fw s') = tpl (fw s)"
    using install_atomic [OF assms(1-3), of h s] assms(4,5) by auto
  then show ?thesis
    using remove_loop_run [OF assms(2), of "db (fw s)" s' h' ps "[]"]
      LibUninstallProtocolInterfaces_remove_loop [OF assms(3), of L] by auto
qed

theorem LibUninstallProtocolInterfaces_undoes_witness:
  "\<exists>s' s''. LibInstallProtocolInterfaces demo_lib 0 (arg_list [(1, 100), (17, 200)]) demo_guids
      = Some (EFI_SUCCESS, 1, s') \<and>
    db_of (fw s') \<noteq> Map.empty \<and>
    LibUninstallProtocolInterfaces demo_lib 1 (arg_list [(1, 100), (17, 200)]) s' = Some s'' \<and>
    db_of (fw s'') = Map.empty"
proof -
  let ?i = "LibInstallProtocolInterfaces demo_lib 0 (arg_list [(1, 100), (17, 200)]) demo_guids"
  have "map_option (\<lambda>(st, h, s'). (st, h, demo_db (fw s') = [])) ?i = Some (EFI_SUCCESS, 1, False)"
    by code_simp
  then obtain s' where i: "?i = Some (EFI_SUCCESS, 1, s')" "demo_db (fw s') \<noteq> []" by auto
  have "db_of (fw s') \<noteq> Map.empty" using i(2) by (cases "demo_db (fw s')") (auto simp: db_of_def)
  moreover have "db_of (fw demo_guids) = Map.empty" by (simp add: demo_guids_def demo_mem_def db_of_def)
  ultimately show ?thesis
    using i(1) LibUninstallProtocolInterfaces_undoes
      [of demo_lib demo_tpl db_of "[(1, 100), (17, 200)]" 0 demo_guids EFI_SUCCESS 1 s']
      demo_tpl_ok demo_protocols_ok
    by (auto simp: demo_lib_def)
qed

text \<open>C35. \<open>LibReinstallProtocolInterfaces\<close> passes the address of the handle's cell for the handle.
  As long as that address is not itself a handle with the interface, the call fails whatever the
  handle in the cell has installed, replaces nothing, and leaves the task priority level as it was.\<close>

theorem LibReinstallProtocolInterfaces_passes_cell:
  assumes "tpl_ok (BS L) tpl db" "protocols_ok (BS L) db tpl" "g \<noteq> 0"
    "db (fw s) (Handle, region (ram s) g 16) \<noteq> Some i"
  shows "\<exists>st s'. LibReinstallProtocolInterfaces L Handle (g # i # j # args) s = Some (st, s') \<and>
    EFI_ERROR st \<and> ram s' = ram s \<and> tpl (fw s') = tpl (fw s) \<and> db (fw s') = db (fw s)"
proof -
  obtain old s0 where o: "BS_RaiseTPL (BS L) 16 s = (old, s0)" by force
  note r = raise_tpl [OF assms(1) o]
  obtain st s1 where "reinstall_loop L Handle (g # i # j # args) 0 s0 = Some (st, 0, s1)"
    "EFI_ERROR st" "ram s1 = ram s0" "db (fw s1) = db (fw s0)"
    using reinstall_loop_first [OF assms(2,3), of s0 Handle i j args 0] assms(4) r(3,4) by auto
  then show ?thesis using o r restore_tpl [OF assms(1)]
    by (simp add: LibReinstallProtocolInterfaces_def)
qed

text \<open>The interface 100 of GUID 1 on handle 9; the cell that holds 9 is at address 40.\<close>

theorem LibReinstallProtocolInterfaces_passes_cell_witness:
  "\<exists>s st s'. db_of (fw s) (9, region (ram s) 1 16) = Some 100 \<and>
    LibReinstallProtocolInterfaces demo_lib 40 [1, 100, 101, 0] s = Some (st, s') \<and> EFI_ERROR st \<and>
    db_of (fw s') (9, region (ram s) 1 16) = Some 100"
proof -
  let ?s = "demo_guids\<lparr>fw := (fw demo_guids)\<lparr>demo_db := [((9, replicate 16 1), 100)]\<rparr>\<rparr>"
  have "region (ram ?s) 1 16 = replicate 16 1" by code_simp
  then have d: "db_of (fw ?s) (9, region (ram ?s) 1 16) = Some 100"
    "db_of (fw ?s) (40, region (ram ?s) 1 16) = None"
    by (simp_all add: db_of_def)
  obtain st s' where "LibReinstallProtocolInterfaces demo_lib 40 [1, 100, 101, 0] ?s = Some (st, s')"
    "EFI_ERROR st" "db_of (fw s') = db_of (fw ?s)"
    using LibReinstallProtocolInterfaces_passes_cell
      [of demo_lib demo_tpl db_of 1 ?s 40 100 101 "[0]"] demo_tpl_ok demo_protocols_ok d
    by (auto simp: demo_lib_def)
  then show ?thesis using d(1) by (intro exI [of _ ?s] exI [of _ st] exI [of _ s']) simp
qed

end
