(* ===== verification/Locks.thy ===== *)
theory Locks
  imports Firmware
begin

text \<open>
  lib/lock.c and lib/runtime/rtlock.c: locks. There is no other processor and no preemption, so a
  lock (\<open>FLOCK\<close>, inc/efilink.h) is held by running at its task priority level; \<open>OwnerTpl\<close> remembers
  the level to go back to.

  \<open>'w tpl_access\<close> holds the globals the code chooses the services by: \<open>BS\<close> with the two function
  pointers of the boot services, \<open>None\<close> for NULL, and the two runtime copies of the pointers.
  \<open>ASSERT\<close> is empty in a release build.

  The second half follows a program that works with several locks, \<open>lock_step\<close>, and shows what holds
  in every state it can reach if it releases the locks in the reverse order.
\<close>

subsection \<open>Operations\<close>

record FLOCK =
  Tpl :: nat
  OwnerTpl :: nat
  Lock :: nat

type_synonym 'w raise_tpl = "nat \<Rightarrow> 'w st \<Rightarrow> nat \<times> 'w st"
type_synonym 'w restore_tpl = "nat \<Rightarrow> 'w st \<Rightarrow> 'w st"

record 'w tpl_access =
  Boot_TPL :: "('w raise_tpl option \<times> 'w restore_tpl option) option"
  LibRuntimeRaiseTPL :: "'w raise_tpl option"
  LibRuntimeRestoreTPL :: "'w restore_tpl option"

definition InitializeLock :: "FLOCK \<Rightarrow> nat \<Rightarrow> FLOCK" where
  "InitializeLock l Priority = l\<lparr>Tpl := Priority, OwnerTpl := 0, Lock := 0\<rparr>"

definition RtAcquireLock :: "'w tpl_access \<Rightarrow> FLOCK \<Rightarrow> 'w st \<Rightarrow> FLOCK \<times> 'w st" where
  "RtAcquireLock A l s =
     (let (l, s) =
        (case Boot_TPL A of
           Some (raise, _) \<Rightarrow>
             (case raise of
                Some f \<Rightarrow> (case f (Tpl l) s of (t, s) \<Rightarrow> (l\<lparr>OwnerTpl := t\<rparr>, s))
              | None \<Rightarrow> (l, s))
         | None \<Rightarrow>
             (case LibRuntimeRaiseTPL A of
                Some f \<Rightarrow> (case f (Tpl l) s of (t, s) \<Rightarrow> (l\<lparr>OwnerTpl := t\<rparr>, s))
              | None \<Rightarrow> (l, s)))
      in (l\<lparr>Lock := uintn (Lock l + 1)\<rparr>, s))"

definition RtReleaseLock :: "'w tpl_access \<Rightarrow> FLOCK \<Rightarrow> 'w st \<Rightarrow> FLOCK \<times> 'w st" where
  "RtReleaseLock A l s =
     (let t = OwnerTpl l;
          l = l\<lparr>Lock := uintn (Lock l + (2 ^ 64 - 1))\<rparr>
      in (case Boot_TPL A of
            Some (_, restore) \<Rightarrow> (case restore of Some f \<Rightarrow> (l, f t s) | None \<Rightarrow> (l, s))
          | None \<Rightarrow> (case LibRuntimeRestoreTPL A of Some f \<Rightarrow> (l, f t s) | None \<Rightarrow> (l, s))))"

definition AcquireLock :: "'w tpl_access \<Rightarrow> FLOCK \<Rightarrow> 'w st \<Rightarrow> FLOCK \<times> 'w st" where
  "AcquireLock A l s = RtAcquireLock A l s"

definition ReleaseLock :: "'w tpl_access \<Rightarrow> FLOCK \<Rightarrow> 'w st \<Rightarrow> FLOCK \<times> 'w st" where
  "ReleaseLock A l s = RtReleaseLock A l s"

subsection \<open>The contract of the task priority services\<close>

text \<open>Whichever pair of services is used, they read and set the level and touch nothing else.\<close>

definition tpl_pair :: "'w raise_tpl \<Rightarrow> 'w restore_tpl \<Rightarrow> ('w \<Rightarrow> nat) \<Rightarrow> ('w \<Rightarrow> 'v) \<Rightarrow> bool" where
  "tpl_pair raise restore tpl view \<longleftrightarrow>
     (\<forall>t s old s'. raise t s = (old, s') \<longrightarrow>
        old = tpl (fw s) \<and> tpl (fw s') = t \<and> ram s' = ram s \<and> view (fw s') = view (fw s)) \<and>
     (\<forall>t s. tpl (fw (restore t s)) = t \<and> ram (restore t s) = ram s \<and>
        view (fw (restore t s)) = view (fw s))"

definition tpl_access_ok :: "'w tpl_access \<Rightarrow> ('w \<Rightarrow> nat) \<Rightarrow> ('w \<Rightarrow> 'v) \<Rightarrow> bool" where
  "tpl_access_ok A tpl view \<longleftrightarrow>
     (\<exists>raise restore. tpl_pair raise restore tpl view \<and>
        (case Boot_TPL A of
           Some p \<Rightarrow> p = (Some raise, Some restore)
         | None \<Rightarrow> LibRuntimeRaiseTPL A = Some raise \<and> LibRuntimeRestoreTPL A = Some restore))"

definition boot_access :: "'w boot_services \<Rightarrow> 'w tpl_access" where
  "boot_access B = \<lparr>Boot_TPL = Some (Some (BS_RaiseTPL B), Some (BS_RestoreTPL B)),
     LibRuntimeRaiseTPL = None, LibRuntimeRestoreTPL = None\<rparr>"

lemma boot_access_ok: "tpl_ok B tpl view \<Longrightarrow> tpl_access_ok (boot_access B) tpl view"
  unfolding tpl_access_ok_def boot_access_def tpl_pair_def tpl_ok_def
  by (intro exI [of _ "BS_RaiseTPL B"] exI [of _ "BS_RestoreTPL B"])
    simp

lemma acquire_lock:
  assumes "tpl_access_ok A tpl view" "AcquireLock A l s = (l', s')"
  shows "l' = l\<lparr>OwnerTpl := tpl (fw s), Lock := uintn (Lock l + 1)\<rparr>" "tpl (fw s') = Tpl l"
    "ram s' = ram s" "view (fw s') = view (fw s)"
  using assms
  by (auto simp: tpl_access_ok_def tpl_pair_def AcquireLock_def RtAcquireLock_def Let_def
      split: option.splits prod.splits)

lemma release_lock:
  assumes "tpl_access_ok A tpl view" "ReleaseLock A l s = (l', s')"
  shows "l' = l\<lparr>Lock := uintn (Lock l + (2 ^ 64 - 1))\<rparr>" "tpl (fw s') = OwnerTpl l"
    "ram s' = ram s" "view (fw s') = view (fw s)"
  using assms
  by (auto simp: tpl_access_ok_def tpl_pair_def ReleaseLock_def RtReleaseLock_def Let_def
      split: option.splits prod.splits)

subsection \<open>A program with several locks\<close>

text \<open>
  The locks by number, the numbers of the locks that are held (the one acquired last first), and the
  state. A lock is acquired when it is free and its level is not below the current one, which
  \<open>RaiseTPL\<close> demands; only the lock acquired last is released.
\<close>

type_synonym 'w lock_state = "(nat \<Rightarrow> FLOCK) \<times> nat list \<times> 'w st"

inductive lock_step :: "'w tpl_access \<Rightarrow> ('w \<Rightarrow> nat) \<Rightarrow> 'w lock_state \<Rightarrow> 'w lock_state \<Rightarrow> bool"
  for A tpl where
  acquire: "i \<notin> List.set held \<Longrightarrow> tpl (fw s) \<le> Tpl (locks i) \<Longrightarrow> AcquireLock A (locks i) s = (l, s') \<Longrightarrow>
    lock_step A tpl (locks, held, s) (locks(i := l), i # held, s')"
| release: "ReleaseLock A (locks i) s = (l, s') \<Longrightarrow>
    lock_step A tpl (locks, i # held, s) (locks(i := l), held, s')"

inductive lock_run :: "'w tpl_access \<Rightarrow> ('w \<Rightarrow> nat) \<Rightarrow> 'w lock_state \<Rightarrow> 'w lock_state \<Rightarrow> bool"
  for A tpl where
  start: "lock_run A tpl x x"
| step: "lock_run A tpl x y \<Longrightarrow> lock_step A tpl y z \<Longrightarrow> lock_run A tpl x z"

inductive_cases lock_stepE: "lock_step A tpl (locks, held, s) y"

text \<open>
  \<open>nested base locks held t\<close>: the level \<open>t\<close> is that of the lock acquired last, which remembers the level
  below it, and so on down to \<open>base\<close>; the levels do not decrease.
\<close>

primrec nested :: "nat \<Rightarrow> (nat \<Rightarrow> FLOCK) \<Rightarrow> nat list \<Rightarrow> nat \<Rightarrow> bool" where
  "nested base locks [] t \<longleftrightarrow> t = base"
| "nested base locks (i # held) t \<longleftrightarrow>
     t = Tpl (locks i) \<and> OwnerTpl (locks i) \<le> t \<and> nested base locks held (OwnerTpl (locks i))"

definition locks_ok :: "('w \<Rightarrow> nat) \<Rightarrow> nat \<Rightarrow> (nat \<Rightarrow> FLOCK) \<Rightarrow> 'w lock_state \<Rightarrow> bool" where
  "locks_ok tpl base locks0 x \<longleftrightarrow>
     (case x of (locks, held, s) \<Rightarrow>
        distinct held \<and> nested base locks held (tpl (fw s)) \<and>
        (\<forall>i. Tpl (locks i) = Tpl (locks0 i) \<and> Lock (locks i) = (if i \<in> List.set held then 1 else 0)))"

lemma nested_upd: "i \<notin> List.set held \<Longrightarrow> nested base (locks(i := l)) held t = nested base locks held t"
  by (induction held arbitrary: t) auto

lemma nested_bounds:
  "nested base locks held t \<Longrightarrow> i \<in> List.set held \<Longrightarrow>
   base \<le> OwnerTpl (locks i) \<and> OwnerTpl (locks i) \<le> Tpl (locks i) \<and> Tpl (locks i) \<le> t"
proof (induction held arbitrary: t)
  case (Cons j held)
  have "base \<le> u" if "nested base locks h u" for h u
    using that by (induction h arbitrary: u) (auto intro: order_trans)
  with Cons show ?case by fastforce
qed simp

lemma locks_ok_step:
  assumes "tpl_access_ok A tpl view" "lock_step A tpl x y" "locks_ok tpl base locks0 x"
  shows "locks_ok tpl base locks0 y \<and> ram (snd (snd y)) = ram (snd (snd x)) \<and>
    view (fw (snd (snd y))) = view (fw (snd (snd x)))"
  using assms(2,3)
proof cases
  case (acquire i held s locks l s')
  note a = acquire_lock [OF assms(1) acquire(5)]
  show ?thesis using acquire assms(3) a by (auto simp: locks_ok_def nested_upd)
next
  case (release locks i s l s' held)
  note r = release_lock [OF assms(1) release(3)]
  have n: "i \<notin> List.set held" "Lock (locks i) = 1" using release assms(3) by (auto simp: locks_ok_def)
  then have "Lock l = 0" using r(1) by (simp add: uintn_def)
  then show ?thesis using release assms(3) r n by (auto simp: locks_ok_def nested_upd)
qed

lemma locks_ok_run:
  assumes "tpl_access_ok A tpl view" "lock_run A tpl x y" "locks_ok tpl base locks0 x"
  shows "locks_ok tpl base locks0 y \<and> ram (snd (snd y)) = ram (snd (snd x)) \<and>
    view (fw (snd (snd y))) = view (fw (snd (snd x)))"
  using assms(2,3)
proof (induction rule: lock_run.induct)
  case (start x)
  then show ?case by simp
next
  case (step x y z)
  then show ?case using locks_ok_step [OF assms(1) step.hyps(2)] by auto
qed

text \<open>C18. However a program acquires and releases initialised locks, as long as it releases the one it
  acquired last: in every state it reaches, it runs at the level of that lock, a held lock remembers
  a level not above its own and not below the level the program started at, exactly the held locks
  have the count 1 and the others 0, no lock changed its level, and nothing but the levels and the
  locks changed. When no lock is held any more the program is back at the level it started at.\<close>

theorem locks_nest:
  assumes "tpl_access_ok A tpl view"
    "lock_run A tpl (\<lambda>i. InitializeLock (junk i) (level i), [], s) (locks, held, s')"
  shows "tpl (fw s') = (case held of [] \<Rightarrow> tpl (fw s) | i # _ \<Rightarrow> level i) \<and>
    (\<forall>i. Tpl (locks i) = level i \<and> Lock (locks i) = (if i \<in> List.set held then 1 else 0) \<and>
      (i \<in> List.set held \<longrightarrow> tpl (fw s) \<le> OwnerTpl (locks i) \<and> OwnerTpl (locks i) \<le> level i)) \<and>
    ram s' = ram s \<and> view (fw s') = view (fw s)"
proof -
  let ?locks = "\<lambda>i. InitializeLock (junk i) (level i)"
  have "locks_ok tpl (tpl (fw s)) ?locks (?locks, [], s)"
    by (simp add: locks_ok_def InitializeLock_def)
  from locks_ok_run [OF assms this]
  have ok: "nested (tpl (fw s)) locks held (tpl (fw s'))"
    "\<forall>i. Tpl (locks i) = level i \<and> Lock (locks i) = (if i \<in> List.set held then 1 else 0)"
    "ram s' = ram s" "view (fw s') = view (fw s)"
    by (simp_all add: locks_ok_def InitializeLock_def)
  moreover have "tpl (fw s') = (case held of [] \<Rightarrow> tpl (fw s) | i # _ \<Rightarrow> level i)"
    using ok(1,2) by (cases held) simp_all
  moreover have "tpl (fw s) \<le> OwnerTpl (locks i) \<and> OwnerTpl (locks i) \<le> level i" if "i \<in> List.set held" for i
    using nested_bounds [OF ok(1) that] ok(2) by auto
  ultimately show ?thesis by auto
qed

definition demo_idle :: "demo st" where
  "demo_idle = \<lparr> ram = [], fw = \<lparr> demo_blocks = [], demo_vars = [], demo_db = [], demo_tpl = 4,
     demo_screen = [], demo_keys = [], demo_files = [] \<rparr> \<rparr>"

text \<open>Lock 0 at level 8 is acquired, lock 1 at level 16 is acquired and released.\<close>

theorem locks_nest_witness:
  "\<exists>locks s'. lock_run (boot_access demo_boot) demo_tpl
      (\<lambda>i. InitializeLock \<lparr>Tpl = 0, OwnerTpl = 0, Lock = 0\<rparr> (if i = 0 then 8 else 16), [], demo_idle)
      (locks, [0], s') \<and>
    demo_tpl (fw s') = 8 \<and> Lock (locks 0) = 1 \<and> Lock (locks 1) = 0 \<and> 4 \<le> OwnerTpl (locks 0)"
proof -
  let ?A = "boot_access demo_boot"
  let ?junk = "\<lambda>_ :: nat. \<lparr>Tpl = 0, OwnerTpl = 0, Lock = 0\<rparr>"
  let ?level = "\<lambda>i :: nat. if i = 0 then 8 else 16"
  let ?l0 = "\<lambda>i. InitializeLock (?junk i) (?level i)"
  obtain a s1 where 1: "AcquireLock ?A (?l0 0) demo_idle = (a, s1)" by force
  let ?l1 = "?l0(0 := a)"
  obtain b s2 where 2: "AcquireLock ?A (?l1 1) s1 = (b, s2)" by force
  let ?l2 = "?l1(1 := b)"
  obtain c s3 where 3: "ReleaseLock ?A (?l2 1) s2 = (c, s3)" by force
  let ?l3 = "?l2(1 := c)"
  have ok: "tpl_access_ok ?A demo_tpl db_of" by (rule boot_access_ok [OF demo_tpl_ok])
  have t: "demo_tpl (fw demo_idle) = 4" by (simp add: demo_idle_def)
  have t1: "demo_tpl (fw s1) = 8" using acquire_lock(2) [OF ok 1] by (simp add: InitializeLock_def)
  have "lock_step ?A demo_tpl (?l0, [], demo_idle) (?l1, [0], s1)"
    by (rule lock_step.acquire) (use 1 in \<open>simp_all add: InitializeLock_def t\<close>)
  moreover have "lock_step ?A demo_tpl (?l1, [0], s1) (?l2, [1, 0], s2)"
    by (rule lock_step.acquire) (use 2 in \<open>simp_all add: InitializeLock_def t1\<close>)
  moreover have "lock_step ?A demo_tpl (?l2, [1, 0], s2) (?l3, [0], s3)"
    by (rule lock_step.release) (use 3 in simp)
  ultimately have run: "lock_run ?A demo_tpl (?l0, [], demo_idle) (?l3, [0], s3)"
    by (meson lock_run.start lock_run.step)
  note n = locks_nest [OF ok run, unfolded t]
  have "demo_tpl (fw s3) = 8" using n by simp
  moreover have "Lock (?l3 0) = 1 \<and> 4 \<le> OwnerTpl (?l3 0)" "Lock (?l3 1) = 0"
    using conjunct1 [OF conjunct2 [OF n]] by (metis list.set_intros(1), metis list.set(1,2) empty_iff insert_iff zero_neq_one)
  ultimately have "demo_tpl (fw s3) = 8" "Lock (?l3 0) = 1" "Lock (?l3 1) = 0"
    "4 \<le> OwnerTpl (?l3 0)" by blast+
  with run show ?thesis by blast
qed

end
