(* ===== verification/LinkList.thy ===== *)
theory LinkList
  imports Firmware
begin

text \<open>
  inc/efilink.h and lib/runtime/vm.c: doubly linked lists in memory, and the conversion of their
  pointers when the operating system moves the runtime services to virtual addresses.

  A \<open>LIST_ENTRY\<close> is 16 bytes, \<open>Flink\<close> at 0 and \<open>Blink\<close> at 8. The operations are macros; each is a
  function on the memory, with the macro's reads and writes in their order. \<open>list_at m h es\<close> says that
  the list with the head \<open>h\<close> holds the entries \<open>es\<close>.
\<close>

subsection \<open>Operations\<close>

definition get_Flink :: "mem \<Rightarrow> addr \<Rightarrow> addr option" where
  "get_Flink m e = map_option unat (rd64 m e)"

definition get_Blink :: "mem \<Rightarrow> addr \<Rightarrow> addr option" where
  "get_Blink m e = map_option unat (rd64 m (e + 8))"

definition set_Flink :: "mem \<Rightarrow> addr \<Rightarrow> addr \<Rightarrow> mem option" where
  "set_Flink m e v = wr64 m e (word_of_nat v)"

definition set_Blink :: "mem \<Rightarrow> addr \<Rightarrow> addr \<Rightarrow> mem option" where
  "set_Blink m e v = wr64 m (e + 8) (word_of_nat v)"

definition InitializeListHead :: "mem \<Rightarrow> addr \<Rightarrow> mem option" where
  "InitializeListHead m ListHead = do {
     m \<leftarrow> set_Flink m ListHead ListHead;
     set_Blink m ListHead ListHead }"

definition IsListEmpty :: "mem \<Rightarrow> addr \<Rightarrow> bool option" where
  "IsListEmpty m ListHead = map_option (\<lambda>f. f = ListHead) (get_Flink m ListHead)"

definition RemoveEntryList :: "mem \<Rightarrow> addr \<Rightarrow> mem option" where
  "RemoveEntryList m Entry = do {
     Flink \<leftarrow> get_Flink m Entry;
     Blink \<leftarrow> get_Blink m Entry;
     m \<leftarrow> set_Flink m Blink Flink;
     set_Blink m Flink Blink }"

definition InsertTailList :: "mem \<Rightarrow> addr \<Rightarrow> addr \<Rightarrow> mem option" where
  "InsertTailList m ListHead Entry = do {
     Blink \<leftarrow> get_Blink m ListHead;
     m \<leftarrow> set_Flink m Entry ListHead;
     m \<leftarrow> set_Blink m Entry Blink;
     m \<leftarrow> set_Flink m Blink Entry;
     set_Blink m ListHead Entry }"

definition InsertHeadList :: "mem \<Rightarrow> addr \<Rightarrow> addr \<Rightarrow> mem option" where
  "InsertHeadList m ListHead Entry = do {
     Flink \<leftarrow> get_Flink m ListHead;
     m \<leftarrow> set_Flink m Entry Flink;
     m \<leftarrow> set_Blink m Entry ListHead;
     m \<leftarrow> set_Blink m Flink Entry;
     set_Flink m ListHead Entry }"

definition SwapListEntries :: "mem \<Rightarrow> addr \<Rightarrow> addr \<Rightarrow> mem option" where
  "SwapListEntries m Entry1 Entry2 = do {
     Entry2Flink \<leftarrow> get_Flink m Entry2;
     Entry2Blink \<leftarrow> get_Blink m Entry2;
     Entry1Flink \<leftarrow> get_Flink m Entry1;
     Entry1Blink \<leftarrow> get_Blink m Entry1;
     m \<leftarrow> set_Flink m Entry2Blink Entry2Flink;
     m \<leftarrow> set_Blink m Entry2Flink Entry2Blink;
     m \<leftarrow> set_Flink m Entry2 Entry1;
     m \<leftarrow> set_Blink m Entry2 Entry1Blink;
     m \<leftarrow> set_Flink m Entry1Blink Entry2;
     set_Blink m Entry1 Entry2 }"

text \<open>
  \<open>ConvertPointer\<close> of the firmware maps a pointer to its virtual address; the first argument is the
  debug disposition. It has no other effect.
\<close>

partial_function (option) RtConvertList_loop ::
  "(u64 \<Rightarrow> addr \<Rightarrow> addr) \<Rightarrow> u64 \<Rightarrow> mem \<Rightarrow> addr \<Rightarrow> addr \<Rightarrow> mem option" where
  "RtConvertList_loop ConvertPointer DebugDisposition m ListHead Link = do {
     NextLink \<leftarrow> get_Flink m Link;
     m \<leftarrow> set_Flink m Link
       (ConvertPointer (if NextLink = ListHead then DebugDisposition else 0) NextLink);
     Blink \<leftarrow> get_Blink m Link;
     m \<leftarrow> set_Blink m Link (ConvertPointer (if Blink = ListHead then DebugDisposition else 0) Blink);
     if NextLink \<noteq> ListHead
     then RtConvertList_loop ConvertPointer DebugDisposition m ListHead NextLink
     else Some m }"

definition RtConvertList ::
  "(u64 \<Rightarrow> addr \<Rightarrow> addr) \<Rightarrow> u64 \<Rightarrow> mem \<Rightarrow> addr \<Rightarrow> mem option" where
  "RtConvertList ConvertPointer DebugDisposition m ListHead =
     RtConvertList_loop ConvertPointer DebugDisposition m ListHead ListHead"

text \<open>
  The library's own pointers (lib/runtime/rtdata.c): \<open>RT\<close>, \<open>LibRuntimeDebugOut\<close> and the two task
  priority functions. \<open>EFI_INTERNAL_PTR\<close> is 4 and \<open>EFI_OPTIONAL_PTR\<close> is 1.
\<close>

record runtime_data =
  RT_ptr :: addr
  LibRuntimeDebugOut_ptr :: addr
  LibRuntimeRaiseTPL_ptr :: addr
  LibRuntimeRestoreTPL_ptr :: addr
  LibFwInstance :: bool

definition RtLibEnableVirtualMappings :: "(u64 \<Rightarrow> addr \<Rightarrow> addr) \<Rightarrow> runtime_data \<Rightarrow> runtime_data" where
  "RtLibEnableVirtualMappings ConvertPointer d =
     (if \<not> LibFwInstance d
      then d\<lparr>RT_ptr := ConvertPointer 4 (RT_ptr d),
             LibRuntimeDebugOut_ptr := ConvertPointer 1 (LibRuntimeDebugOut_ptr d),
             LibRuntimeRaiseTPL_ptr := ConvertPointer 4 (LibRuntimeRaiseTPL_ptr d),
             LibRuntimeRestoreTPL_ptr := ConvertPointer 4 (LibRuntimeRestoreTPL_ptr d)\<rparr>
      else d)"

subsection \<open>Cells\<close>

text \<open>The entries lie apart in mapped memory below \<open>2 ^ 64\<close>.\<close>

definition entries_ok :: "mem \<Rightarrow> addr set \<Rightarrow> bool" where
  "entries_ok m E \<longleftrightarrow>
     (\<forall>e \<in> E. mapped m e 16 \<and> e + 16 \<le> 2 ^ 64) \<and>
     (\<forall>e \<in> E. \<forall>e' \<in> E. e \<noteq> e' \<longrightarrow> disjoint_ranges e 16 e' 16)"

text \<open>What one write does: \<open>F\<close> and \<open>B\<close> are the links of the entries.\<close>

definition links :: "mem \<Rightarrow> addr set \<Rightarrow> (addr \<Rightarrow> addr option) \<Rightarrow> (addr \<Rightarrow> addr option) \<Rightarrow> bool" where
  "links m E F B \<longleftrightarrow> entries_ok m E \<and> (\<forall>e \<in> E. get_Flink m e = F e \<and> get_Blink m e = B e)"

lemma entries_ok_length: "length m' = length m \<Longrightarrow> entries_ok m' E = entries_ok m E"
  by (simp add: entries_ok_def mapped_def)

lemma entries_ok_mono: "entries_ok m E \<Longrightarrow> E' \<subseteq> E \<Longrightarrow> entries_ok m E'"
  unfolding entries_ok_def by blast

lemma set_Flink_links:
  assumes "links m E F B" "e \<in> E" "v < 2 ^ 64"
  shows "\<exists>m'. set_Flink m e v = Some m' \<and> links m' E (F(e := Some v)) B"
proof -
  have ok: "entries_ok m E" using assms(1) by (simp add: links_def)
  then have "mapped m e 8" using assms(2) by (auto simp: entries_ok_def mapped_def)
  then obtain m' where w: "wr64 m e (word_of_nat v) = Some m'" "length m' = length m"
    using wr64_mapped by blast
  have "get_Flink m' x = (F(e := Some v)) x \<and> get_Blink m' x = B x" if "x \<in> E" for x
  proof -
    have "x \<noteq> e \<longrightarrow> disjoint_ranges x 16 e 16" using ok assms(2) that by (simp add: entries_ok_def)
    then have "x \<noteq> e \<longrightarrow> disjoint_ranges x 8 e 8" "disjoint_ranges (x + 8) 8 e 8"
      by (auto simp: disjoint_ranges_def)
    then show ?thesis
      using rd64_wr64_same [OF w(1)] rd64_wr64_disjoint [OF w(1)] assms that
      by (auto simp: get_Flink_def get_Blink_def links_def unat_word_of_nat)
  qed
  then show ?thesis using w ok entries_ok_length [OF w(2)] by (auto simp: set_Flink_def links_def)
qed

lemma set_Blink_links:
  assumes "links m E F B" "e \<in> E" "v < 2 ^ 64"
  shows "\<exists>m'. set_Blink m e v = Some m' \<and> links m' E F (B(e := Some v))"
proof -
  have ok: "entries_ok m E" using assms(1) by (simp add: links_def)
  then have "mapped m (e + 8) 8" using assms(2) by (auto simp: entries_ok_def mapped_def)
  then obtain m' where w: "wr64 m (e + 8) (word_of_nat v) = Some m'" "length m' = length m"
    using wr64_mapped by blast
  have "get_Flink m' x = F x \<and> get_Blink m' x = (B(e := Some v)) x" if "x \<in> E" for x
  proof -
    have "x \<noteq> e \<longrightarrow> disjoint_ranges x 16 e 16" using ok assms(2) that by (simp add: entries_ok_def)
    then have "disjoint_ranges x 8 (e + 8) 8" "x \<noteq> e \<longrightarrow> disjoint_ranges (x + 8) 8 (e + 8) 8"
      by (auto simp: disjoint_ranges_def)
    then show ?thesis
      using rd64_wr64_same [OF w(1)] rd64_wr64_disjoint [OF w(1)] assms that
      by (auto simp: get_Flink_def get_Blink_def links_def unat_word_of_nat)
  qed
  then show ?thesis using w ok entries_ok_length [OF w(2)] by (auto simp: set_Blink_def links_def)
qed

lemma links_get:
  "links m E F B \<Longrightarrow> e \<in> E \<Longrightarrow> get_Flink m e = F e" "links m E F B \<Longrightarrow> e \<in> E \<Longrightarrow> get_Blink m e = B e"
  by (simp_all add: links_def)

lemma links_small: "links m E F B \<Longrightarrow> e \<in> E \<Longrightarrow> e < 2 ^ 64"
  by (auto simp: links_def entries_ok_def)

subsection \<open>Lists\<close>

text \<open>\<open>chain F B a bs z\<close>: following the links from \<open>a\<close> leads through \<open>bs\<close> to \<open>z\<close>, and back.\<close>

primrec chain ::
  "(addr \<Rightarrow> addr option) \<Rightarrow> (addr \<Rightarrow> addr option) \<Rightarrow> addr \<Rightarrow> addr list \<Rightarrow> addr \<Rightarrow> bool" where
  "chain F B a [] z \<longleftrightarrow> F a = Some z \<and> B z = Some a"
| "chain F B a (b # bs) z \<longleftrightarrow> F a = Some b \<and> B b = Some a \<and> chain F B b bs z"

definition list_at :: "mem \<Rightarrow> addr \<Rightarrow> addr list \<Rightarrow> bool" where
  "list_at m h es \<longleftrightarrow> distinct (h # es) \<and> entries_ok m (List.set (h # es)) \<and>
     chain (get_Flink m) (get_Blink m) h es h"

lemma chain_append: "chain F B a (xs @ y # ys) z \<longleftrightarrow> chain F B a xs y \<and> chain F B y ys z"
  by (induction xs arbitrary: a) auto

lemma chain_cong:
  "(\<And>x. x \<in> List.set (a # xs) \<Longrightarrow> F x = F' x) \<Longrightarrow> (\<And>x. x \<in> List.set (xs @ [z]) \<Longrightarrow> B x = B' x) \<Longrightarrow>
   chain F B a xs z = chain F' B' a xs z"
  by (induction xs arbitrary: a) auto

lemma chain_ends:
  "chain F B a xs z \<Longrightarrow> F a = Some (hd (xs @ [z])) \<and> B z = Some (last (a # xs))"
  by (induction xs arbitrary: a) auto

text \<open>The link behind the last entry, or in front of the first, may be redirected.\<close>

lemma chain_redirect_end:
  "chain F B a xs z \<Longrightarrow> distinct (a # xs) \<Longrightarrow> w \<notin> List.set xs \<Longrightarrow>
   chain (F(last (a # xs) := Some w)) (B(w := Some (last (a # xs)))) a xs w"
proof (induction xs arbitrary: a)
  case (Cons b xs)
  have "last (a # b # xs) \<noteq> a" using Cons.prems(2) last_in_set [of "b # xs"] by fastforce
  then show ?case using Cons by simp
qed simp

lemma chain_redirect_start:
  assumes "chain F B a xs z" "distinct xs" "w \<notin> List.set xs" "z \<notin> List.set xs"
  shows "chain (F(w := F a)) (B(hd (xs @ [z]) := Some w)) w xs z"
proof (cases xs)
  case (Cons y ys)
  have "chain (F(w := F a)) (B(y := Some w)) y ys z = chain F B y ys z"
    by (rule chain_cong) (use assms(2-4) Cons in auto)
  then show ?thesis using assms Cons by simp
qed (use assms in simp)

lemma links_list_at:
  assumes "links m E F B" "List.set (h # es) \<subseteq> E" "distinct (h # es)" "chain F B h es h"
  shows "list_at m h es"
proof -
  have "chain (get_Flink m) (get_Blink m) h es h"
  proof -
    have "chain F B h es h = chain (get_Flink m) (get_Blink m) h es h"
      by (rule chain_cong) (use assms(1,2) in \<open>auto simp: links_def\<close>)
    with assms(4) show ?thesis by simp
  qed
  moreover have "entries_ok m (List.set (h # es))"
    using assms(1) by (intro entries_ok_mono [OF _ assms(2)]) (simp add: links_def)
  ultimately show ?thesis using assms(3) by (simp add: list_at_def)
qed

lemma list_at_links:
  "list_at m h es \<Longrightarrow> links m (List.set (h # es)) (get_Flink m) (get_Blink m)"
  by (simp add: list_at_def links_def)

lemma list_at_rotate: "list_at m h (as @ x # bs) \<Longrightarrow> list_at m x (bs @ h # as)"
  by (auto simp: list_at_def chain_append insert_commute Un_commute)

lemma InitializeListHead_empty:
  assumes "entries_ok m {h}"
  shows "\<exists>m'. InitializeListHead m h = Some m' \<and> list_at m' h []"
proof -
  have l: "links m {h} (get_Flink m) (get_Blink m)" "h < 2 ^ 64"
    using assms by (auto simp: links_def entries_ok_def)
  obtain m1 where 1: "set_Flink m h h = Some m1" "links m1 {h} ((get_Flink m)(h := Some h)) (get_Blink m)"
    using set_Flink_links [OF l(1) _ l(2)] by auto
  obtain m2 where 2: "set_Blink m1 h h = Some m2"
    "links m2 {h} ((get_Flink m)(h := Some h)) ((get_Blink m)(h := Some h))"
    using set_Blink_links [OF 1(2) _ l(2)] by auto
  have "list_at m2 h []" by (rule links_list_at [OF 2(2)]) auto
  then show ?thesis using 1 2 by (simp add: InitializeListHead_def)
qed

lemma InsertTailList_snoc:
  assumes l: "list_at m h es" and e: "e \<notin> List.set (h # es)" "entries_ok m (List.set (e # h # es))"
  shows "\<exists>m'. InsertTailList m h e = Some m' \<and> list_at m' h (es @ [e])"
proof -
  let ?E = "List.set (e # h # es)" and ?F = "get_Flink m" and ?B = "get_Blink m" and ?b = "last (h # es)"
  have c: "chain ?F ?B h es h" "distinct (h # es)" using l by (simp_all add: list_at_def)
  have k: "links m ?E ?F ?B" using e(2) by (simp add: links_def)
  note small = links_small [OF k]
  have b: "?B h = Some ?b" "?b \<in> ?E" using chain_ends [OF c(1)] last_in_set [of "h # es"] by auto
  obtain m1 where 1: "set_Flink m e h = Some m1" "links m1 ?E (?F(e := Some h)) ?B"
    using set_Flink_links [OF k _ small [of h]] by auto
  obtain m2 where 2: "set_Blink m1 e ?b = Some m2" "links m2 ?E (?F(e := Some h)) (?B(e := Some ?b))"
    using set_Blink_links [OF 1(2) _ small [OF b(2)], of e] by auto
  obtain m3 where 3: "set_Flink m2 ?b e = Some m3"
    "links m3 ?E (?F(e := Some h, ?b := Some e)) (?B(e := Some ?b))"
    using set_Flink_links [OF 2(2) b(2) small [of e]] by auto
  obtain m4 where 4: "set_Blink m3 h e = Some m4"
    "links m4 ?E (?F(e := Some h, ?b := Some e)) (?B(e := Some ?b, h := Some e))"
    using set_Blink_links [OF 3(2) _ small [of e], of h] by auto
  have "chain (?F(?b := Some e)) (?B(e := Some ?b)) h es e"
    using chain_redirect_end [OF c] e(1) by simp
  moreover have "chain (?F(e := Some h, ?b := Some e)) (?B(e := Some ?b, h := Some e)) h es e =
      chain (?F(?b := Some e)) (?B(e := Some ?b)) h es e"
    by (rule chain_cong) (use e(1) c(2) in auto)
  moreover have "e \<noteq> ?b" using e(1) last_in_set [of "h # es"] by fastforce
  ultimately have "chain (?F(e := Some h, ?b := Some e)) (?B(e := Some ?b, h := Some e)) h (es @ [e]) h"
    by (simp add: chain_append)
  then have "list_at m4 h (es @ [e])"
    by (intro links_list_at [OF 4(2)]) (use e(1) c(2) in auto)
  then show ?thesis using b(1) 1(1) 2(1) 3(1) 4(1) by (simp add: InsertTailList_def)
qed

lemma InsertHeadList_Cons:
  assumes l: "list_at m h es" and e: "e \<notin> List.set (h # es)" "entries_ok m (List.set (e # h # es))"
  shows "\<exists>m'. InsertHeadList m h e = Some m' \<and> list_at m' h (e # es)"
proof -
  let ?E = "List.set (e # h # es)" and ?F = "get_Flink m" and ?B = "get_Blink m" and ?f = "hd (es @ [h])"
  have c: "chain ?F ?B h es h" "distinct (h # es)" using l by (simp_all add: list_at_def)
  have k: "links m ?E ?F ?B" using e(2) by (simp add: links_def)
  note small = links_small [OF k]
  have f: "?F h = Some ?f" "?f \<in> ?E" using chain_ends [OF c(1)] hd_in_set [of "es @ [h]"] by auto
  obtain m1 where 1: "set_Flink m e ?f = Some m1" "links m1 ?E (?F(e := Some ?f)) ?B"
    using set_Flink_links [OF k _ small [OF f(2)], of e] by auto
  obtain m2 where 2: "set_Blink m1 e h = Some m2" "links m2 ?E (?F(e := Some ?f)) (?B(e := Some h))"
    using set_Blink_links [OF 1(2) _ small [of h], of e] by auto
  obtain m3 where 3: "set_Blink m2 ?f e = Some m3"
    "links m3 ?E (?F(e := Some ?f)) (?B(e := Some h, ?f := Some e))"
    using set_Blink_links [OF 2(2) f(2) small [of e]] by auto
  obtain m4 where 4: "set_Flink m3 h e = Some m4"
    "links m4 ?E (?F(e := Some ?f, h := Some e)) (?B(e := Some h, ?f := Some e))"
    using set_Flink_links [OF 3(2) _ small [of e], of h] by auto
  have "chain (?F(e := ?F h)) (?B(?f := Some e)) e es h"
    using chain_redirect_start [OF c(1)] c(2) e(1) by simp
  moreover have "chain (?F(e := Some ?f, h := Some e)) (?B(e := Some h, ?f := Some e)) e es h =
      chain (?F(e := ?F h)) (?B(?f := Some e)) e es h"
    by (rule chain_cong) (use e(1) c(2) f(1) in auto)
  moreover have "e \<noteq> ?f" using e(1) hd_in_set [of "es @ [h]"] by fastforce
  ultimately have "list_at m4 h (e # es)"
    by (intro links_list_at [OF 4(2)]) (use e(1) c(2) in auto)
  then show ?thesis using f(1) 1(1) 2(1) 3(1) 4(1) by (simp add: InsertHeadList_def)
qed

lemma RemoveEntryList_drops:
  assumes l: "list_at m h (as @ e # bs)"
  shows "\<exists>m'. RemoveEntryList m e = Some m' \<and> list_at m' h (as @ bs) \<and>
    get_Blink m' h = Some (last (h # as @ bs)) \<and>
    entries_ok m' (List.set (e # h # as @ bs)) \<and>
    (\<forall>x \<in> List.set (as @ bs). x \<noteq> hd (bs @ [h]) \<longrightarrow> get_Blink m' x = get_Blink m x)"
proof -
  let ?E = "List.set (h # as @ e # bs)" and ?F = "get_Flink m" and ?B = "get_Blink m"
  let ?f = "hd (bs @ [h])" and ?b = "last (h # as)"
  have c: "chain ?F ?B h as e" "chain ?F ?B e bs h" "distinct (h # as @ e # bs)"
    using l by (simp_all add: list_at_def chain_append)
  have k: "links m ?E ?F ?B" using l by (rule list_at_links)
  note small = links_small [OF k]
  have f: "?F e = Some ?f" "?f \<in> ?E" using chain_ends [OF c(2)] hd_in_set [of "bs @ [h]"] by auto
  have b: "?B e = Some ?b" "?b \<in> ?E" using chain_ends [OF c(1)] last_in_set [of "h # as"] by auto
  obtain m1 where 1: "set_Flink m ?b ?f = Some m1" "links m1 ?E (?F(?b := Some ?f)) ?B"
    using set_Flink_links [OF k b(2) small [OF f(2)]] by auto
  obtain m2 where 2: "set_Blink m1 ?f ?b = Some m2"
    "links m2 ?E (?F(?b := Some ?f)) (?B(?f := Some ?b))"
    using set_Blink_links [OF 1(2) f(2) small [OF b(2)]] by auto
  have "?b \<in> List.set (h # as)" by (rule last_in_set) simp
  then have "chain (?F(?b := Some ?f)) (?B(?f := Some ?b)) h (as @ bs) h"
    using chain_redirect_end [OF c(1), of ?f] c
  proof (cases bs)
    case (Cons y ys)
    have "chain (?F(?b := Some ?f)) (?B(?f := Some ?b)) y ys h = chain ?F ?B y ys h"
      by (rule chain_cong) (use c(3) Cons \<open>?b \<in> List.set (h # as)\<close> in auto)
    then show ?thesis using chain_redirect_end [OF c(1), of ?f] c Cons by (simp add: chain_append)
  qed simp
  then have r: "list_at m2 h (as @ bs)"
    by (intro links_list_at [OF 2(2)]) (use c(3) in auto)
  have "entries_ok m2 (List.set (e # h # as @ bs))" using 2(2) by (simp add: links_def insert_commute)
  moreover have "\<forall>x \<in> List.set (as @ bs). x \<noteq> ?f \<longrightarrow> get_Blink m2 x = get_Blink m x"
    using links_get(2) [OF 2(2)] by auto
  moreover have "get_Blink m2 h = Some (last (h # as @ bs))"
    using r chain_ends by (fastforce simp: list_at_def)
  ultimately show ?thesis using f(1) b(1) 1(1) 2(1) r by (auto simp: RemoveEntryList_def)
qed

lemma SwapListEntries_remove_insert:
  assumes "RemoveEntryList m e2 = Some m'" "get_Blink m' e1 = get_Blink m e1" "get_Flink m e1 \<noteq> None"
  shows "SwapListEntries m e1 e2 = InsertTailList m' e1 e2"
  using assms by (auto simp: SwapListEntries_def RemoveEntryList_def InsertTailList_def split: bind_splits)

lemma SwapListEntries_eq:
  assumes l: "list_at m h (xs @ e2 # ys)" and s: "xs @ ys = as @ e1 # bs" and n: "hd (ys @ [h]) \<noteq> e1"
  shows "\<exists>m'. SwapListEntries m e1 e2 = Some m' \<and> list_at m' h (as @ e2 # e1 # bs)"
proof -
  obtain m1 where r: "RemoveEntryList m e2 = Some m1" "list_at m1 h (xs @ ys)"
    "entries_ok m1 (List.set (e2 # h # xs @ ys))"
    "\<forall>x \<in> List.set (xs @ ys). x \<noteq> hd (ys @ [h]) \<longrightarrow> get_Blink m1 x = get_Blink m x"
    using RemoveEntryList_drops [OF l] by blast
  have d: "distinct (h # xs @ e2 # ys)" using l by (simp add: list_at_def)
  have e1: "e1 \<in> List.set (xs @ ys)" unfolding s by simp
  have "get_Flink m e1 \<noteq> None"
  proof -
    have "mapped m e1 16" using l e1 by (auto simp: list_at_def entries_ok_def)
    then show ?thesis by (simp add: get_Flink_def rd64_def rd_bytes_def mapped_def)
  qed
  then have "SwapListEntries m e1 e2 = InsertTailList m1 e1 e2"
    using SwapListEntries_remove_insert [OF r(1), of e1] r(4) e1 n by metis
  moreover have "list_at m1 e1 (bs @ h # as)"
    using r(2) unfolding s by (rule list_at_rotate)
  moreover have "e2 \<notin> List.set (h # xs @ ys)" using d by auto
  then have "e2 \<notin> List.set (e1 # bs @ h # as)" unfolding s by auto
  moreover have "entries_ok m1 (List.set (e2 # e1 # bs @ h # as))"
    using r(3) unfolding s by (rule entries_ok_mono) auto
  ultimately obtain m2 where "SwapListEntries m e1 e2 = Some m2" "list_at m2 e1 ((bs @ h # as) @ [e2])"
    using InsertTailList_snoc [of m1 e1 "bs @ h # as" e2] by auto
  then show ?thesis using list_at_rotate [of m2 e1 bs h "as @ [e2]"] by auto
qed

lemma SwapListEntries_adjacent:
  assumes l: "list_at m h (xs @ e2 # e1 # ys)"
  shows "\<exists>m'. SwapListEntries m e1 e2 = Some m' \<and>
    get_Flink m' e2 = Some e2 \<and> get_Blink m' e2 = Some e2 \<and>
    get_Flink m' (last (h # xs)) = Some e1 \<and> get_Blink m' e1 = Some e2"
proof -
  let ?E = "List.set (h # xs @ e2 # e1 # ys)" and ?F = "get_Flink m" and ?B = "get_Blink m"
  let ?p = "last (h # xs)" and ?f = "hd (ys @ [h])"
  have c: "chain ?F ?B h xs e2" "chain ?F ?B e2 [] e1" "chain ?F ?B e1 ys h"
    "distinct (h # xs @ e2 # e1 # ys)"
    using l by (simp_all add: list_at_def chain_append)
  have k: "links m ?E ?F ?B" using l by (rule list_at_links)
  note small = links_small [OF k]
  have p: "?B e2 = Some ?p" "?p \<in> List.set (h # xs)" using chain_ends [OF c(1)] by (simp, intro last_in_set) simp
  then have pE: "?p \<in> ?E" "?p \<noteq> e2" "?p \<noteq> e1" using c(4) by auto
  have e: "e1 \<in> ?E" "e2 \<in> ?E" "e1 \<noteq> e2" using c(4) by auto
  have f: "?F e1 = Some ?f" using chain_ends [OF c(3)] by simp
  obtain m1 where 1: "set_Flink m ?p e1 = Some m1" "links m1 ?E (?F(?p := Some e1)) ?B"
    using set_Flink_links [OF k pE(1) small [OF e(1)]] by auto
  obtain m2 where 2: "set_Blink m1 e1 ?p = Some m2"
    "links m2 ?E (?F(?p := Some e1)) (?B(e1 := Some ?p))"
    using set_Blink_links [OF 1(2) e(1) small [OF pE(1)]] by auto
  obtain m3 where 3: "set_Flink m2 e2 e1 = Some m3"
    "links m3 ?E (?F(?p := Some e1, e2 := Some e1)) (?B(e1 := Some ?p))"
    using set_Flink_links [OF 2(2) e(2) small [OF e(1)]] by auto
  obtain m4 where 4: "set_Blink m3 e2 e2 = Some m4"
    "links m4 ?E (?F(?p := Some e1, e2 := Some e1)) (?B(e1 := Some ?p, e2 := Some e2))"
    using set_Blink_links [OF 3(2) e(2) small [OF e(2)]] by auto
  obtain m5 where 5: "set_Flink m4 e2 e2 = Some m5"
    "links m5 ?E (?F(?p := Some e1, e2 := Some e2)) (?B(e1 := Some ?p, e2 := Some e2))"
    using set_Flink_links [OF 4(2) e(2) small [OF e(2)]] by auto
  obtain m6 where 6: "set_Blink m5 e1 e2 = Some m6"
    "links m6 ?E (?F(?p := Some e1, e2 := Some e2)) (?B(e1 := Some e2, e2 := Some e2))"
    using set_Blink_links [OF 5(2) e(1) small [OF e(2)]] e(3) by (auto simp: fun_upd_twist)
  have "SwapListEntries m e1 e2 = Some m6"
    using c(2) p(1) f 1(1) 2(1) 3(1) 4(1) 5(1) 6(1) by (simp add: SwapListEntries_def)
  moreover have "get_Flink m6 e2 = Some e2" "get_Blink m6 e2 = Some e2" "get_Flink m6 ?p = Some e1"
    "get_Blink m6 e1 = Some e2"
    using links_get [OF 6(2)] e pE by auto
  ultimately show ?thesis by blast
qed

subsection \<open>Converting the pointers of a list\<close>

text \<open>Converting an entry spoils the way back to it, so the loop relies on the way forward only.\<close>

primrec forward :: "(addr \<Rightarrow> addr option) \<Rightarrow> addr \<Rightarrow> addr list \<Rightarrow> addr \<Rightarrow> bool" where
  "forward F a [] z \<longleftrightarrow> F a = Some z"
| "forward F a (b # bs) z \<longleftrightarrow> F a = Some b \<and> forward F b bs z"

lemma forward_upd [simp]: "a \<notin> List.set (b # bs) \<Longrightarrow> forward (F(a := v)) b bs z = forward F b bs z"
  by (induction bs arbitrary: b) auto

lemma chain_forward:
  "chain F B a bs z \<Longrightarrow> forward F a bs z \<and> (\<forall>x \<in> List.set (bs @ [z]). B x \<noteq> None)"
  by (induction bs arbitrary: a) auto

lemma converted_upd:
  "G a = Some v \<Longrightarrow> a \<notin> List.set bs \<Longrightarrow>
   (\<lambda>x. if x \<in> List.set bs then map_option c ((G(a := Some (c v))) x) else (G(a := Some (c v))) x) =
   (\<lambda>x. if x \<in> List.set (a # bs) then map_option c (G x) else G x)"
  by auto

lemma RtConvertList_loop_eq:
  fixes h :: addr and d :: u64
  defines "cv \<equiv> \<lambda>conv p. conv (if p = h then d else 0) p :: addr"
  assumes small: "\<And>d p. conv d p < 2 ^ 64"
    and k: "links m E F B" and c: "forward F a bs h" and z: "\<forall>x \<in> List.set (a # bs). B x \<noteq> None"
    and d: "distinct (a # bs)" "h \<notin> List.set bs" "List.set (a # bs) \<subseteq> E"
  shows "\<exists>m'. RtConvertList_loop conv d m h a = Some m' \<and>
    links m' E (\<lambda>x. if x \<in> List.set (a # bs) then map_option (cv conv) (F x) else F x)
      (\<lambda>x. if x \<in> List.set (a # bs) then map_option (cv conv) (B x) else B x)"
  using k c z d
proof (induction bs arbitrary: a m F B)
  case Nil
  obtain b where b: "B a = Some b" using Nil.prems(3) by auto
  obtain m1 where 1: "set_Flink m a (cv conv h) = Some m1" "links m1 E (F(a := Some (cv conv h))) B"
    using set_Flink_links [OF Nil.prems(1), of a "cv conv h"] Nil.prems(6) small by (auto simp: cv_def)
  obtain m2 where 2: "set_Blink m1 a (cv conv b) = Some m2"
    "links m2 E (F(a := Some (cv conv h))) (B(a := Some (cv conv b)))"
    using set_Blink_links [OF 1(2), of a "cv conv b"] Nil.prems(6) small by (auto simp: cv_def)
  have "RtConvertList_loop conv d m h a = Some m2"
    using 1 2(1) links_get [OF Nil.prems(1)] links_get [OF 1(2)] Nil.prems(2,6) b
    by (subst RtConvertList_loop.simps) (simp add: cv_def)
  then show ?case using 2(2) Nil.prems(2) b by (auto simp: links_def)
next
  case (Cons y ys)
  obtain b where b: "B a = Some b" using Cons.prems(3) by auto
  have y: "F a = Some y" "y \<noteq> h" "a \<noteq> y" "a \<in> E" using Cons.prems by auto
  obtain m1 where 1: "set_Flink m a (cv conv y) = Some m1" "links m1 E (F(a := Some (cv conv y))) B"
    using set_Flink_links [OF Cons.prems(1) y(4), of "cv conv y"] small by (auto simp: cv_def)
  obtain m2 where 2: "set_Blink m1 a (cv conv b) = Some m2"
    "links m2 E (F(a := Some (cv conv y))) (B(a := Some (cv conv b)))"
    using set_Blink_links [OF 1(2) y(4), of "cv conv b"] small by (auto simp: cv_def)
  let ?F = "F(a := Some (cv conv y))" and ?B = "B(a := Some (cv conv b))"
  have step: "RtConvertList_loop conv d m h a = RtConvertList_loop conv d m2 h y"
    using 1 2(1) links_get [OF Cons.prems(1) y(4)] links_get [OF 1(2) y(4)] y b
    by (subst RtConvertList_loop.simps) (simp add: cv_def)
  have fw: "forward ?F y ys h" "\<forall>x \<in> List.set (y # ys). ?B x \<noteq> None"
    using Cons.prems(2,3,4) by auto
  then obtain m' where "RtConvertList_loop conv d m2 h y = Some m'"
    "links m' E (\<lambda>x. if x \<in> List.set (y # ys) then map_option (cv conv) (?F x) else ?F x)
      (\<lambda>x. if x \<in> List.set (y # ys) then map_option (cv conv) (?B x) else ?B x)"
    using Cons.IH [OF 2(2) fw] Cons.prems(4-6) by auto
  note r = this
  have a: "a \<notin> List.set (y # ys)" using Cons.prems(4) by simp
  show ?case using r step unfolding converted_upd [of F a y "y # ys" "cv conv", OF y(1) a]
      converted_upd [of B a b "y # ys" "cv conv", OF b a] by auto
qed

subsection \<open>A concrete list\<close>

text \<open>The head at 8 with the entries at 24 and 40, and a free entry at 56.\<close>

definition demo_ring :: mem where
  "demo_ring = replicate 8 0 @ concat (map (\<lambda>p. le_bytes 8 (p :: u64)) [24, 40, 40, 8, 8, 24, 0, 0])"

lemma demo_ring_list: "list_at demo_ring 8 [24, 40]"
proof -
  have "length demo_ring = 72" "map (get_Flink demo_ring) [8, 24, 40] = map Some [24, 40, 8]"
    "map (get_Blink demo_ring) [8, 24, 40] = map Some [40, 8, 24]"
    by code_simp+
  then show ?thesis
    by (auto simp: list_at_def entries_ok_def mapped_def disjoint_ranges_def)
qed

lemma demo_ring_entries: "entries_ok demo_ring (List.set [56, 8, 24, 40])"
proof -
  have "length demo_ring = 72" by code_simp
  then show ?thesis by (auto simp: entries_ok_def mapped_def disjoint_ranges_def)
qed

subsection \<open>Properties\<close>

text \<open>C14. The list operations keep lists well formed. \<open>InitializeListHead\<close> makes the empty list. On a list
  \<open>es\<close> with head \<open>h\<close>, the empty list included, \<open>IsListEmpty\<close> is true exactly for the empty list, inserting a
  separate entry at the tail or at the head gives the list with that entry behind or in front of \<open>es\<close>, and
  removing an entry gives the list without it. A list stays a ring of links that agree in both directions.\<close>

theorem list_operations:
  shows "(entries_ok m {h} \<longrightarrow> (\<exists>m'. InitializeListHead m h = Some m' \<and> list_at m' h [])) \<and>
    (list_at m h es \<longrightarrow> IsListEmpty m h = Some (es = []) \<and>
      (\<forall>e. e \<notin> List.set (h # es) \<and> entries_ok m (List.set (e # h # es)) \<longrightarrow>
        (\<exists>m'. InsertTailList m h e = Some m' \<and> list_at m' h (es @ [e])) \<and>
        (\<exists>m'. InsertHeadList m h e = Some m' \<and> list_at m' h (e # es))) \<and>
      (\<forall>x \<in> List.set es. \<exists>m'. RemoveEntryList m x = Some m' \<and> list_at m' h (remove1 x es)))"
proof (intro conjI impI ballI allI)
  show "\<exists>m'. InitializeListHead m h = Some m' \<and> list_at m' h []" if "entries_ok m {h}"
    by (rule InitializeListHead_empty [OF that])
  assume l: "list_at m h es"
  have "get_Flink m h = Some (hd (es @ [h]))" "h \<notin> List.set es"
    using l chain_ends by (auto simp: list_at_def)
  then show "IsListEmpty m h = Some (es = [])" by (cases es) (auto simp: IsListEmpty_def)
  show "\<exists>m'. InsertTailList m h e = Some m' \<and> list_at m' h (es @ [e])"
    "\<exists>m'. InsertHeadList m h e = Some m' \<and> list_at m' h (e # es)"
    if "e \<notin> List.set (h # es) \<and> entries_ok m (List.set (e # h # es))" for e
    using InsertTailList_snoc [OF l] InsertHeadList_Cons [OF l] that by blast+
  fix x assume "x \<in> List.set es"
  then obtain as bs where es: "es = as @ x # bs" "x \<notin> List.set as" by (metis split_list_first)
  then have "remove1 x es = as @ bs" by (simp add: remove1_append)
  then show "\<exists>m'. RemoveEntryList m x = Some m' \<and> list_at m' h (remove1 x es)"
    using RemoveEntryList_drops [of m h as x bs] l es(1) by auto
qed

theorem list_operations_witness:
  "\<exists>m1 m2 m3 m0 m4. InsertTailList demo_ring 8 56 = Some m1 \<and> list_at m1 8 [24, 40, 56] \<and>
    InsertHeadList demo_ring 8 56 = Some m2 \<and> list_at m2 8 [56, 24, 40] \<and>
    RemoveEntryList demo_ring 24 = Some m3 \<and> list_at m3 8 [40] \<and> IsListEmpty demo_ring 8 = Some False \<and>
    InitializeListHead demo_ring 8 = Some m0 \<and> list_at m0 8 [] \<and> IsListEmpty m0 8 = Some True \<and>
    InsertTailList m0 8 56 = Some m4 \<and> list_at m4 8 [56]"
proof -
  have E: "entries_ok demo_ring {8}" "entries_ok demo_ring (List.set [56, 8])"
    using entries_ok_mono [OF demo_ring_entries] by auto
  then obtain m0 where m0: "InitializeListHead demo_ring 8 = Some m0" "list_at m0 8 []"
    using list_operations [of demo_ring 8] by blast
  have "length m0 = length demo_ring" using m0(1)
    by (auto simp: InitializeListHead_def set_Flink_def set_Blink_def wr64_def wr_bytes_def mapped_def
        split: bind_splits if_splits)
  then have e0: "entries_ok m0 (List.set [56, 8])" using E(2) entries_ok_length by blast
  have "IsListEmpty m0 8 = Some True \<and> (\<exists>m4. InsertTailList m0 8 56 = Some m4 \<and> list_at m4 8 [56])"
    using list_operations [of m0 8 "[]"] m0(2) e0 by auto
  then show ?thesis
    using list_operations [of demo_ring 8 "[24, 40]"] demo_ring_list demo_ring_entries m0 by auto
qed

text \<open>C36. \<open>SwapListEntries\<close> moves the second entry in front of the first, wherever the two are in the
  list, unless it is there already: then the moved entry is left linked to itself in both
  directions, so that walking the list from its head never comes back to it.\<close>

theorem SwapListEntries_moves:
  assumes "list_at m h (xs @ e2 # ys)" "xs @ ys = as @ e1 # bs"
  shows "\<exists>m'. SwapListEntries m e1 e2 = Some m' \<and>
    (if hd (ys @ [h]) \<noteq> e1 then list_at m' h (as @ e2 # e1 # bs)
     else get_Flink m' e2 = Some e2 \<and> get_Blink m' e2 = Some e2 \<and> get_Blink m' e1 = Some e2)"
proof (cases "hd (ys @ [h]) = e1")
  case True
  have "e1 \<noteq> h" using assms by (auto simp: list_at_def) (metis in_set_conv_decomp Un_iff set_append)
  with True obtain zs where "ys = e1 # zs" by (cases ys) auto
  with SwapListEntries_adjacent [of m h xs e2 e1 zs] assms(1) True show ?thesis by auto
next
  case False
  with SwapListEntries_eq [OF assms False] show ?thesis by auto
qed

theorem SwapListEntries_moves_witness:
  "\<exists>m1 m2. SwapListEntries demo_ring 24 40 = Some m1 \<and> list_at m1 8 [40, 24] \<and>
    SwapListEntries demo_ring 40 24 = Some m2 \<and> get_Flink m2 24 = Some 24"
  using SwapListEntries_moves [of demo_ring 8 "[24]" 40 "[]" "[]" 24 "[]"]
    SwapListEntries_moves [of demo_ring 8 "[]" 24 "[40]" "[]" 40 "[]"] demo_ring_list
  by auto

text \<open>C27. \<open>RtConvertList\<close> ends on every well-formed list and converts both pointers of the head and of
  each entry exactly once, with the debug disposition for the pointers to the head.\<close>

theorem RtConvertList_converts:
  assumes "list_at m h es" "\<And>d p. conv d p < 2 ^ 64"
  shows "\<exists>m'. RtConvertList conv d m h = Some m' \<and>
    (\<forall>x \<in> List.set (h # es). \<exists>f b. get_Flink m x = Some f \<and> get_Blink m x = Some b \<and>
      get_Flink m' x = Some (conv (if f = h then d else 0) f) \<and>
      get_Blink m' x = Some (conv (if b = h then d else 0) b))"
proof -
  let ?F = "get_Flink m" and ?B = "get_Blink m" and ?E = "List.set (h # es)"
  let ?cv = "\<lambda>p. conv (if p = h then d else 0) p"
  have c: "chain ?F ?B h es h" "distinct (h # es)" using assms(1) by (simp_all add: list_at_def)
  have B: "\<forall>x \<in> List.set (h # es). ?B x \<noteq> None" using chain_forward [OF c(1)] by auto
  have F: "\<forall>x \<in> List.set (h # es). ?F x \<noteq> None"
    using assms(1) by (auto simp: list_at_def entries_ok_def get_Flink_def rd64_def rd_bytes_def mapped_def)
  have "h \<notin> List.set es" using c(2) by simp
  from RtConvertList_loop_eq [of conv m ?E ?F ?B h es h d, OF assms(2) list_at_links [OF assms(1)]
      conjunct1 [OF chain_forward [OF c(1)]] B c(2) this order.refl]
  obtain m' where m': "RtConvertList_loop conv d m h h = Some m'"
    "links m' ?E (\<lambda>x. if x \<in> ?E then map_option ?cv (?F x) else ?F x)
      (\<lambda>x. if x \<in> ?E then map_option ?cv (?B x) else ?B x)"
    by (elim exE conjE) (erule (1) that)
  have "\<exists>f b. ?F x = Some f \<and> ?B x = Some b \<and> get_Flink m' x = Some (?cv f) \<and> get_Blink m' x = Some (?cv b)"
    if x: "x \<in> ?E" for x
  proof -
    obtain f b where fb: "?F x = Some f" "?B x = Some b"
      using bspec [OF F x] bspec [OF B x] by (cases "?F x"; cases "?B x") simp_all
    have "get_Flink m' x = Some (?cv f)" using links_get(1) [OF m'(2) x] fb(1) x by (simp only: if_True option.map)
    moreover have "get_Blink m' x = Some (?cv b)" using links_get(2) [OF m'(2) x] fb(2) x by (simp only: if_True option.map)
    ultimately show ?thesis using fb by (intro exI conjI)
  qed
  then have "\<forall>x \<in> ?E. \<exists>f b. ?F x = Some f \<and> ?B x = Some b \<and> get_Flink m' x = Some (?cv f) \<and>
      get_Blink m' x = Some (?cv b)" by (intro ballI)
  with m'(1) show ?thesis unfolding RtConvertList_def by (intro exI conjI)
qed

theorem RtConvertList_converts_witness:
  "\<exists>m'. RtConvertList (\<lambda>d p. (p + 4096) mod 2 ^ 64) 0 demo_ring 8 = Some m' \<and>
    get_Flink m' 24 = Some 4136 \<and> get_Blink m' 24 = Some 4104"
proof -
  have "get_Flink demo_ring 24 = Some 40" "get_Blink demo_ring 24 = Some 8" by code_simp+
  then show ?thesis
    using RtConvertList_converts [OF demo_ring_list, of "\<lambda>d p. (p + 4096) mod 2 ^ 64" 0] by auto
qed

end
