(* ===== verification/Events.thy ===== *)
theory Events
  imports PrintApi
begin

text \<open>
  lib/event.c and lib/console.c: notification events, waiting with a time limit, and a line of input
  from the console.

  A key is its scan code and character. Loops that end only when a key arrives are
  \<open>partial_function (option)\<close>: \<open>None\<close> also stands for waiting for ever.
\<close>

subsection \<open>Events\<close>

text \<open>\<open>EVT_NOTIFY_SIGNAL\<close> is 0x200; the results are the event (0 for NULL) and \<open>*Registration\<close>.\<close>

definition LibCreateProtocolNotifyEvent ::
  "'w lib \<Rightarrow> addr \<Rightarrow> nat \<Rightarrow> addr \<Rightarrow> addr \<Rightarrow> 'w st \<Rightarrow> addr \<times> addr option \<times> 'w st" where
  "LibCreateProtocolNotifyEvent L ProtocolGuid NotifyTpl NotifyFunction NotifyContext s =
     (case BS_CreateEvent (BS L) 0x200 NotifyTpl NotifyFunction NotifyContext s of
        (Status, Event, s) \<Rightarrow>
          if EFI_ERROR Status then (0, None, s)
          else (case BS_RegisterProtocolNotify (BS L) ProtocolGuid Event s of
            (Status, Registration, s) \<Rightarrow>
              if EFI_ERROR Status then (0, Some Registration, s)
              else (Event, Some Registration, snd (BS_SignalEvent (BS L) Event s))))"

text \<open>\<open>EVT_TIMER\<close> is 0x80000000 and \<open>TimerRelative\<close> is 2.\<close>

definition WaitForSingleEvent :: "'w lib \<Rightarrow> addr \<Rightarrow> u64 \<Rightarrow> 'w st \<Rightarrow> u64 \<times> 'w st" where
  "WaitForSingleEvent L Event Timeout s =
     (if Timeout \<noteq> 0 then
        (case BS_CreateEvent (BS L) 0x80000000 0 0 0 s of
           (Status, TimerEvent, s) \<Rightarrow>
             if \<not> EFI_ERROR Status then
               (case BS_SetTimer (BS L) TimerEvent 2 Timeout s of
                  (_, s) \<Rightarrow> (case BS_WaitForEvent (BS L) [Event, TimerEvent] s of
                    (Status, Index, s) \<Rightarrow>
                      (if \<not> EFI_ERROR Status \<and> Index = 1 then EFI_TIMEOUT else Status,
                       snd (BS_CloseEvent (BS L) TimerEvent s))))
             else (Status, s))
      else (case BS_WaitForEvent (BS L) [Event] s of (Status, Index, s) \<Rightarrow> (Status, s)))"

text \<open>
  \<open>Timeout\<close> is printed and tested, but nothing changes it. The result is the key, the one that was read
  or \<open>TimeoutKey\<close>.
\<close>

partial_function (option) WaitForEventWithTimeout ::
  "'w plib \<Rightarrow> 'w text_input \<Rightarrow> addr \<Rightarrow> u64 \<Rightarrow> u64 \<Rightarrow> u64 \<Rightarrow> addr \<Rightarrow> u16 \<times> u16 \<Rightarrow> 'w st \<Rightarrow>
   ((u16 \<times> u16) \<times> 'w st) option" where
  "WaitForEventWithTimeout P ConIn Event Timeout Row Column String TimeoutKey s = do {
     (_, s) \<leftarrow> PrintAt P Column Row String [Timeout] s;
     (case WaitForSingleEvent (PLib P) Event 10000000 s of
        (Status, s) \<Rightarrow>
          if Status = EFI_SUCCESS then
            (case ReadKeyStroke ConIn s of
               (Status, ScanCode, UnicodeChar, s) \<Rightarrow>
                 if \<not> EFI_ERROR Status then Some ((ScanCode, UnicodeChar), s)
                 else if 0 < Timeout
                 then WaitForEventWithTimeout P ConIn Event Timeout Row Column String TimeoutKey s
                 else Some (TimeoutKey, s))
          else if 0 < Timeout
          then WaitForEventWithTimeout P ConIn Event Timeout Row Column String TimeoutKey s
          else Some (TimeoutKey, s)) }"

subsection \<open>A line of input\<close>

definition Output :: "'w plib \<Rightarrow> u16 list \<Rightarrow> 'w st \<Rightarrow> 'w st" where
  "Output P Str s = snd (OutputString (ConOut P) Str s)"

text \<open>
  The characters: newline 10, return 13, backspace 8, space 32. \<open>Pos\<close> is the code's \<open>Len\<close>, \<open>MaxLen\<close> its \<open>StrLen\<close>, and
  \<open>StrLen - 1\<close> is \<open>UINTN\<close> arithmetic.
\<close>

partial_function (option) IInput_loop ::
  "'w lib \<Rightarrow> 'w text_output \<Rightarrow> 'w text_input \<Rightarrow> addr \<Rightarrow> nat \<Rightarrow> nat \<Rightarrow> 'w st \<Rightarrow> (nat \<times> 'w st) option" where
  "IInput_loop L Out In InStr MaxLen Pos s =
     (case WaitForSingleEvent L (WaitForKey In) 0 s of
        (_, s) \<Rightarrow> (case ReadKeyStroke In s of
          (Status, ScanCode, UnicodeChar, s) \<Rightarrow>
            if EFI_ERROR Status then Some (Pos, s)
            else if UnicodeChar = 10 \<or> UnicodeChar = 13 then Some (Pos, s)
            else if UnicodeChar = 8 then
              if Pos \<noteq> 0
              then IInput_loop L Out In InStr MaxLen (Pos - 1) (snd (OutputString Out [8, 32, 8] s))
              else IInput_loop L Out In InStr MaxLen Pos s
            else if 32 \<le> UnicodeChar then
              if Pos < uintn (MaxLen + (2 ^ 64 - 1)) then do {
                m \<leftarrow> wr16 (ram s) (InStr + 2 * Pos) UnicodeChar;
                m \<leftarrow> wr16 m (InStr + 2 * (Pos + 1)) 0;
                IInput_loop L Out In InStr MaxLen (Pos + 1)
                  (snd (OutputString Out [UnicodeChar] (with_ram s m))) }
              else IInput_loop L Out In InStr MaxLen Pos s
            else IInput_loop L Out In InStr MaxLen Pos s))"

definition IInput ::
  "'w lib \<Rightarrow> 'w text_output \<Rightarrow> 'w text_input \<Rightarrow> u16 list option \<Rightarrow> addr \<Rightarrow> nat \<Rightarrow> 'w st \<Rightarrow> 'w st option" where
  "IInput L Out In Prompt InStr MaxLen s = do {
     let s = (case Prompt of Some t \<Rightarrow> snd (OutputString Out t s) | None \<Rightarrow> s);
     (Pos, s) \<leftarrow> IInput_loop L Out In InStr MaxLen 0 s;
     m \<leftarrow> wr16 (ram s) (InStr + 2 * Pos) 0;
     Some (with_ram s m) }"

definition Input ::
  "'w plib \<Rightarrow> 'w text_input \<Rightarrow> u16 list option \<Rightarrow> addr \<Rightarrow> nat \<Rightarrow> 'w st \<Rightarrow> 'w st option" where
  "Input P ConIn Prompt InStr MaxLen s = IInput (PLib P) (ConOut P) ConIn Prompt InStr MaxLen s"

subsection \<open>Waiting\<close>

text \<open>\<open>only_timer B\<close>: of the events waited for only the timer, the second, is ever signalled.\<close>

definition only_timer :: "'w boot_services \<Rightarrow> bool" where
  "only_timer B \<longleftrightarrow>
     (\<forall>es s st i s'. BS_WaitForEvent B es s = (st, i, s') \<and> \<not> EFI_ERROR st \<longrightarrow> i = 1)"

lemma WaitForSingleEvent_times_out:
  assumes "only_timer (BS L)" "t \<noteq> 0"
  shows "fst (WaitForSingleEvent L e t s) \<noteq> EFI_SUCCESS"
proof -
  obtain c tm s1 where c: "BS_CreateEvent (BS L) 0x80000000 0 0 0 s = (c, tm, s1)" by (metis prod_cases3)
  obtain q s2 where q: "BS_SetTimer (BS L) tm 2 t s1 = (q, s2)" by force
  obtain w i s3 where w: "BS_WaitForEvent (BS L) [e, tm] s2 = (w, i, s3)" by (metis prod_cases3)
  have "\<not> EFI_ERROR w \<longrightarrow> i = 1" using assms(1) w unfolding only_timer_def by blast
  moreover have "EFI_ERROR st \<longrightarrow> st \<noteq> EFI_SUCCESS" for st by auto
  moreover have "EFI_TIMEOUT \<noteq> EFI_SUCCESS" by simp
  ultimately show ?thesis using assms(2) c q w by (auto simp: WaitForSingleEvent_def)
qed

lemma WaitForEventWithTimeout_loops:
  assumes "only_timer (BS (PLib P))" "0 < Timeout"
  shows "WaitForEventWithTimeout P ConIn Event Timeout Row Column String Key s \<noteq> Some r"
proof
  let ?Q = "\<lambda>((((((((P :: 'a plib, ConIn), Event), Timeout :: u64), Row), Column), String), Key), s) r.
    only_timer (BS (PLib P)) \<longrightarrow> 0 < Timeout \<longrightarrow> False"
  assume "WaitForEventWithTimeout P ConIn Event Timeout Row Column String Key s = Some r"
  then have "?Q ((((((((P, ConIn), Event), Timeout), Row), Column), String), Key), s) r"
  proof (rule WaitForEventWithTimeout.raw_induct [where Pa = ?Q, rotated])
    fix loop and P :: "'a plib" and ConIn Event Timeout Row Column String Key s r
    assume h: "\<And>P ConIn Event Timeout Row Column String Key s r. loop P ConIn Event Timeout Row Column String Key s = Some r \<Longrightarrow>
        ?Q ((((((((P, ConIn), Event), Timeout), Row), Column), String), Key), s) r"
      and b: "do {
        (_, s) \<leftarrow> PrintAt P Column Row String [Timeout] s;
        (case WaitForSingleEvent (PLib P) Event 10000000 s of
           (Status, s) \<Rightarrow>
             if Status = EFI_SUCCESS then
               (case ReadKeyStroke ConIn s of
                  (Status, ScanCode, UnicodeChar, s) \<Rightarrow>
                    if \<not> EFI_ERROR Status then Some ((ScanCode, UnicodeChar), s)
                    else if 0 < Timeout then loop P ConIn Event Timeout Row Column String Key s
                    else Some (Key, s))
             else if 0 < Timeout then loop P ConIn Event Timeout Row Column String Key s
             else Some (Key, s)) } = Some r"
    show "?Q ((((((((P, ConIn), Event), Timeout), Row), Column), String), Key), s) r"
    proof (clarsimp)
      assume t: "only_timer (BS (PLib P))" "0 < Timeout"
      obtain x s1 where p: "PrintAt P Column Row String [Timeout] s = Some (x, s1)"
        using b by (auto split: bind_splits)
      obtain st s2 where w: "WaitForSingleEvent (PLib P) Event 10000000 s1 = (st, s2)" by force
      have "st \<noteq> EFI_SUCCESS"
        using WaitForSingleEvent_times_out [OF t(1), of 10000000 Event s1] w by simp
      then have "loop P ConIn Event Timeout Row Column String Key s2 = Some r" using b t(2) p w by simp
      from h [OF this] t show False by simp
    qed
  qed
  with assms show False by simp
qed

subsection \<open>Line editing\<close>

text \<open>
  What the keys do to the text typed so far, within a buffer of \<open>n\<close> characters: the text, the keys that
  are left, and what appears on the screen.
\<close>

fun edit :: "nat \<Rightarrow> u16 list \<Rightarrow> u16 list \<Rightarrow> u16 list \<times> u16 list \<times> u16 list" where
  "edit n t [] = (t, [], [])"
| "edit n t (k # ks) =
     (if k = 10 \<or> k = 13 then (t, ks, [])
      else if k = 8 then
        (if t \<noteq> [] then (case edit n (butlast t) ks of (t, r, e) \<Rightarrow> (t, r, [8, 32, 8] @ e)) else edit n t ks)
      else if 32 \<le> k \<and> length t < n - 1 then (case edit n (t @ [k]) ks of (t, r, e) \<Rightarrow> (t, r, k # e))
      else edit n t ks)"

text \<open>
  \<open>keys\<close> are the keys that will be typed and \<open>screen\<close> is the text on the console: reading takes the next
  key and fails when there is none, writing appends to the screen, and memory is not touched.
\<close>

definition console_ok ::
  "'w lib \<Rightarrow> 'w text_output \<Rightarrow> 'w text_input \<Rightarrow> ('w \<Rightarrow> u16 list) \<Rightarrow> ('w \<Rightarrow> u16 list) \<Rightarrow> bool" where
  "console_ok L Out In keys screen \<longleftrightarrow>
     (\<forall>es s st i s'. BS_WaitForEvent (BS L) es s = (st, i, s') \<longrightarrow>
        ram s' = ram s \<and> keys (fw s') = keys (fw s) \<and> screen (fw s') = screen (fw s)) \<and>
     (\<forall>s st c k s'. ReadKeyStroke In s = (st, c, k, s') \<longrightarrow>
        ram s' = ram s \<and> screen (fw s') = screen (fw s) \<and>
        (case keys (fw s) of
           [] \<Rightarrow> EFI_ERROR st \<and> keys (fw s') = []
         | k' # ks \<Rightarrow> \<not> EFI_ERROR st \<and> k = k' \<and> keys (fw s') = ks)) \<and>
     (\<forall>t s st s'. OutputString Out t s = (st, s') \<longrightarrow>
        ram s' = ram s \<and> keys (fw s') = keys (fw s) \<and> screen (fw s') = screen (fw s) @ t)"

lemma console_ok_wait:
  assumes "console_ok L Out In keys screen"
  shows "\<exists>st s'. WaitForSingleEvent L e 0 s = (st, s') \<and> ram s' = ram s \<and> keys (fw s') = keys (fw s) \<and>
    screen (fw s') = screen (fw s)"
proof -
  obtain st i s' where "BS_WaitForEvent (BS L) [e] s = (st, i, s')" by (metis prod_cases3)
  moreover from this have "ram s' = ram s \<and> keys (fw s') = keys (fw s) \<and> screen (fw s') = screen (fw s)"
    using assms unfolding console_ok_def by blast
  ultimately show ?thesis by (simp add: WaitForSingleEvent_def)
qed

lemma console_ok_read:
  assumes "console_ok L Out In keys screen"
  shows "\<exists>st c k s'. ReadKeyStroke In s = (st, c, k, s') \<and> ram s' = ram s \<and> screen (fw s') = screen (fw s) \<and>
    (case keys (fw s) of [] \<Rightarrow> EFI_ERROR st \<and> keys (fw s') = []
     | k' # ks \<Rightarrow> \<not> EFI_ERROR st \<and> k = k' \<and> keys (fw s') = ks)"
proof -
  obtain st c k s' where "ReadKeyStroke In s = (st, c, k, s')" by (metis prod_cases4)
  with assms show ?thesis unfolding console_ok_def by blast
qed

lemma console_ok_write:
  assumes "console_ok L Out In keys screen"
  shows "ram (snd (OutputString Out t s)) = ram s" "keys (fw (snd (OutputString Out t s))) = keys (fw s)"
    "screen (fw (snd (OutputString Out t s))) = screen (fw s) @ t"
  using assms unfolding console_ok_def by (metis surjective_pairing)+

lemma enc16_butlast: "t \<noteq> [] \<Longrightarrow> enc16 t = enc16 (butlast t) @ le_bytes 2 (last t)"
  using enc16_append [of "butlast t" "[last t]"] by simp

text \<open>Storing a character with a NUL behind it.\<close>

lemma type_character:
  assumes m: "mapped m p (2 * n)" and b: "bytes_at m p (enc16 t)" and l: "length t + 1 < n"
  shows "\<exists>m1 m2. wr16 m (p + 2 * length t) k = Some m1 \<and> wr16 m1 (p + 2 * (length t + 1)) 0 = Some m2 \<and>
    bytes_at m2 p (enc16 (t @ [k])) \<and> same_outside m m2 p (2 * n) \<and> mapped m2 p (2 * n)"
proof -
  let ?q = "p + 2 * length t"
  have q: "mapped m ?q (length (le_bytes 2 k))" using m l by (auto simp: mapped_def)
  let ?m1 = "overwrite m ?q (le_bytes 2 k)"
  have q2: "mapped ?m1 (p + 2 * (length t + 1)) (length (le_bytes 2 (0 :: u16)))"
    using m q l by (auto simp: mapped_def)
  let ?m2 = "overwrite ?m1 (p + 2 * (length t + 1)) (le_bytes 2 (0 :: u16))"
  have "bytes_at ?m1 p (enc16 t)"
    using b q by (subst bytes_at_overwrite_disjoint) (auto simp: disjoint_ranges_def mapped_def)
  then have "bytes_at ?m1 p (enc16 (t @ [k]))"
    using bytes_at_overwrite [OF q] by (simp add: bytes_at_append)
  then have "bytes_at ?m2 p (enc16 (t @ [k]))"
    using q2 by (subst bytes_at_overwrite_disjoint) (auto simp: disjoint_ranges_def mapped_def)
  moreover have "same_outside m ?m2 p (2 * n)"
    using q q2 l by (auto simp: same_outside_def nth_overwrite mapped_def)
  moreover have "mapped ?m2 p (2 * n)" using m q q2 by (simp add: mapped_def)
  ultimately show ?thesis using q q2 by (auto simp: wr16_def wr_bytes_def)
qed

lemma same_outside_trans: "same_outside a b p n \<Longrightarrow> same_outside b c p n \<Longrightarrow> same_outside a c p n"
  by (simp add: same_outside_def)

lemma IInput_loop_run:
  assumes ok: "console_ok L Out In keys screen" and n: "0 < n" "n < 2 ^ 64"
    and m: "mapped (ram s) p (2 * n)" and b: "bytes_at (ram s) p (enc16 t)" "length t < n"
  shows "\<exists>s'. IInput_loop L Out In p n (length t) s =
      Some (length (fst (edit n t (keys (fw s)))), s') \<and>
    length (fst (edit n t (keys (fw s)))) < n \<and> bytes_at (ram s') p (enc16 (fst (edit n t (keys (fw s))))) \<and>
    same_outside (ram s) (ram s') p (2 * n) \<and> keys (fw s') = fst (snd (edit n t (keys (fw s)))) \<and>
    screen (fw s') = screen (fw s) @ snd (snd (edit n t (keys (fw s))))"
  using m b
proof (induction "keys (fw s)" arbitrary: s t)
  case Nil
  obtain w s1 where w: "WaitForSingleEvent L (WaitForKey In) 0 s = (w, s1)" "ram s1 = ram s"
    "keys (fw s1) = []" "screen (fw s1) = screen (fw s)"
    using console_ok_wait [OF ok] Nil.hyps by metis
  obtain st c k s2 where r: "ReadKeyStroke In s1 = (st, c, k, s2)" "ram s2 = ram s1" "EFI_ERROR st"
    "keys (fw s2) = []" "screen (fw s2) = screen (fw s1)"
    using console_ok_read [OF ok, of s1] w(3) by auto
  have "IInput_loop L Out In p n (length t) s = Some (length t, s2)"
    using w(1) r(1,3) by (simp add: IInput_loop.simps [of L])
  then show ?case using w r Nil by (simp add: Nil.hyps [symmetric] same_outside_def)
next
  case (Cons k ks)
  obtain w s1 where w: "WaitForSingleEvent L (WaitForKey In) 0 s = (w, s1)" "ram s1 = ram s"
    "keys (fw s1) = k # ks" "screen (fw s1) = screen (fw s)"
    using console_ok_wait [OF ok] Cons.hyps(2) by metis
  obtain st c s2 where r: "ReadKeyStroke In s1 = (st, c, k, s2)" "ram s2 = ram s1" "\<not> EFI_ERROR st"
    "keys (fw s2) = ks" "screen (fw s2) = screen (fw s1)"
    using console_ok_read [OF ok, of s1] w(3) by auto
  note loop = IInput_loop.simps [of L Out In p n "length t" s]
  note IH = Cons.hyps(1)
  have s2: "mapped (ram s2) p (2 * n)" "bytes_at (ram s2) p (enc16 t)" "ram s2 = ram s"
    using Cons.prems w(2) r(2) by simp_all
  have un: "uintn (n + (2 ^ 64 - 1)) = n - 1" using n by (simp add: uintn_def mod_if)
  consider (ret) "k = 10 \<or> k = 13" | (erase) "k = 8" "t \<noteq> []" | (none) "k = 8" "t = []"
    | (typed) "k \<noteq> 10" "k \<noteq> 13" "k \<noteq> 8" "32 \<le> k" "length t < n - 1"
    | (other) "k \<noteq> 10" "k \<noteq> 13" "k \<noteq> 8" "\<not> (32 \<le> k \<and> length t < n - 1)" by blast
  then show ?case
  proof cases
    case ret
    then have "IInput_loop L Out In p n (length t) s = Some (length t, s2)" unfolding loop using w(1) r(1,3) by simp
    then show ?thesis using ret Cons.prems w r by (simp add: Cons.hyps(2) [symmetric] same_outside_def)
  next
    case erase
    let ?s = "snd (OutputString Out [8, 32, 8] s2)"
    note o = console_ok_write [OF ok, of "[8, 32, 8]" s2]
    have "IInput_loop L Out In p n (length t) s = IInput_loop L Out In p n (length (butlast t)) ?s"
      unfolding loop using w(1) r(1,3) erase by simp
    moreover have "bytes_at (ram ?s) p (enc16 (butlast t))"
      using s2(2) o(1) enc16_butlast [OF erase(2)] by (simp add: bytes_at_append)
    ultimately show ?thesis
      using IH [of ?s "butlast t"] s2 o r(4,5) w(4) erase Cons.prems(3)
      by (auto simp: Cons.hyps(2) [symmetric] split: prod.splits)
  next
    case none
    have "IInput_loop L Out In p n (length t) s = IInput_loop L Out In p n (length t) s2"
      unfolding loop using w(1) r(1,3) none by simp
    then show ?thesis using IH [of s2 t] s2 r(4,5) w(4) none Cons.prems(3)
      by (auto simp: Cons.hyps(2) [symmetric])
  next
    case typed
    obtain m1 m2 where m: "wr16 (ram s2) (p + 2 * length t) k = Some m1" "wr16 m1 (p + 2 * (length t + 1)) 0 = Some m2"
      "bytes_at m2 p (enc16 (t @ [k]))" "same_outside (ram s2) m2 p (2 * n)" "mapped m2 p (2 * n)"
    proof -
      have "length t + 1 < n" using typed(5) by simp
      from type_character [OF s2(1,2) this, of k] that show ?thesis by blast
    qed
    let ?s = "snd (OutputString Out [k] (with_ram s2 m2))"
    note o = console_ok_write [OF ok, of "[k]" "with_ram s2 m2"]
    have "IInput_loop L Out In p n (length t) s = IInput_loop L Out In p n (length (t @ [k])) ?s"
      unfolding loop using w(1) r(1,3) typed m(1,2) un by simp
    moreover obtain t' a e where ed: "edit n (t @ [k]) ks = (t', a, e)" by (metis prod_cases3)
    have "\<exists>s'. IInput_loop L Out In p n (length (t @ [k])) ?s = Some (length t', s') \<and> length t' < n \<and>
        bytes_at (ram s') p (enc16 t') \<and> same_outside m2 (ram s') p (2 * n) \<and> keys (fw s') = a \<and>
        screen (fw s') = screen (fw s) @ k # e"
      using IH [of ?s "t @ [k]"] o r(4,5) w(4) typed(5) m(3,5) ed by simp
    ultimately show ?thesis
      using typed ed s2(3) same_outside_trans [OF m(4)] by (auto simp: Cons.hyps(2) [symmetric])
  next
    case other
    have "IInput_loop L Out In p n (length t) s = IInput_loop L Out In p n (length t) s2"
      unfolding loop using w(1) r(1,3) other un by auto
    then show ?thesis using IH [of s2 t] s2 r(4,5) w(4) other Cons.prems(3)
      by (auto simp: Cons.hyps(2) [symmetric])
  qed
qed

lemma edit_prompt_chars:
  "0 \<notin> List.set t \<Longrightarrow> 0 \<notin> List.set (fst (edit n t ks))"
proof (induction n t ks rule: edit.induct)
  case (2 n t k ks)
  have "0 \<notin> List.set (butlast t)" using 2(5) by (auto dest: in_set_butlastD)
  moreover have "32 \<le> k \<Longrightarrow> k \<noteq> 0" by auto
  ultimately show ?case using 2 by (auto split: prod.splits)
qed simp

subsection \<open>Properties\<close>

text \<open>C37. \<open>WaitForEventWithTimeout\<close> has no time limit: if the event is never signalled, a call with a
  positive \<open>Timeout\<close> never returns, although it is woken by its timer every second, because nothing
  counts \<open>Timeout\<close> down.\<close>

theorem WaitForEventWithTimeout_never_returns:
  assumes "only_timer (BS (PLib P))" "0 < Timeout"
  shows "WaitForEventWithTimeout P ConIn Event Timeout Row Column String TimeoutKey s = None"
  using WaitForEventWithTimeout_loops [OF assms] by (metis not_None_eq)

text \<open>A firmware whose timer always fires.\<close>

definition timer_boot :: "demo boot_services" where
  "timer_boot = demo_boot\<lparr>BS_CreateEvent := (\<lambda>t l f c s. (EFI_SUCCESS, 1, s)),
     BS_SetTimer := (\<lambda>e t n s. (EFI_SUCCESS, s)), BS_WaitForEvent := (\<lambda>es s. (EFI_SUCCESS, 1, s)),
     BS_CloseEvent := (\<lambda>e s. (EFI_SUCCESS, s))\<rparr>"

definition timer_plib :: "demo plib" where
  "timer_plib = \<lparr>PLib = demo_lib\<lparr>BS := timer_boot\<rparr>, ConOut = demo_console, StdErr = None,
     LibRuntimeDebugOut = None, EFIDebug = 0, BelowBuffer = 0,
     FloatToString = (\<lambda>m n a. None), DevicePathToStr = (\<lambda>m a. None)\<rparr>"

theorem WaitForEventWithTimeout_never_returns_witness:
  "WaitForEventWithTimeout timer_plib \<lparr>ReadKeyStroke = (\<lambda>s. (EFI_SUCCESS, 0, 65, s)), WaitForKey = 2\<rparr>
     2 5 0 0 1 (0, 0) (demo_mem [0, 0] 0) = None"
  by (rule WaitForEventWithTimeout_never_returns)
    (simp_all add: only_timer_def timer_plib_def timer_boot_def)

text \<open>C15. \<open>IInput\<close> reads a line: it returns when Enter is typed or no key can be read, the buffer holds
  the text that results from the characters and backspaces typed, NUL terminated and at most
  \<open>StrLen - 1\<close> characters long, the console has shown the prompt and the echo of just the keys that
  took effect, the keys behind Enter are still to be read, and nothing behind the \<open>StrLen\<close> characters
  of the buffer was written.\<close>

theorem IInput_edits:
  assumes "console_ok L Out In keys screen" "0 < n" "n < 2 ^ 64" "mapped (ram s) InStr (2 * n)"
  shows "case edit n [] (keys (fw s)) of (t, rest, echo) \<Rightarrow>
    \<exists>s'. IInput L Out In Prompt InStr n s = Some s' \<and> str16_at (ram s') InStr t \<and> length t < n \<and>
      same_outside (ram s) (ram s') InStr (2 * n) \<and> keys (fw s') = rest \<and>
      screen (fw s') = screen (fw s) @ (case Prompt of None \<Rightarrow> [] | Some p \<Rightarrow> p) @ echo"
proof -
  let ?s = "case Prompt of Some t \<Rightarrow> snd (OutputString Out t s) | None \<Rightarrow> s"
  obtain t rest echo where e: "edit n [] (keys (fw s)) = (t, rest, echo)" by (metis prod_cases3)
  have s: "ram ?s = ram s" "keys (fw ?s) = keys (fw s)"
    "screen (fw ?s) = screen (fw s) @ (case Prompt of None \<Rightarrow> [] | Some p \<Rightarrow> p)"
    using console_ok_write [OF assms(1)] by (auto split: option.splits)
  have "bytes_at (ram ?s) InStr (enc16 [])" "mapped (ram ?s) InStr (2 * n)"
    using assms(4) s(1) by (auto simp: bytes_at_def rd_bytes_def region_def mapped_def)
  then obtain s1 where s1: "IInput_loop L Out In InStr n 0 ?s = Some (length t, s1)" "length t < n"
    "bytes_at (ram s1) InStr (enc16 t)" "same_outside (ram s) (ram s1) InStr (2 * n)" "keys (fw s1) = rest"
    "screen (fw s1) = screen (fw ?s) @ echo"
    using IInput_loop_run [OF assms(1-3), of ?s InStr "[]"] assms(2) s e by auto
  let ?m = "overwrite (ram s1) (InStr + 2 * length t) (le_bytes 2 (0 :: u16))"
  have q: "mapped (ram s1) (InStr + 2 * length t) (length (le_bytes 2 (0 :: u16)))"
    using assms(4) s1(2,4) by (auto simp: mapped_def same_outside_def)
  have "bytes_at ?m InStr (enc16 t)"
    using s1(3) q by (subst bytes_at_overwrite_disjoint) (auto simp: disjoint_ranges_def mapped_def)
  moreover have "bytes_at ?m (InStr + 2 * length t) (le_bytes 2 (0 :: u16))" by (rule bytes_at_overwrite [OF q])
  moreover have "0 \<notin> List.set t" using edit_prompt_chars [of "[]" n "keys (fw s)"] e by simp
  ultimately have "str16_at ?m InStr t" by (simp add: str16_at_bytes bytes_at_append)
  moreover have "same_outside (ram s) ?m InStr (2 * n)"
    using s1(2,4) q by (auto simp: same_outside_def nth_overwrite mapped_def)
  moreover have "IInput L Out In Prompt InStr n s = Some (with_ram s1 ?m)"
    using s1(1) q by (simp add: IInput_def wr16_def wr_bytes_def)
  ultimately show ?thesis using s1(2,5,6) s e by auto
qed

text \<open>Typing "a", "b", a backspace, "c", Enter into a buffer of four characters at 1.\<close>

definition typed_keys :: "demo st" where
  "typed_keys = demo_mem (replicate 8 0) 0\<lparr>fw := (fw (demo_mem (replicate 8 0) 0))
     \<lparr>demo_keys := [97, 98, 8, 99, 13, 100]\<rparr>\<rparr>"

lemma demo_console_ok: "console_ok demo_lib demo_console demo_input demo_keys demo_screen"
  by (auto simp: console_ok_def demo_lib_def demo_boot_def demo_console_def demo_input_def split: list.splits)

theorem IInput_edits_witness:
  "\<exists>s'. IInput demo_lib demo_console demo_input None 1 4 typed_keys = Some s' \<and>
    str16_at (ram s') 1 [97, 99] \<and> demo_keys (fw s') = [100] \<and>
    demo_screen (fw s') = [97, 98, 8, 32, 8, 99]"
proof -
  have "mapped (ram typed_keys) 1 (2 * 4)" "demo_keys (fw typed_keys) = [97, 98, 8, 99, 13, 100]"
    "demo_screen (fw typed_keys) = []"
    by (simp_all add: typed_keys_def demo_mem_def mapped_def)
  then show ?thesis
    using IInput_edits [OF demo_console_ok, of 4 typed_keys 1 None] by auto
qed

end
