(* ===== verification/Reloc.thy ===== *)
theory Reloc
  imports Firmware
begin

text \<open>
  gnuefi/reloc_*.c: an application is linked as a shared object and relocates itself when it is
  started. \<open>_relocate\<close> looks the relocation table up in the dynamic section and adds the load address
  to what the relative relocations name.

  One definition per architecture, over the loops they share. \<open>long\<close> and the pointers are words of the
  machine's size: 64 bits, 32 for arm and ia32; signed comparisons are written with \<open>sint\<close>. The result
  is the status, by its 64-bit code, with the memory; \<open>None\<close> is a memory fault, or a loop that does not
  end. The relocator of mips64el is left out: it uses a type (\<open>Elf64_Rel\<close>) and a tag
  (\<open>DT_MIPS_LOCAL_GOTNO\<close>) that inc/subst/elf.h does not define.
\<close>

subsection \<open>The dynamic section\<close>

text \<open>
  \<open>Elf64_Dyn\<close> is 16 bytes, the tag and the value. \<open>DT_REL\<close> is 17, \<open>DT_RELSZ\<close> 18, \<open>DT_RELENT\<close> 19,
  \<open>DT_RELA\<close> 7, \<open>DT_RELASZ\<close> 8 and \<open>DT_RELAENT\<close> 9; the three tags an architecture uses are arguments. The
  loop gives \<open>rel\<close>, \<open>relsz\<close> and \<open>relent\<close>.
\<close>

type_synonym 'a rel_table = "'a word \<times> 'a word \<times> 'a word"

definition note_tag ::
  "'a::len rel_table \<Rightarrow> 'a word \<Rightarrow> 'a word \<times> 'a word \<Rightarrow> 'a rel_table \<Rightarrow> 'a rel_table" where
  "note_tag tags ldbase d st =
     (case (tags, d, st) of ((tRel, tSz, tEnt), (tag, val), (rel, relsz, relent)) \<Rightarrow>
        if tag = tRel then (val + ldbase, relsz, relent)
        else if tag = tSz then (rel, val, relent)
        else if tag = tEnt then (rel, relsz, val)
        else (rel, relsz, relent))"

function scan_dyn64 :: "64 rel_table \<Rightarrow> u64 \<Rightarrow> mem \<Rightarrow> addr \<Rightarrow> 64 rel_table \<Rightarrow> 64 rel_table option" where
  "scan_dyn64 tags ldbase m dyn st = do {
     tag \<leftarrow> rd64 m dyn;
     if tag = 0 then Some st
     else do {
       val \<leftarrow> rd64 m (dyn + 8);
       scan_dyn64 tags ldbase m (dyn + 16) (note_tag tags ldbase (tag, val) st) } }"
  by pat_completeness auto
termination
  by (relation "measure (\<lambda>(tags, ldbase, m, dyn, st). length m - dyn)")
    (auto simp: rd64_def rd_bytes_def mapped_def split: if_splits)

function scan_dyn32 :: "32 rel_table \<Rightarrow> u32 \<Rightarrow> mem \<Rightarrow> addr \<Rightarrow> 32 rel_table \<Rightarrow> 32 rel_table option" where
  "scan_dyn32 tags ldbase m dyn st = do {
     tag \<leftarrow> rd32 m dyn;
     if tag = 0 then Some st
     else do {
       val \<leftarrow> rd32 m (dyn + 4);
       scan_dyn32 tags ldbase m (dyn + 8) (note_tag tags ldbase (tag, val) st) } }"
  by pat_completeness auto
termination
  by (relation "measure (\<lambda>(tags, ldbase, m, dyn, st). length m - dyn)")
    (auto simp: rd32_def rd_bytes_def mapped_def split: if_splits)

declare scan_dyn64.simps [simp del] scan_dyn32.simps [simp del]

subsection \<open>Applying the relocations\<close>

text \<open>The body of the loop for one entry: \<open>Elf64_Rela\<close> has the offset, the information and the addend.\<close>

definition apply_rela :: "u64 \<Rightarrow> u64 \<Rightarrow> mem \<Rightarrow> addr \<Rightarrow> mem option" where
  "apply_rela RELATIVE ldbase m rel = do {
     r_info \<leftarrow> rd64 m (rel + 8);
     if r_info AND 0xffffffff = RELATIVE
     then do {
       r_offset \<leftarrow> rd64 m rel;
       r_addend \<leftarrow> rd64 m (rel + 16);
       wr64 m (unat (ldbase + r_offset)) (ldbase + r_addend) }
     else Some m }"

definition apply_larch :: "u64 \<Rightarrow> mem \<Rightarrow> addr \<Rightarrow> mem option" where
  "apply_larch ldbase m rel = do {
     r_info \<leftarrow> rd64 m (rel + 8);
     if r_info AND 0xffffffff = 3
     then do {
       r_offset \<leftarrow> rd64 m rel;
       v \<leftarrow> rd64 m (unat (ldbase + r_offset));
       wr64 m (unat (ldbase + r_offset)) (v + ldbase) }
     else Some m }"

definition apply_rel32 :: "u32 \<Rightarrow> u32 \<Rightarrow> mem \<Rightarrow> addr \<Rightarrow> mem option" where
  "apply_rel32 RELATIVE ldbase m rel = do {
     r_info \<leftarrow> rd32 m (rel + 4);
     if r_info AND 0xff = RELATIVE
     then do {
       r_offset \<leftarrow> rd32 m rel;
       v \<leftarrow> rd32 m (unat (ldbase + r_offset));
       wr32 m (unat (ldbase + r_offset)) (v + ldbase) }
     else Some m }"

partial_function (option) reloc_loop ::
  "(mem \<Rightarrow> addr \<Rightarrow> mem option) \<Rightarrow> 'a::len word \<Rightarrow> mem \<Rightarrow> 'a word \<Rightarrow> 'a word \<Rightarrow> mem option" where
  "reloc_loop app relent m rel relsz =
     (if 0 < sint relsz
      then do {
        m \<leftarrow> app m (unat rel);
        reloc_loop app relent m (rel + relent) (relsz - relent) }
      else Some m)"

text \<open>What follows the scan in all but one of the architectures.\<close>

definition relocate_with ::
  "(mem \<Rightarrow> addr \<Rightarrow> mem option) \<Rightarrow> mem \<Rightarrow> 'a::len rel_table \<Rightarrow> (u64 \<times> mem) option" where
  "relocate_with app m st =
     (case st of (rel, relsz, relent) \<Rightarrow>
        if rel = 0 \<and> relent = 0 then Some (EFI_SUCCESS, m)
        else if rel = 0 \<or> relent = 0 then Some (EFI_LOAD_ERROR, m)
        else map_option (\<lambda>m. (EFI_SUCCESS, m)) (reloc_loop app relent m rel relsz))"

subsection \<open>The architectures\<close>

text \<open>The relocation types are those of inc/subst/elf.h.\<close>

definition relocate_x86_64 :: "u64 \<Rightarrow> addr \<Rightarrow> mem \<Rightarrow> (u64 \<times> mem) option" where
  "relocate_x86_64 ldbase dyn m = do {
     st \<leftarrow> scan_dyn64 (7, 8, 9) ldbase m dyn (0, 0, 0);
     relocate_with (apply_rela 8 ldbase) m st }"

definition relocate_aarch64 :: "u64 \<Rightarrow> addr \<Rightarrow> mem \<Rightarrow> (u64 \<times> mem) option" where
  "relocate_aarch64 ldbase dyn m = do {
     st \<leftarrow> scan_dyn64 (7, 8, 9) ldbase m dyn (0, 0, 0);
     relocate_with (apply_rela 1027 ldbase) m st }"

definition relocate_riscv64 :: "u64 \<Rightarrow> addr \<Rightarrow> mem \<Rightarrow> (u64 \<times> mem) option" where
  "relocate_riscv64 ldbase dyn m = do {
     st \<leftarrow> scan_dyn64 (7, 8, 9) ldbase m dyn (0, 0, 0);
     relocate_with (apply_rela 3 ldbase) m st }"

definition relocate_loongarch64 :: "u64 \<Rightarrow> addr \<Rightarrow> mem \<Rightarrow> (u64 \<times> mem) option" where
  "relocate_loongarch64 ldbase dyn m = do {
     st \<leftarrow> scan_dyn64 (7, 8, 9) ldbase m dyn (0, 0, 0);
     relocate_with (apply_larch ldbase) m st }"

definition relocate_arm :: "u32 \<Rightarrow> addr \<Rightarrow> mem \<Rightarrow> (u64 \<times> mem) option" where
  "relocate_arm ldbase dyn m = do {
     st \<leftarrow> scan_dyn32 (17, 18, 19) ldbase m dyn (0, 0, 0);
     relocate_with (apply_rel32 23 ldbase) m st }"

definition relocate_ia32 :: "u32 \<Rightarrow> addr \<Rightarrow> mem \<Rightarrow> (u64 \<times> mem) option" where
  "relocate_ia32 ldbase dyn m = do {
     st \<leftarrow> scan_dyn32 (17, 18, 19) ldbase m dyn (0, 0, 0);
     relocate_with (apply_rel32 8 ldbase) m st }"

subsection \<open>Dynamic sections and relocation tables as lists\<close>

definition enc_dyn64 :: "u64 \<times> u64 \<Rightarrow> u8 list" where
  "enc_dyn64 d = le_bytes 8 (fst d) @ le_bytes 8 (snd d)"

text \<open>The section at \<open>dyn\<close> holds \<open>ds\<close> in front of the entry with the tag \<open>DT_NULL\<close>.\<close>

definition dyn_at :: "mem \<Rightarrow> addr \<Rightarrow> (u64 \<times> u64) list \<Rightarrow> bool" where
  "dyn_at m dyn ds \<longleftrightarrow> 0 \<notin> fst ` List.set ds \<and>
     bytes_at m dyn (concat (map enc_dyn64 ds) @ le_bytes 8 (0 :: u64))"

text \<open>The value of a tag: the last entry with it counts.\<close>

definition tag_value :: "(u64 \<times> u64) list \<Rightarrow> u64 \<Rightarrow> u64 option" where
  "tag_value ds t = map_of (rev ds) t"

lemma scan_dyn64_fold:
  "dyn_at m dyn ds \<Longrightarrow>
   scan_dyn64 tags ldbase m dyn st = Some (fold (note_tag tags ldbase) ds st)"
proof (induction ds arbitrary: dyn st)
  case Nil
  have "rd64 m dyn = Some 0" using Nil bytes_at_words(3) [of m dyn 0 "[]"] by (simp add: dyn_at_def)
  then show ?case by (simp add: scan_dyn64.simps [of _ _ m dyn])
next
  case (Cons d ds)
  obtain t v where d: "d = (t, v)" by force
  have b: "bytes_at m dyn (le_bytes 8 t @ le_bytes 8 v @ concat (map enc_dyn64 ds) @ le_bytes 8 (0 :: u64))"
    using Cons.prems by (simp add: dyn_at_def d enc_dyn64_def)
  have "rd64 m dyn = Some t" using b by (rule bytes_at_words(3))
  moreover have "rd64 m (dyn + 8) = Some v"
    using bytes_at_words(3) [of m "dyn + 8" v "[]"] b by (simp add: bytes_at_append)
  moreover have "dyn_at m (dyn + 16) ds"
    using Cons.prems b by (simp add: dyn_at_def bytes_at_append add.assoc)
  moreover have "t \<noteq> 0" using Cons.prems d by (auto simp: dyn_at_def)
  ultimately show ?case using Cons.IH d by (simp add: scan_dyn64.simps [of _ _ m dyn])
qed

lemma note_tags:
  fixes tR tS tE :: u64
  assumes "distinct [tR, tS, tE]"
  shows "fold (note_tag (tR, tS, tE) ldbase) ds (0, 0, 0) =
    (case tag_value ds tR of None \<Rightarrow> 0 | Some v \<Rightarrow> v + ldbase,
     case tag_value ds tS of None \<Rightarrow> 0 | Some v \<Rightarrow> v,
     case tag_value ds tE of None \<Rightarrow> 0 | Some v \<Rightarrow> v)"
proof (induction ds rule: rev_induct)
  case (snoc d ds)
  then show ?case using assms by (cases d) (auto simp: note_tag_def tag_value_def)
qed (simp add: tag_value_def)

text \<open>The entries of a table with addends, and the memory with all of them applied.\<close>

type_synonym rela = "u64 \<times> u64 \<times> u64"

definition enc_rela :: "rela \<Rightarrow> u8 list" where
  "enc_rela r = (case r of (r_offset, r_info, r_addend) \<Rightarrow>
     le_bytes 8 r_offset @ le_bytes 8 r_info @ le_bytes 8 r_addend)"

definition is_relative :: "u64 \<Rightarrow> rela \<Rightarrow> bool" where
  "is_relative RELATIVE r \<longleftrightarrow> fst (snd r) AND 0xffffffff = RELATIVE"

definition target :: "u64 \<Rightarrow> rela \<Rightarrow> addr" where
  "target ldbase r = unat (ldbase + fst r)"

definition relocated :: "u64 \<Rightarrow> rela list \<Rightarrow> mem \<Rightarrow> mem" where
  "relocated ldbase rs m =
     fold (\<lambda>r m. overwrite m (target ldbase r) (le_bytes 8 (ldbase + snd (snd r)))) rs m"

lemma length_enc_rela [simp]: "length (enc_rela r) = 24"
  by (cases r) (simp add: enc_rela_def)

lemma length_enc_relas [simp]: "length (concat (map enc_rela rs)) = 24 * length rs"
  by (induction rs) auto

lemma apply_rela_eq:
  assumes "bytes_at m p (enc_rela r)" "is_relative R r \<Longrightarrow> mapped m (target ldbase r) 8"
  shows "apply_rela R ldbase m p =
    Some (if is_relative R r then overwrite m (target ldbase r) (le_bytes 8 (ldbase + snd (snd r))) else m)"
proof -
  obtain o' i a where r: "r = (o', i, a)" by (metis prod_cases3)
  have b: "bytes_at m p (le_bytes 8 o')" "bytes_at m (p + 8) (le_bytes 8 i)" "bytes_at m (p + 16) (le_bytes 8 a)"
    using assms(1) by (simp_all add: r enc_rela_def bytes_at_append add.assoc)
  have "rd64 m p = Some o'" "rd64 m (p + 8) = Some i" "rd64 m (p + 16) = Some a"
    using b bytes_at_words(3) [of m _ _ "[]"] by auto
  then show ?thesis using assms(2)
    by (auto simp: apply_rela_def r is_relative_def target_def wr64_def wr_bytes_def)
qed

text \<open>The table is not relocated itself.\<close>

definition relocatable :: "u64 \<Rightarrow> u64 \<Rightarrow> mem \<Rightarrow> addr \<Rightarrow> rela list \<Rightarrow> bool" where
  "relocatable R ldbase m p rs \<longleftrightarrow> bytes_at m p (concat (map enc_rela rs)) \<and>
     (\<forall>r \<in> List.set rs. is_relative R r \<longrightarrow> mapped m (target ldbase r) 8 \<and>
        disjoint_ranges (target ldbase r) 8 p (24 * length rs))"

lemma sint_word_of_nat: "n < 2 ^ 63 \<Longrightarrow> sint (word_of_nat n :: u64) = int n"
  by (simp add: signed_of_nat signed_take_bit_int_eq_self)

lemma relocatable_tail:
  assumes "relocatable R ldbase m p (r # rs)"
    "m' = (if is_relative R r then overwrite m (target ldbase r) (le_bytes 8 v) else m)"
  shows "relocatable R ldbase m' (p + 24) rs" "length m' = length m"
proof -
  have r: "is_relative R r \<Longrightarrow> mapped m (target ldbase r) 8 \<and>
      disjoint_ranges (target ldbase r) 8 p (24 + 24 * length rs)"
    and b: "bytes_at m (p + 24) (concat (map enc_rela rs))"
    using assms(1) by (simp_all add: relocatable_def bytes_at_append)
  show l: "length m' = length m" using r assms(2) by (auto simp: mapped_def)
  have "bytes_at m' (p + 24) (concat (map enc_rela rs))"
    using b r assms(2) by (auto simp: bytes_at_overwrite_disjoint disjoint_ranges_def mapped_def)
  then show "relocatable R ldbase m' (p + 24) rs"
    using assms(1) l by (auto simp: relocatable_def mapped_def disjoint_ranges_def)
qed

lemma reloc_loop_rela:
  assumes "relocatable R ldbase m p rs" "p + 24 * length rs \<le> 2 ^ 64 - 24" "24 * length rs < 2 ^ 63"
  shows "reloc_loop (apply_rela R ldbase) (24 :: u64) m (word_of_nat p) (word_of_nat (24 * length rs)) =
    Some (relocated ldbase (filter (is_relative R) rs) m)"
  using assms
proof (induction rs arbitrary: m p)
  case Nil
  then show ?case by (simp add: reloc_loop.simps relocated_def)
next
  case (Cons r rs)
  let ?m = "if is_relative R r then overwrite m (target ldbase r) (le_bytes 8 (ldbase + snd (snd r))) else m"
  note t = relocatable_tail [OF Cons.prems(1) refl]
  have 1: "apply_rela R ldbase m p = Some ?m"
    using Cons.prems(1) by (intro apply_rela_eq) (auto simp: relocatable_def bytes_at_append)
  have 2: "unat (word_of_nat p :: u64) = p" using Cons.prems(2) by (intro unat_word_of_nat) simp
  have 3: "0 < sint (word_of_nat (24 * length (r # rs)) :: u64)"
    using Cons.prems(3) by (subst sint_word_of_nat) simp_all
  have 4: "word_of_nat p + 24 = (word_of_nat (p + 24) :: u64)" by simp
  have 5: "word_of_nat (24 * length (r # rs)) - 24 = (word_of_nat (24 * length rs) :: u64)" by simp
  have "reloc_loop (apply_rela R ldbase) (24 :: u64) m (word_of_nat p) (word_of_nat (24 * length (r # rs))) =
      reloc_loop (apply_rela R ldbase) (24 :: u64) ?m (word_of_nat (p + 24)) (word_of_nat (24 * length rs))"
    unfolding reloc_loop.simps [of _ 24 m] if_P [OF 3] 1 2 4 5 bind.bind_lunit ..
  also have "\<dots> = Some (relocated ldbase (filter (is_relative R) rs) ?m)"
    by (rule Cons.IH [OF t(1)]) (use Cons.prems(2,3) in simp_all)
  finally show ?case by (simp add: relocated_def)
qed

text \<open>What the relocations leave in memory when their targets lie apart.\<close>

definition apart :: "u64 \<Rightarrow> rela list \<Rightarrow> bool" where
  "apart ldbase rs \<longleftrightarrow>
     sorted_wrt (\<lambda>r r'. disjoint_ranges (target ldbase r) 8 (target ldbase r') 8) rs"

lemma relocated_spec:
  assumes "\<forall>r \<in> List.set rs. mapped m (target ldbase r) 8" "apart ldbase rs"
  shows "length (relocated ldbase rs m) = length m \<and>
    (\<forall>r \<in> List.set rs. rd64 (relocated ldbase rs m) (target ldbase r) = Some (ldbase + snd (snd r))) \<and>
    (\<forall>q n. (\<forall>r \<in> List.set rs. disjoint_ranges q n (target ldbase r) 8) \<longrightarrow>
       rd_bytes (relocated ldbase rs m) q n = rd_bytes m q n)"
  using assms
proof (induction rs arbitrary: m)
  case Nil
  then show ?case by (simp add: relocated_def)
next
  case (Cons r rs)
  let ?d = "le_bytes 8 (ldbase + snd (snd r))"
  let ?m = "overwrite m (target ldbase r) ?d"
  have m: "mapped m (target ldbase r) 8" using Cons.prems by simp
  have e: "relocated ldbase (r # rs) m = relocated ldbase rs ?m" by (simp add: relocated_def)
  have "\<forall>r \<in> List.set rs. mapped ?m (target ldbase r) 8" using Cons.prems(1) m by (simp add: mapped_def)
  moreover have "apart ldbase rs" using Cons.prems(2) by (simp add: apart_def)
  ultimately have i: "length (relocated ldbase rs ?m) = length ?m"
    "\<forall>r \<in> List.set rs. rd64 (relocated ldbase rs ?m) (target ldbase r) = Some (ldbase + snd (snd r))"
    "\<And>q n. (\<forall>r \<in> List.set rs. disjoint_ranges q n (target ldbase r) 8) \<Longrightarrow>
       rd_bytes (relocated ldbase rs ?m) q n = rd_bytes ?m q n"
    using Cons.IH by blast+
  have "rd_bytes ?m (target ldbase r) 8 = Some ?d"
    using rd_bytes_overwrite_same [of m "target ldbase r" ?d] m by simp
  moreover have "\<forall>r' \<in> List.set rs. disjoint_ranges (target ldbase r) 8 (target ldbase r') 8"
    using Cons.prems(2) by (simp add: apart_def)
  ultimately have "rd64 (relocated ldbase rs ?m) (target ldbase r) = Some (ldbase + snd (snd r))"
    using i(3) by (simp add: rd64_def)
  moreover have "rd_bytes ?m q n = rd_bytes m q n" if "disjoint_ranges q n (target ldbase r) 8" for q n
    using rd_bytes_overwrite_disjoint [of q n "target ldbase r" ?d m] that m by (simp add: mapped_def)
  moreover have "length ?m = length m" using m by (simp add: mapped_def)
  ultimately show ?case unfolding e using i by (simp del: length_overwrite)
qed

lemma relocate_rela_eq:
  assumes "dyn_at m dyn ds" "tag_value ds 7 = Some rel" "tag_value ds 8 = Some (word_of_nat (24 * length rs))"
    "tag_value ds 9 = Some 24" "relocatable R ldbase m (unat (rel + ldbase)) rs" "rel + ldbase \<noteq> 0"
    "length m \<le> 2 ^ 63"
  shows "do { st \<leftarrow> scan_dyn64 (7, 8, 9) ldbase m dyn (0, 0, 0); relocate_with (apply_rela R ldbase) m st } =
    Some (EFI_SUCCESS, relocated ldbase (filter (is_relative R) rs) m)"
proof -
  have len: "rs \<noteq> [] \<Longrightarrow> unat (rel + ldbase) + 24 * length rs \<le> 2 ^ 63"
    using bytes_at_mapped [of m "unat (rel + ldbase)" "concat (map enc_rela rs)"] assms(5,7)
    by (simp add: relocatable_def mapped_def)
  have "reloc_loop (apply_rela R ldbase) 24 m (rel + ldbase) (word_of_nat (24 * length rs)) =
      Some (relocated ldbase (filter (is_relative R) rs) m)"
  proof (cases "rs = []")
    case True
    then show ?thesis by (simp add: reloc_loop.simps relocated_def)
  next
    case False
    have "unat (rel + ldbase) > 0" using assms(6) by (simp add: unat_gt_0)
    have "word_of_nat (unat (rel + ldbase)) = rel + ldbase" by simp
    moreover have "unat (rel + ldbase) + 24 * length rs \<le> 2 ^ 64 - 24" "24 * length rs < 2 ^ 63"
      using len [OF False] \<open>unat (rel + ldbase) > 0\<close> by simp_all
    ultimately show ?thesis using reloc_loop_rela [OF assms(5)] by metis
  qed
  then show ?thesis
    using scan_dyn64_fold [OF assms(1), of "(7, 8, 9)" ldbase "(0, 0, 0)"]
      note_tags [of 7 8 9 ldbase ds] assms(2-4,6)
    by (simp add: relocate_with_def)
qed

subsection \<open>Properties\<close>

text \<open>C12. On a well-formed image \<open>_relocate\<close> of x86_64, aarch64 and riscv64 ends with success, and in the
  memory it leaves the word at the target of every relative relocation of the table is the load
  address plus its addend, while every range apart from the targets is unchanged. Well formed means
  that the dynamic section gives the table, its size and the size of an entry, and that the targets
  lie in memory, apart from each other and from the table.\<close>

theorem relocate_relocates:
  assumes "(R, relocate) \<in> {(8, relocate_x86_64), (1027, relocate_aarch64), (3, relocate_riscv64)}"
    "dyn_at m dyn ds" "tag_value ds 7 = Some rel" "tag_value ds 8 = Some (word_of_nat (24 * length rs))"
    "tag_value ds 9 = Some 24" "relocatable R ldbase m (unat (rel + ldbase)) rs" "rel + ldbase \<noteq> 0"
    "length m \<le> 2 ^ 63" "apart ldbase (filter (is_relative R) rs)"
  shows "\<exists>m'. relocate ldbase dyn m = Some (EFI_SUCCESS, m') \<and> length m' = length m \<and>
    (\<forall>(r_offset, r_info, r_addend) \<in> List.set rs. r_info AND 0xffffffff = R \<longrightarrow>
       rd64 m' (unat (ldbase + r_offset)) = Some (ldbase + r_addend)) \<and>
    (\<forall>q n. (\<forall>r \<in> List.set rs. is_relative R r \<longrightarrow> disjoint_ranges q n (target ldbase r) 8) \<longrightarrow>
       rd_bytes m' q n = rd_bytes m q n)"
proof -
  have "relocate ldbase dyn m = Some (EFI_SUCCESS, relocated ldbase (filter (is_relative R) rs) m)"
    using relocate_rela_eq [OF assms(2-8)] assms(1)
    by (auto simp: relocate_x86_64_def relocate_aarch64_def relocate_riscv64_def)
  moreover have "\<forall>r \<in> List.set (filter (is_relative R) rs). mapped m (target ldbase r) 8"
    using assms(6) by (simp add: relocatable_def)
  note r = relocated_spec [OF this assms(9)]
  ultimately show ?thesis
    using r by (fastforce simp: is_relative_def target_def)
qed

text \<open>An image loaded at 1: the dynamic section at 1, the table at 57 and one target at 81.\<close>

definition demo_image :: mem where
  "demo_image = 0 # concat (map enc_dyn64 [(7, 56), (8, 24), (9, 24)]) @ le_bytes 8 (0 :: u64) @
     enc_rela (80, 8, 5) @ replicate 8 0"

theorem relocate_relocates_witness:
  "\<exists>m'. relocate_x86_64 1 1 demo_image = Some (EFI_SUCCESS, m') \<and> rd64 m' 81 = Some 6 \<and>
    rd_bytes m' 1 80 = rd_bytes demo_image 1 80"
proof -
  let ?ds = "[(7, 56), (8, 24), (9, 24)] :: (u64 \<times> u64) list"
  have d: "dyn_at demo_image 1 ?ds" by code_simp
  have l: "length demo_image = 89" by code_simp
  have "bytes_at demo_image 57 (enc_rela (80, 8, 5))" by code_simp
  then have r: "relocatable 8 1 demo_image (unat (56 + 1 :: u64)) [(80, 8, 5)]"
    by (simp add: relocatable_def target_def mapped_def disjoint_ranges_def l)
  obtain m' where m': "relocate_x86_64 1 1 demo_image = Some (EFI_SUCCESS, m')"
    "rd64 m' 81 = Some 6"
    "\<forall>q n. (\<forall>r \<in> List.set [(80, 8, 5)]. is_relative 8 r \<longrightarrow> disjoint_ranges q n (target 1 r) 8) \<longrightarrow>
       rd_bytes m' q n = rd_bytes demo_image q n"
    using relocate_relocates [of 8 relocate_x86_64 demo_image 1 ?ds 56 "[(80, 8, 5)]" 1] d r l
    by (auto simp: tag_value_def apart_def is_relative_def target_def)
  have "disjoint_ranges 1 80 (target 1 (80, 8, 5)) 8" by (simp add: target_def disjoint_ranges_def)
  with m'(3) have "rd_bytes m' 1 80 = rd_bytes demo_image 1 80" by simp
  then show ?thesis using m'(1,2) by blast
qed

end
