(* ===== verification/Smbios.thy ===== *)
theory Smbios
  imports Mbr
begin

text \<open>
  lib/smbios.c: the system's GUID and serial number from the SMBIOS tables.

  A structure is a header (type, length of the formatted section, handle), the formatted section and a
  section of NUL terminated strings that ends with an empty one. \<open>enc_smbios\<close> encodes a structure; the
  lemmas describe the walk over a list of encoded structures.
\<close>

subsection \<open>Operations\<close>

function skip_string :: "mem \<Rightarrow> addr \<Rightarrow> addr option" where
  "skip_string m String = do {
     c \<leftarrow> rd8 m String;
     if c \<noteq> 0 then skip_string m (String + 1) else Some String }"
  by pat_completeness auto
termination
  by (relation "measure (\<lambda>(m, p). length m - p)") (auto simp: rd8_def split: if_splits)

declare skip_string.simps [simp del]

text \<open>
  The result is the returned pointer, and the new \<open>Smbios->Raw\<close> where it is set. \<open>Index\<close> never wraps: it
  stops at \<open>StringNumber\<close>.
\<close>

function LibGetSmbiosString_loop :: "mem \<Rightarrow> addr \<Rightarrow> nat \<Rightarrow> nat \<Rightarrow> (addr \<times> addr option) option" where
  "LibGetSmbiosString_loop m String Index StringNumber =
     (if Index \<le> StringNumber then
        if StringNumber = Index then Some (String, None)
        else do {
          String \<leftarrow> skip_string m String;
          c \<leftarrow> rd8 m (String + 1);
          if c = 0 then Some (0, Some (String + 2))
          else LibGetSmbiosString_loop m (String + 1) (Index + 1) StringNumber }
      else Some (0, None))"
  by pat_completeness auto
termination
  by (relation "measure (\<lambda>(m, p, i, n). Suc n - i)") auto

declare LibGetSmbiosString_loop.simps [simp del]

definition LibGetSmbiosString :: "mem \<Rightarrow> addr \<Rightarrow> u16 \<Rightarrow> (addr \<times> addr) option" where
  "LibGetSmbiosString m Smbios StringNumber = do {
     l \<leftarrow> rd8 m (Smbios + 1);
     (r, new) \<leftarrow> LibGetSmbiosString_loop m (Smbios + unat l) 1 (unat StringNumber);
     Some (r, case new of None \<Rightarrow> Smbios | Some p \<Rightarrow> p) }"

lemma below_u16: "i < unat (w :: u16) \<Longrightarrow> i < 65536"
  using unat_bounds(2) [of w] by simp

text \<open>
  The loop over the structures, from \<open>Index\<close> on: \<open>TableLength\<close> is at 0x16 of the entry point. A \<open>continue\<close>
  goes on with the same structure. The result is the status, the memory and the stored serial number.
\<close>

function smbios_loop ::
  "mem \<Rightarrow> addr \<Rightarrow> addr \<Rightarrow> addr \<Rightarrow> addr \<Rightarrow> nat \<Rightarrow> (u64 \<times> mem \<times> addr option) option" where
  "smbios_loop m SystemGuid SmbiosTable Smbios SmbiosEnd Index =
     (case rd16 m (SmbiosTable + 0x16) of
        None \<Rightarrow> None
      | Some TableLength \<Rightarrow>
          if Index < unat TableLength then do {
            t \<leftarrow> rd8 m Smbios;
            if t = 1 then do {
              l \<leftarrow> rd8 m (Smbios + 1);
              if l < 0x19 then smbios_loop m SystemGuid SmbiosTable Smbios SmbiosEnd (Index + 1)
              else do {
                m \<leftarrow> CopyMem_1 m SystemGuid (Smbios + 8) 16;
                n \<leftarrow> rd8 m (Smbios + 7);
                (r, _) \<leftarrow> LibGetSmbiosString m Smbios (ucast n);
                Some (EFI_SUCCESS, m, Some r) } }
            else do {
              (_, Smbios) \<leftarrow> LibGetSmbiosString m Smbios (- 1);
              if SmbiosEnd \<le> Smbios then Some (EFI_SUCCESS, m, None)
              else smbios_loop m SystemGuid SmbiosTable Smbios SmbiosEnd (Index + 1) } }
          else Some (EFI_SUCCESS, m, None))"
  by pat_completeness auto
termination
  by (relation "measure (\<lambda>(m, g, t, p, e, i). 2 ^ 16 - i)") (auto dest: below_u16)

declare smbios_loop.simps [simp del]

definition LibGetSmbiosSystemGuidAndSerialNumber ::
  "mem \<Rightarrow> addr \<Rightarrow> nat \<Rightarrow> addr \<Rightarrow> addr \<Rightarrow> (u64 \<times> mem \<times> addr option) option" where
  "LibGetSmbiosSystemGuidAndSerialNumber m ConfigurationTable NumberOfTableEntries SMBIOSTableGuid SystemGuid = do {
     (Status, t) \<leftarrow> LibGetSystemConfigurationTable m ConfigurationTable NumberOfTableEntries SMBIOSTableGuid;
     if EFI_ERROR Status then Some (EFI_NOT_FOUND, m, None)
     else do {
       SmbiosTable \<leftarrow> map_option unat t;
       TableAddress \<leftarrow> rd32 m (SmbiosTable + 0x18);
       TableLength \<leftarrow> rd16 m (SmbiosTable + 0x16);
       smbios_loop m SystemGuid SmbiosTable (unat TableAddress)
         (unat TableAddress + unat TableLength) 0 } }"

subsection \<open>Encoded structures\<close>

text \<open>Type, the formatted section behind the length byte, and the strings.\<close>

type_synonym smbios = "u8 \<times> u8 list \<times> u8 list list"

definition enc_strings :: "u8 list list \<Rightarrow> u8 list" where
  "enc_strings ss = (if ss = [] then [0] else concat (map (\<lambda>s. s @ [0]) ss)) @ [0]"

definition enc_smbios :: "smbios \<Rightarrow> u8 list" where
  "enc_smbios x = (case x of (t, rest, ss) \<Rightarrow>
     [t, word_of_nat (2 + length rest)] @ rest @ enc_strings ss)"

definition smbios_ok :: "smbios \<Rightarrow> bool" where
  "smbios_ok x \<longleftrightarrow> (case x of (t, rest, ss) \<Rightarrow>
     2 \<le> length rest \<and> length rest < 254 \<and> length ss < 65535 \<and> (\<forall>s \<in> List.set ss. s \<noteq> [] \<and> 0 \<notin> List.set s))"

lemma skip_string_eq:
  "bytes_at m p (s @ [0]) \<Longrightarrow> 0 \<notin> List.set s \<Longrightarrow> skip_string m p = Some (p + length s)"
proof (induction s arbitrary: p)
  case Nil
  then show ?case by (simp add: skip_string.simps [of m p] bytes_at_Cons)
next
  case (Cons c s)
  then show ?case by (simp add: skip_string.simps [of m p] bytes_at_Cons)
qed

text \<open>Skipping the first of several strings, and the last one with the empty string behind it.\<close>

lemma strings_step:
  assumes "bytes_at m p (s @ [0] @ c # r)" "0 \<notin> List.set s" "i < n"
  shows "LibGetSmbiosString_loop m p i n =
    (if c = 0 then Some (0, Some (p + length s + 2))
     else LibGetSmbiosString_loop m (p + length s + 1) (i + 1) n)"
proof -
  have "skip_string m p = Some (p + length s)"
  proof (rule skip_string_eq)
    have "bytes_at m p ((s @ [0]) @ c # r)" using assms(1) by simp
    then show "bytes_at m p (s @ [0])" by (simp only: bytes_at_append)
  qed (rule assms(2))
  moreover have "rd8 m (p + length s + 1) = Some c"
    using assms(1) by (simp add: bytes_at_append bytes_at_Cons)
  ultimately show ?thesis using assms(3) by (simp add: LibGetSmbiosString_loop.simps [of m p])
qed

lemma strings_skip_all:
  assumes "bytes_at m p (concat (map (\<lambda>s. s @ [0]) ss) @ [0])" "ss \<noteq> []"
    "\<forall>s \<in> List.set ss. s \<noteq> [] \<and> 0 \<notin> List.set s" "i + length ss \<le> n"
  shows "LibGetSmbiosString_loop m p i n =
    Some (0, Some (p + length (concat (map (\<lambda>s. s @ [0]) ss)) + 1))"
  using assms
proof (induction ss arbitrary: p i)
  case (Cons s ss)
  show ?case
  proof (cases ss)
    case Nil
    then show ?thesis using strings_step [of m p s 0 "[]" i n] Cons.prems by simp
  next
    case (Cons s' ss')
    obtain c r where s': "s' = c # r" "c \<noteq> 0" using Cons.prems(3) Cons by (cases s') auto
    have "LibGetSmbiosString_loop m p i n = LibGetSmbiosString_loop m (p + length s + 1) (i + 1) n"
      using strings_step [of m p s c "r @ [0] @ concat (map (\<lambda>s. s @ [0]) ss') @ [0]" i n] Cons.prems
      by (simp add: Cons s')
    also have "bytes_at m (p + length s + 1) (concat (map (\<lambda>s. s @ [0]) ss) @ [0])"
      using Cons.prems(1) by (simp add: bytes_at_append bytes_at_Cons add.assoc)
    note Cons.IH [OF this]
    finally show ?thesis using Cons.prems Cons by simp
  qed
qed simp

lemma strings_find:
  assumes "bytes_at m p (concat (map (\<lambda>s. s @ [0]) (as @ s # bs)) @ [0])"
    "\<forall>s \<in> List.set (as @ s # bs). s \<noteq> [] \<and> 0 \<notin> List.set s"
  shows "LibGetSmbiosString_loop m p i (i + length as) =
    Some (p + length (concat (map (\<lambda>s. s @ [0]) as)), None)"
  using assms
proof (induction as arbitrary: p i)
  case Nil
  then show ?case by (simp add: LibGetSmbiosString_loop.simps [of m p])
next
  case (Cons a as)
  obtain c r where "concat (map (\<lambda>s. s @ [0]) (as @ s # bs)) @ [0] = c # r" "c \<noteq> 0"
    using Cons.prems(2) by (cases "hd (as @ s # bs)"; cases as) auto
  moreover have b: "bytes_at m p (a @ [0] @ concat (map (\<lambda>s. s @ [0]) (as @ s # bs)) @ [0])"
    using Cons.prems(1) by simp
  ultimately have "LibGetSmbiosString_loop m p i (i + length (a # as)) =
      LibGetSmbiosString_loop m (p + length a + 1) (i + 1) (i + length (a # as))"
    using strings_step [of m p a c r i "i + length (a # as)"] Cons.prems(2) by simp
  also have "\<dots> = Some (p + length a + 1 + length (concat (map (\<lambda>s. s @ [0]) as)), None)"
    using Cons.IH [of "p + length a + 1" "i + 1"] Cons.prems(2) b
    by (simp add: bytes_at_append bytes_at_Cons add.assoc)
  finally show ?case by simp
qed

subsection \<open>One structure\<close>

lemma smbios_parts:
  assumes "smbios_ok (t, rest, ss)" "bytes_at m p (enc_smbios (t, rest, ss))"
  shows "rd8 m p = Some t" "rd8 m (p + 1) = Some (word_of_nat (2 + length rest))"
    "unat (word_of_nat (2 + length rest) :: u8) = 2 + length rest"
    "bytes_at m (p + 2) rest" "bytes_at m (p + (2 + length rest)) (enc_strings ss)"
  using assms unat_word_of_nat(1) [of "2 + length rest"]
  by (simp_all add: enc_smbios_def smbios_ok_def bytes_at_append bytes_at_Cons add.assoc numeral_2_eq_2)

lemma smbios_next:
  assumes ok: "smbios_ok x" and b: "bytes_at m p (enc_smbios x)"
  shows "LibGetSmbiosString m p (- 1) = Some (0, p + length (enc_smbios x))"
proof -
  obtain t rest ss where x: "x = (t, rest, ss)" by (metis prod_cases3)
  note r = smbios_parts [OF ok [unfolded x] b [unfolded x]]
  have "LibGetSmbiosString_loop m (p + (2 + length rest)) 1 65535 = Some (0, Some (p + length (enc_smbios x)))"
  proof (cases "ss = []")
    case True
    then show ?thesis using strings_step [of m "p + (2 + length rest)" "[]" 0 "[]" 1 65535] r(5)
      by (simp add: enc_strings_def x enc_smbios_def)
  next
    case False
    then show ?thesis
      using strings_skip_all [of m "p + (2 + length rest)" ss 1 65535] r(5) ok
      by (simp add: enc_strings_def x enc_smbios_def smbios_ok_def)
  qed
  moreover have "unat (- 1 :: u16) = 65535"
    by (simp add: unsigned_minus_1_eq_mask mask_eq_exp_minus_1)
  ultimately show ?thesis using r(2,3) by (simp add: LibGetSmbiosString_def)
qed

text \<open>The string with a number: 0 means that there is none.\<close>

lemma smbios_string:
  assumes ok: "smbios_ok (t, rest, ss)" and b: "bytes_at m p (enc_smbios (t, rest, ss))"
    and k: "unat k \<le> length ss"
  shows "\<exists>r. LibGetSmbiosString m p (ucast (k :: u8)) = Some (r, p) \<and>
    (if k = 0 then r = 0 else bytes_at m r (ss ! (unat k - 1) @ [0]))"
proof -
  note r = smbios_parts [OF ok b]
  have u: "unat (ucast k :: u16) = unat k" by (rule unat_ucast_widen)
  let ?p = "p + (2 + length rest)"
  show ?thesis
  proof (cases "k = 0")
    case True
    then show ?thesis using r(2) u
      by (simp add: LibGetSmbiosString_def LibGetSmbiosString_loop.simps [of m])
  next
    case False
    then have k1: "0 < unat k" by (simp add: unat_gt_0)
    have "ss = take (unat k - 1) ss @ ss ! (unat k - 1) # drop (Suc (unat k - 1)) ss"
      using k k1 by (intro id_take_nth_drop) simp
    then obtain as s bs where ss: "ss = as @ s # bs" "length as = unat k - 1" "ss ! (unat k - 1) = s"
      using k k1 by (metis length_take min.absorb2 diff_le_self le_trans)
    let ?e = "\<lambda>xs. concat (map (\<lambda>s. s @ [0 :: u8]) xs)"
    have e: "bytes_at m ?p (?e (as @ s # bs) @ [0])"
      using r(5) ss(1) by (simp add: enc_strings_def)
    have "?e (as @ s # bs) @ [0] = ?e as @ (s @ [0]) @ ?e bs @ [0]" by simp
    with e have "bytes_at m (?p + length (?e as)) (s @ [0])" by (simp only: bytes_at_append)
    then have "bytes_at m (?p + length (?e as)) (ss ! (unat k - 1) @ [0])" by (simp only: ss(3))
    moreover have "LibGetSmbiosString_loop m ?p 1 (unat k) = Some (?p + length (?e as), None)"
      using strings_find [OF e, of 1] ok k1 ss(2) by (simp add: smbios_ok_def ss(1))
    ultimately show ?thesis using r(2,3) u False by (simp add: LibGetSmbiosString_def)
  qed
qed

subsection \<open>The walk\<close>

lemma smbios_loop_stuck:
  assumes "rd16 m (T + 0x16) = Some len" "rd8 m p = Some 1" "rd8 m (p + 1) = Some l" "l < 0x19"
  shows "smbios_loop m G T p e i = Some (EFI_SUCCESS, m, None)"
proof (induction "unat len - i" arbitrary: i)
  case 0
  then show ?case using assms by (simp add: smbios_loop.simps [of m])
next
  case (Suc n)
  have "smbios_loop m G T p e (i + 1) = Some (EFI_SUCCESS, m, None)" by (rule Suc.hyps) (use Suc in simp)
  then show ?case using assms by (simp add: smbios_loop.simps [of m _ _ _ _ i])
qed

lemma smbios_loop_skips:
  assumes "rd16 m (T + 0x16) = Some len" "\<forall>x \<in> List.set as. smbios_ok x \<and> fst x \<noteq> 1"
    "bytes_at m p (concat (map enc_smbios as))" "i + length as \<le> unat len" "p + length (concat (map enc_smbios as)) < e"
  shows "smbios_loop m G T p e i =
    smbios_loop m G T (p + length (concat (map enc_smbios as))) e (i + length as)"
  using assms
proof (induction as arbitrary: p i)
  case (Cons x as)
  have b: "bytes_at m p (enc_smbios x)" "bytes_at m (p + length (enc_smbios x)) (concat (map enc_smbios as))"
    using Cons.prems(3) by (simp_all add: bytes_at_append)
  have ok: "smbios_ok x" "fst x \<noteq> 1" using Cons.prems(2) by simp_all
  have "rd8 m p = Some (fst x)" using smbios_parts(1) [of "fst x" "fst (snd x)" "snd (snd x)"] ok b by simp
  then have "smbios_loop m G T p e i = smbios_loop m G T (p + length (enc_smbios x)) e (i + 1)"
    using Cons.prems smbios_next [OF ok(1) b(1)] ok(2) by (simp add: smbios_loop.simps [of m _ _ p _ i])
  also have "\<dots> = smbios_loop m G T (p + length (enc_smbios x) + length (concat (map enc_smbios as))) e
      (i + 1 + length as)"
    by (rule Cons.IH) (use Cons.prems b(2) in simp_all)
  finally show ?case by (simp add: add.assoc)
qed simp

lemma smbios_loop_none:
  assumes "rd16 m (T + 0x16) = Some len" "\<forall>x \<in> List.set as. smbios_ok x \<and> fst x \<noteq> 1"
    "bytes_at m p (concat (map enc_smbios as))" "i + length as \<le> unat len" "as \<noteq> []"
  shows "smbios_loop m G T p (p + length (concat (map enc_smbios as))) i = Some (EFI_SUCCESS, m, None)"
proof -
  obtain bs x where as: "as = bs @ [x]" using assms(5) by (metis rev_exhaust)
  let ?q = "p + length (concat (map enc_smbios bs))" and ?e = "p + length (concat (map enc_smbios as))"
  have b: "bytes_at m p (concat (map enc_smbios bs))" "bytes_at m ?q (enc_smbios x)"
    using assms(3) as by (simp_all add: bytes_at_append)
  have ok: "smbios_ok x" "fst x \<noteq> 1" using assms(2) as by simp_all
  have "?q < ?e" by (cases x) (simp add: as enc_smbios_def)
  then have "smbios_loop m G T p ?e i = smbios_loop m G T ?q ?e (i + length bs)"
    using assms as b(1) by (intro smbios_loop_skips) auto
  moreover have "rd8 m ?q = Some (fst x)"
    using smbios_parts(1) [of "fst x" "fst (snd x)" "snd (snd x)"] ok b by simp
  then have "smbios_loop m G T ?q ?e (i + length bs) = Some (EFI_SUCCESS, m, None)"
    using smbios_next [OF ok(1) b(2)] ok assms(1,4) as by (simp add: smbios_loop.simps [of m _ _ ?q])
  ultimately show ?thesis by simp
qed

text \<open>The structure the walk finds.\<close>

lemma region_within: "k + n \<le> l \<Longrightarrow> region m (p + k) n = take n (drop k (region m p l))"
  by (simp add: region_def drop_take min_def add.commute)

lemma bytes_at_nth: "bytes_at m p bs \<Longrightarrow> i < length bs \<Longrightarrow> rd8 m (p + i) = Some (bs ! i)"
  using bytes_at_region [of m p bs] bytes_at_mapped [of m p bs] nth_take [of i "length bs" "drop p m"]
  by (simp add: rd8_def region_def mapped_def)

lemma smbios_loop_finds:
  assumes "rd16 m (T + 0x16) = Some len" "\<forall>x \<in> List.set as. smbios_ok x \<and> fst x \<noteq> 1"
    "smbios_ok (1, rest, ss)" "bytes_at m p (concat (map enc_smbios (as @ (1, rest, ss) # bs)))"
    "length as < unat len" "mapped m G 16"
    "disjoint_ranges G 16 p (length (concat (map enc_smbios (as @ (1, rest, ss) # bs))))"
  shows "if length rest < 0x17
    then smbios_loop m G T p (p + length (concat (map enc_smbios (as @ (1, rest, ss) # bs)))) 0 =
      Some (EFI_SUCCESS, m, None)
    else unat (rest ! 5) \<le> length ss \<longrightarrow>
      (\<exists>m' r. smbios_loop m G T p (p + length (concat (map enc_smbios (as @ (1, rest, ss) # bs)))) 0 =
         Some (EFI_SUCCESS, m', Some r) \<and> m' = overwrite m G (take 16 (drop 6 rest)) \<and>
         (if rest ! 5 = 0 then r = 0 else bytes_at m' r (ss ! (unat (rest ! 5) - 1) @ [0])))"
proof -
  let ?x = "(1 :: u8, rest, ss)" and ?q = "p + length (concat (map enc_smbios as))"
  let ?e = "p + length (concat (map enc_smbios (as @ ?x # bs)))"
  have b: "bytes_at m p (concat (map enc_smbios as))" "bytes_at m ?q (enc_smbios ?x)"
    using assms(4) by (simp_all add: bytes_at_append)
  have x: "0 < length (enc_smbios ?x)" by (simp add: enc_smbios_def)
  have skip: "smbios_loop m G T p ?e 0 = smbios_loop m G T ?q ?e (length as)"
    using smbios_loop_skips [OF assms(1,2) b(1), of 0 ?e G] assms(5) x by simp
  note r = smbios_parts [OF assms(3) b(2)]
  have short: "(word_of_nat (2 + length rest) :: u8) < 0x19 \<longleftrightarrow> length rest < 0x17"
    using r(3) by (simp add: word_less_nat_alt)
  show ?thesis
  proof (cases "length rest < 0x17")
    case True
    then show ?thesis using smbios_loop_stuck [OF assms(1) r(1,2)] short skip by simp
  next
    case False
    let ?d = "take 16 (drop 6 rest)" and ?m = "overwrite m G (take 16 (drop 6 rest))"
    have l: "length ?d = 16" using False by simp
    have mq: "mapped m (?q + 8) 16"
      using bytes_at_mapped [OF r(4)] False by (auto simp: mapped_def)
    have "region m (?q + 8) 16 = ?d"
      using region_within [of 6 16 "length rest" m "?q + 2"] bytes_at_region [OF r(4)] False
      by (simp add: add.assoc)
    then have copy: "CopyMem_1 m G (?q + 8) 16 = Some ?m"
      using RtCopyMem_eq [OF assms(6) mq] by (simp add: CopyMem_1_def)
    have "disjoint_ranges ?q (length (enc_smbios ?x)) G (length ?d)"
      using assms(7) unfolding l by (auto simp: disjoint_ranges_def)
    then have b': "bytes_at ?m ?q (enc_smbios ?x)"
      using b(2) assms(6) l by (simp add: bytes_at_overwrite_disjoint mapped_def)
    have n: "rd8 ?m (?q + 7) = Some (rest ! 5)"
      using bytes_at_nth [OF smbios_parts(4) [OF assms(3) b'], of 5] False by (simp add: add.assoc)
    have long: "\<not> (word_of_nat (2 + length rest) :: u8) < 0x19" using short False by simp
    show ?thesis
    proof (intro if_not_P [THEN iffD2] False impI)
      assume "unat (rest ! 5) \<le> length ss"
      from smbios_string [OF assms(3) b' this]
      obtain a where "LibGetSmbiosString ?m ?q (ucast (rest ! 5)) = Some (a, ?q)"
        "if rest ! 5 = 0 then a = 0 else bytes_at ?m a (ss ! (unat (rest ! 5) - 1) @ [0])" by blast
      moreover from this(1) have "smbios_loop m G T ?q ?e (length as) = Some (EFI_SUCCESS, ?m, Some a)"
        using assms(1,5) r(1,2) long copy n by (simp add: smbios_loop.simps [of m _ _ ?q])
      ultimately show "\<exists>m' r. smbios_loop m G T p ?e 0 = Some (EFI_SUCCESS, m', Some r) \<and> m' = ?m \<and>
        (if rest ! 5 = 0 then r = 0 else bytes_at m' r (ss ! (unat (rest ! 5) - 1) @ [0]))"
        using skip by metis
    qed
  qed
qed

lemma length_enc_smbios: "0 < length (enc_smbios x)"
  by (cases x) (simp add: enc_smbios_def)

lemma length_structures: "length xs \<le> length (concat (map enc_smbios xs))"
proof (induction xs)
  case (Cons x xs)
  then show ?case using length_enc_smbios [of x] by (simp del: length_greater_0_conv)
qed simp

subsection \<open>Property\<close>

text \<open>C33. On a well-formed table \<open>LibGetSmbiosSystemGuidAndSerialNumber\<close> ends with success and works
  with the first structure of type 1. If that has the GUID, it is copied to the caller and the serial
  number is the string the structure names (NULL for number 0). If it is an older, shorter one, or if
  there is none, the status is success all the same, but nothing is stored, even when a later
  structure of type 1 has a GUID.\<close>

theorem LibGetSmbiosSystemGuidAndSerialNumber_finds:
  assumes "LibGetSystemConfigurationTable m CT n SMBIOSTableGuid = Some (EFI_SUCCESS, Some (word_of_nat T))"
    "T < 2 ^ 64" "rd32 m (T + 0x18) = Some (word_of_nat p)" "p < 2 ^ 32"
    "rd16 m (T + 0x16) = Some (word_of_nat (length (concat (map enc_smbios xs))))"
    "length (concat (map enc_smbios xs)) < 2 ^ 16"
    "bytes_at m p (concat (map enc_smbios xs))" "\<forall>x \<in> List.set xs. smbios_ok x" "xs \<noteq> []"
    "mapped m G 16" "disjoint_ranges G 16 p (length (concat (map enc_smbios xs)))"
  shows "case dropWhile (\<lambda>x. fst x \<noteq> 1) xs of
      [] \<Rightarrow> LibGetSmbiosSystemGuidAndSerialNumber m CT n SMBIOSTableGuid G = Some (EFI_SUCCESS, m, None)
    | (t, rest, ss) # bs \<Rightarrow>
        if length rest < 0x17
        then LibGetSmbiosSystemGuidAndSerialNumber m CT n SMBIOSTableGuid G = Some (EFI_SUCCESS, m, None)
        else unat (rest ! 5) \<le> length ss \<longrightarrow>
          (\<exists>m' r. LibGetSmbiosSystemGuidAndSerialNumber m CT n SMBIOSTableGuid G = Some (EFI_SUCCESS, m', Some r) \<and>
             m' = overwrite m G (take 16 (drop 6 rest)) \<and>
             (if rest ! 5 = 0 then r = 0 else bytes_at m' r (ss ! (unat (rest ! 5) - 1) @ [0])))"
proof -
  let ?n = "length (concat (map enc_smbios xs))" and ?as = "takeWhile (\<lambda>x. fst x \<noteq> 1) xs"
  have u: "unat (word_of_nat T :: u64) = T" "unat (word_of_nat p :: u32) = p" "unat (word_of_nat ?n :: u16) = ?n"
    using assms(2,4,6) unat_word_of_nat by simp_all
  have run: "LibGetSmbiosSystemGuidAndSerialNumber m CT n SMBIOSTableGuid G = smbios_loop m G T p (p + ?n) 0"
    using assms(1,3,5) u by (simp add: LibGetSmbiosSystemGuidAndSerialNumber_def)
  have as: "\<forall>x \<in> List.set ?as. smbios_ok x \<and> fst x \<noteq> 1"
    using assms(8) by (auto dest: set_takeWhileD)
  show ?thesis
  proof (cases "dropWhile (\<lambda>x. fst x \<noteq> 1) xs")
    case Nil
    then have all: "?as = xs" by (metis takeWhile_dropWhile_id append_Nil2)
    have "smbios_loop m G T p (p + ?n) 0 = Some (EFI_SUCCESS, m, None)"
      using smbios_loop_none [of m T _ xs p 0 G] assms(5,7,9) as [unfolded all] u(3)
        length_structures [of xs] by simp
    then show ?thesis unfolding Nil run by simp
  next
    case (Cons x bs)
    obtain t rest ss where x: "x = (t, rest, ss)" by (metis prod_cases3)
    have "t = 1" using hd_dropWhile [of "\<lambda>x. fst x \<noteq> 1" xs] Cons x by simp
    moreover have "xs = ?as @ x # bs" using takeWhile_dropWhile_id [of "\<lambda>x. fst x \<noteq> 1" xs] Cons by simp
    ultimately obtain as where xs: "xs = as @ (1, rest, ss) # bs" and
      as: "\<forall>x \<in> List.set as. smbios_ok x \<and> fst x \<noteq> 1"
      using x as by blast
    have "length xs = length as + 1 + length bs" by (simp add: xs)
    then have "length as < ?n" using length_structures [of xs] by linarith
    moreover have "smbios_ok (1, rest, ss)" using assms(8) by (simp add: xs)
    ultimately show ?thesis
      using smbios_loop_finds [of m T "word_of_nat ?n" as rest ss p bs G, folded xs] assms(5,7,10,11) as u(3) Cons x
      unfolding run by simp
  qed
qed

text \<open>A table with two structures; the second is of type 1 with the serial number "AB".\<close>

definition demo_structures :: "smbios list" where
  "demo_structures = [(0, [0, 0], []), (1, [0, 0, 0, 0, 0, 1, 1, 2, 3, 4, 5, 6, 7, 8, 9, 10, 11, 12, 13, 14, 15, 16, 6],
     [[65, 66]])]"

definition demo_smbios :: mem where
  "demo_smbios = [0] @ replicate 16 7 @ le_bytes 8 (41 :: u64) @ replicate 16 7 @ replicate 22 0 @
     le_bytes 2 (35 :: u16) @ le_bytes 4 (72 :: u32) @ replicate 3 0 @
     concat (map enc_smbios demo_structures) @ replicate 16 0"

theorem LibGetSmbiosSystemGuidAndSerialNumber_finds_witness:
  "\<exists>m r. LibGetSmbiosSystemGuidAndSerialNumber demo_smbios 1 1 25 107 = Some (EFI_SUCCESS, m, Some r) \<and>
    m = overwrite demo_smbios 107 [1, 2, 3, 4, 5, 6, 7, 8, 9, 10, 11, 12, 13, 14, 15, 16] \<and>
    bytes_at m r [65, 66, 0]"
proof -
  let ?xs = "demo_structures"
  have len: "length (concat (map enc_smbios ?xs)) = 35" "length demo_smbios = 123" by code_simp+
  have 1: "LibGetSystemConfigurationTable demo_smbios 1 1 25 = Some (EFI_SUCCESS, Some (word_of_nat 41))"
  proof -
    have "region demo_smbios 1 16 = replicate 16 7" "region demo_smbios 25 16 = replicate 16 7"
      "rd64 demo_smbios 17 = Some 41" by code_simp+
    then show ?thesis
      by (simp add: LibGetSystemConfigurationTable_def LibGetSystemConfigurationTable_loop.simps
          CompareGuid_1_def RtCompareGuid_eq mapped_def len(2))
  qed
  have 2: "rd32 demo_smbios (41 + 0x18) = Some (word_of_nat 72)" by code_simp
  have 3: "rd16 demo_smbios (41 + 0x16) = Some (word_of_nat 35)" by code_simp
  have 4: "bytes_at demo_smbios 72 (concat (map enc_smbios ?xs))" by code_simp
  have 5: "\<forall>x \<in> List.set ?xs. smbios_ok x" "?xs \<noteq> []"
    by (simp_all add: demo_structures_def smbios_ok_def)
  have 6: "mapped demo_smbios 107 16" "disjoint_ranges 107 16 72 35"
    by (simp_all add: mapped_def disjoint_ranges_def len(2))
  show ?thesis
    using LibGetSmbiosSystemGuidAndSerialNumber_finds [of demo_smbios 1 1 25 41 72 ?xs 107] 1 2 3 4 5 6
    by (simp add: len(1)) (simp add: demo_structures_def)
qed

end
