(* ===== verification/CmdLine.thy ===== *)
theory CmdLine
  imports Pool
begin

text \<open>
  lib/cmdline.c: the command line as \<open>argc\<close> and \<open>argv\<close>, from the shell's protocols or, without a shell,
  by splitting the load options of the image.

  \<open>ArgvContents\<close> (1024 characters) and \<open>Argv\<close> (32 pointers) are the two static arrays, by their
  addresses. \<open>OpenProtocol\<close> is the service of the firmware, for a handle and a protocol; it gives the
  interface when it stores one.
\<close>

subsection \<open>Operations\<close>

text \<open>The loop over the characters: the memory with \<open>ArgStart\<close> and \<open>Argc\<close>. A space is 32.\<close>

partial_function (option) argv_loop ::
  "mem \<Rightarrow> addr \<Rightarrow> addr \<Rightarrow> addr \<Rightarrow> nat \<Rightarrow> (mem \<times> addr \<times> nat) option" where
  "argv_loop m Argv ArgStart c Argc = do {
     ch \<leftarrow> rd16 m c;
     if ch \<noteq> 0 then
       if ch = 32 then do {
         m \<leftarrow> wr16 m c 0;
         (m, Argc) \<leftarrow> (if Argc < 32
           then map_option (\<lambda>m. (m, Argc + 1)) (wr64 m (Argv + 8 * Argc) (word_of_nat ArgStart))
           else Some (m, Argc));
         argv_loop m Argv (c + 2) (c + 2) Argc }
       else argv_loop m Argv ArgStart (c + 2) Argc
     else Some (m, ArgStart, Argc) }"

text \<open>The loop with the last argument, which is stored only if it is not empty.\<close>

definition argv_split :: "mem \<Rightarrow> addr \<Rightarrow> addr \<Rightarrow> addr \<Rightarrow> nat \<Rightarrow> (mem \<times> nat) option" where
  "argv_split m Argv ArgStart c Argc = do {
     (m, ArgStart, Argc) \<leftarrow> argv_loop m Argv ArgStart c Argc;
     ch \<leftarrow> rd16 m ArgStart;
     if ch \<noteq> 0 \<and> Argc < 32
     then map_option (\<lambda>m. (m, Argc + 1)) (wr64 m (Argv + 8 * Argc) (word_of_nat ArgStart))
     else Some (m, Argc) }"

text \<open>
  \<open>LoadOptionsSize\<close> is at 48 of \<open>EFI_LOADED_IMAGE\<close> and \<open>LoadOptions\<close> at 56. The result is the count
  (or -1) with \<open>*ResultArgv\<close> where it is set.
\<close>

definition GetShellArgcArgvFromLoadedImage ::
  "(addr \<Rightarrow> addr \<Rightarrow> 'w st \<Rightarrow> u64 \<times> addr option \<times> 'w st) \<Rightarrow> addr \<Rightarrow> addr \<Rightarrow> addr \<Rightarrow> addr \<Rightarrow> 'w st \<Rightarrow>
   (int \<times> addr option \<times> 'w st) option" where
  "GetShellArgcArgvFromLoadedImage OpenProtocol LoadedImageProtocol ArgvContents Argv ImageHandle s =
     (case OpenProtocol ImageHandle LoadedImageProtocol s of
        (Status, i, s) \<Rightarrow>
          if EFI_ERROR Status then Some (- 1, None, s)
          else do {
            let LoadedImage = (case i of None \<Rightarrow> 0 | Some p \<Rightarrow> p);
            l \<leftarrow> rd32 (ram s) (LoadedImage + 48);
            let BufLen = unat l;
            if BufLen < 2 then Some (- 1, None, s)
            else do {
              let BufLen = (if 2048 < BufLen then 2048 else BufLen);
              LoadOptions \<leftarrow> rd64 (ram s) (LoadedImage + 56);
              m \<leftarrow> CopyMem_1 (ram s) ArgvContents (unat LoadOptions) BufLen;
              m \<leftarrow> wr16 m (ArgvContents + 2 * 1023) 0;
              (m, Argc) \<leftarrow> argv_split m Argv ArgvContents ArgvContents 0;
              Some (int Argc, Some Argv, with_ram s m) } })"

text \<open>
  \<open>EFI_SHELL_PARAMETERS_PROTOCOL\<close> has \<open>Argv\<close> at 0 and \<open>Argc\<close> at 8, \<open>EFI_SHELL_INTERFACE\<close> at 16 and 24.
\<close>

definition GetShellArgcArgv ::
  "(addr \<Rightarrow> addr \<Rightarrow> 'w st \<Rightarrow> u64 \<times> addr option \<times> 'w st) \<Rightarrow> addr \<Rightarrow> addr \<Rightarrow> addr \<Rightarrow> addr \<Rightarrow> addr \<Rightarrow> addr \<Rightarrow> 'w st \<Rightarrow>
   (int \<times> addr option \<times> 'w st) option" where
  "GetShellArgcArgv OpenProtocol ShellParametersProtocolGuid ShellInterfaceProtocolGuid LoadedImageProtocol
     ArgvContents Argv ImageHandle s =
     (case OpenProtocol ImageHandle ShellParametersProtocolGuid s of
        (Status, i, s) \<Rightarrow>
          if \<not> EFI_ERROR Status then do {
            p \<leftarrow> i;
            v \<leftarrow> rd64 (ram s) p;
            n \<leftarrow> rd64 (ram s) (p + 8);
            Some (sint n, Some (unat v), s) }
          else (case OpenProtocol ImageHandle ShellInterfaceProtocolGuid s of
            (Status, i, s) \<Rightarrow>
              if \<not> EFI_ERROR Status then do {
                p \<leftarrow> i;
                v \<leftarrow> rd64 (ram s) (p + 16);
                n \<leftarrow> rd64 (ram s) (p + 24);
                Some (sint n, Some (unat v), s) }
              else GetShellArgcArgvFromLoadedImage OpenProtocol LoadedImageProtocol ArgvContents Argv
                     ImageHandle s))"

subsection \<open>What splitting means\<close>

text \<open>The arguments of a text, \<open>cur\<close> being the start of the first: each space ends one.\<close>

primrec split_args :: "u16 list \<Rightarrow> u16 list \<Rightarrow> u16 list list" where
  "split_args cur [] = (if cur = [] then [] else [cur])"
| "split_args cur (c # t) = (if c = 32 then cur # split_args [] t else split_args (cur @ [c]) t)"

definition args_of :: "u16 list \<Rightarrow> u16 list list" where
  "args_of t = split_args [] t"

text \<open>A slot of \<open>Argv\<close> points to a string within a range.\<close>

definition points_to :: "mem \<Rightarrow> addr \<Rightarrow> addr \<Rightarrow> nat \<Rightarrow> u16 list \<Rightarrow> bool" where
  "points_to m slot p n x \<longleftrightarrow> (\<exists>q. rd64 m slot = Some (word_of_nat q) \<and> p \<le> q \<and>
     q + 2 * length x + 2 \<le> p + n \<and> str16_at m q x)"

text \<open>\<open>unchanged m m' p n q k\<close>: only the \<open>n\<close> bytes at \<open>p\<close> and the \<open>k\<close> bytes at \<open>q\<close> may differ.\<close>

definition unchanged :: "mem \<Rightarrow> mem \<Rightarrow> addr \<Rightarrow> nat \<Rightarrow> addr \<Rightarrow> nat \<Rightarrow> bool" where
  "unchanged m m' p n q k \<longleftrightarrow> length m' = length m \<and>
     (\<forall>j < length m. \<not> (p \<le> j \<and> j < p + n) \<and> \<not> (q \<le> j \<and> j < q + k) \<longrightarrow> m' ! j = m ! j)"

lemma unchanged_rd_bytes:
  assumes "unchanged m m' p n q k" "disjoint_ranges a l p n" "disjoint_ranges a l q k"
  shows "rd_bytes m' a l = rd_bytes m a l"
  using assms
  by (auto simp: unchanged_def rd_bytes_def mapped_def disjoint_ranges_def region_def intro!: nth_equalityI)

lemma unchanged_trans:
  "unchanged m m1 p n q k \<Longrightarrow> unchanged m1 m2 p' n' q' k' \<Longrightarrow> p \<le> p' \<Longrightarrow> p' + n' \<le> p + n \<Longrightarrow>
   q \<le> q' \<Longrightarrow> q' + k' \<le> q + k \<Longrightarrow> unchanged m m2 p n q k"
  by (auto simp: unchanged_def)

lemma unchanged_overwrite:
  "mapped m a (length bs) \<Longrightarrow> p \<le> a \<and> a + length bs \<le> p + n \<or> q \<le> a \<and> a + length bs \<le> q + k \<Longrightarrow>
   unchanged m (overwrite m a bs) p n q k"
  by (auto simp: unchanged_def nth_overwrite mapped_def)

lemma unchanged_bytes_at:
  assumes "unchanged m m' p n q k" "disjoint_ranges a (length bs) p n" "disjoint_ranges a (length bs) q k"
  shows "bytes_at m' a bs = bytes_at m a bs"
  using unchanged_rd_bytes [OF assms] by (simp add: bytes_at_def)

subsection \<open>The loop\<close>

lemma argv_split_end:
  "rd16 m c = Some 0 \<Longrightarrow> argv_split m V A c n = do {
     ch \<leftarrow> rd16 m A;
     if ch \<noteq> 0 \<and> n < 32 then map_option (\<lambda>m. (m, n + 1)) (wr64 m (V + 8 * n) (word_of_nat A))
     else Some (m, n) }"
  by (simp add: argv_split_def argv_loop.simps [of m V A c])

lemma argv_split_char:
  "rd16 m c = Some ch \<Longrightarrow> ch \<noteq> 0 \<Longrightarrow> ch \<noteq> 32 \<Longrightarrow> argv_split m V A c n = argv_split m V A (c + 2) n"
  by (simp add: argv_split_def argv_loop.simps [of m V A c])

lemma argv_split_space:
  "rd16 m c = Some 32 \<Longrightarrow> wr16 m c 0 = Some m1 \<Longrightarrow>
   (if n < 32 then map_option (\<lambda>m. (m, n + 1)) (wr64 m1 (V + 8 * n) (word_of_nat A)) else Some (m1, n)) =
     Some (m2, n') \<Longrightarrow>
   argv_split m V A c n = argv_split m2 V (c + 2) (c + 2) n'"
  by (simp add: argv_split_def argv_loop.simps [of m V A c])

lemma store_slot:
  assumes "mapped m V 256" "n < 32"
  shows "\<exists>m'. wr64 m (V + 8 * n) w = Some m' \<and> rd64 m' (V + 8 * n) = Some w \<and>
    unchanged m m' (V + 8 * n) 8 q k"
proof -
  have m: "mapped m (V + 8 * n) (length (le_bytes 8 w))" using assms by (auto simp: mapped_def)
  then show ?thesis
    using rd_bytes_overwrite_same [OF m] unchanged_overwrite [OF m, of "V + 8 * n" 8 q k]
    by (auto simp: wr64_def wr_bytes_def rd64_def)
qed

lemma points_to_unchanged:
  assumes "points_to m slot p n x" "unchanged m m' a l q k"
    "disjoint_ranges slot 8 a l" "disjoint_ranges slot 8 q k"
    "disjoint_ranges p n a l" "disjoint_ranges p n q k"
  shows "points_to m' slot p n x"
proof -
  obtain r where r: "rd64 m slot = Some (word_of_nat r)" "p \<le> r" "r + 2 * length x + 2 \<le> p + n" "str16_at m r x"
    using assms(1) by (auto simp: points_to_def)
  have "rd64 m' slot = rd64 m slot"
    using unchanged_rd_bytes [OF assms(2-4)] by (simp add: rd64_def)
  moreover have "bytes_at m' r (enc16 (x @ [0])) = bytes_at m r (enc16 (x @ [0]))"
    by (rule unchanged_bytes_at [OF assms(2)]) (use assms(5,6) r(2,3) in \<open>auto simp: disjoint_ranges_def\<close>)
  ultimately show ?thesis using r by (auto simp: points_to_def str16_at_bytes)
qed

lemma points_to_mono:
  "points_to m slot p n x \<Longrightarrow> p' \<le> p \<Longrightarrow> p + n \<le> p' + n' \<Longrightarrow> points_to m slot p' n' x"
  by (force simp: points_to_def)

text \<open>The end of an argument: the space becomes a NUL and a free slot gets the address.\<close>

lemma end_of_argument:
  assumes b: "bytes_at m A (enc16 (cur @ 32 # t @ [0]))" "0 \<notin> List.set cur" and V: "mapped m V 256"
    and d: "disjoint_ranges V 256 A (2 * length (cur @ 32 # t) + 2)" and n: "n \<le> 32"
  shows "\<exists>m2 n'. argv_split m V A (A + 2 * length cur) n =
      argv_split m2 V (A + 2 * length cur + 2) (A + 2 * length cur + 2) n' \<and>
    n' = min 32 (n + 1) \<and> bytes_at m2 (A + 2 * length cur + 2) (enc16 (t @ [0])) \<and> mapped m2 V 256 \<and>
    unchanged m m2 (V + 8 * n) (8 * (32 - n)) A (2 * length cur + 2) \<and>
    (n < 32 \<longrightarrow> points_to m2 (V + 8 * n) A (2 * length cur + 2) cur)"
proof -
  let ?e = "A + 2 * length cur" and ?m1 = "overwrite m (A + 2 * length cur) (le_bytes 2 (0 :: u16))"
  have b3: "bytes_at m A (enc16 cur)" "bytes_at m ?e (le_bytes 2 (32 :: u16))"
    "bytes_at m (?e + 2) (enc16 (t @ [0]))"
    using b(1) by (simp_all add: bytes_at_append add.assoc)
  have r: "rd16 m ?e = Some 32" using bytes_at_words(1) [of m ?e 32 "[]"] b3(2) by simp
  have e: "mapped m ?e (length (le_bytes 2 (0 :: u16)))" using bytes_at_mapped [OF b3(2)] by simp
  then have w: "wr16 m ?e 0 = Some ?m1" by (simp add: wr16_def wr_bytes_def)
  have u1: "unchanged m ?m1 0 0 ?e 2" using unchanged_overwrite [OF e, of 0 0 ?e 2] by simp
  have "bytes_at ?m1 ?e (le_bytes 2 (0 :: u16))" by (rule bytes_at_overwrite [OF e])
  moreover have "bytes_at ?m1 A (enc16 cur)" "bytes_at ?m1 (?e + 2) (enc16 (t @ [0]))"
    using b3 unchanged_bytes_at [OF u1] by (simp_all add: disjoint_ranges_def)
  ultimately have b1: "bytes_at ?m1 A (enc16 (cur @ [0]))" "bytes_at ?m1 (?e + 2) (enc16 (t @ [0]))"
    by (simp_all add: bytes_at_append)
  have V1: "mapped ?m1 V 256" using V u1 by (simp add: mapped_def unchanged_def)
  show ?thesis
  proof (cases "n < 32")
    case False
    have "argv_split m V A ?e n = argv_split ?m1 V (?e + 2) (?e + 2) n"
      using argv_split_space [OF r w, of n V A ?m1 n] False by simp
    moreover have "unchanged m ?m1 (V + 8 * n) (8 * (32 - n)) A (2 * length cur + 2)"
      using u1 by (auto simp: unchanged_def)
    ultimately show ?thesis using b1(2) V1 False n by auto
  next
    case True
    obtain m2 where m2: "wr64 ?m1 (V + 8 * n) (word_of_nat A) = Some m2"
      "rd64 m2 (V + 8 * n) = Some (word_of_nat A)" "unchanged ?m1 m2 (V + 8 * n) 8 A 0"
      using store_slot [OF V1 True, of "word_of_nat A"] by metis
    have "argv_split m V A ?e n = argv_split m2 V (?e + 2) (?e + 2) (n + 1)"
      using argv_split_space [OF r w, of n V A m2 "n + 1"] True m2(1) by simp
    moreover have "bytes_at m2 (?e + 2) (enc16 (t @ [0]))" "bytes_at m2 A (enc16 (cur @ [0]))"
      using b1 d True unchanged_bytes_at [OF m2(3)] by (auto simp: disjoint_ranges_def)
    moreover from this(2) have "points_to m2 (V + 8 * n) A (2 * length cur + 2) cur"
      using m2(2) b(2) by (auto simp: points_to_def str16_at_bytes)
    moreover have "unchanged m m2 (V + 8 * n) (8 * (32 - n)) A (2 * length cur + 2)"
      using u1 m2(3) True by (auto simp: unchanged_def)
    moreover have "mapped m2 V 256" using V1 m2(3) by (simp add: mapped_def unchanged_def)
    ultimately show ?thesis using True by auto
  qed
qed

lemma argv_split_run:
  assumes "bytes_at m A (enc16 (cur @ t @ [0]))" "0 \<notin> List.set (cur @ t)" "mapped m V 256"
    "disjoint_ranges V 256 A (2 * length (cur @ t) + 2)" "n \<le> 32"
  shows "\<exists>m'. argv_split m V A (A + 2 * length cur) n = Some (m', min 32 (n + length (split_args cur t))) \<and>
    unchanged m m' (V + 8 * n) (8 * (32 - n)) A (2 * length (cur @ t) + 2) \<and>
    (\<forall>i < length (split_args cur t). n + i < 32 \<longrightarrow>
      points_to m' (V + 8 * (n + i)) A (2 * length (cur @ t) + 2) (split_args cur t ! i))"
  using assms
proof (induction t arbitrary: m A cur n)
  case Nil
  have b: "bytes_at m A (enc16 cur)" "bytes_at m (A + 2 * length cur) (le_bytes 2 (0 :: u16))"
    using Nil.prems(1) by (simp_all add: bytes_at_append)
  have c: "rd16 m (A + 2 * length cur) = Some 0" using bytes_at_words(1) [of m _ 0 "[]"] b(2) by simp
  show ?case
  proof (cases cur)
    case Nil
    then show ?thesis using c \<open>n \<le> 32\<close> by (simp add: argv_split_end unchanged_def)
  next
    case (Cons x xs)
    then have x: "rd16 m A = Some x" "x \<noteq> 0"
      using bytes_at_words(1) [of m A x "enc16 xs"] b(1) Nil.prems(2) by auto
    have st: "str16_at m A cur" using Nil.prems(1,2) by (simp add: str16_at_bytes)
    show ?thesis
    proof (cases "n < 32")
      case True
      obtain m' where m': "wr64 m (V + 8 * n) (word_of_nat A) = Some m'" "rd64 m' (V + 8 * n) = Some (word_of_nat A)"
        "unchanged m m' (V + 8 * n) 8 A (2 * length cur + 2)"
        "unchanged m m' (V + 8 * n) 8 A 0"
        using store_slot [OF Nil.prems(3) True, of "word_of_nat A"] by (metis option.inject)
      have "bytes_at m' A (enc16 (cur @ [0])) = bytes_at m A (enc16 (cur @ [0]))"
        by (rule unchanged_bytes_at [OF m'(4)]) (use Nil.prems(4) True in \<open>auto simp: disjoint_ranges_def\<close>)
      then have "str16_at m' A cur" using st by (simp add: str16_at_bytes)
      moreover have "unchanged m m' (V + 8 * n) (8 * (32 - n)) A (2 * length cur + 2)"
        using m'(3) True by (auto simp: unchanged_def)
      ultimately show ?thesis using c x m'(1,2) True Cons
        by (auto simp: argv_split_end points_to_def)
    next
      case False
      then show ?thesis using c x Cons \<open>n \<le> 32\<close> by (simp add: argv_split_end unchanged_def)
    qed
  qed
next
  case (Cons ch t)
  let ?e = "A + 2 * length cur"
  have ch: "ch \<noteq> 0" "bytes_at m ?e (le_bytes 2 ch)"
    using Cons.prems(1,2) by (simp_all add: bytes_at_append)
  have r: "rd16 m ?e = Some ch" using bytes_at_words(1) [of m ?e ch "[]"] ch(2) by simp
  show ?case
  proof (cases "ch = 32")
    case False
    show ?thesis
      using Cons.IH [of m A "cur @ [ch]" n] Cons.prems argv_split_char [OF r ch(1) False] False
      by (simp add: ac_simps)
  next
    case True
    let ?as = "split_args [] t" and ?l = "2 * length t + 2" and ?L = "2 * length (cur @ ch # t) + 2"
    have "bytes_at m A (enc16 (cur @ 32 # t @ [0]))" "0 \<notin> List.set cur"
      "disjoint_ranges V 256 A (2 * length (cur @ 32 # t) + 2)"
      using Cons.prems True by simp_all
    from end_of_argument [OF this(1,2) Cons.prems(3) this(3) Cons.prems(5)] obtain m2 n' where
      e: "argv_split m V A ?e n = argv_split m2 V (?e + 2) (?e + 2) n'" "n' = min 32 (n + 1)"
      "bytes_at m2 (?e + 2) (enc16 (t @ [0]))" "mapped m2 V 256"
      "unchanged m m2 (V + 8 * n) (8 * (32 - n)) A (2 * length cur + 2)"
      "n < 32 \<longrightarrow> points_to m2 (V + 8 * n) A (2 * length cur + 2) cur" by blast
    have d: "disjoint_ranges V 256 (?e + 2) ?l" using Cons.prems(4) by (auto simp: disjoint_ranges_def)
    obtain m' where m': "argv_split m2 V (?e + 2) (?e + 2) n' = Some (m', min 32 (n' + length ?as))"
      "unchanged m2 m' (V + 8 * n') (8 * (32 - n')) (?e + 2) ?l"
      "\<forall>i < length ?as. n' + i < 32 \<longrightarrow> points_to m' (V + 8 * (n' + i)) (?e + 2) ?l (?as ! i)"
      using Cons.IH [of m2 "?e + 2" "[]" n'] e(2-4) d Cons.prems(2) by auto
    have "min 32 (n' + length ?as) = min 32 (n + length (split_args cur (ch # t)))"
      using True e(2) Cons.prems(5) by auto
    moreover have "unchanged m m' (V + 8 * n) (8 * (32 - n)) A ?L"
    proof (rule unchanged_trans [OF _ m'(2)])
      show "unchanged m m2 (V + 8 * n) (8 * (32 - n)) A ?L" using e(5) by (auto simp: unchanged_def)
    qed (use e(2) Cons.prems(5) in auto)
    moreover have "points_to m' (V + 8 * (n + i)) A ?L (split_args cur (ch # t) ! i)"
      if i: "i < length (split_args cur (ch # t))" "n + i < 32" for i
    proof (cases i)
      case 0
      have "points_to m' (V + 8 * n) A (2 * length cur + 2) cur"
        by (rule points_to_unchanged [OF _ m'(2)])
          (use e(2,6) i 0 d Cons.prems(4) in \<open>auto simp: disjoint_ranges_def\<close>)
      then show ?thesis using 0 True by (auto elim: points_to_mono)
    next
      case (Suc j)
      then have "points_to m' (V + 8 * (n' + j)) (?e + 2) ?l (?as ! j)" "n' = n + 1"
        using m'(3) i True e(2) by auto
      then show ?thesis using Suc True by (auto elim!: points_to_mono)
    qed
    ultimately show ?thesis using e(1) m'(1) by auto
  qed
qed

subsection \<open>Property\<close>

text \<open>C25. Without a shell, the arguments are the words of the load options: the text up to the first NUL,
  split at each space (so that two spaces in a row give an empty argument), a last empty word left
  out. At most 32 of them are counted, \<open>Argv\<close> points to their NUL terminated copies in \<open>ArgvContents\<close>,
  and apart from the two arrays memory is unchanged.\<close>

theorem GetShellArgcArgvFromLoadedImage_splits:
  assumes "OpenProtocol ImageHandle LoadedImageProtocol s = (st, Some li, s)" "\<not> EFI_ERROR st"
    "rd32 (ram s) (li + 48) = Some n" "rd64 (ram s) (li + 56) = Some opts"
    "str16_at (ram s) (unat opts) t" "2 * length t + 2 \<le> unat n" "length t < 1023"
    "mapped (ram s) (unat opts) (unat n)" "mapped (ram s) Contents 2048" "mapped (ram s) V 256"
    "disjoint_ranges V 256 Contents 2048"
  shows "\<exists>m'. GetShellArgcArgvFromLoadedImage OpenProtocol LoadedImageProtocol Contents V ImageHandle s =
      Some (min 32 (int (length (args_of t))), Some V, with_ram s m') \<and>
    unchanged (ram s) m' V 256 Contents 2048 \<and>
    (\<forall>i < min 32 (length (args_of t)).
      \<exists>q. rd64 m' (V + 8 * i) = Some (word_of_nat q) \<and> Contents \<le> q \<and> q < Contents + 2048 \<and>
        str16_at m' q (args_of t ! i))"
proof -
  let ?m = "ram s" and ?n = "min (unat n) 2048" and ?l = "2 * length t + 2"
  let ?d = "region ?m (unat opts) ?n"
  have mo: "mapped ?m (unat opts) ?n" "mapped ?m Contents ?n"
    using assms(8,9) by (auto simp: mapped_def)
  have ld: "length ?d = ?n" using mo(1) by (simp add: mapped_def)
  let ?m1 = "overwrite ?m Contents ?d"
  have copy: "CopyMem_1 ?m Contents (unat opts) ?n = Some ?m1"
    using RtCopyMem_eq [OF mo(2,1)] by (simp add: CopyMem_1_def)
  have u1: "unchanged ?m ?m1 0 0 Contents 2048"
    by (rule unchanged_overwrite) (use mo(2) ld in auto)
  have l: "?l \<le> ?n" using assms(6,7) by simp
  have "region ?m1 Contents ?l = take ?l (drop (Contents - Contents) ?d)"
    by (rule region_overwrite_within) (use l ld mo(2) in \<open>simp_all add: mapped_def\<close>)
  also have "\<dots> = region ?m (unat opts) ?l" using l by (simp only: region_def take_take min_absorb1 diff_self_eq_0 drop0)
  finally have "region ?m1 Contents ?l = region ?m (unat opts) ?l" .
  moreover have "mapped ?m1 Contents ?l" using assms(7,9) u1 by (auto simp: mapped_def unchanged_def)
  ultimately have b1: "bytes_at ?m1 Contents (enc16 (t @ [0]))"
    using assms(5) by (simp add: str16_at_region bytes_at_def rd_bytes_def)
  have m2: "mapped ?m1 (Contents + 2 * 1023) (length (le_bytes 2 (0 :: u16)))"
    using assms(9) u1 by (simp add: mapped_def unchanged_def)
  let ?m2 = "overwrite ?m1 (Contents + 2 * 1023) (le_bytes 2 (0 :: u16))"
  have w: "wr16 ?m1 (Contents + 2 * 1023) 0 = Some ?m2" using m2 by (simp add: wr16_def wr_bytes_def)
  have u2: "unchanged ?m1 ?m2 0 0 (Contents + 2 * 1023) 2" by (rule unchanged_overwrite [OF m2]) simp
  have b2: "bytes_at ?m2 Contents (enc16 ([] @ t @ [0]))"
    using b1 unchanged_bytes_at [OF u2] assms(7) by (simp add: disjoint_ranges_def)
  have V2: "mapped ?m2 V 256" using assms(10) u1 u2 by (simp add: mapped_def unchanged_def)
  have d2: "disjoint_ranges V 256 Contents (2 * length ([] @ t) + 2)"
    using assms(7,11) by (auto simp: disjoint_ranges_def)
  have "0 \<notin> List.set ([] @ t)" using assms(5) by (simp add: str16_at_bytes)
  from argv_split_run [OF b2 this V2 d2, of 0] obtain m' where m':
    "argv_split ?m2 V Contents Contents 0 = Some (m', min 32 (length (args_of t)))"
    "unchanged ?m2 m' V 256 Contents ?l"
    "\<forall>i < length (args_of t). i < 32 \<longrightarrow> points_to m' (V + 8 * i) Contents ?l (args_of t ! i)"
    by (auto simp: args_of_def)
  have "unchanged ?m m' V 256 Contents 2048"
    using u1 u2 m'(2) assms(7) by (auto simp: unchanged_def)
  moreover have "GetShellArgcArgvFromLoadedImage OpenProtocol LoadedImageProtocol Contents V ImageHandle s =
      Some (min 32 (int (length (args_of t))), Some V, with_ram s m')"
    using assms(1-4,6) copy w m'(1)
    by (simp add: GetShellArgcArgvFromLoadedImage_def Let_def min_def of_nat_min split: if_splits)
  moreover have "\<exists>q. rd64 m' (V + 8 * i) = Some (word_of_nat q) \<and> Contents \<le> q \<and> q < Contents + 2048 \<and>
      str16_at m' q (args_of t ! i)" if "i < min 32 (length (args_of t))" for i
    using m'(3) that assms(7) by (force simp: points_to_def)
  ultimately show ?thesis by blast
qed

text \<open>The load options "a b" of a loaded image at 1; the arrays are at 100 and 2200.\<close>

definition demo_options :: "demo st" where
  "demo_options = demo_mem (replicate 48 0 @ le_bytes 4 (8 :: u32) @ replicate 4 0 @ le_bytes 8 (65 :: u64) @
     enc16 [97, 32, 98, 0]) 3000"

theorem GetShellArgcArgvFromLoadedImage_splits_witness:
  "\<exists>m' p q. GetShellArgcArgvFromLoadedImage (\<lambda>h g s. (EFI_SUCCESS, Some 1, s)) 0 100 2200 0 demo_options =
      Some (2, Some 2200, with_ram demo_options m') \<and>
    rd64 m' 2200 = Some (word_of_nat p) \<and> str16_at m' p [97] \<and>
    rd64 m' 2208 = Some (word_of_nat q) \<and> str16_at m' q [98]"
proof -
  let ?s = demo_options
  have len: "length (ram ?s) = 3073" by (simp add: demo_options_def demo_mem_def)
  have "bytes_at (ram ?s) 49 (le_bytes 4 (8 :: u32))" "bytes_at (ram ?s) 57 (le_bytes 8 (65 :: u64))"
    "bytes_at (ram ?s) 65 (enc16 ([97, 32, 98] @ [0]))"
    unfolding demo_options_def
    by (rule demo_mem_bytes [of _ "replicate 48 0"], simp, simp)
      (rule demo_mem_bytes [of _ "replicate 48 0 @ le_bytes 4 (8 :: u32) @ replicate 4 0"], simp, simp,
       rule demo_mem_bytes [of _ "replicate 48 0 @ le_bytes 4 (8 :: u32) @ replicate 4 0 @ le_bytes 8 (65 :: u64)" _ "[]"],
       simp, simp)
  then have r: "rd32 (ram ?s) (1 + 48) = Some 8" "rd64 (ram ?s) (1 + 56) = Some 65"
    "str16_at (ram ?s) (unat (65 :: u64)) [97, 32, 98]"
    using bytes_at_words(2) [of "ram ?s" 49 8 "[]"] bytes_at_words(3) [of "ram ?s" 57 65 "[]"]
    by (simp_all add: str16_at_bytes)
  have a: "args_of [97, 32, 98] = [[97], [98]]" by (simp add: args_of_def)
  obtain m' where m': "GetShellArgcArgvFromLoadedImage (\<lambda>h g s. (EFI_SUCCESS, Some 1, s)) 0 100 2200 0 ?s =
      Some (min 32 (int (length (args_of [97, 32, 98]))), Some 2200, with_ram ?s m')"
    "\<forall>i < min 32 (length (args_of [97, 32, 98])).
      \<exists>q. rd64 m' (2200 + 8 * i) = Some (word_of_nat q) \<and> 100 \<le> q \<and> q < 100 + 2048 \<and>
        str16_at m' q (args_of [97, 32, 98] ! i)"
    using GetShellArgcArgvFromLoadedImage_splits [of "\<lambda>h g s. (EFI_SUCCESS, Some 1, s)" 0 0 ?s EFI_SUCCESS 1 8 65
        "[97, 32, 98]" 100 2200, OF refl _ r]
    by (auto simp: len mapped_def disjoint_ranges_def)
  have "\<exists>q. rd64 m' (2200 + 8 * 0) = Some (word_of_nat q) \<and> str16_at m' q [97]"
    "\<exists>q. rd64 m' (2200 + 8 * 1) = Some (word_of_nat q) \<and> str16_at m' q [98]"
    using m'(2) [THEN spec, of 0] m'(2) [THEN spec, of 1] unfolding a by auto
  with m'(1) show ?thesis by (auto simp: a)
qed

end
