(* ===== verification/SimpleRead.thy ===== *)
theory SimpleRead
  imports Handles DevPathOps
begin

text \<open>
  lib/sread.c, with \<open>LibDevicePathToInterface\<close> of lib/dpath.c: reading a file whose contents the caller
  has in memory, or that a file system or the load file protocol of a device provides.

  A \<open>SIMPLE_READ_HANDLE\<close> is a pool block of 40 bytes: \<open>Signature\<close> at 0, \<open>FreeBuffer\<close> at 8, \<open>Source\<close> at 16,
  \<open>SourceSize\<close> at 24, \<open>FileHandle\<close> at 32. The cells \<open>*FilePath\<close>, \<open>*DeviceHandle\<close> and \<open>*SimpleReadHandle\<close>
  are results; \<open>None\<close> is one that is not stored to. \<open>LF\<close> is the \<open>LoadFile\<close> service of an interface; it
  gets the size and the address of the buffer and gives the size back.
\<close>

type_synonym 'w load_file = "addr \<Rightarrow> addr \<Rightarrow> bool \<Rightarrow> u64 \<Rightarrow> addr \<Rightarrow> 'w st \<Rightarrow> u64 \<times> u64 \<times> 'w st"

subsection \<open>Finding the interface of a path\<close>

definition LibDevicePathToInterface ::
  "'w lib \<Rightarrow> addr \<Rightarrow> addr \<Rightarrow> 'w st \<Rightarrow> (u64 \<times> addr option \<times> 'w st) option" where
  "LibDevicePathToInterface L Protocol FilePath s =
     (case BS_LocateDevicePath (BS L) Protocol FilePath s of
        (Status, out, s) \<Rightarrow> do {
          (Status, Interface, s) \<leftarrow>
            (if \<not> EFI_ERROR Status then do {
               (FilePath, Device) \<leftarrow> out;
               e \<leftarrow> IsDevicePathEnd (ram s) FilePath;
               if e then Some (BS_HandleProtocol (BS L) Device Protocol s)
               else Some (EFI_NOT_FOUND, None, s) }
             else Some (Status, None, s));
          Some (Status, if EFI_ERROR Status then Some 0 else Interface, s) })"

subsection \<open>Opening\<close>

text \<open>The loop over the nodes at \<open>FilePathNode\<close>: each names a file in the directory \<open>FileHandle\<close>.\<close>

partial_function (option) open_nodes ::
  "'w file_services \<Rightarrow> addr \<Rightarrow> u64 \<Rightarrow> addr \<Rightarrow> 'w st \<Rightarrow> (u64 \<times> addr \<times> 'w st) option" where
  "open_nodes F FilePathNode Status FileHandle s = do {
     e \<leftarrow> IsDevicePathEnd (ram s) FilePathNode;
     if e then Some (Status, FileHandle, s)
     else do {
       t \<leftarrow> DevicePathType (ram s) FilePathNode;
       st \<leftarrow> (if t \<noteq> 4 then Some 0 else DevicePathSubType (ram s) FilePathNode);
       let Status = (if t \<noteq> 4 \<or> st \<noteq> 4 then EFI_UNSUPPORTED else Status);
       if EFI_ERROR Status then Some (Status, FileHandle, s)
       else (case FileOpen F FileHandle (FilePathNode + 4) 1 0 s of
         (Status, f, s) \<Rightarrow>
           let s = snd (FileClose F FileHandle s)
           in do {
             FilePathNode \<leftarrow> NextDevicePathNode (ram s) FilePathNode;
             open_nodes F FilePathNode Status (case f of None \<Rightarrow> 0 | Some f \<Rightarrow> f) s }) } }"

text \<open>
  Through a file system: the status, the file, \<open>*FilePath\<close> and \<open>*DeviceHandle\<close>. When the file cannot be
  opened what is open is closed and \<open>*FilePath\<close> is what it was, but only if something is open.
\<close>

definition open_file_system ::
  "'w lib \<Rightarrow> 'w file_services \<Rightarrow> addr \<Rightarrow> addr \<Rightarrow> 'w st \<Rightarrow> (u64 \<times> addr \<times> addr \<times> addr option \<times> 'w st) option" where
  "open_file_system L F FileSystemProtocol UserFilePath s =
     (case BS_LocateDevicePath (BS L) FileSystemProtocol UserFilePath s of
        (Status, out, s) \<Rightarrow>
          let FilePath = (case out of None \<Rightarrow> UserFilePath | Some (p, d) \<Rightarrow> p);
              DeviceHandle = map_option snd out
          in do {
            (FileHandle, s) \<leftarrow>
              (if \<not> EFI_ERROR Status then do {
                 d \<leftarrow> DeviceHandle;
                 LibOpenRoot L F FileSystemProtocol d s }
               else Some (0, s));
            (Status, FileHandle, s) \<leftarrow>
              open_nodes F FilePath (if FileHandle \<noteq> 0 then EFI_SUCCESS else EFI_UNSUPPORTED) FileHandle s;
            if \<not> EFI_ERROR Status then Some (Status, FileHandle, FilePath, DeviceHandle, s)
            else if FileHandle \<noteq> 0
            then Some (Status, 0, UserFilePath, DeviceHandle, snd (FileClose F FileHandle s))
            else Some (Status, 0, FilePath, DeviceHandle, s) })"

text \<open>Through the load file protocol: the status and \<open>*DeviceHandle\<close>.\<close>

definition open_load_file ::
  "'w lib \<Rightarrow> 'w load_file \<Rightarrow> addr \<Rightarrow> bool \<Rightarrow> addr \<Rightarrow> addr \<Rightarrow> addr option \<Rightarrow> 'w st \<Rightarrow> (u64 \<times> addr option \<times> 'w st) option" where
  "open_load_file L LF LoadFileProtocol BootPolicy FHand FilePath DeviceHandle s = do {
     (Status, LoadFile, s) \<leftarrow> LibDevicePathToInterface L LoadFileProtocol FilePath s;
     if EFI_ERROR Status then Some (EFI_UNSUPPORTED, DeviceHandle, s)
     else do {
       i \<leftarrow> LoadFile;
       (TempFilePath, s) \<leftarrow> DuplicateDevicePath L FilePath s;
       (case BS_LocateDevicePath (BS L) LoadFileProtocol TempFilePath s of
          (_, out, s) \<Rightarrow>
            let DeviceHandle = (case out of None \<Rightarrow> DeviceHandle | Some (p, d) \<Rightarrow> Some d);
                s = FreePool L TempFilePath s
            in (case LF i FilePath BootPolicy 0 0 s of
              (Status, SourceSize, s) \<Rightarrow> do {
                (Status, s) \<leftarrow>
                  (if Status = EFI_BUFFER_TOO_SMALL then
                     (case AllocatePool L (unat SourceSize) s of
                        (SourceBuffer, s) \<Rightarrow>
                          if SourceBuffer \<noteq> 0 then do {
                            m \<leftarrow> wr8 (ram s) (FHand + 8) 1;
                            m \<leftarrow> wr64 m (FHand + 16) (word_of_nat SourceBuffer);
                            m \<leftarrow> wr64 m (FHand + 24) SourceSize;
                            (case LF i FilePath BootPolicy SourceSize SourceBuffer (with_ram s m) of
                               (Status, _, s) \<Rightarrow> Some (Status, s)) }
                          else Some (Status, s))
                   else Some (Status, s));
                Some (if \<not> EFI_ERROR Status \<or> Status = EFI_ALREADY_STARTED then Status else EFI_UNSUPPORTED,
                      DeviceHandle, s) })) } }"

text \<open>The block at \<open>Done\<close>: a handle that is not returned is given back with its buffer.\<close>

definition drop_handle :: "'w lib \<Rightarrow> u64 \<Rightarrow> addr \<Rightarrow> 'w st \<Rightarrow> 'w st option" where
  "drop_handle L Status FHand s =
     (if EFI_ERROR Status \<and> Status \<noteq> EFI_ALREADY_STARTED \<and> FHand \<noteq> 0 then do {
        b \<leftarrow> rd8 (ram s) (FHand + 8);
        s \<leftarrow> (if b \<noteq> 0 then do { p \<leftarrow> rd64 (ram s) (FHand + 16); Some (FreePool L (unat p) s) } else Some s);
        Some (FreePool L FHand s) }
      else Some s)"

text \<open>The result: the status, \<open>*FilePath\<close>, \<open>*DeviceHandle\<close>, \<open>*SimpleReadHandle\<close>.\<close>

definition OpenSimpleReadFile ::
  "'w lib \<Rightarrow> 'w file_services \<Rightarrow> 'w load_file \<Rightarrow> addr \<Rightarrow> addr \<Rightarrow> bool \<Rightarrow> addr \<Rightarrow> u64 \<Rightarrow> addr \<Rightarrow> 'w st \<Rightarrow>
   (u64 \<times> addr \<times> addr option \<times> addr option \<times> 'w st) option" where
  "OpenSimpleReadFile L F LF FileSystemProtocol LoadFileProtocol BootPolicy SourceBuffer SourceSize UserFilePath s = do {
     (FHand, s) \<leftarrow> AllocateZeroPool L 40 s;
     if FHand = 0 then Some (EFI_OUT_OF_RESOURCES, UserFilePath, None, None, s)
     else do {
       m \<leftarrow> wr64 (ram s) FHand 0x72647273;
       if SourceBuffer \<noteq> 0 then do {
         m \<leftarrow> wr64 m (FHand + 16) (word_of_nat SourceBuffer);
         m \<leftarrow> wr64 m (FHand + 24) SourceSize;
         Some (EFI_SUCCESS, UserFilePath, Some 0, Some FHand, with_ram s m) }
       else do {
         (Status, FileHandle, FilePath, DeviceHandle, s) \<leftarrow>
           open_file_system L F FileSystemProtocol UserFilePath (with_ram s m);
         if \<not> EFI_ERROR Status then do {
           m \<leftarrow> wr64 (ram s) (FHand + 32) (word_of_nat FileHandle);
           Some (Status, FilePath, DeviceHandle, Some FHand, with_ram s m) }
         else do {
           (Status, DeviceHandle, s) \<leftarrow>
             (if Status \<noteq> EFI_UNSUPPORTED then Some (Status, DeviceHandle, s)
              else open_load_file L LF LoadFileProtocol BootPolicy FHand FilePath DeviceHandle s);
           s \<leftarrow> drop_handle L Status FHand s;
           Some (Status, FilePath, DeviceHandle, Some FHand, s) } } } }"

subsection \<open>Reading and closing\<close>

text \<open>The result: the status and \<open>*ReadSize\<close>.\<close>

definition ReadSimpleReadFile ::
  "'w lib \<Rightarrow> 'w file_services \<Rightarrow> addr \<Rightarrow> u64 \<Rightarrow> u64 \<Rightarrow> addr \<Rightarrow> 'w st \<Rightarrow> (u64 \<times> u64 \<times> 'w st) option" where
  "ReadSimpleReadFile L F FHand Offset ReadSize Buffer s = do {
     Source \<leftarrow> rd64 (ram s) (FHand + 16);
     if Source \<noteq> 0 then do {
       let EndPos = Offset + ReadSize;
       SourceSize \<leftarrow> rd64 (ram s) (FHand + 24);
       let ReadSize = (if EndPos > SourceSize
             then (if Offset \<ge> SourceSize then 0 else SourceSize - Offset) else ReadSize);
       m \<leftarrow> CopyMem_1 (ram s) Buffer (unat (Source + Offset)) (unat ReadSize);
       Some (EFI_SUCCESS, ReadSize, with_ram s m) }
     else do {
       FileHandle \<leftarrow> rd64 (ram s) (FHand + 32);
       if FileHandle = 0 then None
       else (case SetPosition F (unat FileHandle) Offset s of
          (Status, s) \<Rightarrow>
            if \<not> EFI_ERROR Status then Some (FileRead F (unat FileHandle) ReadSize Buffer s)
            else Some (Status, ReadSize, s)) } }"

definition CloseSimpleReadFile :: "'w lib \<Rightarrow> 'w file_services \<Rightarrow> addr \<Rightarrow> 'w st \<Rightarrow> 'w st option" where
  "CloseSimpleReadFile L F FHand s = do {
     f \<leftarrow> rd64 (ram s) (FHand + 32);
     let s = (if f \<noteq> 0 then snd (FileClose F (unat f) s) else s);
     b \<leftarrow> rd8 (ram s) (FHand + 8);
     s \<leftarrow> (if b \<noteq> 0 then do { p \<leftarrow> rd64 (ram s) (FHand + 16); Some (FreePool L (unat p) s) } else Some s);
     Some (FreePool L FHand s) }"

subsection \<open>What the services are documented to do\<close>

text \<open>
  \<open>quiet\<close>: the memory in use and the set of its blocks stay what they are. \<open>opens\<close> is the set of the open
  files. Opening gives a file that was not open, closing takes it away, and no other service changes the
  set. \<open>LocateDevicePath\<close> gives the rest of a path behind some of its nodes, and \<open>LoadFile\<close> stores into
  its buffer only.
\<close>

definition quiet :: "('w \<Rightarrow> ranges) \<Rightarrow> 'w st \<Rightarrow> 'w st \<Rightarrow> bool" where
  "quiet blocks s s' \<longleftrightarrow> blocks (fw s') = blocks (fw s) \<and> same_on (blocks (fw s)) (ram s) (ram s')"

definition opened :: "('w \<Rightarrow> addr set) \<Rightarrow> 'w st \<Rightarrow> addr \<Rightarrow> 'w st \<Rightarrow> bool" where
  "opened opens s f s' \<longleftrightarrow> f \<noteq> 0 \<and> f < 2 ^ 64 \<and> f \<notin> opens (fw s) \<and> opens (fw s') = insert f (opens (fw s))"

definition files_ok :: "'w file_services \<Rightarrow> ('w \<Rightarrow> ranges) \<Rightarrow> ('w \<Rightarrow> addr set) \<Rightarrow> bool" where
  "files_ok F blocks opens \<longleftrightarrow>
     (\<forall>v s st f s'. OpenVolume F v s = (st, f, s') \<longrightarrow> quiet blocks s s' \<and>
        (if EFI_ERROR st then opens (fw s') = opens (fw s) else opened opens s f s')) \<and>
     (\<forall>d n md a s st f s'. FileOpen F d n md a s = (st, f, s') \<longrightarrow> quiet blocks s s' \<and>
        (if EFI_ERROR st then f = None \<and> opens (fw s') = opens (fw s)
         else \<exists>h. f = Some h \<and> opened opens s h s')) \<and>
     (\<forall>f s st s'. FileClose F f s = (st, s') \<longrightarrow> quiet blocks s s' \<and> opens (fw s') = opens (fw s) - {f})"

definition path_at :: "mem \<Rightarrow> addr \<Rightarrow> dp_node list \<Rightarrow> bool" where
  "path_at m p ns \<longleftrightarrow> instance_ok ns \<and> bytes_at m p (enc_nodes ns @ EndDevicePath)"

definition locate_ok :: "'w boot_services \<Rightarrow> ('w \<Rightarrow> ranges) \<Rightarrow> ('w \<Rightarrow> addr set) \<Rightarrow> bool" where
  "locate_ok B blocks opens \<longleftrightarrow>
     (\<forall>g p s st out s'. BS_LocateDevicePath B g p s = (st, out, s') \<longrightarrow>
        quiet blocks s s' \<and> opens (fw s') = opens (fw s) \<and>
        (if EFI_ERROR st then out = None
         else \<exists>p' d. out = Some (p', d) \<and>
           (\<forall>ns. path_at (ram s) p ns \<longrightarrow> (\<exists>as bs. ns = as @ bs \<and> p' = p + length (enc_nodes as))))) \<and>
     (\<forall>h g s st i s'. BS_HandleProtocol B h g s = (st, i, s') \<longrightarrow>
        quiet blocks s s' \<and> opens (fw s') = opens (fw s) \<and> (\<not> EFI_ERROR st \<longrightarrow> i \<noteq> None))"

definition load_ok :: "'w load_file \<Rightarrow> ('w \<Rightarrow> ranges) \<Rightarrow> ('w \<Rightarrow> addr set) \<Rightarrow> bool" where
  "load_ok LF blocks opens \<longleftrightarrow>
     (\<forall>i p b n buf s st n' s'. LF i p b n buf s = (st, n', s') \<longrightarrow>
        blocks (fw s') = blocks (fw s) \<and> opens (fw s') = opens (fw s) \<and>
        (\<forall>K \<subseteq> blocks (fw s). (\<forall>(q, k) \<in> K. disjoint_ranges buf (unat n) q k) \<longrightarrow>
           same_on K (ram s) (ram s')))"

lemma quiet_refl [simp]: "quiet blocks s s"
  by (simp add: quiet_def)

lemma quiet_trans: "quiet blocks a b \<Longrightarrow> quiet blocks b c \<Longrightarrow> quiet blocks a c"
  by (auto simp: quiet_def intro: same_on_trans)

lemma quiet_path:
  assumes "quiet blocks s s'" "path_at (ram s) p ns" "in_use (blocks (fw s)) p (length (enc_nodes ns) + 4)"
  shows "path_at (ram s') p ns" "in_use (blocks (fw s')) p (length (enc_nodes ns) + 4)"
  using assms bytes_at_same_on [of "blocks (fw s)" "ram s" "ram s'" p "enc_nodes ns @ EndDevicePath"]
  by (auto simp: quiet_def path_at_def)

lemma open_file:
  assumes "files_ok F blocks opens" "FileOpen F d n md a s = (st, f, s')"
  shows "quiet blocks s s'" "EFI_ERROR st \<Longrightarrow> f = None \<and> opens (fw s') = opens (fw s)"
    "\<not> EFI_ERROR st \<Longrightarrow> \<exists>h. f = Some h \<and> opened opens s h s'"
  using assms unfolding files_ok_def by metis+

lemma open_volume:
  assumes "files_ok F blocks opens" "OpenVolume F v s = (st, f, s')"
  shows "quiet blocks s s'" "EFI_ERROR st \<Longrightarrow> opens (fw s') = opens (fw s)"
    "\<not> EFI_ERROR st \<Longrightarrow> opened opens s f s'"
  using assms unfolding files_ok_def by metis+

lemma close_file:
  assumes "files_ok F blocks opens"
  shows "quiet blocks s (snd (FileClose F f s))" "opens (fw (snd (FileClose F f s))) = opens (fw s) - {f}"
proof -
  have "FileClose F f s = (fst (FileClose F f s), snd (FileClose F f s))" by simp
  then show "quiet blocks s (snd (FileClose F f s))" "opens (fw (snd (FileClose F f s))) = opens (fw s) - {f}"
    using assms unfolding files_ok_def by metis+
qed

lemma locate_path:
  assumes "locate_ok B blocks opens" "BS_LocateDevicePath B g p s = (st, out, s')"
  shows "quiet blocks s s'" "opens (fw s') = opens (fw s)" "EFI_ERROR st \<Longrightarrow> out = None"
    "\<not> EFI_ERROR st \<Longrightarrow> \<exists>p' d. out = Some (p', d)"
    "\<not> EFI_ERROR st \<Longrightarrow> out = Some (p', d) \<Longrightarrow> path_at (ram s) p ns \<Longrightarrow>
      \<exists>as bs. ns = as @ bs \<and> p' = p + length (enc_nodes as)"
proof -
  have a: "quiet blocks s s' \<and> opens (fw s') = opens (fw s) \<and>
      (if EFI_ERROR st then out = None
       else \<exists>p' d. out = Some (p', d) \<and>
         (\<forall>ns. path_at (ram s) p ns \<longrightarrow> (\<exists>as bs. ns = as @ bs \<and> p' = p + length (enc_nodes as))))"
    using assms unfolding locate_ok_def by blast
  then show "quiet blocks s s'" "opens (fw s') = opens (fw s)" "EFI_ERROR st \<Longrightarrow> out = None"
    "\<not> EFI_ERROR st \<Longrightarrow> \<exists>p' d. out = Some (p', d)" by auto
  show "\<exists>as bs. ns = as @ bs \<and> p' = p + length (enc_nodes as)"
    if "\<not> EFI_ERROR st" "out = Some (p', d)" "path_at (ram s) p ns"
    using a that by auto
qed

lemma handle_protocol:
  assumes "locate_ok B blocks opens" "BS_HandleProtocol B h g s = (st, i, s')"
  shows "quiet blocks s s'" "opens (fw s') = opens (fw s)" "\<not> EFI_ERROR st \<Longrightarrow> \<exists>j. i = Some j"
  using assms unfolding locate_ok_def by (metis option.exhaust)+

lemma load_service:
  assumes "load_ok LF blocks opens" "LF i p b n buf s = (st, n', s')"
  shows "blocks (fw s') = blocks (fw s)" "opens (fw s') = opens (fw s)"
    "K \<subseteq> blocks (fw s) \<Longrightarrow> \<forall>(q, k) \<in> K. disjoint_ranges buf (unat n) q k \<Longrightarrow> same_on K (ram s) (ram s')"
  using assms unfolding load_ok_def by (blast, blast, blast)

subsection \<open>Opening, step by step\<close>

lemma path_at_suffix:
  assumes "path_at m p (as @ bs)" "in_use K p (length (enc_nodes (as @ bs)) + 4)"
  shows "path_at m (p + length (enc_nodes as)) bs"
    "in_use K (p + length (enc_nodes as)) (length (enc_nodes bs) + 4)"
  using assms in_use_mono [OF assms(2), of "p + length (enc_nodes as)" "length (enc_nodes bs) + 4"]
  by (auto simp: path_at_def instance_ok_def bytes_at_append)

lemma path_at_end: "path_at m p [] \<Longrightarrow> IsDevicePathEnd m p = Some True"
  using end_header(2) [of m p True "[]"] by (simp add: path_at_def)

lemma path_at_node:
  assumes "path_at m p (nd # ns)"
  shows "IsDevicePathEnd m p = Some False" "NextDevicePathNode m p = Some (p + length (enc_node nd))"
    "\<exists>t. DevicePathType m p = Some t" "\<exists>st. DevicePathSubType m p = Some st"
proof -
  obtain t st d where nd: "nd = (t, st, d)" by (cases nd)
  have b: "bytes_at m p (enc_node nd @ enc_nodes ns @ EndDevicePath)" "node_ok nd"
    using assms by (simp_all add: path_at_def instance_ok_def)
  then show "IsDevicePathEnd m p = Some False" "NextDevicePathNode m p = Some (p + length (enc_node nd))"
    by (rule node_header)+
  show "\<exists>t. DevicePathType m p = Some t" "\<exists>st. DevicePathSubType m p = Some st"
    using b(1) by (auto simp: nd enc_node_def bytes_at_Cons DevicePathType_def DevicePathSubType_def)
qed

lemma path_at_IsEnd: "path_at m p ns \<Longrightarrow> IsDevicePathEnd m p = Some (ns = [])"
  by (cases ns) (simp_all add: path_at_end path_at_node)

text \<open>What is open while the file system is walked: nothing, with an error, or the current directory.\<close>

definition held :: "addr set \<Rightarrow> ('w \<Rightarrow> addr set) \<Rightarrow> u64 \<Rightarrow> addr \<Rightarrow> 'w st \<Rightarrow> bool" where
  "held Op opens Status f s \<longleftrightarrow>
     (if f = 0 then EFI_ERROR Status \<and> opens (fw s) = Op
      else f < 2 ^ 64 \<and> f \<notin> Op \<and> opens (fw s) = insert f Op)"

lemma held_opened:
  "opened opens s f s' \<Longrightarrow> held Op opens st h s \<Longrightarrow> quiet blocks s' s'' \<Longrightarrow>
   opens (fw s'') = opens (fw s') - {h} \<Longrightarrow> \<not> EFI_ERROR st \<Longrightarrow> held Op opens st' f s''"
  by (auto simp: held_def opened_def split: if_splits)

lemma open_nodes_held:
  assumes F: "files_ok F blocks opens"
  shows "path_at (ram s) p ns \<Longrightarrow> in_use (blocks (fw s)) p (length (enc_nodes ns) + 4) \<Longrightarrow>
    held Op opens st f s \<Longrightarrow>
    \<exists>st' f' s'. open_nodes F p st f s = Some (st', f', s') \<and> quiet blocks s s' \<and> held Op opens st' f' s'"
proof (induction ns arbitrary: p st f s)
  case Nil
  then show ?case by (subst open_nodes.simps) (simp add: path_at_end)
next
  case (Cons nd ns)
  note pn = path_at_node [OF Cons.prems(1)]
  obtain t u where tu: "DevicePathType (ram s) p = Some t" "DevicePathSubType (ram s) p = Some u"
    using pn(3,4) by blast
  define bad where "bad \<longleftrightarrow> t \<noteq> 4 \<or> u \<noteq> 4"
  have step: "open_nodes F p st f s =
      (if EFI_ERROR (if bad then EFI_UNSUPPORTED else st) then Some (if bad then EFI_UNSUPPORTED else st, f, s)
       else (case FileOpen F f (p + 4) 1 0 s of (st, f', s) \<Rightarrow>
         let s = snd (FileClose F f s) in do {
           q \<leftarrow> NextDevicePathNode (ram s) p;
           open_nodes F q st (case f' of None \<Rightarrow> 0 | Some f \<Rightarrow> f) s }))"
    using pn(1) tu by (subst open_nodes.simps) (auto simp: bad_def Let_def split: prod.splits)
  show ?case
  proof (cases "EFI_ERROR (if bad then EFI_UNSUPPORTED else st)")
    case True
    then show ?thesis using Cons.prems(3) unfolding step by (auto simp: held_def)
  next
    case False
    then have st: "\<not> EFI_ERROR st" "\<not> bad" by (auto split: if_splits)
    obtain st1 f1 s1 where o: "FileOpen F f (p + 4) 1 0 s = (st1, f1, s1)" by (cases "FileOpen F f (p + 4) 1 0 s") blast
    let ?s = "snd (FileClose F f s1)" and ?f = "case f1 of None \<Rightarrow> 0 | Some f \<Rightarrow> f"
    note op = open_file [OF F o] and cl = close_file [OF F, where f = f and s = s1]
    have q: "quiet blocks s ?s" using op(1) cl(1) by (rule quiet_trans)
    have h: "held Op opens st1 ?f ?s"
    proof (cases "EFI_ERROR st1")
      case True
      then show ?thesis using op(2) cl(2) Cons.prems(3) st(1) by (auto simp: held_def split: if_splits)
    next
      case False
      then obtain h where "f1 = Some h" "opened opens s h s1" using op(3) by blast
      then show ?thesis using held_opened [OF _ Cons.prems(3) cl(1) cl(2) st(1)] by simp
    qed
    note pq = quiet_path [OF q Cons.prems(1,2)]
    note sf = path_at_suffix [of "ram ?s" p "[nd]" ns, simplified, OF pq(1) pq(2) [simplified]]
    from Cons.IH [OF sf h] show ?thesis
      using path_at_node(2) [OF pq(1)] False o q unfolding step
      by (auto intro: quiet_trans)
  qed
qed

lemma LibOpenRoot_held:
  assumes F: "files_ok F blocks opens" and B: "locate_ok (BS L) blocks opens"
  shows "\<exists>f s'. LibOpenRoot L F g d s = Some (f, s') \<and> quiet blocks s s' \<and>
    held (opens (fw s)) opens (if f \<noteq> 0 then EFI_SUCCESS else EFI_UNSUPPORTED) f s'"
proof -
  obtain st i s1 where h: "BS_HandleProtocol (BS L) d g s = (st, i, s1)" by (cases "BS_HandleProtocol (BS L) d g s") blast
  note hp = handle_protocol [OF B h]
  show ?thesis
  proof (cases "EFI_ERROR st")
    case True
    then show ?thesis using h hp by (simp add: LibOpenRoot_def held_def)
  next
    case False
    then obtain v where i: "i = Some v" using hp(3) by blast
    obtain st2 f s2 where o: "OpenVolume F v s1 = (st2, f, s2)" by (cases "OpenVolume F v s1") blast
    note ov = open_volume [OF F o]
    have "LibOpenRoot L F g d s = Some (if EFI_ERROR st2 then 0 else f, s2)"
      using False h i o by (simp add: LibOpenRoot_def)
    then show ?thesis using ov hp(1,2) quiet_trans [OF hp(1) ov(1)]
      by (cases "EFI_ERROR st2") (auto simp: held_def opened_def)
  qed
qed

lemma open_file_system_held:
  assumes F: "files_ok F blocks opens" and B: "locate_ok (BS L) blocks opens"
    and path: "path_at (ram s) p ns" "in_use (blocks (fw s)) p (length (enc_nodes ns) + 4)"
  shows "\<exists>st f q d s'. open_file_system L F g p s = Some (st, f, q, d, s') \<and> quiet blocks s s' \<and>
    (EFI_ERROR st \<longleftrightarrow> f = 0) \<and> held (opens (fw s)) opens st f s' \<and>
    (\<exists>as bs. ns = as @ bs \<and> q = p + length (enc_nodes as))"
proof -
  obtain st out s1 where l: "BS_LocateDevicePath (BS L) g p s = (st, out, s1)"
    by (cases "BS_LocateDevicePath (BS L) g p s") blast
  note lp = locate_path [OF B l]
  define q where "q = (case out of None \<Rightarrow> p | Some (p, d) \<Rightarrow> p)"
  have split: "\<exists>as bs. ns = as @ bs \<and> q = p + length (enc_nodes as)"
  proof (cases "EFI_ERROR st")
    case True
    then have "q = p" using lp(3) by (simp add: q_def)
    then show ?thesis by (intro exI [of _ "[]"] exI [of _ ns]) simp
  next
    case False
    then show ?thesis using lp(4) lp(5) [OF False _ path(1)] by (auto simp: q_def)
  qed
  then obtain as bs where ab: "ns = as @ bs" "q = p + length (enc_nodes as)" by blast
  have "\<exists>f s2. (if \<not> EFI_ERROR st then do { d \<leftarrow> map_option snd out; LibOpenRoot L F g d s1 } else Some (0, s1)) =
      Some (f, s2) \<and> quiet blocks s s2 \<and>
      held (opens (fw s)) opens (if f \<noteq> 0 then EFI_SUCCESS else EFI_UNSUPPORTED) f s2"
  proof (cases "EFI_ERROR st")
    case True
    then show ?thesis using lp(1,2) by (simp add: held_def)
  next
    case False
    then obtain p' d where "out = Some (p', d)" using lp(4) by blast
    moreover obtain f s2 where "LibOpenRoot L F g d s1 = Some (f, s2)" "quiet blocks s1 s2"
        "held (opens (fw s)) opens (if f \<noteq> 0 then EFI_SUCCESS else EFI_UNSUPPORTED) f s2"
      using LibOpenRoot_held [OF F B, of g d s1] lp(2) by metis
    ultimately show ?thesis using False quiet_trans [OF lp(1)] by (intro exI [of _ f] exI [of _ s2]) simp
  qed
  then obtain f s2 where root: "(if \<not> EFI_ERROR st then do { d \<leftarrow> map_option snd out; LibOpenRoot L F g d s1 }
        else Some (0, s1)) = Some (f, s2)" "quiet blocks s s2"
      "held (opens (fw s)) opens (if f \<noteq> 0 then EFI_SUCCESS else EFI_UNSUPPORTED) f s2" by blast
  note pq = quiet_path [OF root(2) path]
  note sf = path_at_suffix [OF pq [unfolded ab(1)], folded ab(2)]
  obtain st3 f3 s3 where nodes: "open_nodes F q (if f \<noteq> 0 then EFI_SUCCESS else EFI_UNSUPPORTED) f s2 = Some (st3, f3, s3)"
      "quiet blocks s2 s3" "held (opens (fw s)) opens st3 f3 s3"
    using open_nodes_held [OF F sf root(3)] by blast
  have q3: "quiet blocks s s3" using root(2) nodes(2) by (rule quiet_trans)
  have run: "open_file_system L F g p s =
      (if \<not> EFI_ERROR st3 then Some (st3, f3, q, map_option snd out, s3)
       else if f3 \<noteq> 0 then Some (st3, 0, p, map_option snd out, snd (FileClose F f3 s3))
       else Some (st3, 0, q, map_option snd out, s3))"
    using root(1) nodes(1) unfolding open_file_system_def l q_def by (simp add: Let_def)
  note cl = close_file [OF F, where f = f3 and s = s3]
  have whole: "\<exists>as bs. ns = as @ bs \<and> p = p + length (enc_nodes as)" by (intro exI [of _ "[]"] exI [of _ ns]) simp
  show ?thesis
  proof (cases "\<not> EFI_ERROR st3")
    case True
    then show ?thesis using run q3 nodes(3) split by (auto simp: held_def split: if_splits)
  next
    case False
    show ?thesis
    proof (cases "f3 = 0")
      case True
      then show ?thesis using False run q3 nodes(3) split by auto
    next
      case f3: False
      then have "held (opens (fw s)) opens st3 0 (snd (FileClose F f3 s3))"
        using False nodes(3) cl(2) by (auto simp: held_def)
      moreover have "quiet blocks s (snd (FileClose F f3 s3))" using q3 cl(1) by (rule quiet_trans)
      ultimately show ?thesis using False f3 run whole by auto
    qed
  qed
qed

lemma LibDevicePathToInterface_quiet:
  assumes B: "locate_ok (BS L) blocks opens"
    and path: "path_at (ram s) p ns" "in_use (blocks (fw s)) p (length (enc_nodes ns) + 4)"
  shows "\<exists>st i s'. LibDevicePathToInterface L g p s = Some (st, i, s') \<and> quiet blocks s s' \<and>
    opens (fw s') = opens (fw s) \<and> (\<not> EFI_ERROR st \<longrightarrow> (\<exists>j. i = Some j))"
proof -
  obtain st out s1 where l: "BS_LocateDevicePath (BS L) g p s = (st, out, s1)"
    by (cases "BS_LocateDevicePath (BS L) g p s") blast
  note lp = locate_path [OF B l]
  show ?thesis
  proof (cases "EFI_ERROR st")
    case True
    then show ?thesis using l lp(1,2) by (simp add: LibDevicePathToInterface_def)
  next
    case False
    then obtain q d where out: "out = Some (q, d)" using lp(4) by blast
    obtain as bs where ab: "ns = as @ bs" "q = p + length (enc_nodes as)"
      using lp(5) [OF False out path(1)] by blast
    note pq = quiet_path [OF lp(1) path]
    have "path_at (ram s1) q bs" using path_at_suffix(1) [OF pq [unfolded ab(1)]] by (simp add: ab(2))
    then have e: "IsDevicePathEnd (ram s1) q = Some (bs = [])" by (rule path_at_IsEnd)
    obtain st2 i s2 where h: "BS_HandleProtocol (BS L) d g s1 = (st2, i, s2)"
      by (cases "BS_HandleProtocol (BS L) d g s1") blast
    note hp = handle_protocol [OF B h]
    show ?thesis
    proof (cases "bs = []")
      case True
      then show ?thesis using False l out e h hp lp(1,2) quiet_trans [OF lp(1) hp(1)]
        by (cases "EFI_ERROR st2") (simp_all add: LibDevicePathToInterface_def)
    next
      case nonempty: False
      then show ?thesis using False l out e lp(1,2) by (simp add: LibDevicePathToInterface_def)
    qed
  qed
qed

subsection \<open>The handle\<close>

definition handle_at :: "mem \<Rightarrow> addr \<Rightarrow> u8 \<Rightarrow> u64 \<Rightarrow> u64 \<Rightarrow> u64 \<Rightarrow> bool" where
  "handle_at m h free src n file \<longleftrightarrow> mapped m h 40 \<and> rd8 m (h + 8) = Some free \<and> rd64 m (h + 16) = Some src \<and>
     rd64 m (h + 24) = Some n \<and> rd64 m (h + 32) = Some file"

lemma rd64_region: "rd64 m p = (if mapped m p 8 then Some (le_word (region m p 8)) else None)"
  by (simp add: rd64_def rd_bytes_def)

lemma handle_at_same_on:
  assumes "same_on K m m'" "in_use K h 40" "handle_at m h free src n file"
  shows "handle_at m' h free src n file"
proof -
  have m: "mapped m h 40" "length m' = length m" using assms(1,3) by (simp_all add: handle_at_def same_on_length)
  have r: "region m' (h + i) k = region m (h + i) k" if "i + k \<le> 40" for i k
    using same_on_region [OF assms(1) in_use_mono [OF assms(2)]] that m by (simp add: mapped_def)
  have "rd8 m' (h + 8) = rd8 m (h + 8)"
  proof -
    have "m' ! (h + 8) = m ! (h + 8)"
      using r [of 8 1] m by (simp add: region_def mapped_def take_Suc_conv_app_nth hd_drop_conv_nth take_Suc)
    then show ?thesis using m by (simp add: rd8_def)
  qed
  then show ?thesis using assms(3) m r [of 16 8] r [of 24 8] r [of 32 8]
    by (auto simp: handle_at_def rd64_region mapped_def split: if_splits)
qed

lemma wr64_same_on:
  assumes "wr64 m q v = Some m'" "h \<le> q" "q + 8 \<le> h + 40" "\<forall>(p, k) \<in> K. disjoint_ranges h 40 p k"
  shows "same_on K m m'"
proof -
  have "\<forall>(p, k) \<in> K. disjoint_ranges q (length (le_bytes 8 v)) p k"
    using assms(2-4) by (fastforce simp: disjoint_ranges_def)
  then show ?thesis using assms(1) same_on_overwrite [of m q "le_bytes 8 v" "length (le_bytes 8 v)" K]
    by (simp add: wr64_def wr_bytes_Some)
qed

lemma handle_at_wr:
  assumes "handle_at m h free src n file"
  shows "\<exists>m'. wr64 m (h + 16) v = Some m' \<and> handle_at m' h free v n file"
    "\<exists>m'. wr64 m (h + 24) v = Some m' \<and> handle_at m' h free src v file"
    "\<exists>m'. wr64 m (h + 32) v = Some m' \<and> handle_at m' h free src n v"
    "\<exists>m'. wr8 m (h + 8) b = Some m' \<and> handle_at m' h b src n file"
proof -
  have map: "mapped m h 40" using assms by (simp add: handle_at_def)
  have far: "rd8 m' (h + 8) = rd8 m (h + 8)" if "wr64 m q v = Some m'" "h + 16 \<le> q" for m' q
    using that by (auto simp: wr64_def wr_bytes_Some rd8_overwrite mapped_def)
  have field: "\<exists>m'. wr64 m (h + i) v = Some m' \<and> mapped m' h 40 \<and> rd64 m' (h + i) = Some v \<and>
      rd8 m' (h + 8) = rd8 m (h + 8) \<and>
      (\<forall>j. j + 8 \<le> i \<or> i + 8 \<le> j \<longrightarrow> rd64 m' (h + j) = rd64 m (h + j))" if "16 \<le> i" "i + 8 \<le> 40" for i
  proof -
    obtain m' where m': "wr64 m (h + i) v = Some m'" "length m' = length m"
      using wr64_mapped [of m "h + i" v] map \<open>i + 8 \<le> 40\<close> by (auto simp: mapped_def)
    have "rd64 m' (h + j) = rd64 m (h + j)" if "j + 8 \<le> i \<or> i + 8 \<le> j" for j
      using that by (intro rd64_wr64_disjoint [OF m'(1)]) (auto simp: disjoint_ranges_def)
    then show ?thesis
      using m' map far [OF m'(1)] rd64_wr64_same [OF m'(1)] \<open>16 \<le> i\<close> by (simp add: mapped_def)
  qed
  show "\<exists>m'. wr64 m (h + 16) v = Some m' \<and> handle_at m' h free v n file"
    "\<exists>m'. wr64 m (h + 24) v = Some m' \<and> handle_at m' h free src v file"
    "\<exists>m'. wr64 m (h + 32) v = Some m' \<and> handle_at m' h free src n v"
    using assms field [of 16] field [of 24] field [of 32] by (auto simp: handle_at_def)
  show "\<exists>m'. wr8 m (h + 8) b = Some m' \<and> handle_at m' h b src n file"
  proof -
    let ?m = "overwrite m (h + 8) [b]"
    have "wr8 m (h + 8) b = Some ?m" using map by (simp add: wr8_overwrite wr_bytes_def mapped_def)
    moreover have "rd64 ?m (h + i) = rd64 m (h + i)" if "16 \<le> i" for i
      using that map rd_bytes_overwrite_disjoint [of "h + i" 8 "h + 8" "[b]" m]
      by (simp add: rd64_def disjoint_ranges_def mapped_def)
    ultimately show ?thesis using assms map by (simp add: handle_at_def rd8_overwrite mapped_def)
  qed
qed

text \<open>
  \<open>apart p n K\<close>: a block that is not in \<open>K\<close> and touches none of it. \<open>holds\<close>: compared with \<open>s0\<close>, the state
  \<open>s\<close> has the block of the handle \<open>h\<close> and the buffer it owns, if any, and nothing else; \<open>owned\<close>: and its open
  file \<open>f\<close>, if that is not 0.
\<close>

definition apart :: "addr \<Rightarrow> nat \<Rightarrow> ranges \<Rightarrow> bool" where
  "apart p n K \<longleftrightarrow> (p, n) \<notin> K \<and> (\<forall>(q, k) \<in> K. disjoint_ranges p n q k)"

definition holds :: "('w \<Rightarrow> ranges) \<Rightarrow> 'w st \<Rightarrow> 'w st \<Rightarrow> addr \<Rightarrow> u64 \<Rightarrow> bool" where
  "holds blocks s0 s h file \<longleftrightarrow>
     h \<noteq> 0 \<and> apart h 40 (blocks (fw s0)) \<and> same_on (blocks (fw s0)) (ram s0) (ram s) \<and>
     (\<exists>free src n. handle_at (ram s) h free src n file \<and>
        (if free = 0 then blocks (fw s) = insert (h, 40) (blocks (fw s0))
         else \<exists>k. apart (unat src) k (insert (h, 40) (blocks (fw s0))) \<and>
           blocks (fw s) = insert (unat src, k) (insert (h, 40) (blocks (fw s0)))))"

definition owned :: "('w \<Rightarrow> ranges) \<Rightarrow> ('w \<Rightarrow> addr set) \<Rightarrow> 'w st \<Rightarrow> 'w st \<Rightarrow> addr \<Rightarrow> addr \<Rightarrow> bool" where
  "owned blocks opens s0 s h f \<longleftrightarrow> holds blocks s0 s h (word_of_nat f) \<and>
     (if f = 0 then opens (fw s) = opens (fw s0)
      else f < 2 ^ 64 \<and> f \<notin> opens (fw s0) \<and> opens (fw s) = insert f (opens (fw s0)))"

definition balanced :: "('w \<Rightarrow> ranges) \<Rightarrow> ('w \<Rightarrow> addr set) \<Rightarrow> 'w st \<Rightarrow> 'w st \<Rightarrow> bool" where
  "balanced blocks opens s s' \<longleftrightarrow> quiet blocks s s' \<and> opens (fw s') = opens (fw s)"

lemma same_on_mono: "same_on K m m' \<Longrightarrow> K' \<subseteq> K \<Longrightarrow> same_on K' m m'"
  unfolding same_on_def by blast

lemma free_apart:
  assumes "pool_ok (BS L) blocks" "pool_keeps (BS L) opens" "apart p n K" "blocks (fw s) = insert (p, n) K"
  shows "blocks (fw (FreePool L p s)) = K" "same_on K (ram s) (ram (FreePool L p s))"
    "opens (fw (FreePool L p s)) = opens (fw s)"
  using FreePool_block [OF assms(1), of p n s K] pool_keeps_FreePool [OF assms(2), of p s] assms(3,4)
  by (simp_all add: apart_def)

lemma holds_quiet:
  assumes "holds blocks s0 s h file" "quiet blocks s s'"
  shows "holds blocks s0 s' h file"
proof -
  have h: "(h, 40) \<in> blocks (fw s)" "blocks (fw s0) \<subseteq> blocks (fw s)"
    using assms(1) by (auto simp: holds_def split: if_splits)
  have q: "blocks (fw s') = blocks (fw s)" "same_on (blocks (fw s)) (ram s) (ram s')"
    using assms(2) by (simp_all add: quiet_def)
  have "same_on (blocks (fw s0)) (ram s0) (ram s')"
    using assms(1) same_on_mono [OF q(2) h(2)] by (auto simp: holds_def intro: same_on_trans)
  moreover obtain free src n where a: "handle_at (ram s) h free src n file"
      "if free = 0 then blocks (fw s) = insert (h, 40) (blocks (fw s0))
       else \<exists>k. apart (unat src) k (insert (h, 40) (blocks (fw s0))) \<and>
         blocks (fw s) = insert (unat src, k) (insert (h, 40) (blocks (fw s0)))"
    using assms(1) unfolding holds_def by blast
  moreover have "handle_at (ram s') h free src n file"
    by (rule handle_at_same_on [OF q(2) in_useI [OF h(1) order.refl order.refl] a(1)])
  ultimately show ?thesis using assms(1) unfolding holds_def q(1) by blast
qed

lemma holds_freed:
  assumes pool: "pool_ok (BS L) blocks" "pool_keeps (BS L) opens"
    and ow: "holds blocks s0 s h file" "opens (fw s) = opens (fw s0)"
  shows "\<exists>s'. (do { b \<leftarrow> rd8 (ram s) (h + 8);
      s \<leftarrow> (if b \<noteq> 0 then do { p \<leftarrow> rd64 (ram s) (h + 16); Some (FreePool L (unat p) s) } else Some s);
      Some (FreePool L h s) }) = Some s' \<and> balanced blocks opens s0 s'"
proof -
  let ?K = "blocks (fw s0)"
  obtain free src n where h: "handle_at (ram s) h free src n file" "apart h 40 ?K"
      "same_on ?K (ram s0) (ram s)"
      "if free = 0 then blocks (fw s) = insert (h, 40) ?K
       else \<exists>k. apart (unat src) k (insert (h, 40) ?K) \<and> blocks (fw s) = insert (unat src, k) (insert (h, 40) ?K)"
    using ow by (auto simp: holds_def)
  have rd: "rd8 (ram s) (h + 8) = Some free" "rd64 (ram s) (h + 16) = Some src" using h(1) by (simp_all add: handle_at_def)
  have last_step: "balanced blocks opens s0 (FreePool L h s1)"
    if "blocks (fw s1) = insert (h, 40) ?K" "same_on ?K (ram s0) (ram s1)" "opens (fw s1) = opens (fw s0)" for s1
    using free_apart [OF pool h(2) that(1)] that(2,3) by (auto simp: balanced_def quiet_def intro: same_on_trans)
  show ?thesis
  proof (cases "free = 0")
    case True
    then show ?thesis using rd h(3,4) ow(2) last_step by simp
  next
    case False
    then obtain k where k: "apart (unat src) k (insert (h, 40) ?K)"
        "blocks (fw s) = insert (unat src, k) (insert (h, 40) ?K)" using h(4) by auto
    note fr = free_apart [OF pool k]
    have "same_on ?K (ram s0) (ram (FreePool L (unat src) s))"
      using same_on_trans [OF h(3) same_on_mono [OF fr(2)]] by blast
    then show ?thesis using False rd ow(2) fr(1,3) last_step by simp
  qed
qed

lemma drop_handle_owned:
  assumes "pool_ok (BS L) blocks" "pool_keeps (BS L) opens" "owned blocks opens s0 s h 0"
    "EFI_ERROR st" "st \<noteq> EFI_ALREADY_STARTED"
  shows "\<exists>s'. drop_handle L st h s = Some s' \<and> balanced blocks opens s0 s'"
proof -
  have "holds blocks s0 s h (word_of_nat 0)" "opens (fw s) = opens (fw s0)" "h \<noteq> 0"
    using assms(3) by (simp_all add: owned_def holds_def)
  then show ?thesis using holds_freed [OF assms(1,2)] assms(4,5) by (simp add: drop_handle_def)
qed

lemma CloseSimpleReadFile_owned:
  assumes pool: "pool_ok (BS L) blocks" "pool_keeps (BS L) opens" and F: "files_ok F blocks opens"
    and ow: "owned blocks opens s0 s h f"
  shows "\<exists>s'. CloseSimpleReadFile L F h s = Some s' \<and> balanced blocks opens s0 s'"
proof -
  define s1 where "s1 = (if f = 0 then s else snd (FileClose F f s))"
  note cl = close_file [OF F, where f = f and s = s]
  obtain w :: u64 where w: "w = word_of_nat f" by simp
  have "f < 2 ^ 64" using ow by (auto simp: owned_def split: if_splits)
  then have uf: "unat w = f" unfolding w by (simp add: unat_word_of_nat)
  then have nz: "w = 0 \<longleftrightarrow> f = 0" by (metis unat_eq_zero)
  have ho: "holds blocks s0 s h w" using ow by (simp add: owned_def w)
  then have "rd64 (ram s) (h + 32) = Some w" by (auto simp: holds_def handle_at_def)
  then have run: "CloseSimpleReadFile L F h s = (do { b \<leftarrow> rd8 (ram s1) (h + 8);
      s \<leftarrow> (if b \<noteq> 0 then do { p \<leftarrow> rd64 (ram s1) (h + 16); Some (FreePool L (unat p) s1) } else Some s1);
      Some (FreePool L h s) })"
    unfolding s1_def CloseSimpleReadFile_def by (cases "f = 0") (simp_all add: uf nz Let_def cong: if_cong)
  have "holds blocks s0 s1 h w" using holds_quiet [OF ho cl(1)] ho by (simp add: s1_def)
  moreover have "opens (fw s1) = opens (fw s0)"
    using ow cl(2) by (auto simp: owned_def s1_def split: if_splits)
  ultimately show ?thesis unfolding run by (rule holds_freed [OF pool])
qed

subsection \<open>Opening and closing balance\<close>

text \<open>The handle as it is until a source or a file is found.\<close>

definition fresh_handle :: "('w \<Rightarrow> ranges) \<Rightarrow> ('w \<Rightarrow> addr set) \<Rightarrow> 'w st \<Rightarrow> 'w st \<Rightarrow> addr \<Rightarrow> bool" where
  "fresh_handle blocks opens s0 s h \<longleftrightarrow>
     h \<noteq> 0 \<and> apart h 40 (blocks (fw s0)) \<and> same_on (blocks (fw s0)) (ram s0) (ram s) \<and>
     handle_at (ram s) h 0 0 0 0 \<and> blocks (fw s) = insert (h, 40) (blocks (fw s0)) \<and>
     opens (fw s) = opens (fw s0)"

lemma fresh_handle_owned: "fresh_handle blocks opens s0 s h \<Longrightarrow> owned blocks opens s0 s h 0"
  by (auto simp: fresh_handle_def owned_def holds_def)

lemma fresh_handle_quiet:
  assumes "fresh_handle blocks opens s0 s h" "quiet blocks s s'" "opens (fw s') = opens (fw s)"
  shows "fresh_handle blocks opens s0 s' h"
proof -
  have q: "blocks (fw s') = blocks (fw s)" "same_on (blocks (fw s)) (ram s) (ram s')"
    using assms(2) by (simp_all add: quiet_def)
  have b: "blocks (fw s) = insert (h, 40) (blocks (fw s0))" using assms(1) by (simp add: fresh_handle_def)
  have "in_use (blocks (fw s)) h 40" by (rule in_useI [of h 40]) (simp_all add: b)
  then have "handle_at (ram s') h 0 0 0 0"
    using handle_at_same_on [OF q(2)] assms(1) by (simp add: fresh_handle_def)
  moreover have "same_on (blocks (fw s0)) (ram s0) (ram s')"
    using assms(1) same_on_mono [OF q(2), of "blocks (fw s0)"] b by (auto simp: fresh_handle_def intro: same_on_trans)
  ultimately show ?thesis using assms q b by (simp add: fresh_handle_def)
qed

lemma in_use_insert: "in_use K p n \<Longrightarrow> in_use (insert x K) p n"
  by (auto simp: in_use_def)

lemma fresh_handle_path:
  assumes "fresh_handle blocks opens s0 s h" "path_at (ram s0) p ns"
    "in_use (blocks (fw s0)) p (length (enc_nodes ns) + 4)"
  shows "path_at (ram s) p ns" "in_use (blocks (fw s)) p (length (enc_nodes ns) + 4)"
  using assms bytes_at_same_on [of "blocks (fw s0)" "ram s0" "ram s" p "enc_nodes ns @ EndDevicePath"]
  by (auto simp: fresh_handle_def path_at_def in_use_insert)

lemma handle_at_zeros: "mapped m h 40 \<Longrightarrow> handle_at (overwrite m h (replicate 40 0)) h 0 0 0 0"
proof -
  assume m: "mapped m h 40"
  have z: "replicate 8 0 = le_bytes 8 (0 :: u64)" by code_simp
  have "region (overwrite m h (replicate 40 0)) (h + i) 8 = le_bytes 8 (0 :: u64)" if "i \<le> 32" for i
    using m that region_overwrite_within [of h "h + i" 8 "replicate 40 0" m]
    by (simp add: mapped_def min_def flip: z)
  then show ?thesis using m
    by (simp add: handle_at_def rd8_overwrite rd64_region mapped_def)
qed

lemma handle_at_signature:
  assumes "handle_at m h free src n file"
  shows "\<exists>m'. wr64 m h v = Some m' \<and> handle_at m' h free src n file"
proof -
  have map: "mapped m h 40" using assms by (simp add: handle_at_def)
  then obtain m' where m': "wr64 m h v = Some m'" "length m' = length m"
    using wr64_mapped [of m h v] by (auto simp: mapped_def)
  have "rd8 m' (h + 8) = rd8 m (h + 8)" using m'(1) by (auto simp: wr64_def wr_bytes_Some rd8_overwrite mapped_def)
  moreover have "rd64 m' (h + i) = rd64 m (h + i)" if "8 \<le> i" for i
    using that by (intro rd64_wr64_disjoint [OF m'(1)]) (auto simp: disjoint_ranges_def)
  ultimately show ?thesis using assms m' by (simp add: handle_at_def mapped_def)
qed

lemma DuplicateDevicePath_apart:
  assumes pool: "pool_ok (BS L) blocks" "pool_keeps (BS L) opens"
    and path: "path_at (ram s) p ns" "in_use (blocks (fw s)) p (length (enc_nodes ns) + 4)"
  shows "\<exists>t s'. DuplicateDevicePath L p s = Some (t, s') \<and> opens (fw s') = opens (fw s) \<and>
    same_on (blocks (fw s)) (ram s) (ram s') \<and>
    (if t = 0 then blocks (fw s') = blocks (fw s)
     else \<exists>n. apart t n (blocks (fw s)) \<and> blocks (fw s') = insert (t, n) (blocks (fw s)))"
proof -
  let ?bs = "enc_path [ns]"
  have b: "bytes_at (ram s) p ?bs" "path_ok [ns]" "in_use (blocks (fw s)) p (length ?bs)"
    using path by (simp_all add: path_at_def path_ok_def)
  have sz: "DevicePathSize (ram s) p = Some (length ?bs)"
    using DevicePathSize_eq [of "ram s" p "[ns]" "[]"] b by simp
  obtain t s1 where a: "AllocatePool L (length ?bs) s = (t, s1)" by force
  note keep = pool_keeps_AllocatePool [OF pool(2) a]
  from pool(1) a show ?thesis
  proof (cases rule: AllocatePool_cases)
    case fails
    then show ?thesis using sz a by (simp add: DuplicateDevicePath_def)
  next
    case block
    note pa = path_after_alloc [OF block(3,6) b(3,1)]
    have m: "mapped (ram s1) t (length ?bs)" using block(2) same_on_length [OF block(3)] by (simp add: mapped_def)
    have "DuplicateDevicePath L p s = Some (t, with_ram s1 (overwrite (ram s1) t ?bs))"
      using sz a block(1) copy_bytes [OF m pa(1)] by (simp add: DuplicateDevicePath_def)
    moreover have "same_on (blocks (fw s)) (ram s) (overwrite (ram s1) t ?bs)"
      using same_on_trans [OF block(3) same_on_overwrite [OF m order.refl block(6)]] .
    ultimately show ?thesis using block keep by (auto simp: apart_def)
  qed
qed

text \<open>The copy of the path that \<open>OpenSimpleReadFile\<close> makes for the device handle is given back.\<close>

lemma temporary_path_quiet:
  assumes pool: "pool_ok (BS L) blocks" "pool_keeps (BS L) opens" and B: "locate_ok (BS L) blocks opens"
    and null: "\<And>s. 0 \<notin> fst ` blocks (fw s) \<Longrightarrow> snd (BS_FreePool (BS L) 0 s) = s" "0 \<notin> fst ` blocks (fw s)"
    and path: "path_at (ram s) p ns" "in_use (blocks (fw s)) p (length (enc_nodes ns) + 4)"
  shows "\<exists>t s1 st out s2. DuplicateDevicePath L p s = Some (t, s1) \<and>
    BS_LocateDevicePath (BS L) g t s1 = (st, out, s2) \<and> quiet blocks s (FreePool L t s2) \<and>
    opens (fw (FreePool L t s2)) = opens (fw s)"
proof -
  obtain t s1 where d: "DuplicateDevicePath L p s = Some (t, s1)" "opens (fw s1) = opens (fw s)"
      "same_on (blocks (fw s)) (ram s) (ram s1)"
      "if t = 0 then blocks (fw s1) = blocks (fw s)
       else \<exists>n. apart t n (blocks (fw s)) \<and> blocks (fw s1) = insert (t, n) (blocks (fw s))"
    using DuplicateDevicePath_apart [OF pool path] by blast
  obtain st out s2 where l: "BS_LocateDevicePath (BS L) g t s1 = (st, out, s2)"
    by (cases "BS_LocateDevicePath (BS L) g t s1") blast
  note lp = locate_path [OF B l]
  have same: "same_on (blocks (fw s)) (ram s) (ram s2)"
    using d(3,4) lp(1) same_on_mono [of "blocks (fw s1)" "ram s1" "ram s2" "blocks (fw s)"]
    by (auto simp: quiet_def split: if_splits intro: same_on_trans)
  have "quiet blocks s (FreePool L t s2) \<and> opens (fw (FreePool L t s2)) = opens (fw s)"
  proof (cases "t = 0")
    case True
    then have "blocks (fw s2) = blocks (fw s)" using d(4) lp(1) by (simp add: quiet_def)
    then show ?thesis using True null same d(2) lp(2) by (simp add: FreePool_def quiet_def)
  next
    case False
    then obtain n where n: "apart t n (blocks (fw s))" "blocks (fw s2) = insert (t, n) (blocks (fw s))"
      using d(4) lp(1) by (auto simp: quiet_def)
    show ?thesis using free_apart [OF pool n] same d(2) lp(2) by (auto simp: quiet_def intro: same_on_trans)
  qed
  then show ?thesis using d(1) l by blast
qed

text \<open>The buffer is allocated, entered into the handle and filled.\<close>

lemma load_into_buffer:
  fixes s5 :: "'w st"
  assumes pool: "pool_ok (BS L) blocks" "pool_keeps (BS L) opens" and LF: "load_ok LF blocks opens"
    and len: "length (ram s0) < 2 ^ 64" and h: "fresh_handle blocks opens s0 s5 h"
    and a: "AllocatePool L (unat n) s5 = (b, s6)" "b \<noteq> 0"
  shows "\<exists>m1 m2 m3. wr8 (ram s6) (h + 8) 1 = Some m1 \<and> wr64 m1 (h + 16) (word_of_nat b) = Some m2 \<and>
    wr64 m2 (h + 24) n = Some m3 \<and>
    owned blocks opens s0 (snd (snd (LF j p bp n b (with_ram s6 m3)))) h 0"
proof -
  let ?K = "blocks (fw s0)"
  have h': "h \<noteq> 0" "apart h 40 ?K" "same_on ?K (ram s0) (ram s5)" "handle_at (ram s5) h 0 0 0 0"
      "blocks (fw s5) = insert (h, 40) ?K" "opens (fw s5) = opens (fw s0)"
    using h by (simp_all add: fresh_handle_def)
  from pool(1) a(1) obtain block: "mapped (ram s5) b (unat n)" "same_on (insert (h, 40) ?K) (ram s5) (ram s6)"
      "blocks (fw s6) = insert (b, unat n) (insert (h, 40) ?K)" "apart b (unat n) (insert (h, 40) ?K)"
    using a(2) unfolding h'(5) [symmetric] apart_def by (cases rule: AllocatePool_cases) auto
  have "in_use (insert (h, 40) ?K) h 40" by (rule in_useI [of h 40]) simp_all
  note h6 = handle_at_same_on [OF block(2) this h'(4)]
  obtain m1 where m1: "wr8 (ram s6) (h + 8) 1 = Some m1" "handle_at m1 h 1 0 0 0"
    using handle_at_wr(4) [OF h6] by blast
  obtain m2 where m2: "wr64 m1 (h + 16) (word_of_nat b) = Some m2" "handle_at m2 h 1 (word_of_nat b) 0 0"
    using handle_at_wr(1) [OF m1(2)] by blast
  obtain m3 where m3: "wr64 m2 (h + 24) n = Some m3" "handle_at m3 h 1 (word_of_nat b) n 0"
    using handle_at_wr(2) [OF m2(2)] by blast
  have d: "\<forall>(q, k) \<in> ?K. disjoint_ranges h 40 q k" using h'(2) by (simp add: apart_def)
  have w1: "same_on ?K (ram s6) m1"
  proof -
    have "\<forall>(q, k) \<in> ?K. disjoint_ranges (h + 8) 1 q k" using d by (fastforce simp: disjoint_ranges_def)
    then show ?thesis
      using m1(1) same_on_overwrite [of "ram s6" "h + 8" "[1]" 1 ?K] by (simp add: wr8_overwrite wr_bytes_Some)
  qed
  have w3: "same_on ?K (ram s0) m3"
    using same_on_trans [OF same_on_trans [OF h'(3) same_on_mono [OF block(2)]]
        same_on_trans [OF w1 same_on_trans [OF wr64_same_on [OF m2(1) _ _ d] wr64_same_on [OF m3(1) _ _ d]]]]
    by auto
  obtain st x s7 where l: "LF j p bp n b (with_ram s6 m3) = (st, x, s7)"
    by (cases "LF j p bp n b (with_ram s6 m3)") blast
  have q7: "blocks (fw s7) = blocks (fw s6)" "opens (fw s7) = opens (fw s6)"
      "same_on (insert (h, 40) ?K) m3 (ram s7)"
    using load_service(1,2) [OF LF l] load_service(3) [OF LF l, of "insert (h, 40) ?K"] block(3,4)
    by (auto simp: apart_def)
  have "b < 2 ^ 64" using block(1) len same_on_length [OF h'(3)] by (simp add: mapped_def)
  then have ub: "unat (word_of_nat b :: u64) = b" by (simp add: unat_word_of_nat)
  have "in_use (insert (h, 40) ?K) h 40" by (rule in_useI [of h 40]) simp_all
  note h7 = handle_at_same_on [OF q7(3) this m3(2)]
  have "same_on ?K (ram s0) (ram s7)" using same_on_trans [OF w3 same_on_mono [OF q7(3)]] by blast
  moreover have "opens (fw s7) = opens (fw s0)"
    using q7(2) pool_keeps_AllocatePool [OF pool(2) a(1)] h'(6) by simp
  moreover have "\<exists>k. apart (unat (word_of_nat b :: u64)) k (insert (h, 40) ?K) \<and>
      blocks (fw s7) = insert (unat (word_of_nat b :: u64), k) (insert (h, 40) ?K)"
    unfolding ub q7(1) block(3) using block(4) by blast
  ultimately have "owned blocks opens s0 s7 h 0"
    using h'(1,2) h7 unfolding owned_def holds_def
    by (intro conjI exI [of _ "1 :: u8"] exI [of _ "word_of_nat b :: u64"] exI [of _ n]) auto
  then show ?thesis using m1(1) m2(1) m3(1) l by auto
qed

lemma open_load_file_owned:
  assumes pool: "pool_ok (BS L) blocks" "pool_keeps (BS L) opens" and B: "locate_ok (BS L) blocks opens"
    and LF: "load_ok LF blocks opens"
    and null: "\<And>s. 0 \<notin> fst ` blocks (fw s) \<Longrightarrow> snd (BS_FreePool (BS L) 0 s) = s" "0 \<notin> fst ` blocks (fw s0)"
    and len: "length (ram s0) < 2 ^ 64" and h: "fresh_handle blocks opens s0 s h"
    and path: "path_at (ram s0) p ns" "in_use (blocks (fw s0)) p (length (enc_nodes ns) + 4)"
  shows "\<exists>st d' s'. open_load_file L LF g bp h p d s = Some (st, d', s') \<and> owned blocks opens s0 s' h 0"
proof -
  note ph = fresh_handle_path [OF h path]
  obtain st i s1 where if1: "LibDevicePathToInterface L g p s = Some (st, i, s1)" "quiet blocks s s1"
      "opens (fw s1) = opens (fw s)" "\<not> EFI_ERROR st \<longrightarrow> (\<exists>j. i = Some j)"
    using LibDevicePathToInterface_quiet [OF B ph] by blast
  have h1: "fresh_handle blocks opens s0 s1 h" by (rule fresh_handle_quiet [OF h if1(2,3)])
  show ?thesis
  proof (cases "EFI_ERROR st")
    case True
    then show ?thesis using if1(1) fresh_handle_owned [OF h1] by (simp add: open_load_file_def)
  next
    case False
    then obtain j where j: "i = Some j" using if1(4) by blast
    note p1 = fresh_handle_path [OF h1 path]
    have nz: "0 \<notin> fst ` blocks (fw s1)" using h1 null(2) by (auto simp: fresh_handle_def)
    obtain t s2 st2 out s3 where tp: "DuplicateDevicePath L p s1 = Some (t, s2)"
        "BS_LocateDevicePath (BS L) g t s2 = (st2, out, s3)" "quiet blocks s1 (FreePool L t s3)"
        "opens (fw (FreePool L t s3)) = opens (fw s1)"
      using temporary_path_quiet [OF pool B null(1) nz p1] by blast
    obtain s4 where s4: "s4 = FreePool L t s3" by simp
    have h4: "fresh_handle blocks opens s0 s4 h" unfolding s4 by (rule fresh_handle_quiet [OF h1 tp(3,4)])
    obtain st5 n s5 where l5: "LF j p bp 0 0 s4 = (st5, n, s5)" by (cases "LF j p bp 0 0 s4") blast
    have "quiet blocks s4 s5 \<and> opens (fw s5) = opens (fw s4)"
      using load_service [OF LF l5] by (auto simp: quiet_def disjoint_ranges_def)
    then have h5: "fresh_handle blocks opens s0 s5 h" using fresh_handle_quiet [OF h4] by blast
    have run: "open_load_file L LF g bp h p d s = do {
        (Status, s) \<leftarrow>
          (if st5 = EFI_BUFFER_TOO_SMALL then
             (case AllocatePool L (unat n) s5 of
                (b, s) \<Rightarrow>
                  if b \<noteq> 0 then do {
                    m \<leftarrow> wr8 (ram s) (h + 8) 1;
                    m \<leftarrow> wr64 m (h + 16) (word_of_nat b);
                    m \<leftarrow> wr64 m (h + 24) n;
                    (case LF j p bp n b (with_ram s m) of (Status, _, s) \<Rightarrow> Some (Status, s)) }
                  else Some (st5, s))
           else Some (st5, s5));
        Some (if \<not> EFI_ERROR Status \<or> Status = EFI_ALREADY_STARTED then Status else EFI_UNSUPPORTED,
              case out of None \<Rightarrow> d | Some (p, d) \<Rightarrow> Some d, s) }"
      using if1(1) False j tp(1,2) l5 s4 unfolding open_load_file_def by (simp add: Let_def)
    show ?thesis
    proof (cases "st5 = EFI_BUFFER_TOO_SMALL")
      case False
      then show ?thesis using fresh_handle_owned [OF h5] unfolding run by simp
    next
      case True
      obtain b s6 where a: "AllocatePool L (unat n) s5 = (b, s6)" by force
      show ?thesis
      proof (cases "b = 0")
        case True
        from pool(1) a this have "s6 = s5" by (cases rule: AllocatePool_cases) simp_all
        then show ?thesis using True \<open>st5 = _\<close> a fresh_handle_owned [OF h5] unfolding run by simp
      next
        case False
        then show ?thesis using load_into_buffer [OF pool LF len h5 a False, of j p bp] \<open>st5 = _\<close> a
          unfolding run by (auto split: prod.splits)
      qed
    qed
  qed
qed

text \<open>The allocated and initialised handle.\<close>

lemma new_handle:
  assumes pool: "pool_ok (BS L) blocks" "pool_keeps (BS L) opens"
    and a: "AllocatePool L 40 s = (h, s1)" "h \<noteq> 0"
  shows "\<exists>s2 m. AllocateZeroPool L 40 s = Some (h, s2) \<and> wr64 (ram s2) h 0x72647273 = Some m \<and>
    fresh_handle blocks opens s (with_ram s2 m) h"
proof -
  from pool(1) a(1) obtain block: "mapped (ram s) h 40" "same_on (blocks (fw s)) (ram s) (ram s1)"
      "blocks (fw s1) = insert (h, 40) (blocks (fw s))" "apart h 40 (blocks (fw s))"
    using a(2) unfolding apart_def by (cases rule: AllocatePool_cases) auto
  have m: "mapped (ram s1) h 40" using block(1) same_on_length [OF block(2)] by (simp add: mapped_def)
  let ?z = "overwrite (ram s1) h (replicate 40 0)"
  obtain m' where m': "wr64 ?z h 0x72647273 = Some m'" "handle_at m' h 0 0 0 0"
    using handle_at_signature [OF handle_at_zeros [OF m]] by blast
  have d: "\<forall>(q, k) \<in> blocks (fw s). disjoint_ranges h 40 q k" using block(4) by (simp add: apart_def)
  have "same_on (blocks (fw s)) (ram s) ?z"
    using same_on_trans [OF block(2) same_on_overwrite [of "ram s1" h "replicate 40 0" 40]] m d by simp
  then have "same_on (blocks (fw s)) (ram s) m'" using same_on_trans wr64_same_on [OF m'(1) _ _ d] by auto
  then show ?thesis
    using AllocateZeroPool_block [OF pool(1) a m] m' block(3,4) a(2) pool_keeps_AllocatePool [OF pool(2) a(1)]
    by (auto simp: fresh_handle_def)
qed

text \<open>An open file is entered into the handle.\<close>

lemma file_entered:
  assumes h: "fresh_handle blocks opens s0 s h" and q: "quiet blocks s s'"
    and f: "f \<noteq> 0" "held (opens (fw s0)) opens st f s'"
  shows "\<exists>m. wr64 (ram s') (h + 32) (word_of_nat f) = Some m \<and> owned blocks opens s0 (with_ram s' m) h f"
proof -
  have b: "blocks (fw s') = insert (h, 40) (blocks (fw s0))" "same_on (insert (h, 40) (blocks (fw s0))) (ram s) (ram s')"
    using h q by (simp_all add: fresh_handle_def quiet_def)
  have "in_use (insert (h, 40) (blocks (fw s0))) h 40" by (rule in_useI [of h 40]) simp_all
  then have "handle_at (ram s') h 0 0 0 0"
    using handle_at_same_on [OF b(2)] h by (simp add: fresh_handle_def)
  then obtain m where m: "wr64 (ram s') (h + 32) (word_of_nat f) = Some m" "handle_at m h 0 0 0 (word_of_nat f)"
    using handle_at_wr(3) by blast
  have d: "\<forall>(q, k) \<in> blocks (fw s0). disjoint_ranges h 40 q k" using h by (simp add: fresh_handle_def apart_def)
  have "same_on (blocks (fw s0)) (ram s) m"
    using same_on_trans [OF same_on_mono [OF b(2)] wr64_same_on [OF m(1) _ _ d]] by auto
  then have "same_on (blocks (fw s0)) (ram s0) m"
    using h by (auto simp: fresh_handle_def intro: same_on_trans)
  then have "holds blocks s0 (with_ram s' m) h (word_of_nat f)"
    using h m(2) b(1) unfolding holds_def fresh_handle_def
    by (intro conjI exI [of _ "0 :: u8"] exI [of _ "0 :: u64"]) auto
  then show ?thesis using m(1) f by (simp add: owned_def held_def)
qed

text \<open>Contents in memory are entered into the handle.\<close>

lemma memory_entered:
  assumes h: "fresh_handle blocks opens s (with_ram s2 m) h"
  shows "\<exists>m3 m4. wr64 m (h + 16) (word_of_nat src) = Some m3 \<and> wr64 m3 (h + 24) n = Some m4 \<and>
    owned blocks opens s (with_ram s2 m4) h 0"
proof -
  obtain m3 where m3: "wr64 m (h + 16) (word_of_nat src) = Some m3" "handle_at m3 h 0 (word_of_nat src) 0 0"
    using handle_at_wr(1) [of m h 0 0 0 0 "word_of_nat src"] h by (auto simp: fresh_handle_def)
  obtain m4 where m4: "wr64 m3 (h + 24) n = Some m4" "handle_at m4 h 0 (word_of_nat src) n 0"
    using handle_at_wr(2) [OF m3(2)] by blast
  have d: "\<forall>(q, k) \<in> blocks (fw s). disjoint_ranges h 40 q k" using h by (simp add: fresh_handle_def apart_def)
  have "same_on (blocks (fw s)) (ram s) m4"
    using same_on_trans [OF _ same_on_trans [OF wr64_same_on [OF m3(1) _ _ d] wr64_same_on [OF m4(1) _ _ d]]] h
    by (auto simp: fresh_handle_def)
  then have "owned blocks opens s (with_ram s2 m4) h 0"
    using h m4(2) by (auto simp: fresh_handle_def owned_def holds_def)
  then show ?thesis using m3(1) m4(1) by blast
qed

text \<open>When the file system has failed: the load file protocol, and the block at \<open>Done\<close>.\<close>

lemma load_file_or_drop:
  assumes pool: "pool_ok (BS L) blocks" "pool_keeps (BS L) opens"
    and B: "locate_ok (BS L) blocks opens" and LF: "load_ok LF blocks opens"
    and null: "\<And>s. 0 \<notin> fst ` blocks (fw s) \<Longrightarrow> snd (BS_FreePool (BS L) 0 s) = s" "0 \<notin> fst ` blocks (fw s)"
    and len: "length (ram s) < 2 ^ 64" and h3: "fresh_handle blocks opens s s3 h"
    and path: "path_at (ram s) q ns" "in_use (blocks (fw s)) q (length (enc_nodes ns) + 4)"
  shows "\<exists>st4 d4 s4 s5. (if st \<noteq> EFI_UNSUPPORTED then Some (st, d, s3)
      else open_load_file L LF g2 bp h q d s3) = Some (st4, d4, s4) \<and> drop_handle L st4 h s4 = Some s5 \<and>
    (if EFI_ERROR st4 \<and> st4 \<noteq> EFI_ALREADY_STARTED then balanced blocks opens s s5
     else owned blocks opens s s5 h 0)"
proof -
  obtain st4 d4 s4 where l: "(if st \<noteq> EFI_UNSUPPORTED then Some (st, d, s3)
       else open_load_file L LF g2 bp h q d s3) = Some (st4, d4, s4)" "owned blocks opens s s4 h 0"
    using open_load_file_owned [OF pool B LF null(1,2) len h3 path, of g2 bp d] fresh_handle_owned [OF h3]
    by (cases "st = EFI_UNSUPPORTED") auto
  show ?thesis
  proof (cases "EFI_ERROR st4 \<and> st4 \<noteq> EFI_ALREADY_STARTED")
    case True
    then obtain s5 where "drop_handle L st4 h s4 = Some s5" "balanced blocks opens s s5"
      using drop_handle_owned [OF pool l(2), of st4] by blast
    then show ?thesis using True l(1) by auto
  next
    case False
    then have "drop_handle L st4 h s4 = Some s4" by (auto simp: drop_handle_def)
    then show ?thesis using False l by auto
  qed
qed

text \<open>C17. Opening and closing balance: \<open>OpenSimpleReadFile\<close> returns for every well-formed path, whether the
  contents are in memory or a file system or the load file protocol provides them. If it fails nothing
  is left: every block it allocated is freed, every file and directory it opened is closed, and the memory in
  use is unchanged. Otherwise \<open>CloseSimpleReadFile\<close> on the handle returns and restores the same.\<close>

theorem OpenSimpleReadFile_balanced:
  assumes pool: "pool_ok (BS L) blocks" "pool_keeps (BS L) opens" and F: "files_ok F blocks opens"
    and B: "locate_ok (BS L) blocks opens" and LF: "load_ok LF blocks opens"
    and null: "\<And>s. 0 \<notin> fst ` blocks (fw s) \<Longrightarrow> snd (BS_FreePool (BS L) 0 s) = s" "0 \<notin> fst ` blocks (fw s)"
    and len: "length (ram s) < 2 ^ 64"
    and path: "path_at (ram s) p ns" "in_use (blocks (fw s)) p (length (enc_nodes ns) + 4)"
  shows "\<exists>st q d h s'. OpenSimpleReadFile L F LF g1 g2 bp src n p s = Some (st, q, d, h, s') \<and>
    (if EFI_ERROR st \<and> st \<noteq> EFI_ALREADY_STARTED then balanced blocks opens s s'
     else \<exists>a s''. h = Some a \<and> CloseSimpleReadFile L F a s' = Some s'' \<and> balanced blocks opens s s'')"
proof -
  note close = CloseSimpleReadFile_owned [OF pool F]
  obtain h s1 where a: "AllocatePool L 40 s = (h, s1)" by force
  show ?thesis
  proof (cases "h = 0")
    case True
    from pool(1) a this have "s1 = s" by (cases rule: AllocatePool_cases) simp_all
    then have "OpenSimpleReadFile L F LF g1 g2 bp src n p s = Some (EFI_OUT_OF_RESOURCES, p, None, None, s)"
      using True a by (simp add: OpenSimpleReadFile_def AllocateZeroPool_def)
    then show ?thesis by (simp add: balanced_def)
  next
    case h0: False
    obtain s2 m where z: "AllocateZeroPool L 40 s = Some (h, s2)" "wr64 (ram s2) h 0x72647273 = Some m"
        "fresh_handle blocks opens s (with_ram s2 m) h"
      using new_handle [OF pool a h0] by blast
    show ?thesis
    proof (cases "src = 0")
      case False
      obtain m3 m4 where m4: "wr64 m (h + 16) (word_of_nat src) = Some m3" "wr64 m3 (h + 24) n = Some m4"
          "owned blocks opens s (with_ram s2 m4) h 0"
        using memory_entered [OF z(3), of src n] by blast
      from close [OF m4(3)] show ?thesis
        using False h0 z(1,2) m4(1,2) by (simp add: OpenSimpleReadFile_def)
    next
      case True
      let ?s = "with_ram s2 m"
      note p2 = fresh_handle_path [OF z(3) path]
      obtain st f q d s3 where o: "open_file_system L F g1 p ?s = Some (st, f, q, d, s3)" "quiet blocks ?s s3"
          "EFI_ERROR st \<longleftrightarrow> f = 0" "held (opens (fw ?s)) opens st f s3"
          "\<exists>as bs. ns = as @ bs \<and> q = p + length (enc_nodes as)"
        using open_file_system_held [OF F B p2] by blast
      have os: "opens (fw ?s) = opens (fw s)" using z(3) by (simp add: fresh_handle_def)
      show ?thesis
      proof (cases "EFI_ERROR st")
        case False
        then obtain m4 where "wr64 (ram s3) (h + 32) (word_of_nat f) = Some m4"
            "owned blocks opens s (with_ram s3 m4) h f"
          using file_entered [OF z(3) o(2), of f st] False o(3,4) os by auto
        with close [OF this(2)] show ?thesis
          using True False h0 z(1,2) o(1) by (simp add: OpenSimpleReadFile_def)
      next
        case err: True
        then have h3: "fresh_handle blocks opens s s3 h"
          using fresh_handle_quiet [OF z(3) o(2)] o(3,4) by (auto simp: held_def)
        obtain as bs where ab: "ns = as @ bs" "q = p + length (enc_nodes as)" using o(5) by blast
        note sf = path_at_suffix [OF path [unfolded ab(1)], folded ab(2)]
        obtain st4 d4 s4 s5 where l: "(if st \<noteq> EFI_UNSUPPORTED then Some (st, d, s3)
             else open_load_file L LF g2 bp h q d s3) = Some (st4, d4, s4)" "drop_handle L st4 h s4 = Some s5"
            "if EFI_ERROR st4 \<and> st4 \<noteq> EFI_ALREADY_STARTED then balanced blocks opens s s5
             else owned blocks opens s s5 h 0"
          using load_file_or_drop [OF pool B LF null(1,2) len h3 sf, of st d g2 bp] by blast
        have run: "OpenSimpleReadFile L F LF g1 g2 bp src n p s = Some (st4, q, d4, Some h, s5)"
          using True err h0 z(1,2) o(1) l(1,2) by (simp add: OpenSimpleReadFile_def)
        show ?thesis unfolding run using l(3) close [of s s5 h 0] by (auto split: if_splits)
      qed
    qed
  qed
qed

text \<open>The demo firmware with one volume, whose files are numbered as they are opened.\<close>

definition demo_open :: "demo st \<Rightarrow> u64 \<times> addr \<times> demo st" where
  "demo_open s =
     (let f = Suc (foldr max (demo_files (fw s)) 0) in
      if f < 2 ^ 64 then (EFI_SUCCESS, f, s\<lparr>fw := (fw s)\<lparr>demo_files := f # demo_files (fw s)\<rparr>\<rparr>)
      else (EFI_OUT_OF_RESOURCES, 0, s))"

definition demo_volume :: "demo file_services" where
  "demo_volume = \<lparr> OpenVolume = (\<lambda>v s. demo_open s),
     FileOpen = (\<lambda>d n m a s. case demo_open s of (st, f, s) \<Rightarrow> (st, if EFI_ERROR st then None else Some f, s)),
     FileClose = (\<lambda>f s. (EFI_SUCCESS, s\<lparr>fw := (fw s)\<lparr>demo_files := filter (\<lambda>g. g \<noteq> f) (demo_files (fw s))\<rparr>\<rparr>)),
     FileRead = (\<lambda>f n b s. (EFI_SUCCESS, 0, s)), SetPosition = (\<lambda>f p s. (EFI_SUCCESS, s)),
     GetInfo = (\<lambda>f k n b s. (EFI_UNSUPPORTED, n, s)) \<rparr>"

definition volume_lib :: "demo lib" where
  "volume_lib = demo_lib\<lparr>BS := demo_boot\<lparr>BS_LocateDevicePath := (\<lambda>g p s. (EFI_SUCCESS, Some (p, 9), s)),
     BS_HandleProtocol := (\<lambda>h g s. (EFI_SUCCESS, Some 3, s))\<rparr>\<rparr>"

definition demo_file_path :: "dp_node list" where
  "demo_file_path = [(4, 4, enc16 [97, 0])]"

definition demo_path_state :: "demo st" where
  "demo_path_state = demo_mem (enc_nodes demo_file_path @ EndDevicePath) 100"

lemma demo_volume_ok: "files_ok demo_volume blocks_of (\<lambda>w. set (demo_files w))"
proof -
  have fresh: "Suc (foldr max xs 0) \<notin> set xs" for xs :: "addr list"
  proof -
    have "x \<le> foldr max xs (0 :: nat)" if "x \<in> set xs" for x xs
      using that by (induction xs) auto
    then show ?thesis by (metis Suc_n_not_le_n)
  qed
  have op: "(if EFI_ERROR st then s' = s else opened (\<lambda>w. set (demo_files w)) s f s') \<and> quiet blocks_of s s'"
    if "demo_open s = (st, f, s')" for s st f s'
    using that fresh
    by (auto simp: demo_open_def opened_def quiet_def blocks_of_def Let_def split: if_splits)
  show ?thesis
    unfolding files_ok_def
    using op by (fastforce simp: demo_volume_def quiet_def blocks_of_def split: prod.splits if_splits)
qed

theorem OpenSimpleReadFile_balanced_witness:
  "\<exists>st q d h s'. OpenSimpleReadFile volume_lib demo_volume (\<lambda>i p b n buf s. (EFI_NOT_FOUND, n, s)) 5 6 False 0 0 1
      demo_path_state = Some (st, q, d, h, s') \<and>
    (if EFI_ERROR st \<and> st \<noteq> EFI_ALREADY_STARTED then balanced blocks_of (\<lambda>w. set (demo_files w)) demo_path_state s'
     else \<exists>a s''. h = Some a \<and> CloseSimpleReadFile volume_lib demo_volume a s' = Some s'' \<and>
       balanced blocks_of (\<lambda>w. set (demo_files w)) demo_path_state s'')"
proof (rule OpenSimpleReadFile_balanced [where ns = demo_file_path])
  show "pool_ok (BS volume_lib) blocks_of"
    using demo_pool_ok by (simp add: pool_ok_def volume_lib_def)
  show "pool_keeps (BS volume_lib) (\<lambda>w. set (demo_files w))"
    by (auto simp: pool_keeps_def volume_lib_def demo_boot_def demo_alloc_def demo_free_def Let_def split: if_splits)
  show "files_ok demo_volume blocks_of (\<lambda>w. set (demo_files w))" by (rule demo_volume_ok)
  show "locate_ok (BS volume_lib) blocks_of (\<lambda>w. set (demo_files w))"
    by (auto simp: locate_ok_def volume_lib_def intro: exI [of _ "[]"])
  show "load_ok (\<lambda>i p b n buf s. (EFI_NOT_FOUND, n, s)) blocks_of (\<lambda>w. set (demo_files w))"
    by (simp add: load_ok_def)
  show "snd (BS_FreePool (BS volume_lib) 0 s) = s" if "0 \<notin> fst ` blocks_of (fw s)" for s
  proof -
    have "map_of (demo_blocks (fw s)) 0 = None"
      using that by (force simp: blocks_of_def Map.graph_def image_iff)
    then have "0 \<notin> fst ` set (demo_blocks (fw s))" by (simp add: map_of_eq_None_iff)
    then have "AList.delete 0 (demo_blocks (fw s)) = demo_blocks (fw s)" by (rule delete_id)
    then show ?thesis by (simp add: volume_lib_def demo_boot_def demo_free_def)
  qed
  show "0 \<notin> fst ` blocks_of (fw demo_path_state)"
    by (auto simp: demo_path_state_def demo_mem_def blocks_of_def Map.graph_def split: if_splits)
  have "length (ram demo_path_state) = 113" by code_simp
  then show "length (ram demo_path_state) < 2 ^ 64" by simp
  show "path_at (ram demo_path_state) 1 demo_file_path"
    unfolding path_at_def demo_path_state_def using demo_mem_bytes [of _ "[]" _ "[]" 1 100]
    by (simp add: instance_ok_def demo_file_path_def node_ok_def)
  show "in_use (blocks_of (fw demo_path_state)) 1 (length (enc_nodes demo_file_path) + 4)"
    unfolding demo_path_state_def by (rule demo_mem_in_use) simp_all
qed

subsection \<open>Reading a window\<close>

lemma CopyMem_nothing: "CopyMem_1 m d s 0 = Some m"
  by (simp add: CopyMem_1_def RtCopyMem_def)

lemma copy_up_fits: "copy_up m d s n = Some m' \<Longrightarrow> n = 0 \<or> s + n \<le> length m"
proof (induction n arbitrary: m d s)
  case (Suc n)
  then obtain b m1 where b: "rd8 m s = Some b" "wr8 m d b = Some m1" "copy_up m1 (d + 1) (s + 1) n = Some m'"
    by (auto split: bind_splits)
  have "s < length m" "length m1 = length m" using b(1,2) by (auto simp: rd8_def wr8_def split: if_splits)
  then show ?case using Suc.IH [OF b(3)] by auto
qed simp

lemma CopyMem_too_long:
  assumes "length m < n" "d \<noteq> 0" "s \<noteq> 0" "s \<noteq> d"
  shows "CopyMem_1 m d s n = None"
proof -
  obtain k where k: "n = Suc k" using assms(1) by (cases n) auto
  have "copy_down m (d + n) (s + n) n = None"
    using assms(1) unfolding k by (simp add: rd8_def)
  moreover have "copy_up m d s n = None"
    using copy_up_fits [of m d s n] assms(1) by (cases "copy_up m d s n") auto
  ultimately show ?thesis using assms(2-4) by (simp add: CopyMem_1_def RtCopyMem_def)
qed

lemma read_window:
  assumes h: "handle_at (ram s) h free src n file" and src: "src \<noteq> 0" "unat src + unat n < 2 ^ 64"
    "bytes_at (ram s) (unat src) d" "length d = unat n"
    and buf: "mapped (ram s) Buffer (unat ReadSize)" and small: "unat Offset + unat ReadSize < 2 ^ 64"
  shows "ReadSimpleReadFile L F h Offset ReadSize Buffer s =
    (let w = take (unat ReadSize) (drop (unat Offset) d)
     in Some (EFI_SUCCESS, word_of_nat (length w), with_ram s (overwrite (ram s) Buffer w)))"
proof -
  have rd: "rd64 (ram s) (h + 16) = Some src" "rd64 (ram s) (h + 24) = Some n"
    using h by (simp_all add: handle_at_def)
  let ?w = "take (unat ReadSize) (drop (unat Offset) d)"
  define k where "k = (if Offset + ReadSize > n then (if Offset \<ge> n then 0 else n - Offset) else ReadSize)"
  have sum: "unat (Offset + ReadSize) = unat Offset + unat ReadSize"
    using small by (simp add: unat_word_ariths)
  have k: "unat k = length ?w"
    using sum src(4) by (auto simp: k_def word_less_nat_alt word_le_nat_alt unat_sub)
  have "CopyMem_1 (ram s) Buffer (unat (src + Offset)) (unat k) = Some (overwrite (ram s) Buffer ?w)"
  proof (cases "?w = []")
    case True
    then have "unat k = 0" using k by (simp only: list.size)
    then show ?thesis unfolding True by (simp add: CopyMem_nothing)
  next
    case False
    then have o: "unat Offset < unat n" using src(4) by (cases "unat Offset < unat n") auto
    have a: "unat (src + Offset) = unat src + unat Offset"
      using o src(2) by (simp add: unat_word_ariths)
    have "d = take (unat Offset) d @ ?w @ drop (unat ReadSize) (drop (unat Offset) d)" by (simp only: append_take_drop_id)
    then have "bytes_at (ram s) (unat src + length (take (unat Offset) d)) ?w"
      using src(3) by (metis bytes_at_append)
    then have w: "bytes_at (ram s) (unat (src + Offset)) ?w" using o src(4) by (simp add: a min_def)
    have m: "mapped (ram s) Buffer (length ?w)" using buf by (auto elim: mapped_mono)
    show ?thesis unfolding k using copy_bytes [OF m w] .
  qed
  then have "ReadSimpleReadFile L F h Offset ReadSize Buffer s =
      Some (EFI_SUCCESS, k, with_ram s (overwrite (ram s) Buffer ?w))"
    using rd src(1) by (simp add: ReadSimpleReadFile_def Let_def flip: k_def)
  moreover have "word_of_nat (length ?w) = k" unfolding k [symmetric] by simp
  ultimately show ?thesis by (simp add: Let_def)
qed

lemma read_wraps:
  assumes h: "handle_at (ram s) h free src n file" and src: "src \<noteq> 0" and buf: "Buffer \<noteq> 0"
    and wrap: "Offset + ReadSize \<le> n" and a: "src + Offset \<noteq> 0" "unat (src + Offset) \<noteq> Buffer"
  shows "ReadSimpleReadFile L F h Offset ReadSize Buffer s =
      map_option (\<lambda>m. (EFI_SUCCESS, ReadSize, with_ram s m))
        (CopyMem_1 (ram s) Buffer (unat (src + Offset)) (unat ReadSize))"
    "length (ram s) < unat ReadSize \<Longrightarrow> ReadSimpleReadFile L F h Offset ReadSize Buffer s = None"
proof -
  have "\<not> n < Offset + ReadSize" using wrap by (simp add: not_less)
  then show run: "ReadSimpleReadFile L F h Offset ReadSize Buffer s =
      map_option (\<lambda>m. (EFI_SUCCESS, ReadSize, with_ram s m))
        (CopyMem_1 (ram s) Buffer (unat (src + Offset)) (unat ReadSize))"
    using h src
    by (cases "CopyMem_1 (ram s) Buffer (unat (src + Offset)) (unat ReadSize)")
      (simp_all add: ReadSimpleReadFile_def handle_at_def Let_def)
  have "unat (src + Offset) \<noteq> 0" using a(1) by (metis unat_eq_zero)
  then show "ReadSimpleReadFile L F h Offset ReadSize Buffer s = None" if "length (ram s) < unat ReadSize"
    unfolding run using CopyMem_too_long [OF that buf _ a(2)] by simp
qed

text \<open>C38. Reading from a handle on contents in memory copies the window that starts at \<open>Offset\<close>, cut at the
  end of the contents, and gives its length, 0 behind the end; nothing else changes. But when
  \<open>Offset + ReadSize\<close> wraps around, the window is not cut: \<open>ReadSize\<close> bytes are copied, wherever they are,
  which is a fault when there are not that many.\<close>

theorem ReadSimpleReadFile_window:
  assumes h: "handle_at (ram s) h free src n file" and src: "src \<noteq> 0" "unat src + unat n < 2 ^ 64"
    "bytes_at (ram s) (unat src) d" "length d = unat n" and buf: "Buffer \<noteq> 0"
  shows "(mapped (ram s) Buffer (unat ReadSize) \<and> unat Offset + unat ReadSize < 2 ^ 64 \<longrightarrow>
      ReadSimpleReadFile L F h Offset ReadSize Buffer s =
        (let w = take (unat ReadSize) (drop (unat Offset) d)
         in Some (EFI_SUCCESS, word_of_nat (length w), with_ram s (overwrite (ram s) Buffer w)))) \<and>
    (2 ^ 64 \<le> unat Offset + unat ReadSize \<and> Offset + ReadSize \<le> n \<and> src + Offset \<noteq> 0 \<and> unat (src + Offset) \<noteq> Buffer \<longrightarrow>
      ReadSimpleReadFile L F h Offset ReadSize Buffer s =
        map_option (\<lambda>m. (EFI_SUCCESS, ReadSize, with_ram s m))
          (CopyMem_1 (ram s) Buffer (unat (src + Offset)) (unat ReadSize)) \<and>
      (length (ram s) < unat ReadSize \<longrightarrow> ReadSimpleReadFile L F h Offset ReadSize Buffer s = None))"
  using read_window [OF h src] read_wraps [OF h src(1) buf] by blast

definition demo_handle_state :: "demo st" where
  "demo_handle_state = demo_mem (le_bytes 8 (0x72647273 :: u64) @ replicate 8 0 @ le_bytes 8 (41 :: u64) @
     le_bytes 8 (4 :: u64) @ le_bytes 8 (0 :: u64) @ [10, 20, 30, 40]) 8"

theorem ReadSimpleReadFile_window_witness:
  "ReadSimpleReadFile volume_lib demo_volume 1 1 2 46 demo_handle_state =
     Some (EFI_SUCCESS, 2, with_ram demo_handle_state (overwrite (ram demo_handle_state) 46 [20, 30])) \<and>
   ReadSimpleReadFile volume_lib demo_volume 1 1 (- 1) 46 demo_handle_state = None"
proof
  have "handle_at (ram demo_handle_state) 1 0 41 4 0" "bytes_at (ram demo_handle_state) 41 [10, 20, 30, 40]"
    by code_simp+
  then have h: "handle_at (ram demo_handle_state) 1 0 41 4 0" "(41 :: u64) \<noteq> 0"
      "unat (41 :: u64) + unat (4 :: u64) < 2 ^ 64"
      "bytes_at (ram demo_handle_state) (unat (41 :: u64)) [10, 20, 30, 40]" "length [10, 20, 30, 40 :: u8] = unat (4 :: u64)"
      "(46 :: addr) \<noteq> 0" by simp_all
  note w = ReadSimpleReadFile_window [OF h, of _ _ volume_lib demo_volume]
  have l46: "length (ram demo_handle_state) = 53" by code_simp
  then have "mapped (ram demo_handle_state) 46 (unat (2 :: u64))" "unat (1 :: u64) + unat (2 :: u64) < 2 ^ 64"
    by (simp_all add: mapped_def)
  with w show "ReadSimpleReadFile volume_lib demo_volume 1 1 2 46 demo_handle_state =
     Some (EFI_SUCCESS, 2, with_ram demo_handle_state (overwrite (ram demo_handle_state) 46 [20, 30]))"
    by (simp add: Let_def)
  have m: "unat (- 1 :: u64) = 2 ^ 64 - 1" by (simp add: unsigned_minus_1_eq_mask mask_eq_exp_minus_1)
  have l: "length (ram demo_handle_state) < unat (- 1 :: u64)" unfolding m l46 by simp
  show "ReadSimpleReadFile volume_lib demo_volume 1 1 (- 1) 46 demo_handle_state = None"
  proof -
    have "2 ^ 64 \<le> unat (1 :: u64) + unat (- 1 :: u64) \<and> (1 :: u64) + - 1 \<le> 4 \<and> (41 :: u64) + 1 \<noteq> 0 \<and>
        unat ((41 :: u64) + 1) \<noteq> (46 :: addr)"
      by (simp add: m)
    with w [of "- 1" 1] l show ?thesis by blast
  qed
qed

end
