(* ===== verification/InitLib.thy ===== *)
theory InitLib
  imports Variables StrLib Handles
begin

text \<open>
  lib/init.c and lib/entry.c: the start of an application. \<open>_entry\<close> initialises the library, runs the
  constructors, the program and the destructors.

  \<open>'w globals\<close> holds the library's variables (lib/data.c, lib/runtime/rtdata.c): \<open>Lib\<close> the boot and runtime
  services in use and the pool's memory type, \<open>UnicodeInterface\<close> the address of the collation protocol,
  \<open>None\<close> for the library's stub. A system table is the pair of its service tables. \<open>InitializeGuid\<close> and
  \<open>InitializeLibPlatform\<close> are empty on x86_64. A function pointer is an address; \<open>Call\<close> is what the
  function does.
\<close>

record 'w system_table =
  BootServices :: "'w boot_services"
  RuntimeServices :: "'w runtime_services"

record 'w globals =
  LibInitialized :: bool
  LibFwInstance :: bool
  LibImageHandle :: addr
  Lib :: "'w lib"
  EFIDebug :: u64
  UnicodeInterface :: "addr option"

text \<open>The GUIDs and strings the code names, by their addresses, and the 8 bytes of \<open>NewEFIDebug\<close>.\<close>

record names =
  LoadedImageProtocol :: addr
  UnicodeCollationProtocol :: addr
  EfiGlobalVariable :: addr
  Name_EFIDebug :: addr
  VarLanguage :: addr
  NewEFIDebug :: addr

subsection \<open>Initialising the library\<close>

definition EFIDebugVariable :: "names \<Rightarrow> 'w globals \<Rightarrow> 'w st \<Rightarrow> ('w globals \<times> 'w st) option" where
  "EFIDebugVariable N G s =
     (case RT_GetVariable (RT (Lib G)) (Name_EFIDebug N) (EfiGlobalVariable N) 8 (NewEFIDebug N) s of
        (Status, DataSize, s) \<Rightarrow>
          if \<not> EFI_ERROR Status
          then do { v \<leftarrow> rd64 (ram s) (NewEFIDebug N); Some (G\<lparr>EFIDebug := v\<rparr>, s) }
          else Some (G, s))"

text \<open>Whether the language is one of those from \<open>Position\<close> on, three characters each.\<close>

function language_loop :: "mem \<Rightarrow> addr \<Rightarrow> addr \<Rightarrow> nat \<Rightarrow> nat \<Rightarrow> bool option" where
  "language_loop m Languages LangCode Length Position =
     (if Position < Length then do {
        d \<leftarrow> CompareMem m (Languages + Position) LangCode 3;
        if d = 0 then Some True else language_loop m Languages LangCode Length (Position + 3) }
      else Some False)"
  by pat_completeness auto
termination
  by (relation "measure (\<lambda>(m, l, c, n, p). n - p)") auto

declare language_loop.simps [simp del]

text \<open>The drivers, \<open>n\<close> handles from \<open>Handles\<close>. \<open>SupportedLanguages\<close> is at 48 in the interface.\<close>

primrec driver_loop ::
  "names \<Rightarrow> 'w globals \<Rightarrow> addr \<Rightarrow> addr \<Rightarrow> nat \<Rightarrow> 'w st \<Rightarrow> ('w globals \<times> 'w st) option" where
  "driver_loop N G LangCode Handles 0 s = Some (G, s)"
| "driver_loop N G LangCode Handles (Suc n) s = do {
     h \<leftarrow> rd64 (ram s) Handles;
     (case BS_HandleProtocol (BS (Lib G)) (unat h) (UnicodeCollationProtocol N) s of
        (Status, Ui, s) \<Rightarrow>
          if EFI_ERROR Status then driver_loop N G LangCode (Handles + 8) n s
          else do {
            Ui \<leftarrow> Ui;
            Languages \<leftarrow> rd64 (ram s) (Ui + 48);
            Length \<leftarrow> AsciiStrLen (ram s) (unat Languages);
            found \<leftarrow> language_loop (ram s) (unat Languages) LangCode Length 0;
            if found then Some (G\<lparr>UnicodeInterface := Some Ui\<rparr>, s)
            else driver_loop N G LangCode (Handles + 8) n s }) }"

definition InitializeUnicodeSupport ::
  "names \<Rightarrow> 'w globals \<Rightarrow> addr \<Rightarrow> 'w st \<Rightarrow> ('w globals \<times> 'w st) option" where
  "InitializeUnicodeSupport N G LangCode s = do {
     (Status, NoHandles, Handles, s) \<leftarrow> LibLocateHandle (Lib G) 2 (UnicodeCollationProtocol N) 0 s;
     (G, s) \<leftarrow>
       (if LangCode = 0 \<or> NoHandles = 0 then Some (G, s)
        else driver_loop N G LangCode Handles NoHandles s);
     Some (G, if Handles \<noteq> 0 then FreePool (Lib G) Handles s else s) }"

text \<open>\<open>ImageDataType\<close> is at 84 in \<open>EFI_LOADED_IMAGE\<close>.\<close>

definition InitializeLib ::
  "names \<Rightarrow> addr \<Rightarrow> 'w system_table \<Rightarrow> 'w globals \<Rightarrow> 'w st \<Rightarrow> ('w globals \<times> 'w st) option" where
  "InitializeLib N ImageHandle SystemTable G s =
     (if LibInitialized G then Some (G, s)
      else do {
        let G = G\<lparr>LibInitialized := True, LibFwInstance := False, LibImageHandle := ImageHandle,
                 Lib := (Lib G)\<lparr>BS := BootServices SystemTable, RT := RuntimeServices SystemTable\<rparr>\<rparr>;
        (G, s) \<leftarrow>
          (if ImageHandle \<noteq> 0 then
             (case BS_HandleProtocol (BS (Lib G)) ImageHandle (LoadedImageProtocol N) s of
                (Status, LoadedImage, s) \<Rightarrow> do {
                  G \<leftarrow> (if \<not> EFI_ERROR Status then do {
                         i \<leftarrow> LoadedImage;
                         t \<leftarrow> rd32 (ram s) (i + 84);
                         Some (G\<lparr>Lib := (Lib G)\<lparr>PoolAllocationType := t\<rparr>\<rparr>) }
                       else Some G);
                  EFIDebugVariable N G s })
           else Some (G, s));
        if ImageHandle \<noteq> 0 \<and> UnicodeInterface G = None then do {
          (LangCode, s) \<leftarrow> LibGetVariable (Lib G) (VarLanguage N) (EfiGlobalVariable N) s;
          (G, s) \<leftarrow> InitializeUnicodeSupport N G LangCode s;
          Some (G, if LangCode \<noteq> 0 then FreePool (Lib G) LangCode s else s) }
        else Some (G, s) })"

subsection \<open>Constructors, the program, destructors\<close>

text \<open>The functions in an array of \<open>n\<close> pointers, upwards from the \<open>i\<close>th or downwards from the end.\<close>

primrec call_up :: "(addr \<Rightarrow> 'w st \<Rightarrow> 'w st) \<Rightarrow> addr \<Rightarrow> nat \<Rightarrow> 'w st \<Rightarrow> 'w st option" where
  "call_up Call a 0 s = Some s"
| "call_up Call a (Suc n) s = do {
     f \<leftarrow> rd64 (ram s) a;
     call_up Call (a + 8) n (if f \<noteq> 0 then Call (unat f) s else s) }"

primrec call_down :: "(addr \<Rightarrow> 'w st \<Rightarrow> 'w st) \<Rightarrow> addr \<Rightarrow> nat \<Rightarrow> 'w st \<Rightarrow> 'w st option" where
  "call_down Call a 0 s = Some s"
| "call_down Call a (Suc n) s = do {
     f \<leftarrow> rd64 (ram s) (a + 8 * n);
     call_down Call a n (if f \<noteq> 0 then Call (unat f) s else s) }"

text \<open>The arrays, by the addresses of their start and end.\<close>

record arrays =
  init_array :: "addr \<times> addr"
  CTOR_LIST :: "addr \<times> addr"
  fini_array :: "addr \<times> addr"
  DTOR_LIST :: "addr \<times> addr"

definition entries_of :: "addr \<times> addr \<Rightarrow> nat" where
  "entries_of r = (snd r - fst r) div 8"

definition ctors :: "(addr \<Rightarrow> 'w st \<Rightarrow> 'w st) \<Rightarrow> arrays \<Rightarrow> 'w st \<Rightarrow> 'w st option" where
  "ctors Call A s = do {
     s \<leftarrow> call_up Call (fst (init_array A)) (entries_of (init_array A)) s;
     call_down Call (fst (CTOR_LIST A)) (entries_of (CTOR_LIST A)) s }"

definition dtors :: "(addr \<Rightarrow> 'w st \<Rightarrow> 'w st) \<Rightarrow> arrays \<Rightarrow> 'w st \<Rightarrow> 'w st option" where
  "dtors Call A s = do {
     s \<leftarrow> call_up Call (fst (DTOR_LIST A)) (entries_of (DTOR_LIST A)) s;
     call_down Call (fst (fini_array A)) (entries_of (fini_array A)) s }"

text \<open>\<open>efi_main\<close> is the application; it gets the library's variables.\<close>

definition entry ::
  "names \<Rightarrow> (addr \<Rightarrow> 'w st \<Rightarrow> 'w st) \<Rightarrow> ('w globals \<Rightarrow> addr \<Rightarrow> 'w system_table \<Rightarrow> 'w st \<Rightarrow> (u64 \<times> 'w st) option) \<Rightarrow>
   arrays \<Rightarrow> addr \<Rightarrow> 'w system_table \<Rightarrow> 'w globals \<Rightarrow> 'w st \<Rightarrow> (u64 \<times> 'w st) option" where
  "entry N Call efi_main A ImageHandle systab G s = do {
     (G, s) \<leftarrow> InitializeLib N ImageHandle systab G s;
     s \<leftarrow> ctors Call A s;
     (status, s) \<leftarrow> efi_main G ImageHandle systab s;
     s \<leftarrow> dtors Call A s;
     Some (status, s) }"

subsection \<open>Choosing the collation driver\<close>

lemma AsciiStrLen_eq: "str8_at m p t \<Longrightarrow> AsciiStrLen m p = Some (length t)"
proof -
  have "AsciiStrLen_loop m p n = Some (n + length t)" if "str8_at m p t" for n
    using that by (induction t arbitrary: p n) (simp_all add: AsciiStrLen_loop.simps [of m])
  then show "str8_at m p t \<Longrightarrow> AsciiStrLen m p = Some (length t)" by (simp add: AsciiStrLen_def)
qed

lemma str8_at_bytes: "str8_at m p t \<Longrightarrow> bytes_at m p (t @ [0])"
  by (induction t arbitrary: p)
    (simp_all add: bytes_at_Cons, auto simp: bytes_at_def rd_bytes_def rd8_def mapped_def region_def split: if_splits)

text \<open>The list of languages is a text of three letter codes \<open>cs\<close>.\<close>

lemma language_loop_eq:
  assumes code: "bytes_at m C code" "length code = 3"
  shows "bytes_at m (l + p) (concat cs) \<Longrightarrow> list_all (\<lambda>c. length c = 3) cs \<Longrightarrow>
    language_loop m l C (p + 3 * length cs) p = Some (code \<in> set cs)"
proof (induction cs arbitrary: p)
  case Nil
  then show ?case by (simp add: language_loop.simps)
next
  case (Cons c cs)
  have b: "bytes_at m (l + p) c" "bytes_at m (l + (p + 3)) (concat cs)" "length c = 3"
    using Cons.prems by (simp_all add: bytes_at_append add.assoc)
  have mm: "mapped m (l + p) 3" "mapped m C 3"
    using bytes_at_mapped [OF b(1)] bytes_at_mapped [OF code(1)] b(3) code(2) by simp_all
  obtain d where d: "RtCompareMem m (l + p) C 3 = Some d" using RtCompareMem_eq [OF mm] by blast
  have "d = 0 \<longleftrightarrow> c = code"
    using RtCompareMem_zero_iff [OF mm] d bytes_at_region [OF b(1)] bytes_at_region [OF code(1)] b(3) code(2) by simp
  moreover have "language_loop m l C (p + 3 * length (c # cs)) p =
      (if d = 0 then Some True else language_loop m l C (p + 3 + 3 * length cs) (p + 3))"
    using d by (subst language_loop.simps) (simp add: CompareMem_def algebra_simps)
  ultimately show ?case using Cons.IH [OF b(2)] Cons.prems(2) by auto
qed

text \<open>
  The collation drivers the firmware documents: the handles \<open>hs\<close>, \<open>ui h\<close> the interface of each, if it has one,
  and \<open>langs u\<close> the languages an interface supports. Asking for them has no side effect.
\<close>

definition drivers_ok :: "'w boot_services \<Rightarrow> addr \<Rightarrow> addr list \<Rightarrow> (addr \<Rightarrow> addr option) \<Rightarrow> bool" where
  "drivers_ok B g hs ui \<longleftrightarrow>
     (\<forall>n p s.
        if hs = [] then \<exists>n'. BS_LocateHandle B 2 g 0 n p s = (EFI_NOT_FOUND, n', s)
        else if n < 8 * length hs then BS_LocateHandle B 2 g 0 n p s = (EFI_BUFFER_TOO_SMALL, 8 * length hs, s)
        else mapped (ram s) p (8 * length hs) \<longrightarrow>
          BS_LocateHandle B 2 g 0 n p s = (EFI_SUCCESS, 8 * length hs,
            with_ram s (overwrite (ram s) p (concat (map (\<lambda>h. le_bytes 8 (word_of_nat h :: u64)) hs))))) \<and>
     (\<forall>h \<in> set hs. h < 2 ^ 64 \<and> (\<forall>s. case ui h of
        None \<Rightarrow> \<exists>st. EFI_ERROR st \<and> BS_HandleProtocol B h g s = (st, None, s)
      | Some u \<Rightarrow> BS_HandleProtocol B h g s = (EFI_SUCCESS, Some u, s)))"

definition speaks :: "ranges \<Rightarrow> mem \<Rightarrow> addr \<Rightarrow> u8 list list \<Rightarrow> bool" where
  "speaks K m u cs \<longleftrightarrow> (\<exists>l. bytes_at m (u + 48) (le_bytes 8 (l :: u64)) \<and> in_use K (u + 48) 8 \<and>
     str8_at m (unat l) (concat cs) \<and> in_use K (unat l) (length (concat cs) + 1) \<and>
     list_all (\<lambda>c. length c = 3) cs)"

definition chosen :: "(addr \<Rightarrow> addr option) \<Rightarrow> (addr \<Rightarrow> u8 list list) \<Rightarrow> u8 list \<Rightarrow> addr list \<Rightarrow> addr option" where
  "chosen ui langs code hs =
     List.find (\<lambda>u. code \<in> set (langs u)) (concat (map (\<lambda>h. case ui h of None \<Rightarrow> [] | Some u \<Rightarrow> [u]) hs))"

lemma speaks_same_on:
  assumes "same_on K m m'" "speaks K m u cs"
  shows "speaks K m' u cs"
proof -
  obtain l where l: "bytes_at m (u + 48) (le_bytes 8 (l :: u64))" "in_use K (u + 48) 8"
      "str8_at m (unat l) (concat cs)" "in_use K (unat l) (length (concat cs) + 1)"
      "list_all (\<lambda>c. length c = 3) cs"
    using assms(2) by (auto simp: speaks_def)
  have "bytes_at m' (unat l) (concat cs @ [0])"
    using bytes_at_same_on [OF assms(1) _ str8_at_bytes [OF l(3)]] l(4) by simp
  moreover have "0 \<notin> set t" if "str8_at m p t" for p t using that by (induction t arbitrary: p) auto
  moreover have "str8_at m' p t" if "bytes_at m' p (t @ [0])" "0 \<notin> set t" for p t
    using that by (induction t arbitrary: p) (auto simp: bytes_at_Cons)
  ultimately have "str8_at m' (unat l) (concat cs)" using l(3) by blast
  moreover have "bytes_at m' (u + 48) (le_bytes 8 l)" using bytes_at_same_on [OF assms(1) _ l(1)] l(2) by simp
  ultimately show ?thesis using l(2,4,5) by (auto simp: speaks_def)
qed

lemma driver_loop_eq:
  assumes ok: "drivers_ok (BS (Lib G)) (UnicodeCollationProtocol N) hs0 ui"
    and code: "bytes_at (ram s) LangCode code" "length code = 3"
    and sp: "\<forall>h \<in> set hs0. \<forall>u. ui h = Some u \<longrightarrow> speaks K (ram s) u (langs u)"
  shows "set hs \<subseteq> set hs0 \<Longrightarrow>
    bytes_at (ram s) Handles (concat (map (\<lambda>h. le_bytes 8 (word_of_nat h :: u64)) hs)) \<Longrightarrow>
    driver_loop N G LangCode Handles (length hs) s =
      Some (case chosen ui langs code hs of None \<Rightarrow> G | Some u \<Rightarrow> G\<lparr>UnicodeInterface := Some u\<rparr>, s)"
proof (induction hs arbitrary: Handles)
  case Nil
  then show ?case by (simp add: chosen_def)
next
  case (Cons h hs)
  have b: "rd64 (ram s) Handles = Some (word_of_nat h)"
      "bytes_at (ram s) (Handles + 8) (concat (map (\<lambda>h. le_bytes 8 (word_of_nat h :: u64)) hs))"
    using Cons.prems(2) by (simp_all add: bytes_at_append bytes_at_words(3) [of _ _ _ "[]"])
  have h: "h \<in> set hs0" using Cons.prems(1) by simp
  then have u: "unat (word_of_nat h :: u64) = h" using ok by (simp add: drivers_ok_def unat_word_of_nat)
  note IH = Cons.IH [OF _ b(2)]
  have proto: "case ui h of
        None \<Rightarrow> \<exists>st. EFI_ERROR st \<and> BS_HandleProtocol (BS (Lib G)) h (UnicodeCollationProtocol N) s = (st, None, s)
      | Some u \<Rightarrow> BS_HandleProtocol (BS (Lib G)) h (UnicodeCollationProtocol N) s = (EFI_SUCCESS, Some u, s)"
    using ok h by (simp add: drivers_ok_def)
  show ?case
  proof (cases "ui h")
    case None
    then obtain st where "EFI_ERROR st"
        "BS_HandleProtocol (BS (Lib G)) h (UnicodeCollationProtocol N) s = (st, None, s)" using proto by auto
    then show ?thesis using IH Cons.prems(1) b(1) u None by (simp add: chosen_def)
  next
    case (Some v)
    then have p: "BS_HandleProtocol (BS (Lib G)) h (UnicodeCollationProtocol N) s = (EFI_SUCCESS, Some v, s)"
      using proto by simp
    obtain l where l: "bytes_at (ram s) (v + 48) (le_bytes 8 (l :: u64))"
        "str8_at (ram s) (unat l) (concat (langs v))" "list_all (\<lambda>c. length c = 3) (langs v)"
      using sp h Some by (auto simp: speaks_def)
    have "length (concat cs) = 3 * length cs" if "list_all (\<lambda>c. length c = 3) cs" for cs :: "u8 list list"
      using that by (induction cs) auto
    then have len: "length (concat (langs v)) = 3 * length (langs v)" using l(3) by blast
    have "bytes_at (ram s) (unat l + 0) (concat (langs v))"
      using str8_at_bytes [OF l(2)] by (simp add: bytes_at_append)
    then have loop: "language_loop (ram s) (unat l) LangCode (length (concat (langs v))) 0 =
        Some (code \<in> set (langs v))"
      using language_loop_eq [OF code, of "unat l" 0 "langs v"] l(3) len by simp
    have rdl: "rd64 (ram s) (v + 48) = Some l" using bytes_at_words(3) [of _ _ l "[]"] l(1) by simp
    show ?thesis
      using IH Cons.prems(1) b(1) u p rdl AsciiStrLen_eq [OF l(2)] loop Some
      by (simp add: chosen_def del: length_concat)
  qed
qed

text \<open>The list of the drivers: a new block with their handles, or none.\<close>

lemma drivers_located:
  fixes L :: "'w lib"
  defines "d \<equiv> \<lambda>hs. concat (map (\<lambda>h. le_bytes 8 (word_of_nat h :: u64)) hs)"
  assumes pool: "pool_ok (BS L) blocks" and ok: "drivers_ok (BS L) g hs ui"
  shows "\<exists>st n h s1. LibLocateHandle L 2 g 0 s = Some (st, n, h, s1) \<and> same_on (blocks (fw s)) (ram s) (ram s1) \<and>
    (if h = 0 then n = 0 \<and> blocks (fw s1) = blocks (fw s) \<and> (st = EFI_OUT_OF_RESOURCES \<or> hs = [])
     else st = EFI_SUCCESS \<and> n = length hs \<and> hs \<noteq> [] \<and> got_block blocks (d hs) s h (8 * n) s1) \<and>
    (hs \<noteq> [] \<longrightarrow> (h \<noteq> 0 \<longleftrightarrow> pool_gives L 400 (8 * length hs) s))"
proof -
  have len: "length (d hs) = 8 * length hs" unfolding d_def by (induction hs) simp_all
  have keeps: "pool_keeps (BS L) (\<lambda>_. ())" by (simp add: pool_keeps_def)
  show ?thesis
  proof (cases "hs = []")
    case True
    have "\<exists>n'. locate_call L 2 g 0 n p () s1 = (EFI_NOT_FOUND, n', (), s1)" for n p s1
    proof -
      have "\<exists>n'. BS_LocateHandle (BS L) 2 g 0 n p s1 = (EFI_NOT_FOUND, n', s1)"
        using ok True by (simp add: drivers_ok_def)
      then show ?thesis by (auto simp: locate_call_def)
    qed
    then obtain st n' s' where "grow_loop L (locate_call L 2 g 0) EFI_SUCCESS 0 400 () s =
          Some (st, 0, n', (), s')" "same_on (blocks (fw s)) (ram s) (ram s')" "blocks (fw s') = blocks (fw s)"
        "st = EFI_NOT_FOUND \<or> st = EFI_OUT_OF_RESOURCES"
      using grow_loop_fails [OF pool keeps, of 400 EFI_NOT_FOUND s "locate_call L 2 g 0" "()"] by auto
    then show ?thesis using True by (auto simp: LibLocateHandle_def)
  next
    case False
    have call: "(n < length (d hs) \<longrightarrow> locate_call L 2 g 0 n p () s1 = (EFI_BUFFER_TOO_SMALL, length (d hs), (), s1)) \<and>
      (length (d hs) \<le> n \<longrightarrow> mapped (ram s1) p (length (d hs)) \<longrightarrow>
         locate_call L 2 g 0 n p () s1 = (EFI_SUCCESS, length (d hs), (), with_ram s1 (overwrite (ram s1) p (d hs))))"
      for n p s1
      using ok False unfolding len drivers_ok_def by (auto simp: locate_call_def d_def not_less)
    have n: "(0 :: nat) < 400" by simp
    obtain st p n' s1 where g: "grow_loop L (locate_call L 2 g 0) EFI_SUCCESS 0 400 () s =
          Some (st, p, n', (), s1)" "same_on (blocks (fw s)) (ram s) (ram s1)"
        "if pool_gives L 400 (8 * length hs) s then p \<noteq> 0 \<and> st = EFI_SUCCESS \<and> got_block blocks (d hs) s p n' s1
         else p = 0 \<and> st = EFI_OUT_OF_RESOURCES \<and> blocks (fw s1) = blocks (fw s)"
      using grow_loop_reads_or_exhausted [where L = L and blocks = blocks and v = "\<lambda>_. ()" and n = 400 and s = s
          and call = "locate_call L 2 g 0" and x = "()" and d = "d hs", OF pool keeps n call] unfolding len by (elim exE conjE) (rule that)
    from g(3) len False show ?thesis
      using g(1,2) by (cases "p = 0") (auto simp: LibLocateHandle_def got_block_def split: if_splits)
  qed
qed

text \<open>C39. \<open>InitializeUnicodeSupport\<close> selects the collation driver for a language: of the drivers the firmware
  lists, in its order, the first whose list of languages has the code; without one the interface in use
  stays. It always returns, and the buffer for the list of handles is freed. Only when the pool does not give
  that buffer, of 400 bytes or, if that is not enough, of 8 for every driver, is nothing selected.\<close>

theorem InitializeUnicodeSupport_selects:
  assumes pool: "pool_ok (BS (Lib G)) blocks"
    and ok: "drivers_ok (BS (Lib G)) (UnicodeCollationProtocol N) hs ui"
    and code: "bytes_at (ram s) LangCode code" "length code = 3" "in_use (blocks (fw s)) LangCode 3"
    and sp: "\<forall>h \<in> set hs. \<forall>u. ui h = Some u \<longrightarrow> speaks (blocks (fw s)) (ram s) u (langs u)"
  shows "\<exists>G' s'. InitializeUnicodeSupport N G LangCode s = Some (G', s') \<and> blocks (fw s') = blocks (fw s) \<and>
    same_on (blocks (fw s)) (ram s) (ram s') \<and>
    G' = (if \<not> pool_gives (Lib G) 400 (8 * length hs) s then G
          else case chosen ui langs code hs of None \<Rightarrow> G | Some u \<Rightarrow> G\<lparr>UnicodeInterface := Some u\<rparr>)"
proof -
  let ?K = "blocks (fw s)" and ?g = "UnicodeCollationProtocol N"
  have LangCode: "LangCode \<noteq> 0" using bytes_at_mapped [OF code(1)] by (simp add: mapped_def)
  obtain st n p s1 where l: "LibLocateHandle (Lib G) 2 ?g 0 s = Some (st, n, p, s1)" "same_on ?K (ram s) (ram s1)"
      "if p = 0 then n = 0 \<and> blocks (fw s1) = ?K \<and> (st = EFI_OUT_OF_RESOURCES \<or> hs = [])
       else st = EFI_SUCCESS \<and> n = length hs \<and> hs \<noteq> [] \<and>
         got_block blocks (concat (map (\<lambda>h. le_bytes 8 (word_of_nat h :: u64)) hs)) s p (8 * n) s1"
      "hs \<noteq> [] \<longrightarrow> (p \<noteq> 0 \<longleftrightarrow> pool_gives (Lib G) 400 (8 * length hs) s)"
    using drivers_located [OF pool ok, of s] by blast
  show ?thesis
  proof (cases "p = 0")
    case True
    then show ?thesis using l by (auto simp: InitializeUnicodeSupport_def chosen_def)
  next
    case p: False
    then obtain k where gb: "st = EFI_SUCCESS" "n = length hs" "hs \<noteq> []"
        "bytes_at (ram s1) p (concat (map (\<lambda>h. le_bytes 8 (word_of_nat h :: u64)) hs))"
        "(p, k) \<notin> ?K" "\<forall>(q, j) \<in> ?K. disjoint_ranges p k q j" "blocks (fw s1) = insert (p, k) ?K"
      using l(3) by (auto simp: got_block_def bytes_at_def rd_bytes_def split: if_splits)
    have c1: "bytes_at (ram s1) LangCode code" using bytes_at_same_on [OF l(2) _ code(1)] code(2,3) by simp
    have s1: "\<forall>h \<in> set hs. \<forall>u. ui h = Some u \<longrightarrow> speaks ?K (ram s1) u (langs u)"
      using sp speaks_same_on [OF l(2)] by blast
    have run: "InitializeUnicodeSupport N G LangCode s = Some
        (case chosen ui langs code hs of None \<Rightarrow> G | Some u \<Rightarrow> G\<lparr>UnicodeInterface := Some u\<rparr>, FreePool (Lib G) p s1)"
      using l(1) gb(2,3) p LangCode driver_loop_eq [OF ok c1 code(2) s1 order.refl gb(4)]
      by (auto simp: InitializeUnicodeSupport_def split: option.splits)
    have "(p, k) \<in> blocks (fw s1)" using gb(7) by simp
    note fr = FreePool_block [OF pool this gb(6)]
    have "EFI_SUCCESS \<noteq> EFI_OUT_OF_RESOURCES" by (simp add: EFI_SUCCESS_def EFI_OUT_OF_RESOURCES_def)
    moreover have "same_on ?K (ram s) (ram (FreePool (Lib G) p s1))" using same_on_trans [OF l(2) fr(1)] .
    ultimately show ?thesis using run fr(2) gb(3,5,7) l(4) p by auto
  qed
qed

definition ui_boot :: "demo boot_services" where
  "ui_boot = demo_boot\<lparr>
     BS_LocateHandle := (\<lambda>t g k n p s.
       if n < 16 then (EFI_BUFFER_TOO_SMALL, 16, s)
       else (EFI_SUCCESS, 16, with_ram s (overwrite (ram s) p (le_bytes 8 (5 :: u64) @ le_bytes 8 (6 :: u64))))),
     BS_HandleProtocol := (\<lambda>h g s. if h = 6 then (EFI_SUCCESS, Some 1, s) else (EFI_UNSUPPORTED, None, s))\<rparr>"

definition ui_globals :: "demo globals" where
  "ui_globals = \<lparr> LibInitialized = True, LibFwInstance = False, LibImageHandle = 7, Lib = demo_lib\<lparr>BS := ui_boot\<rparr>,
     EFIDebug = 0, UnicodeInterface = None \<rparr>"

definition ui_names :: names where
  "ui_names = \<lparr> LoadedImageProtocol = 20, UnicodeCollationProtocol = 21, EfiGlobalVariable = 22, Name_EFIDebug = 23,
     VarLanguage = 24, NewEFIDebug = 25 \<rparr>"

text \<open>An interface at 1 with the languages \<open>engfra\<close> at 57, and the code \<open>fra\<close> at 64.\<close>

definition ui_state :: "demo st" where
  "ui_state = demo_mem (replicate 48 0 @ le_bytes 8 (57 :: u64) @ [101, 110, 103, 102, 114, 97, 0] @ [102, 114, 97]) 500"

lemma ui_drivers: "drivers_ok ui_boot g [5, 6] (\<lambda>h. if h = 6 then Some 1 else None)"
  by (auto simp: drivers_ok_def ui_boot_def)

theorem InitializeUnicodeSupport_selects_witness:
  "\<exists>s'. InitializeUnicodeSupport ui_names ui_globals 64 ui_state = Some (ui_globals\<lparr>UnicodeInterface := Some 1\<rparr>, s') \<and>
    blocks_of (fw s') = blocks_of (fw ui_state) \<and> same_on (blocks_of (fw ui_state)) (ram ui_state) (ram s')"
proof -
  let ?langs = "\<lambda>u :: addr. [[101, 110, 103], [102, 114, 97]] :: u8 list list"
  have pool: "pool_ok (BS (Lib ui_globals)) blocks_of"
    using demo_pool_ok by (simp add: pool_ok_def ui_globals_def ui_boot_def)
  have ok: "drivers_ok (BS (Lib ui_globals)) (UnicodeCollationProtocol ui_names) [5, 6] (\<lambda>h. if h = 6 then Some 1 else None)"
    using ui_drivers by (simp add: ui_globals_def)
  have code: "bytes_at (ram ui_state) 64 [102, 114, 97]" "length [102, 114, 97 :: u8] = 3"
    unfolding ui_state_def
    by (rule demo_mem_bytes [of _ "replicate 48 0 @ le_bytes 8 (57 :: u64) @ [101, 110, 103, 102, 114, 97, 0]" _ "[]"]) simp_all
  have ub: "in_use (blocks_of (fw ui_state)) p n" if "1 \<le> p" "p + n \<le> 67" for p n
    unfolding ui_state_def by (rule demo_mem_in_use) (use that in simp_all)
  have "str8_at (ram ui_state) 57 [101, 110, 103, 102, 114, 97]" "bytes_at (ram ui_state) 49 (le_bytes 8 (57 :: u64))"
    by code_simp+
  then have "speaks (blocks_of (fw ui_state)) (ram ui_state) 1 (?langs 1)"
    unfolding speaks_def by (intro exI [of _ "57 :: u64"]) (simp add: ub)
  then have sp: "\<forall>h \<in> set [5, 6 :: addr]. \<forall>u. (if h = 6 then Some (1 :: addr) else None) = Some u \<longrightarrow>
      speaks (blocks_of (fw ui_state)) (ram ui_state) u (?langs u)" by simp
  have "in_use (blocks_of (fw ui_state)) 64 3" by (rule ub) simp_all
  note r = InitializeUnicodeSupport_selects [OF pool ok code this sp]
  have "chosen (\<lambda>h. if h = 6 then Some 1 else None) ?langs [102, 114, 97] [5, 6] = Some 1" by (simp add: chosen_def)
  moreover have "pool_gives (Lib ui_globals) 400 (8 * length [5, 6 :: addr]) ui_state"
    by (simp add: pool_gives_def AllocatePool_def FreePool_def ui_globals_def ui_boot_def demo_lib_def demo_boot_def demo_alloc_def
        demo_free_def demo_top_def ui_state_def demo_mem_def)
  ultimately show ?thesis using r by simp
qed

subsection \<open>The order of constructors and destructors\<close>

definition array_at :: "mem \<Rightarrow> addr \<times> addr \<Rightarrow> addr list \<Rightarrow> bool" where
  "array_at m r fs \<longleftrightarrow> snd r = fst r + 8 * length fs \<and> list_all (\<lambda>f. f < 2 ^ 64) fs \<and>
     bytes_at m (fst r) (concat (map (\<lambda>f. le_bytes 8 (word_of_nat f :: u64)) fs))"

definition call_all :: "(addr \<Rightarrow> 'w st \<Rightarrow> 'w st) \<Rightarrow> addr list \<Rightarrow> 'w st \<Rightarrow> 'w st" where
  "call_all Call fs s = fold Call (filter (\<lambda>f. f \<noteq> 0) fs) s"

definition leaves :: "(addr \<Rightarrow> 'w st \<Rightarrow> 'w st) \<Rightarrow> addr \<times> addr \<Rightarrow> bool" where
  "leaves Call r \<longleftrightarrow> (\<forall>f s fs. array_at (ram s) r fs \<longrightarrow> array_at (ram (Call f s)) r fs)"

lemma array_at_nth:
  assumes "array_at m r (as @ f # bs)"
  obtains w where "rd64 m (fst r + 8 * length as) = Some w" "unat w = f" "w = 0 \<longleftrightarrow> f = 0"
proof -
  have "length (concat (map (\<lambda>f. le_bytes 8 (word_of_nat f :: u64)) as)) = 8 * length as"
    by (induction as) simp_all
  then have f: "rd64 m (fst r + 8 * length as) = Some (word_of_nat f)" "f < 2 ^ 64"
    using assms by (auto simp: array_at_def bytes_at_append bytes_at_words(3) [of _ _ _ "[]"] simp del: length_concat)
  obtain w :: u64 where w: "w = word_of_nat f" by simp
  then have u: "unat w = f" using f(2) by (simp add: unat_word_of_nat)
  then have "w = 0 \<longleftrightarrow> f = 0" by (metis unat_eq_zero)
  then show ?thesis using that [of w] f(1) u unfolding w by simp
qed

lemma array_at_called:
  "leaves Call r \<Longrightarrow> array_at (ram s) r fs \<Longrightarrow> array_at (ram (if f \<noteq> 0 then Call f s else s)) r fs"
  by (simp add: leaves_def)

lemma call_up_eq:
  assumes lv: "leaves Call r" and a: "array_at (ram s) r fs"
  shows "call_up Call (fst r) (length fs) s = Some (call_all Call fs s)"
proof -
  have "call_up Call (fst r + 8 * length as) (length bs) s = Some (call_all Call bs s)"
    if "array_at (ram s) r (as @ bs)" for as bs s
    using that
  proof (induction bs arbitrary: as s)
    case Nil
    then show ?case by (simp add: call_all_def)
  next
    case (Cons f bs)
    obtain w where w: "rd64 (ram s) (fst r + 8 * length as) = Some w" "unat w = f" "w = 0 \<longleftrightarrow> f = 0"
      by (rule array_at_nth [OF Cons.prems])
    have "array_at (ram (if f \<noteq> 0 then Call f s else s)) r ((as @ [f]) @ bs)"
      using array_at_called [OF lv Cons.prems, of f] by simp
    from Cons.IH [OF this] show ?case
      using w by (cases "f = 0") (simp_all add: call_all_def algebra_simps)
  qed
  from this [of s "[]" fs] a show ?thesis by simp
qed

lemma call_down_eq:
  assumes lv: "leaves Call r"
  shows "array_at (ram s) r (as @ bs) \<Longrightarrow> call_down Call (fst r) (length as) s = Some (call_all Call (rev as) s)"
proof (induction as arbitrary: bs s rule: rev_induct)
  case Nil
  then show ?case by (simp add: call_all_def)
next
  case (snoc f as)
  have a: "array_at (ram s) r (as @ f # bs)" using snoc.prems by simp
  obtain w where w: "rd64 (ram s) (fst r + 8 * length as) = Some w" "unat w = f" "w = 0 \<longleftrightarrow> f = 0"
    by (rule array_at_nth [OF a])
  from snoc.IH [OF array_at_called [OF lv a, of f]] show ?case
    using w by (cases "f = 0") (simp_all add: call_all_def)
qed

lemma entries_of_array: "array_at m r fs \<Longrightarrow> entries_of r = length fs"
  by (simp add: array_at_def entries_of_def)

lemma call_all_leaves: "leaves Call r \<Longrightarrow> array_at (ram s) r fs \<Longrightarrow> array_at (ram (call_all Call gs s)) r fs"
  unfolding call_all_def by (induction gs arbitrary: s) (simp_all add: leaves_def)

text \<open>C19. The order of start-up: the library is initialised, then the initialisers run in the order of
  their array and the constructors against the order of their list; when the program has returned, the
  destructors run in the order of their list and the finalisers against the order of their array. Null
  entries, which may be anywhere, are skipped, and the status is the program's.\<close>

theorem entry_order:
  assumes init: "InitializeLib N ImageHandle systab G s = Some (G', s1)"
    and arrays: "array_at (ram s1) (init_array A) is" "array_at (ram s1) (CTOR_LIST A) cs"
      "array_at (ram s1) (fini_array A) fs" "array_at (ram s1) (DTOR_LIST A) ds"
    and calls: "leaves Call (init_array A)" "leaves Call (CTOR_LIST A)" "leaves Call (fini_array A)" "leaves Call (DTOR_LIST A)"
    and main: "\<And>s st s'. efi_main G' ImageHandle systab s = Some (st, s') \<Longrightarrow>
      array_at (ram s) (fini_array A) fs \<and> array_at (ram s) (DTOR_LIST A) ds \<Longrightarrow>
      array_at (ram s') (fini_array A) fs \<and> array_at (ram s') (DTOR_LIST A) ds"
  shows "entry N Call efi_main A ImageHandle systab G s =
    map_option (\<lambda>(st, s). (st, call_all Call (rev fs) (call_all Call ds s)))
      (efi_main G' ImageHandle systab (call_all Call (rev cs) (call_all Call is s1)))"
proof -
  note leaves_all = calls [THEN call_all_leaves]
  let ?s2 = "call_all Call (rev cs) (call_all Call is s1)"
  have c: "ctors Call A s1 = Some ?s2"
    using call_up_eq [OF calls(1) arrays(1)] call_down_eq [OF calls(2), of "call_all Call is s1" cs "[]"]
      leaves_all(2) [OF arrays(2)] entries_of_array [OF arrays(1)] entries_of_array [OF arrays(2)]
    by (simp add: ctors_def)
  show ?thesis
  proof (cases "efi_main G' ImageHandle systab ?s2")
    case None
    then show ?thesis using init c by (simp add: entry_def)
  next
    case (Some r)
    then obtain st s3 where r: "efi_main G' ImageHandle systab ?s2 = Some (st, s3)" by (cases r) simp
    have "array_at (ram ?s2) (fini_array A) fs \<and> array_at (ram ?s2) (DTOR_LIST A) ds"
      using leaves_all(3,4) arrays(3,4) by simp
    then have a: "array_at (ram s3) (fini_array A) fs" "array_at (ram s3) (DTOR_LIST A) ds"
      using main [OF r] by simp_all
    have "dtors Call A s3 = Some (call_all Call (rev fs) (call_all Call ds s3))"
      using call_up_eq [OF calls(4) a(2)] call_down_eq [OF calls(3), of "call_all Call ds s3" fs "[]"]
        leaves_all(3) [OF a(1)] entries_of_array [OF a(1)] entries_of_array [OF a(2)]
      by (simp add: dtors_def)
    then show ?thesis using init c r by (simp add: entry_def)
  qed
qed

text \<open>Functions that log their address on the demo firmware's list of keys.\<close>

definition log_call :: "addr \<Rightarrow> demo st \<Rightarrow> demo st" where
  "log_call f s = s\<lparr>fw := (fw s)\<lparr>demo_keys := demo_keys (fw s) @ [word_of_nat f]\<rparr>\<rparr>"

definition demo_arrays :: arrays where
  "demo_arrays = \<lparr> init_array = (1, 17), CTOR_LIST = (17, 41), fini_array = (41, 57), DTOR_LIST = (57, 65) \<rparr>"

definition arrays_state :: "demo st" where
  "arrays_state = demo_mem (concat (map (\<lambda>f. le_bytes 8 (word_of_nat f :: u64)) [101, 102, 0, 103, 104, 105, 106, 107])) 0"

theorem entry_order_witness:
  "entry ui_names log_call (\<lambda>G h t s. Some (9, log_call 200 s)) demo_arrays 0 \<lparr> BootServices = demo_boot, RuntimeServices = demo_runtime \<rparr>
     ui_globals arrays_state =
   Some (9, arrays_state\<lparr>fw := (fw arrays_state)\<lparr>demo_keys := [101, 102, 104, 103, 200, 107, 106, 105]\<rparr>\<rparr>)"
proof -
  have init: "InitializeLib ui_names 0 \<lparr> BootServices = demo_boot, RuntimeServices = demo_runtime \<rparr> ui_globals arrays_state =
      Some (ui_globals, arrays_state)" by (simp add: InitializeLib_def ui_globals_def)
  have at_words: "array_at (ram arrays_state) (1 + 8 * length as, 1 + 8 * length as + 8 * length fs) fs"
    if "as @ fs @ bs = [101, 102, 0, 103, 104, 105, 106, 107]" for as fs bs
  proof -
    let ?ws = "\<lambda>fs. concat (map (\<lambda>f. le_bytes 8 (word_of_nat f :: u64)) fs)"
    have e: "?ws [101, 102, 0, 103, 104, 105, 106, 107] = ?ws as @ ?ws fs @ ?ws bs" unfolding that [symmetric] by simp
    have l: "length (?ws as) = 8 * length as" by (induction as) simp_all
    have "bytes_at (ram arrays_state) (1 + 8 * length as) (?ws fs)"
      unfolding arrays_state_def using demo_mem_bytes [OF e refl] unfolding l .
    moreover have "list_all (\<lambda>f. f < 2 ^ 64) (as @ fs @ bs)" unfolding that by simp
    ultimately show ?thesis by (simp add: array_at_def)
  qed
  have a: "array_at (ram arrays_state) (init_array demo_arrays) [101, 102]"
      "array_at (ram arrays_state) (CTOR_LIST demo_arrays) [0, 103, 104]"
      "array_at (ram arrays_state) (fini_array demo_arrays) [105, 106]"
      "array_at (ram arrays_state) (DTOR_LIST demo_arrays) [107]"
    using at_words [of "[]" "[101, 102]"] at_words [of "[101, 102]" "[0, 103, 104]"]
      at_words [of "[101, 102, 0, 103, 104]" "[105, 106]" "[107]"] at_words [of "[101, 102, 0, 103, 104, 105, 106]" "[107]" "[]"]
    by (simp_all add: demo_arrays_def)
  have lv: "leaves log_call r" for r by (simp add: leaves_def log_call_def)
  have "entry ui_names log_call (\<lambda>G h t s. Some (9, log_call 200 s)) demo_arrays 0
      \<lparr> BootServices = demo_boot, RuntimeServices = demo_runtime \<rparr> ui_globals arrays_state =
    map_option (\<lambda>(st, s). (st, call_all log_call (rev [105, 106]) (call_all log_call [107] s)))
      (Some (9, log_call 200 (call_all log_call (rev [0, 103, 104]) (call_all log_call [101, 102] arrays_state))))"
    by (rule entry_order [OF init a lv lv lv lv, where efi_main = "\<lambda>G h t s. Some (9, log_call 200 s)"])
      (auto simp: log_call_def)
  then show ?thesis by (simp add: call_all_def log_call_def arrays_state_def demo_mem_def)
qed

end
