(* ===== verification/Elf.thy ===== *)
theory Elf
  imports Pool
begin

unbundle bit_operations_syntax

text \<open>
  lib/pickle/amoeba/elf.cc with inc/pickle/amoeba/elf.h and small_elf.h: the loader of ELF images.

  \<open>elf\<close> holds the members of the class \<open>Elf\<close>; the image is the buffer at \<open>Data\<close> of \<open>Size\<close> bytes. The page
  services are parameters: \<open>AllocatePages\<close> gets the kind of allocation, the memory type, the number of
  pages and \<open>*Memory\<close>, and gives \<open>*Memory\<close> back. \<open>Say\<close> is the library's \<open>Print\<close>, with the message and the
  arguments; what it writes to a console is the subject of PrintOut.
\<close>

record 'w page_services =
  BS_AllocatePages :: "u32 \<Rightarrow> u32 \<Rightarrow> u64 \<Rightarrow> u64 \<Rightarrow> 'w st \<Rightarrow> u64 \<times> u64 \<times> 'w st"
  BS_FreePages :: "u64 \<Rightarrow> u64 \<Rightarrow> 'w st \<Rightarrow> u64 \<times> 'w st"
  BS_SetMem :: "addr \<Rightarrow> nat \<Rightarrow> u8 \<Rightarrow> 'w st \<Rightarrow> 'w st option"

type_synonym 'w say = "string \<Rightarrow> u64 list \<Rightarrow> 'w st \<Rightarrow> 'w st"

text \<open>Messages that end in a carriage return and a newline, or in a newline alone.\<close>

definition ln :: "string \<Rightarrow> string" where "ln t = t @ [CHR 0x0D, CHR 0x0A]"
definition nl :: "string \<Rightarrow> string" where "nl t = t @ [CHR 0x0A]"

subsection \<open>Headers\<close>

definition e_magic :: "mem \<Rightarrow> addr \<Rightarrow> u32 option" where "e_magic m e = rd32 m e"
definition e_ident :: "mem \<Rightarrow> addr \<Rightarrow> nat \<Rightarrow> u8 option" where "e_ident m e i = rd8 m (e + 4 + i)"
definition e_type :: "mem \<Rightarrow> addr \<Rightarrow> u16 option" where "e_type m e = rd16 m (e + 16)"
definition e_machine :: "mem \<Rightarrow> addr \<Rightarrow> u16 option" where "e_machine m e = rd16 m (e + 18)"
definition e_entry :: "mem \<Rightarrow> addr \<Rightarrow> u64 option" where "e_entry m e = rd64 m (e + 24)"
definition e_phoff :: "mem \<Rightarrow> addr \<Rightarrow> u64 option" where "e_phoff m e = rd64 m (e + 32)"
definition e_phentsize :: "mem \<Rightarrow> addr \<Rightarrow> u16 option" where "e_phentsize m e = rd16 m (e + 54)"
definition e_phnum :: "mem \<Rightarrow> addr \<Rightarrow> u16 option" where "e_phnum m e = rd16 m (e + 56)"

definition p_type :: "mem \<Rightarrow> addr \<Rightarrow> u32 option" where "p_type m p = rd32 m p"
definition p_offset :: "mem \<Rightarrow> addr \<Rightarrow> u64 option" where "p_offset m p = rd64 m (p + 8)"
definition p_vaddr :: "mem \<Rightarrow> addr \<Rightarrow> u64 option" where "p_vaddr m p = rd64 m (p + 16)"
definition p_paddr :: "mem \<Rightarrow> addr \<Rightarrow> u64 option" where "p_paddr m p = rd64 m (p + 24)"
definition p_filesz :: "mem \<Rightarrow> addr \<Rightarrow> u64 option" where "p_filesz m p = rd64 m (p + 32)"
definition p_memsz :: "mem \<Rightarrow> addr \<Rightarrow> u64 option" where "p_memsz m p = rd64 m (p + 40)"

definition sizeof_Elf64_Phdr :: nat where "sizeof_Elf64_Phdr = 56"

definition ELFMAG :: u32 where "ELFMAG = 0x464C457F"
definition ELFCLASS64 :: u8 where "ELFCLASS64 = 2"
definition ELFDATA2LSB :: u8 where "ELFDATA2LSB = 1"
definition ET_EXEC :: u16 where "ET_EXEC = 2"
definition EM_X86_64 :: u16 where "EM_X86_64 = 62"
definition PT_LOAD :: u32 where "PT_LOAD = 1"
definition PAGE_SIZE :: u64 where "PAGE_SIZE = 4096"

definition ALIGN_UP :: "u64 \<Rightarrow> u64 \<Rightarrow> u64" where
  "ALIGN_UP X A = (X + (A - 1)) AND NOT (A - 1)"

definition ALIGN_DOWN :: "u64 \<Rightarrow> u64 \<Rightarrow> u64" where
  "ALIGN_DOWN X A = X AND NOT (A - 1)"

definition SIZE_TO_PAGES :: "u64 \<Rightarrow> u64" where
  "SIZE_TO_PAGES X = (X + PAGE_SIZE - 1) div PAGE_SIZE"

record ElfSegmentInfo =
  startAddr :: u64
  endAddr :: u64

record elf =
  ehdr :: addr
  phdr :: addr
  loadBaseAddr :: u64
  loadBasePages :: u64

definition Elf_new :: elf where
  "Elf_new = \<lparr> ehdr = 0, phdr = 0, loadBaseAddr = 0, loadBasePages = 0 \<rparr>"

text \<open>A pointer and an offset from the file: the sum is an address modulo \<open>2 ^ 64\<close>.\<close>

definition ptr_add :: "addr \<Rightarrow> u64 \<Rightarrow> addr" where
  "ptr_add p o' = unat (word_of_nat p + o' :: u64)"

subsection \<open>Validating\<close>

definition ValidateElf :: "'w say \<Rightarrow> elf \<Rightarrow> u64 \<Rightarrow> 'w st \<Rightarrow> (u64 \<times> 'w st) option" where
  "ValidateElf Say E elfSize s =
     (if ehdr E = 0 then Some (EFI_INVALID_PARAMETER, s)
      else do {
        magic \<leftarrow> e_magic (ram s) (ehdr E);
        if magic \<noteq> ELFMAG
        then Some (EFI_UNSUPPORTED, Say (ln ''ELF Magic is wrong now :O [0x%08x 0x%08x]'') [ucast magic, ucast ELFMAG] s)
        else do {
          c \<leftarrow> e_ident (ram s) (ehdr E) 0;
          wrong \<leftarrow> (if c \<noteq> ELFCLASS64 then Some True
            else do { d \<leftarrow> e_ident (ram s) (ehdr E) 1; Some (d \<noteq> ELFDATA2LSB) });
          if wrong
          then Some (EFI_UNSUPPORTED, Say (ln ''Unsupported ELF class/data encoding...'') [] s)
          else do {
            t \<leftarrow> e_type (ram s) (ehdr E);
            wrong \<leftarrow> (if t \<noteq> ET_EXEC then Some True
              else do { a \<leftarrow> e_machine (ram s) (ehdr E); Some (a \<noteq> EM_X86_64) });
            if wrong
            then Some (EFI_UNSUPPORTED, Say (ln ''Unsupported ELF type or machine...'') [] s)
            else do {
              off \<leftarrow> e_phoff (ram s) (ehdr E);
              n \<leftarrow> e_phnum (ram s) (ehdr E);
              sz \<leftarrow> e_phentsize (ram s) (ehdr E);
              if off + ucast n * ucast sz > elfSize
              then Some (EFI_LOAD_ERROR, Say (ln ''Invalid Program Header Table...'') [] s)
              else Some (EFI_SUCCESS, s) } } } })"

text \<open>The loops over the headers end: their number has 16 bits.\<close>

lemma next_header: "i < unat (n :: u16) \<Longrightarrow> 65535 - i < 65536 - i"
  using unat_bounds(2) [of n] by simp

subsection \<open>The extent of the segments\<close>

definition enlarge :: "ElfSegmentInfo \<Rightarrow> u64 \<Rightarrow> u64 \<Rightarrow> ElfSegmentInfo" where
  "enlarge segInfo segStart segEnd =
     (let segInfo = (if segStart < startAddr segInfo then segInfo\<lparr>startAddr := segStart\<rparr> else segInfo)
      in if segEnd > endAddr segInfo then segInfo\<lparr>endAddr := segEnd\<rparr> else segInfo)"

function FindLOADSegment_loop :: "mem \<Rightarrow> elf \<Rightarrow> nat \<Rightarrow> ElfSegmentInfo \<Rightarrow> ElfSegmentInfo option" where
  "FindLOADSegment_loop m E i segInfo = do {
     n \<leftarrow> e_phnum m (ehdr E);
     if i < unat n then do {
       sz \<leftarrow> e_phentsize m (ehdr E);
       let p = phdr E + i * unat sz;
       t \<leftarrow> p_type m p;
       if t \<noteq> PT_LOAD then FindLOADSegment_loop m E (i + 1) segInfo
       else do {
         a \<leftarrow> p_paddr m p;
         n \<leftarrow> p_memsz m p;
         FindLOADSegment_loop m E (i + 1)
           (enlarge segInfo (ALIGN_DOWN a PAGE_SIZE) (ALIGN_UP (a + n) PAGE_SIZE)) } }
     else Some segInfo }"
  by pat_completeness auto
termination
  by (relation "measure (\<lambda>(m, E, i, segInfo). 65536 - i)") (auto intro: next_header)

declare FindLOADSegment_loop.simps [simp del]

definition FindLOADSegment ::
  "'w say \<Rightarrow> elf \<Rightarrow> ElfSegmentInfo \<Rightarrow> 'w st \<Rightarrow> (u64 \<times> elf \<times> ElfSegmentInfo \<times> 'w st) option" where
  "FindLOADSegment Say E segInfo s = do {
     segInfo \<leftarrow> FindLOADSegment_loop (ram s) E 0 segInfo;
     let E = E\<lparr>loadBaseAddr := startAddr segInfo\<rparr>;
     if startAddr segInfo = - 1 \<and> endAddr segInfo = 0
     then Some (EFI_LOAD_ERROR, E, segInfo, Say (ln ''Failed to Find PT_LOAD segment...'') [] s)
     else Some (EFI_SUCCESS, E, segInfo, s) }"

subsection \<open>Loading\<close>

text \<open>
  The loop that copies the segments, with the status so far. The header is at \<open>_phdr + i * e_phentsize\<close>, where \<open>_phdr\<close> is a pointer
  to headers: the stride is \<open>e_phentsize\<close> headers, not \<open>e_phentsize\<close> bytes.
\<close>

function copy_segments :: "'w say \<Rightarrow> elf \<Rightarrow> addr \<Rightarrow> u64 \<Rightarrow> u64 \<Rightarrow> nat \<Rightarrow> 'w st \<Rightarrow> (u64 \<times> 'w st) option" where
  "copy_segments Say E Data Size status i s = do {
     n \<leftarrow> e_phnum (ram s) (ehdr E);
     if i < unat n then do {
       sz \<leftarrow> e_phentsize (ram s) (ehdr E);
       let p = phdr E + sizeof_Elf64_Phdr * (i * unat sz);
       t \<leftarrow> p_type (ram s) p;
       if t \<noteq> PT_LOAD then copy_segments Say E Data Size status (i + 1) s
       else do {
         off \<leftarrow> p_offset (ram s) p;
         n \<leftarrow> p_filesz (ram s) p;
         if off + n > Size
         then Some (EFI_LOAD_ERROR, Say (ln ''Invalid PT_LOAD file range...'') [] s)
         else do {
           a \<leftarrow> p_paddr (ram s) p;
           m \<leftarrow> CopyMem_1 (ram s) (unat a) (ptr_add Data off) (unat n);
           copy_segments Say E Data Size status (i + 1) (with_ram s m) } } }
     else Some (status, s) }"
  by pat_completeness auto
termination
  by (relation "measure (\<lambda>(Say, E, Data, Size, status, i, s). 65536 - i)") (auto intro: next_header)

declare copy_segments.simps [simp del]

text \<open>The entry point: translated by the first segment that holds it, as it is when there is none.\<close>

function entry_point :: "mem \<Rightarrow> elf \<Rightarrow> nat \<Rightarrow> u64 option" where
  "entry_point m E i = do {
     n \<leftarrow> e_phnum m (ehdr E);
     entry \<leftarrow> e_entry m (ehdr E);
     if i < unat n then do {
       sz \<leftarrow> e_phentsize m (ehdr E);
       let p = phdr E + i * unat sz;
       t \<leftarrow> p_type m p;
       if t \<noteq> PT_LOAD then entry_point m E (i + 1)
       else do {
         v \<leftarrow> p_vaddr m p;
         n \<leftarrow> p_memsz m p;
         if entry \<ge> v \<and> entry < v + n then do {
           a \<leftarrow> p_paddr m p;
           Some (a + (entry - v)) }
         else entry_point m E (i + 1) } }
     else Some entry }"
  by pat_completeness auto
termination
  by (relation "measure (\<lambda>(m, E, i). 65536 - i)") (auto intro: next_header)

declare entry_point.simps [simp del]

text \<open>The code at \<open>load_image_fail\<close>.\<close>

definition load_image_fail :: "'w page_services \<Rightarrow> u64 \<Rightarrow> elf \<Rightarrow> u64 \<Rightarrow> 'w st \<Rightarrow> (u64 \<times> elf \<times> u64 option \<times> 'w st)" where
  "load_image_fail P status E pages s =
     (status, E, None, if loadBaseAddr E \<noteq> 0 then snd (BS_FreePages P (loadBaseAddr E) pages s) else s)"

text \<open>The result: the status, the members, \<open>outEntry\<close> when it is stored, and the state.\<close>

definition LoadImage ::
  "'w page_services \<Rightarrow> 'w say \<Rightarrow> elf \<Rightarrow> addr \<Rightarrow> u64 \<Rightarrow> 'w st \<Rightarrow> (u64 \<times> elf \<times> u64 option \<times> 'w st) option" where
  "LoadImage P Say E Data Size s = do {
     let E = E\<lparr>ehdr := Data\<rparr>;
     (status, s) \<leftarrow> ValidateElf Say E Size s;
     if EFI_ERROR status
     then Some (load_image_fail P status E 0 (Say (ln ''Failed to validate ELF File...'') [] s))
     else do {
       off \<leftarrow> e_phoff (ram s) (ehdr E);
       let E = E\<lparr>phdr := ptr_add Data off\<rparr>;
       (status, E, segInfo, s) \<leftarrow> FindLOADSegment Say E \<lparr> startAddr = - 1, endAddr = 0 \<rparr> s;
       if EFI_ERROR status
       then Some (load_image_fail P status E 0 (Say (ln ''Failed to find Load Segment...'') [] s))
       else
         let pages = SIZE_TO_PAGES (endAddr segInfo - startAddr segInfo)
         in (case BS_AllocatePages P 2 1 pages (loadBaseAddr E) s of
           (status, base, s) \<Rightarrow>
             let E = E\<lparr>loadBaseAddr := base\<rparr>
             in if EFI_ERROR status
                then Some (load_image_fail P status E pages
                  (Say (ln ''Failed to Allocate Page....[Addr: 0x%lx Error: %r]'') [base, status] s))
                else do {
                  s \<leftarrow> BS_SetMem P (unat (startAddr segInfo)) (unat (endAddr segInfo - startAddr segInfo)) 0 s;
                  (status, s) \<leftarrow> copy_segments Say E Data Size status 0 s;
                  if EFI_ERROR status then Some (load_image_fail P status E pages s)
                  else do {
                    entry \<leftarrow> entry_point (ram s) E 0;
                    Some (status, E, Some entry,
                      Say (ln ''LK.elf Loaded: 0x%lx - 0x%lx, entry=0x%lx'') [startAddr segInfo, endAddr segInfo, entry] s) } }) } }"

text \<open>
  What the firmware documents of the page services: pages at an address that was asked for are memory
  that is not in use, and nothing else changes; \<open>SetMem\<close> fills.
\<close>

definition pages_ok :: "'w page_services \<Rightarrow> ('w \<Rightarrow> ranges) \<Rightarrow> bool" where
  "pages_ok P blocks \<longleftrightarrow>
     (\<forall>t n a s st a' s'. BS_AllocatePages P 2 t n a s = (st, a', s') \<longrightarrow>
        (if EFI_ERROR st then a' = a \<and> s' = s
         else a' = a \<and> mapped (ram s) (unat a) (4096 * unat n) \<and>
           same_outside (ram s) (ram s') (unat a) (4096 * unat n) \<and>
           (\<forall>(q, k) \<in> blocks (fw s). disjoint_ranges (unat a) (4096 * unat n) q k) \<and>
           blocks (fw s') = insert (unat a, 4096 * unat n) (blocks (fw s)))) \<and>
     (\<forall>p n v s. mapped (ram s) p n \<longrightarrow> BS_SetMem P p n v s = Some (with_ram s (overwrite (ram s) p (replicate n v))))"

text \<open>\<open>Print\<close> writes to the console only.\<close>

definition says_ok :: "'w say \<Rightarrow> ('w \<Rightarrow> 'v) \<Rightarrow> bool" where
  "says_ok Say view \<longleftrightarrow> (\<forall>t as s. ram (Say t as s) = ram s \<and> view (fw (Say t as s)) = view (fw s))"

subsection \<open>The image as a list of bytes\<close>

text \<open>
  What the file \<open>d\<close> says: the fields of its header, the program headers, where they are (\<open>header_pos\<close>)
  and where \<open>copy_segments\<close> looks for them (\<open>strided_pos\<close>).
\<close>

definition word_in :: "nat \<Rightarrow> u8 list \<Rightarrow> nat \<Rightarrow> 'a::len word" where
  "word_in k d i = le_word (take k (drop i d))"

record segment =
  s_type :: u32
  s_offset :: u64
  s_vaddr :: u64
  s_paddr :: u64
  s_filesz :: u64
  s_memsz :: u64

definition header_of :: "u8 list \<Rightarrow> nat \<Rightarrow> segment" where
  "header_of d i = \<lparr> s_type = word_in 4 d i, s_offset = word_in 8 d (i + 8), s_vaddr = word_in 8 d (i + 16),
     s_paddr = word_in 8 d (i + 24), s_filesz = word_in 8 d (i + 32), s_memsz = word_in 8 d (i + 40) \<rparr>"

definition elf_entry :: "u8 list \<Rightarrow> u64" where "elf_entry d = word_in 8 d 24"
definition elf_phoff :: "u8 list \<Rightarrow> nat" where "elf_phoff d = unat (word_in 8 d 32 :: u64)"
definition elf_phentsize :: "u8 list \<Rightarrow> nat" where "elf_phentsize d = unat (word_in 2 d 54 :: u16)"
definition elf_phnum :: "u8 list \<Rightarrow> nat" where "elf_phnum d = unat (word_in 2 d 56 :: u16)"

definition header_pos :: "u8 list \<Rightarrow> nat \<Rightarrow> nat" where
  "header_pos d i = elf_phoff d + i * elf_phentsize d"

definition strided_pos :: "u8 list \<Rightarrow> nat \<Rightarrow> nat" where
  "strided_pos d i = elf_phoff d + 56 * (i * elf_phentsize d)"

definition loads :: "u8 list \<Rightarrow> (u8 list \<Rightarrow> nat \<Rightarrow> nat) \<Rightarrow> nat list \<Rightarrow> segment list" where
  "loads d pos is = filter (\<lambda>h. s_type h = PT_LOAD) (map (\<lambda>i. header_of d (pos d i)) is)"

definition segments :: "u8 list \<Rightarrow> segment list" where
  "segments d = loads d header_pos [0..<elf_phnum d]"

definition copied :: "u8 list \<Rightarrow> segment list" where
  "copied d = loads d strided_pos [0..<elf_phnum d]"

definition elf_ok :: "u8 list \<Rightarrow> bool" where
  "elf_ok d \<longleftrightarrow> 64 \<le> length d \<and> length d < 2 ^ 64 \<and> word_in 4 d 0 = ELFMAG \<and> d ! 4 = ELFCLASS64 \<and> d ! 5 = ELFDATA2LSB \<and>
     word_in 2 d 16 = ET_EXEC \<and> word_in 2 d 18 = EM_X86_64 \<and>
     elf_phoff d + elf_phnum d * elf_phentsize d \<le> length d \<and> (0 < elf_phnum d \<longrightarrow> 56 \<le> elf_phentsize d)"

text \<open>The memory of a segment, rounded to pages, and of all of them; where its bytes go.\<close>

definition page_floor :: "nat \<Rightarrow> nat" where "page_floor a = a div 4096 * 4096"
definition page_ceil :: "nat \<Rightarrow> nat" where "page_ceil a = (a + 4095) div 4096 * 4096"

definition seg_start :: "segment \<Rightarrow> nat" where "seg_start h = page_floor (unat (s_paddr h))"
definition seg_end :: "segment \<Rightarrow> nat" where "seg_end h = page_ceil (unat (s_paddr h) + unat (s_memsz h))"

definition first_page :: "u8 list \<Rightarrow> nat" where "first_page d = Min (seg_start ` set (segments d))"
definition end_page :: "u8 list \<Rightarrow> nat" where "end_page d = Max (seg_end ` set (segments d))"

definition contents :: "u8 list \<Rightarrow> segment \<Rightarrow> u8 list" where
  "contents d h = take (unat (s_filesz h)) (drop (unat (s_offset h)) d)"

definition place :: "u8 list \<Rightarrow> segment \<Rightarrow> mem \<Rightarrow> mem" where
  "place d h m = overwrite m (unat (s_paddr h)) (contents d h)"

text \<open>The entry point as the segments translate it.\<close>

definition elf_start :: "u8 list \<Rightarrow> u64" where
  "elf_start d =
     (case List.find (\<lambda>h. s_vaddr h \<le> elf_entry d \<and> elf_entry d < s_vaddr h + s_memsz h) (segments d) of
        None \<Rightarrow> elf_entry d | Some h \<Rightarrow> s_paddr h + (elf_entry d - s_vaddr h))"

subsection \<open>Reading the image\<close>

lemma image_region:
  assumes "bytes_at m p d" "i + k \<le> length d"
  shows "rd_bytes m (p + i) k = Some (take k (drop i d))"
proof -
  have "take i d @ take k (drop i d) @ drop k (drop i d) = d" by (simp only: append_take_drop_id)
  then have "bytes_at m (p + length (take i d)) (take k (drop i d))" using assms(1) by (metis bytes_at_append)
  then show ?thesis using assms(2) by (simp add: bytes_at_def min_absorb1 min_absorb2)
qed

lemma image_words:
  assumes "bytes_at m p d"
  shows "i + 2 \<le> length d \<Longrightarrow> rd16 m (p + i) = Some (word_in 2 d i)"
    "i + 4 \<le> length d \<Longrightarrow> rd32 m (p + i) = Some (word_in 4 d i)"
    "i + 8 \<le> length d \<Longrightarrow> rd64 m (p + i) = Some (word_in 8 d i)"
    "i < length d \<Longrightarrow> rd8 m (p + i) = Some (d ! i)"
proof -
  show "i + 2 \<le> length d \<Longrightarrow> rd16 m (p + i) = Some (word_in 2 d i)"
    "i + 4 \<le> length d \<Longrightarrow> rd32 m (p + i) = Some (word_in 4 d i)"
    "i + 8 \<le> length d \<Longrightarrow> rd64 m (p + i) = Some (word_in 8 d i)"
    using image_region [OF assms] by (simp_all add: rd16_def rd32_def rd64_def word_in_def)
  have "region m p (length d) ! i = m ! (p + i)" if "i < length d"
    using that bytes_at_mapped [OF assms] by (simp add: region_def mapped_def)
  then show "i < length d \<Longrightarrow> rd8 m (p + i) = Some (d ! i)"
    using bytes_at_mapped [OF assms] bytes_at_region [OF assms] by (simp add: rd8_def mapped_def)
qed

text \<open>The fields as the loader reads them.\<close>

lemma elf_fields:
  assumes "bytes_at m e d" "64 \<le> length d"
  shows "e_magic m e = Some (word_in 4 d 0)" "e_ident m e 0 = Some (d ! 4)" "e_ident m e 1 = Some (d ! 5)"
    "e_type m e = Some (word_in 2 d 16)" "e_machine m e = Some (word_in 2 d 18)" "e_entry m e = Some (elf_entry d)"
    "e_phoff m e = Some (word_in 8 d 32)" "e_phentsize m e = Some (word_in 2 d 54)" "e_phnum m e = Some (word_in 2 d 56)"
proof -
  have i: "e_ident m e 1 = rd8 m (e + 5)" by (simp add: e_ident_def add.commute)
  show "e_magic m e = Some (word_in 4 d 0)" "e_ident m e 0 = Some (d ! 4)" "e_ident m e 1 = Some (d ! 5)"
    "e_type m e = Some (word_in 2 d 16)" "e_machine m e = Some (word_in 2 d 18)" "e_entry m e = Some (elf_entry d)"
    "e_phoff m e = Some (word_in 8 d 32)" "e_phentsize m e = Some (word_in 2 d 54)" "e_phnum m e = Some (word_in 2 d 56)"
  unfolding i
  using image_words [OF assms(1), of 0] image_words [OF assms(1), of 4] image_words [OF assms(1), of 5]
    image_words [OF assms(1), of 16] image_words [OF assms(1), of 18] image_words [OF assms(1), of 24]
    image_words [OF assms(1), of 32] image_words [OF assms(1), of 54] image_words [OF assms(1), of 56] assms(2)
  by (simp_all add: e_magic_def e_ident_def e_type_def e_machine_def e_entry_def e_phoff_def e_phentsize_def e_phnum_def
      elf_entry_def add.assoc)
qed

lemma segment_fields:
  assumes "bytes_at m e d" "i + 56 \<le> length d"
  shows "p_type m (e + i) = Some (s_type (header_of d i))" "p_offset m (e + i) = Some (s_offset (header_of d i))"
    "p_vaddr m (e + i) = Some (s_vaddr (header_of d i))" "p_paddr m (e + i) = Some (s_paddr (header_of d i))"
    "p_filesz m (e + i) = Some (s_filesz (header_of d i))" "p_memsz m (e + i) = Some (s_memsz (header_of d i))"
  using image_words [OF assms(1), of i] image_words [OF assms(1), of "i + 8"] image_words [OF assms(1), of "i + 16"]
    image_words [OF assms(1), of "i + 24"] image_words [OF assms(1), of "i + 32"] image_words [OF assms(1), of "i + 40"]
    assms(2)
  by (simp_all add: p_type_def p_offset_def p_vaddr_def p_paddr_def p_filesz_def p_memsz_def header_of_def add.assoc)

lemma header_pos_fits: "elf_ok d \<Longrightarrow> i < elf_phnum d \<Longrightarrow> header_pos d i + 56 \<le> length d"
proof -
  assume ok: "elf_ok d" and i: "i < elf_phnum d"
  have "Suc i * elf_phentsize d \<le> elf_phnum d * elf_phentsize d" using i by (intro mult_le_mono1) simp
  then show ?thesis using ok i by (simp add: elf_ok_def header_pos_def)
qed

lemma loads_Cons:
  "i < n \<Longrightarrow> loads d pos [i..<n] =
     (if s_type (header_of d (pos d i)) = PT_LOAD then [header_of d (pos d i)] else []) @ loads d pos [Suc i..<n]"
  by (simp add: loads_def upt_conv_Cons)

lemma loads_Nil [simp]: "loads d pos [] = []"
  by (simp add: loads_def)

subsection \<open>The loops on an image\<close>

lemma ValidateElf_ok:
  assumes "bytes_at (ram s) (ehdr E) d" "elf_ok d" "unat sz = length d"
  shows "ValidateElf Say E sz s = Some (EFI_SUCCESS, s)"
proof -
  let ?o = "word_in 8 d 32 :: u64" and ?n = "word_in 2 d 56 :: u16" and ?k = "word_in 2 d 54 :: u16"
  have fit: "unat ?o + unat ?n * unat ?k \<le> length d" "length d < 2 ^ 64" "64 \<le> length d"
    using assms(2) by (simp_all add: elf_ok_def elf_phoff_def elf_phnum_def elf_phentsize_def)
  have "unat (ucast ?n * ucast ?k :: u64) = unat ?n * unat ?k"
    using fit by (simp add: unat_word_ariths unat_ucast_widen)
  then have "unat (?o + ucast ?n * ucast ?k) = unat ?o + unat ?n * unat ?k" using fit by (simp add: unat_word_ariths)
  then have "\<not> ?o + ucast ?n * ucast ?k > sz" using fit(1) assms(3) by (simp add: word_less_nat_alt)
  moreover have "ehdr E \<noteq> 0" using bytes_at_mapped [OF assms(1)] by (simp add: mapped_def)
  ultimately show ?thesis
    using assms(2) elf_fields [OF assms(1) fit(3)] by (simp add: ValidateElf_def elf_ok_def)
qed

definition extended :: "segment \<Rightarrow> ElfSegmentInfo \<Rightarrow> ElfSegmentInfo" where
  "extended h I = enlarge I (ALIGN_DOWN (s_paddr h) PAGE_SIZE) (ALIGN_UP (s_paddr h + s_memsz h) PAGE_SIZE)"

lemma FindLOADSegment_loop_eq:
  assumes img: "bytes_at m (ehdr E) d" "elf_ok d" and ph: "phdr E = ehdr E + elf_phoff d"
  shows "FindLOADSegment_loop m E i I = Some (fold extended (loads d header_pos [i..<elf_phnum d]) I)"
proof (induction "elf_phnum d - i" arbitrary: i I)
  case 0
  then show ?case
    using elf_fields [OF img(1)] img(2)
    by (subst FindLOADSegment_loop.simps) (simp add: elf_ok_def elf_phnum_def)
next
  case (Suc k)
  then have i: "i < elf_phnum d" "k = elf_phnum d - (i + 1)" by simp_all
  have p: "phdr E + i * elf_phentsize d = ehdr E + header_pos d i" by (simp add: ph header_pos_def)
  note f = segment_fields [OF img(1) header_pos_fits [OF img(2) i(1)], folded p]
  show ?case
    using elf_fields [OF img(1)] img(2) f Suc.hyps(1) [OF i(2)] i(1)
    by (subst FindLOADSegment_loop.simps)
      (simp add: elf_ok_def loads_Cons extended_def flip: elf_phnum_def elf_phentsize_def)
qed

text \<open>Rounding to pages.\<close>

lemma ALIGN_DOWN_floor: "unat (ALIGN_DOWN a PAGE_SIZE) = page_floor (unat a)"
proof -
  have "ALIGN_DOWN a PAGE_SIZE = push_bit 12 (drop_bit 12 a)"
  proof (rule bit_word_eqI)
    have m: "(4096 - 1 :: u64) = mask 12" by (simp add: mask_eq_exp_minus_1)
    show "bit (ALIGN_DOWN a PAGE_SIZE) n \<longleftrightarrow> bit (push_bit 12 (drop_bit 12 a)) n" if "n < LENGTH(64)" for n
      using that unfolding ALIGN_DOWN_def PAGE_SIZE_def m
      by (auto simp: bit_simps not_less)
  qed
  then have "unat (ALIGN_DOWN a PAGE_SIZE) = (unat a div 4096 * 4096) mod 2 ^ 64"
    by (simp add: push_bit_eq_mult drop_bit_eq_div unat_word_ariths unat_div mod_mult_left_eq)
  moreover have "unat a div 4096 * 4096 < 2 ^ 64"
    using unat_bounds(4) [of a] by simp
  ultimately show ?thesis by (simp add: page_floor_def)
qed

lemma ALIGN_UP_ceil:
  assumes "unat a + unat n + 4095 < 2 ^ 64"
  shows "unat (ALIGN_UP (a + n) PAGE_SIZE) = page_ceil (unat a + unat n)"
proof -
  have "unat (a + n + 4095) = unat a + unat n + 4095" using assms by (simp add: unat_word_ariths)
  moreover have "ALIGN_UP (a + n) PAGE_SIZE = ALIGN_DOWN (a + n + 4095) PAGE_SIZE"
    by (simp add: ALIGN_UP_def ALIGN_DOWN_def PAGE_SIZE_def)
  ultimately show ?thesis by (simp add: ALIGN_DOWN_floor page_floor_def page_ceil_def)
qed

lemma page_bounds: "page_floor a \<le> a" "a \<le> page_ceil a" "page_floor a mod 4096 = 0" "page_ceil a mod 4096 = 0"
    "page_ceil a \<le> a + 4095"
  by (simp_all add: page_floor_def page_ceil_def)

lemma pages_of_span:
  assumes "unat lo mod 4096 = 0" "unat hi mod 4096 = 0" "unat lo \<le> unat hi" "unat hi + 4095 < 2 ^ 64"
  shows "unat (SIZE_TO_PAGES (hi - lo)) = (unat hi - unat lo) div 4096" "unat (hi - lo) = unat hi - unat lo"
proof -
  show d: "unat (hi - lo) = unat hi - unat lo" using assms(3) by (simp add: unat_sub word_le_nat_alt)
  have "unat (4095 + (hi - lo)) = unat hi - unat lo + 4095" using assms(3,4) d by (simp add: unat_word_ariths)
  then have "unat (SIZE_TO_PAGES (hi - lo)) = (unat hi - unat lo + 4095) div 4096"
    by (simp add: SIZE_TO_PAGES_def PAGE_SIZE_def unat_div)
  moreover have "4096 dvd unat hi - unat lo" using assms(1,2) by (simp add: dvd_diff_nat mod_0_imp_dvd)
  then obtain k where "unat hi - unat lo = 4096 * k" ..
  ultimately show "unat (SIZE_TO_PAGES (hi - lo)) = (unat hi - unat lo) div 4096" by simp
qed

text \<open>The extent that \<open>FindLOADSegment\<close> finds.\<close>

lemma Min_insert_min: "finite S \<Longrightarrow> Min (insert (min a b) S) = min a (Min (insert b S))"
  and Max_insert_max: "finite S \<Longrightarrow> Max (insert (max a b) S) = max a (Max (insert b S))"
  for S :: "nat set"
  by (cases "S = {}"; simp add: min.assoc max.assoc)+

lemma extended_bounds:
  assumes "\<forall>h \<in> set hs. unat (s_paddr h) + unat (s_memsz h) + 4095 < 2 ^ 64"
  shows "unat (startAddr (fold extended hs I)) = Min (insert (unat (startAddr I)) (seg_start ` set hs))"
    "unat (endAddr (fold extended hs I)) = Max (insert (unat (endAddr I)) (seg_end ` set hs))"
  using assms
proof (induction hs arbitrary: I)
  case Nil
  {
    case 1
    then show ?case by simp
  next
    case 2
    then show ?case by simp
  }
next
  case (Cons h hs)
  have e: "startAddr (extended h I) = min (startAddr I) (ALIGN_DOWN (s_paddr h) PAGE_SIZE)"
      "endAddr (extended h I) = max (endAddr I) (ALIGN_UP (s_paddr h + s_memsz h) PAGE_SIZE)"
    for I by (auto simp: extended_def enlarge_def min_def max_def Let_def)
  have mono: "unat (min a b) = min (unat a) (unat b)" "unat (max a b) = max (unat a) (unat b)" for a b :: u64
    by (auto simp: min_def max_def word_le_nat_alt)
  have h: "\<forall>h \<in> set hs. unat (s_paddr h) + unat (s_memsz h) + 4095 < 2 ^ 64"
      "unat (s_paddr h) + unat (s_memsz h) + 4095 < 2 ^ 64"
    if "\<forall>h' \<in> set (h # hs). unat (s_paddr h') + unat (s_memsz h') + 4095 < 2 ^ 64"
    using that by simp_all
  {
    case 1
    then show ?case
      using Cons.IH(1) [OF h(1) [OF 1], of "extended h I"]
      by (simp add: e mono ALIGN_DOWN_floor seg_start_def [symmetric] Min_insert_min insert_commute min.commute)
  next
    case 2
    then show ?case
      using Cons.IH(2) [OF h(1) [OF 2], of "extended h I"] ALIGN_UP_ceil [OF h(2) [OF 2]]
      by (simp add: e mono seg_end_def [symmetric] Max_insert_max insert_commute max.commute)
  }
qed

definition segments_fit :: "u8 list \<Rightarrow> bool" where
  "segments_fit d \<longleftrightarrow> segments d \<noteq> [] \<and>
     (\<forall>h \<in> set (segments d). unat (s_paddr h) + unat (s_memsz h) + 8190 < 2 ^ 64)"

lemma first_end_page:
  assumes "segments_fit d"
  shows "first_page d mod 4096 = 0" "end_page d mod 4096 = 0" "first_page d \<le> end_page d" "end_page d + 4095 < 2 ^ 64"
    "h \<in> set (segments d) \<Longrightarrow> first_page d \<le> unat (s_paddr h) \<and> unat (s_paddr h) + unat (s_memsz h) \<le> end_page d"
proof -
  have ne: "segments d \<noteq> []" and fit: "\<forall>h \<in> set (segments d). unat (s_paddr h) + unat (s_memsz h) + 8190 < 2 ^ 64"
    using assms by (simp_all add: segments_fit_def)
  have "first_page d \<in> seg_start ` set (segments d)" "end_page d \<in> seg_end ` set (segments d)"
    using ne by (simp_all add: first_page_def end_page_def)
  then obtain a b where ab: "a \<in> set (segments d)" "first_page d = seg_start a" "b \<in> set (segments d)" "end_page d = seg_end b"
    by blast
  show le: "first_page d \<le> unat (s_paddr h) \<and> unat (s_paddr h) + unat (s_memsz h) \<le> end_page d"
    if "h \<in> set (segments d)" for h
  proof -
    have "first_page d \<le> seg_start h" "seg_end h \<le> end_page d" using that by (simp_all add: first_page_def end_page_def)
    then show ?thesis
      using page_bounds(1) [of "unat (s_paddr h)"] page_bounds(2) [of "unat (s_paddr h) + unat (s_memsz h)"]
      by (simp add: seg_start_def seg_end_def)
  qed
  show "first_page d mod 4096 = 0" "end_page d mod 4096 = 0"
    unfolding ab(2,4) seg_start_def seg_end_def by (rule page_bounds)+
  show "first_page d \<le> end_page d" using le [OF ab(1)] by simp
  show "end_page d + 4095 < 2 ^ 64"
    using fit ab(3) page_bounds(5) [of "unat (s_paddr b) + unat (s_memsz b)"] by (fastforce simp: ab(4) seg_end_def)
qed

lemma FindLOADSegment_eq:
  assumes img: "bytes_at (ram s) (ehdr E) d" "elf_ok d" and ph: "phdr E = ehdr E + elf_phoff d" and fit: "segments_fit d"
  shows "\<exists>I. FindLOADSegment Say E \<lparr> startAddr = - 1, endAddr = 0 \<rparr> s =
      Some (EFI_SUCCESS, E\<lparr>loadBaseAddr := startAddr I\<rparr>, I, s) \<and>
    unat (startAddr I) = first_page d \<and> unat (endAddr I) = end_page d"
proof -
  let ?I = "fold extended (segments d) \<lparr> startAddr = - 1, endAddr = 0 \<rparr>"
  have b: "\<forall>h \<in> set (segments d). unat (s_paddr h) + unat (s_memsz h) + 4095 < 2 ^ 64" "segments d \<noteq> []"
    using fit by (auto simp: segments_fit_def)
  have m: "unat (- 1 :: u64) = 2 ^ 64 - 1" by (simp add: unsigned_minus_1_eq_mask mask_eq_exp_minus_1)
  have "first_page d \<le> 2 ^ 64 - 1" using first_end_page(3,4) [OF fit] by simp
  then have I: "unat (startAddr ?I) = first_page d" "unat (endAddr ?I) = end_page d"
    using extended_bounds [OF b(1), of "\<lparr> startAddr = - 1, endAddr = 0 \<rparr>"] b(2)
    by (simp_all add: m first_page_def end_page_def)
  have "startAddr ?I \<noteq> - 1"
  proof
    assume "startAddr ?I = - 1"
    then have "first_page d = 2 ^ 64 - 1" using I(1) m by simp
    then show False using first_end_page(3,4) [OF fit] by simp
  qed
  then show ?thesis
    using FindLOADSegment_loop_eq [OF img ph, of 0] I unfolding segments_def [symmetric]
    by (intro exI [of _ ?I]) (simp add: FindLOADSegment_def)
qed

text \<open>The segments that are copied lie in the file, and their memory in the pages from \<open>lo\<close> to \<open>hi\<close>.\<close>

definition copies_ok :: "u8 list \<Rightarrow> nat \<Rightarrow> nat \<Rightarrow> bool" where
  "copies_ok d lo hi \<longleftrightarrow> (\<forall>i < elf_phnum d. strided_pos d i + 56 \<le> length d) \<and>
     (\<forall>h \<in> set (copied d). unat (s_offset h) + unat (s_filesz h) \<le> length d \<and>
        lo \<le> unat (s_paddr h) \<and> unat (s_paddr h) + unat (s_filesz h) \<le> hi)"

lemma length_place: "unat (s_paddr h) + length (contents d h) \<le> length m \<Longrightarrow> length (place d h m) = length m"
  by (simp add: place_def)

lemma copy_segments_eq:
  assumes ok: "elf_ok d" and E: "ehdr E = Data" "phdr E = Data + elf_phoff d" and sz: "unat Size = length d"
    and D: "Data + length d < 2 ^ 64" and c: "copies_ok d lo hi" and lh: "lo \<le> hi" "disjoint_ranges lo (hi - lo) Data (length d)"
  shows "bytes_at (ram s) Data d \<Longrightarrow> mapped (ram s) lo (hi - lo) \<Longrightarrow>
    copy_segments Say E Data Size status i s =
      Some (status, with_ram s (fold (place d) (loads d strided_pos [i..<elf_phnum d]) (ram s)))"
proof (induction "elf_phnum d - i" arbitrary: i s)
  case 0
  then show ?case
    using elf_fields [OF 0(2)] ok
    by (subst copy_segments.simps) (simp add: elf_ok_def elf_phnum_def E(1) with_ram_def)
next
  case (Suc k)
  then have i: "i < elf_phnum d" "k = elf_phnum d - (i + 1)" by simp_all
  let ?h = "header_of d (strided_pos d i)"
  have p: "phdr E + sizeof_Elf64_Phdr * (i * elf_phentsize d) = Data + strided_pos d i"
    by (simp add: E(2) strided_pos_def sizeof_Elf64_Phdr_def)
  have "strided_pos d i + 56 \<le> length d" using c i(1) by (simp add: copies_ok_def)
  note f = segment_fields [OF Suc.prems(1) this, folded p] and e = elf_fields [OF Suc.prems(1)]
  show ?case
  proof (cases "s_type ?h = PT_LOAD")
    case False
    then show ?thesis
      using e ok f Suc.hyps(1) [OF i(2) Suc.prems] i(1) E(1)
      by (subst copy_segments.simps) (simp add: elf_ok_def loads_Cons flip: elf_phnum_def elf_phentsize_def)
  next
    case True
    then have "?h \<in> set (copied d)" using i(1) by (auto simp: copied_def loads_def)
    then have r: "unat (s_offset ?h) + unat (s_filesz ?h) \<le> length d" "lo \<le> unat (s_paddr ?h)"
        "unat (s_paddr ?h) + unat (s_filesz ?h) \<le> hi"
      using c by (simp_all add: copies_ok_def)
    have len: "length (contents d ?h) = unat (s_filesz ?h)" using r(1) by (simp add: contents_def)
    have small: "unat (s_offset ?h + s_filesz ?h) = unat (s_offset ?h) + unat (s_filesz ?h)"
      using r(1) ok by (simp add: unat_word_ariths elf_ok_def)
    have a: "ptr_add Data (s_offset ?h) = Data + unat (s_offset ?h)"
      using r(1) D by (simp add: ptr_add_def unat_word_ariths unat_word_of_nat)
    have "bytes_at (ram s) (Data + unat (s_offset ?h)) (contents d ?h)"
      using image_region [OF Suc.prems(1) r(1)] len by (simp add: bytes_at_def contents_def)
    moreover have "mapped (ram s) (unat (s_paddr ?h)) (length (contents d ?h))"
      using Suc.prems(2) r(2,3) len lh(1) by (auto elim!: mapped_mono)
    ultimately have cp: "CopyMem_1 (ram s) (unat (s_paddr ?h)) (Data + unat (s_offset ?h)) (unat (s_filesz ?h)) =
        Some (place d ?h (ram s))"
      using copy_bytes [of "ram s" "unat (s_paddr ?h)" "contents d ?h" "Data + unat (s_offset ?h)"] len
      by (simp add: place_def)
    let ?s = "with_ram s (place d ?h (ram s))"
    have in_ram: "unat (s_paddr ?h) + length (contents d ?h) \<le> length (ram s)"
      using Suc.prems(2) r len lh(1) by (simp add: mapped_def)
    have "bytes_at (ram ?s) Data d"
      using Suc.prems(1) bytes_at_overwrite_disjoint [of Data d "unat (s_paddr ?h)" "contents d ?h" "ram s"] in_ram
        r len lh by (auto simp: place_def with_ram_def disjoint_ranges_def)
    moreover have "mapped (ram ?s) lo (hi - lo)"
      using Suc.prems(2) in_ram by (simp add: place_def with_ram_def)
    ultimately have "copy_segments Say E Data Size status (i + 1) ?s =
        Some (status, with_ram ?s (fold (place d) (loads d strided_pos [i + 1..<elf_phnum d]) (ram ?s)))"
      by (rule Suc.hyps(1) [OF i(2)])
    then show ?thesis
      using e ok f i(1) E(1) True small r(1) sz a cp
      by (subst copy_segments.simps)
        (simp add: elf_ok_def loads_Cons with_ram_def word_less_nat_alt flip: elf_phnum_def elf_phentsize_def)
  qed
qed

lemma fold_place_outside:
  assumes "lo \<le> hi" "hi \<le> length m"
    "\<forall>h \<in> set hs. lo \<le> unat (s_paddr h) \<and> unat (s_paddr h) + length (contents d h) \<le> hi"
  shows "same_outside m (fold (place d) hs m) lo (hi - lo)"
  using assms(2,3)
proof (induction hs arbitrary: m)
  case Nil
  then show ?case by (simp add: same_outside_def)
next
  case (Cons h hs)
  have h: "lo \<le> unat (s_paddr h)" "unat (s_paddr h) + length (contents d h) \<le> hi" using Cons.prems(2) by simp_all
  have "same_outside m (place d h m) lo (hi - lo)"
    unfolding place_def using same_outside_mono [OF same_outside_overwrite, of "unat (s_paddr h)" "contents d h" m lo "hi - lo"]
      h Cons.prems(1) assms(1) by simp
  moreover have "same_outside (place d h m) (fold (place d) hs (place d h m)) lo (hi - lo)"
    using Cons.IH [of "place d h m"] Cons.prems h by (simp add: length_place)
  ultimately show ?case by (simp add: same_outside_def)
qed

lemma entry_point_eq:
  assumes img: "bytes_at m (ehdr E) d" "elf_ok d" and ph: "phdr E = ehdr E + elf_phoff d"
  shows "entry_point m E i =
    Some (case List.find (\<lambda>h. s_vaddr h \<le> elf_entry d \<and> elf_entry d < s_vaddr h + s_memsz h)
        (loads d header_pos [i..<elf_phnum d]) of
      None \<Rightarrow> elf_entry d | Some h \<Rightarrow> s_paddr h + (elf_entry d - s_vaddr h))"
proof (induction "elf_phnum d - i" arbitrary: i)
  case 0
  then show ?case
    using elf_fields [OF img(1)] img(2) by (subst entry_point.simps) (simp add: elf_ok_def elf_phnum_def)
next
  case (Suc k)
  then have i: "i < elf_phnum d" "k = elf_phnum d - (i + 1)" by simp_all
  have p: "phdr E + i * elf_phentsize d = ehdr E + header_pos d i" by (simp add: ph header_pos_def)
  note f = segment_fields [OF img(1) header_pos_fits [OF img(2) i(1)], folded p]
  show ?case
    using elf_fields [OF img(1)] img(2) f Suc.hyps(1) [OF i(2)] i(1)
    by (subst entry_point.simps) (simp add: elf_ok_def loads_Cons flip: elf_phnum_def elf_phentsize_def)
qed

subsection \<open>A whole load\<close>

lemma allocate_pages:
  assumes "pages_ok P blocks" "BS_AllocatePages P 2 t n a s = (st, a', s')" "\<not> EFI_ERROR st"
  shows "a' = a" "mapped (ram s) (unat a) (4096 * unat n)" "same_outside (ram s) (ram s') (unat a) (4096 * unat n)"
    "in_use (blocks (fw s)) q k \<Longrightarrow> disjoint_ranges (unat a) (4096 * unat n) q k"
    "blocks (fw s') = insert (unat a, 4096 * unat n) (blocks (fw s))"
proof -
  have r: "a' = a \<and> mapped (ram s) (unat a) (4096 * unat n) \<and>
      same_outside (ram s) (ram s') (unat a) (4096 * unat n) \<and>
      (\<forall>(q, k) \<in> blocks (fw s). disjoint_ranges (unat a) (4096 * unat n) q k) \<and>
      blocks (fw s') = insert (unat a, 4096 * unat n) (blocks (fw s))"
    using assms unfolding pages_ok_def by (metis (lifting))
  then show "a' = a" "mapped (ram s) (unat a) (4096 * unat n)" "same_outside (ram s) (ram s') (unat a) (4096 * unat n)"
    "blocks (fw s') = insert (unat a, 4096 * unat n) (blocks (fw s))" by auto
  show "disjoint_ranges (unat a) (4096 * unat n) q k" if "in_use (blocks (fw s)) q k"
    using in_use_disjoint [OF that] r by blast
qed

text \<open>
  The memory after a load into \<open>m\<close>: the pages of all segments are zero, and the segments that are copied
  are placed there.
\<close>

definition loaded :: "u8 list \<Rightarrow> segment list \<Rightarrow> mem \<Rightarrow> mem" where
  "loaded d hs m = fold (place d) hs (overwrite m (first_page d) (replicate (end_page d - first_page d) 0))"

lemma LoadImage_run:
  assumes pages: "pages_ok P blocks" and img: "bytes_at (ram s) Data d" "in_use (blocks (fw s)) Data (length d)"
    and ok: "elf_ok d" and fit: "segments_fit d" and c: "copies_ok d (first_page d) (end_page d)"
    and sz: "unat Size = length d" and D: "Data + length d < 2 ^ 64"
  shows "\<exists>lo hi st s1. unat lo = first_page d \<and> unat hi = end_page d \<and>
    BS_AllocatePages P 2 1 (SIZE_TO_PAGES (hi - lo)) lo s = (st, lo, s1) \<and>
    4096 * unat (SIZE_TO_PAGES (hi - lo)) = end_page d - first_page d \<and>
    LoadImage P Say E Data Size s =
      Some (if EFI_ERROR st
        then load_image_fail P st (E\<lparr>ehdr := Data, phdr := Data + elf_phoff d, loadBaseAddr := lo\<rparr>) (SIZE_TO_PAGES (hi - lo))
          (Say (ln ''Failed to Allocate Page....[Addr: 0x%lx Error: %r]'') [lo, st] s)
        else (st, E\<lparr>ehdr := Data, phdr := Data + elf_phoff d, loadBaseAddr := lo\<rparr>, Some (elf_start d),
          Say (ln ''LK.elf Loaded: 0x%lx - 0x%lx, entry=0x%lx'') [lo, hi, elf_start d]
            (with_ram s1 (loaded d (copied d) (ram s1)))))"
proof -
  let ?E = "E\<lparr>ehdr := Data, phdr := Data + elf_phoff d\<rparr>"
  have "elf_phoff d \<le> length d" using ok by (simp add: elf_ok_def)
  then have ph: "ptr_add Data (word_in 8 d 32) = Data + elf_phoff d"
    using D by (simp add: ptr_add_def unat_word_ariths unat_word_of_nat elf_phoff_def)
  have v: "ValidateElf Say (E\<lparr>ehdr := Data\<rparr>) Size s = Some (EFI_SUCCESS, s)"
    using ValidateElf_ok [OF _ ok sz, of s "E\<lparr>ehdr := Data\<rparr>"] img(1) by simp
  obtain I where I: "FindLOADSegment Say ?E \<lparr> startAddr = - 1, endAddr = 0 \<rparr> s =
        Some (EFI_SUCCESS, ?E\<lparr>loadBaseAddr := startAddr I\<rparr>, I, s)"
      "unat (startAddr I) = first_page d" "unat (endAddr I) = end_page d"
    using FindLOADSegment_eq [of s ?E d Say] img(1) ok fit by auto
  define lo where "lo = startAddr I"
  define hi where "hi = endAddr I"
  have lh: "unat lo = first_page d" "unat hi = end_page d" using I(2,3) by (simp_all add: lo_def hi_def)
  have span: "unat (SIZE_TO_PAGES (hi - lo)) = (end_page d - first_page d) div 4096" "unat (hi - lo) = end_page d - first_page d"
    using pages_of_span [of lo hi] first_end_page(1-4) [OF fit] unfolding lh by simp_all
  have "(end_page d - first_page d) mod 4096 = 0"
    using first_end_page(1-3) [OF fit] by (simp add: mod_eq_0_iff_dvd dvd_diff_nat)
  then have size: "4096 * unat (SIZE_TO_PAGES (hi - lo)) = end_page d - first_page d"
    unfolding span(1) by (metis mult_div_mod_eq add_0_right)
  obtain st base s1 where a: "BS_AllocatePages P 2 1 (SIZE_TO_PAGES (hi - lo)) lo s = (st, base, s1)" using prod_cases3 by blast
  have off: "e_phoff (ram s) Data = Some (word_in 8 d 32)" using elf_fields(7) [OF img(1)] ok by (simp add: elf_ok_def)
  show ?thesis
  proof (cases "EFI_ERROR st")
    case True
    then have "base = lo \<and> s1 = s" using pages a unfolding pages_ok_def by (metis (lifting))
    then show ?thesis
      using True lh size a v off ph I(1)
      by (intro exI [of _ lo] exI [of _ hi] exI [of _ st] exI [of _ s1]) (simp add: LoadImage_def lo_def hi_def Let_def)
  next
    case False
    note al = allocate_pages [OF pages a False, unfolded size lh]
    let ?z = "overwrite (ram s1) (first_page d) (replicate (end_page d - first_page d) 0)"
    have m1: "mapped (ram s1) (first_page d) (end_page d - first_page d)"
      using al(2) same_outside_mapped [OF al(3)] by simp
    have dj: "disjoint_ranges (first_page d) (end_page d - first_page d) Data (length d)" using al(4) [OF img(2)] .
    have "bytes_at (ram s1) Data d"
      using img(1) same_outside_rd_bytes [OF al(3) dj] by (simp add: bytes_at_def)
    then have b: "bytes_at ?z Data d"
      using bytes_at_overwrite_disjoint [of Data d "first_page d" "replicate (end_page d - first_page d) 0" "ram s1"] dj m1
      by (auto simp: disjoint_ranges_def mapped_def)
    let ?E1 = "?E\<lparr>loadBaseAddr := lo\<rparr>" and ?s1 = "with_ram s1 ?z"
    have cp: "copy_segments Say ?E1 Data Size st 0 ?s1 = Some (st, with_ram ?s1 (fold (place d) (copied d) ?z))"
      using copy_segments_eq [OF ok _ _ sz D c first_end_page(3) [OF fit] dj, of ?E1 ?s1 Say st 0] b m1
      by (simp add: copied_def with_ram_def mapped_def)
    have "length (contents d h) \<le> unat (s_filesz h)" for h by (simp add: contents_def)
    then have "\<forall>h \<in> set (copied d). first_page d \<le> unat (s_paddr h) \<and> unat (s_paddr h) + length (contents d h) \<le> end_page d"
      using c by (fastforce simp: copies_ok_def intro: order_trans [OF add_left_mono])
    then have "same_outside ?z (fold (place d) (copied d) ?z) (first_page d) (end_page d - first_page d)"
      using m1 first_end_page(3) [OF fit] by (intro fold_place_outside) (simp_all add: mapped_def)
    from same_outside_rd_bytes [OF this dj] have "bytes_at (fold (place d) (copied d) ?z) Data d"
      using b by (simp add: bytes_at_def)
    then have "entry_point (fold (place d) (copied d) ?z) ?E1 0 = Some (elf_start d)"
      using entry_point_eq [of _ ?E1 d 0] ok by (simp add: elf_start_def segments_def)
    then show ?thesis
      using False lh size a al(1) v off ph I(1) cp m1 pages span(2)
      by (intro exI [of _ lo] exI [of _ hi] exI [of _ st] exI [of _ s1])
        (simp add: LoadImage_def Let_def loaded_def with_ram_def pages_ok_def flip: lo_def hi_def)
  qed
qed

text \<open>
  What the firmware answers when the loader asks for the pages of the image \<open>d\<close>: loader code, at the address
  of the first page, as many pages as the segments span.
\<close>

definition pages_status :: "'w page_services \<Rightarrow> u8 list \<Rightarrow> 'w st \<Rightarrow> u64" where
  "pages_status P d s =
     fst (BS_AllocatePages P 2 1 (word_of_nat ((end_page d - first_page d) div 4096)) (word_of_nat (first_page d)) s)"

lemma pages_status_eq:
  assumes "unat lo = first_page d" "4096 * unat n = end_page d - first_page d" "BS_AllocatePages P 2 1 n lo s = (st, a, s')"
  shows "pages_status P d s = st"
proof -
  have "word_of_nat (first_page d) = lo" unfolding assms(1) [symmetric] by simp
  moreover have "word_of_nat ((end_page d - first_page d) div 4096) = n" unfolding assms(2) [symmetric] by simp
  ultimately show ?thesis using assms(3) by (simp add: pages_status_def)
qed

text \<open>The memory when one segment is copied.\<close>

lemma loaded_one:
  assumes fit: "segments_fit d" and h: "h \<in> set (segments d)" "unat (s_filesz h) \<le> unat (s_memsz h)"
    "unat (s_offset h) + unat (s_filesz h) \<le> length d"
    and m: "mapped m (first_page d) (end_page d - first_page d)"
  shows "bytes_at (loaded d [h] m) (unat (s_paddr h)) (contents d h)"
    "first_page d \<le> a \<Longrightarrow> a < end_page d \<Longrightarrow> a < unat (s_paddr h) \<or> unat (s_paddr h) + unat (s_filesz h) \<le> a \<Longrightarrow>
      loaded d [h] m ! a = 0"
    "same_outside m (loaded d [h] m) (first_page d) (end_page d - first_page d)"
proof -
  have len: "length (contents d h) = unat (s_filesz h)" using h(3) by (simp add: contents_def)
  have in_pages: "first_page d \<le> unat (s_paddr h)" "unat (s_paddr h) + unat (s_filesz h) \<le> end_page d"
    using first_end_page(5) [OF fit h(1)] h(2) by simp_all
  have le: "first_page d \<le> end_page d" "end_page d \<le> length m" "0 < first_page d"
    using first_end_page(3) [OF fit] m by (simp_all add: mapped_def)
  let ?z = "overwrite m (first_page d) (replicate (end_page d - first_page d) 0)"
  have z: "length ?z = length m" using le by simp
  have eq: "loaded d [h] m = overwrite ?z (unat (s_paddr h)) (contents d h)" by (simp add: loaded_def place_def)
  show "bytes_at (loaded d [h] m) (unat (s_paddr h)) (contents d h)"
    unfolding eq using in_pages le len z by (intro bytes_at_overwrite) (simp add: mapped_def)
  show "loaded d [h] m ! a = 0"
    if "first_page d \<le> a" "a < end_page d" "a < unat (s_paddr h) \<or> unat (s_paddr h) + unat (s_filesz h) \<le> a"
    unfolding eq using that in_pages le len by (auto simp: nth_overwrite)
  have "same_outside m ?z (first_page d) (end_page d - first_page d)"
    using same_outside_overwrite [of "first_page d" "replicate (end_page d - first_page d) 0" m] le by simp
  moreover have "same_outside ?z (loaded d [h] m) (first_page d) (end_page d - first_page d)"
    using fold_place_outside [OF le(1), of ?z "[h]" d] in_pages le len z by (simp add: loaded_def)
  ultimately show "same_outside m (loaded d [h] m) (first_page d) (end_page d - first_page d)"
    by (simp add: same_outside_def)
qed

lemma LoadImage_one_copied:
  assumes pages: "pages_ok P blocks" and says: "says_ok Say blocks"
    and img: "bytes_at (ram s) Data d" "in_use (blocks (fw s)) Data (length d)"
    and ok: "elf_ok d" and fit: "segments_fit d" and c: "\<forall>i < elf_phnum d. strided_pos d i + 56 \<le> length d" "copied d = [h]"
    and h: "h \<in> set (segments d)" "unat (s_filesz h) \<le> unat (s_memsz h)" "unat (s_offset h) + unat (s_filesz h) \<le> length d"
    and sz: "unat Size = length d" and D: "Data + length d < 2 ^ 64"
  shows "\<exists>E' e s'. LoadImage P Say E Data Size s = Some (pages_status P d s, E', e, s') \<and>
    (if EFI_ERROR (pages_status P d s) then e = None
     else e = Some (elf_start d) \<and> blocks (fw s') = insert (first_page d, end_page d - first_page d) (blocks (fw s)) \<and>
       same_outside (ram s) (ram s') (first_page d) (end_page d - first_page d) \<and>
       bytes_at (ram s') (unat (s_paddr h)) (contents d h) \<and>
       (\<forall>a. first_page d \<le> a \<and> a < end_page d \<and> (a < unat (s_paddr h) \<or> unat (s_paddr h) + unat (s_filesz h) \<le> a) \<longrightarrow>
          ram s' ! a = 0))"
proof -
  have "copies_ok d (first_page d) (end_page d)"
    using c h first_end_page(5) [OF fit h(1)] by (simp add: copies_ok_def)
  from LoadImage_run [OF pages img ok fit this sz D, of Say E]
  obtain lo hi st s1 where r: "unat lo = first_page d" "unat hi = end_page d"
      "BS_AllocatePages P 2 1 (SIZE_TO_PAGES (hi - lo)) lo s = (st, lo, s1)"
      "4096 * unat (SIZE_TO_PAGES (hi - lo)) = end_page d - first_page d"
      "LoadImage P Say E Data Size s = Some (if EFI_ERROR st
        then load_image_fail P st (E\<lparr>ehdr := Data, phdr := Data + elf_phoff d, loadBaseAddr := lo\<rparr>) (SIZE_TO_PAGES (hi - lo))
          (Say (ln ''Failed to Allocate Page....[Addr: 0x%lx Error: %r]'') [lo, st] s)
        else (st, E\<lparr>ehdr := Data, phdr := Data + elf_phoff d, loadBaseAddr := lo\<rparr>, Some (elf_start d),
          Say (ln ''LK.elf Loaded: 0x%lx - 0x%lx, entry=0x%lx'') [lo, hi, elf_start d]
            (with_ram s1 (loaded d (copied d) (ram s1)))))"
    by blast
  have st: "pages_status P d s = st" by (rule pages_status_eq [OF r(1,4,3)])
  show ?thesis
  proof (cases "EFI_ERROR st")
    case True
    then show ?thesis using r(5) st by (auto simp: load_image_fail_def)
  next
    case False
    note al = allocate_pages [OF pages r(3) False, unfolded r(1,4)]
    have m: "mapped (ram s1) (first_page d) (end_page d - first_page d)"
      using al(2) same_outside_mapped [OF al(3)] by simp
    note one = loaded_one [OF fit h m]
    have "same_outside (ram s) (loaded d [h] (ram s1)) (first_page d) (end_page d - first_page d)"
      using al(3) one(3) by (simp add: same_outside_def)
    then show ?thesis
      using False r(5) al(5) one(1,2) says c(2) st by (simp add: says_ok_def with_ram_def)
  qed
qed

lemma one_header:
  assumes "elf_ok d" "elf_phnum d = 1" "segments d = [h]"
  shows "\<forall>i < elf_phnum d. strided_pos d i + 56 \<le> length d" "copied d = [h]" "h \<in> set (segments d)"
proof -
  have pos: "strided_pos d 0 = header_pos d 0" by (simp add: strided_pos_def header_pos_def)
  show "\<forall>i < elf_phnum d. strided_pos d i + 56 \<le> length d"
    using header_pos_fits [OF assms(1), of 0] assms(2) pos by simp
  show "copied d = [h]" "h \<in> set (segments d)"
    using assms(2,3) pos by (simp_all add: copied_def segments_def loads_def)
qed

subsection \<open>What the loader does\<close>

text \<open>C2. An image with exactly one program header, of a loadable segment, is loaded. The firmware is asked once
  for the pages of the image, at the segment's own physical address rounded down; its answer is the status.
  When it gives them, the pages hold the segment's bytes from the file at its physical address and zeros
  elsewhere, no other memory is changed, the pages are the only new block, and the entry point is translated
  from the segment's virtual to its physical address. When it does not, there is no entry point.\<close>

theorem LoadImage_loads:
  assumes pages: "pages_ok P blocks" and says: "says_ok Say blocks"
    and img: "bytes_at (ram s) Data d" "in_use (blocks (fw s)) Data (length d)"
    and ok: "elf_ok d" and fit: "segments_fit d" and one: "elf_phnum d = 1" and h: "segments d = [h]"
    "unat (s_filesz h) \<le> unat (s_memsz h)" "unat (s_offset h) + unat (s_filesz h) \<le> length d"
    and sz: "unat Size = length d" and D: "Data + length d < 2 ^ 64"
  shows "\<exists>E' e s'. LoadImage P Say E Data Size s = Some (pages_status P d s, E', e, s') \<and>
    (if EFI_ERROR (pages_status P d s) then e = None
     else e = Some (elf_start d) \<and> blocks (fw s') = insert (first_page d, end_page d - first_page d) (blocks (fw s)) \<and>
       same_outside (ram s) (ram s') (first_page d) (end_page d - first_page d) \<and>
       bytes_at (ram s') (unat (s_paddr h)) (contents d h) \<and>
       (\<forall>a. first_page d \<le> a \<and> a < end_page d \<and> (a < unat (s_paddr h) \<or> unat (s_paddr h) + unat (s_filesz h) \<le> a) \<longrightarrow>
          ram s' ! a = 0))"
  by (rule LoadImage_one_copied [OF pages says img ok fit one_header [OF ok one h(1)] h(2,3) sz D])

text \<open>C8. Later segments are not loaded. The loop that copies takes the size of a program header for a number of
  program headers, so the second header is looked for \<open>56 * e_phentsize\<close> bytes behind the first. In an image
  with two segments, where there is no loadable header at that place, the load succeeds, but the memory of
  the second segment is zero whatever the file holds for it.\<close>

theorem LoadImage_drops_second_segment:
  assumes pages: "pages_ok P blocks" and says: "says_ok Say blocks"
    and img: "bytes_at (ram s) Data d" "in_use (blocks (fw s)) Data (length d)"
    and ok: "elf_ok d" and fit: "segments_fit d" and two: "elf_phnum d = 2" and h: "segments d = [h, h2]"
    "unat (s_filesz h) \<le> unat (s_memsz h)" "unat (s_offset h) + unat (s_filesz h) \<le> length d"
    and apart: "disjoint_ranges (unat (s_paddr h)) (unat (s_filesz h)) (unat (s_paddr h2)) (unat (s_memsz h2))"
    and strided: "strided_pos d 1 + 56 \<le> length d" "s_type (header_of d (strided_pos d 1)) \<noteq> PT_LOAD"
    and sz: "unat Size = length d" and D: "Data + length d < 2 ^ 64"
  shows "\<exists>E' e s'. LoadImage P Say E Data Size s = Some (pages_status P d s, E', e, s') \<and>
    (\<not> EFI_ERROR (pages_status P d s) \<longrightarrow> bytes_at (ram s') (unat (s_paddr h)) (contents d h) \<and>
       (\<forall>a. unat (s_paddr h2) \<le> a \<and> a < unat (s_paddr h2) + unat (s_memsz h2) \<longrightarrow> ram s' ! a = 0))"
proof -
  have pos: "strided_pos d 0 = header_pos d 0" by (simp add: strided_pos_def header_pos_def)
  have upt: "[0..<elf_phnum d] = [0, 1]" by (simp add: two upt_rec)
  have "header_of d (header_pos d 0) = h" "s_type h = PT_LOAD"
    using h(1) unfolding segments_def loads_def upt by (auto split: if_splits)
  then have c: "copied d = [h]" using strided(2) unfolding copied_def loads_def upt by (simp add: pos)
  have s: "\<forall>i < elf_phnum d. strided_pos d i + 56 \<le> length d"
    using header_pos_fits [OF ok, of 0] strided(1) pos two by (auto simp: less_Suc_eq numeral_2_eq_2)
  have in_segs: "h \<in> set (segments d)" "h2 \<in> set (segments d)" using h(1) by simp_all
  have r: "first_page d \<le> unat (s_paddr h2)" "unat (s_paddr h2) + unat (s_memsz h2) \<le> end_page d"
    using first_end_page(5) [OF fit in_segs(2)] by simp_all
  from LoadImage_one_copied [OF pages says img ok fit s c in_segs(1) h(2,3) sz D, of E]
  moreover have "first_page d \<le> a \<and> a < end_page d \<and> (a < unat (s_paddr h) \<or> unat (s_paddr h) + unat (s_filesz h) \<le> a)"
    if "unat (s_paddr h2) \<le> a" "a < unat (s_paddr h2) + unat (s_memsz h2)" for a
    using that r apart by (auto simp: disjoint_ranges_def)
  ultimately show ?thesis by (metis (no_types, lifting))
qed

definition elf_status :: "u8 list \<Rightarrow> nat \<Rightarrow> u64" where
  "elf_status d n =
     (if word_in 4 d 0 \<noteq> ELFMAG \<or> d ! 4 \<noteq> ELFCLASS64 \<or> d ! 5 \<noteq> ELFDATA2LSB \<or> word_in 2 d 16 \<noteq> ET_EXEC \<or>
         word_in 2 d 18 \<noteq> EM_X86_64 then EFI_UNSUPPORTED
      else if n < (elf_phoff d + elf_phnum d * elf_phentsize d) mod 2 ^ 64 then EFI_LOAD_ERROR else EFI_SUCCESS)"

text \<open>C40. What is rejected: no image, a wrong magic number, class, encoding, type or machine, and a table of
  program headers that ends behind the image, where the end is computed modulo \<open>2 ^ 64\<close>. A new loader then
  returns the status without an entry point, and changes neither memory nor what is allocated.\<close>

theorem LoadImage_rejects:
  assumes says: "says_ok Say view" and img: "bytes_at (ram s) Data d" "64 \<le> length d"
  shows "(\<exists>s'. ValidateElf Say (Elf_new\<lparr>ehdr := Data\<rparr>) Size s = Some (elf_status d (unat Size), s') \<and> ram s' = ram s \<and> view (fw s') = view (fw s)) \<and>
    (elf_status d (unat Size) \<noteq> EFI_SUCCESS \<longrightarrow>
      (\<exists>E' s'. LoadImage P Say Elf_new Data Size s = Some (elf_status d (unat Size), E', None, s') \<and> ram s' = ram s \<and> view (fw s') = view (fw s))) \<and>
    (\<exists>E' s'. LoadImage P Say Elf_new 0 Size s = Some (EFI_INVALID_PARAMETER, E', None, s') \<and> ram s' = ram s \<and> view (fw s') = view (fw s))"
proof -
  let ?status = "elf_status d (unat Size)"
  let ?o = "word_in 8 d 32 :: u64" and ?n = "word_in 2 d 56 :: u16" and ?k = "word_in 2 d 54 :: u16"
  have "unat ?n * unat ?k \<le> 65535 * 65535" using unat_bounds(2) [of ?n] unat_bounds(2) [of ?k] by (intro mult_mono) simp_all
  then have "unat (ucast ?n * ucast ?k :: u64) = unat ?n * unat ?k" by (simp add: unat_word_ariths unat_ucast_widen)
  then have e: "unat (?o + ucast ?n * ucast ?k) = (elf_phoff d + elf_phnum d * elf_phentsize d) mod 2 ^ 64"
    by (simp add: unat_word_ariths elf_phoff_def elf_phnum_def elf_phentsize_def)
  have D: "Data \<noteq> 0" using bytes_at_mapped [OF img(1)] by (simp add: mapped_def)
  have v: "\<exists>s'. ValidateElf Say (Elf_new\<lparr>ehdr := Data\<rparr>) Size s = Some (?status, s') \<and> ram s' = ram s \<and> view (fw s') = view (fw s)"
    using D elf_fields [OF img] says
    by (auto simp: ValidateElf_def elf_status_def says_ok_def word_less_nat_alt e)
  then obtain s' where s': "ValidateElf Say (Elf_new\<lparr>ehdr := Data\<rparr>) Size s = Some (?status, s')" "ram s' = ram s"
      "view (fw s') = view (fw s)" by blast
  have "EFI_ERROR ?status" if "?status \<noteq> EFI_SUCCESS" using that by (auto simp: elf_status_def)
  then have "?status \<noteq> EFI_SUCCESS \<longrightarrow> (\<exists>E' s'. LoadImage P Say Elf_new Data Size s = Some (?status, E', None, s') \<and>
      ram s' = ram s \<and> view (fw s') = view (fw s))"
    using s' says by (auto simp: LoadImage_def load_image_fail_def says_ok_def Elf_new_def)
  moreover have "\<exists>E' s'. LoadImage P Say Elf_new 0 Size s = Some (EFI_INVALID_PARAMETER, E', None, s') \<and>
      ram s' = ram s \<and> view (fw s') = view (fw s)"
    using says by (simp add: LoadImage_def ValidateElf_def load_image_fail_def says_ok_def Elf_new_def)
  ultimately show ?thesis using v by blast
qed

text \<open>C10. When the pages are not available, the loader frees them all the same: memory that somebody else has
  allocated at the image's address is given back behind its owner's back.\<close>

theorem LoadImage_failure_frees:
  assumes pages: "pages_ok P blocks" and says: "says_ok Say blocks"
    and img: "bytes_at (ram s) Data d" "in_use (blocks (fw s)) Data (length d)"
    and ok: "elf_ok d" and fit: "segments_fit d" and c: "copies_ok d (first_page d) (end_page d)"
    and sz: "unat Size = length d" and D: "Data + length d < 2 ^ 64"
    and refused: "\<And>n a. EFI_ERROR (fst (BS_AllocatePages P 2 1 n a s))"
    and free: "\<And>a n s. blocks (fw (snd (BS_FreePages P a n s))) = blocks (fw s) - {(unat a, 4096 * unat n)}"
    and first: "first_page d \<noteq> 0"
  shows "\<exists>st E' s'. LoadImage P Say E Data Size s = Some (st, E', None, s') \<and> EFI_ERROR st \<and>
    blocks (fw s') = blocks (fw s) - {(first_page d, end_page d - first_page d)}"
proof -
  from LoadImage_run [OF pages img ok fit c sz D, of Say E]
  obtain lo hi st s1 where r: "unat lo = first_page d"
      "BS_AllocatePages P 2 1 (SIZE_TO_PAGES (hi - lo)) lo s = (st, lo, s1)"
      "4096 * unat (SIZE_TO_PAGES (hi - lo)) = end_page d - first_page d"
      "LoadImage P Say E Data Size s = Some (if EFI_ERROR st
        then load_image_fail P st (E\<lparr>ehdr := Data, phdr := Data + elf_phoff d, loadBaseAddr := lo\<rparr>) (SIZE_TO_PAGES (hi - lo))
          (Say (ln ''Failed to Allocate Page....[Addr: 0x%lx Error: %r]'') [lo, st] s)
        else (st, E\<lparr>ehdr := Data, phdr := Data + elf_phoff d, loadBaseAddr := lo\<rparr>, Some (elf_start d),
          Say (ln ''LK.elf Loaded: 0x%lx - 0x%lx, entry=0x%lx'') [lo, hi, elf_start d]
            (with_ram s1 (loaded d (copied d) (ram s1)))))"
    by blast
  have "EFI_ERROR st" using refused [of "SIZE_TO_PAGES (hi - lo)" lo] r(2) by simp
  moreover have "lo \<noteq> 0" using r(1) first by auto
  ultimately show ?thesis
    using r(4) says free [of lo "SIZE_TO_PAGES (hi - lo)"] unfolding r(1,3) by (simp add: load_image_fail_def says_ok_def)
qed

subsection \<open>Images written out\<close>

definition enc_phdr :: "segment \<Rightarrow> u8 list" where
  "enc_phdr h = le_bytes 4 (s_type h) @ replicate 4 0 @ le_bytes 8 (s_offset h) @ le_bytes 8 (s_vaddr h) @
     le_bytes 8 (s_paddr h) @ le_bytes 8 (s_filesz h) @ le_bytes 8 (s_memsz h) @ replicate 8 0"

definition enc_elf :: "u64 \<Rightarrow> u16 \<Rightarrow> u8 list \<Rightarrow> u8 list" where
  "enc_elf entry n rest = le_bytes 4 ELFMAG @ [ELFCLASS64, ELFDATA2LSB] @ replicate 10 0 @ le_bytes 2 ET_EXEC @
     le_bytes 2 EM_X86_64 @ replicate 4 0 @ le_bytes 8 entry @ le_bytes 8 (64 :: u64) @ replicate 12 0 @
     le_bytes 2 (64 :: u16) @ le_bytes 2 (56 :: u16) @ le_bytes 2 n @ replicate 6 0 @ rest"

lemma word_in_skip: "length as \<le> i \<Longrightarrow> word_in k (as @ bs) i = word_in k bs (i - length as)"
  by (simp add: word_in_def)

lemma word_in_Cons: "0 < i \<Longrightarrow> word_in k (b # bs) i = word_in k bs (i - 1)"
  by (cases i) (simp_all add: word_in_def)

lemma word_in_here:
  "word_in 2 (le_bytes 2 a @ bs) 0 = (a :: u16)" "word_in 4 (le_bytes 4 b @ bs) 0 = (b :: u32)"
  "word_in 8 (le_bytes 8 c @ bs) 0 = (c :: u64)"
  by (simp_all add: word_in_def)

lemma length_enc_phdr [simp]: "length (enc_phdr h) = 56"
  by (simp add: enc_phdr_def)

lemma length_enc_elf [simp]: "length (enc_elf entry n rest) = 64 + length rest"
  by (simp add: enc_elf_def)

lemma header_of_enc:
  assumes "i = length as"
  shows "header_of (as @ enc_phdr h @ bs) i = h"
  unfolding assms by (simp add: header_of_def enc_phdr_def word_in_skip word_in_Cons word_in_here)

lemma header_of_enc_elf:
  "header_of (enc_elf entry n rest) (64 + i) = header_of rest i"
proof -
  let ?h = "enc_elf entry n []"
  have e: "enc_elf entry n rest = ?h @ rest" by (simp add: enc_elf_def)
  show ?thesis unfolding e header_of_def by (simp add: word_in_skip add.commute)
qed

lemma enc_elf_fields:
  "elf_phoff (enc_elf entry n rest) = 64" "elf_phentsize (enc_elf entry n rest) = 56"
  "elf_phnum (enc_elf entry n rest) = unat n" "elf_entry (enc_elf entry n rest) = entry"
  by (simp_all add: elf_phoff_def elf_phentsize_def elf_phnum_def elf_entry_def enc_elf_def word_in_skip word_in_Cons word_in_here)

lemma enc_elf_ok:
  "unat n * 56 \<le> length rest \<Longrightarrow> length rest + 64 < 2 ^ 64 \<Longrightarrow> elf_ok (enc_elf entry n rest)"
  by (simp add: elf_ok_def enc_elf_fields) (simp add: enc_elf_def word_in_skip word_in_Cons word_in_here nth_append)

text \<open>Pages on the demo firmware: blocks at the address that is asked for.\<close>

definition demo_pages :: "demo page_services" where
  "demo_pages = \<lparr>
     BS_AllocatePages = (\<lambda>k t n a s.
       if 0 < unat a \<and> unat a + 4096 * unat n \<le> length (ram s) \<and> unat a \<notin> fst ` set (demo_blocks (fw s)) \<and>
         (\<forall>(q, j) \<in> set (demo_blocks (fw s)). disjoint_ranges (unat a) (4096 * unat n) q j)
       then (EFI_SUCCESS, a, s\<lparr>fw := (fw s)\<lparr>demo_blocks := (unat a, 4096 * unat n) # demo_blocks (fw s)\<rparr>\<rparr>)
       else (EFI_NOT_FOUND, a, s)),
     BS_FreePages = (\<lambda>a n s. if map_of (demo_blocks (fw s)) (unat a) = Some (4096 * unat n)
       then (EFI_SUCCESS, s\<lparr>fw := (fw s)\<lparr>demo_blocks := AList.delete (unat a) (demo_blocks (fw s))\<rparr>\<rparr>)
       else (EFI_NOT_FOUND, s)),
     BS_SetMem = (\<lambda>p n v s. if mapped (ram s) p n then Some (with_ram s (overwrite (ram s) p (replicate n v))) else None) \<rparr>"

lemma demo_pages_ok: "pages_ok demo_pages blocks_of"
proof -
  have sub: "blocks_of w \<subseteq> set (demo_blocks w)" for w
    by (auto simp: blocks_of_def Map.graph_def dest: map_of_SomeD)
  have ins: "blocks_of (w\<lparr>demo_blocks := (p, n) # demo_blocks w\<rparr>) = insert (p, n) (blocks_of w)"
    if "p \<notin> fst ` set (demo_blocks w)" for p n w
  proof -
    have "map_of (demo_blocks w) p = None" using that by (simp add: map_of_eq_None_iff)
    then show ?thesis by (auto simp: blocks_of_def Map.graph_def split: if_splits)
  qed
  show ?thesis
    using sub unfolding pages_ok_def demo_pages_def
    by (auto simp: ins mapped_def same_outside_def split: if_splits) blast+
qed

definition demo_say :: "demo say" where
  "demo_say t as s = s\<lparr>fw := (fw s)\<lparr>demo_screen := demo_screen (fw s) @ [word_of_nat (length t)]\<rparr>\<rparr>"

lemma demo_say_ok: "says_ok demo_say blocks_of"
  by (simp add: says_ok_def demo_say_def blocks_of_def)

text \<open>An image with one segment of four bytes for the page at 4096, and one with two segments.\<close>

definition seg_a :: "u64 \<Rightarrow> segment" where
  "seg_a off = \<lparr> s_type = PT_LOAD, s_offset = off, s_vaddr = 0x100010, s_paddr = 0x1010, s_filesz = 4, s_memsz = 32 \<rparr>"

definition seg_b :: "u64 \<Rightarrow> segment" where
  "seg_b off = \<lparr> s_type = PT_LOAD, s_offset = off, s_vaddr = 0x101000, s_paddr = 0x2000, s_filesz = 4, s_memsz = 4 \<rparr>"

definition image_one :: "u8 list" where
  "image_one = enc_elf 0x100014 1 (enc_phdr (seg_a 120) @ [1, 2, 3, 4])"

definition image_two :: "u8 list" where
  "image_two = enc_elf 0x100014 2 (enc_phdr (seg_a 176) @ enc_phdr (seg_b 176) @ [1, 2, 3, 4] @ replicate 3080 0)"

lemma images:
  "elf_ok image_one" "elf_phnum image_one = 1" "segments image_one = [seg_a 120]" "length image_one = 124"
  "elf_ok image_two" "elf_phnum image_two = 2" "segments image_two = [seg_a 176, seg_b 176]" "length image_two = 3260"
proof -
  let ?r1 = "enc_phdr (seg_a 120) @ [1, 2, 3, 4 :: u8]"
  let ?r2 = "enc_phdr (seg_a 176) @ enc_phdr (seg_b 176) @ [1, 2, 3, 4] @ replicate 3080 (0 :: u8)"
  show "elf_ok image_one" "elf_ok image_two" unfolding image_one_def image_two_def by (rule enc_elf_ok; simp)+
  show n: "elf_phnum image_one = 1" "elf_phnum image_two = 2" by (simp_all add: image_one_def image_two_def enc_elf_fields)
  show "length image_one = 124" "length image_two = 3260" by (simp_all add: image_one_def image_two_def)
  have h: "header_of ?r1 0 = seg_a 120" "header_of ?r2 0 = seg_a 176" "header_of ?r2 56 = seg_b 176"
    using header_of_enc [of 0 "[]" "seg_a 120" "[1, 2, 3, 4]"]
      header_of_enc [of 0 "[]" "seg_a 176" "enc_phdr (seg_b 176) @ [1, 2, 3, 4] @ replicate 3080 0"]
      header_of_enc [of 56 "enc_phdr (seg_a 176)" "seg_b 176" "[1, 2, 3, 4] @ replicate 3080 0"]
    by simp_all
  have t: "s_type (seg_a x) = PT_LOAD" "s_type (seg_b x) = PT_LOAD" for x by (simp_all add: seg_a_def seg_b_def)
  show "segments image_one = [seg_a 120]"
    using header_of_enc_elf [of _ _ ?r1 0] h(1) t
    by (simp add: segments_def loads_def n header_pos_def) (simp add: image_one_def enc_elf_fields)
  have "[0..<2] = [0, 1 :: nat]" by (simp add: upt_rec)
  then show "segments image_two = [seg_a 176, seg_b 176]"
    using header_of_enc_elf [of _ _ ?r2 0] header_of_enc_elf [of _ _ ?r2 56] h(2,3) t
    by (simp add: segments_def loads_def n header_pos_def) (simp add: image_two_def enc_elf_fields)
qed

lemma images_fit: "segments_fit image_one" "segments_fit image_two"
    "first_page image_one = 4096" "end_page image_one = 8192" "first_page image_two = 4096" "end_page image_two = 12288"
  unfolding segments_fit_def first_page_def end_page_def images
  by (simp_all add: seg_a_def seg_b_def seg_start_def seg_end_def page_floor_def page_ceil_def)

lemma image_in_memory:
  "bytes_at (ram (demo_mem d k)) 1 d"
  "in_use (blocks_of (fw (demo_mem d k))) 1 (length d)"
  using demo_mem_bytes [of d "[]" d "[]" 1 k] demo_mem_in_use [of 1 "length d" d k] by simp_all

lemma demo_pages_given:
  "pages_status demo_pages image_one (demo_mem image_one 20000) = EFI_SUCCESS"
  "pages_status demo_pages image_two (demo_mem image_two 20000) = EFI_SUCCESS"
  unfolding pages_status_def images_fit demo_pages_def
  by (simp_all add: demo_mem_def images(4,8) disjoint_ranges_def)

lemma image_one_segment:
  "elf_start image_one = 0x1014" "contents image_one (seg_a 120) = [1, 2, 3, 4]"
proof -
  show "elf_start image_one = 0x1014"
    unfolding elf_start_def images(3) by (simp add: image_one_def enc_elf_fields seg_a_def)
  show "contents image_one (seg_a 120) = [1, 2, 3, 4]"
    by (simp add: contents_def seg_a_def image_one_def enc_elf_def enc_phdr_def)
qed

theorem LoadImage_loads_witness:
  "\<exists>E' s'. LoadImage demo_pages demo_say Elf_new 1 124 (demo_mem image_one 20000) = Some (EFI_SUCCESS, E', Some 0x1014, s') \<and>
     blocks_of (fw s') = {(4096, 4096), (1, 124)} \<and>
     same_outside (ram (demo_mem image_one 20000)) (ram s') 4096 4096 \<and> bytes_at (ram s') 0x1010 [1, 2, 3, 4] \<and>
     (\<forall>a. 4096 \<le> a \<and> a < 8192 \<and> (a < 0x1010 \<or> 0x1014 \<le> a) \<longrightarrow> ram s' ! a = 0)"
proof -
  have p: "unat (s_filesz (seg_a 120)) \<le> unat (s_memsz (seg_a 120))"
      "unat (s_offset (seg_a 120)) + unat (s_filesz (seg_a 120)) \<le> length image_one" "unat (124 :: u64) = length image_one"
      "1 + length image_one < 2 ^ 64"
    unfolding images(4) by (simp_all add: seg_a_def)
  have n: "unat (s_paddr (seg_a 120)) = 0x1010" "unat (s_filesz (seg_a 120)) = 4" "(8192 :: nat) - 4096 = 4096"
      "(0x1010 :: nat) + 4 = 0x1014" by (simp_all add: seg_a_def)
  have b: "blocks_of (fw (demo_mem image_one 20000)) = {(1, 124)}"
    by (auto simp: demo_mem_def blocks_of_def Map.graph_def images(4) split: if_splits)
  show ?thesis
    using LoadImage_loads [OF demo_pages_ok demo_say_ok image_in_memory [of image_one 20000] images(1) images_fit(1)
        images(2,3) p, of Elf_new]
    unfolding demo_pages_given images_fit n image_one_segment b by (simp add: EFI_ERROR_def EFI_SUCCESS_def)
qed

theorem LoadImage_drops_second_segment_witness:
  "\<exists>E' e s'. LoadImage demo_pages demo_say Elf_new 1 3260 (demo_mem image_two 20000) = Some (EFI_SUCCESS, E', e, s') \<and>
     bytes_at (ram s') (unat (s_paddr (seg_a 176))) (contents image_two (seg_a 176)) \<and>
     (\<forall>a. unat (s_paddr (seg_b 176)) \<le> a \<and> a < unat (s_paddr (seg_b 176)) + unat (s_memsz (seg_b 176)) \<longrightarrow> ram s' ! a = 0)"
proof -
  have pos: "strided_pos image_two 1 = 3200" by (simp add: strided_pos_def image_two_def enc_elf_fields)
  have "header_of image_two (64 + 3136) = header_of (enc_phdr (seg_a 176) @ enc_phdr (seg_b 176) @ [1, 2, 3, 4] @ replicate 3080 0) 3136"
    unfolding image_two_def by (rule header_of_enc_elf)
  then have "s_type (header_of image_two 3200) = word_in 4 (replicate 3080 0) 3020"
    by (simp add: header_of_def word_in_skip word_in_Cons)
  also have "\<dots> = (0 :: u32)" by (simp add: word_in_def numeral_eq_Suc)
  finally have t: "s_type (header_of image_two (strided_pos image_two 1)) \<noteq> PT_LOAD" unfolding pos by (simp add: PT_LOAD_def)
  from LoadImage_drops_second_segment [OF demo_pages_ok demo_say_ok image_in_memory [of image_two 20000] images(5)
      images_fit(2) images(6,7) _ _ _ _ t, where Size = 3260 and E = Elf_new]
  show ?thesis
    unfolding pos images(8) demo_pages_given by (simp add: seg_a_def seg_b_def disjoint_ranges_def EFI_ERROR_def EFI_SUCCESS_def)
qed

theorem LoadImage_rejects_witness:
  "(\<exists>s'. ValidateElf demo_say (Elf_new\<lparr>ehdr := 1\<rparr>) 10 (demo_mem image_one 0) = Some (EFI_LOAD_ERROR, s') \<and>
      ram s' = ram (demo_mem image_one 0) \<and> blocks_of (fw s') = blocks_of (fw (demo_mem image_one 0))) \<and>
    (\<exists>E' s'. LoadImage demo_pages demo_say Elf_new 1 10 (demo_mem image_one 0) = Some (EFI_LOAD_ERROR, E', None, s') \<and>
      ram s' = ram (demo_mem image_one 0) \<and> blocks_of (fw s') = blocks_of (fw (demo_mem image_one 0)))"
proof -
  have "elf_status image_one (unat (10 :: u64)) = EFI_LOAD_ERROR"
    using images(1) by (simp add: elf_status_def elf_ok_def) (simp add: image_one_def enc_elf_fields)
  then show ?thesis
    using LoadImage_rejects [OF demo_say_ok image_in_memory(1), of image_one 10 0 demo_pages] images(4)
    by (simp add: EFI_LOAD_ERROR_def EFI_SUCCESS_def)
qed

text \<open>The page at the image's address is in use.\<close>

definition taken_state :: "demo st" where
  "taken_state = (demo_mem image_one 20000)\<lparr>fw := (fw (demo_mem image_one 20000))\<lparr>demo_blocks := [(4096, 4096), (1, 124)]\<rparr>\<rparr>"

definition full_pages :: "demo page_services" where
  "full_pages = demo_pages\<lparr>BS_AllocatePages := (\<lambda>k t n a s. (EFI_NOT_FOUND, a, s))\<rparr>"

theorem LoadImage_failure_frees_witness:
  "\<exists>st E' s'. LoadImage full_pages demo_say Elf_new 1 124 taken_state = Some (st, E', None, s') \<and> EFI_ERROR st \<and>
    blocks_of (fw s') = blocks_of (fw taken_state) - {(4096, 4096)} \<and> (4096, 4096) \<in> blocks_of (fw taken_state)"
proof -
  have free: "blocks_of (fw (snd (BS_FreePages full_pages a n s))) = blocks_of (fw s) - {(unat a, 4096 * unat n)}" for a n s
    by (auto simp: full_pages_def demo_pages_def blocks_of_def Map.graph_def delete_conv' split: if_splits)
  have pages: "pages_ok full_pages blocks_of"
    using demo_pages_ok by (simp add: pages_ok_def full_pages_def)
  have b: "blocks_of (fw taken_state) = {(4096, 4096), (1, 124)}"
    by (auto simp: taken_state_def blocks_of_def Map.graph_def split: if_splits)
  have img: "bytes_at (ram taken_state) 1 image_one" "in_use (blocks_of (fw taken_state)) 1 (length image_one)"
    using image_in_memory(1) [of image_one 20000] unfolding b images(4)
    by (simp_all add: taken_state_def in_useI [of 1 124])
  have "copied image_one = [seg_a 120]"
    using images(2,3) by (simp add: copied_def segments_def loads_def strided_pos_def header_pos_def)
  then have c: "copies_ok image_one (first_page image_one) (end_page image_one)"
    unfolding copies_ok_def images(2,4) images_fit by (simp add: seg_a_def strided_pos_def image_one_def enc_elf_fields)
  show ?thesis
    using LoadImage_failure_frees [OF pages demo_say_ok img images(1) images_fit(1) c _ _ _ free, where Size = 124 and E = Elf_new] images(4) b
    unfolding images_fit by (simp add: full_pages_def)
qed

end
