(* ===== verification/Pickle.thy ===== *)
theory Pickle
  imports SimpleRead Elf InitLib
begin

text \<open>
  The classes of lib/pickle/util and inc/pickle/util, and the boot program apps/pickle.cc: dynamic arrays in
  pool memory, files on the volume the program was started from, and the loading of \<open>lk.elf\<close>.

  An object is a record of its members, a method gives the changed object; \<open>k\<close> is \<open>sizeof (T)\<close>. A service
  that fails stores nothing through its \<open>OUT\<close> pointers. A call through a null
  interface is a fault.
\<close>

subsection \<open>Dynamic arrays (dynamic\_array.h, allocator.h)\<close>

record darray =
  da_data :: addr
  da_size :: nat

definition DynamicArray_new :: darray where
  "DynamicArray_new = \<lparr> da_data = 0, da_size = 0 \<rparr>"

text \<open>\<open>EfiLoaderData\<close> is 2.\<close>

definition PoolAllocator_Allocate :: "'w lib \<Rightarrow> nat \<Rightarrow> nat \<Rightarrow> 'w st \<Rightarrow> u64 \<times> addr option \<times> 'w st" where
  "PoolAllocator_Allocate L k Size s =
     (case BS_AllocatePool (BS L) 2 (uintn (Size * k)) s of
        (status, p, s) \<Rightarrow> (status, if EFI_ERROR status then None else Some p, s))"

definition PoolAllocator_Free :: "'w lib \<Rightarrow> addr \<Rightarrow> 'w st \<Rightarrow> 'w st" where
  "PoolAllocator_Free L InBuffer s = snd (BS_FreePool (BS L) InBuffer s)"

definition Deallocate :: "'w lib \<Rightarrow> darray \<Rightarrow> 'w st \<Rightarrow> darray \<times> 'w st" where
  "Deallocate L A s =
     (if da_data A \<noteq> 0 then (\<lparr> da_data = 0, da_size = 0 \<rparr>, PoolAllocator_Free L (da_data A) s) else (A, s))"

definition Allocate :: "'w lib \<Rightarrow> nat \<Rightarrow> darray \<Rightarrow> nat \<Rightarrow> 'w st \<Rightarrow> u64 \<times> darray \<times> 'w st" where
  "Allocate L k A Size s =
     (case (if da_data A \<noteq> 0 then Deallocate L A s else (A, s)) of
        (A, s) \<Rightarrow> (case PoolAllocator_Allocate L k Size s of
          (status, p, s) \<Rightarrow>
            let A = (case p of None \<Rightarrow> A | Some p \<Rightarrow> A\<lparr>da_data := p\<rparr>)
            in (status, if \<not> EFI_ERROR status \<and> status \<noteq> EFI_BUFFER_TOO_SMALL then A\<lparr>da_size := Size\<rparr> else A, s)))"

definition DynamicArray_Copy :: "nat \<Rightarrow> darray \<Rightarrow> addr \<Rightarrow> nat \<Rightarrow> mem \<Rightarrow> mem option" where
  "DynamicArray_Copy k A val len' m = CopyMem_1 m (da_data A) val (uintn (k * min len' (da_size A)))"

definition DynamicArray_Move :: "'w lib \<Rightarrow> nat \<Rightarrow> darray \<Rightarrow> addr \<Rightarrow> nat \<Rightarrow> 'w st \<Rightarrow> (darray \<times> 'w st) option" where
  "DynamicArray_Move L k A val len' s =
     (case Deallocate L A s of
        (A, s) \<Rightarrow> (case Allocate L k A len' s of
          (_, A, s) \<Rightarrow> do {
            m \<leftarrow> DynamicArray_Copy k A val len' (ram s);
            Some (A, with_ram s m) }))"

text \<open>\<open>Move\<close> from another array, which is emptied; assignment from an array about to go.\<close>

definition DynamicArray_Move_array ::
  "'w lib \<Rightarrow> nat \<Rightarrow> darray \<Rightarrow> darray \<Rightarrow> 'w st \<Rightarrow> (darray \<times> darray \<times> 'w st) option" where
  "DynamicArray_Move_array L k A val s = do {
     (A, s) \<leftarrow> DynamicArray_Move L k A (da_data val) (da_size val) s;
     let (val, s) = Deallocate L val s;
     Some (A, val, s) }"

definition DynamicArray_assign ::
  "'w lib \<Rightarrow> nat \<Rightarrow> darray \<Rightarrow> darray \<Rightarrow> 'w st \<Rightarrow> (darray \<times> darray \<times> 'w st) option" where
  "DynamicArray_assign L k A val s = do {
     m \<leftarrow> DynamicArray_Copy k A (da_data val) (da_size val) (ram s);
     let (val, s) = Deallocate L val (with_ram s m);
     Some (A, val, s) }"

definition DynamicArray_delete :: "'w lib \<Rightarrow> darray \<Rightarrow> 'w st \<Rightarrow> 'w st" where
  "DynamicArray_delete L A s = (if da_data A \<noteq> 0 then snd (Deallocate L A s) else s)"

text \<open>A move assignment copies no more than there is room for and empties its source, whatever is lost.\<close>

lemma DynamicArray_assign_loses:
  "da_data val \<noteq> 0 \<Longrightarrow> DynamicArray_assign L k DynamicArray_new val s =
     Some (DynamicArray_new, DynamicArray_new, PoolAllocator_Free L (da_data val) s)"
  by (simp add: DynamicArray_assign_def DynamicArray_Copy_def DynamicArray_new_def CopyMem_nothing Deallocate_def with_ram_def)

subsection \<open>Strings and optional values (string.h, optional.h)\<close>

text \<open>A string is its array of characters; assignment from a literal of \<open>n\<close> characters, its NUL included.\<close>

definition String_assign :: "'w lib \<Rightarrow> nat \<Rightarrow> darray \<Rightarrow> addr \<Rightarrow> nat \<Rightarrow> 'w st \<Rightarrow> (darray \<times> 'w st) option" where
  "String_assign L k S lit n s = DynamicArray_Move L k S lit n s"

definition String_Length :: "darray \<Rightarrow> nat" where "String_Length S = da_size S"
definition String_Str :: "darray \<Rightarrow> addr" where "String_Str S = da_data S"

record 'a Optional =
  isNullOpt :: bool
  opt_val :: 'a

definition Optional_none :: "'a Optional \<Rightarrow> 'a Optional" where "Optional_none v = v\<lparr>isNullOpt := True\<rparr>"
definition Optional_assign :: "'a Optional \<Rightarrow> 'a \<Rightarrow> 'a Optional" where
  "Optional_assign v x = v\<lparr>opt_val := x, isNullOpt := False\<rparr>"
definition Optional_is_none :: "'a Optional \<Rightarrow> bool" where "Optional_is_none v \<longleftrightarrow> isNullOpt v"
definition Optional_is_some :: "'a Optional \<Rightarrow> bool" where "Optional_is_some v \<longleftrightarrow> \<not> isNullOpt v"
definition Optional_bool :: "'a Optional \<Rightarrow> bool" where "Optional_bool v \<longleftrightarrow> isNullOpt v"
definition Optional_Value :: "'a Optional \<Rightarrow> 'a" where "Optional_Value v = opt_val v"
definition Optional_ValueOr :: "'a Optional \<Rightarrow> 'a \<Rightarrow> 'a" where
  "Optional_ValueOr v x = (if isNullOpt v then x else opt_val v)"

text \<open>As a condition, a value that was assigned is false.\<close>

lemma Optional_bool_inverted:
  "\<not> Optional_bool (Optional_assign v x)" "Optional_bool (Optional_none v)"
  "Optional_ValueOr (Optional_assign v x) y = x" "Optional_ValueOr (Optional_none v) y = y"
  by (simp_all add: Optional_bool_def Optional_assign_def Optional_none_def Optional_ValueOr_def)

subsection \<open>Files (file.h, file.cc)\<close>

text \<open>The GUIDs and the path by their addresses.\<close>

record file_names =
  LoadedImageProtocol_id :: addr
  FileSystemProtocol_id :: addr
  GenericFileInfo_id :: addr
  lk_elf :: addr

record File =
  f_root :: addr
  f_file :: addr
  f_loadedImage :: addr
  f_fsp :: addr
  f_fileInfo :: darray
  f_fileBuf :: addr

definition File_new :: File where
  "File_new = \<lparr> f_root = 0, f_file = 0, f_loadedImage = 0, f_fsp = 0, f_fileInfo = DynamicArray_new, f_fileBuf = 0 \<rparr>"

definition stored :: "addr option \<Rightarrow> addr \<Rightarrow> addr" where
  "stored p old = (case p of None \<Rightarrow> old | Some p \<Rightarrow> p)"

text \<open>\<open>DeviceHandle\<close> is at 24 in \<open>EFI_LOADED_IMAGE\<close>.\<close>

definition OpenRoot ::
  "'w lib \<Rightarrow> 'w file_services \<Rightarrow> 'w say \<Rightarrow> file_names \<Rightarrow> File \<Rightarrow> addr \<Rightarrow> 'w st \<Rightarrow> (u64 \<times> File \<times> 'w st) option" where
  "OpenRoot L F Say N f ImageHandle s =
     (case BS_HandleProtocol (BS L) ImageHandle (LoadedImageProtocol_id N) s of
        (status, p, s) \<Rightarrow>
          let f = f\<lparr>f_loadedImage := stored p (f_loadedImage f)\<rparr>
          in if EFI_ERROR status
             then Some (status, f, Say (ln ''Failed to get LoadedImageProtocol.... [%r]'') [status] s)
             else do {
               d \<leftarrow> rd64 (ram s) (f_loadedImage f + 24);
               (case BS_HandleProtocol (BS L) (unat d) (FileSystemProtocol_id N) s of
                  (status, p, s) \<Rightarrow>
                    let f = f\<lparr>f_fsp := stored p (f_fsp f)\<rparr>
                    in if EFI_ERROR status
                       then Some (status, f, Say (ln ''Failed to get Filesystem Protocol... [%r]'') [status] s)
                       else if f_fsp f = 0 then None
                       else (case OpenVolume F (f_fsp f) s of
                         (status, root, s) \<Rightarrow>
                           Some (status, if EFI_ERROR status then f else f\<lparr>f_root := root\<rparr>, s))) })"

definition GetFileInfo ::
  "'w lib \<Rightarrow> 'w file_services \<Rightarrow> 'w say \<Rightarrow> file_names \<Rightarrow> File \<Rightarrow> 'w st \<Rightarrow> (u64 \<times> File \<times> 'w st) option" where
  "GetFileInfo L F Say N f s =
     (if f_file f = 0 then None
      else case GetInfo F (f_file f) (GenericFileInfo_id N) 0 0 s of
        (status, infoSize, s) \<Rightarrow>
          if EFI_ERROR status \<and> status \<noteq> EFI_BUFFER_TOO_SMALL
          then Some (status, f, Say (ln ''Failed to get GenericFileInfo size... [%r]'') [status] s)
          else (case Allocate L 1 (f_fileInfo f) infoSize s of
            (status, A, s) \<Rightarrow>
              let f = f\<lparr>f_fileInfo := A\<rparr>
              in if EFI_ERROR status
                 then Some (status, f, Say (ln ''Failed to allocate FileInfo... [%r]'') [status] s)
                 else (case GetInfo F (f_file f) (GenericFileInfo_id N) infoSize (da_data A) s of
                   (status, infoSize, s) \<Rightarrow> Some (status, f, s))))"

definition File_Open ::
  "'w lib \<Rightarrow> 'w file_services \<Rightarrow> 'w say \<Rightarrow> file_names \<Rightarrow> File \<Rightarrow> addr \<Rightarrow> addr \<Rightarrow> u64 \<Rightarrow> 'w st \<Rightarrow> (u64 \<times> File \<times> 'w st) option" where
  "File_Open L F Say N f ImageHandle Path OpenMode s = do {
     (status, f, s) \<leftarrow>
       (if f_root f = 0 then do {
          (status, f, s) \<leftarrow> OpenRoot L F Say N f ImageHandle s;
          Some (status, f, if EFI_ERROR status then Say (nl ''Failed to Open Root... [%r]'') [status] s else s) }
        else Some (EFI_SUCCESS, f, s));
     if EFI_ERROR status then Some (status, f, s)
     else if f_root f = 0 then None
     else
       let (f, s) = (if f_file f \<noteq> 0 then (f\<lparr>f_file := 0\<rparr>, snd (FileClose F (f_file f) s)) else (f, s))
       in (case FileOpen F (f_root f) Path OpenMode 0 s of
         (status, p, s) \<Rightarrow>
           let f = f\<lparr>f_file := stored p (f_file f)\<rparr>
           in if EFI_ERROR status
              then Some (status, f, Say (ln ''Failed to Open File... [%r]'') [status] s)
              else GetFileInfo L F Say N f s) }"

definition File_Close :: "'w lib \<Rightarrow> 'w file_services \<Rightarrow> File \<Rightarrow> 'w st \<Rightarrow> File \<times> 'w st" where
  "File_Close L F f s =
     (let s = (if f_fileBuf f \<noteq> 0 then snd (BS_FreePool (BS L) (f_fileBuf f) s) else s);
          (f, s) = (if f_file f \<noteq> 0 then (f\<lparr>f_file := 0\<rparr>, snd (FileClose F (f_file f) s)) else (f, s))
      in if f_root f \<noteq> 0 then (f\<lparr>f_root := 0\<rparr>, snd (FileClose F (f_root f) s)) else (f, s))"

text \<open>The destructor, and then that of the member \<open>_fileInfo\<close>.\<close>

definition File_delete :: "'w lib \<Rightarrow> 'w file_services \<Rightarrow> File \<Rightarrow> 'w st \<Rightarrow> 'w st" where
  "File_delete L F f s =
     (case File_Close L F f s of (f, s) \<Rightarrow> DynamicArray_delete L (f_fileInfo f) s)"

definition File_Read ::
  "'w lib \<Rightarrow> 'w file_services \<Rightarrow> 'w say \<Rightarrow> File \<Rightarrow> darray \<Rightarrow> u64 \<Rightarrow> 'w st \<Rightarrow> (u64 \<times> darray \<times> u64 \<times> 'w st) option" where
  "File_Read L F Say f OutBuffer ReadSize s =
     (case Allocate L 1 OutBuffer (unat ReadSize) s of
        (status, OutBuffer, s) \<Rightarrow>
          if EFI_ERROR status
          then Some (status, OutBuffer, ReadSize, Say (ln ''Failed to allocate Output Buffer... [%d]'') [status] s)
          else if f_file f = 0 then None
          else (case FileRead F (f_file f) ReadSize (da_data OutBuffer) s of
            (status, ReadSize, s) \<Rightarrow> Some (status, OutBuffer, ReadSize, s)))"

text \<open>\<open>FileSize\<close> is at 8 in \<open>EFI_FILE_INFO\<close>.\<close>

definition File_Size :: "mem \<Rightarrow> File \<Rightarrow> u64 option" where
  "File_Size m f = (if da_data (f_fileInfo f) \<noteq> 0 then rd64 m (da_data (f_fileInfo f) + 8) else Some 0)"

definition File_Read_all ::
  "'w lib \<Rightarrow> 'w file_services \<Rightarrow> 'w say \<Rightarrow> File \<Rightarrow> darray \<Rightarrow> 'w st \<Rightarrow> (u64 \<times> darray \<times> 'w st) option" where
  "File_Read_all L F Say f OutBuffer s = do {
     n \<leftarrow> File_Size (ram s) f;
     (status, OutBuffer, n, s) \<leftarrow> File_Read L F Say f OutBuffer n s;
     Some (status, OutBuffer, s) }"

subsection \<open>The boot program (apps/pickle.cc)\<close>

text \<open>
  \<open>pickleTest\<close> up to the call of the loaded program, which it never returns from: the address that is
  called, the open file, its contents and the state. \<open>entryAddr\<close> is what the uninitialised variable holds.
\<close>

definition pickleTest ::
  "'w lib \<Rightarrow> 'w file_services \<Rightarrow> 'w page_services \<Rightarrow> 'w say \<Rightarrow> file_names \<Rightarrow> u64 \<Rightarrow> addr \<Rightarrow> 'w st \<Rightarrow>
   (u64 \<times> File \<times> darray \<times> 'w st) option" where
  "pickleTest L F P Say N entryAddr ImageHandle s = do {
     (status, f, s) \<leftarrow> File_Open L F Say N File_new ImageHandle (lk_elf N) 0x8000000000000003 s;
     let s = (if EFI_ERROR status then Say (nl ''Failed to Open File... [%r]'') [status] s else Say (ln ''Open Success'') [] s);
     (status, data, s) \<leftarrow> File_Read_all L F Say f DynamicArray_new s;
     let s = (if EFI_ERROR status then Say (nl ''Failed to Read File... [%r]'') [status] s else s);
     n \<leftarrow> File_Size (ram s) f;
     let s = Say (ln ''File Size: %lu'') [n] s;
     (status, elf, outEntry, s) \<leftarrow> LoadImage P Say Elf_new (da_data data) (word_of_nat (da_size data)) s;
     let s = (if EFI_ERROR status then Say (ln ''Failed to Load ELF Image...[%r]'') [status] s else s);
     Some (case outEntry of None \<Rightarrow> entryAddr | Some e \<Rightarrow> e, f, data, s) }"

definition efi_main ::
  "names \<Rightarrow> 'w globals \<Rightarrow> 'w file_services \<Rightarrow> 'w page_services \<Rightarrow> 'w say \<Rightarrow> file_names \<Rightarrow> u64 \<Rightarrow> addr \<Rightarrow>
   'w system_table \<Rightarrow> 'w st \<Rightarrow> (u64 \<times> File \<times> darray \<times> 'w st) option" where
  "efi_main NL G F P Say N entryAddr ImageHandle SystemTable s = do {
     (G, s) \<leftarrow> InitializeLib NL ImageHandle SystemTable G s;
     pickleTest (Lib G) F P Say N entryAddr ImageHandle (Say (ln ''Hello from Pickle!'') [] s) }"

subsection \<open>What files and arrays hold\<close>

text \<open>
  The documented behaviour of reading: only the buffer is written, and nothing is allocated or opened.
\<close>

definition io_ok :: "'w file_services \<Rightarrow> ('w \<Rightarrow> ranges) \<Rightarrow> ('w \<Rightarrow> addr set) \<Rightarrow> bool" where
  "io_ok F blocks opens \<longleftrightarrow>
     (\<forall>f g n p s st n' s'. GetInfo F f g n p s = (st, n', s') \<longrightarrow> n' < 2 ^ 64 \<and>
        same_outside (ram s) (ram s') p n \<and> blocks (fw s') = blocks (fw s) \<and> opens (fw s') = opens (fw s)) \<and>
     (\<forall>f n p s st n' s'. FileRead F f n p s = (st, n', s') \<longrightarrow>
        same_outside (ram s) (ram s') p (unat n) \<and> blocks (fw s') = blocks (fw s) \<and> opens (fw s') = opens (fw s))"

text \<open>
  The block of an array of bytes, apart from the blocks \<open>K\<close>; and the state of a file and an array: what is
  open and allocated is what was at \<open>s0\<close> and what they hold, and memory in use at \<open>s0\<close> is unchanged.
\<close>

definition owns :: "darray \<Rightarrow> ranges" where
  "owns D = (if da_data D = 0 then {} else {(da_data D, da_size D)})"

definition array_ok :: "ranges \<Rightarrow> darray \<Rightarrow> bool" where
  "array_ok K D \<longleftrightarrow> da_data D = 0 \<or> apart (da_data D) (da_size D) K"

definition handles :: "File \<Rightarrow> addr set" where
  "handles f = {f_root f, f_file f} - {0}"

definition objects ::
  "('w \<Rightarrow> ranges) \<Rightarrow> ('w \<Rightarrow> addr set) \<Rightarrow> 'w st \<Rightarrow> File \<Rightarrow> darray \<Rightarrow> 'w st \<Rightarrow> bool" where
  "objects blocks opens s0 f A s \<longleftrightarrow> f_fileBuf f = 0 \<and>
     opens (fw s) = opens (fw s0) \<union> handles f \<and> handles f \<inter> opens (fw s0) = {} \<and> (f_root f = f_file f \<longrightarrow> f_file f = 0) \<and>
     blocks (fw s) = blocks (fw s0) \<union> owns (f_fileInfo f) \<union> owns A \<and>
     array_ok (blocks (fw s0)) (f_fileInfo f) \<and> array_ok (blocks (fw s0) \<union> owns (f_fileInfo f)) A \<and>
     same_on (blocks (fw s0)) (ram s0) (ram s)"

lemma array_ok_swap:
  "array_ok K I \<Longrightarrow> array_ok (K \<union> owns I) A \<Longrightarrow> array_ok K A \<and> array_ok (K \<union> owns A) I"
  by (auto simp: array_ok_def owns_def apart_def disjoint_ranges_def split: if_splits)

lemma Deallocate_owns:
  assumes pool: "pool_ok (BS L) blocks" "pool_keeps (BS L) opens"
    and D: "blocks (fw s) = K \<union> owns D" "array_ok K D" and r: "Deallocate L D s = (D', s')"
  shows "da_data D' = 0" "blocks (fw s') = K" "same_on K (ram s) (ram s')" "opens (fw s') = opens (fw s)"
proof -
  have "da_data D' = 0 \<and> blocks (fw s') = K \<and> same_on K (ram s) (ram s') \<and> opens (fw s') = opens (fw s)"
  proof (cases "da_data D = 0")
    case True
    then show ?thesis using r D by (simp add: Deallocate_def owns_def)
  next
    case False
    then have "apart (da_data D) (da_size D) K" "blocks (fw s) = insert (da_data D, da_size D) K"
      using D by (simp_all add: array_ok_def owns_def)
    from free_apart [OF pool this] show ?thesis
      using r False by (auto simp: Deallocate_def PoolAllocator_Free_def FreePool_def)
  qed
  then show "da_data D' = 0" "blocks (fw s') = K" "same_on K (ram s) (ram s')" "opens (fw s') = opens (fw s)" by simp_all
qed

lemma Allocate_owns:
  assumes pool: "pool_ok (BS L) blocks" "pool_keeps (BS L) opens"
    and D: "blocks (fw s) = K \<union> owns D" "array_ok K D" and n: "n < 2 ^ 64" and r: "Allocate L 1 D n s = (st, D', s')"
  shows "blocks (fw s') = K \<union> owns D'" "array_ok K D'" "same_on K (ram s) (ram s')" "opens (fw s') = opens (fw s)"
    "EFI_ERROR st \<Longrightarrow> da_data D' = 0"
    "\<not> EFI_ERROR st \<Longrightarrow> da_data D' \<noteq> 0 \<and> da_size D' = n \<and> mapped (ram s') (da_data D') n"
proof -
  obtain D1 s1 where d: "(if da_data D \<noteq> 0 then Deallocate L D s else (D, s)) = (D1, s1)" by force
  have "da_data D1 = 0 \<and> blocks (fw s1) = K \<and> same_on K (ram s) (ram s1) \<and> opens (fw s1) = opens (fw s)"
    using Deallocate_owns [OF pool D, of D1 s1] d D by (auto simp: owns_def split: if_splits)
  note d1 = this [THEN conjunct1] this [THEN conjunct2, THEN conjunct1] this [THEN conjunct2, THEN conjunct2, THEN conjunct1]
    this [THEN conjunct2, THEN conjunct2, THEN conjunct2]
  obtain st' p s2 where a: "BS_AllocatePool (BS L) 2 n s1 = (st', p, s2)" using prod_cases3 by blast
  have o2: "opens (fw s2) = opens (fw s1)" using pool(2) a unfolding pool_keeps_def by blast
  have run: "st = st'" "s' = s2"
      "D' = (if EFI_ERROR st' then D1 else D1\<lparr>da_data := p, da_size := n\<rparr>)"
    using r d a n unfolding Allocate_def PoolAllocator_Allocate_def by (auto simp: Let_def split: if_splits)
  have "blocks (fw s') = K \<union> owns D' \<and> array_ok K D' \<and> same_on K (ram s1) (ram s') \<and>
    (EFI_ERROR st \<longrightarrow> da_data D' = 0) \<and>
    (\<not> EFI_ERROR st \<longrightarrow> da_data D' \<noteq> 0 \<and> da_size D' = n \<and> mapped (ram s') (da_data D') n)"
  proof (cases "EFI_ERROR st'")
    case True
    then show ?thesis using run d1(1,2) pool_allocate_fails [OF pool(1) a] by (simp add: owns_def array_ok_def)
  next
    case False
    note al = pool_allocate [OF pool(1) a False]
    have dj: "\<forall>(q, k) \<in> K. disjoint_ranges p n q k"
    proof clarify
      fix q k assume "(q, k) \<in> K"
      then have "in_use (blocks (fw s1)) q k" using d1(2) by (intro in_useI [of q k]) simp_all
      then show "disjoint_ranges p n q k" by (rule al(5))
    qed
    have p: "p \<noteq> 0" using al(1) by (simp add: mapped_def)
    have "mapped (ram s2) p n" using al(1) same_outside_mapped [OF al(2)] by simp
    then show ?thesis
      using run False p al(3,4) d1(2) dj same_on_outside [OF al(2) dj] by (auto simp: owns_def array_ok_def apart_def)
  qed
  then show "blocks (fw s') = K \<union> owns D'" "array_ok K D'" "same_on K (ram s) (ram s')" "opens (fw s') = opens (fw s)"
    "EFI_ERROR st \<Longrightarrow> da_data D' = 0"
    "\<not> EFI_ERROR st \<Longrightarrow> da_data D' \<noteq> 0 \<and> da_size D' = n \<and> mapped (ram s') (da_data D') n"
    using d1(3,4) o2 run(2) by (auto intro: same_on_trans)
qed

lemma objects_quiet:
  assumes "objects blocks opens s0 f A s" "quiet blocks s s'" "opens (fw s') = opens (fw s)"
  shows "objects blocks opens s0 f A s'"
proof -
  have "blocks (fw s0) \<subseteq> blocks (fw s)" using assms(1) by (auto simp: objects_def)
  then show ?thesis
    using assms same_on_mono by (auto simp: objects_def quiet_def intro: same_on_trans)
qed

lemma objects_say:
  "says_ok Say (\<lambda>w. (blocks w, opens w)) \<Longrightarrow> objects blocks opens s0 f A s \<Longrightarrow> objects blocks opens s0 f A (Say t as s)"
  by (erule objects_quiet) (simp_all add: quiet_def says_ok_def)

text \<open>The array and the file's own array, allocated anew.\<close>

lemma objects_allocate:
  assumes pool: "pool_ok (BS L) blocks" "pool_keeps (BS L) opens" and n: "n < 2 ^ 64"
    and inv: "objects blocks opens s0 f A s"
  shows "Allocate L 1 A n s = (st, A', s') \<Longrightarrow> objects blocks opens s0 f A' s'"
    "Allocate L 1 (f_fileInfo f) n s = (st, I, s') \<Longrightarrow> objects blocks opens s0 (f\<lparr>f_fileInfo := I\<rparr>) A s'"
proof -
  show "objects blocks opens s0 f A' s'" if r: "Allocate L 1 A n s = (st, A', s')"
  proof -
    have "blocks (fw s) = (blocks (fw s0) \<union> owns (f_fileInfo f)) \<union> owns A"
      "array_ok (blocks (fw s0) \<union> owns (f_fileInfo f)) A" using inv by (simp_all add: objects_def)
    note al = Allocate_owns [OF pool this n r]
    show ?thesis using inv al same_on_mono [OF al(3)] by (auto simp: objects_def intro: same_on_trans)
  qed
  show "objects blocks opens s0 (f\<lparr>f_fileInfo := I\<rparr>) A s'" if r: "Allocate L 1 (f_fileInfo f) n s = (st, I, s')"
  proof -
    have ok: "array_ok (blocks (fw s0)) A \<and> array_ok (blocks (fw s0) \<union> owns A) (f_fileInfo f)"
      using array_ok_swap inv by (auto simp: objects_def)
    have "blocks (fw s) = (blocks (fw s0) \<union> owns A) \<union> owns (f_fileInfo f)"
      "array_ok (blocks (fw s0) \<union> owns A) (f_fileInfo f)" using inv ok by (auto simp: objects_def)
    note al = Allocate_owns [OF pool this n r]
    have "array_ok (blocks (fw s0)) I \<and> array_ok (blocks (fw s0) \<union> owns I) A"
      using array_ok_swap [of "blocks (fw s0)" A I] ok al(2) by blast
    then show ?thesis
      using inv al same_on_mono [OF al(3)] by (auto simp: objects_def handles_def intro: same_on_trans)
  qed
qed

text \<open>Reading into the block of an array.\<close>

lemma objects_filled:
  assumes inv: "objects blocks opens s0 f A s" and p: "(p, n) \<in> owns (f_fileInfo f) \<union> owns A \<or> n = 0"
    and w: "same_outside (ram s) (ram s') p n" "blocks (fw s') = blocks (fw s)" "opens (fw s') = opens (fw s)"
  shows "objects blocks opens s0 f A s'"
proof -
  have "same_on (blocks (fw s0)) (ram s) (ram s')"
  proof (cases "n = 0")
    case True
    then have "ram s' = ram s" using w(1) unfolding same_outside_def by (metis add_0_right le_less_linear nth_equalityI)
    then show ?thesis by simp
  next
    case False
    then have "(p, n) \<in> owns (f_fileInfo f) \<or> (p, n) \<in> owns A" using p by blast
    then have "\<forall>(q, k) \<in> blocks (fw s0). disjoint_ranges p n q k"
      using inv by (auto simp: objects_def array_ok_def owns_def apart_def split: if_splits)
    then show ?thesis using same_on_outside [OF w(1)] by blast
  qed
  then show ?thesis using inv w(2,3) by (auto simp: objects_def intro: same_on_trans)
qed

lemma info_call:
  assumes "io_ok F blocks opens" "GetInfo F f g n p s = (st, n', s')"
  shows "n' < 2 ^ 64" "same_outside (ram s) (ram s') p n" "blocks (fw s') = blocks (fw s)" "opens (fw s') = opens (fw s)"
  using assms unfolding io_ok_def by blast+

lemma read_call:
  assumes "io_ok F blocks opens" "FileRead F f n p s = (st, n', s')"
  shows "same_outside (ram s) (ram s') p (unat n)" "blocks (fw s') = blocks (fw s)" "opens (fw s') = opens (fw s)"
  using assms unfolding io_ok_def by blast+

lemma objects_OpenRoot:
  assumes F: "files_ok F blocks opens" and B: "locate_ok (BS L) blocks opens" and Say: "says_ok Say (\<lambda>w. (blocks w, opens w))"
    and inv: "objects blocks opens s0 f A s" and root: "f_root f = 0" and fh: "f_file f = 0"
    and run: "OpenRoot L F Say N f h s = Some (st, f', s')"
  shows "objects blocks opens s0 f' A s'" "f_file f' = 0"
proof -
  obtain st1 p1 s1 where h1: "BS_HandleProtocol (BS L) h (LoadedImageProtocol_id N) s = (st1, p1, s1)" using prod_cases3 by blast
  have other: "objects blocks opens s0 (f\<lparr>f_loadedImage := a, f_fsp := b\<rparr>) A s = objects blocks opens s0 f A s" for a b s
    by (simp add: objects_def handles_def)
  have inv1: "objects blocks opens s0 f A s1" using objects_quiet [OF inv] handle_protocol(1,2) [OF B h1] by blast
  have "objects blocks opens s0 f' A s' \<and> f_file f' = 0"
  proof (cases "EFI_ERROR st1")
    case True
    have "objects blocks opens s0 (f\<lparr>f_loadedImage := a\<rparr>) A s1" for a
      using inv1 other [of a "f_fsp f"] by (simp add: objects_def handles_def)
    then show ?thesis using run h1 True fh objects_say [OF Say] by (auto simp: OpenRoot_def Let_def)
  next
    case False
    let ?f1 = "f\<lparr>f_loadedImage := stored p1 (f_loadedImage f)\<rparr>"
    obtain d where d: "rd64 (ram s1) (f_loadedImage ?f1 + 24) = Some d"
      using run h1 False by (auto simp: OpenRoot_def Let_def split: bind_splits)
    obtain st2 p2 s2 where h2: "BS_HandleProtocol (BS L) (unat d) (FileSystemProtocol_id N) s1 = (st2, p2, s2)"
      using prod_cases3 by blast
    let ?f2 = "?f1\<lparr>f_fsp := stored p2 (f_fsp f)\<rparr>"
    have inv2: "objects blocks opens s0 ?f2 A s2"
      using objects_quiet [OF inv1] handle_protocol(1,2) [OF B h2] other by simp
    obtain st3 r s3 where v: "OpenVolume F (f_fsp ?f2) s2 = (st3, r, s3)" using prod_cases3 by blast
    note ov = open_volume [OF F v]
    show ?thesis
    proof (cases "EFI_ERROR st2")
      case True
      then show ?thesis
        using run h1 h2 d False fh inv2 objects_say [OF Say] by (auto simp: OpenRoot_def Let_def)
    next
      case ok2: False
      have eq: "st = st3" "s' = s3" "f' = (if EFI_ERROR st3 then ?f2 else ?f2\<lparr>f_root := r\<rparr>)"
        using run h1 h2 d v False ok2 by (auto simp: OpenRoot_def Let_def split: if_splits)
      show ?thesis
      proof (cases "EFI_ERROR st3")
        case True
        then show ?thesis using eq fh objects_quiet [OF inv2 ov(1)] ov(2) by simp
      next
        case False
        have b: "blocks (fw s0) \<subseteq> blocks (fw s2)" using inv2 by (auto simp: objects_def)
        have "opened opens s2 r s3" using ov(3) False by blast
        then show ?thesis
          using eq False inv2 root fh ov(1) same_on_mono [OF _ b]
          by (auto simp: objects_def handles_def opened_def quiet_def intro: same_on_trans)
      qed
    qed
  qed
  then show "objects blocks opens s0 f' A s'" "f_file f' = 0" by simp_all
qed

lemma objects_GetFileInfo:
  assumes pool: "pool_ok (BS L) blocks" "pool_keeps (BS L) opens" and io: "io_ok F blocks opens"
    and Say: "says_ok Say (\<lambda>w. (blocks w, opens w))"
    and inv: "objects blocks opens s0 f A s" and run: "GetFileInfo L F Say N f s = Some (st, f', s')"
  shows "objects blocks opens s0 f' A s'"
proof -
  have f: "f_file f \<noteq> 0"
  proof
    assume "f_file f = 0"
    then show False using run by (simp add: GetFileInfo_def)
  qed
  obtain st1 n1 s1 where g: "GetInfo F (f_file f) (GenericFileInfo_id N) 0 0 s = (st1, n1, s1)" using prod_cases3 by blast
  have inv1: "objects blocks opens s0 f A s1"
    using objects_filled [OF inv _ info_call(2-4) [OF io g]] by simp
  obtain st2 I s2 where a: "Allocate L 1 (f_fileInfo f) n1 s1 = (st2, I, s2)" using prod_cases3 by blast
  let ?f = "f\<lparr>f_fileInfo := I\<rparr>"
  have inv2: "objects blocks opens s0 ?f A s2" by (rule objects_allocate(2) [OF pool info_call(1) [OF io g] inv1 a])
  obtain st3 n3 s3 where g3: "GetInfo F (f_file f) (GenericFileInfo_id N) n1 (da_data I) s2 = (st3, n3, s3)"
    using prod_cases3 by blast
  show ?thesis
  proof (cases "EFI_ERROR st1 \<and> st1 \<noteq> EFI_BUFFER_TOO_SMALL \<or> EFI_ERROR st2")
    case True
    then show ?thesis using run f g a inv1 inv2 objects_say [OF Say] by (auto simp: GetFileInfo_def Let_def split: if_splits)
  next
    case False
    have ok: "array_ok (blocks (fw s0)) A \<and> array_ok (blocks (fw s0) \<union> owns A) (f_fileInfo f)"
      using array_ok_swap inv1 by (auto simp: objects_def)
    have "blocks (fw s1) = (blocks (fw s0) \<union> owns A) \<union> owns (f_fileInfo f)" using inv1 by (auto simp: objects_def)
    then have "da_data I \<noteq> 0 \<and> da_size I = n1"
      using Allocate_owns(6) [OF pool _ _ info_call(1) [OF io g] a] ok False by blast
    then have "(da_data I, n1) \<in> owns (f_fileInfo ?f) \<union> owns A \<or> n1 = 0" by (simp add: owns_def)
    from objects_filled [OF inv2 this info_call(2-4) [OF io g3]] show ?thesis
      using run f g a g3 False by (auto simp: GetFileInfo_def Let_def split: if_splits)
  qed
qed

lemma objects_closed:
  assumes F: "files_ok F blocks opens" and inv: "objects blocks opens s0 f A s" and f: "f_file f \<noteq> 0"
  shows "objects blocks opens s0 (f\<lparr>f_file := 0\<rparr>) A (snd (FileClose F (f_file f) s))"
proof -
  have b: "blocks (fw s0) \<subseteq> blocks (fw s)" using inv by (auto simp: objects_def)
  show ?thesis
    using inv f close_file [OF F, where s = s and f = "f_file f"] same_on_mono [OF _ b]
    by (auto simp: objects_def handles_def quiet_def intro: same_on_trans)
qed

lemma objects_Open:
  assumes pool: "pool_ok (BS L) blocks" "pool_keeps (BS L) opens" and F: "files_ok F blocks opens"
    and io: "io_ok F blocks opens" and B: "locate_ok (BS L) blocks opens" and Say: "says_ok Say (\<lambda>w. (blocks w, opens w))"
    and inv: "objects blocks opens s0 f A s" and fh: "f_root f = 0 \<longrightarrow> f_file f = 0"
    and run: "File_Open L F Say N f h path md s = Some (st, f', s')"
  shows "objects blocks opens s0 f' A s' \<and> (f_root f' = 0 \<longrightarrow> f_file f' = 0)"
proof -
  obtain st1 f1 s1 where r: "(if f_root f = 0 then do {
          (status, f, s) \<leftarrow> OpenRoot L F Say N f h s;
          Some (status, f, if EFI_ERROR status then Say (nl ''Failed to Open Root... [%r]'') [status] s else s) }
        else Some (EFI_SUCCESS, f, s)) = Some (st1, f1, s1)"
    using run by (auto simp: File_Open_def split: bind_splits)
  have inv1: "objects blocks opens s0 f1 A s1 \<and> (f_root f1 = 0 \<longrightarrow> f_file f1 = 0)"
  proof (cases "f_root f = 0")
    case True
    then obtain s2 where o: "OpenRoot L F Say N f h s = Some (st1, f1, s2)"
        "s1 = (if EFI_ERROR st1 then Say (nl ''Failed to Open Root... [%r]'') [st1] s2 else s2)"
      using r by (auto split: bind_splits)
    show ?thesis
      using objects_OpenRoot [OF F B Say inv True _ o(1)] fh True o(2) objects_say [OF Say] by auto
  next
    case False
    then show ?thesis using r inv fh by simp
  qed
  show ?thesis
  proof (cases "EFI_ERROR st1")
    case True
    then show ?thesis using run r inv1 by (simp add: File_Open_def)
  next
    case False
    then have root: "f_root f1 \<noteq> 0" using run r by (auto simp: File_Open_def split: if_splits)
    obtain f2 s2 where c: "(if f_file f1 \<noteq> 0 then (f1\<lparr>f_file := 0\<rparr>, snd (FileClose F (f_file f1) s1)) else (f1, s1)) = (f2, s2)"
      by force
    have inv2: "objects blocks opens s0 f2 A s2" "f_file f2 = 0" "f_root f2 = f_root f1"
      using c inv1 objects_closed [OF F, where s = s1 and f = f1 and A = A] by (auto split: if_splits)
    obtain st3 p s3 where o: "FileOpen F (f_root f2) path md 0 s2 = (st3, p, s3)" using prod_cases3 by blast
    note opn = open_file [OF F o]
    let ?f = "f2\<lparr>f_file := stored p (f_file f2)\<rparr>"
    have b: "blocks (fw s0) \<subseteq> blocks (fw s2)" using inv2(1) by (auto simp: objects_def)
    have inv3: "objects blocks opens s0 ?f A s3"
    proof (cases "EFI_ERROR st3")
      case True
      then have same: "?f = f2" using opn(2) by (simp add: stored_def)
      show ?thesis unfolding same using objects_quiet [OF inv2(1) opn(1)] opn(2) True by simp
    next
      case False
      then obtain g where g: "p = Some g" "opened opens s2 g s3" using opn(3) by blast
      have "g \<noteq> f_root f2" using g(2) inv2(1) root inv2(3) by (auto simp: opened_def objects_def handles_def)
      then show ?thesis
        using g inv2(1,2) opn(1) same_on_mono [OF _ b] by (auto simp: objects_def handles_def opened_def quiet_def stored_def intro: same_on_trans)
    qed
    show ?thesis
    proof (cases "EFI_ERROR st3")
      case True
      then have "File_Open L F Say N f h path md s = Some (st3, ?f, Say (ln ''Failed to Open File... [%r]'') [st3] s3)"
        using r c o False root by (simp add: File_Open_def)
      then have "f' = ?f" "s' = Say (ln ''Failed to Open File... [%r]'') [st3] s3" using run by simp_all
      then show ?thesis using objects_say [OF Say inv3] root inv2(3) by simp
    next
      case ok: False
      then have "File_Open L F Say N f h path md s = GetFileInfo L F Say N ?f s3"
        using r c o False root by (simp add: File_Open_def)
      then have gi: "GetFileInfo L F Say N ?f s3 = Some (st, f', s')" using run by simp
      then have "f_root f' = f_root ?f"
        by (auto simp: GetFileInfo_def Let_def split: if_splits prod.splits)
      then show ?thesis using objects_GetFileInfo [OF pool io Say inv3 gi] root inv2(3) by simp
    qed
  qed
qed

lemma objects_Read:
  assumes pool: "pool_ok (BS L) blocks" "pool_keeps (BS L) opens" and io: "io_ok F blocks opens"
    and Say: "says_ok Say (\<lambda>w. (blocks w, opens w))"
    and inv: "objects blocks opens s0 f A s" and run: "File_Read L F Say f A n s = Some (st, A', n', s')"
  shows "objects blocks opens s0 f A' s'"
proof -
  have n: "unat n < 2 ^ 64" using unat_bounds(4) [of n] by simp
  obtain st1 A1 s1 where a: "Allocate L 1 A (unat n) s = (st1, A1, s1)" using prod_cases3 by blast
  have inv1: "objects blocks opens s0 f A1 s1" by (rule objects_allocate(1) [OF pool n inv a])
  show ?thesis
  proof (cases "EFI_ERROR st1")
    case True
    then show ?thesis using run a inv1 by (auto simp: File_Read_def intro: objects_say [OF Say])
  next
    case False
    obtain st2 n2 s2 where r: "FileRead F (f_file f) n (da_data A1) s1 = (st2, n2, s2)" using prod_cases3 by blast
    have "blocks (fw s) = (blocks (fw s0) \<union> owns (f_fileInfo f)) \<union> owns A"
      "array_ok (blocks (fw s0) \<union> owns (f_fileInfo f)) A" using inv by (simp_all add: objects_def)
    from Allocate_owns(6) [OF pool this n a] False
    have "(da_data A1, unat n) \<in> owns (f_fileInfo f) \<union> owns A1 \<or> unat n = 0" by (auto simp: owns_def)
    from objects_filled [OF inv1 this read_call [OF io r]] show ?thesis
      using run a False r by (auto simp: File_Read_def split: if_splits)
  qed
qed

lemma objects_delete:
  assumes pool: "pool_ok (BS L) blocks" "pool_keeps (BS L) opens" and F: "files_ok F blocks opens"
    and inv: "objects blocks opens s0 f A s"
  shows "balanced blocks opens s0 (File_delete L F f (DynamicArray_delete L A s))"
proof -
  let ?s1 = "DynamicArray_delete L A s"
  have del: "blocks (fw (DynamicArray_delete L D s)) = K \<and> same_on K (ram s) (ram (DynamicArray_delete L D s)) \<and>
      opens (fw (DynamicArray_delete L D s)) = opens (fw s)" if "blocks (fw s) = K \<union> owns D" "array_ok K D" for D K s
    using Deallocate_owns [OF pool that] that(1)
    by (cases "da_data D = 0"; cases "Deallocate L D s") (auto simp: DynamicArray_delete_def owns_def)
  have d1: "blocks (fw ?s1) = blocks (fw s0) \<union> owns (f_fileInfo f)" "opens (fw ?s1) = opens (fw s)"
      "same_on (blocks (fw s0)) (ram s0) (ram ?s1)"
    using del [of s "blocks (fw s0) \<union> owns (f_fileInfo f)" A] inv same_on_mono [OF _ Un_upper1]
    by (auto simp: objects_def intro: same_on_trans)
  obtain f2 s2 where c: "File_Close L F f ?s1 = (f2, s2)" by force
  have close: "blocks (fw (snd (FileClose F g t))) = blocks (fw t)" "opens (fw (snd (FileClose F g t))) = opens (fw t) - {g}"
      "blocks (fw s0) \<subseteq> blocks (fw t) \<Longrightarrow> same_on (blocks (fw s0)) (ram s0) (ram t) \<Longrightarrow>
        same_on (blocks (fw s0)) (ram s0) (ram (snd (FileClose F g t)))" for g t
    using close_file [OF F, where s = t and f = g] same_on_mono by (auto simp: quiet_def intro: same_on_trans)
  have "blocks (fw s2) = blocks (fw ?s1) \<and> opens (fw s2) = opens (fw s0) \<and> same_on (blocks (fw s0)) (ram s0) (ram s2) \<and>
      f_fileInfo f2 = f_fileInfo f"
    using c inv d1 close by (auto simp: File_Close_def objects_def handles_def Let_def split: if_splits)
  then show ?thesis
    using del [of s2 "blocks (fw s0)" "f_fileInfo f"] d1(1) inv c
    by (auto simp: File_delete_def objects_def balanced_def quiet_def intro: same_on_trans)
qed

text \<open>A program that uses one file object and one array.\<close>

inductive file_step ::
  "'w lib \<Rightarrow> 'w file_services \<Rightarrow> 'w say \<Rightarrow> file_names \<Rightarrow> File \<times> darray \<times> 'w st \<Rightarrow> File \<times> darray \<times> 'w st \<Rightarrow> bool"
  for L F Say N where
  Open: "File_Open L F Say N f h path md s = Some (st, f', s') \<Longrightarrow> file_step L F Say N (f, A, s) (f', A, s')"
| Read: "File_Read L F Say f A n s = Some (st, A', n', s') \<Longrightarrow> file_step L F Say N (f, A, s) (f, A', s')"
| Read_all: "File_Read_all L F Say f A s = Some (st, A', s') \<Longrightarrow> file_step L F Say N (f, A, s) (f, A', s')"
| Dealloc: "Deallocate L A s = (A', s') \<Longrightarrow> file_step L F Say N (f, A, s) (f, A', s')"

inductive file_run ::
  "'w lib \<Rightarrow> 'w file_services \<Rightarrow> 'w say \<Rightarrow> file_names \<Rightarrow> File \<times> darray \<times> 'w st \<Rightarrow> File \<times> darray \<times> 'w st \<Rightarrow> bool"
  for L F Say N x where
  start: "file_run L F Say N x x"
| more: "file_run L F Say N x y \<Longrightarrow> file_step L F Say N y z \<Longrightarrow> file_run L F Say N x z"

lemma objects_step:
  assumes pool: "pool_ok (BS L) blocks" "pool_keeps (BS L) opens" and F: "files_ok F blocks opens"
    and io: "io_ok F blocks opens" and B: "locate_ok (BS L) blocks opens" and Say: "says_ok Say (\<lambda>w. (blocks w, opens w))"
    and inv: "objects blocks opens s0 f A s" "f_root f = 0 \<longrightarrow> f_file f = 0"
    and step: "file_step L F Say N (f, A, s) (f', A', s')"
  shows "objects blocks opens s0 f' A' s' \<and> (f_root f' = 0 \<longrightarrow> f_file f' = 0)"
  using step
proof cases
  case (Open h path md st)
  then show ?thesis using objects_Open [OF pool F io B Say inv] by blast
next
  case (Read n st n')
  then show ?thesis using objects_Read [OF pool io Say inv(1) Read(2)] inv(2) by simp
next
  case (Read_all st)
  then obtain n n' where "File_Read L F Say f A n s = Some (st, A', n', s')"
    by (auto simp: File_Read_all_def split: bind_splits)
  from objects_Read [OF pool io Say inv(1) this] show ?thesis using inv(2) Read_all(1) by simp
next
  case Dealloc
  have "blocks (fw s) = (blocks (fw s0) \<union> owns (f_fileInfo f)) \<union> owns A"
    "array_ok (blocks (fw s0) \<union> owns (f_fileInfo f)) A" using inv(1) by (simp_all add: objects_def)
  note d = Deallocate_owns [OF pool this Dealloc(2)]
  show ?thesis
    using inv Dealloc(1) d same_on_mono [OF d(3) Un_upper1]
    by (auto simp: objects_def owns_def array_ok_def intro: same_on_trans)
qed

text \<open>C11. File objects and arrays leak nothing: whatever sequence of opens, reads and deallocations a program makes
  on one file and one array, and however they end, the destructors close every file and free every block
  that was opened or allocated since, and memory in use before is unchanged throughout.\<close>

theorem file_run_balanced:
  assumes pool: "pool_ok (BS L) blocks" "pool_keeps (BS L) opens" and F: "files_ok F blocks opens"
    and io: "io_ok F blocks opens" and B: "locate_ok (BS L) blocks opens" and Say: "says_ok Say (\<lambda>w. (blocks w, opens w))"
    and run: "file_run L F Say N (File_new, DynamicArray_new, s0) (f, A, s)"
  shows "same_on (blocks (fw s0)) (ram s0) (ram s) \<and> balanced blocks opens s0 (File_delete L F f (DynamicArray_delete L A s))"
proof -
  have "case y of (f, A, s) \<Rightarrow> objects blocks opens s0 f A s \<and> (f_root f = 0 \<longrightarrow> f_file f = 0)"
    if "file_run L F Say N (File_new, DynamicArray_new, s0) y" for y
    using that
  proof induction
    case start
    then show ?case
      by (simp add: objects_def File_new_def DynamicArray_new_def handles_def owns_def array_ok_def)
  next
    case (more y z)
    obtain f A s f' A' s' where yz: "y = (f, A, s)" "z = (f', A', s')" by (cases y; cases z) blast
    then show ?case using objects_step [OF pool F io B Say, of s0 f A s N f' A' s'] more by simp
  qed
  from this [OF run] have "objects blocks opens s0 f A s" by simp
  then show ?thesis using objects_delete [OF pool F] by (simp add: objects_def)
qed

subsection \<open>The boot\<close>

lemma File_Open_file:
  assumes "File_Open L F Say N f h path md s = Some (st, f', s')" "\<not> EFI_ERROR st"
  shows "f_file f' \<noteq> 0"
proof -
  obtain st1 f1 s1 where r: "(if f_root f = 0 then do {
          (status, f, s) \<leftarrow> OpenRoot L F Say N f h s;
          Some (status, f, if EFI_ERROR status then Say (nl ''Failed to Open Root... [%r]'') [status] s else s) }
        else Some (EFI_SUCCESS, f, s)) = Some (st1, f1, s1)"
    using assms(1) by (auto simp: File_Open_def split: bind_splits)
  obtain f2 s2 where c: "(if f_file f1 \<noteq> 0 then (f1\<lparr>f_file := 0\<rparr>, snd (FileClose F (f_file f1) s1)) else (f1, s1)) = (f2, s2)"
    by force
  obtain st3 p s3 where o: "FileOpen F (f_root f2) path md 0 s2 = (st3, p, s3)" using prod_cases3 by blast
  let ?f = "f2\<lparr>f_file := stored p (f_file f2)\<rparr>"
  have "File_Open L F Say N f h path md s =
      (if EFI_ERROR st1 then Some (st1, f1, s1) else if f_root f1 = 0 then None
       else if EFI_ERROR st3 then Some (st3, ?f, Say (ln ''Failed to Open File... [%r]'') [st3] s3)
       else GetFileInfo L F Say N ?f s3)"
    using r c o by (simp add: File_Open_def)
  then have "GetFileInfo L F Say N ?f s3 = Some (st, f', s')" using assms by (simp split: if_splits)
  then show ?thesis by (auto simp: GetFileInfo_def Let_def split: if_splits prod.splits)
qed

lemma rd64_total: "length m' = length m \<Longrightarrow> rd64 m p = Some v \<Longrightarrow> \<exists>v'. rd64 m' p = Some v'"
  by (auto simp: rd64_def rd_bytes_def mapped_def split: if_splits)

lemma File_Size_total: "length m' = length m \<Longrightarrow> File_Size m f = Some v \<Longrightarrow> \<exists>v'. File_Size m' f = Some v'"
  by (auto simp: File_Size_def rd64_total)

text \<open>The file is read into a new block.\<close>

lemma File_Read_all_eq:
  assumes pool: "pool_ok (BS L) blocks" and f: "f_file f \<noteq> 0" and n: "File_Size (ram s) f = Some n" "unat n = length d"
    and contents: "\<And>p t. mapped (ram t) p (length d) \<Longrightarrow>
      \<exists>n'. FileRead F (f_file f) n p t = (EFI_SUCCESS, n', with_ram t (overwrite (ram t) p d))"
    and room: "\<not> EFI_ERROR (fst (BS_AllocatePool (BS L) 2 (length d) s))"
  shows "\<exists>p s'. File_Read_all L F Say f DynamicArray_new s = Some (EFI_SUCCESS, \<lparr> da_data = p, da_size = length d \<rparr>, s') \<and>
    bytes_at (ram s') p d \<and> blocks (fw s') = insert (p, length d) (blocks (fw s)) \<and> length (ram s') = length (ram s)"
proof -
  obtain st p s1 where a: "BS_AllocatePool (BS L) 2 (length d) s = (st, p, s1)" using prod_cases3 by blast
  have ok: "\<not> EFI_ERROR st" using room a by simp
  note al = pool_allocate [OF pool a ok]
  have m: "mapped (ram s1) p (length d)" using al(1) same_outside_mapped [OF al(2)] by simp
  obtain n' where r: "FileRead F (f_file f) n p s1 = (EFI_SUCCESS, n', with_ram s1 (overwrite (ram s1) p d))"
    using contents [OF m] by blast
  have "length d < 2 ^ 64" using n(2) unat_bounds(4) [of n] by simp
  then have u: "uintn (length d * 1) = length d" by simp
  have "st \<noteq> EFI_BUFFER_TOO_SMALL" using ok by auto
  then have "Allocate L 1 DynamicArray_new (length d) s = (st, \<lparr> da_data = p, da_size = length d \<rparr>, s1)"
    using a ok u by (simp add: Allocate_def PoolAllocator_Allocate_def DynamicArray_new_def Let_def)
  then have "File_Read_all L F Say f DynamicArray_new s =
      Some (EFI_SUCCESS, \<lparr> da_data = p, da_size = length d \<rparr>, with_ram s1 (overwrite (ram s1) p d))"
    using n f ok r by (simp add: File_Read_all_def File_Read_def)
  then show ?thesis
    using m bytes_at_overwrite [OF m] al(4) same_outside_length [OF al(2)] by (auto simp: mapped_def)
qed

text \<open>C1. The boot. When \<open>lk.elf\<close> has been opened, its contents \<open>d\<close> are an image with exactly one program header,
  of a loadable segment, and there is room for them in the pool, then the program reads the file and has it
  loaded. If in that state the firmware gives the pages of the image, the program calls the entry point of the
  image, with the segment in its place and the rest of its pages zero. If the firmware refuses them, it calls
  all the same, the address that the uninitialised variable \<open>entryAddr\<close> happens to hold.\<close>

theorem pickleTest_boots:
  assumes pool: "pool_ok (BS L) blocks" and pages: "pages_ok P blocks" and says: "says_ok Say blocks"
    and opened: "File_Open L F Say N File_new h (lk_elf N) 0x8000000000000003 s = Some (st, f, s1)" "\<not> EFI_ERROR st"
    and size: "File_Size (ram s1) f = Some n" "unat n = length d"
    and contents: "\<And>p t. mapped (ram t) p (length d) \<Longrightarrow>
      \<exists>n'. FileRead F (f_file f) n p t = (EFI_SUCCESS, n', with_ram t (overwrite (ram t) p d))"
    and room: "\<not> EFI_ERROR (fst (BS_AllocatePool (BS L) 2 (length d) (Say (ln ''Open Success'') [] s1)))"
    and ok: "elf_ok d" and fit: "segments_fit d" and one: "elf_phnum d = 1" and seg: "segments d = [g]"
    "unat (s_filesz g) \<le> unat (s_memsz g)" "unat (s_offset g) + unat (s_filesz g) \<le> length d"
    and len: "length (ram s1) < 2 ^ 64"
  shows "\<exists>A n2 s2 e s'. File_Read_all L F Say f DynamicArray_new (Say (ln ''Open Success'') [] s1) = Some (EFI_SUCCESS, A, s2) \<and>
    bytes_at (ram s2) (da_data A) d \<and> File_Size (ram s2) f = Some n2 \<and>
    pickleTest L F P Say N entryAddr h s = Some (e, f, A, s') \<and>
    (if EFI_ERROR (pages_status P d (Say (ln ''File Size: %lu'') [n2] s2)) then e = entryAddr
     else e = elf_start d \<and> bytes_at (ram s') (unat (s_paddr g)) (contents d g) \<and>
       (\<forall>a. first_page d \<le> a \<and> a < end_page d \<and> (a < unat (s_paddr g) \<or> unat (s_paddr g) + unat (s_filesz g) \<le> a) \<longrightarrow>
          ram s' ! a = 0))"
proof -
  let ?s1 = "Say (ln ''Open Success'') [] s1"
  have ram1: "ram ?s1 = ram s1" using says by (simp add: says_ok_def)
  have n1: "File_Size (ram ?s1) f = Some n" using size(1) ram1 by simp
  from File_Read_all_eq [OF pool File_Open_file [OF opened] n1 size(2) contents room, of Say]
  obtain p s2 where rd: "File_Read_all L F Say f DynamicArray_new ?s1 =
        Some (EFI_SUCCESS, \<lparr> da_data = p, da_size = length d \<rparr>, s2)" "bytes_at (ram s2) p d"
      "blocks (fw s2) = insert (p, length d) (blocks (fw ?s1))" "length (ram s2) = length (ram s1)"
    using ram1 by auto
  obtain n2 where n2: "File_Size (ram s2) f = Some n2" using File_Size_total [OF rd(4) size(1)] by blast
  let ?s3 = "Say (ln ''File Size: %lu'') [n2] s2"
  have s3: "bytes_at (ram ?s3) p d" "in_use (blocks (fw ?s3)) p (length d)"
    using rd(2,3) says by (simp_all add: says_ok_def in_useI [of p "length d"])
  have w: "word_of_nat (length d) = n" unfolding size(2) [symmetric] by simp
  have "p + length d < 2 ^ 64" using bytes_at_mapped [OF rd(2)] rd(4) len by (simp add: mapped_def)
  from LoadImage_one_copied [OF pages says s3 ok fit one_header [OF ok one seg(1)] seg(2,3) size(2) this, of Elf_new]
  obtain E e s4 where ld: "LoadImage P Say Elf_new p n ?s3 = Some (pages_status P d ?s3, E, e, s4)"
      "if EFI_ERROR (pages_status P d ?s3) then e = None
       else e = Some (elf_start d) \<and> blocks (fw s4) = insert (first_page d, end_page d - first_page d) (blocks (fw ?s3)) \<and>
         same_outside (ram ?s3) (ram s4) (first_page d) (end_page d - first_page d) \<and>
         bytes_at (ram s4) (unat (s_paddr g)) (contents d g) \<and>
         (\<forall>a. first_page d \<le> a \<and> a < end_page d \<and> (a < unat (s_paddr g) \<or> unat (s_paddr g) + unat (s_filesz g) \<le> a) \<longrightarrow>
            ram s4 ! a = 0)"
    by blast
  have run: "pickleTest L F P Say N entryAddr h s =
      Some (case e of None \<Rightarrow> entryAddr | Some e \<Rightarrow> e, f, \<lparr> da_data = p, da_size = length d \<rparr>,
        if EFI_ERROR (pages_status P d ?s3)
        then Say (ln ''Failed to Load ELF Image...[%r]'') [pages_status P d ?s3] s4 else s4)"
    using opened rd(1) n2 ld(1) w by (simp add: pickleTest_def Let_def)
  show ?thesis
  proof (cases "EFI_ERROR (pages_status P d ?s3)")
    case True
    then have "e = None" using ld(2) by simp
    then show ?thesis using True run rd(1,2) n2 by simp
  next
    case False
    then have "e = Some (elf_start d)" using ld(2) by simp
    then show ?thesis using False run rd(1,2) n2 ld(2) by simp
  qed
qed

subsection \<open>On the demo firmware\<close>

text \<open>A volume with one file, \<open>d\<close>, and a library on it; the loaded image is at 1.\<close>

definition boot_volume :: "u8 list \<Rightarrow> demo file_services" where
  "boot_volume d = demo_volume\<lparr>
     GetInfo := (\<lambda>f g n p s.
       if n < 16 then (EFI_BUFFER_TOO_SMALL, 16, s)
       else if mapped (ram s) p 16
       then (EFI_SUCCESS, 16, with_ram s (overwrite (ram s) p (le_bytes 8 (16 :: u64) @ le_bytes 8 (word_of_nat (length d) :: u64))))
       else (EFI_INVALID_PARAMETER, 16, s)),
     FileRead := (\<lambda>f n p s.
       if mapped (ram s) p (unat n)
       then (EFI_SUCCESS, n, with_ram s (overwrite (ram s) p (take (unat n) d))) else (EFI_INVALID_PARAMETER, n, s))\<rparr>"

definition boot_lib :: "demo lib" where
  "boot_lib = demo_lib\<lparr>BS := demo_boot\<lparr>BS_HandleProtocol := (\<lambda>h g s. (EFI_SUCCESS, Some 1, s))\<rparr>\<rparr>"

definition boot_names :: file_names where
  "boot_names = \<lparr> LoadedImageProtocol_id = 2, FileSystemProtocol_id = 3, GenericFileInfo_id = 4, lk_elf = 5 \<rparr>"

definition boot_state :: "demo st" where
  "boot_state = demo_mem (replicate 40 0) 20000"

lemma boot_ok:
  "pool_ok (BS boot_lib) blocks_of" "pool_keeps (BS boot_lib) (\<lambda>w. set (demo_files w))"
  "files_ok (boot_volume d) blocks_of (\<lambda>w. set (demo_files w))"
  "io_ok (boot_volume d) blocks_of (\<lambda>w. set (demo_files w))"
  "locate_ok (BS boot_lib) blocks_of (\<lambda>w. set (demo_files w))"
  "says_ok demo_say (\<lambda>w. (blocks_of w, set (demo_files w)))"
proof -
  show "pool_ok (BS boot_lib) blocks_of" using demo_pool_ok by (simp add: pool_ok_def boot_lib_def)
  show "pool_keeps (BS boot_lib) (\<lambda>w. set (demo_files w))"
    by (auto simp: pool_keeps_def boot_lib_def demo_boot_def demo_alloc_def demo_free_def Let_def split: if_splits)
  show "files_ok (boot_volume d) blocks_of (\<lambda>w. set (demo_files w))"
    using demo_volume_ok by (simp add: files_ok_def boot_volume_def)
  have small: "same_outside m (overwrite m p bs) p n" if "mapped m p k" "length bs \<le> k" "k \<le> n" for m p bs n k
    using that by (auto simp: same_outside_def nth_overwrite mapped_def)
  show "io_ok (boot_volume d) blocks_of (\<lambda>w. set (demo_files w))"
    unfolding io_ok_def boot_volume_def
    by (auto simp: same_outside_def [of m m for m] intro: small split: if_splits)
  show "locate_ok (BS boot_lib) blocks_of (\<lambda>w. set (demo_files w))"
    by (auto simp: locate_ok_def boot_lib_def demo_boot_def quiet_def)
  show "says_ok demo_say (\<lambda>w. (blocks_of w, set (demo_files w)))"
    by (simp add: says_ok_def demo_say_def blocks_of_def)
qed

definition boot_file :: File where
  "boot_file = \<lparr> f_root = 1, f_file = 2, f_loadedImage = 1, f_fsp = 1, f_fileInfo = \<lparr> da_data = 42, da_size = 16 \<rparr>, f_fileBuf = 0 \<rparr>"

definition opened_state :: "u8 list \<Rightarrow> demo st" where
  "opened_state d = \<lparr> ram = overwrite ([0] @ replicate 20040 0) 42 (le_bytes 8 (16 :: u64) @ le_bytes 8 (word_of_nat (length d) :: u64)),
     fw = (fw boot_state)\<lparr>demo_files := [2, 1], demo_blocks := [(42, 16), (1, 40)]\<rparr> \<rparr>"

lemma boot_open:
  "File_Open boot_lib (boot_volume d) demo_say boot_names File_new 9 5 0x8000000000000003 boot_state =
     Some (EFI_SUCCESS, boot_file, opened_state d)"
proof -
  have ram: "ram boot_state = [0] @ replicate 20040 0"
    by (simp add: boot_state_def demo_mem_def flip: replicate_add)
  have z: "le_bytes 8 (0 :: u64) = replicate 8 0" by code_simp
  have "bytes_at (ram boot_state) 25 (le_bytes 8 (0 :: u64))"
    unfolding boot_state_def z by (rule demo_mem_bytes [of _ "replicate 24 0" _ "replicate 8 0"]) (simp_all flip: replicate_add)
  then have dev: "rd64 (ram boot_state) 25 = Some 0" using bytes_at_words(3) [of _ 25 0 "[]"] by simp
  let ?s1 = "boot_state\<lparr>fw := (fw boot_state)\<lparr>demo_files := [1]\<rparr>\<rparr>"
  have root: "OpenRoot boot_lib (boot_volume d) demo_say boot_names File_new 9 boot_state =
      Some (EFI_SUCCESS, File_new\<lparr>f_loadedImage := 1, f_fsp := 1, f_root := 1\<rparr>, ?s1)"
    using dev by (simp add: OpenRoot_def boot_lib_def boot_volume_def demo_volume_def demo_open_def stored_def Let_def
        boot_state_def demo_mem_def)
  show ?thesis
    using root ram
    by (simp add: File_Open_def GetFileInfo_def Allocate_def PoolAllocator_Allocate_def boot_volume_def demo_volume_def
        demo_open_def stored_def File_new_def boot_file_def opened_state_def boot_lib_def demo_boot_def demo_alloc_def demo_top_def
        DynamicArray_new_def boot_state_def demo_mem_def mapped_def with_ram_def Let_def)
qed

theorem file_run_balanced_witness:
  "let s = DynamicArray_delete boot_lib DynamicArray_new (opened_state [7, 8]) in
   file_run boot_lib (boot_volume [7, 8]) demo_say boot_names (File_new, DynamicArray_new, boot_state)
     (boot_file, DynamicArray_new, opened_state [7, 8]) \<and>
   balanced blocks_of (\<lambda>w. set (demo_files w)) boot_state (File_delete boot_lib (boot_volume [7, 8]) boot_file s)"
proof -
  have run: "file_run boot_lib (boot_volume [7, 8]) demo_say boot_names (File_new, DynamicArray_new, boot_state)
     (boot_file, DynamicArray_new, opened_state [7, 8])"
    by (rule file_run.more [OF file_run.start file_step.Open [OF boot_open]])
  then show ?thesis using file_run_balanced [OF boot_ok run] by (simp add: Let_def)
qed

text \<open>The file is read behind the blocks in use, and the pages of its segment are free.\<close>

lemma boot_pages:
  assumes r: "File_Read_all boot_lib (boot_volume image_one) demo_say boot_file DynamicArray_new
      (demo_say (ln ''Open Success'') [] (opened_state image_one)) = Some (st, A, s2)"
    and size: "File_Size (ram (opened_state image_one)) boot_file = Some 124"
  shows "pages_status demo_pages image_one (demo_say t as s2) = EFI_SUCCESS"
proof -
  let ?s = "demo_say (ln ''Open Success'') [] (opened_state image_one)"
  have s: "File_Size (ram ?s) boot_file = Some 124" "demo_blocks (fw ?s) = [(42, 16), (1, 40)]" "length (ram ?s) = 20041"
    using size by (simp_all add: demo_say_def opened_state_def)
  have "demo_blocks (fw s2) = [(59, 124), (42, 16), (1, 40)] \<and> length (ram s2) = 20041"
    using r s by (auto simp: File_Read_all_def File_Read_def Allocate_def PoolAllocator_Allocate_def DynamicArray_new_def
        boot_lib_def demo_boot_def demo_alloc_def demo_top_def boot_file_def boot_volume_def mapped_def images(4) Let_def)
  then show ?thesis
    unfolding pages_status_def images_fit demo_pages_def by (simp add: demo_say_def disjoint_ranges_def)
qed

theorem pickleTest_boots_witness:
  "\<exists>A s'. pickleTest boot_lib (boot_volume image_one) demo_pages demo_say boot_names 77 9 boot_state = Some (0x1014, boot_file, A, s') \<and>
    bytes_at (ram s') 0x1010 [1, 2, 3, 4] \<and>
    (\<forall>a. 4096 \<le> a \<and> a < 8192 \<and> (a < 0x1010 \<or> 0x1014 \<le> a) \<longrightarrow> ram s' ! a = 0)"
proof -
  let ?s = "opened_state image_one"
  have len: "length (ram ?s) = 20041" by (simp add: opened_state_def)
  have open': "File_Open boot_lib (boot_volume image_one) demo_say boot_names File_new 9 (lk_elf boot_names) 0x8000000000000003 boot_state =
      Some (EFI_SUCCESS, boot_file, ?s)" using boot_open by (simp add: boot_names_def)
  have "bytes_at (ram ?s) 42 (le_bytes 8 (16 :: u64) @ le_bytes 8 (word_of_nat (length image_one) :: u64))"
    unfolding opened_state_def by (simp add: bytes_at_overwrite mapped_def)
  then have "rd64 (ram ?s) 50 = Some (word_of_nat (length image_one))"
    using bytes_at_words(3) [of "ram ?s" 50 "word_of_nat (length image_one)" "[]"] by (simp add: bytes_at_append)
  then have size: "File_Size (ram ?s) boot_file = Some 124" by (simp add: File_Size_def boot_file_def images(4))
  have contents: "\<exists>n'. FileRead (boot_volume image_one) (f_file boot_file) 124 p t =
      (EFI_SUCCESS, n', with_ram t (overwrite (ram t) p image_one))" if "mapped (ram t) p (length image_one)" for p and t :: "demo st"
    using that by (simp add: boot_volume_def images(4))
  have room: "\<not> EFI_ERROR (fst (BS_AllocatePool (BS boot_lib) 2 (length image_one) (demo_say (ln ''Open Success'') [] ?s)))"
    by (simp add: boot_lib_def demo_boot_def demo_alloc_def demo_top_def demo_say_def images(4) len)
      (simp add: opened_state_def boot_state_def demo_mem_def)
  have p: "unat (s_filesz (seg_a 120)) \<le> unat (s_memsz (seg_a 120))"
      "unat (s_offset (seg_a 120)) + unat (s_filesz (seg_a 120)) \<le> length image_one" "unat (124 :: u64) = length image_one"
      "length (ram ?s) < 2 ^ 64"
    unfolding images(4) len by (simp_all add: seg_a_def)
  have n: "unat (s_paddr (seg_a 120)) = 0x1010" "unat (s_filesz (seg_a 120)) = 4" "(0x1010 :: nat) + 4 = 0x1014"
    by (simp_all add: seg_a_def)
  from pickleTest_boots [OF boot_ok(1) demo_pages_ok demo_say_ok open' _ size p(3) contents room images(1) images_fit(1)
      images(2,3) p(1,2,4), of 77, unfolded images_fit image_one_segment n]
  obtain A n2 s2 e s' where r: "File_Read_all boot_lib (boot_volume image_one) demo_say boot_file DynamicArray_new
        (demo_say (ln ''Open Success'') [] ?s) = Some (EFI_SUCCESS, A, s2)"
      "pickleTest boot_lib (boot_volume image_one) demo_pages demo_say boot_names 77 9 boot_state = Some (e, boot_file, A, s')"
      "if EFI_ERROR (pages_status demo_pages image_one (demo_say (ln ''File Size: %lu'') [n2] s2)) then e = 77
       else e = 0x1014 \<and> bytes_at (ram s') 0x1010 [1, 2, 3, 4] \<and>
         (\<forall>a. 4096 \<le> a \<and> a < 8192 \<and> (a < 0x1010 \<or> 0x1014 \<le> a) \<longrightarrow> ram s' ! a = 0)"
    by (auto simp: EFI_ERROR_def EFI_SUCCESS_def)
  show ?thesis using r(2,3) unfolding boot_pages [OF r(1) size] by (simp add: EFI_ERROR_def EFI_SUCCESS_def)
qed

end
