(* ===== verification/PrintPool.thy ===== *)
theory PrintPool
  imports PrintNames
begin

text \<open>
  lib/print.c: \<open>PoolPrint\<close> and \<open>CatPrint\<close>, which print to a string that grows in the pool.

  \<^item> \<open>pool_room\<close> is a pool with memory left, since a call that gets none loses the text so far.
    Growing costs at most quadratic room, as the buffer grows by at least 200 characters at a time.
  \<^item> \<open>pool_text\<close> is the invariant of a \<open>POOL_PRINT\<close>; the interpretation \<open>pool\<close> of \<open>text_sink\<close> makes the
    print engine's theorem available for it.
\<close>

subsection \<open>A pool with room\<close>

definition pool_room :: "'w lib \<Rightarrow> ('w st \<Rightarrow> nat) \<Rightarrow> bool" where
  "pool_room L room \<longleftrightarrow>
     (\<forall>n s p s'. AllocatePool L n s = (p, s') \<longrightarrow>
        (n + 64 \<le> room s \<longrightarrow> p \<noteq> 0 \<and> room s \<le> room s' + (n + 64))) \<and>
     (\<forall>p s. room s \<le> room (FreePool L p s)) \<and>
     (\<forall>s m. length m = length (ram s) \<longrightarrow> room (with_ram s m) = room s)"

lemma pool_room_alloc:
  assumes "pool_room L room" "AllocatePool L n s = (p, s')" "n + 64 \<le> room s"
  shows "p \<noteq> 0" "room s \<le> room s' + (n + 64)"
  using assms unfolding pool_room_def by blast+

lemma pool_room_free: "pool_room L room \<Longrightarrow> room s \<le> room (FreePool L p s)"
  by (simp add: pool_room_def)

lemma pool_room_ram: "pool_room L room \<Longrightarrow> length m = length (ram s) \<Longrightarrow> room (with_ram s m) = room s"
  by (simp add: pool_room_def)

definition demo_room :: "demo st \<Rightarrow> nat" where
  "demo_room s = length (ram s) - demo_top (fw s)"

lemma demo_pool_room: "pool_room demo_lib demo_room"
proof -
  have more: "foldr max (map f (AList.delete p xs)) (0 :: nat) \<le> foldr max (map f xs) 0" for f p and xs :: "(nat \<times> nat) list"
    by (induction xs) (auto simp: max_def)
  have top: "demo_top (w\<lparr>demo_blocks := (demo_top w, n) # demo_blocks w\<rparr>) = Suc (demo_top w + n)" for w n
    by (simp add: demo_top_def max_def)
  show ?thesis
    unfolding pool_room_def
    by (auto simp: AllocatePool_def FreePool_def demo_lib_def demo_boot_def demo_alloc_def demo_free_def
        demo_room_def with_ram_def Let_def top demo_top_def intro!: diff_le_mono2 more split: if_splits prod.splits)
qed

subsection \<open>Reallocating with room\<close>

lemma AllocatePool_room:
  assumes "pool_ok (BS L) blocks" "pool_room L room" "n + 64 \<le> room s"
  obtains p s' where "AllocatePool L n s = (p, s')" "p \<noteq> 0" "mapped (ram s') p n" "same_on (blocks (fw s)) (ram s) (ram s')"
    "blocks (fw s') = insert (p, n) (blocks (fw s))" "(p, n) \<notin> blocks (fw s)"
    "\<forall>(q, k) \<in> blocks (fw s). disjoint_ranges p n q k" "room s \<le> room s' + (n + 64)"
proof -
  obtain p s' where a: "AllocatePool L n s = (p, s')" by force
  note r = pool_room_alloc [OF assms(2) a assms(3)]
  from assms(1) a show thesis
  proof (cases rule: AllocatePool_cases)
    case fails
    then show thesis using r(1) by simp
  next
    case block
    have "mapped (ram s') p n" using block(2) same_on_length [OF block(3)] by (simp add: mapped_def)
    then show thesis using that [OF a r(1) _ block(3-6) r(2)] by blast
  qed
qed

lemma same_on_subset: "same_on K m m' \<Longrightarrow> J \<subseteq> K \<Longrightarrow> same_on J m m'"
  unfolding same_on_def by blast

text \<open>A block moves: its bytes are in the new one, the other blocks stay.\<close>

lemma ReallocatePool_1_moves:
  assumes p: "pool_ok (BS L) blocks" "pool_room L room" and n: "n + 64 \<le> room s" "0 < n"
    and old: "(old, k) \<in> blocks (fw s)" "old \<noteq> 0" "bytes_at (ram s) old bs" "length bs \<le> k"
      "length bs = (if c < n then c else n)"
    and others: "K = blocks (fw s) - {(old, k)}" "\<forall>(q, j) \<in> K. disjoint_ranges old k q j"
  obtains str s' where "ReallocatePool_1 L c n old s = Some (str, s')" "str \<noteq> 0" "mapped (ram s') str n"
    "bytes_at (ram s') str bs" "same_on K (ram s) (ram s')" "blocks (fw s') = insert (str, n) K" "(str, n) \<notin> K"
    "\<forall>(q, j) \<in> K. disjoint_ranges str n q j" "room s \<le> room s' + (n + 64)"
proof -
  obtain str s1 where a: "AllocatePool L n s = (str, s1)" "str \<noteq> 0" "mapped (ram s1) str n"
    "same_on (blocks (fw s)) (ram s) (ram s1)" "blocks (fw s1) = insert (str, n) (blocks (fw s))" "(str, n) \<notin> blocks (fw s)"
    "\<forall>(q, k) \<in> blocks (fw s). disjoint_ranges str n q k" "room s \<le> room s1 + (n + 64)"
    by (rule AllocatePool_room [OF p n(1)])
  have K: "K \<subseteq> blocks (fw s)" using others(1) by blast
  have d: "disjoint_ranges str n old k" "\<forall>(q, j) \<in> K. disjoint_ranges str n q j" using a(7) old(1) K by auto
  have b1: "bytes_at (ram s1) old bs"
    by (rule bytes_at_same_on [OF a(4) _ old(3)]) (use old(1,4) in \<open>auto intro: in_useI\<close>)
  let ?m = "overwrite (ram s1) str bs"
  have small: "length bs \<le> n" using old(5) by auto
  have m: "mapped (ram s1) str (length bs)" using a(3) small by (auto simp: mapped_def)
  have len: "length ?m = length (ram s1)" using m by (simp add: mapped_def)
  let ?s2 = "with_ram s1 ?m" let ?s3 = "FreePool L old ?s2"
  have s2: "ram ?s2 = ?m" "fw ?s2 = fw s1" by (simp_all add: with_ram_def)
  have "CopyMem_1 (ram s1) str old (if c < n then c else n) = Some ?m"
    using copy_bytes [OF m b1] unfolding old(5) .
  then have run: "ReallocatePool_1 L c n old s = Some (str, ?s3)"
    using a(1,2) old(2) n(2) by (simp add: ReallocatePool_1_def)
  have "(old, k) \<in> blocks (fw ?s2)" using a(5) old(1) s2 by simp
  note f = FreePool_block [OF p(1) this]
  have keep: "same_on (insert (str, n) K) ?m (ram ?s3)"
    using f(1) [of "insert (str, n) K"] others(2) d(1) s2 by (auto simp: disjoint_ranges_def)
  have "same_on K (ram s) (ram s1)" "same_on K ?m (ram ?s3)"
    using same_on_subset [OF a(4) K] same_on_subset [OF keep] by auto
  then have "same_on K (ram s) (ram ?s3)"
    using same_on_overwrite [OF m small d(2)] same_on_trans by blast
  moreover have "bytes_at (ram ?s3) str bs"
    by (rule bytes_at_same_on [OF keep _ bytes_at_overwrite [OF m]]) (use small in \<open>auto simp: in_use_def\<close>)
  moreover have "blocks (fw ?s3) = insert (str, n) K"
    using f(2) [of "{}"] a(5,6) old(1) s2 others(1) by auto
  moreover have "mapped (ram ?s3) str n" using a(3) len same_on_length [OF keep] by (simp add: mapped_def)
  moreover have "room s \<le> room ?s3 + (n + 64)"
    using a(8) pool_room_ram [OF p(2) len] pool_room_free [OF p(2), of ?s2 old] by linarith
  ultimately show thesis using that [OF run a(2)] a(6) K d(2) by blast
qed

subsection \<open>The string of a POOL_PRINT\<close>

text \<open>
  \<open>pool_text L blocks room K m0 N R t (spc, s)\<close>: \<open>spc\<close> holds the text \<open>t\<close> of at most \<open>N\<close> characters in a block
  of its own, or nothing; the other blocks \<open>K\<close> hold what they held in \<open>m0\<close>; and of the room \<open>R\<close> at the
  start at most the square of the buffer's size has gone.
\<close>

definition pool_text ::
  "'w lib \<Rightarrow> ('w \<Rightarrow> ranges) \<Rightarrow> ('w st \<Rightarrow> nat) \<Rightarrow> ranges \<Rightarrow> mem \<Rightarrow> nat \<Rightarrow> nat \<Rightarrow> u16 list \<Rightarrow> POOL_PRINT \<times> 'w st \<Rightarrow> bool"
  where
  "pool_text L blocks room K m0 N R t x \<longleftrightarrow>
     pool_ok (BS L) blocks \<and> pool_room L room \<and> N < 2 ^ 60 \<and> (N + 201) * (N + 201) \<le> R \<and>
     same_on K m0 (ram (snd x)) \<and> 0 \<notin> set t \<and>
     sp_len (fst x) = length t \<and> sp_maxlen (fst x) \<le> N + 201 \<and>
     R \<le> room (snd x) + sp_maxlen (fst x) * sp_maxlen (fst x) \<and>
     (if sp_str (fst x) = 0 then t = [] \<and> sp_maxlen (fst x) = 0 \<and> blocks (fw (snd x)) = K
      else length t < sp_maxlen (fst x) \<and> mapped (ram (snd x)) (sp_str (fst x)) (2 * sp_maxlen (fst x)) \<and>
        str16_at (ram (snd x)) (sp_str (fst x)) t \<and>
        (sp_str (fst x), 2 * sp_maxlen (fst x)) \<notin> K \<and>
        (\<forall>(q, k) \<in> K. disjoint_ranges (sp_str (fst x)) (2 * sp_maxlen (fst x)) q k) \<and>
        blocks (fw (snd x)) = insert (sp_str (fst x), 2 * sp_maxlen (fst x)) K)"

lemma SPrint_1_fits:
  assumes "0 \<notin> set b" "len + length b < maxlen" "maxlen < 2 ^ 61" "mapped (ram s) str (2 * maxlen)"
  shows "SPrint_1 b (\<lparr>sp_str = str, sp_len = len, sp_maxlen = maxlen\<rparr>, s) =
    Some (\<lparr>sp_str = str, sp_len = len + length b, sp_maxlen = maxlen\<rparr>,
      with_ram s (overwrite (ram s) (str + 2 * len) (enc16 (b @ [0]))))"
proof -
  have nul: "takeWhile (\<lambda>c. c \<noteq> 0) b = b" using assms(1) by (auto simp: takeWhile_eq_all_conv)
  have small: "uintn (len + length b) = len + length b" using assms(2,3) by (intro uintn_small) simp
  let ?m = "overwrite (ram s) (str + 2 * len) (enc16 b)"
  have room: "str + 2 * len + 2 * length b + 2 \<le> length (ram s)" "0 < str"
    using assms(2,4) by (auto simp: mapped_def)
  have "copy_local (ram s) (str + 2 * len) (enc16 b) = Some ?m"
    using room by (auto simp: copy_local_def wr_bytes_def mapped_def)
  moreover have "wr16 ?m (str + 2 * (len + length b)) 0 =
      Some (overwrite (ram s) (str + 2 * len) (enc16 b @ le_bytes 2 (0 :: u16)))"
    using room overwrite_append [of "str + 2 * len" "enc16 b" "le_bytes 2 (0 :: u16)" "ram s"]
    by (simp add: wr16_def wr_bytes_def mapped_def algebra_simps)
  ultimately show ?thesis using assms(2) by (simp add: SPrint_1_def Let_def nul small)
qed

text \<open>The text that is there stays when more is written behind it.\<close>

lemma str16_extend:
  assumes "bytes_at m p (enc16 t)" "0 \<notin> set t" "0 \<notin> set b" "p + 2 * (length t + length b + 1) \<le> length m" "0 < p"
  shows "str16_at (overwrite m (p + 2 * length t) (enc16 (b @ [0]))) p (t @ b)"
proof -
  let ?m = "overwrite m (p + 2 * length t) (enc16 (b @ [0]))"
  have "bytes_at ?m (p + 2 * length t) (enc16 (b @ [0]))"
    using assms(4,5) by (intro bytes_at_overwrite) (simp add: mapped_def)
  moreover have "bytes_at ?m p (enc16 t)"
    using assms(1,4) by (subst bytes_at_overwrite_disjoint) (auto simp: disjoint_ranges_def)
  ultimately have "bytes_at ?m p (enc16 t @ enc16 (b @ [0]))" by (simp only: bytes_at_append length_enc16)
  then show ?thesis using assms(2,3) by (simp add: str16_at_bytes)
qed

lemma PoolPrint_1_grows:
  assumes x: "pool_text L blocks room K m0 N R t (spc, s)" and len: "length t + c \<le> N"
    and M: "M = length t + c + 201" "sp_maxlen spc < length t + c + 1"
  obtains str s' where
    "ReallocatePool_1 L (uintn (2 * sp_len spc)) (uintn (2 * M)) (sp_str spc) s = Some (str, s')" "str \<noteq> 0"
    "mapped (ram s') str (2 * M)" "bytes_at (ram s') str (enc16 t)" "same_on K m0 (ram s')"
    "blocks (fw s') = insert (str, 2 * M) K" "(str, 2 * M) \<notin> K" "\<forall>(q, k) \<in> K. disjoint_ranges str (2 * M) q k"
    "R \<le> room s' + M * M"
proof -
  note inv = x [unfolded pool_text_def fst_conv snd_conv]
  have p: "pool_ok (BS L) blocks" "pool_room L room" "same_on K m0 (ram s)" "0 \<notin> set t" and N: "N < 2 ^ 60"
    and R: "R \<le> room s + sp_maxlen spc * sp_maxlen spc" "(N + 201) * (N + 201) \<le> R"
    using inv by simp_all
  have sizes: "uintn (2 * sp_len spc) = 2 * length t" "uintn (2 * M) = 2 * M" "2 * M \<noteq> 0"
    using inv len N M by (auto intro!: uintn_small)
  have grow: "sp_maxlen spc * sp_maxlen spc + (2 * M + 64) \<le> M * M"
  proof -
    have le: "sp_maxlen spc + 200 \<le> M" using M by simp
    then have "sp_maxlen spc * sp_maxlen spc + 200 * M \<le> sp_maxlen spc * M + (M - sp_maxlen spc) * M"
      by (intro add_mono mult_mono) auto
    also have "\<dots> = M * M" using le by (simp add: algebra_simps diff_mult_distrib)
    finally show ?thesis using M(1) by simp
  qed
  have "M * M \<le> (N + 201) * (N + 201)" using len M(1) by (intro mult_mono) auto
  then have enough: "2 * M + 64 \<le> room s" using R grow by simp
  have small: "2 * length t < 2 * M" "length (enc16 t) = (if 2 * length t < 2 * M then 2 * length t else 2 * M)"
    using M(1) by simp_all
  show thesis
  proof (cases "sp_str spc = 0")
    case True
    then have e: "t = []" "blocks (fw s) = K" using inv by simp_all
    obtain str s1 where a: "AllocatePool L (2 * M) s = (str, s1)" "str \<noteq> 0" "mapped (ram s1) str (2 * M)"
      "same_on K (ram s) (ram s1)" "blocks (fw s1) = insert (str, 2 * M) K" "(str, 2 * M) \<notin> K"
      "\<forall>(q, k) \<in> K. disjoint_ranges str (2 * M) q k" "room s \<le> room s1 + (2 * M + 64)"
      by (rule AllocatePool_room [OF p(1,2) enough, unfolded e(2)])
    have "bytes_at (ram s1) str (enc16 t)" using a(3) e(1) by (simp add: bytes_at_def rd_bytes_def mapped_def region_def)
    moreover have "R \<le> room s1 + M * M" using R(1) a(8) grow by linarith
    ultimately show thesis
      using that [OF _ a(2,3) _ same_on_trans [OF p(3) a(4)] a(5-7)] a(1) True sizes by (simp add: ReallocatePool_1_def)
  next
    case False
    let ?k = "2 * sp_maxlen spc"
    have o: "str16_at (ram s) (sp_str spc) t" "K = blocks (fw s) - {(sp_str spc, ?k)}" "(sp_str spc, ?k) \<in> blocks (fw s)"
      "\<forall>(q, k) \<in> K. disjoint_ranges (sp_str spc) ?k q k" "length (enc16 t) \<le> ?k"
      using inv False by auto
    have b: "bytes_at (ram s) (sp_str spc) (enc16 t)" using o(1) by (simp add: str16_at_bytes bytes_at_append)
    obtain str s1 where a: "ReallocatePool_1 L (2 * length t) (2 * M) (sp_str spc) s = Some (str, s1)" "str \<noteq> 0"
      "mapped (ram s1) str (2 * M)" "bytes_at (ram s1) str (enc16 t)" "same_on K (ram s) (ram s1)"
      "blocks (fw s1) = insert (str, 2 * M) K" "(str, 2 * M) \<notin> K" "\<forall>(q, k) \<in> K. disjoint_ranges str (2 * M) q k"
      "room s \<le> room s1 + (2 * M + 64)"
      by (rule ReallocatePool_1_moves [OF p(1,2) enough _ o(3) False b o(5) small(2) o(2,4)]) (use sizes(3) in simp)
    have "R \<le> room s1 + M * M" using R(1) a(9) grow by linarith
    then show thesis using that [OF _ a(2-4) same_on_trans [OF p(3) a(5)] a(6-8)] a(1) sizes by simp
  qed
qed

lemma PoolPrint_1_gives:
  assumes x: "pool_text L blocks room K m0 N R t x" and b: "0 \<notin> set b" and N: "length (t @ b) \<le> N"
  shows "\<exists>x'. PoolPrint_1 L b x = Some x' \<and>
    (pool_text L blocks room K m0 N R (t @ b) x' \<and> sp_str (fst x') \<noteq> 0)"
proof -
  obtain spc s where xs: "x = (spc, s)" by (cases x)
  note inv = x [unfolded pool_text_def xs fst_conv snd_conv]
  have small: "N < 2 ^ 60" "sp_len spc = length t" "0 \<notin> set t" "pool_room L room" using inv by simp_all
  have nul: "takeWhile (\<lambda>c. c \<noteq> 0) b = b" using b by (auto simp: takeWhile_eq_all_conv)
  have c: "uintn (length t + length b + 1) = length t + length b + 1"
    "uintn (length t + length b + 1 + PRINT_STRING_LEN) = length t + length b + 201"
    using N small(1) by (auto intro!: uintn_small simp: PRINT_STRING_LEN_def)
  text \<open>Appending to a block that is large enough.\<close>
  have put: "\<exists>x'. SPrint_1 b (\<lparr>sp_str = str, sp_len = length t, sp_maxlen = M\<rparr>, s1) = Some x' \<and>
      (pool_text L blocks room K m0 N R (t @ b) x' \<and> sp_str (fst x') \<noteq> 0)"
    if h: "str \<noteq> 0" "length t + length b < M" "M \<le> N + 201" "mapped (ram s1) str (2 * M)" "bytes_at (ram s1) str (enc16 t)"
      "same_on K m0 (ram s1)" "blocks (fw s1) = insert (str, 2 * M) K" "(str, 2 * M) \<notin> K"
      "\<forall>(q, k) \<in> K. disjoint_ranges str (2 * M) q k" "R \<le> room s1 + M * M" for str M s1
  proof -
    let ?m = "overwrite (ram s1) (str + 2 * length t) (enc16 (b @ [0]))"
    have M: "M < 2 ^ 61" using h(3) small(1) by simp
    have w: "mapped (ram s1) (str + 2 * length t) (length (enc16 (b @ [0])))"
      using h(2,4) by (auto simp: mapped_def)
    have len: "length ?m = length (ram s1)" using w by (simp add: mapped_def)
    have "str16_at ?m str (t @ b)"
      using h(1,2,4,5) small(3) b by (intro str16_extend) (auto simp: mapped_def)
    moreover have "same_on K (ram s1) ?m"
      using w h(2,9) by (intro same_on_overwrite [OF w order.refl]) (auto simp: disjoint_ranges_def)
    then have "same_on K m0 ?m" by (rule same_on_trans [OF h(6)])
    ultimately have "pool_text L blocks room K m0 N R (t @ b)
        (\<lparr>sp_str = str, sp_len = length t + length b, sp_maxlen = M\<rparr>, with_ram s1 ?m)"
      using inv h b len pool_room_ram [OF small(4) len]
      by (simp add: pool_text_def with_ram_def mapped_def)
    then show ?thesis using SPrint_1_fits [OF b h(2) M h(4)] h(1) by auto
  qed
  show ?thesis
  proof (cases "sp_maxlen spc < length t + length b + 1")
    case False
    then have "sp_str spc \<noteq> 0" using inv by (auto split: if_splits)
    then have o: "str16_at (ram s) (sp_str spc) t" "mapped (ram s) (sp_str spc) (2 * sp_maxlen spc)"
      "blocks (fw s) = insert (sp_str spc, 2 * sp_maxlen spc) K" "(sp_str spc, 2 * sp_maxlen spc) \<notin> K"
      "\<forall>(q, k) \<in> K. disjoint_ranges (sp_str spc) (2 * sp_maxlen spc) q k"
      using inv by simp_all
    have "bytes_at (ram s) (sp_str spc) (enc16 t)" using o(1) by (simp add: str16_at_bytes bytes_at_append)
    moreover have e: "\<lparr>sp_str = sp_str spc, sp_len = length t, sp_maxlen = sp_maxlen spc\<rparr> = spc"
      using small(2) by (cases spc) simp
    ultimately show ?thesis
      using put [of "sp_str spc" "sp_maxlen spc" s, unfolded e] \<open>sp_str spc \<noteq> 0\<close> o False inv
      by (simp add: PoolPrint_1_def xs nul c small(2) Let_def)
  next
    case True
    obtain str s1 where g:
      "ReallocatePool_1 L (uintn (2 * sp_len spc)) (uintn (2 * (length t + length b + 201))) (sp_str spc) s = Some (str, s1)"
      "str \<noteq> 0" "mapped (ram s1) str (2 * (length t + length b + 201))" "bytes_at (ram s1) str (enc16 t)"
      "same_on K m0 (ram s1)" "blocks (fw s1) = insert (str, 2 * (length t + length b + 201)) K"
      "(str, 2 * (length t + length b + 201)) \<notin> K"
      "\<forall>(q, k) \<in> K. disjoint_ranges str (2 * (length t + length b + 201)) q k"
      "R \<le> room s1 + (length t + length b + 201) * (length t + length b + 201)"
      by (rule PoolPrint_1_grows [OF x [unfolded xs] _ refl True]) (use N in auto)
    have "PoolPrint_1 L b (spc, s) =
        SPrint_1 b (\<lparr>sp_str = str, sp_len = length t, sp_maxlen = length t + length b + 201\<rparr>, s1)"
      using True g(1,2) unfolding PoolPrint_1_def prod.case Let_def nul small(2) c
      by (cases spc) (simp add: small(2) [symmetric])
    then show ?thesis using put [OF g(2) _ _ g(3-9)] N xs by simp
  qed
qed

interpretation pool: text_sink "PoolPrint_1 L" None
  "\<lambda>d u x. pool_text L blocks room K m0 N R (t @ u) x \<and> (d \<longrightarrow> sp_str (fst x) \<noteq> 0)" "\<lambda>u. length (t @ u) \<le> N"
  "\<lambda>(spc, s). ram s" "same_on K m0"
  for L blocks room K m0 N R t
proof unfold_locales
  fix d u x and b :: "u16 list"
  assume "pool_text L blocks room K m0 N R (t @ u) x \<and> (d \<longrightarrow> sp_str (fst x) \<noteq> 0)" "0 \<notin> set b"
    "length (t @ u @ b) \<le> N"
  then show "\<exists>x'. PoolPrint_1 L b x = Some x' \<and>
      (pool_text L blocks room K m0 N R (t @ u @ b) x' \<and> (True \<longrightarrow> sp_str (fst x') \<noteq> 0))"
    using PoolPrint_1_gives [of L blocks room K m0 N R "t @ u" x b] by simp
qed (auto simp: pool_text_def)

subsection \<open>Printing to the pool\<close>

lemma PoolCatPrint_1_pool:
  assumes x: "pool_text L blocks room K m0 N R t x" and cfg: "below \<noteq> 13" "text_ok pcs"
      "\<And>m. same_on K m0 m \<Longrightarrow> src_text m src (unparse pcs)"
    and u: "renders cv (same_on K m0) pcs args u" "13 \<notin> set u" "length (t @ with_cr u) \<le> N"
  shows "\<exists>x'. PoolCatPrint_1 cv below src args x (PoolPrint_1 L) = Some x' \<and>
    pool_text L blocks room K m0 N R (t @ with_cr u) x' \<and> sp_str (fst x') \<noteq> 0"
proof -
  let ?cfg = "text_config cv below (\<lambda>(spc, s). ram s) src (PoolPrint_1 L)"
  have "pool.sink_of L ?cfg" using cfg(1) by (simp add: pool.sink_of_def text_config_def)
  moreover have "src_text m (fmt ?cfg) (unparse pcs)" if "same_on K m0 m" for m
    using cfg(3) [OF that] by (simp add: text_config_def)
  ultimately obtain qs where qs: "Print_1 ?cfg (print_start args 0 x) = Some (word_of_nat (length (with_cr u)), qs)"
    "pool_text L blocks room K m0 N R (t @ with_cr u) (Sink qs)" "sp_str (fst (Sink qs)) \<noteq> 0"
    using pool.Print_renders [of L ?cfg pcs K m0 "print_start args 0 x" u t N blocks room R False] x cfg(2) u
    by (auto simp: print_start_def text_config_ok) (auto simp: text_config_def)
  then show ?thesis by (simp add: PoolCatPrint_1_def)
qed

text \<open>C21. \<open>PoolPrint\<close> returns a string of its own in the pool, NUL terminated, which holds exactly the
  rendered text of the format, a carriage return in front of every newline; however often the buffer
  had to grow, one block remains allocated and no other memory in use has changed. The pool must have
  room for the buffers, which is quadratic in the text at most. The format, strings and objects must lie in
  memory in use: they are read while the pool hands out blocks, which may write elsewhere.\<close>

theorem PoolPrint_renders:
  assumes "pool_ok (BS (PLib P)) blocks" "pool_room (PLib P) room" "BelowBuffer P \<noteq> 13"
    and "text_ok pcs" "\<And>m. same_on (blocks (fw s)) (ram s) m \<Longrightarrow> src_text m src (unparse pcs)"
    and "renders (converters_of P) (same_on (blocks (fw s)) (ram s)) pcs args t" "13 \<notin> set t"
    and "length (with_cr t) < 2 ^ 60" "(length (with_cr t) + 201) * (length (with_cr t) + 201) \<le> room s"
  shows "\<exists>p n s'. PoolPrint P src args s = Some (p, s') \<and> str16_at (ram s') p (with_cr t) \<and>
    same_on (blocks (fw s)) (ram s) (ram s') \<and> (p, n) \<notin> blocks (fw s) \<and>
    blocks (fw s') = insert (p, n) (blocks (fw s))"
proof -
  let ?x = "(\<lparr>sp_str = 0, sp_len = 0, sp_maxlen = 0\<rparr>, s)" and ?N = "length (with_cr t)"
  have "pool_text (PLib P) blocks room (blocks (fw s)) (ram s) ?N (room s) [] ?x"
    using assms(1,2,8,9) by (simp add: pool_text_def)
  from PoolCatPrint_1_pool [OF this assms(3-7)]
  obtain x where x: "PoolCatPrint_1 (converters_of P) (BelowBuffer P) src args ?x (PoolPrint_1 (PLib P)) = Some x"
    "pool_text (PLib P) blocks room (blocks (fw s)) (ram s) ?N (room s) (with_cr t) x" "sp_str (fst x) \<noteq> 0"
    by auto
  then have "PoolPrint P src args s = Some (sp_str (fst x), snd x)"
    by (simp add: PoolPrint_def VPoolPrint_def case_prod_beta)
  then show ?thesis using x(2,3) unfolding pool_text_def by auto
qed

definition wit_pool_pieces :: "piece list" where
  "wit_pool_pieces = [Dir [] None None [] C_x, Lit 10]"

theorem PoolPrint_renders_witness:
  "let s = demo_mem [] 50000 in \<exists>p n s'.
    PoolPrint wit_plib (Text [37, 120, 10]) [255] s = Some (p, s') \<and> str16_at (ram s') p [70, 70, 13, 10] \<and>
    same_on (blocks_of (fw s)) (ram s) (ram s') \<and> (p, n) \<notin> blocks_of (fw s) \<and>
    blocks_of (fw s') = insert (p, n) (blocks_of (fw s))"
proof -
  let ?s = "demo_mem [] 50000"
  have u: "unparse wit_pool_pieces = [37, 120, 10]" by code_simp
  have src: "src_text m (Text [37, 120, 10]) (unparse wit_pool_pieces)" for m
    unfolding u by (rule src_text_Text) code_simp
  have ok: "text_ok wit_pool_pieces" by (simp add: text_ok_def wit_pool_pieces_def)
  have r: "renders (converters_of wit_plib) M wit_pool_pieces [255] [70, 70, 10]" for M
  proof -
    have h: "hex_text (unat (uint_arg False 255)) = [70, 70]"
      by (simp add: uint_arg_def hex_text_def digits_of.simps hex_char_def)
    have "render (converters_of wit_plib) [] wit_pool_pieces [255] = Some [70, 70, 10]"
      by (simp add: wit_pool_pieces_def dir_item_def new_item_def h item_text_plain)
    then show ?thesis by (rule renders_blind [rotated]) (simp add: wit_pool_pieces_def reading_def)
  qed
  have c: "with_cr [70, 70, 10] = [70, 70, 13, 10]" by (simp add: crlf_def)
  have room: "(length (with_cr [70, 70, 10]) + 201) * (length (with_cr [70, 70, 10]) + 201) \<le> demo_room ?s"
    unfolding c by (simp add: demo_room_def demo_mem_def demo_top_def)
  have p: "pool_ok (BS (PLib wit_plib)) blocks_of" "pool_room (PLib wit_plib) demo_room" "BelowBuffer wit_plib \<noteq> 13"
    using demo_pool_room demo_lib_pool by (simp_all add: wit_plib_def)
  have "13 \<notin> set [70, 70, 10 :: u16]" "length (with_cr [70, 70, 10]) < 2 ^ 60" unfolding c by simp_all
  from PoolPrint_renders [OF p ok src r this room] show ?thesis unfolding Let_def c .
qed

end
