(* ===== verification/DevPathText.thy ===== *)
theory DevPathText
  imports PrintApi DevPathOps
begin

text \<open>
  lib/dpath.c: the text of a device path.

  One function per \<open>_DevPath\<close> routine; each reads the fields of the node at their offsets in the
  structures of inc/efidevp.h and appends to the string of a \<open>POOL_PRINT\<close> by \<open>CatPrint\<close>. The pair
  \<open>x\<close> is the \<open>POOL_PRINT\<close> with the state of the machine, threaded through the calls. A string literal
  that the code hands to \<open>%s\<close> is written into the format.
\<close>

type_synonym 'w printing = "POOL_PRINT \<times> 'w st"

definition cat :: "'w plib \<Rightarrow> string \<Rightarrow> u64 list \<Rightarrow> 'w printing \<Rightarrow> 'w printing option" where
  "cat P f args x = do { (r, Str, s) \<leftarrow> CatPrint P (fst x) (Text (text16 f)) args (snd x); Some (Str, s) }"

abbreviation now :: "'w printing \<Rightarrow> mem" where
  "now x \<equiv> ram (snd x)"

subsection \<open>Hardware and ACPI nodes\<close>

definition DevPathPci :: "'w plib \<Rightarrow> addr \<Rightarrow> 'w printing \<Rightarrow> 'w printing option" where
  "DevPathPci P DevPath x = do {
     Device \<leftarrow> rd8 (now x) (DevPath + 5);
     Function \<leftarrow> rd8 (now x) (DevPath + 4);
     cat P ''Pci(0x%x,0x%x)'' [ucast Device, ucast Function] x }"

definition DevPathPccard :: "'w plib \<Rightarrow> addr \<Rightarrow> 'w printing \<Rightarrow> 'w printing option" where
  "DevPathPccard P DevPath x = do {
     FunctionNumber \<leftarrow> rd8 (now x) (DevPath + 4);
     cat P ''Pccard(0x%x)'' [ucast FunctionNumber] x }"

definition DevPathMemMap :: "'w plib \<Rightarrow> addr \<Rightarrow> 'w printing \<Rightarrow> 'w printing option" where
  "DevPathMemMap P DevPath x = do {
     MemoryType \<leftarrow> rd32 (now x) (DevPath + 4);
     StartingAddress \<leftarrow> rd64 (now x) (DevPath + 8);
     EndingAddress \<leftarrow> rd64 (now x) (DevPath + 16);
     cat P ''MemMap(%d,0x%x,0x%x)'' [ucast MemoryType, StartingAddress, EndingAddress] x }"

definition DevPathController :: "'w plib \<Rightarrow> addr \<Rightarrow> 'w printing \<Rightarrow> 'w printing option" where
  "DevPathController P DevPath x = do {
     Controller \<leftarrow> rd32 (now x) (DevPath + 4);
     cat P ''Ctrl(%d)'' [ucast Controller] x }"

definition DevPathVendor :: "'w plib \<Rightarrow> addr \<Rightarrow> 'w printing \<Rightarrow> 'w printing option" where
  "DevPathVendor P DevPath x = do {
     t \<leftarrow> DevicePathType (now x) DevPath;
     x \<leftarrow> cat P (if t = 1 then ''VenHw(%g'' else if t = 3 then ''VenMsg(%g'' else if t = 4 then ''VenMedia(%g''
                else ''Ven?(%g'') [word_of_nat (DevPath + 4)] x;
     Guid \<leftarrow> rd_bytes (now x) (DevPath + 4) 16;
     if Guid = guid_bytes UnknownDevice then do {
       LegacyDriveLetter \<leftarrow> rd8 (now x) (DevPath + 20);
       cat P '':%02x)'' [ucast LegacyDriveLetter] x }
     else cat P '')'' [] x }"

definition PNP_EISA_ID_CONST :: u32 where "PNP_EISA_ID_CONST = 0x41d0"
definition PNP_EISA_ID_MASK :: u32 where "PNP_EISA_ID_MASK = 0xffff"

definition EISA_ID_TO_NUM :: "u32 \<Rightarrow> u32" where
  "EISA_ID_TO_NUM hid = drop_bit 16 hid"

text \<open>The numbers with a name of their own.\<close>

definition acpi_format :: "u32 \<Rightarrow> string option" where
  "acpi_format num =
     (if num = 0x301 then Some ''Keyboard(%d)''
      else if num = 0x401 then Some ''ParallelPort(%d)''
      else if num = 0x501 then Some ''Serial(%d)''
      else if num = 0x604 then Some ''Floppy(%d)''
      else if num = 0xa03 then Some ''PciRoot(%d)''
      else if num = 0xa08 then Some ''PcieRoot(%d)''
      else None)"

definition DevPathAcpi :: "'w plib \<Rightarrow> addr \<Rightarrow> 'w printing \<Rightarrow> 'w printing option" where
  "DevPathAcpi P DevPath x = do {
     HID \<leftarrow> rd32 (now x) (DevPath + 4);
     UID \<leftarrow> rd32 (now x) (DevPath + 8);
     if HID AND PNP_EISA_ID_MASK = PNP_EISA_ID_CONST then
       (case acpi_format (EISA_ID_TO_NUM HID) of
          Some f \<Rightarrow> cat P f [ucast UID] x
        | None \<Rightarrow> do {
            x \<leftarrow> cat P ''Acpi(PNP%04x'' [ucast (EISA_ID_TO_NUM HID)] x;
            x \<leftarrow> (if UID \<noteq> 0 then cat P '',%d'' [ucast UID] x else Some x);
            cat P '')'' [] x })
     else do {
       x \<leftarrow> cat P ''Acpi(0x%X'' [ucast HID] x;
       x \<leftarrow> (if UID \<noteq> 0 then cat P '',%d'' [ucast UID] x else Some x);
       cat P '')'' [ucast HID, ucast UID] x } }"

subsection \<open>Messaging nodes\<close>

definition DevPathAtapi :: "'w plib \<Rightarrow> addr \<Rightarrow> 'w printing \<Rightarrow> 'w printing option" where
  "DevPathAtapi P DevPath x = do {
     PrimarySecondary \<leftarrow> rd8 (now x) (DevPath + 4);
     SlaveMaster \<leftarrow> rd8 (now x) (DevPath + 5);
     cat P (''Ata('' @ (if PrimarySecondary \<noteq> 0 then ''Secondary'' else ''Primary'') @ '','' @
            (if SlaveMaster \<noteq> 0 then ''Slave'' else ''Master'') @ '')'') [] x }"

definition DevPathScsi :: "'w plib \<Rightarrow> addr \<Rightarrow> 'w printing \<Rightarrow> 'w printing option" where
  "DevPathScsi P DevPath x = do {
     Pun \<leftarrow> rd16 (now x) (DevPath + 4);
     Lun \<leftarrow> rd16 (now x) (DevPath + 6);
     cat P ''Scsi(%d,%d)'' [ucast Pun, ucast Lun] x }"

definition DevPathFibre :: "'w plib \<Rightarrow> addr \<Rightarrow> 'w printing \<Rightarrow> 'w printing option" where
  "DevPathFibre P DevPath x = do {
     t \<leftarrow> DevicePathType (now x) DevPath;
     WWN \<leftarrow> rd64 (now x) (DevPath + 8);
     Lun \<leftarrow> rd64 (now x) (DevPath + 16);
     cat P (''Fibre'' @ (if t = 3 then '''' else ''Ex'') @ ''(0x%016lx,0x%016lx)'') [WWN, Lun] x }"

definition DevPath1394 :: "'w plib \<Rightarrow> addr \<Rightarrow> 'w printing \<Rightarrow> 'w printing option" where
  "DevPath1394 P DevPath x = do {
     Guid \<leftarrow> rd64 (now x) (DevPath + 8);
     cat P ''I1394(%016lx)'' [Guid] x }"

definition DevPathUsb :: "'w plib \<Rightarrow> addr \<Rightarrow> 'w printing \<Rightarrow> 'w printing option" where
  "DevPathUsb P DevPath x = do {
     Port \<leftarrow> rd8 (now x) (DevPath + 4);
     Endpoint \<leftarrow> rd8 (now x) (DevPath + 5);
     cat P ''Usb(0x%x,0x%x)'' [ucast Port, ucast Endpoint] x }"

definition DevPathI2O :: "'w plib \<Rightarrow> addr \<Rightarrow> 'w printing \<Rightarrow> 'w printing option" where
  "DevPathI2O P DevPath x = do {
     Tid \<leftarrow> rd32 (now x) (DevPath + 4);
     cat P ''I2O(0x%X)'' [ucast Tid] x }"

text \<open>The loop of \<open>_DevPathMacAddr\<close>, \<open>n\<close> bytes from \<open>Index\<close> on.\<close>

primrec MacAddr_loop :: "'w plib \<Rightarrow> addr \<Rightarrow> nat \<Rightarrow> nat \<Rightarrow> 'w printing \<Rightarrow> 'w printing option" where
  "MacAddr_loop P DevPath Index 0 x = Some x"
| "MacAddr_loop P DevPath Index (Suc n) x = do {
     Addr \<leftarrow> rd8 (now x) (DevPath + 4 + Index);
     x \<leftarrow> cat P ''%02x'' [ucast Addr] x;
     MacAddr_loop P DevPath (Index + 1) n x }"

definition DevPathMacAddr :: "'w plib \<Rightarrow> addr \<Rightarrow> 'w printing \<Rightarrow> 'w printing option" where
  "DevPathMacAddr P DevPath x = do {
     HwAddressSize \<leftarrow> DevicePathNodeLength (now x) DevPath;
     let HwAddressSize = uintn (HwAddressSize + 2 ^ 64 - 4);
     let HwAddressSize = uintn (HwAddressSize + 2 ^ 64 - 1);
     IfType \<leftarrow> rd8 (now x) (DevPath + 36);
     let HwAddressSize = (if IfType = 1 \<or> IfType = 0 then 6 else HwAddressSize);
     x \<leftarrow> cat P ''Mac('' [] x;
     x \<leftarrow> MacAddr_loop P DevPath 0 HwAddressSize x;
     IfType \<leftarrow> rd8 (now x) (DevPath + 36);
     x \<leftarrow> (if IfType \<noteq> 0 then cat P '',%d'' [ucast IfType] x else Some x);
     cat P '')'' [] x }"

definition CatPrintIPv4 :: "'w plib \<Rightarrow> addr \<Rightarrow> 'w printing \<Rightarrow> 'w printing option" where
  "CatPrintIPv4 P Address x = do {
     Addr \<leftarrow> rd_bytes (now x) Address 4;
     cat P ''%d.%d.%d.%d'' (map ucast Addr) x }"

definition IsNotNullIPv4 :: "mem \<Rightarrow> addr \<Rightarrow> bool option" where
  "IsNotNullIPv4 m Address = do {
     a0 \<leftarrow> rd8 m Address; a1 \<leftarrow> rd8 m (Address + 1);
     a2 \<leftarrow> rd8 m (Address + 2); a3 \<leftarrow> rd8 m (Address + 3);
     Some ((a0 OR a1) OR (a2 OR a3) \<noteq> 0) }"

definition CatPrintNetworkProtocol :: "'w plib \<Rightarrow> u16 \<Rightarrow> 'w printing \<Rightarrow> 'w printing option" where
  "CatPrintNetworkProtocol P Proto x =
     (if Proto = 6 then cat P ''TCP'' [] x
      else if Proto = 17 then cat P ''UDP'' [] x
      else cat P ''%d'' [ucast Proto] x)"

text \<open>\<open>sizeof(IPv4_DEVICE_PATH)\<close> is 28 and \<open>sizeof(IPv6_DEVICE_PATH)\<close> 60.\<close>

definition IPv4_show :: "mem \<Rightarrow> addr \<Rightarrow> bool option" where
  "IPv4_show m IP = do {
     show \<leftarrow> IsNotNullIPv4 m (IP + 4);
     if \<not> show then do {
       l \<leftarrow> DevicePathNodeLength m IP;
       if l = 28 then do {
         gateway \<leftarrow> IsNotNullIPv4 m (IP + 19);
         dmask \<leftarrow> IsNotNullIPv4 m (IP + 23);
         Some (show \<or> gateway \<or> dmask) }
       else Some show }
     else Some show }"

definition IPv4_gateway :: "'w plib \<Rightarrow> addr \<Rightarrow> 'w printing \<Rightarrow> 'w printing option" where
  "IPv4_gateway P IP x = do {
     l \<leftarrow> DevicePathNodeLength (now x) IP;
     if l = 28 then do {
       gateway \<leftarrow> IsNotNullIPv4 (now x) (IP + 19);
       dmask \<leftarrow> IsNotNullIPv4 (now x) (IP + 23);
       if gateway \<or> dmask then do {
         x \<leftarrow> cat P '','' [] x;
         x \<leftarrow> CatPrintIPv4 P (IP + 19) x;
         dmask \<leftarrow> IsNotNullIPv4 (now x) (IP + 23);
         if dmask then do { x \<leftarrow> cat P '','' [] x; CatPrintIPv4 P (IP + 23) x } else Some x }
       else Some x }
     else Some x }"

definition DevPathIPv4 :: "'w plib \<Rightarrow> addr \<Rightarrow> 'w printing \<Rightarrow> 'w printing option" where
  "DevPathIPv4 P IP x = do {
     x \<leftarrow> cat P ''IPv4('' [] x;
     x \<leftarrow> CatPrintIPv4 P (IP + 8) x;
     x \<leftarrow> cat P '','' [] x;
     Protocol \<leftarrow> rd16 (now x) (IP + 16);
     x \<leftarrow> CatPrintNetworkProtocol P Protocol x;
     StaticIpAddress \<leftarrow> rd8 (now x) (IP + 18);
     x \<leftarrow> cat P (if StaticIpAddress \<noteq> 0 then '',Static'' else '',DHCP'') [] x;
     show \<leftarrow> IPv4_show (now x) IP;
     x \<leftarrow> (if show then do {
            x \<leftarrow> cat P '','' [] x;
            x \<leftarrow> CatPrintIPv4 P (IP + 4) x;
            IPv4_gateway P IP x }
          else Some x);
     cat P '')'' [] x }"

definition CatPrintIPv6_ADD :: "u8 \<Rightarrow> u8 \<Rightarrow> u32" where
  "CatPrintIPv6_ADD x y = push_bit 8 (ucast x) OR ucast y"

definition CatPrintIPv6 :: "'w plib \<Rightarrow> addr \<Rightarrow> 'w printing \<Rightarrow> 'w printing option" where
  "CatPrintIPv6 P Address x = do {
     Addr \<leftarrow> rd_bytes (now x) Address 16;
     cat P ''%x:%x:%x:%x:%x:%x:%x:%x''
       (map (\<lambda>i. ucast (CatPrintIPv6_ADD (Addr ! (2 * i)) (Addr ! (2 * i + 1)))) [0, 1, 2, 3, 4, 5, 6, 7]) x }"

definition DevPathIPv6 :: "'w plib \<Rightarrow> addr \<Rightarrow> 'w printing \<Rightarrow> 'w printing option" where
  "DevPathIPv6 P IP x = do {
     x \<leftarrow> cat P ''IPv6('' [] x;
     x \<leftarrow> CatPrintIPv6 P (IP + 20) x;
     x \<leftarrow> cat P '','' [] x;
     Protocol \<leftarrow> rd16 (now x) (IP + 40);
     x \<leftarrow> CatPrintNetworkProtocol P Protocol x;
     IPAddressOrigin \<leftarrow> rd8 (now x) (IP + 42);
     x \<leftarrow> cat P (if IPAddressOrigin \<noteq> 0
                then (if IPAddressOrigin = 1 then '',StatelessAutoConfigure,'' else '',StatefulAutoConfigure,'')
                else '',Static,'') [] x;
     x \<leftarrow> CatPrintIPv6 P (IP + 4) x;
     l \<leftarrow> DevicePathNodeLength (now x) IP;
     x \<leftarrow> (if l = 60 then do {
            x \<leftarrow> cat P '','' [] x;
            x \<leftarrow> CatPrintIPv6 P (IP + 44) x;
            x \<leftarrow> cat P '','' [] x;
            cat P ''%d'' [word_of_nat (IP + 43)] x }
          else Some x);
     cat P '')'' [] x }"

definition DevPathUri :: "'w plib \<Rightarrow> addr \<Rightarrow> 'w printing \<Rightarrow> 'w printing option" where
  "DevPathUri P DevPath x = cat P ''Uri(%a)'' [word_of_nat (DevPath + 4)] x"

definition DevPathInfiniBand :: "'w plib \<Rightarrow> addr \<Rightarrow> 'w printing \<Rightarrow> 'w printing option" where
  "DevPathInfiniBand P DevPath x = do {
     ResourceFlags \<leftarrow> rd32 (now x) (DevPath + 4);
     ServiceId \<leftarrow> rd64 (now x) (DevPath + 24);
     TargetPortId \<leftarrow> rd64 (now x) (DevPath + 32);
     DeviceId \<leftarrow> rd64 (now x) (DevPath + 40);
     cat P ''Infiniband(0x%x,%g,0x%lx,0x%lx,0x%lx)''
       [ucast ResourceFlags, word_of_nat (DevPath + 8), ServiceId, TargetPortId, DeviceId] x }"

definition uart_parity :: "u8 \<Rightarrow> char" where
  "uart_parity p =
     (if p = 0 then CHR ''D'' else if p = 1 then CHR ''N'' else if p = 2 then CHR ''E''
      else if p = 3 then CHR ''O'' else if p = 4 then CHR ''M'' else if p = 5 then CHR ''S''
      else CHR ''x'')"

definition DevPathUart :: "'w plib \<Rightarrow> addr \<Rightarrow> 'w printing \<Rightarrow> 'w printing option" where
  "DevPathUart P Uart x = do {
     p \<leftarrow> rd8 (now x) (Uart + 17);
     BaudRate \<leftarrow> rd64 (now x) (Uart + 8);
     x \<leftarrow> (if BaudRate = 0 then cat P ''Uart(DEFAULT,'' [] x else cat P ''Uart(%ld,'' [BaudRate] x);
     DataBits \<leftarrow> rd8 (now x) (Uart + 16);
     x \<leftarrow> (if DataBits = 0 then cat P ''DEFAULT,'' [] x else cat P ''%d,'' [ucast DataBits] x);
     x \<leftarrow> cat P ''%c,'' [word_of_nat (of_char (uart_parity p))] x;
     StopBits \<leftarrow> rd8 (now x) (Uart + 18);
     cat P (if StopBits = 0 then ''D)'' else if StopBits = 1 then ''1)'' else if StopBits = 2 then ''1.5)''
            else if StopBits = 3 then ''2)'' else ''x)'') [] x }"

definition DevPathSata :: "'w plib \<Rightarrow> addr \<Rightarrow> 'w printing \<Rightarrow> 'w printing option" where
  "DevPathSata P DevPath x = do {
     HBAPortNumber \<leftarrow> rd16 (now x) (DevPath + 4);
     PortMultiplierPortNumber \<leftarrow> rd16 (now x) (DevPath + 6);
     Lun \<leftarrow> rd16 (now x) (DevPath + 8);
     cat P ''Sata(0x%x,0x%x,0x%x)'' [ucast HBAPortNumber, ucast PortMultiplierPortNumber, ucast Lun] x }"

subsection \<open>Media, boot specification and other nodes\<close>

definition DevPathHardDrive :: "'w plib \<Rightarrow> addr \<Rightarrow> 'w printing \<Rightarrow> 'w printing option" where
  "DevPathHardDrive P Hd x = do {
     SignatureType \<leftarrow> rd8 (now x) (Hd + 41);
     PartitionNumber \<leftarrow> rd32 (now x) (Hd + 4);
     if SignatureType = 1 then do {
       Signature \<leftarrow> rd32 (now x) (Hd + 24);
       cat P ''HD(%d,MBR,0x%08x)'' [ucast PartitionNumber, ucast Signature] x }
     else if SignatureType = 2 then
       cat P ''HD(%d,GPT,%g)'' [ucast PartitionNumber, word_of_nat (Hd + 24)] x
     else cat P ''HD(%d,%d,0)'' [ucast PartitionNumber, ucast SignatureType] x }"

definition DevPathCDROM :: "'w plib \<Rightarrow> addr \<Rightarrow> 'w printing \<Rightarrow> 'w printing option" where
  "DevPathCDROM P DevPath x = do {
     BootEntry \<leftarrow> rd32 (now x) (DevPath + 4);
     cat P ''CDROM(0x%x)'' [ucast BootEntry] x }"

definition DevPathFilePath :: "'w plib \<Rightarrow> addr \<Rightarrow> 'w printing \<Rightarrow> 'w printing option" where
  "DevPathFilePath P DevPath x = cat P ''%s'' [word_of_nat (DevPath + 4)] x"

definition DevPathMediaProtocol :: "'w plib \<Rightarrow> addr \<Rightarrow> 'w printing \<Rightarrow> 'w printing option" where
  "DevPathMediaProtocol P DevPath x = cat P ''%g'' [word_of_nat (DevPath + 4)] x"

definition bbs_type :: "u16 \<Rightarrow> string" where
  "bbs_type t =
     (if t = 1 then ''Floppy'' else if t = 2 then ''Harddrive'' else if t = 3 then ''CDROM''
      else if t = 4 then ''PCMCIA'' else if t = 5 then ''Usb'' else if t = 6 then ''Net'' else ''?'')"

definition DevPathBssBss :: "'w plib \<Rightarrow> addr \<Rightarrow> 'w printing \<Rightarrow> 'w printing option" where
  "DevPathBssBss P DevPath x = do {
     DeviceType \<leftarrow> rd16 (now x) (DevPath + 4);
     cat P (''Bss-'' @ bbs_type DeviceType @ ''(%a)'') [word_of_nat (DevPath + 8)] x }"

definition DevPathEndInstance :: "'w plib \<Rightarrow> addr \<Rightarrow> 'w printing \<Rightarrow> 'w printing option" where
  "DevPathEndInstance P DevPath x = cat P '','' [] x"

text \<open>The loop of \<open>_DevPathNodeUnknown\<close>: \<open>first\<close> is \<open>index == 0\<close>.\<close>

primrec NodeUnknown_loop :: "'w plib \<Rightarrow> bool \<Rightarrow> addr \<Rightarrow> nat \<Rightarrow> 'w printing \<Rightarrow> 'w printing option" where
  "NodeUnknown_loop P first dvalue 0 x = Some x"
| "NodeUnknown_loop P first dvalue (Suc n) x = do {
     x \<leftarrow> (if first then cat P '',0x'' [] x else Some x);
     v \<leftarrow> rd8 (now x) dvalue;
     x \<leftarrow> cat P ''%02x'' [ucast v] x;
     NodeUnknown_loop P False (dvalue + 1) n x }"

definition DevPathNodeUnknown :: "'w plib \<Rightarrow> addr \<Rightarrow> 'w printing \<Rightarrow> 'w printing option" where
  "DevPathNodeUnknown P Path x = do {
     Type \<leftarrow> rd8 (now x) Path;
     SubType \<leftarrow> rd8 (now x) (Path + 1);
     x \<leftarrow> (if Type = 1 then cat P ''HardwarePath(%d'' [ucast SubType] x
          else if Type = 2 then cat P ''AcpiPath(%d'' [ucast SubType] x
          else if Type = 3 then cat P ''Msg(%d'' [ucast SubType] x
          else if Type = 4 then cat P ''MediaPath(%d'' [ucast SubType] x
          else if Type = 5 then cat P ''BbsPath(%d'' [ucast SubType] x
          else cat P ''Path(%d,%d'' [ucast Type, ucast SubType] x);
     l \<leftarrow> DevicePathNodeLength (now x) Path;
     x \<leftarrow> NodeUnknown_loop P True (Path + 4) l x;
     cat P '')'' [] x }"

subsection \<open>The table and the walk\<close>

text \<open>The routines the table points to.\<close>

datatype dump_fn = D_Pci | D_Pccard | D_MemMap | D_Vendor | D_Controller | D_Acpi | D_Atapi | D_Scsi | D_Fibre |
  D_1394 | D_Usb | D_I2O | D_MacAddr | D_IPv4 | D_IPv6 | D_Uri | D_InfiniBand | D_Uart | D_Sata | D_HardDrive |
  D_CDROM | D_FilePath | D_MediaProtocol | D_BssBss | D_EndInstance | D_Unknown

fun DumpNode :: "dump_fn \<Rightarrow> 'w plib \<Rightarrow> addr \<Rightarrow> 'w printing \<Rightarrow> 'w printing option" where
  "DumpNode D_Pci = DevPathPci"
| "DumpNode D_Pccard = DevPathPccard"
| "DumpNode D_MemMap = DevPathMemMap"
| "DumpNode D_Vendor = DevPathVendor"
| "DumpNode D_Controller = DevPathController"
| "DumpNode D_Acpi = DevPathAcpi"
| "DumpNode D_Atapi = DevPathAtapi"
| "DumpNode D_Scsi = DevPathScsi"
| "DumpNode D_Fibre = DevPathFibre"
| "DumpNode D_1394 = DevPath1394"
| "DumpNode D_Usb = DevPathUsb"
| "DumpNode D_I2O = DevPathI2O"
| "DumpNode D_MacAddr = DevPathMacAddr"
| "DumpNode D_IPv4 = DevPathIPv4"
| "DumpNode D_IPv6 = DevPathIPv6"
| "DumpNode D_Uri = DevPathUri"
| "DumpNode D_InfiniBand = DevPathInfiniBand"
| "DumpNode D_Uart = DevPathUart"
| "DumpNode D_Sata = DevPathSata"
| "DumpNode D_HardDrive = DevPathHardDrive"
| "DumpNode D_CDROM = DevPathCDROM"
| "DumpNode D_FilePath = DevPathFilePath"
| "DumpNode D_MediaProtocol = DevPathMediaProtocol"
| "DumpNode D_BssBss = DevPathBssBss"
| "DumpNode D_EndInstance = DevPathEndInstance"
| "DumpNode D_Unknown = DevPathNodeUnknown"

definition DevPathTable :: "((u8 \<times> u8) \<times> dump_fn) list" where
  "DevPathTable = [
     ((1, 1), D_Pci), ((1, 2), D_Pccard), ((1, 3), D_MemMap), ((1, 4), D_Vendor), ((1, 5), D_Controller),
     ((2, 1), D_Acpi),
     ((3, 1), D_Atapi), ((3, 2), D_Scsi), ((3, 3), D_Fibre), ((3, 4), D_1394), ((3, 5), D_Usb), ((3, 6), D_I2O),
     ((3, 0x0b), D_MacAddr), ((3, 0x0c), D_IPv4), ((3, 0x0d), D_IPv6), ((3, 24), D_Uri), ((3, 0x09), D_InfiniBand),
     ((3, 0x0e), D_Uart), ((3, 18), D_Sata), ((3, 0x0a), D_Vendor),
     ((4, 1), D_HardDrive), ((4, 2), D_CDROM), ((4, 3), D_Vendor), ((4, 4), D_FilePath), ((4, 5), D_MediaProtocol),
     ((5, 1), D_BssBss), ((0x7f, 1), D_EndInstance)]"

definition find_dump :: "u8 \<Rightarrow> u8 \<Rightarrow> dump_fn" where
  "find_dump t st = (case map_of DevPathTable (t, st) of Some f \<Rightarrow> f | None \<Rightarrow> D_Unknown)"

partial_function (option) DevicePathToStr_loop :: "'w plib \<Rightarrow> addr \<Rightarrow> 'w printing \<Rightarrow> 'w printing option" where
  "DevicePathToStr_loop P DevPathNode x = do {
     e \<leftarrow> IsDevicePathEnd (now x) DevPathNode;
     if e then Some x
     else do {
       t \<leftarrow> DevicePathType (now x) DevPathNode;
       st \<leftarrow> DevicePathSubType (now x) DevPathNode;
       x \<leftarrow> (if sp_len (fst x) \<noteq> 0 \<and> find_dump t st \<noteq> D_EndInstance then cat P ''/'' [] x else Some x);
       x \<leftarrow> DumpNode (find_dump t st) P DevPathNode x;
       DevPathNode \<leftarrow> NextDevicePathNode (now x) DevPathNode;
       DevicePathToStr_loop P DevPathNode x } }"

definition DevicePathToStr_1 :: "'w plib \<Rightarrow> addr \<Rightarrow> 'w st \<Rightarrow> (addr \<times> 'w st) option" where
  "DevicePathToStr_1 P DevPath s = do {
     (DevPath, s) \<leftarrow> UnpackDevicePath (PLib P) DevPath s;
     (Str, s) \<leftarrow> DevicePathToStr_loop P DevPath (\<lparr>sp_str = 0, sp_len = 0, sp_maxlen = 0\<rparr>, s);
     let s = FreePool (PLib P) DevPath s;
     let NewSize = uintn ((sp_len Str + 1) * 2);
     (str, s) \<leftarrow> ReallocatePool_1 (PLib P) NewSize NewSize (sp_str Str) s;
     m \<leftarrow> wr16 (ram s) (str + 2 * sp_len Str) 0;
     Some (str, with_ram s m) }"

end
