(* ===== verification/DevPathPrint.thy ===== *)
theory DevPathPrint
  imports PrintPool DevPathText
begin

text \<open>
  The text of a device path (lib/dpath.c) is what its nodes' fields say.

  \<^item> \<open>appends good N f u\<close>: \<open>f\<close> returns and appends the text \<open>u\<close> to what was printed. The rules for
    reading a field, printing and sequencing follow the code of a routine.
  \<^item> \<open>node_text\<close> is the text of a node as a function of the bytes of the unpacked path from the node on, and
    \<open>dumps\<close> says that a routine of the table prints it; \<open>dumps_all\<close> covers every routine.
\<close>

subsection \<open>Fields\<close>

definition half :: "u8 list \<Rightarrow> nat \<Rightarrow> u16" where "half bs i = le_word (take 2 (drop i bs))"
definition word4 :: "u8 list \<Rightarrow> nat \<Rightarrow> u32" where "word4 bs i = le_word (take 4 (drop i bs))"
definition word8 :: "u8 list \<Rightarrow> nat \<Rightarrow> u64" where "word8 bs i = le_word (take 8 (drop i bs))"

lemma bytes_at_take_drop:
  assumes "bytes_at m p bs" "i + n \<le> length bs"
  shows "rd_bytes m (p + i) n = Some (take n (drop i bs))"
proof -
  have "bs = take i bs @ take n (drop i bs) @ drop (i + n) bs"
    by (metis append_take_drop_id drop_drop add.commute)
  moreover have "length (take n (drop i bs)) = n" "length (take i bs) = i" using assms(2) by simp_all
  ultimately have "bytes_at m (p + i) (take n (drop i bs))"
    using assms(1) by (metis bytes_at_append)
  then show ?thesis using \<open>length (take n (drop i bs)) = n\<close> by (simp add: bytes_at_def)
qed

lemma bytes_at_fields:
  assumes "bytes_at m p bs"
  shows "i < length bs \<Longrightarrow> rd8 m (p + i) = Some (bs ! i)"
    "i + 2 \<le> length bs \<Longrightarrow> rd16 m (p + i) = Some (half bs i)"
    "i + 4 \<le> length bs \<Longrightarrow> rd32 m (p + i) = Some (word4 bs i)"
    "i + 8 \<le> length bs \<Longrightarrow> rd64 m (p + i) = Some (word8 bs i)"
proof -
  show "rd8 m (p + i) = Some (bs ! i)" if "i < length bs"
  proof -
    have "bytes_at m (p + i) [bs ! i]"
      using bytes_at_take_drop [OF assms, of i 1] that
      by (simp add: bytes_at_def take_Suc_conv_app_nth take_Suc hd_drop_conv_nth)
    then show ?thesis by (simp add: bytes_at_Cons)
  qed
qed (use bytes_at_take_drop [OF assms] in \<open>simp_all add: rd16_def rd32_def rd64_def half_def word4_def word8_def\<close>)

subsection \<open>Functions that append\<close>

definition appends :: "(u16 list \<Rightarrow> 'x \<Rightarrow> bool) \<Rightarrow> nat \<Rightarrow> ('x \<Rightarrow> 'x option) \<Rightarrow> u16 list \<Rightarrow> bool" where
  "appends good N f u \<longleftrightarrow>
     (\<forall>t x. good t x \<and> length (t @ u) \<le> N \<longrightarrow> (\<exists>x'. f x = Some x' \<and> good (t @ u) x'))"

lemma appendsD:
  "appends good N f u \<Longrightarrow> good t x \<Longrightarrow> length (t @ u) \<le> N \<Longrightarrow> \<exists>x'. f x = Some x' \<and> good (t @ u) x'"
  by (simp add: appends_def)

lemma appends_nothing: "appends good N Some []"
  by (simp add: appends_def)

lemma appends_seq:
  assumes "appends good N f u" "appends good N g v"
  shows "appends good N (\<lambda>x. f x \<bind> g) (u @ v)"
  unfolding appends_def
proof (intro allI impI, elim conjE)
  fix t x assume x: "good t x" "length (t @ u @ v) \<le> N"
  then obtain x1 where x1: "f x = Some x1" "good (t @ u) x1" using appendsD [OF assms(1)] by fastforce
  then obtain x2 where "g x1 = Some x2" "good ((t @ u) @ v) x2" using appendsD [OF assms(2) x1(2)] x(2) by auto
  with x1(1) show "\<exists>x'. f x \<bind> g = Some x' \<and> good (t @ u @ v) x'" by simp
qed

lemma appends_read:
  "(\<And>t x. good t x \<Longrightarrow> r x = Some v) \<Longrightarrow> appends good N (f v) u \<Longrightarrow> appends good N (\<lambda>x. r x \<bind> (\<lambda>v. f v x)) u"
  unfolding appends_def by fastforce

text \<open>A node in memory that printing leaves alone: the blocks \<open>K\<close> hold what they held in \<open>m0\<close>.\<close>

definition node_in :: "ranges \<Rightarrow> mem \<Rightarrow> addr \<Rightarrow> u8 list \<Rightarrow> bool" where
  "node_in K m0 p bs \<longleftrightarrow> in_use K p (length bs) \<and> bytes_at m0 p bs \<and> p + length bs < 2 ^ 64"

lemma pool_text_same: "pool_text L blocks room K m0 N R t x \<Longrightarrow> same_on K m0 (now x)"
  by (simp add: pool_text_def)

lemma node_in_now:
  "node_in K m0 p bs \<Longrightarrow> pool_text L blocks room K m0 N R t x \<Longrightarrow> bytes_at (now x) p bs"
  unfolding node_in_def by (elim conjE, rule bytes_at_same_on [OF pool_text_same])

lemma node_field:
  assumes "node_in K m0 p bs" "pool_text L blocks room K m0 N R t x"
  shows "i < length bs \<Longrightarrow> rd8 (now x) (p + i) = Some (bs ! i)"
    "i + 2 \<le> length bs \<Longrightarrow> rd16 (now x) (p + i) = Some (half bs i)"
    "i + 4 \<le> length bs \<Longrightarrow> rd32 (now x) (p + i) = Some (word4 bs i)"
    "i + 8 \<le> length bs \<Longrightarrow> rd64 (now x) (p + i) = Some (word8 bs i)"
    "i + n \<le> length bs \<Longrightarrow> rd_bytes (now x) (p + i) n = Some (take n (drop i bs))"
    "3 < length bs \<Longrightarrow> DevicePathType (now x) p = Some (bs ! 0 AND 0x7f)"
    "3 < length bs \<Longrightarrow> DevicePathSubType (now x) p = Some (bs ! 1)"
    "3 < length bs \<Longrightarrow> DevicePathNodeLength (now x) p = Some (unat (half bs 2))"
proof -
  note b = node_in_now [OF assms]
  note f = bytes_at_fields [OF b] bytes_at_take_drop [OF b]
  show "i < length bs \<Longrightarrow> rd8 (now x) (p + i) = Some (bs ! i)"
    "i + 2 \<le> length bs \<Longrightarrow> rd16 (now x) (p + i) = Some (half bs i)"
    "i + 4 \<le> length bs \<Longrightarrow> rd32 (now x) (p + i) = Some (word4 bs i)"
    "i + 8 \<le> length bs \<Longrightarrow> rd64 (now x) (p + i) = Some (word8 bs i)"
    "i + n \<le> length bs \<Longrightarrow> rd_bytes (now x) (p + i) n = Some (take n (drop i bs))" by (rule f, assumption)+
  show "DevicePathType (now x) p = Some (bs ! 0 AND 0x7f)" "DevicePathSubType (now x) p = Some (bs ! 1)"
    if "3 < length bs"
  proof -
    have "0 < length bs" "1 < length bs" using that by linarith+
    then show "DevicePathType (now x) p = Some (bs ! 0 AND 0x7f)" "DevicePathSubType (now x) p = Some (bs ! 1)"
      using f(1) [of 0] f(1) [of 1] by (simp_all add: DevicePathType_def DevicePathSubType_def)
  qed
  show "DevicePathNodeLength (now x) p = Some (unat (half bs 2))" if l: "3 < length bs"
  proof -
    have d: "take 2 (drop 2 bs) = [bs ! 2, bs ! 3]"
      using l by (intro nth_equalityI) (auto simp: less_Suc_eq numeral_2_eq_2 numeral_3_eq_3)
    have "le_bytes 2 (half bs 2) = [bs ! 2, bs ! 3]"
      unfolding half_def d by (rule le_bytes_le_word_width) simp
    then have "bs ! 2 = ucast (half bs 2)" "bs ! 3 = ucast (drop_bit 8 (half bs 2))"
      by (simp_all add: numeral_2_eq_2 le_bytes.simps)
    then show ?thesis using f(1) [of 2] f(1) [of 3] l by (simp add: DevicePathNodeLength_def header_length)
  qed
qed

subsection \<open>Formats and their texts\<close>

text \<open>The directives of the formats in lib/dpath.c.\<close>

abbreviation lits :: "string \<Rightarrow> piece list" where "lits s \<equiv> map Lit (text16 s)"
abbreviation p_x :: piece where "p_x \<equiv> Dir [] None None [] C_x"
abbreviation p_X :: piece where "p_X \<equiv> Dir [] None None [] C_X"
abbreviation p_lx :: piece where "p_lx \<equiv> Dir [Long_arg] None None [] C_x"
abbreviation p_d :: piece where "p_d \<equiv> Dir [] None None [] C_d"
abbreviation p_ld :: piece where "p_ld \<equiv> Dir [Long_arg] None None [] C_d"
abbreviation p_016lx :: piece where "p_016lx \<equiv> Dir [Zero_pad] (Some (Num 16)) None [Long_arg] C_x"
abbreviation p_c :: piece where "p_c \<equiv> Dir [] None None [] C_c"
abbreviation p_g :: piece where "p_g \<equiv> Dir [] None None [] C_g"
abbreviation p_s :: piece where "p_s \<equiv> Dir [] None None [] C_s"
abbreviation p_a :: piece where "p_a \<equiv> Dir [] None None [] C_a"

lemma text_render_lit: "text_render cv m (map Lit s @ pcs) args = map_option ((@) s) (text_render cv m pcs args)"
proof (induction s)
  case (Cons c s)
  then show ?case by (cases "text_render cv m pcs args") (simp_all add: text_render_simps)
qed (cases "text_render cv m pcs args"; simp)

lemma text_render_plain:
  assumes "c \<notin> {C_percent, C_X, C_p}" "\<And>u. c \<noteq> C_other u"
    and "conv_text cv m (fold apply_flag fl new_item) c a = Some s"
    and "0 \<notin> set s" "length s < 2 ^ 64" "fl \<in> {[], [Long_arg]}"
  shows "text_render cv m (Dir fl None None [] c # pcs) (a # args) = map_option ((@) s) (text_render cv m pcs args)"
proof -
  let ?it = "fold apply_flag fl new_item"
  have it: "item_text ?it s = s" using assms(5,6) by (auto simp: item_text_plain new_item_def)
  have ci: "conv_item c ?it = ?it" using assms(1) by (cases c) simp_all
  have "conv_render cv m ?it c (a # args) = do {
      s \<leftarrow> conv_text cv m ?it c a;
      if 0 \<in> set s then None else Some (item_text (conv_item c ?it) s, args) }"
    using assms(1) assms(2) [of "case c of C_other u \<Rightarrow> u | _ \<Rightarrow> 0"] by (cases c) (simp_all cong: if_cong)
  then have "conv_render cv m ?it c (a # args) = Some (s, args)" using assms(3,4) it ci by simp
  then show ?thesis
    by (cases "text_render cv m pcs args") (simp_all add: text_render_def dir_item_def)
qed

lemma signed_text_clean: "0 \<notin> set (signed_text False v)" "10 \<notin> set (signed_text False v)" "13 \<notin> set (signed_text False v)"
  by (simp_all add: signed_text_def number_text_clean)

lemma length_signed_text: "length (signed_text False v) < 2 ^ 64"
proof -
  have "- (2 ^ 63) \<le> sint v" "sint v < 2 ^ 63" using sint_ge [of v] sint_lt [of v] by simp_all
  then have "nat (sint v) < 10 ^ 20" "nat (- sint v) < 10 ^ 20" by simp_all
  then show ?thesis
    using length_dec_text [of "nat (sint v)" 20] length_dec_text [of "nat (- sint v)" 20]
    by (auto simp: signed_text_def abs_if)
qed

lemma text_render_numbers:
  "text_render cv m (p_x # pcs) (a # args) = map_option ((@) (hex_text (unat (uint_arg False a)))) (text_render cv m pcs args)"
  "text_render cv m (p_lx # pcs) (a # args) = map_option ((@) (hex_text (unat a))) (text_render cv m pcs args)"
  "text_render cv m (p_d # pcs) (a # args) =
     map_option ((@) (signed_text False (int_arg False a))) (text_render cv m pcs args)"
  "text_render cv m (p_ld # pcs) (a # args) = map_option ((@) (signed_text False a)) (text_render cv m pcs args)"
  by (rule text_render_plain; simp add: new_item_def uint_arg_def int_arg_def number_text_clean signed_text_clean
      length_number_text [simplified] length_signed_text [simplified])+

lemma text_render_padded:
  "text_render cv m (p_016lx # pcs) (a # args) =
     map_option ((@) (zero_padded 16 (hex_text (unat a)))) (text_render cv m pcs args)"
  "text_render cv m (p_X # pcs) (a # args) =
     map_option ((@) (zero_padded 8 (hex_text (unat (uint_arg False a))))) (text_render cv m pcs args)"
  "k < 2 ^ 64 \<Longrightarrow> text_render cv m (padded C_x k # pcs) (a # args) =
     map_option ((@) (zero_padded k (hex_text (unat (uint_arg False a))))) (text_render cv m pcs args)"
  using length_number_text
  by (cases "text_render cv m pcs args"; simp add: text_render_def dir_item_def new_item_def padded_def item_text_plain
      number_text_clean zero_padded_def uint_arg_def unat_word_of_nat)+

lemma text_render_c:
  "ucast a \<noteq> (0 :: u16) \<Longrightarrow> text_render cv m (p_c # pcs) (a # args) = map_option ((@) [ucast a]) (text_render cv m pcs args)"
  using text_render_plain [of C_c cv m "[]" a "[ucast a]"] by (simp add: new_item_def)

lemma text_render_g:
  assumes "conv_guid cv m a = Some t" "0 \<notin> set t" "length t < 2 ^ 64"
  shows "text_render cv m (p_g # pcs) (a # args) = map_option ((@) t) (text_render cv m pcs args)"
  using assms by (intro text_render_plain) simp_all

lemma text_render_s:
  assumes "str16_at m (unat a) t" "a \<noteq> 0" "length t < 2 ^ 64"
  shows "text_render cv m (p_s # pcs) (a # args) = map_option ((@) t) (text_render cv m pcs args)"
proof (rule text_render_plain)
  have "src_text m (Wide (unat a)) t" by (rule src_text_Wide [OF assms(1)])
  then show "conv_text cv m (fold apply_flag [] new_item) C_s a = Some t"
    using assms(2) by (simp add: str_arg_def read_text_src_text)
  show "0 \<notin> set t" using assms(1) by (simp add: str16_at_bytes)
qed (use assms(3) in simp_all)

lemma text_render_a:
  assumes "str8_at m (unat a) t" "a \<noteq> 0" "length t < 2 ^ 64"
  shows "text_render cv m (p_a # pcs) (a # args) = map_option ((@) (map ucast t)) (text_render cv m pcs args)"
proof (rule text_render_plain)
  have s: "src_text m (Ascii (unat a)) (map ucast t)" by (rule src_text_Ascii [OF assms(1)])
  then show "conv_text cv m (fold apply_flag [] new_item) C_a a = Some (map ucast t)"
    using assms(2) by (simp add: str_arg_def read_text_src_text)
  show "0 \<notin> set (map ucast t :: u16 list)" using s by (simp add: src_text_def)
qed (use assms(3) in simp_all)

text \<open>Texts without line breaks, which \<open>CatPrint\<close> appends as they are.\<close>

definition one_line :: "u16 list \<Rightarrow> bool" where
  "one_line t \<longleftrightarrow> 10 \<notin> set t \<and> 13 \<notin> set t"

lemma one_line_simps [simp]:
  "one_line []" "one_line (c # t) \<longleftrightarrow> c \<noteq> 10 \<and> c \<noteq> 13 \<and> one_line t" "one_line (t @ u) \<longleftrightarrow> one_line t \<and> one_line u"
  "one_line (hex_text n)" "one_line (dec_text n)" "one_line (signed_text False v)" "one_line (zero_padded k (hex_text n))"
  "one_line (zero_padded k (dec_text n))" "one_line (guid_text g)"
  by (auto simp: one_line_def number_clean signed_text_clean guid_text_clean)

lemma readers_lits: "readers \<circ> Lit = (\<lambda>x. 0)" "readers \<circ> (Lit \<circ> h) = (\<lambda>x. 0)"
  by (simp_all add: fun_eq_iff)

text \<open>A format of \<open>CatPrint\<close> with one argument that points to memory at most.\<close>

definition cat_ok :: "piece list \<Rightarrow> bool" where
  "cat_ok pcs \<longleftrightarrow> text_ok pcs \<and> one_reader pcs"

lemma cat_appends:
  assumes "BelowBuffer P \<noteq> 13" "text16 f = unparse pcs" "cat_ok pcs" "0 \<notin> set (text16 f)"
    and "\<And>m. same_on K m0 m \<Longrightarrow> text_render (converters_of P) m pcs args = Some u" "one_line u"
  shows "appends (pool_text (PLib P) blocks room K m0 N R) N (cat P f args) u"
  unfolding appends_def
proof (intro allI impI, elim conjE)
  fix t x
  assume x: "pool_text (PLib P) blocks room K m0 N R t x" and N: "length (t @ u) \<le> N"
  have cr: "with_cr u = u" "13 \<notin> set u" using assms(6) by (simp_all add: one_line_def with_cr_plain)
  have src: "src_text m (Text (text16 f)) (unparse pcs)" for m
    unfolding assms(2) [symmetric] by (rule src_text_Text [OF assms(4)])
  have "same_on K m0 (now x)" "N < 2 ^ 60" using x by (simp_all add: pool_text_def)
  moreover from this(2) N have "length u < 2 ^ 64 - 1" by simp
  ultimately have r: "renders (converters_of P) (same_on K m0) pcs args u"
    using assms(3,5) by (intro renders_one_reader) (auto simp: cat_ok_def text_render_def)
  have ok: "text_ok pcs" using assms(3) by (simp add: cat_ok_def)
  from PoolCatPrint_1_pool [OF x assms(1) ok src r cr(2)] N
  obtain x' where "PoolCatPrint_1 (converters_of P) (BelowBuffer P) (Text (text16 f)) args x (PoolPrint_1 (PLib P)) = Some x'"
    "pool_text (PLib P) blocks room K m0 N R (t @ u) x'"
    by (auto simp: cr(1))
  then show "\<exists>x'. cat P f args x = Some x' \<and> pool_text (PLib P) blocks room K m0 N R (t @ u) x'"
    by (simp add: cat_def CatPrint_def case_prod_beta)
qed

lemma cat_literal:
  assumes "BelowBuffer P \<noteq> 13" "list_all (\<lambda>c. c \<notin> {0, 10, 13, 37}) (text16 f)"
  shows "appends (pool_text (PLib P) blocks room K m0 N R) N (cat P f args) (text16 f)"
proof (rule cat_appends [OF assms(1) unparse_literal [symmetric]])
  show "cat_ok (lits f)" using assms(2) by (auto simp: cat_ok_def one_reader_def readers_lits text_ok_def list_all_iff)
  show "0 \<notin> set (text16 f)" "one_line (text16 f)" using assms(2) by (auto simp: list_all_iff one_line_def)
  have "text_render (converters_of P) m (lits f) args = Some (text16 f)" for m
    using text_render_lit [of "converters_of P" m "text16 f" "[]" args] by (simp add: text_render_def)
  then show "text_render (converters_of P) m (lits f) args = Some (text16 f)" for m .
qed

subsection \<open>The text of a node\<close>

definition hx :: "'a::len word \<Rightarrow> u16 list" where
  "hx w = hex_text (unat w)"

definition int_text :: "u32 \<Rightarrow> u16 list" where
  "int_text w = (if sint w < 0 then [45] else []) @ dec_text (nat \<bar>sint w\<bar>)"

definition guid_of :: "u8 list \<Rightarrow> EFI_GUID" where
  "guid_of bs = GUID (word4 bs 0) (half bs 4) (half bs 6) (take 8 (drop 8 bs))"

definition guid_name :: "EFI_GUID \<Rightarrow> u16 list" where
  "guid_name g = (case map_of KnownGuids g of Some n \<Rightarrow> text16 n | None \<Rightarrow> guid_text g)"

fun str16_of :: "u8 list \<Rightarrow> u16 list option" where
  "str16_of (a # b # bs) =
     (let c = le_word [a, b] in if c = 0 then Some [] else map_option ((#) c) (str16_of bs))"
| "str16_of bs = None"

fun str8_of :: "u8 list \<Rightarrow> u8 list option" where
  "str8_of (c # bs) = (if c = 0 then Some [] else map_option ((#) c) (str8_of bs))"
| "str8_of [] = None"

definition need :: "nat \<Rightarrow> u8 list \<Rightarrow> u16 list \<Rightarrow> u16 list option" where
  "need n bs t = (if n \<le> length bs then Some t else None)"

definition line :: "u16 list \<Rightarrow> u16 list option" where
  "line t = (if one_line t then Some t else None)"

definition acpi_uid :: "u32 \<Rightarrow> u16 list" where
  "acpi_uid uid = (if uid \<noteq> 0 then text16 '','' @ int_text uid else [])"

definition acpi_text :: "u32 \<Rightarrow> u32 \<Rightarrow> u16 list" where
  "acpi_text hid uid =
     (if hid AND 0xffff = 0x41d0 then
        (case map_of [(0x301, ''Keyboard''), (0x401, ''ParallelPort''), (0x501, ''Serial''), (0x604, ''Floppy''),
                      (0xa03, ''PciRoot''), (0xa08, ''PcieRoot'')] (drop_bit 16 hid) of
           Some name \<Rightarrow> text16 name @ text16 ''('' @ int_text uid @ text16 '')''
         | None \<Rightarrow> text16 ''Acpi(PNP'' @ hex_digits 4 (unat (drop_bit 16 hid)) @ acpi_uid uid @ text16 '')'')
      else text16 ''Acpi(0x'' @ hex_digits 8 (unat hid) @ acpi_uid uid @ text16 '')'')"

definition ipv4_text :: "u8 list \<Rightarrow> u16 list" where
  "ipv4_text a = dec_text (unat (a ! 0)) @ text16 ''.'' @ dec_text (unat (a ! 1)) @ text16 ''.'' @
     dec_text (unat (a ! 2)) @ text16 ''.'' @ dec_text (unat (a ! 3))"

definition ipv6_text :: "u8 list \<Rightarrow> u16 list" where
  "ipv6_text a =
     (let h = (\<lambda>i. hex_text (256 * unat (a ! i) + unat (a ! (i + 1))))
      in h 0 @ text16 '':'' @ h 2 @ text16 '':'' @ h 4 @ text16 '':'' @ h 6 @ text16 '':'' @ h 8 @ text16 '':'' @
         h 10 @ text16 '':'' @ h 12 @ text16 '':'' @ h 14)"

definition protocol_text :: "u16 \<Rightarrow> u16 list" where
  "protocol_text n = (if n = 6 then text16 ''TCP'' else if n = 17 then text16 ''UDP'' else dec_text (unat n))"

definition ipv4_node :: "u8 list \<Rightarrow> u16 list" where
  "ipv4_node bs =
     (let addr = (\<lambda>i. take 4 (drop i bs)); v2 = (half bs 2 = 28);
          set = (\<lambda>i. addr i \<noteq> [0, 0, 0, 0]);
          part = (\<lambda>i. text16 '','' @ ipv4_text (addr i))
      in text16 ''IPv4('' @ ipv4_text (addr 8) @ text16 '','' @ protocol_text (half bs 16) @
         text16 (if bs ! 18 \<noteq> 0 then '',Static'' else '',DHCP'') @
         (if set 4 \<or> v2 \<and> (set 19 \<or> set 23) then part 4 else []) @
         (if v2 \<and> (set 19 \<or> set 23) then part 19 else []) @
         (if v2 \<and> set 23 then part 23 else []) @ text16 '')'')"

definition mac_size :: "u8 list \<Rightarrow> nat" where
  "mac_size bs = (if bs ! 36 = 0 \<or> bs ! 36 = 1 then 6 else unat (half bs 2) - 5)"

definition mac_text :: "u8 list \<Rightarrow> u16 list" where
  "mac_text bs = text16 ''Mac('' @ concat (map (\<lambda>b. hex_digits 2 (unat b)) (take (mac_size bs) (drop 4 bs))) @
     (if bs ! 36 \<noteq> 0 then text16 '','' @ dec_text (unat (bs ! 36)) else []) @ text16 '')''"

definition uart_text :: "u8 list \<Rightarrow> u16 list" where
  "uart_text bs = text16 ''Uart('' @
     (if word8 bs 8 = 0 then text16 ''DEFAULT'' else signed_text False (word8 bs 8)) @ text16 '','' @
     (if bs ! 16 = 0 then text16 ''DEFAULT'' else dec_text (unat (bs ! 16))) @ text16 '','' @
     text16 [if bs ! 17 < 6 then ''DNEOMS'' ! unat (bs ! 17) else CHR ''x''] @ text16 '','' @
     text16 (if bs ! 18 < 4 then [''D'', ''1'', ''1.5'', ''2''] ! unat (bs ! 18) else ''x'') @ text16 '')''"

definition vendor_text :: "u8 list \<Rightarrow> u16 list" where
  "vendor_text bs =
     (let t = bs ! 0 AND 0x7f; g = guid_of (drop 4 bs)
      in text16 (if t = 1 then ''VenHw('' else if t = 3 then ''VenMsg('' else if t = 4 then ''VenMedia(''
                 else ''Ven?('') @
         guid_name g @ (if g = UnknownDevice then text16 '':'' @ hex_digits 2 (unat (bs ! 20)) else []) @
         text16 '')'')"

definition unknown_text :: "u8 list \<Rightarrow> u16 list" where
  "unknown_text bs =
     (let l = unat (half bs 2)
      in (case map_of [(1, ''HardwarePath''), (2, ''AcpiPath''), (3, ''Msg''), (4, ''MediaPath''), (5, ''BbsPath'')]
            (bs ! 0) of
            Some name \<Rightarrow> text16 name @ text16 ''(''
          | None \<Rightarrow> text16 ''Path('' @ dec_text (unat (bs ! 0)) @ text16 '','') @
         dec_text (unat (bs ! 1)) @
         (if l = 0 then [] else text16 '',0x'' @ concat (map (\<lambda>b. hex_digits 2 (unat b)) (take l (drop 4 bs)))) @
         text16 '')'')"

text \<open>
  \<open>bs\<close> are the bytes of the node and of what follows it. There is no text for a node whose fields are
  cut off by the end of the path, for names with line breaks, and for the long form of an IPv6 node.
\<close>

fun node_text :: "dump_fn \<Rightarrow> u8 list \<Rightarrow> u16 list option" where
  "node_text D_Pci bs = need 6 bs (text16 ''Pci(0x'' @ hx (bs ! 5) @ text16 '',0x'' @ hx (bs ! 4) @ text16 '')'')"
| "node_text D_Pccard bs = need 5 bs (text16 ''Pccard(0x'' @ hx (bs ! 4) @ text16 '')'')"
| "node_text D_MemMap bs = need 24 bs (text16 ''MemMap('' @ int_text (word4 bs 4) @ text16 '',0x'' @
     hx (word4 bs 8) @ text16 '',0x'' @ hx (word4 bs 16) @ text16 '')'')"
| "node_text D_Controller bs = need 8 bs (text16 ''Ctrl('' @ int_text (word4 bs 4) @ text16 '')'')"
| "node_text D_Vendor bs = need (if guid_of (drop 4 bs) = UnknownDevice then 21 else 20) bs (vendor_text bs)"
| "node_text D_Acpi bs = need 12 bs (acpi_text (word4 bs 4) (word4 bs 8))"
| "node_text D_Atapi bs = need 6 bs (text16 ''Ata('' @ text16 (if bs ! 4 \<noteq> 0 then ''Secondary'' else ''Primary'') @
     text16 '','' @ text16 (if bs ! 5 \<noteq> 0 then ''Slave'' else ''Master'') @ text16 '')'')"
| "node_text D_Scsi bs = need 8 bs (text16 ''Scsi('' @ dec_text (unat (half bs 4)) @ text16 '','' @
     dec_text (unat (half bs 6)) @ text16 '')'')"
| "node_text D_Fibre bs = need 24 bs (text16 (if bs ! 0 AND 0x7f = 3 then ''Fibre(0x'' else ''FibreEx(0x'') @
     hex_digits 16 (unat (word8 bs 8)) @ text16 '',0x'' @ hex_digits 16 (unat (word8 bs 16)) @ text16 '')'')"
| "node_text D_1394 bs = need 16 bs (text16 ''I1394('' @ hex_digits 16 (unat (word8 bs 8)) @ text16 '')'')"
| "node_text D_Usb bs = need 6 bs (text16 ''Usb(0x'' @ hx (bs ! 4) @ text16 '',0x'' @ hx (bs ! 5) @ text16 '')'')"
| "node_text D_I2O bs = need 8 bs (text16 ''I2O(0x'' @ hex_digits 8 (unat (word4 bs 4)) @ text16 '')'')"
| "node_text D_MacAddr bs = (if bs ! 36 \<in> {0, 1} \<or> 5 \<le> half bs 2 then need (max 37 (4 + mac_size bs)) bs (mac_text bs)
     else None)"
| "node_text D_IPv4 bs = need (if half bs 2 = 28 then 27 else 19) bs (ipv4_node bs)"
| "node_text D_IPv6 bs = (if half bs 2 = 60 then None else
     need 43 bs (text16 ''IPv6('' @ ipv6_text (take 16 (drop 20 bs)) @ text16 '','' @ protocol_text (half bs 40) @
       text16 (if bs ! 42 = 0 then '',Static,'' else if bs ! 42 = 1 then '',StatelessAutoConfigure,''
               else '',StatefulAutoConfigure,'') @ ipv6_text (take 16 (drop 4 bs)) @ text16 '')''))"
| "node_text D_Uri bs = do {
     s \<leftarrow> str8_of (drop 4 bs); line (text16 ''Uri('' @ map ucast s @ text16 '')'') }"
| "node_text D_InfiniBand bs = need 48 bs (text16 ''Infiniband(0x'' @ hx (word4 bs 4) @ text16 '','' @
     guid_name (guid_of (drop 8 bs)) @ text16 '',0x'' @ hx (word8 bs 24) @ text16 '',0x'' @ hx (word8 bs 32) @
     text16 '',0x'' @ hx (word8 bs 40) @ text16 '')'')"
| "node_text D_Uart bs = need 19 bs (uart_text bs)"
| "node_text D_Sata bs = need 10 bs (text16 ''Sata(0x'' @ hx (half bs 4) @ text16 '',0x'' @ hx (half bs 6) @
     text16 '',0x'' @ hx (half bs 8) @ text16 '')'')"
| "node_text D_HardDrive bs = need 42 bs (text16 ''HD('' @ int_text (word4 bs 4) @ text16 '','' @
     (if bs ! 41 = 1 then text16 ''MBR,0x'' @ hex_digits 8 (unat (word4 bs 24))
      else if bs ! 41 = 2 then text16 ''GPT,'' @ guid_name (guid_of (drop 24 bs))
      else dec_text (unat (bs ! 41)) @ text16 '',0'') @ text16 '')'')"
| "node_text D_CDROM bs = need 8 bs (text16 ''CDROM(0x'' @ hx (word4 bs 4) @ text16 '')'')"
| "node_text D_FilePath bs = do { s \<leftarrow> str16_of (drop 4 bs); line s }"
| "node_text D_MediaProtocol bs = need 20 bs (guid_name (guid_of (drop 4 bs)))"
| "node_text D_BssBss bs = do {
     s \<leftarrow> str8_of (drop 8 bs);
     line (text16 ''Bss-'' @ text16 (bbs_type (half bs 4)) @ text16 ''('' @ map ucast s @ text16 '')'') }"
| "node_text D_EndInstance bs = Some (text16 '','')"
| "node_text D_Unknown bs = need (max 4 (4 + unat (half bs 2))) bs (unknown_text bs)"

subsection \<open>Arguments\<close>

lemma field_args:
  "unat (uint_arg False (ucast (b :: u8))) = unat b" "unat (uint_arg False (ucast (h :: u16))) = unat h"
  "unat (uint_arg False (ucast (w :: u32))) = unat w"
  "signed_text False (int_arg False (ucast b)) = dec_text (unat b)"
  "signed_text False (int_arg False (ucast h)) = dec_text (unat h)"
  "signed_text False (int_arg False (ucast w)) = int_text w"
proof -
  have b: "unat (ucast b :: u64) < 2 ^ 31" using unat_bounds(1) [of b] by (simp add: unat_ucast_widen)
  have h: "unat (ucast h :: u64) < 2 ^ 31" using unat_bounds(2) [of h] by (simp add: unat_ucast_widen)
  show "unat (uint_arg False (ucast b)) = unat b" "signed_text False (int_arg False (ucast b)) = dec_text (unat b)"
    using int_arg_small [OF b] by (simp_all add: unat_ucast_widen)
  show "unat (uint_arg False (ucast h)) = unat h" "signed_text False (int_arg False (ucast h)) = dec_text (unat h)"
    using int_arg_small [OF h] by (simp_all add: unat_ucast_widen)
  show "unat (uint_arg False (ucast w)) = unat w" by (rule uint_arg_32)
  have u: "(ucast (ucast w :: u64) :: u32) = w" by (rule bit_word_eqI) (simp add: bit_simps)
  have "- (2 ^ 63) \<le> sint w" "sint w < 2 ^ 63" using sint_ge [of w] sint_lt [of w] by simp_all
  then have "sint (scast w :: u64) = sint w" by (simp add: signed_scast_eq signed_take_bit_int_eq_self)
  then have "sint (int_arg False (ucast w)) = sint w" by (simp add: int_arg_def u)
  then show "signed_text False (int_arg False (ucast w)) = int_text w"
    by (simp add: signed_text_def int_text_def)
qed

lemma low_half:
  assumes "i + 8 \<le> length bs"
  shows "unat (uint_arg False (word8 bs i)) = unat (word4 bs i)"
proof -
  have "(ucast (word8 bs i) :: u32) = word4 bs i"
    by (rule bit_word_eqI) (use assms in \<open>auto simp: word8_def word4_def bit_ucast_iff bit_le_word\<close>)
  then show ?thesis by (simp add: uint_arg_def unat_ucast_widen)
qed

lemma one_line_fields [simp]: "one_line (hx w)" "one_line (int_text v)" "one_line (hex_digits k n)"
  by (simp_all add: hx_def int_text_def hex_digits_def)

subsection \<open>Reading the fields\<close>

lemma appends_field:
  assumes "node_in K m0 p bs"
  shows "i < length bs \<Longrightarrow> appends (pool_text L blocks room K m0 N R) n (f (bs ! i)) u \<Longrightarrow>
      appends (pool_text L blocks room K m0 N R) n (\<lambda>x. rd8 (now x) (p + i) \<bind> (\<lambda>v. f v x)) u"
    "i + 2 \<le> length bs \<Longrightarrow> appends (pool_text L blocks room K m0 N R) n (g (half bs i)) u \<Longrightarrow>
      appends (pool_text L blocks room K m0 N R) n (\<lambda>x. rd16 (now x) (p + i) \<bind> (\<lambda>v. g v x)) u"
    "i + 4 \<le> length bs \<Longrightarrow> appends (pool_text L blocks room K m0 N R) n (h (word4 bs i)) u \<Longrightarrow>
      appends (pool_text L blocks room K m0 N R) n (\<lambda>x. rd32 (now x) (p + i) \<bind> (\<lambda>v. h v x)) u"
    "i + 8 \<le> length bs \<Longrightarrow> appends (pool_text L blocks room K m0 N R) n (k (word8 bs i)) u \<Longrightarrow>
      appends (pool_text L blocks room K m0 N R) n (\<lambda>x. rd64 (now x) (p + i) \<bind> (\<lambda>v. k v x)) u"
    "3 < length bs \<Longrightarrow> appends (pool_text L blocks room K m0 N R) n (f (bs ! 0 AND 0x7f)) u \<Longrightarrow>
      appends (pool_text L blocks room K m0 N R) n (\<lambda>x. DevicePathType (now x) p \<bind> (\<lambda>v. f v x)) u"
    "3 < length bs \<Longrightarrow> appends (pool_text L blocks room K m0 N R) n (l (unat (half bs 2))) u \<Longrightarrow>
      appends (pool_text L blocks room K m0 N R) n (\<lambda>x. DevicePathNodeLength (now x) p \<bind> (\<lambda>v. l v x)) u"
    "i + j \<le> length bs \<Longrightarrow> appends (pool_text L blocks room K m0 N R) n (r (take j (drop i bs))) u \<Longrightarrow>
      appends (pool_text L blocks room K m0 N R) n (\<lambda>x. rd_bytes (now x) (p + i) j \<bind> (\<lambda>v. r v x)) u"
  by (rule appends_read, rule node_field [OF assms], assumption+)+

lemma needD: "need n bs t = Some u \<Longrightarrow> n \<le> length bs \<and> u = t"
  by (simp add: need_def split: if_splits)

lemma dec_text_numerals: "dec_text 2 = [50]" "dec_text 4 = [52]" "dec_text 8 = [56]" "dec_text 16 = [49, 54]"
  by (simp_all add: dec_text_def digits_of.simps dec_char_def)

lemma unparse_padded:
  "unparse_piece (padded C_x 2) = text16 ''%02x''" "unparse_piece (padded C_x 4) = text16 ''%04x''"
  "unparse_piece (padded C_x 8) = text16 ''%08x''"
  by (simp_all add: padded_def text16_def dec_text_numerals)

lemma padded_ok: "0 < k \<Longrightarrow> k < 2 ^ 64 \<Longrightarrow> text_piece_ok (padded C_x k)"
  by (simp add: padded_def)

lemma readers_padded: "readers (padded c k) = (if reading c then 2 else 0)"
  by (simp add: padded_def)

lemmas cat_ok_simps = cat_ok_def text_ok_def one_reader_def reading_def readers_padded readers_lits

lemmas fmt_simps = text16_def unparse_def cat_ok_simps dec_text_numerals unparse_padded padded_ok

lemmas cat_simps = fmt_simps text_render_simps text_render_numbers text_render_padded field_args low_half
  hx_def hex_digits_def

text \<open>The routine \<open>f\<close> of the table prints what \<open>node_text\<close> says.\<close>

definition dumps :: "'w plib \<Rightarrow> dump_fn \<Rightarrow> bool" where
  "dumps P f \<longleftrightarrow>
     (\<forall>blocks room K m0 N R p bs u. node_in K m0 p bs \<and> BelowBuffer P \<noteq> 13 \<and> node_text f bs = Some u \<longrightarrow>
        appends (pool_text (PLib P) blocks room K m0 N R) N (DumpNode f P p) u)"

lemma dumpsI:
  assumes "\<And>blocks room K m0 N R p bs u. node_in K m0 p bs \<Longrightarrow> BelowBuffer P \<noteq> 13 \<Longrightarrow> node_text f bs = Some u \<Longrightarrow>
      appends (pool_text (PLib P) blocks room K m0 N R) N (DumpNode f P p) u"
  shows "dumps P f"
  using assms by (auto simp: dumps_def)

lemma dumps_need:
  assumes "\<And>bs. node_text f bs = need (n bs) bs (t bs)"
    and "\<And>blocks room K m0 N R p bs. node_in K m0 p bs \<Longrightarrow> BelowBuffer P \<noteq> 13 \<Longrightarrow> n bs \<le> length bs \<Longrightarrow>
      appends (pool_text (PLib P) blocks room K m0 N R) N (DumpNode f P p) (t bs)"
  shows "dumps P f"
  by (rule dumpsI) (auto simp: assms(1) dest!: needD intro: assms(2))

subsection \<open>Nodes with one format\<close>

lemma dumps_Pci: "dumps P D_Pci"
  by (rule dumps_need [OF node_text.simps(1)], unfold DumpNode.simps DevPathPci_def [abs_def],
      (rule appends_field, assumption, simp)+,
      rule cat_appends [where pcs = "lits ''Pci(0x'' @ p_x # lits '',0x'' @ p_x # lits '')''"])
    (simp_all add: cat_simps)

lemma dumps_Pccard: "dumps P D_Pccard"
  by (rule dumps_need [OF node_text.simps(2)], unfold DumpNode.simps DevPathPccard_def [abs_def],
      (rule appends_field, assumption, simp)+,
      rule cat_appends [where pcs = "lits ''Pccard(0x'' @ p_x # lits '')''"])
    (simp_all add: cat_simps)

lemma dumps_MemMap: "dumps P D_MemMap"
  by (rule dumps_need [OF node_text.simps(3)], unfold DumpNode.simps DevPathMemMap_def [abs_def],
      (rule appends_field, assumption, simp)+,
      rule cat_appends [where pcs = "lits ''MemMap('' @ p_d # lits '',0x'' @ p_x # lits '',0x'' @ p_x # lits '')''"])
    (simp_all add: cat_simps)

lemma dumps_Controller: "dumps P D_Controller"
  by (rule dumps_need [OF node_text.simps(4)], unfold DumpNode.simps DevPathController_def [abs_def],
      (rule appends_field, assumption, simp)+,
      rule cat_appends [where pcs = "lits ''Ctrl('' @ p_d # lits '')''"])
    (simp_all add: cat_simps)

lemma dumps_Scsi: "dumps P D_Scsi"
  by (rule dumps_need [OF node_text.simps(8)], unfold DumpNode.simps DevPathScsi_def [abs_def],
      (rule appends_field, assumption, simp)+,
      rule cat_appends [where pcs = "lits ''Scsi('' @ p_d # lits '','' @ p_d # lits '')''"])
    (simp_all add: cat_simps)

lemma dumps_1394: "dumps P D_1394"
  by (rule dumps_need [OF node_text.simps(10)], unfold DumpNode.simps DevPath1394_def [abs_def],
      (rule appends_field, assumption, simp)+,
      rule cat_appends [where pcs = "lits ''I1394('' @ p_016lx # lits '')''"])
    (simp_all add: cat_simps)

lemma dumps_Usb: "dumps P D_Usb"
  by (rule dumps_need [OF node_text.simps(11)], unfold DumpNode.simps DevPathUsb_def [abs_def],
      (rule appends_field, assumption, simp)+,
      rule cat_appends [where pcs = "lits ''Usb(0x'' @ p_x # lits '',0x'' @ p_x # lits '')''"])
    (simp_all add: cat_simps)

lemma dumps_I2O: "dumps P D_I2O"
  by (rule dumps_need [OF node_text.simps(12)], unfold DumpNode.simps DevPathI2O_def [abs_def],
      (rule appends_field, assumption, simp)+,
      rule cat_appends [where pcs = "lits ''I2O(0x'' @ p_X # lits '')''"])
    (simp_all add: cat_simps)

lemma dumps_Sata: "dumps P D_Sata"
  by (rule dumps_need [OF node_text.simps(19)], unfold DumpNode.simps DevPathSata_def [abs_def],
      (rule appends_field, assumption, simp)+,
      rule cat_appends [where pcs = "lits ''Sata(0x'' @ p_x # lits '',0x'' @ p_x # lits '',0x'' @ p_x # lits '')''"])
    (simp_all add: cat_simps)

lemma dumps_CDROM: "dumps P D_CDROM"
  by (rule dumps_need [OF node_text.simps(21)], unfold DumpNode.simps DevPathCDROM_def [abs_def],
      (rule appends_field, assumption, simp)+,
      rule cat_appends [where pcs = "lits ''CDROM(0x'' @ p_x # lits '')''"])
    (simp_all add: cat_simps)

lemma dumps_Atapi: "dumps P D_Atapi"
proof (rule dumps_need [OF node_text.simps(7)], unfold DumpNode.simps DevPathAtapi_def [abs_def],
    (rule appends_field, assumption, simp)+)
  fix blocks room K m0 N R p bs
  let ?f = "''Ata('' @ (if bs ! 4 \<noteq> 0 then ''Secondary'' else ''Primary'') @ '','' @
    (if bs ! 5 \<noteq> 0 then ''Slave'' else ''Master'') @ '')''"
  assume "BelowBuffer P \<noteq> 13"
  then have "appends (pool_text (PLib P) blocks room K m0 N R) N (cat P ?f []) (text16 ?f)"
    by (rule cat_literal) (simp add: text16_def)
  then show "appends (pool_text (PLib P) blocks room K m0 N R) N (cat P ?f [])
    (text16 ''Ata('' @ text16 (if bs ! 4 \<noteq> 0 then ''Secondary'' else ''Primary'') @
     text16 '','' @ text16 (if bs ! 5 \<noteq> 0 then ''Slave'' else ''Master'') @ text16 '')'')"
    by (simp add: text16_def)
qed

lemma dumps_Fibre: "dumps P D_Fibre"
proof (rule dumps_need [OF node_text.simps(9)], unfold DumpNode.simps DevPathFibre_def [abs_def],
    (rule appends_field, assumption, simp)+)
  fix blocks room K m0 N R p bs
  assume "BelowBuffer P \<noteq> 13"
  then show "appends (pool_text (PLib P) blocks room K m0 N R) N
      (cat P (''Fibre'' @ (if bs ! 0 AND 0x7f = 3 then '''' else ''Ex'') @ ''(0x%016lx,0x%016lx)'') [word8 bs 8, word8 bs 16])
    (text16 (if bs ! 0 AND 0x7f = 3 then ''Fibre(0x'' else ''FibreEx(0x'') @
     hex_digits 16 (unat (word8 bs 8)) @ text16 '',0x'' @ hex_digits 16 (unat (word8 bs 16)) @ text16 '')'')"
    using cat_appends [of P "''Fibre(0x%016lx,0x%016lx)''" "lits ''Fibre(0x'' @ p_016lx # lits '',0x'' @ p_016lx # lits '')''"
        K m0 "[word8 bs 8, word8 bs 16]" "text16 ''Fibre(0x'' @ hex_digits 16 (unat (word8 bs 8)) @ text16 '',0x'' @
          hex_digits 16 (unat (word8 bs 16)) @ text16 '')''" blocks room N R]
      cat_appends [of P "''FibreEx(0x%016lx,0x%016lx)''" "lits ''FibreEx(0x'' @ p_016lx # lits '',0x'' @ p_016lx # lits '')''"
        K m0 "[word8 bs 8, word8 bs 16]" "text16 ''FibreEx(0x'' @ hex_digits 16 (unat (word8 bs 8)) @ text16 '',0x'' @
          hex_digits 16 (unat (word8 bs 16)) @ text16 '')''" blocks room N R]
    by (simp add: cat_simps)
qed

lemma dumps_EndInstance: "dumps P D_EndInstance"
proof (rule dumpsI)
  fix blocks room K m0 N R p bs u
  assume "BelowBuffer P \<noteq> 13" "node_text D_EndInstance bs = Some u"
  then have "BelowBuffer P \<noteq> 13" "u = text16 '','' " by simp_all
  then show "appends (pool_text (PLib P) blocks room K m0 N R) N (DumpNode D_EndInstance P p) u"
    unfolding DumpNode.simps DevPathEndInstance_def [abs_def]
    by (simp only:) (rule cat_literal, simp_all add: text16_def)
qed

text \<open>A routine that prints in several steps: the texts of the steps, in order.\<close>

lemma appends_then:
  assumes "appends good N f u" "appends good N g v" "w = u @ v"
  shows "appends good N (\<lambda>x. f x \<bind> g) w"
  using appends_seq [OF assms(1,2)] assms(3) by simp

lemma appends_if:
  "(b \<Longrightarrow> appends good N f u) \<Longrightarrow> (\<not> b \<Longrightarrow> appends good N g v) \<Longrightarrow>
   appends good N (\<lambda>x. if b then f x else g x) (if b then u else v)"
  by (simp add: appends_def)

lemma cat_number:
  assumes "BelowBuffer P \<noteq> 13"
  shows "appends (pool_text (PLib P) blocks room K m0 N R) N (cat P ''%02x'' [ucast (b :: u8)]) (hex_digits 2 (unat b))"
    "appends (pool_text (PLib P) blocks room K m0 N R) N (cat P ''%d'' [ucast (h :: u16)]) (dec_text (unat h))"
    "appends (pool_text (PLib P) blocks room K m0 N R) N (cat P '',%d'' [ucast b]) (text16 '','' @ dec_text (unat b))"
    "appends (pool_text (PLib P) blocks room K m0 N R) N (cat P '',%d'' [ucast (w :: u32)]) (text16 '','' @ int_text w)"
proof -
  show "appends (pool_text (PLib P) blocks room K m0 N R) N (cat P ''%02x'' [ucast b]) (hex_digits 2 (unat b))"
    by (rule cat_appends [OF assms, where pcs = "[padded C_x 2]"]) (simp_all add: cat_simps)
  show "appends (pool_text (PLib P) blocks room K m0 N R) N (cat P ''%d'' [ucast h]) (dec_text (unat h))"
    by (rule cat_appends [OF assms, where pcs = "[p_d]"]) (simp_all add: cat_simps)
  show "appends (pool_text (PLib P) blocks room K m0 N R) N (cat P '',%d'' [ucast b]) (text16 '','' @ dec_text (unat b))"
    "appends (pool_text (PLib P) blocks room K m0 N R) N (cat P '',%d'' [ucast w]) (text16 '','' @ int_text w)"
    by (rule cat_appends [OF assms, where pcs = "lits '','' @ [p_d]"], simp_all add: cat_simps)+
qed

subsection \<open>GUIDs and strings in a node\<close>

lemma hex_digits_length: "k \<le> 16 \<Longrightarrow> unat (w :: 'a::len word) < 2 ^ 64 \<Longrightarrow> length (hex_digits k (unat w)) \<le> 16"
  using length_hex_text [of "unat w" 16] by (simp add: hex_digits_def zero_padded_def)

lemma guid_text_length:
  assumes "guid_ok g"
  shows "length (guid_text g) < 2 ^ 64"
proof -
  obtain d1 d2 d3 d4 where g: "g = GUID d1 d2 d3 d4" "length d4 = 8" using assms by (cases g) auto
  then obtain a b c d e f h i where d4: "d4 = [a, b, c, d, e, f, h, i]"
    by (auto simp: numeral_eq_Suc length_Suc_conv)
  have s: "length (hex_digits 2 (unat x)) \<le> 16" for x :: u8
    using unat_bounds(1) [of x] by (intro hex_digits_length) simp_all
  have "length (hex_digits 8 (unat d1)) \<le> 16" "length (hex_digits 4 (unat d2)) \<le> 16" "length (hex_digits 4 (unat d3)) \<le> 16"
    using unat_bounds(3) [of d1] unat_bounds(2) [of d2] unat_bounds(2) [of d3] by (auto intro!: hex_digits_length)
  then show ?thesis using s [of a] s [of b] s [of c] s [of d] s [of e] s [of f] s [of h] s [of i]
    by (simp add: g(1) d4)
qed

lemma KnownGuids_lengths: "list_all (\<lambda>(g, name). length name < 100) KnownGuids"
  by code_simp

lemma guid_name_clean:
  assumes "guid_ok g"
  shows "0 \<notin> set (guid_name g)" "one_line (guid_name g)" "length (guid_name g) < 2 ^ 64"
proof -
  have "list_all (\<lambda>c. c \<notin> {0, 10, 13, 37}) (text16 n) \<and> length n < 100" if "map_of KnownGuids g = Some n" for n
    using that KnownGuids_ok KnownGuids_lengths map_of_SomeD [OF that] by (fastforce simp: list_all_iff)
  then show "0 \<notin> set (guid_name g)" "one_line (guid_name g)" "length (guid_name g) < 2 ^ 64"
    using guid_text_clean [of 0 g] guid_text_length [OF assms]
    by (auto simp: guid_name_def one_line_def list_all_iff text16_def guid_text_clean split: option.splits)
qed

lemma guid_of_bytes:
  assumes "16 \<le> length bs"
  shows "guid_ok (guid_of bs)" "guid_bytes (guid_of bs) = take 16 bs"
proof -
  show "guid_ok (guid_of bs)" using assms by (simp add: guid_of_def)
  have "take 16 bs = take 4 bs @ take 2 (drop 4 bs) @ take 2 (drop 6 bs) @ take 8 (drop 8 bs)"
    using take_add [of 4 12 bs] take_add [of 2 10 "drop 4 bs"] take_add [of 2 8 "drop 6 bs"] by simp
  moreover have "le_bytes 4 (word4 bs 0) = take 4 bs" "le_bytes 2 (half bs 4) = take 2 (drop 4 bs)"
    "le_bytes 2 (half bs 6) = take 2 (drop 6 bs)"
    unfolding word4_def half_def using assms by (simp_all add: le_bytes_le_word_width)
  ultimately show "guid_bytes (guid_of bs) = take 16 bs" by (simp add: guid_of_def)
qed

lemma guid_arg:
  assumes "node_in K m0 p bs" "same_on K m0 m" "i + 16 \<le> length bs" "BelowBuffer P \<noteq> 13"
  shows "text_render (converters_of P) m (p_g # pcs) (word_of_nat (p + i) # args) =
    map_option ((@) (guid_name (guid_of (drop i bs)))) (text_render (converters_of P) m pcs args)"
proof (rule text_render_g)
  note g = guid_of_bytes [of "drop i bs"]
  have b: "bytes_at m p bs" using assms(1,2) bytes_at_same_on unfolding node_in_def by blast
  have "p + i < 2 ^ 64" using assms(1,3) by (simp add: node_in_def)
  moreover have "bytes_at m (p + i) (guid_bytes (guid_of (drop i bs)))"
    using bytes_at_take_drop [OF b assms(3)] g assms(3) by (simp add: bytes_at_def)
  ultimately show "conv_guid (converters_of P) m (word_of_nat (p + i)) = Some (guid_name (guid_of (drop i bs)))"
    using GuidToString_names [OF assms(4) g(1)] assms(3) by (simp add: converters_of_def guid_name_def del: of_nat_add)
  show "0 \<notin> set (guid_name (guid_of (drop i bs)))" "length (guid_name (guid_of (drop i bs))) < 2 ^ 64"
    using guid_name_clean [OF g(1)] assms(3) by simp_all
qed

lemma guid_line: "i + 16 \<le> length bs \<Longrightarrow> one_line (guid_name (guid_of (drop i bs)))"
  by (intro guid_name_clean guid_of_bytes) simp

lemma str16_of_at:
  assumes "str16_of bs = Some t" "bytes_at m p bs"
  shows "str16_at m p t" "2 * length t < length bs"
proof -
  have "str16_at m p t \<and> 2 * length t < length bs"
    using assms
  proof (induction bs arbitrary: p t rule: str16_of.induct)
    case (1 a b bs)
    define c :: u16 where "c = le_word [a, b]"
    have c: "rd16 m p = Some c" "bytes_at m (p + 2) bs"
      using bytes_at_take_drop [OF "1.prems"(2), of 0 2] "1.prems"(2)
      by (simp_all add: rd16_def c_def bytes_at_Cons numeral_2_eq_2 add.assoc)
    show ?case
    proof (cases "c = 0")
      case True
      then show ?thesis using "1.prems"(1) c by (simp add: c_def)
    next
      case False
      then obtain u where "str16_of bs = Some u" "t = c # u" using "1.prems"(1) by (auto simp: c_def Let_def)
      then show ?thesis using "1.IH" [of c u "p + 2"] c False by (simp add: c_def)
    qed
  qed simp_all
  then show "str16_at m p t" "2 * length t < length bs" by simp_all
qed

lemma str8_of_at:
  assumes "str8_of bs = Some t" "bytes_at m p bs"
  shows "str8_at m p t" "length t < length bs"
proof -
  have "str8_at m p t \<and> length t < length bs"
    using assms by (induction bs arbitrary: p t) (auto simp: bytes_at_Cons split: if_splits)
  then show "str8_at m p t" "length t < length bs" by simp_all
qed

lemma string_arg:
  assumes "node_in K m0 p bs" "same_on K m0 m" "0 < i" "i \<le> length bs"
  shows "str16_of (drop i bs) = Some t \<Longrightarrow> text_render cv m (p_s # pcs) (word_of_nat (p + i) # args) =
      map_option ((@) t) (text_render cv m pcs args)"
    "str8_of (drop i bs) = Some s \<Longrightarrow> text_render cv m (p_a # pcs) (word_of_nat (p + i) # args) =
      map_option ((@) (map ucast s)) (text_render cv m pcs args)"
proof -
  have b: "bytes_at m p bs" using assms(1,2) bytes_at_same_on unfolding node_in_def by blast
  have "bs = take i bs @ drop i bs" "length (take i bs) = i" using assms(4) by simp_all
  then have b: "bytes_at m (p + i) (drop i bs)" using b by (metis bytes_at_append)
  have p: "unat (word_of_nat (p + i) :: u64) = p + i" "length bs < 2 ^ 64"
    using assms(1,4) by (simp_all add: node_in_def unat_word_of_nat del: of_nat_add)
  then have "(word_of_nat (p + i) :: u64) \<noteq> 0" using assms(3) by (metis add_is_0 less_numeral_extra(3) unsigned_0)
  then show "str16_of (drop i bs) = Some t \<Longrightarrow> text_render cv m (p_s # pcs) (word_of_nat (p + i) # args) =
      map_option ((@) t) (text_render cv m pcs args)"
    "str8_of (drop i bs) = Some s \<Longrightarrow> text_render cv m (p_a # pcs) (word_of_nat (p + i) # args) =
      map_option ((@) (map ucast s)) (text_render cv m pcs args)"
    using str16_of_at [OF _ b] str8_of_at [OF _ b] p(2)
    by (fastforce intro!: text_render_s text_render_a simp: p(1) simp del: of_nat_add)+
qed

lemma dumps_MediaProtocol: "dumps P D_MediaProtocol"
proof (rule dumps_need [OF node_text.simps(23)], unfold DumpNode.simps DevPathMediaProtocol_def [abs_def])
  fix blocks room K m0 N R p bs
  assume n: "node_in K m0 p bs" "BelowBuffer P \<noteq> 13" "20 \<le> length bs"
  have r: "text_render (converters_of P) m [p_g] [word_of_nat (p + 4)] = Some (guid_name (guid_of (drop 4 bs)))"
    if "same_on K m0 m" for m
    using guid_arg [OF n(1) that _ n(2), of 4 "[]" "[]"] n(3) by (simp add: text_render_simps del: of_nat_add)
  show "appends (pool_text (PLib P) blocks room K m0 N R) N (cat P ''%g'' [word_of_nat (p + 4)])
      (guid_name (guid_of (drop 4 bs)))"
    by (rule cat_appends [OF n(2), where pcs = "[p_g]"]) (use n(3) in \<open>simp_all add: fmt_simps r guid_line del: of_nat_add\<close>)
qed

lemma dumps_InfiniBand: "dumps P D_InfiniBand"
proof (rule dumps_need [OF node_text.simps(17)], unfold DumpNode.simps DevPathInfiniBand_def [abs_def],
    (rule appends_field, assumption, simp)+)
  fix blocks room K m0 N R p bs
  assume n: "node_in K m0 p bs" "BelowBuffer P \<noteq> 13" "48 \<le> length bs"
  let ?pcs = "lits ''Infiniband(0x'' @ p_x # lits '','' @ p_g # lits '',0x'' @ p_lx # lits '',0x'' @ p_lx #
    lits '',0x'' @ p_lx # lits '')''"
  let ?t = "text16 ''Infiniband(0x'' @ hx (word4 bs 4) @ text16 '','' @ guid_name (guid_of (drop 8 bs)) @
    text16 '',0x'' @ hx (word8 bs 24) @ text16 '',0x'' @ hx (word8 bs 32) @ text16 '',0x'' @ hx (word8 bs 40) @ text16 '')''"
  have r: "text_render (converters_of P) m ?pcs
      [ucast (word4 bs 4), word_of_nat (p + 8), word8 bs 24, word8 bs 32, word8 bs 40] = Some ?t" if "same_on K m0 m" for m
    using guid_arg [OF n(1) that _ n(2), of 8] n(3) by (simp add: cat_simps del: of_nat_add)
  show "appends (pool_text (PLib P) blocks room K m0 N R) N (cat P ''Infiniband(0x%x,%g,0x%lx,0x%lx,0x%lx)''
      [ucast (word4 bs 4), word_of_nat (p + 8), word8 bs 24, word8 bs 32, word8 bs 40]) ?t"
    by (rule cat_appends [OF n(2) _ _ _ r]) (use n(3) in \<open>simp_all add: fmt_simps guid_line del: of_nat_add\<close>)
qed

lemma dumps_HardDrive: "dumps P D_HardDrive"
proof (rule dumps_need [OF node_text.simps(20)], unfold DumpNode.simps DevPathHardDrive_def [abs_def],
    (rule appends_field, assumption, simp)+)
  fix blocks room K m0 N R p bs
  assume n: "node_in K m0 p bs" "BelowBuffer P \<noteq> 13" "42 \<le> length bs"
  let ?A = "appends (pool_text (PLib P) blocks room K m0 N R) N" and ?n = "int_text (word4 bs 4)"
  have mbr: "?A (\<lambda>x. rd32 (now x) (p + 24) \<bind> (\<lambda>Signature. cat P ''HD(%d,MBR,0x%08x)'' [ucast (word4 bs 4), ucast Signature] x))
      (text16 ''HD('' @ ?n @ text16 '',MBR,0x'' @ hex_digits 8 (unat (word4 bs 24)) @ text16 '')'')"
    by (rule appends_field [OF n(1)], use n(3) in simp,
        rule cat_appends [OF n(2), where pcs = "lits ''HD('' @ p_d # lits '',MBR,0x'' @ padded C_x 8 # lits '')''"])
      (simp_all add: cat_simps)
  have r: "text_render (converters_of P) m (lits ''HD('' @ p_d # lits '',GPT,'' @ p_g # lits '')'')
      [ucast (word4 bs 4), word_of_nat (p + 24)] =
      Some (text16 ''HD('' @ ?n @ text16 '',GPT,'' @ guid_name (guid_of (drop 24 bs)) @ text16 '')'')"
    if "same_on K m0 m" for m
    using guid_arg [OF n(1) that _ n(2), of 24] n(3) by (simp add: cat_simps del: of_nat_add)
  have gpt: "?A (cat P ''HD(%d,GPT,%g)'' [ucast (word4 bs 4), word_of_nat (p + 24)])
      (text16 ''HD('' @ ?n @ text16 '',GPT,'' @ guid_name (guid_of (drop 24 bs)) @ text16 '')'')"
    by (rule cat_appends [OF n(2) _ _ _ r]) (use n(3) in \<open>simp_all add: fmt_simps guid_line del: of_nat_add\<close>)
  have other: "?A (cat P ''HD(%d,%d,0)'' [ucast (word4 bs 4), ucast (bs ! 41)])
      (text16 ''HD('' @ ?n @ text16 '','' @ dec_text (unat (bs ! 41)) @ text16 '',0)'')"
    by (rule cat_appends [OF n(2), where pcs = "lits ''HD('' @ p_d # lits '','' @ p_d # lits '',0)''"])
      (simp_all add: cat_simps)
  show "?A (\<lambda>x. if bs ! 41 = 1
          then rd32 (now x) (p + 24) \<bind> (\<lambda>Signature. cat P ''HD(%d,MBR,0x%08x)'' [ucast (word4 bs 4), ucast Signature] x)
          else if bs ! 41 = 2 then cat P ''HD(%d,GPT,%g)'' [ucast (word4 bs 4), word_of_nat (p + 24)] x
          else cat P ''HD(%d,%d,0)'' [ucast (word4 bs 4), ucast (bs ! 41)] x)
      (text16 ''HD('' @ ?n @ text16 '','' @
       (if bs ! 41 = 1 then text16 ''MBR,0x'' @ hex_digits 8 (unat (word4 bs 24))
        else if bs ! 41 = 2 then text16 ''GPT,'' @ guid_name (guid_of (drop 24 bs))
        else dec_text (unat (bs ! 41)) @ text16 '',0'') @ text16 '')'')"
    using mbr gpt other by (simp add: text16_def del: of_nat_add)
qed

lemma lineD: "line t = Some u \<Longrightarrow> one_line t \<and> u = t"
  by (simp add: line_def split: if_splits)

lemma str_of_room: "str16_of (drop i bs) = Some t \<Longrightarrow> i \<le> length bs" "str8_of (drop i bs) = Some s \<Longrightarrow> i \<le> length bs"
  by (rule ccontr, simp)+

lemma dumps_strings: "dumps P D_Uri" "dumps P D_FilePath"
proof -
  show "dumps P D_Uri"
  proof (rule dumpsI)
    fix blocks room K m0 N R p bs u
    assume n: "node_in K m0 p bs" "BelowBuffer P \<noteq> 13" "node_text D_Uri bs = Some u"
    then obtain s where s: "str8_of (drop 4 bs) = Some s" "u = text16 ''Uri('' @ map ucast s @ text16 '')''" "one_line u"
      by (auto simp: bind_eq_Some_conv dest: lineD)
    have "text_render (converters_of P) m (lits ''Uri('' @ p_a # lits '')'') [word_of_nat (p + 4)] = Some u"
      if "same_on K m0 m" for m
      using string_arg(2) [OF n(1) that _ str_of_room(2) [OF s(1)] s(1)] s(2) by (simp add: cat_simps del: of_nat_add)
    then show "appends (pool_text (PLib P) blocks room K m0 N R) N (DumpNode D_Uri P p) u"
      unfolding DumpNode.simps DevPathUri_def [abs_def]
      by (rule cat_appends [OF n(2) _ _ _ _ s(3), rotated -1]) (simp_all add: fmt_simps)
  qed
  show "dumps P D_FilePath"
  proof (rule dumpsI)
    fix blocks room K m0 N R p bs u
    assume n: "node_in K m0 p bs" "BelowBuffer P \<noteq> 13" "node_text D_FilePath bs = Some u"
    then have s: "str16_of (drop 4 bs) = Some u" "one_line u"
      by (auto simp: bind_eq_Some_conv dest: lineD)
    have "text_render (converters_of P) m [p_s] [word_of_nat (p + 4)] = Some u" if "same_on K m0 m" for m
      using string_arg(1) [OF n(1) that _ str_of_room(1) [OF s(1)] s(1)] by (simp add: text_render_simps del: of_nat_add)
    then show "appends (pool_text (PLib P) blocks room K m0 N R) N (DumpNode D_FilePath P p) u"
      unfolding DumpNode.simps DevPathFilePath_def [abs_def]
      by (rule cat_appends [OF n(2) _ _ _ _ s(2), rotated -1]) (simp_all add: fmt_simps)
  qed
qed

lemma bbs_type_plain: "list_all (\<lambda>c. c \<notin> {0, 10, 13, 37}) (text16 (bbs_type t))"
  by (simp add: bbs_type_def text16_def)

lemma plain_literal:
  assumes "list_all (\<lambda>c. c \<notin> {0, 10, 13, 37}) (text16 s)"
  shows "0 \<notin> set (text16 s)" "one_line (text16 s)" "list_all text_piece_ok (lits s)"
  using assms by (auto simp: list_all_iff one_line_def)

lemma dumps_BssBss: "dumps P D_BssBss"
proof (rule dumpsI)
  fix blocks room K m0 N R p bs u
  assume n: "node_in K m0 p bs" "BelowBuffer P \<noteq> 13" "node_text D_BssBss bs = Some u"
  let ?b = "bbs_type (half bs 4)"
  obtain s where s: "str8_of (drop 8 bs) = Some s" "one_line u"
      "u = text16 ''Bss-'' @ text16 ?b @ text16 ''('' @ map ucast s @ text16 '')''"
    using n(3) by (auto simp: bind_eq_Some_conv dest: lineD)
  note l = str_of_room(2) [OF s(1)] and b = plain_literal [OF bbs_type_plain [of "half bs 4"]]
  let ?pcs = "lits ''Bss-'' @ lits ?b @ lits ''('' @ p_a # lits '')''"
  have r: "text_render (converters_of P) m ?pcs [word_of_nat (p + 8)] = Some u" if "same_on K m0 m" for m
    using string_arg(2) [OF n(1) that _ l s(1)] s(3)
    by (simp add: text_render_lit text_render_literal del: of_nat_add)
  have "text16 (''Bss-'' @ ?b @ ''(%a)'') = unparse ?pcs"
    using unparse_literal [of "text16 ?b"] by (simp add: text16_def unparse_def)
  moreover have "cat_ok ?pcs" using b(3) by (simp add: cat_ok_simps text16_def)
  moreover have "0 \<notin> set (text16 (''Bss-'' @ ?b @ ''(%a)''))" using b(1) by (simp add: text16_def)
  ultimately have "appends (pool_text (PLib P) blocks room K m0 N R) N
      (cat P (''Bss-'' @ ?b @ ''(%a)'') [word_of_nat (p + 8)]) u"
    using cat_appends [OF n(2) _ _ _ r s(2)] by blast
  then show "appends (pool_text (PLib P) blocks room K m0 N R) N (DumpNode D_BssBss P p) u"
    unfolding DumpNode.simps DevPathBssBss_def [abs_def] using l by (intro appends_field [OF n(1)]) simp_all
qed

subsection \<open>Nodes with several formats\<close>

text \<open>An optional number and the closing parenthesis.\<close>

lemma uid_appends:
  assumes "BelowBuffer P \<noteq> 13"
  shows "appends (pool_text (PLib P) blocks room K m0 N R) N
    (\<lambda>x. (if w \<noteq> 0 then cat P '',%d'' [ucast (w :: u32)] x else Some x) \<bind> cat P '')'' args) (acpi_uid w @ text16 '')'')"
proof (rule appends_seq)
  show "appends (pool_text (PLib P) blocks room K m0 N R) N
      (\<lambda>x. if w \<noteq> 0 then cat P '',%d'' [ucast w] x else Some x) (acpi_uid w)"
    unfolding acpi_uid_def by (rule appends_if) (rule cat_number [OF assms] appends_nothing)+
  show "appends (pool_text (PLib P) blocks room K m0 N R) N (cat P '')'' args) (text16 '')'')"
    by (rule cat_literal [OF assms]) (simp add: text16_def)
qed

lemma acpi_format_name:
  "acpi_format num = map_option (\<lambda>name. name @ ''(%d)'')
     (map_of [(0x301, ''Keyboard''), (0x401, ''ParallelPort''), (0x501, ''Serial''), (0x604, ''Floppy''),
              (0xa03, ''PciRoot''), (0xa08, ''PcieRoot'')] num)"
  by (simp add: acpi_format_def)

lemma dumps_Acpi: "dumps P D_Acpi"
proof (rule dumps_need [OF node_text.simps(6)], unfold DumpNode.simps DevPathAcpi_def [abs_def],
    (rule appends_field, assumption, simp)+)
  fix blocks room K m0 N R p bs
  assume n: "node_in K m0 p bs" "BelowBuffer P \<noteq> 13" "12 \<le> length bs"
  let ?A = "appends (pool_text (PLib P) blocks room K m0 N R) N"
  let ?names = "[(0x301 :: u32, ''Keyboard''), (0x401, ''ParallelPort''), (0x501, ''Serial''), (0x604, ''Floppy''),
      (0xa03, ''PciRoot''), (0xa08, ''PcieRoot'')]"
  define hid where "hid = word4 bs 4"
  define uid where "uid = word4 bs 8"
  define nm where "nm = map_of ?names (drop_bit 16 hid)"
  let ?tail = "\<lambda>args x. (if uid \<noteq> 0 then cat P '',%d'' [ucast uid] x else Some x) \<bind> cat P '')'' args"
  have plain: "list_all (\<lambda>(k, name). list_all (\<lambda>c. c \<notin> {0, 10, 13, 37}) (text16 name)) ?names" by code_simp
  have named: "?A (cat P (name @ ''(%d)'') [ucast uid]) (text16 name @ text16 ''('' @ int_text uid @ text16 '')'')"
    if "map_of ?names num = Some name" for num name
  proof -
    have "list_all (\<lambda>c. c \<notin> {0, 10, 13, 37}) (text16 name)"
      using plain map_of_SomeD [OF that] unfolding list_all_iff [of _ ?names] by blast
    note b = plain_literal [OF this]
    show ?thesis
      by (rule cat_appends [OF n(2), where pcs = "lits name @ lits ''('' @ p_d # lits '')''"])
        (use b unparse_literal [of "text16 name"] in
          \<open>simp_all add: text_render_lit text_render_simps text_render_numbers field_args cat_ok_simps\<close>,
         simp_all add: text16_def unparse_def text_render_simps)
  qed
  have pnp: "?A (\<lambda>x. cat P ''Acpi(PNP%04x'' [ucast (drop_bit 16 hid)] x \<bind> ?tail [])
      (text16 ''Acpi(PNP'' @ hex_digits 4 (unat (drop_bit 16 hid)) @ acpi_uid uid @ text16 '')'')"
    by (rule appends_then [OF cat_appends [OF n(2), where pcs = "lits ''Acpi(PNP'' @ [padded C_x 4]"] uid_appends [OF n(2)]])
      (simp_all add: cat_simps)
  have acpi: "?A (\<lambda>x. cat P ''Acpi(0x%X'' [ucast hid] x \<bind> ?tail [ucast hid, ucast uid])
      (text16 ''Acpi(0x'' @ hex_digits 8 (unat hid) @ acpi_uid uid @ text16 '')'')"
    by (rule appends_then [OF cat_appends [OF n(2), where pcs = "lits ''Acpi(0x'' @ [p_X]"] uid_appends [OF n(2)]])
      (simp_all add: cat_simps)
  show "?A (\<lambda>x. if word4 bs 4 AND PNP_EISA_ID_MASK = PNP_EISA_ID_CONST
      then case acpi_format (EISA_ID_TO_NUM (word4 bs 4)) of
             None \<Rightarrow> cat P ''Acpi(PNP%04x'' [ucast (EISA_ID_TO_NUM (word4 bs 4))] x \<bind>
               (\<lambda>x. (if word4 bs 8 \<noteq> 0 then cat P '',%d'' [ucast (word4 bs 8)] x else Some x) \<bind> cat P '')'' [])
           | Some f \<Rightarrow> cat P f [ucast (word4 bs 8)] x
      else cat P ''Acpi(0x%X'' [ucast (word4 bs 4)] x \<bind>
        (\<lambda>x. (if word4 bs 8 \<noteq> 0 then cat P '',%d'' [ucast (word4 bs 8)] x else Some x) \<bind>
          cat P '')'' [ucast (word4 bs 4), ucast (word4 bs 8)]))
      (acpi_text (word4 bs 4) (word4 bs 8))"
    unfolding hid_def [symmetric] uid_def [symmetric] acpi_format_name EISA_ID_TO_NUM_def PNP_EISA_ID_MASK_def
      PNP_EISA_ID_CONST_def acpi_text_def
      nm_def [symmetric]
    using pnp acpi named [of "drop_bit 16 hid", folded nm_def]
    by (cases "hid AND 0xffff = 0x41d0"; cases nm) simp_all
qed

lemma UnknownDevice_bytes:
  assumes "16 \<le> length bs"
  shows "take 16 bs = guid_bytes UnknownDevice \<longleftrightarrow> guid_of bs = UnknownDevice"
proof -
  have "guid_ok UnknownDevice" by code_simp
  then show ?thesis using guid_of_bytes [OF assms] guid_bytes_eq by metis
qed

lemma literal_if: "text16 (if b then s else t) = (if b then text16 s else text16 t)"
  by simp

lemma dumps_Vendor: "dumps P D_Vendor"
proof (rule dumps_need [OF node_text.simps(5)], unfold DumpNode.simps DevPathVendor_def [abs_def])
  fix blocks room K m0 N R p bs
  assume n: "node_in K m0 p bs" "BelowBuffer P \<noteq> 13"
    "(if guid_of (drop 4 bs) = UnknownDevice then 21 else 20) \<le> length bs"
  let ?A = "appends (pool_text (PLib P) blocks room K m0 N R) N" and ?g = "guid_of (drop 4 bs)"
  define t where "t = bs ! 0 AND 0x7f"
  define kind where "kind = (if t = 1 then ''VenHw('' else if t = 3 then ''VenMsg('' else if t = 4 then ''VenMedia(''
    else ''Ven?('')"
  have len: "20 \<le> length bs" "?g = UnknownDevice \<Longrightarrow> 21 \<le> length bs" using n(3) by (auto split: if_splits)
  have r: "text_render (converters_of P) m (lits kind @ [p_g]) [word_of_nat (p + 4)] = Some (text16 kind @ guid_name ?g)"
    if "same_on K m0 m" for m
    using guid_arg [OF n(1) that _ n(2), of 4 "[]" "[]"] len(1)
    by (simp add: text_render_lit text_render_simps del: of_nat_add)
  have b: "list_all (\<lambda>c. c \<notin> {0, 10, 13, 37}) (text16 kind)" by (simp add: kind_def text16_def)
  have f: "(if t = 1 then ''VenHw(%g'' else if t = 3 then ''VenMsg(%g'' else if t = 4 then ''VenMedia(%g'' else ''Ven?(%g'') =
    kind @ ''%g''" by (simp add: kind_def)
  have first: "?A (cat P (kind @ ''%g'') [word_of_nat (p + 4)]) (text16 kind @ guid_name ?g)"
    by (rule cat_appends [OF n(2) _ _ _ r])
      (use plain_literal [OF b] unparse_literal [of "text16 kind"] len(1) in
        \<open>simp_all add: cat_ok_simps guid_line\<close>, simp_all add: text16_def unparse_def)
  have letter: "?A (\<lambda>x. rd8 (now x) (p + 20) \<bind> (\<lambda>b. cat P '':%02x)'' [ucast b] x))
      (text16 '':'' @ hex_digits 2 (unat (bs ! 20)) @ text16 '')'')" if "?g = UnknownDevice"
    by (rule appends_field [OF n(1)], use len(2) [OF that] in simp,
        rule cat_appends [OF n(2), where pcs = "lits '':'' @ padded C_x 2 # lits '')''"]) (simp_all add: cat_simps)
  have closing: "?A (cat P '')'' []) (text16 '')'')" by (rule cat_literal [OF n(2)]) (simp add: text16_def)
  have "?A (\<lambda>x. if take 16 (drop 4 bs) = guid_bytes UnknownDevice
      then rd8 (now x) (p + 20) \<bind> (\<lambda>b. cat P '':%02x)'' [ucast b] x) else cat P '')'' [] x)
      ((if ?g = UnknownDevice then text16 '':'' @ hex_digits 2 (unat (bs ! 20)) else []) @ text16 '')'')"
    using letter closing UnknownDevice_bytes [of "drop 4 bs"] len(1) by (cases "?g = UnknownDevice") simp_all
  then have second: "?A (\<lambda>x. rd_bytes (now x) (p + 4) 16 \<bind> (\<lambda>Guid. if Guid = guid_bytes UnknownDevice
      then rd8 (now x) (p + 20) \<bind> (\<lambda>b. cat P '':%02x)'' [ucast b] x) else cat P '')'' [] x))
      ((if ?g = UnknownDevice then text16 '':'' @ hex_digits 2 (unat (bs ! 20)) else []) @ text16 '')'')"
    by (intro appends_field [OF n(1)]) (use len(1) in simp)
  have "?A (\<lambda>x. cat P (if t = 1 then ''VenHw(%g'' else if t = 3 then ''VenMsg(%g'' else if t = 4 then ''VenMedia(%g''
      else ''Ven?(%g'') [word_of_nat (p + 4)] x \<bind> (\<lambda>x. rd_bytes (now x) (p + 4) 16 \<bind> (\<lambda>Guid.
      if Guid = guid_bytes UnknownDevice
      then rd8 (now x) (p + 20) \<bind> (\<lambda>b. cat P '':%02x)'' [ucast b] x) else cat P '')'' [] x))) (vendor_text bs)"
    unfolding f
    by (rule appends_then [OF first second]) (simp add: vendor_text_def kind_def t_def Let_def)
  then show "?A (\<lambda>x. DevicePathType (now x) p \<bind> (\<lambda>t. cat P (if t = 1 then ''VenHw(%g'' else if t = 3 then ''VenMsg(%g''
      else if t = 4 then ''VenMedia(%g'' else ''Ven?(%g'') [word_of_nat (p + 4)] x \<bind> (\<lambda>x. rd_bytes (now x) (p + 4) 16 \<bind>
      (\<lambda>Guid. if Guid = guid_bytes UnknownDevice
      then rd8 (now x) (p + 20) \<bind> (\<lambda>b. cat P '':%02x)'' [ucast b] x) else cat P '')'' [] x)))) (vendor_text bs)"
    unfolding t_def by (intro appends_field [OF n(1)]) (use len(1) in simp)
qed

text \<open>Texts chosen by the value of a field.\<close>

lemma cat_choice:
  assumes "BelowBuffer P \<noteq> 13" "list_all (\<lambda>c. c \<notin> {0, 10, 13, 37}) (text16 f)" "t = text16 f"
  shows "appends (pool_text (PLib P) blocks room K m0 N R) N (cat P f args) t"
  unfolding assms(3) by (rule cat_literal [OF assms(1,2)])

lemma small_field:
  fixes b :: u8
  shows "b < 4 \<Longrightarrow> b \<in> {0, 1, 2, 3}" "b < 6 \<Longrightarrow> b \<in> {0, 1, 2, 3, 4, 5}"
proof -
  show "b \<in> {0, 1, 2, 3}" if "b < 4"
  proof -
    have "unat b < 4" using that by (simp add: word_less_nat_alt)
    then have "unat b \<in> {0, 1, 2, 3}" unfolding insert_iff empty_iff by arith
    then have "(word_of_nat (unat b) :: u8) \<in> word_of_nat ` {0, 1, 2, 3}" by (rule imageI)
    then show ?thesis by simp
  qed
  show "b \<in> {0, 1, 2, 3, 4, 5}" if "b < 6"
  proof -
    have "unat b < 6" using that by (simp add: word_less_nat_alt)
    then have "unat b \<in> {0, 1, 2, 3, 4, 5}" unfolding insert_iff empty_iff by arith
    then have "(word_of_nat (unat b) :: u8) \<in> word_of_nat ` {0, 1, 2, 3, 4, 5}" by (rule imageI)
    then show ?thesis by simp
  qed
qed

lemma uart_parity_text:
  "[ch (uart_parity b)] = text16 [if b < 6 then ''DNEOMS'' ! unat b else CHR ''x'']"
  "uart_parity b \<in> set ''DNEOMSx''"
proof -
  have "[ch (uart_parity b)] = text16 [if b < 6 then ''DNEOMS'' ! unat b else CHR ''x''] \<and> uart_parity b \<in> set ''DNEOMSx''"
  proof (cases "b < 6")
    case True
    then show ?thesis using small_field(2) [OF True] by (elim insertE) (simp_all add: uart_parity_def text16_def)
  next
    case False
    then have "b \<noteq> 0" "b \<noteq> 1" "b \<noteq> 2" "b \<noteq> 3" "b \<noteq> 4" "b \<noteq> 5" by auto
    then show ?thesis using False by (simp add: uart_parity_def text16_def)
  qed
  then show "[ch (uart_parity b)] = text16 [if b < 6 then ''DNEOMS'' ! unat b else CHR ''x'']"
    "uart_parity b \<in> set ''DNEOMSx''" by blast+
qed

lemma uart_stop_text:
  fixes b :: u8
  shows "(if b = 0 then ''D)'' else if b = 1 then ''1)'' else if b = 2 then ''1.5)'' else if b = 3 then ''2)'' else ''x)'') =
    (if b < 4 then [''D'', ''1'', ''1.5'', ''2''] ! unat b else ''x'') @ '')''"
proof (cases "b < 4")
  case True
  then show ?thesis using small_field(1) [OF True] by (elim insertE) simp_all
next
  case False
  then have "b \<noteq> 0" "b \<noteq> 1" "b \<noteq> 2" "b \<noteq> 3" by auto
  then show ?thesis using False by simp
qed

lemma dumps_Uart: "dumps P D_Uart"
proof (rule dumps_need [OF node_text.simps(18)], unfold DumpNode.simps DevPathUart_def [abs_def],
    (rule appends_field, assumption, simp)+)
  fix blocks room K m0 N R p bs
  assume n: "node_in K m0 p bs" "BelowBuffer P \<noteq> 13" "19 \<le> length bs"
  let ?A = "appends (pool_text (PLib P) blocks room K m0 N R) N" and ?c = "uart_parity (bs ! 17)"
  have baud: "?A (\<lambda>x. if word8 bs 8 = 0 then cat P ''Uart(DEFAULT,'' [] x else cat P ''Uart(%ld,'' [word8 bs 8] x)
    (if word8 bs 8 = 0 then text16 ''Uart(DEFAULT,'' else text16 ''Uart('' @ signed_text False (word8 bs 8) @ text16 '','')"
    by (rule appends_if, rule cat_literal [OF n(2)], simp add: text16_def,
        rule cat_appends [OF n(2), where pcs = "lits ''Uart('' @ p_ld # lits '',''"]) (simp_all add: cat_simps)
  have bits: "?A (\<lambda>x. if bs ! 16 = 0 then cat P ''DEFAULT,'' [] x else cat P ''%d,'' [ucast (bs ! 16)] x)
    (if bs ! 16 = 0 then text16 ''DEFAULT,'' else dec_text (unat (bs ! 16)) @ text16 '','')"
    by (rule appends_if, rule cat_literal [OF n(2)], simp add: text16_def,
        rule cat_appends [OF n(2), where pcs = "p_d # lits '',''"]) (simp_all add: cat_simps)
  have c: "ucast (word_of_nat (of_char ?c) :: u64) = ch ?c" "ch ?c \<notin> {0, 10, 13}"
    using uart_parity_text(2) [of "bs ! 17"] by (auto simp: of_char_def)
  have parity: "?A (cat P ''%c,'' [word_of_nat (of_char ?c)]) ([ch ?c] @ text16 '','')"
    by (rule cat_appends [OF n(2), where pcs = "p_c # lits '',''"])
      (use c in \<open>simp_all add: fmt_simps text_render_simps text_render_c\<close>)
  have stop: "?A (cat P (if bs ! 18 = 0 then ''D)'' else if bs ! 18 = 1 then ''1)'' else if bs ! 18 = 2 then ''1.5)''
            else if bs ! 18 = 3 then ''2)'' else ''x)'') [])
      (text16 ((if bs ! 18 < 4 then [''D'', ''1'', ''1.5'', ''2''] ! unat (bs ! 18) else ''x'') @ '')''))"
    unfolding uart_stop_text [symmetric] by (rule cat_literal [OF n(2)]) (simp add: text16_def)
  show "?A (\<lambda>x. (if word8 bs 8 = 0 then cat P ''Uart(DEFAULT,'' [] x else cat P ''Uart(%ld,'' [word8 bs 8] x) \<bind>
      (\<lambda>x. rd8 (now x) (p + 16) \<bind> (\<lambda>DataBits.
       (if DataBits = 0 then cat P ''DEFAULT,'' [] x else cat P ''%d,'' [ucast DataBits] x) \<bind>
      (\<lambda>x. cat P ''%c,'' [word_of_nat (of_char ?c)] x \<bind>
      (\<lambda>x. rd8 (now x) (p + 18) \<bind> (\<lambda>StopBits.
       cat P (if StopBits = 0 then ''D)'' else if StopBits = 1 then ''1)'' else if StopBits = 2 then ''1.5)''
            else if StopBits = 3 then ''2)'' else ''x)'') [] x)))))) (uart_text bs)"
    by (rule appends_then [OF baud], rule appends_field [OF n(1)], use n(3) in simp,
        rule appends_seq [OF bits], rule appends_seq [OF parity], rule appends_field [OF n(1)], use n(3) in simp, rule stop)
      (simp only: uart_text_def uart_parity_text(1), simp add: text16_def)
qed

text \<open>The two loops over bytes.\<close>

definition hex_bytes :: "u8 list \<Rightarrow> u16 list" where
  "hex_bytes bs = concat (map (\<lambda>b. hex_digits 2 (unat b)) bs)"

lemma take_drop_Suc: "i < length bs \<Longrightarrow> take (Suc n) (drop i bs) = bs ! i # take n (drop (Suc i) bs)"
  by (simp add: Cons_nth_drop_Suc [symmetric])

lemma MacAddr_loop_appends:
  assumes "node_in K m0 p bs" "BelowBuffer P \<noteq> 13"
  shows "4 + i + n \<le> length bs \<Longrightarrow>
    appends (pool_text (PLib P) blocks room K m0 N R) N (MacAddr_loop P p i n) (hex_bytes (take n (drop (4 + i) bs)))"
proof (induction n arbitrary: i)
  case 0
  have "MacAddr_loop P p i 0 = Some" by (rule ext) simp
  then show ?case by (simp add: hex_bytes_def appends_nothing)
next
  case (Suc n)
  let ?A = "appends (pool_text (PLib P) blocks room K m0 N R) N"
  have e: "MacAddr_loop P p i (Suc n) = (\<lambda>x. rd8 (now x) (p + (4 + i)) \<bind> (\<lambda>Addr. cat P ''%02x'' [ucast Addr] x \<bind>
      MacAddr_loop P p (i + 1) n))"
    by (rule ext) (simp add: add.assoc)
  have h: "hex_bytes (take (Suc n) (drop (4 + i) bs)) =
      hex_digits 2 (unat (bs ! (4 + i))) @ hex_bytes (take n (drop (4 + (i + 1)) bs))"
    using Suc.prems take_drop_Suc [of "4 + i" bs n] by (simp add: hex_bytes_def)
  show ?case unfolding e h
    by (rule appends_field [OF assms(1)], use Suc.prems in simp, rule appends_seq [OF cat_number(1) [OF assms(2)] Suc.IH])
      (use Suc.prems in simp)
qed

lemma NodeUnknown_loop_appends:
  assumes "node_in K m0 p bs" "BelowBuffer P \<noteq> 13"
  shows "i + n \<le> length bs \<Longrightarrow>
    appends (pool_text (PLib P) blocks room K m0 N R) N (NodeUnknown_loop P first (p + i) n)
      ((if first \<and> n \<noteq> 0 then text16 '',0x'' else []) @ hex_bytes (take n (drop i bs)))"
proof (induction n arbitrary: i first)
  case 0
  have "NodeUnknown_loop P first (p + i) 0 = Some" by (rule ext) simp
  then show ?case by (simp add: hex_bytes_def appends_nothing)
next
  case (Suc n)
  let ?A = "appends (pool_text (PLib P) blocks room K m0 N R) N"
  have e: "NodeUnknown_loop P first (p + i) (Suc n) = (\<lambda>x. (if first then cat P '',0x'' [] x else Some x) \<bind>
      (\<lambda>x. rd8 (now x) (p + i) \<bind> (\<lambda>v. cat P ''%02x'' [ucast v] x \<bind> NodeUnknown_loop P False (p + (i + 1)) n)))"
    by (rule ext) (simp add: add.assoc)
  have h: "hex_bytes (take (Suc n) (drop i bs)) = hex_digits 2 (unat (bs ! i)) @ hex_bytes (take n (drop (i + 1) bs))"
    using Suc.prems take_drop_Suc [of i bs n] by (simp add: hex_bytes_def)
  have lit: "?A (cat P '',0x'' []) (text16 '',0x'')" by (rule cat_literal [OF assms(2)]) (simp add: text16_def)
  have "?A (NodeUnknown_loop P False (p + (i + 1)) n) (hex_bytes (take n (drop (i + 1) bs)))"
    using Suc.IH [of "i + 1" False] Suc.prems by simp
  then have "?A (\<lambda>x. rd8 (now x) (p + i) \<bind> (\<lambda>v. cat P ''%02x'' [ucast v] x \<bind> NodeUnknown_loop P False (p + (i + 1)) n))
      (hex_bytes (take (Suc n) (drop i bs)))"
    unfolding h
    by (intro appends_field [OF assms(1)] appends_seq [OF cat_number(1) [OF assms(2)]]) (use Suc.prems in simp)
  then show ?case unfolding e
    by (rule appends_then [OF appends_if [OF lit appends_nothing]]) simp
qed

lemma uintn_sub: "k \<le> l \<Longrightarrow> l < 2 ^ 64 \<Longrightarrow> uintn (l + 2 ^ 64 - k) = l - k"
proof -
  assume "k \<le> l" "l < 2 ^ 64"
  moreover from this have "l + 2 ^ 64 - k = (l - k) + 2 ^ 64" by simp
  ultimately show ?thesis unfolding uintn_def by (simp only: mod_add_self2) simp
qed

lemma dumps_MacAddr: "dumps P D_MacAddr"
proof (rule dumpsI, unfold DumpNode.simps DevPathMacAddr_def [abs_def])
  fix blocks room K m0 N R p bs u
  assume n: "node_in K m0 p bs" "BelowBuffer P \<noteq> 13" "node_text D_MacAddr bs = Some u"
  let ?A = "appends (pool_text (PLib P) blocks room K m0 N R) N" and ?l = "unat (half bs 2)" and ?t = "bs ! 36"
  have len: "37 \<le> length bs" "4 + mac_size bs \<le> length bs" "u = mac_text bs" and five: "?t \<in> {0, 1} \<or> 5 \<le> half bs 2"
    using n(3) by (auto simp: need_def split: if_splits)
  have sz: "(if ?t = 1 \<or> ?t = 0 then 6 else uintn (uintn (?l + 2 ^ 64 - 4) + 2 ^ 64 - 1)) = mac_size bs"
  proof (cases "?t = 1 \<or> ?t = 0")
    case False
    then have l: "5 \<le> ?l" "?l < 65536" using five unat_bounds(2) [of "half bs 2"] by (auto simp: word_le_nat_alt)
    then have "4 \<le> ?l" "?l < 2 ^ 64" "1 \<le> ?l - 4" "?l - 4 < 2 ^ 64" by simp_all
    then have "uintn (?l + 2 ^ 64 - 4) = ?l - 4" "uintn (?l - 4 + 2 ^ 64 - 1) = ?l - 4 - 1"
      by (simp_all only: uintn_sub)
    then show ?thesis using False by (auto simp: mac_size_def)
  qed (auto simp: mac_size_def)
  have start: "?A (cat P ''Mac('' []) (text16 ''Mac('')" by (rule cat_literal [OF n(2)]) (simp add: text16_def)
  have loop: "?A (MacAddr_loop P p 0 (mac_size bs)) (hex_bytes (take (mac_size bs) (drop 4 bs)))"
    using MacAddr_loop_appends [OF n(1,2), of 0 "mac_size bs"] len(2) by simp
  have ty: "?A (\<lambda>x. if ?t \<noteq> 0 then cat P '',%d'' [ucast ?t] x else Some x)
      (if ?t \<noteq> 0 then text16 '','' @ dec_text (unat ?t) else [])"
    by (rule appends_if) (rule cat_number(3) [OF n(2)] appends_nothing)+
  have closing: "?A (cat P '')'' []) (text16 '')'')" by (rule cat_literal [OF n(2)]) (simp add: text16_def)
  show "?A (\<lambda>x. DevicePathNodeLength (now x) p \<bind> (\<lambda>HwAddressSize.
      let HwAddressSize = uintn (HwAddressSize + 2 ^ 64 - 4); HwAddressSize = uintn (HwAddressSize + 2 ^ 64 - 1)
      in rd8 (now x) (p + 36) \<bind> (\<lambda>IfType.
         let HwAddressSize = if IfType = 1 \<or> IfType = 0 then 6 else HwAddressSize
         in cat P ''Mac('' [] x \<bind> (\<lambda>x. MacAddr_loop P p 0 HwAddressSize x \<bind> (\<lambda>x. rd8 (now x) (p + 36) \<bind>
           (\<lambda>IfType. (if IfType \<noteq> 0 then cat P '',%d'' [ucast IfType] x else Some x) \<bind> cat P '')'' [])))))) u"
    unfolding Let_def
    by (rule appends_field [OF n(1)], use len(1) in simp, rule appends_field [OF n(1)], use len(1) in simp, unfold sz,
        rule appends_then [OF start appends_seq [OF loop]], rule appends_field [OF n(1)], use len(1) in simp,
        rule appends_seq [OF ty closing]) (simp add: len(3) mac_text_def hex_bytes_def)
qed

lemma dumps_Unknown: "dumps P D_Unknown"
proof (rule dumps_need [OF node_text.simps(26)], unfold DumpNode.simps DevPathNodeUnknown_def [abs_def])
  fix blocks room K m0 N R p bs
  assume n: "node_in K m0 p bs" "BelowBuffer P \<noteq> 13" "max 4 (4 + unat (half bs 2)) \<le> length bs"
  let ?A = "appends (pool_text (PLib P) blocks room K m0 N R) N" and ?l = "unat (half bs 2)"
  define t where "t = bs ! 0"
  define st where "st = bs ! 1"
  have b: "bytes_at (now x) p bs" if "pool_text (PLib P) blocks room K m0 N R s x" for s x
    using node_in_now [OF n(1) that] .
  have len: "3 < length bs" "1 < length bs" "0 < length bs" "4 + ?l \<le> length bs" using n(3) by auto
  have type_at: "rd8 (now x) p = Some t" "rd8 (now x) (p + 1) = Some st"
    if "pool_text (PLib P) blocks room K m0 N R s x" for s x
    using bytes_at_fields(1) [OF b [OF that], of 0] bytes_at_fields(1) [OF b [OF that], of 1] len
    by (simp_all add: t_def st_def)
  have name: "?A (cat P (name @ ''(%d'') [ucast st]) (text16 name @ text16 ''('' @ dec_text (unat st))"
    if "name \<in> {''HardwarePath'', ''AcpiPath'', ''Msg'', ''MediaPath'', ''BbsPath''}" for name
    by (rule cat_appends [OF n(2), where pcs = "lits name @ lits ''('' @ [p_d]"]) (use that in \<open>auto simp: cat_simps\<close>)
  have other: "?A (cat P ''Path(%d,%d'' [ucast t, ucast st])
      (text16 ''Path('' @ dec_text (unat t) @ text16 '','' @ dec_text (unat st))"
    by (rule cat_appends [OF n(2), where pcs = "lits ''Path('' @ p_d # lits '','' @ [p_d]"]) (simp_all add: cat_simps)
  let ?head = "(case map_of [(1, ''HardwarePath''), (2, ''AcpiPath''), (3, ''Msg''), (4, ''MediaPath''), (5, ''BbsPath'')] t of
      Some name \<Rightarrow> text16 name @ text16 ''('' | None \<Rightarrow> text16 ''Path('' @ dec_text (unat t) @ text16 '','') @ dec_text (unat st)"
  have head: "?A (\<lambda>x. if t = 1 then cat P ''HardwarePath(%d'' [ucast st] x
          else if t = 2 then cat P ''AcpiPath(%d'' [ucast st] x
          else if t = 3 then cat P ''Msg(%d'' [ucast st] x
          else if t = 4 then cat P ''MediaPath(%d'' [ucast st] x
          else if t = 5 then cat P ''BbsPath(%d'' [ucast st] x
          else cat P ''Path(%d,%d'' [ucast t, ucast st] x) ?head"
    using name [of "''HardwarePath''"] name [of "''AcpiPath''"] name [of "''Msg''"] name [of "''MediaPath''"]
      name [of "''BbsPath''"] other by simp
  have loop: "?A (NodeUnknown_loop P True (p + 4) ?l) ((if ?l \<noteq> 0 then text16 '',0x'' else []) @ hex_bytes (take ?l (drop 4 bs)))"
    using NodeUnknown_loop_appends [OF n(1,2), of 4 ?l blocks room N R True] len(4) by simp
  have closing: "?A (cat P '')'' []) (text16 '')'')" by (rule cat_literal [OF n(2)]) (simp add: text16_def)
  show "?A (\<lambda>x. rd8 (now x) p \<bind> (\<lambda>Type. rd8 (now x) (p + 1) \<bind> (\<lambda>SubType.
     (if Type = 1 then cat P ''HardwarePath(%d'' [ucast SubType] x
          else if Type = 2 then cat P ''AcpiPath(%d'' [ucast SubType] x
          else if Type = 3 then cat P ''Msg(%d'' [ucast SubType] x
          else if Type = 4 then cat P ''MediaPath(%d'' [ucast SubType] x
          else if Type = 5 then cat P ''BbsPath(%d'' [ucast SubType] x
          else cat P ''Path(%d,%d'' [ucast Type, ucast SubType] x) \<bind>
     (\<lambda>x. DevicePathNodeLength (now x) p \<bind> (\<lambda>l. NodeUnknown_loop P True (p + 4) l x \<bind> cat P '')'' []))))) (unknown_text bs)"
    by (rule appends_read [OF type_at(1)], assumption, rule appends_read [OF type_at(2)], assumption, rule appends_then [OF head],
        rule appends_field [OF n(1)], use len(1) in simp, rule appends_seq [OF loop closing])
      (simp add: unknown_text_def hex_bytes_def Let_def t_def st_def)
qed

subsection \<open>Internet addresses\<close>

lemma take_four: "i + 4 \<le> length bs \<Longrightarrow> take 4 (drop i bs) = [bs ! i, bs ! (i + 1), bs ! (i + 2), bs ! (i + 3)]"
  by (intro nth_equalityI) (auto simp: less_Suc_eq numeral_eq_Suc)

lemma IsNotNullIPv4_eq:
  assumes "bytes_at m p bs" "i + 4 \<le> length bs"
  shows "IsNotNullIPv4 m (p + i) = Some (take 4 (drop i bs) \<noteq> [0, 0, 0, 0])"
proof -
  have "rd8 m (p + i) = Some (bs ! i)" "rd8 m (p + i + 1) = Some (bs ! (i + 1))"
    "rd8 m (p + i + 2) = Some (bs ! (i + 2))" "rd8 m (p + i + 3) = Some (bs ! (i + 3))"
    using bytes_at_fields(1) [OF assms(1), of i] bytes_at_fields(1) [OF assms(1), of "i + 1"]
      bytes_at_fields(1) [OF assms(1), of "i + 2"] bytes_at_fields(1) [OF assms(1), of "i + 3"] assms(2)
    by (simp_all add: add.assoc)
  then show ?thesis unfolding take_four [OF assms(2)] by (simp add: IsNotNullIPv4_def or_eq_0_iff)
qed

lemma CatPrintIPv4_appends:
  assumes "node_in K m0 p bs" "BelowBuffer P \<noteq> 13" "i + 4 \<le> length bs"
  shows "appends (pool_text (PLib P) blocks room K m0 N R) N (CatPrintIPv4 P (p + i)) (ipv4_text (take 4 (drop i bs)))"
proof -
  let ?A = "appends (pool_text (PLib P) blocks room K m0 N R) N"
  obtain a b c d where a: "take 4 (drop i bs) = [a, b, c, d]" using take_four [OF assms(3)] by blast
  have "?A (cat P ''%d.%d.%d.%d'' (map ucast [a, b, c, d])) (ipv4_text [a, b, c, d])"
    by (rule cat_appends [OF assms(2), where pcs = "p_d # lits ''.'' @ p_d # lits ''.'' @ p_d # lits ''.'' @ [p_d]"])
      (simp_all add: cat_simps ipv4_text_def)
  then show ?thesis unfolding CatPrintIPv4_def [abs_def]
    by (intro appends_field [OF assms(1)] assms(3)) (simp add: a)
qed

lemma CatPrintNetworkProtocol_appends:
  assumes "BelowBuffer P \<noteq> 13"
  shows "appends (pool_text (PLib P) blocks room K m0 N R) N (CatPrintNetworkProtocol P n) (protocol_text n)"
  unfolding CatPrintNetworkProtocol_def [abs_def] protocol_text_def
  by (intro appends_if cat_literal cat_number(2) assms) (simp_all add: text16_def)

text \<open>The optional parts of the text of an IPv4 node.\<close>

definition ipv4_part :: "u8 list \<Rightarrow> nat \<Rightarrow> u16 list" where
  "ipv4_part bs i = text16 '','' @ ipv4_text (take 4 (drop i bs))"

definition ipv4_set :: "u8 list \<Rightarrow> nat \<Rightarrow> bool" where
  "ipv4_set bs i \<longleftrightarrow> take 4 (drop i bs) \<noteq> [0, 0, 0, 0]"

lemma length_28: "unat (w :: u16) = 28 \<longleftrightarrow> w = 28"
  using unsigned_word_eqI [of w 28] by auto

lemma IPv4_show_eq:
  assumes "node_in K m0 p bs" "pool_text L blocks room K m0 N R t x" "(if half bs 2 = 28 then 27 else 19) \<le> length bs"
  shows "IPv4_show (now x) p = Some (ipv4_set bs 4 \<or> half bs 2 = 28 \<and> (ipv4_set bs 19 \<or> ipv4_set bs 23))"
proof -
  note b = node_in_now [OF assms(1,2)]
  have l: "19 \<le> length bs" "half bs 2 = 28 \<Longrightarrow> 27 \<le> length bs" using assms(3) by (auto split: if_splits)
  have "DevicePathNodeLength (now x) p = Some (unat (half bs 2))" using node_field(8) [OF assms(1,2)] l(1) by simp
  moreover have "IsNotNullIPv4 (now x) (p + 4) = Some (ipv4_set bs 4)"
    using IsNotNullIPv4_eq [OF b, of 4] l(1) by (simp add: ipv4_set_def)
  moreover have "IsNotNullIPv4 (now x) (p + 19) = Some (ipv4_set bs 19)" "IsNotNullIPv4 (now x) (p + 23) = Some (ipv4_set bs 23)"
    if "half bs 2 = 28" using IsNotNullIPv4_eq [OF b, of 19] IsNotNullIPv4_eq [OF b, of 23] l(2) [OF that] by (simp_all add: ipv4_set_def)
  ultimately show ?thesis by (cases "half bs 2 = 28") (auto simp: IPv4_show_def length_28)
qed

lemma IPv4_gateway_appends:
  assumes n: "node_in K m0 p bs" "BelowBuffer P \<noteq> 13" "(if half bs 2 = 28 then 27 else 19) \<le> length bs"
  shows "appends (pool_text (PLib P) blocks room K m0 N R) N (IPv4_gateway P p)
    (if half bs 2 = 28 \<and> (ipv4_set bs 19 \<or> ipv4_set bs 23)
     then ipv4_part bs 19 @ (if ipv4_set bs 23 then ipv4_part bs 23 else []) else [])"
proof -
  let ?good = "pool_text (PLib P) blocks room K m0 N R"
  let ?A = "appends ?good N"
  have len: "3 < length bs" using n(3) by (auto split: if_splits)
  have comma: "?A (cat P '','' []) (text16 '','')" by (rule cat_literal [OF n(2)]) (simp add: text16_def)
  show ?thesis
  proof (cases "half bs 2 = 28")
    case True
    then have l: "27 \<le> length bs" using n(3) by simp
    have null: "IsNotNullIPv4 (now x) (p + i) = Some (ipv4_set bs i)" if "?good s x" "i \<in> {19, 23}" for s x i
      using IsNotNullIPv4_eq [OF node_in_now [OF n(1) that(1)], of i] l that(2) by (auto simp: ipv4_set_def)
    have part: "?A (\<lambda>x. cat P '','' [] x \<bind> CatPrintIPv4 P (p + i)) (ipv4_part bs i)" if "i \<in> {19, 23}" for i
      unfolding ipv4_part_def by (rule appends_seq [OF comma CatPrintIPv4_appends [OF n(1,2)]]) (use l that in auto)
    have masked: "?A (\<lambda>x. if ipv4_set bs 23 then cat P '','' [] x \<bind> CatPrintIPv4 P (p + 23) else Some x)
        (if ipv4_set bs 23 then ipv4_part bs 23 else [])"
      by (intro appends_if part appends_nothing) simp
    have "?A (\<lambda>x. if ipv4_set bs 19 \<or> ipv4_set bs 23 then cat P '','' [] x \<bind> (\<lambda>x. CatPrintIPv4 P (p + 19) x \<bind>
          (\<lambda>x. IsNotNullIPv4 (now x) (p + 23) \<bind> (\<lambda>dmask.
          if dmask then cat P '','' [] x \<bind> CatPrintIPv4 P (p + 23) else Some x))) else Some x)
        (if ipv4_set bs 19 \<or> ipv4_set bs 23 then ipv4_part bs 19 @ (if ipv4_set bs 23 then ipv4_part bs 23 else []) else [])"
      unfolding ipv4_part_def [of bs 19] append_assoc
      by (intro appends_if appends_nothing appends_seq [OF comma] appends_seq [OF CatPrintIPv4_appends [OF n(1,2)]]
          appends_read [OF null] masked) (use l in simp_all)
    then have "?A (\<lambda>x. Some (unat (half bs 2)) \<bind> (\<lambda>l. if l = 28 then IsNotNullIPv4 (now x) (p + 19) \<bind> (\<lambda>gateway.
          IsNotNullIPv4 (now x) (p + 23) \<bind> (\<lambda>dmask. if gateway \<or> dmask then cat P '','' [] x \<bind> (\<lambda>x.
          CatPrintIPv4 P (p + 19) x \<bind> (\<lambda>x. IsNotNullIPv4 (now x) (p + 23) \<bind> (\<lambda>dmask.
          if dmask then cat P '','' [] x \<bind> CatPrintIPv4 P (p + 23) else Some x))) else Some x)) else Some x))
        (if ipv4_set bs 19 \<or> ipv4_set bs 23 then ipv4_part bs 19 @ (if ipv4_set bs 23 then ipv4_part bs 23 else []) else [])"
      unfolding bind.bind_lunit length_28 True simp_thms if_True
      by (intro appends_read [OF null]) simp_all
    then show ?thesis unfolding IPv4_gateway_def [abs_def] using True
      by (intro appends_field [OF n(1)] len) simp
  next
    case False
    then show ?thesis unfolding IPv4_gateway_def [abs_def]
      by (intro appends_field [OF n(1)] len) (simp add: length_28 appends_nothing)
  qed
qed

lemma dumps_IPv4: "dumps P D_IPv4"
proof (rule dumps_need [OF node_text.simps(14)], unfold DumpNode.simps)
  fix blocks room K m0 N R p bs
  assume n: "node_in K m0 p bs" "BelowBuffer P \<noteq> 13" "(if half bs 2 = 28 then 27 else 19) \<le> length bs"
  let ?A = "appends (pool_text (PLib P) blocks room K m0 N R) N"
  have len: "19 \<le> length bs" using n(3) by (auto split: if_splits)
  have lit: "?A (cat P f []) (text16 f)" if "f \<in> {''IPv4('', '','', '')'', '',Static'', '',DHCP''}" for f
    by (rule cat_literal [OF n(2)]) (use that in \<open>auto simp: text16_def\<close>)
  let ?v2 = "if half bs 2 = 28 \<and> (ipv4_set bs 19 \<or> ipv4_set bs 23)
    then ipv4_part bs 19 @ (if ipv4_set bs 23 then ipv4_part bs 23 else []) else []"
  have shown: "?A (\<lambda>x. if s then cat P '','' [] x \<bind> (\<lambda>x. CatPrintIPv4 P (p + 4) x \<bind> IPv4_gateway P p) else Some x)
      (if s then ipv4_part bs 4 @ ?v2 else [])" for s
    unfolding ipv4_part_def [of bs 4] append_assoc
    by (intro appends_if appends_nothing appends_seq [OF lit] appends_seq [OF CatPrintIPv4_appends [OF n(1,2)]]
        IPv4_gateway_appends [OF n]) (use len in simp_all)
  let ?s = "ipv4_set bs 4 \<or> half bs 2 = 28 \<and> (ipv4_set bs 19 \<or> ipv4_set bs 23)"
  have "ipv4_node bs = text16 ''IPv4('' @ ipv4_text (take 4 (drop 8 bs)) @ text16 '','' @ protocol_text (half bs 16) @
      text16 (if bs ! 18 \<noteq> 0 then '',Static'' else '',DHCP'') @ (if ?s then ipv4_part bs 4 @ ?v2 else []) @ text16 '')''"
    unfolding ipv4_node_def Let_def ipv4_set_def [symmetric] ipv4_part_def [symmetric] by auto
  moreover have "?A (DevPathIPv4 P p) \<dots>"
    unfolding DevPathIPv4_def [abs_def]
    by (rule appends_seq [OF lit], simp, rule appends_seq [OF CatPrintIPv4_appends [OF n(1,2)]], use len in simp,
        rule appends_seq [OF lit], simp, rule appends_field [OF n(1)], use len in simp,
        rule appends_seq [OF CatPrintNetworkProtocol_appends [OF n(2)]], rule appends_field [OF n(1)], use len in simp,
        rule appends_seq [OF lit], simp, rule appends_read, erule IPv4_show_eq [OF n(1) _ n(3)],
        rule appends_seq [OF shown lit], simp)
  ultimately show "?A (DevPathIPv4 P p) (ipv4_node bs)" by simp
qed

lemma CatPrintIPv6_ADD_value: "unat (CatPrintIPv6_ADD x y) = 256 * unat x + unat y"
proof -
  have "(push_bit 8 (ucast x) OR ucast y :: u32) = push_bit 8 (ucast x) + ucast y"
    by (rule disjunctive_add_eq_or [symmetric], rule bit_word_eqI) (auto simp: bit_simps dest: bit_imp_le_length)
  also have "\<dots> = word_of_nat (256 * unat x + unat y)"
    by (simp add: push_bit_eq_mult)
  finally have "CatPrintIPv6_ADD x y = word_of_nat (256 * unat x + unat y)" by (simp add: CatPrintIPv6_ADD_def)
  moreover have "256 * unat x + unat y < 4294967296" using unat_bounds(1) [of x] unat_bounds(1) [of y] by simp
  ultimately show ?thesis by (simp only: unat_word_of_nat)
qed

lemma CatPrintIPv6_appends:
  assumes "node_in K m0 p bs" "BelowBuffer P \<noteq> 13" "i + 16 \<le> length bs"
  shows "appends (pool_text (PLib P) blocks room K m0 N R) N (CatPrintIPv6 P (p + i)) (ipv6_text (take 16 (drop i bs)))"
proof -
  let ?A = "appends (pool_text (PLib P) blocks room K m0 N R) N"
  define a where "a = take 16 (drop i bs)"
  let ?args = "map (\<lambda>i. ucast (CatPrintIPv6_ADD (a ! (2 * i)) (a ! (2 * i + 1)))) [0, 1, 2, 3, 4, 5, 6, 7] :: u64 list"
  have "?A (cat P ''%x:%x:%x:%x:%x:%x:%x:%x'' ?args) (ipv6_text a)"
    by (rule cat_appends [OF assms(2), where pcs = "p_x # lits '':'' @ p_x # lits '':'' @ p_x # lits '':'' @ p_x # lits '':'' @
        p_x # lits '':'' @ p_x # lits '':'' @ p_x # lits '':'' @ [p_x]"])
      (simp_all add: cat_simps ipv6_text_def CatPrintIPv6_ADD_value)
  then show ?thesis unfolding CatPrintIPv6_def [abs_def] a_def [symmetric]
    by (intro appends_field [OF assms(1)] assms(3)) (simp only: a_def [symmetric])
qed

definition ipv6_origin :: "u8 \<Rightarrow> string" where
  "ipv6_origin b = (if b = 0 then '',Static,'' else if b = 1 then '',StatelessAutoConfigure,'' else '',StatefulAutoConfigure,'')"

text \<open>
  The long form of an IPv6 node: where the prefix length belongs, the text has the address at which
  the prefix length is stored, as a signed 32-bit number.
\<close>

lemma DevPathIPv6_appends:
  assumes "node_in K m0 p bs" "BelowBuffer P \<noteq> 13" "(if half bs 2 = 60 then 60 else 43) \<le> length bs"
  shows "appends (pool_text (PLib P) blocks room K m0 N R) N (DevPathIPv6 P p)
    (text16 ''IPv6('' @ ipv6_text (take 16 (drop 20 bs)) @ text16 '','' @ protocol_text (half bs 40) @
     text16 (ipv6_origin (bs ! 42)) @ ipv6_text (take 16 (drop 4 bs)) @
     (if half bs 2 = 60 then text16 '','' @ ipv6_text (take 16 (drop 44 bs)) @ text16 '','' @
        int_text (word_of_nat (p + 43)) else []) @ text16 '')'')"
proof -
  let ?A = "appends (pool_text (PLib P) blocks room K m0 N R) N"
  have len: "43 \<le> length bs" "half bs 2 = 60 \<Longrightarrow> 60 \<le> length bs" using assms(3) by (auto split: if_splits)
  have l60: "unat (half bs 2) = 60 \<longleftrightarrow> half bs 2 = 60" using unsigned_word_eqI [of "half bs 2" 60] by auto
  have lit: "?A (cat P f []) (text16 f)" if "f \<in> {''IPv6('', '','', '')''}" for f
    by (rule cat_literal [OF assms(2)]) (use that in \<open>auto simp: text16_def\<close>)
  have origin: "?A (cat P (if b \<noteq> 0 then (if b = 1 then '',StatelessAutoConfigure,'' else '',StatefulAutoConfigure,'')
      else '',Static,'') []) (text16 (ipv6_origin b))" for b :: u8
    by (rule cat_choice [OF assms(2)]) (simp_all add: ipv6_origin_def text16_def)
  have prefix: "?A (cat P ''%d'' [word_of_nat (p + 43)]) (int_text (word_of_nat (p + 43)))"
  proof (rule cat_appends [OF assms(2), where pcs = "[p_d]"])
    have "int_arg False (word_of_nat (p + 43)) = int_arg False (ucast (word_of_nat (p + 43) :: u32))"
    proof -
      have "(ucast (word_of_nat (p + 43) :: u64) :: u32) = ucast (ucast (word_of_nat (p + 43) :: u32) :: u64)"
        by (rule bit_word_eqI) (simp add: bit_simps del: of_nat_add)
      then show ?thesis unfolding int_arg_def if_False by (rule arg_cong)
    qed
    then have "signed_text False (int_arg False (word_of_nat (p + 43))) = int_text (word_of_nat (p + 43))"
      by (simp only: field_args)
    then show "text_render (converters_of P) m [p_d] [word_of_nat (p + 43)] = Some (int_text (word_of_nat (p + 43)))" for m
      by (simp add: text_render_numbers text_render_simps del: of_nat_add)
  qed (simp_all add: fmt_simps)
  have long: "?A (\<lambda>x. if half bs 2 = 60 then cat P '','' [] x \<bind> (\<lambda>x. CatPrintIPv6 P (p + 44) x \<bind>
        (\<lambda>x. cat P '','' [] x \<bind> cat P ''%d'' [word_of_nat (p + 43)])) else Some x)
      (if half bs 2 = 60 then text16 '','' @ ipv6_text (take 16 (drop 44 bs)) @ text16 '','' @
        int_text (word_of_nat (p + 43)) else [])"
    by (intro appends_if appends_nothing appends_seq [OF lit] appends_seq [OF CatPrintIPv6_appends [OF assms(1,2)]] prefix)
      (use len(2) in simp_all)
  show ?thesis
    unfolding DevPathIPv6_def [abs_def]
    by (rule appends_seq [OF lit], simp, rule appends_seq [OF CatPrintIPv6_appends [OF assms(1,2)]], use len(1) in simp,
       rule appends_seq [OF lit], simp, rule appends_field [OF assms(1)], use len(1) in simp,
       rule appends_seq [OF CatPrintNetworkProtocol_appends [OF assms(2)]], rule appends_field [OF assms(1)],
       use len(1) in simp, rule appends_seq [OF origin], rule appends_seq [OF CatPrintIPv6_appends [OF assms(1,2)]],
       use len(1) in simp, rule appends_field [OF assms(1)], use len(1) in simp, unfold l60,
       rule appends_seq [OF long lit], simp)
qed

lemma dumps_IPv6: "dumps P D_IPv6"
proof (rule dumpsI)
  fix blocks room K m0 N R p bs u
  assume n: "node_in K m0 p bs" "BelowBuffer P \<noteq> 13" "node_text D_IPv6 bs = Some u"
  then have h: "half bs 2 \<noteq> 60" "43 \<le> length bs" by (auto simp: need_def split: if_splits)
  moreover from h n(3) have "u = text16 ''IPv6('' @ ipv6_text (take 16 (drop 20 bs)) @ text16 '','' @
      protocol_text (half bs 40) @ text16 (ipv6_origin (bs ! 42)) @ ipv6_text (take 16 (drop 4 bs)) @ [] @ text16 '')''"
    by (simp add: need_def ipv6_origin_def)
  ultimately show "appends (pool_text (PLib P) blocks room K m0 N R) N (DumpNode D_IPv6 P p) u"
    using DevPathIPv6_appends [OF n(1,2)] by simp
qed

lemma dumps_all: "dumps P f"
  by (cases f) (simp_all add: dumps_Pci dumps_Pccard dumps_MemMap dumps_Vendor dumps_Controller dumps_Acpi dumps_Atapi
      dumps_Scsi dumps_Fibre dumps_1394 dumps_Usb dumps_I2O dumps_MacAddr dumps_IPv4 dumps_IPv6 dumps_strings
      dumps_InfiniBand dumps_Uart dumps_Sata dumps_HardDrive dumps_CDROM dumps_MediaProtocol dumps_BssBss
      dumps_EndInstance dumps_Unknown)

end
