(* ===== verification/DevPathStr.thy ===== *)
theory DevPathStr
  imports DevPathPrint
begin

text \<open>
  lib/dpath.c: \<open>DevicePathToStr\<close> walks the unpacked path and prints its nodes. \<open>walk_text\<close> is the text
  of a path: the texts of its nodes with \<open>/\<close> between them and \<open>,\<close> for the end of an instance.
\<close>

subsection \<open>The text of a path\<close>

definition node_dump :: "dp_node \<Rightarrow> dump_fn" where
  "node_dump nd = (case nd of (t, st, d) \<Rightarrow> find_dump (t AND 0x7f) st)"

text \<open>\<open>begun\<close>: something was printed before.\<close>

fun walk_text :: "bool \<Rightarrow> dp_node list \<Rightarrow> u16 list option" where
  "walk_text begun [] = None"
| "walk_text begun (nd # ns) =
     (if final_node nd then Some []
      else do {
        u \<leftarrow> node_text (node_dump nd) (unpack_nodes (nd # ns));
        v \<leftarrow> walk_text (begun \<or> u \<noteq> []) ns;
        Some ((if begun \<and> node_dump nd \<noteq> D_EndInstance then text16 ''/'' else []) @ u @ v) })"

definition path_text :: "dp_node list list \<Rightarrow> u16 list option" where
  "path_text is = walk_text False (flat_path is)"

subsection \<open>The walk\<close>

lemma node_in_tail:
  assumes "node_in K m0 p (as @ bs)"
  shows "node_in K m0 (p + length as) bs"
  using assms in_use_mono [of K p "length (as @ bs)" "p + length as" "length bs"]
  by (simp add: node_in_def bytes_at_append)

lemma unpack_header:
  assumes "unpackable (t, st, d)" "bytes_at m p (unpack_node (t, st, d) @ rest)"
  shows "DevicePathType m p = Some (t AND 0x7f)" "DevicePathSubType m p = Some st"
    "IsDevicePathEnd m p = Some (final_node (t, st, d))"
    "NextDevicePathNode m p = Some (p + length (unpack_node (t, st, d)))"
proof -
  let ?n = "4 + length d" let ?w = "word_of_nat (?n + ALIGN_SIZE ?n) :: u16"
  have "(?n + ALIGN_SIZE ?n) mod 4 = 0" "ALIGN_SIZE ?n < 4" by (rule ALIGN_SIZE_facts)+
  moreover have "?n \<le> 65532" using assms(1) by (simp add: unpackable_def)
  ultimately have "?n + ALIGN_SIZE ?n < 65536" by presburger
  then have w: "unat ?w = length (unpack_node (t, st, d))"
    by (simp add: unpack_node_def length_unpack_bytes unat_word_of_nat del: of_nat_add)
  have "(t OR 0x80) AND 0x7f = t AND 0x7f" by (simp add: bit.conj_disj_distrib2)
  moreover have "bytes_at m p ([t OR 0x80, st] @ le_bytes 2 ?w @ (d @ replicate (ALIGN_SIZE ?n) 0 @ rest))"
    using assms(2) by (simp add: unpack_node_def unpack_bytes_def Let_def)
  note h = bytes_at_header [OF this]
  ultimately show t: "DevicePathType m p = Some (t AND 0x7f)" "DevicePathSubType m p = Some st"
    "NextDevicePathNode m p = Some (p + length (unpack_node (t, st, d)))"
    using h(1-3) by (simp_all add: w NextDevicePathNode_def del: of_nat_add)
  then show "IsDevicePathEnd m p = Some (final_node (t, st, d))"
    by (simp add: IsDevicePathEnd_def IsDevicePathEndType_def final_node_def)
qed

lemma DevicePathToStr_loop_prints:
  assumes "BelowBuffer P \<noteq> 13"
  shows "terminated ns \<Longrightarrow> list_all unpackable ns \<Longrightarrow> node_in K m0 p (unpack_nodes ns) \<Longrightarrow>
    pool_text (PLib P) blocks room K m0 N R t x \<Longrightarrow> walk_text (t \<noteq> []) ns = Some u \<Longrightarrow> length (t @ u) \<le> N \<Longrightarrow>
    \<exists>x'. DevicePathToStr_loop P p x = Some x' \<and> pool_text (PLib P) blocks room K m0 N R (t @ u) x'"
proof (induction ns arbitrary: p t x u)
  case (Cons nd ns)
  let ?inv = "pool_text (PLib P) blocks room K m0 N R"
  obtain ty st d where nd: "nd = (ty, st, d)" by (cases nd)
  have un: "unpackable (ty, st, d)" using Cons.prems(2) nd by simp
  have head: "bytes_at (now y) p (unpack_node (ty, st, d) @ unpack_nodes ns)" if "?inv s y" for s y
    using node_in_now [OF Cons.prems(3) that] nd by simp
  note at = unpack_header [OF un head]
  show ?case
  proof (cases "final_node nd")
    case True
    then show ?thesis using at(3) [OF Cons.prems(4)] Cons.prems(4,5) nd
      by (subst DevicePathToStr_loop.simps) simp
  next
    case False
    let ?f = "node_dump nd" and ?sep = "if t \<noteq> [] \<and> node_dump nd \<noteq> D_EndInstance then text16 ''/'' else []"
    obtain v w where vw: "node_text ?f (unpack_nodes (nd # ns)) = Some v" "walk_text (t \<noteq> [] \<or> v \<noteq> []) ns = Some w"
      "u = ?sep @ v @ w"
      using Cons.prems(5) False by (auto simp: bind_eq_Some_conv)
    have f: "find_dump (ty AND 0x7f) st = ?f" by (simp add: node_dump_def nd)
    have len: "sp_len (fst x) = length t" using Cons.prems(4) by (simp add: pool_text_def)
    have "\<exists>x1. (if sp_len (fst x) \<noteq> 0 \<and> ?f \<noteq> D_EndInstance then cat P ''/'' [] x else Some x) = Some x1 \<and> ?inv (t @ ?sep) x1"
    proof (cases "t \<noteq> [] \<and> ?f \<noteq> D_EndInstance")
      case True
      have "appends ?inv N (cat P ''/'' []) (text16 ''/'')" by (rule cat_literal [OF assms]) (simp add: text16_def)
      from appendsD [OF this Cons.prems(4)] show ?thesis using True Cons.prems(6) vw(3) len by auto
    next
      case False
      then show ?thesis using Cons.prems(4) len by (intro exI [of _ x]) auto
    qed
    then obtain x1 where x1: "(if sp_len (fst x) \<noteq> 0 \<and> ?f \<noteq> D_EndInstance then cat P ''/'' [] x else Some x) = Some x1"
      "?inv (t @ ?sep) x1" by blast
    have "appends ?inv N (DumpNode ?f P p) v"
      using dumps_all [of P ?f] Cons.prems(3) assms vw(1) unfolding dumps_def by blast
    from appendsD [OF this x1(2)] obtain x2 where x2: "DumpNode ?f P p x1 = Some x2" "?inv (t @ ?sep @ v) x2"
      using Cons.prems(6) vw(3) by auto
    have "(t @ ?sep @ v \<noteq> []) = (t \<noteq> [] \<or> v \<noteq> [])" by auto
    moreover have "node_in K m0 (p + length (unpack_node nd)) (unpack_nodes ns)"
      using Cons.prems(3) by (intro node_in_tail) simp
    moreover have "ns \<noteq> []" using Cons.prems(1) False by auto
    ultimately obtain x3 where x3: "DevicePathToStr_loop P (p + length (unpack_node nd)) x2 = Some x3"
      "?inv ((t @ ?sep @ v) @ w) x3"
      using Cons.IH [OF _ _ _ x2(2), of "p + length (unpack_node nd)" w] Cons.prems(1,2,6) vw by auto
    have "DevicePathToStr_loop P p x = Some x3"
      using at(1,2,3) [OF Cons.prems(4)] at(4) [OF x2(2)] x1(1) x2(1) x3(1) False f nd
      by (subst DevicePathToStr_loop.simps) simp
    then show ?thesis using x3(2) vw(3) by auto
  qed
qed simp


subsection \<open>The string that is returned\<close>

text \<open>Freeing the unpacked path, cutting the string to its length and terminating it.\<close>

lemma ToStr_shrinks:
  assumes x: "pool_text L blocks room K m0 N R t (spc, s)" and N: "length t \<le> N"
    and p0: "(p0, n0) \<in> K" "B = K - {(p0, n0)}" "\<forall>(q, k) \<in> B. disjoint_ranges p0 n0 q k"
    and R: "(N + 201) * (N + 201) + (2 * (N + 1) + 64) \<le> R"
  obtains str s' where
    "ReallocatePool_1 L (2 * (length t + 1)) (2 * (length t + 1)) (sp_str spc) (FreePool L p0 s) = Some (str, s')"
    "str \<noteq> 0" "mapped (ram s') str (2 * (length t + 1))" "bytes_at (ram s') str (enc16 t)" "same_on B m0 (ram s')"
    "blocks (fw s') = insert (str, 2 * (length t + 1)) B" "(str, 2 * (length t + 1)) \<notin> B"
    "\<forall>(q, j) \<in> B. disjoint_ranges str (2 * (length t + 1)) q j"
proof -
  note inv = x [unfolded pool_text_def fst_conv snd_conv]
  have p: "pool_ok (BS L) blocks" "pool_room L room" "same_on K m0 (ram s)" "0 \<notin> set t" using inv by simp_all
  let ?M = "sp_maxlen spc" and ?n = "2 * (length t + 1)" and ?s = "FreePool L p0 s"
  have "?M * ?M \<le> (N + 201) * (N + 201)" using inv by (intro mult_mono) auto
  moreover have "R \<le> room s + ?M * ?M" "room s \<le> room ?s" using inv pool_room_free [OF p(2)] by simp_all
  moreover have "2 * (length t + 1) + 64 \<le> r'" if "M \<le> Q" "R \<le> r + M" "r \<le> r'" "Q + (2 * (N + 1) + 64) \<le> R" for M Q r r'
    using that N by simp
  ultimately have room: "?n + 64 \<le> room ?s" using R by blast
  show thesis
  proof (cases "sp_str spc = 0")
    case True
    then have t: "t = []" and b: "blocks (fw s) = K" using inv by simp_all
    have "(p0, n0) \<in> blocks (fw s)" using p0(1) b by simp
    note f = FreePool_block [OF p(1) this p0(3)]
    have B: "blocks (fw ?s) = B" using f(2) b p0(2) by simp
    obtain str s1 where a: "AllocatePool L ?n ?s = (str, s1)" "str \<noteq> 0" "mapped (ram s1) str ?n"
      "same_on B (ram ?s) (ram s1)" "blocks (fw s1) = insert (str, ?n) B" "(str, ?n) \<notin> B"
      "\<forall>(q, k) \<in> B. disjoint_ranges str ?n q k"
      by (rule AllocatePool_room [OF p(1,2) room, unfolded B])
    have "same_on B m0 (ram s)" by (rule same_on_subset [OF p(3)]) (use p0(2) in auto)
    then have "same_on B m0 (ram s1)" using f(1) a(4) same_on_trans by blast
    moreover have "bytes_at (ram s1) str (enc16 t)"
      using a(3) t by (simp add: bytes_at_def rd_bytes_def mapped_def region_def)
    ultimately show thesis using that [OF _ a(2,3) _ _ a(5-7)] a(1) True by (simp add: ReallocatePool_1_def)
  next
    case False
    then have o: "str16_at (ram s) (sp_str spc) t" "blocks (fw s) = insert (sp_str spc, 2 * ?M) K"
      "(sp_str spc, 2 * ?M) \<notin> K" "\<forall>(q, k) \<in> K. disjoint_ranges (sp_str spc) (2 * ?M) q k" "length t < ?M"
      using inv by simp_all
    have BK: "B \<subseteq> K" using p0(2) by blast
    let ?K1 = "insert (sp_str spc, 2 * ?M) B"
    have "disjoint_ranges p0 n0 (sp_str spc) (2 * ?M)" using o(4) p0(1) by (auto simp: disjoint_ranges_def)
    then have d: "\<forall>(q, k) \<in> ?K1. disjoint_ranges p0 n0 q k" using p0(3) by simp
    have "(p0, n0) \<in> blocks (fw s)" using p0(1) o(2) by simp
    note f = FreePool_block [OF p(1) this d]
    have K1: "blocks (fw ?s) = ?K1" using f(2) o(2,3) p0 by auto
    have bs: "bytes_at (ram ?s) (sp_str spc) (enc16 (t @ [0]))"
    proof (rule bytes_at_same_on [OF f(1)])
      show "bytes_at (ram s) (sp_str spc) (enc16 (t @ [0]))" using o(1) by (simp add: str16_at_bytes)
    qed (use o(5) in \<open>auto simp: in_use_def\<close>)
    obtain str s1 where a: "ReallocatePool_1 L ?n ?n (sp_str spc) ?s = Some (str, s1)" "str \<noteq> 0"
      "mapped (ram s1) str ?n" "bytes_at (ram s1) str (enc16 (t @ [0]))" "same_on B (ram ?s) (ram s1)"
      "blocks (fw s1) = insert (str, ?n) B" "(str, ?n) \<notin> B" "\<forall>(q, j) \<in> B. disjoint_ranges str ?n q j"
    proof (rule ReallocatePool_1_moves [OF p(1,2) room, where old = "sp_str spc" and k = "2 * ?M" and c = ?n and K = B])
      show "B = blocks (fw ?s) - {(sp_str spc, 2 * ?M)}" using K1 o(3) BK by auto
      show "\<forall>(q, j) \<in> B. disjoint_ranges (sp_str spc) (2 * ?M) q j" using o(4) BK by blast
    qed (use K1 False bs o(5) in auto)
    have "same_on B m0 (ram s)" using same_on_subset [OF p(3) BK] .
    moreover have "same_on B (ram s) (ram ?s)" by (rule same_on_subset [OF f(1)]) blast
    ultimately have "same_on B m0 (ram s1)" using a(5) same_on_trans by blast
    moreover have "bytes_at (ram s1) str (enc16 t)" using a(4) by (simp add: bytes_at_append)
    ultimately show thesis using that [OF a(1-3) _ _ a(6-8)] by blast
  qed
qed

text \<open>The unpacked path in a block of its own.\<close>

lemma UnpackDevicePath_room:
  assumes pool: "pool_ok (BS L) blocks" "pool_room L room"
    and src: "bytes_at (ram s) DevPath (enc_path is)" "path_ok is" "in_use (blocks (fw s)) DevPath (length (enc_path is))"
      "list_all (list_all unpackable) is"
    and n: "length (unpack_path is) + 64 \<le> room s" and ram: "length (ram s) < 2 ^ 64"
  obtains p s' where "UnpackDevicePath L DevPath s = Some (p, s')"
    "blocks (fw s') = insert (p, length (unpack_path is)) (blocks (fw s))" "(p, length (unpack_path is)) \<notin> blocks (fw s)"
    "\<forall>(q, k) \<in> blocks (fw s). disjoint_ranges p (length (unpack_path is)) q k"
    "same_on (blocks (fw s)) (ram s) (ram s')" "node_in (blocks (fw s')) (ram s') p (unpack_path is)"
    "room s \<le> room s' + (length (unpack_path is) + 64)"
proof -
  let ?n = "length (unpack_path is)"
  obtain p s1 where a: "AllocatePool L ?n s = (p, s1)" "p \<noteq> 0" "mapped (ram s1) p ?n"
    "same_on (blocks (fw s)) (ram s) (ram s1)" "blocks (fw s1) = insert (p, ?n) (blocks (fw s))" "(p, ?n) \<notin> blocks (fw s)"
    "\<forall>(q, k) \<in> blocks (fw s). disjoint_ranges p ?n q k" "room s \<le> room s1 + (?n + 64)"
    by (rule AllocatePool_room [OF pool n])
  let ?m = "overwrite (ram s1) p (unpack_path is)" and ?s = "with_ram s1 (overwrite (ram s1) p (unpack_path is))"
  have len: "length ?m = length (ram s1)" using a(3) by (simp add: mapped_def)
  have s: "ram ?s = ?m" "fw ?s = fw s1" by (simp_all add: with_ram_def)
  have "same_on (blocks (fw s)) (ram s1) ?m" by (rule same_on_overwrite [OF a(3) order.refl a(7)])
  then have "same_on (blocks (fw s)) (ram s) (ram ?s)" using a(4) s same_on_trans by metis
  moreover have "node_in (blocks (fw ?s)) (ram ?s) p (unpack_path is)"
  proof -
    have "p + ?n < 2 ^ 64" using a(3) ram same_on_length [OF a(4)] by (simp add: mapped_def)
    then show ?thesis using bytes_at_overwrite [OF a(3)] s a(2,5) by (auto simp: node_in_def in_use_def)
  qed
  moreover have "room s \<le> room ?s + (?n + 64)" using a(8) pool_room_ram [OF pool(2) len] by simp
  ultimately show thesis using that [OF UnpackDevicePath_alloc [OF pool(1) src a(1,2)]] a(5-7) s by simp
qed

subsection \<open>Properties\<close>

text \<open>C4. \<open>DevicePathToStr\<close> terminates and returns, for every encoded path whose nodes have a text, a
  string of its own in the pool of exactly the length of the path's text, which holds that text: every
  node as its fields say, in order, with the separators between them. The unpacked copy and every
  buffer in between are freed: the one block more is the string, and no other memory in use changes.\<close>

theorem DevicePathToStr_prints:
  assumes "pool_ok (BS (PLib P)) blocks" "pool_room (PLib P) room" "BelowBuffer P \<noteq> 13"
    and "bytes_at (ram s) DevPath (enc_path is)" "path_ok is"
      "in_use (blocks (fw s)) DevPath (length (enc_path is))" "list_all (list_all unpackable) is"
    and "path_text is = Some t" "length t < 2 ^ 60" "length (ram s) < 2 ^ 64"
    and "(length t + 201) * (length t + 201) + 2 * length t + length (unpack_path is) + 130 \<le> room s"
  shows "\<exists>p s'. DevicePathToStr_1 P DevPath s = Some (p, s') \<and> str16_at (ram s') p t \<and>
    same_on (blocks (fw s)) (ram s) (ram s') \<and> (p, 2 * (length t + 1)) \<notin> blocks (fw s) \<and>
    blocks (fw s') = insert (p, 2 * (length t + 1)) (blocks (fw s))"
proof -
  let ?B = "blocks (fw s)" and ?N = "length t" and ?n = "length (unpack_path is)"
  obtain p0 s1 where u: "UnpackDevicePath (PLib P) DevPath s = Some (p0, s1)"
    "blocks (fw s1) = insert (p0, ?n) ?B" "(p0, ?n) \<notin> ?B" "\<forall>(q, k) \<in> ?B. disjoint_ranges p0 ?n q k"
    "same_on ?B (ram s) (ram s1)" "node_in (blocks (fw s1)) (ram s1) p0 (unpack_path is)"
    "room s \<le> room s1 + (?n + 64)"
    by (rule UnpackDevicePath_room [OF assms(1,2,4-7) _ assms(10)]) (use assms(11) in auto)
  let ?K = "blocks (fw s1)" and ?x = "(\<lparr>sp_str = 0, sp_len = 0, sp_maxlen = 0\<rparr>, s1)"
  have "Q + (2 * (?N + 1) + 64) \<le> r'" if "r \<le> r' + (?n + 64)" "Q + 2 * ?N + ?n + 130 \<le> r" for Q r r'
    using that by simp
  then have R: "(?N + 201) * (?N + 201) + (2 * (?N + 1) + 64) \<le> room s1" using u(7) assms(11) by blast
  then have "pool_text (PLib P) blocks room ?K (ram s1) ?N (room s1) [] ?x"
    using assms(1,2,9) by (simp add: pool_text_def)
  moreover have "terminated (flat_path is)" using assms(5) by (rule flat_path_terminated)
  moreover have "list_all unpackable (flat_path is)"
    using assms(7) by (induction "is") (simp_all add: unpackable_def)
  ultimately obtain spc s2 where w: "DevicePathToStr_loop P p0 ?x = Some (spc, s2)"
    "pool_text (PLib P) blocks room ?K (ram s1) ?N (room s1) t (spc, s2)"
    using DevicePathToStr_loop_prints [OF assms(3), of "flat_path is" ?K "ram s1" p0 blocks room ?N "room s1" "[]" ?x t]
      u(6) assms(8) by (auto simp: path_text_def unpack_path_def)
  have B: "?B = ?K - {(p0, ?n)}" using u(2,3) by auto
  let ?k = "2 * (?N + 1)"
  obtain str s3 where r: "ReallocatePool_1 (PLib P) ?k ?k (sp_str spc) (FreePool (PLib P) p0 s2) = Some (str, s3)"
    "str \<noteq> 0" "mapped (ram s3) str ?k" "bytes_at (ram s3) str (enc16 t)" "same_on ?B (ram s1) (ram s3)"
    "blocks (fw s3) = insert (str, ?k) ?B" "(str, ?k) \<notin> ?B" "\<forall>(q, j) \<in> ?B. disjoint_ranges str ?k q j"
    by (rule ToStr_shrinks [OF w(2) order.refl _ B u(4) R]) (use u(2) in auto)
  let ?m = "overwrite (ram s3) (str + 2 * ?N) (enc16 ([] @ [0]))"
  have at: "mapped (ram s3) (str + 2 * ?N) (length (enc16 [0]))" using r(3) by (auto simp: mapped_def)
  have nul: "wr16 (ram s3) (str + 2 * ?N) 0 = Some ?m"
    using at by (simp add: wr16_def wr_bytes_def enc16_def)
  have sizes: "sp_len spc = ?N" "0 \<notin> set t" using w(2) by (simp_all add: pool_text_def)
  have k: "uintn ((?N + 1) * 2) = ?k" using assms(9) by (subst uintn_small) simp_all
  have run: "DevicePathToStr_1 P DevPath s = Some (str, with_ram s3 ?m)"
    unfolding DevicePathToStr_1_def Let_def using u(1) w(1) r(1) nul by (simp add: sizes(1) k [simplified] k)
  have "str16_at ?m str (t @ [])"
    using r(2-4) sizes(2) by (intro str16_extend) (simp_all add: mapped_def)
  moreover have "same_on ?B (ram s3) ?m"
  proof -
    have "\<forall>(q, k) \<in> ?B. disjoint_ranges (str + 2 * ?N) (length (enc16 [0])) q k"
      using r(8) by (fastforce simp: disjoint_ranges_def)
    from same_on_overwrite [OF at order.refl this] show ?thesis by simp
  qed
  then have "same_on ?B (ram s) ?m" using u(5) r(5) same_on_trans by metis
  ultimately show ?thesis using run r(6,7) by (intro exI [of _ str] exI [of _ "with_ram s3 ?m"]) (simp add: with_ram_def)
qed


definition wit_dev_path :: "dp_node list list" where
  "wit_dev_path = [[(2, 1, [0xd0, 0x41, 0x03, 0x0a, 0, 0, 0, 0]), (1, 1, [2, 1])], [(4, 4, [65, 0, 0, 0])]]"

lemma wit_dev_path_text: "path_text wit_dev_path = Some (text16 ''PciRoot(0)/Pci(0x1,0x2),/A'')"
  by code_simp

theorem DevicePathToStr_prints_witness:
  "let s = demo_mem (enc_path wit_dev_path) 60000 in \<exists>p s'.
    DevicePathToStr_1 wit_plib 1 s = Some (p, s') \<and>
    str16_at (ram s') p (text16 ''PciRoot(0)/Pci(0x1,0x2),/A'') \<and>
    same_on (blocks_of (fw s)) (ram s) (ram s') \<and> (p, 2 * (26 + 1)) \<notin> blocks_of (fw s) \<and>
    blocks_of (fw s') = insert (p, 2 * (26 + 1)) (blocks_of (fw s))"
proof -
  let ?s = "demo_mem (enc_path wit_dev_path) 60000" and ?t = "text16 ''PciRoot(0)/Pci(0x1,0x2),/A''"
  have len: "length ?t = 26" by (simp add: text16_def)
  have n: "length (enc_path wit_dev_path) = 34" "length (unpack_path wit_dev_path) = 36" by code_simp+
  have p: "pool_ok (BS (PLib wit_plib)) blocks_of" "pool_room (PLib wit_plib) demo_room" "BelowBuffer wit_plib \<noteq> 13"
    using demo_pool_room demo_lib_pool by (simp_all add: wit_plib_def)
  have b: "bytes_at (ram ?s) 1 (enc_path wit_dev_path)" by (rule demo_mem_bytes [of _ "[]" _ "[]"]) simp_all
  have i: "in_use (blocks_of (fw ?s)) 1 (length (enc_path wit_dev_path))" by (rule demo_mem_in_use) (simp_all add: n)
  have ok: "path_ok wit_dev_path" "list_all (list_all unpackable) wit_dev_path"
    by (simp_all add: wit_dev_path_def path_ok_def instance_ok_def node_ok_def unpackable_def)
  have ram: "length (ram ?s) < 2 ^ 64" by (simp add: demo_mem_def n)
  have t: "length ?t < 2 ^ 60" by (simp add: len)
  have room: "(length ?t + 201) * (length ?t + 201) + 2 * length ?t + length (unpack_path wit_dev_path) + 130 \<le> demo_room ?s"
    unfolding len n by (simp add: demo_room_def demo_mem_def demo_top_def n)
  from DevicePathToStr_prints [OF p b ok(1) i ok(2) wit_dev_path_text t ram room]
  show ?thesis unfolding Let_def len .
qed

end
