(* ===== verification/HexDump.thy ===== *)
theory HexDump
  imports DevPathPrint Events
begin

text \<open>
  lib/print.c: \<open>DumpHex\<close>, which shows memory on the console, sixteen bytes a line, and waits for a key
  whenever the screen is full.
\<close>

subsection \<open>The code\<close>

text \<open>Where the local arrays and the string literals of the routine are in memory.\<close>

record dump_frame =
  Val_array :: addr
  Str_array :: addr
  ReturnStr_array :: addr
  empty_lit :: addr
  line_lit :: addr
  prompt_lit :: addr
  newline_lit :: addr

text \<open>The loop over the \<open>Size\<close> bytes of a line, \<open>n\<close> of them from \<open>Index\<close> on.\<close>

primrec DumpHex_line :: "dump_frame \<Rightarrow> addr \<Rightarrow> nat \<Rightarrow> nat \<Rightarrow> mem \<Rightarrow> mem option" where
  "DumpHex_line F Data Index 0 m = Some m"
| "DumpHex_line F Data Index (Suc n) m = do {
     c \<leftarrow> rd8 m (Data + Index);
     m \<leftarrow> wr8 m (Val_array F + (Index * 3 + 0)) (Hex ! unat (drop_bit 4 c));
     m \<leftarrow> wr8 m (Val_array F + (Index * 3 + 1)) (Hex ! unat (c AND 0xF));
     m \<leftarrow> wr8 m (Val_array F + (Index * 3 + 2)) (if Index = 7 then 45 else 32);
     m \<leftarrow> wr8 m (Str_array F + Index) (if c < 32 \<or> 122 < c then 46 else c);
     DumpHex_line F Data (Index + 1) n m }"

function DumpHex_loop ::
  "'w plib \<Rightarrow> 'w text_input \<Rightarrow> dump_frame \<Rightarrow> u64 \<Rightarrow> nat \<Rightarrow> u64 \<Rightarrow> nat \<Rightarrow> addr \<Rightarrow> nat \<Rightarrow> 'w st \<Rightarrow> 'w st option" where
  "DumpHex_loop P ConIn F Indent ScreenSize Offset DataSize Data ScreenCount s =
     (if DataSize = 0 then Some s
      else let Size = (if DataSize < 16 then DataSize else 16) in do {
        m \<leftarrow> DumpHex_line F Data 0 Size (ram s);
        m \<leftarrow> wr8 m (Val_array F + Size * 3) 0;
        m \<leftarrow> wr8 m (Str_array F + Size) 0;
        (_, s) \<leftarrow> Print P (line_lit F) [Indent, word_of_nat (empty_lit F), Offset, word_of_nat (Val_array F),
                  word_of_nat (Str_array F)] (with_ram s m);
        (ScreenCount, s) \<leftarrow>
          (if ScreenSize \<le> ScreenCount + 1 \<and> ScreenSize \<noteq> 0 then do {
             (_, s) \<leftarrow> Print P (prompt_lit F) [] s;
             s \<leftarrow> Input P ConIn (Some []) (ReturnStr_array F) 1 s;
             (_, s) \<leftarrow> Print P (newline_lit F) [] s;
             Some (0, s) }
           else Some (ScreenCount + 1, s));
        DumpHex_loop P ConIn F Indent ScreenSize (Offset + word_of_nat Size) (DataSize - Size) (Data + Size)
          ScreenCount s })"
  by pat_completeness auto
termination
  by (relation "measure (\<lambda>(P, c, F, i, z, off, DataSize, d, n, s). DataSize)") (auto split: if_splits)

declare DumpHex_loop.simps [simp del]

definition DumpHex ::
  "'w plib \<Rightarrow> 'w text_input \<Rightarrow> dump_frame \<Rightarrow> u64 \<Rightarrow> u64 \<Rightarrow> nat \<Rightarrow> addr \<Rightarrow> 'w st \<Rightarrow> 'w st option" where
  "DumpHex P ConIn F Indent Offset DataSize UserData s =
     (case QueryMode (ConOut P) (Mode_Mode (ConOut P) s) s of
        (_, TempColumn, ScreenSize, s) \<Rightarrow>
          DumpHex_loop P ConIn F Indent (uintn (ScreenSize + (2 ^ 64 - 2))) Offset DataSize UserData 0 s)"

subsection \<open>Memory outside some ranges\<close>

definition keeps_off :: "ranges \<Rightarrow> mem \<Rightarrow> mem \<Rightarrow> bool" where
  "keeps_off W m m' \<longleftrightarrow> length m' = length m \<and>
     (\<forall>q bs. bytes_at m q bs \<and> (\<forall>(p, n) \<in> W. disjoint_ranges q (length bs) p n) \<longrightarrow> bytes_at m' q bs)"

lemma keeps_offI:
  "length m' = length m \<Longrightarrow>
   (\<And>q bs. bytes_at m q bs \<Longrightarrow> \<forall>(p, n) \<in> W. disjoint_ranges q (length bs) p n \<Longrightarrow> bytes_at m' q bs) \<Longrightarrow>
   keeps_off W m m'"
  by (simp add: keeps_off_def)

lemma keeps_off_refl: "keeps_off W m m"
  by (simp add: keeps_off_def)

lemma keeps_off_trans: "keeps_off W m m1 \<Longrightarrow> keeps_off W m1 m2 \<Longrightarrow> keeps_off W m m2"
  unfolding keeps_off_def by metis

lemma keeps_off_length: "keeps_off W m m' \<Longrightarrow> length m' = length m"
  by (simp add: keeps_off_def)

lemma keeps_off_bytes:
  "keeps_off W m m' \<Longrightarrow> bytes_at m q bs \<Longrightarrow> \<forall>(p, n) \<in> W. disjoint_ranges q (length bs) p n \<Longrightarrow> bytes_at m' q bs"
  unfolding keeps_off_def by blast

lemma keeps_off_overwrite:
  assumes "mapped m q (length bs)" "(p, n) \<in> W" "p \<le> q" "q + length bs \<le> p + n"
  shows "keeps_off W m (overwrite m q bs)"
proof (rule keeps_offI)
  show "length (overwrite m q bs) = length m" using assms(1) by (simp add: mapped_def)
  fix r cs assume "bytes_at m r cs" and d: "\<forall>(p, n) \<in> W. disjoint_ranges r (length cs) p n"
  moreover have "disjoint_ranges r (length cs) q (length bs)"
    using assms d by (fastforce simp: disjoint_ranges_def)
  ultimately show "bytes_at (overwrite m q bs) r cs"
    using assms(1) by (simp add: bytes_at_overwrite_disjoint mapped_def)
qed

lemma keeps_off_inside:
  assumes "keeps_off W m m'" "\<forall>(q, k) \<in> W. \<exists>(p, n) \<in> V. p \<le> q \<and> q + k \<le> p + n"
  shows "keeps_off V m m'"
proof (rule keeps_offI)
  show "length m' = length m" using assms(1) by (rule keeps_off_length)
  fix r cs assume "bytes_at m r cs" and d: "\<forall>(p, n) \<in> V. disjoint_ranges r (length cs) p n"
  moreover have "\<forall>(q, k) \<in> W. disjoint_ranges r (length cs) q k"
    using assms(2) d by (fastforce simp: disjoint_ranges_def)
  ultimately show "bytes_at m' r cs" using keeps_off_bytes [OF assms(1)] by blast
qed

lemma wr8_mapped: "mapped m p 1 \<Longrightarrow> wr8 m p v = Some (overwrite m p [v])"
  by (simp add: wr8_overwrite wr_bytes_def)


lemma keeps_off_outside:
  assumes "same_outside m m' p n" "(p, n) \<in> W"
  shows "keeps_off W m m'"
proof (rule keeps_offI)
  show "length m' = length m" using assms(1) by (rule same_outside_length)
  fix q bs assume b: "bytes_at m q bs" and "\<forall>(p, n) \<in> W. disjoint_ranges q (length bs) p n"
  then have "disjoint_ranges p n q (length bs)" using assms(2) by (auto simp: disjoint_ranges_def)
  moreover have "q + length bs \<le> length m" using b by (auto simp: bytes_at_def rd_bytes_def mapped_def split: if_splits)
  ultimately show "bytes_at m' q bs"
    using b same_outside_region [OF assms(1)] same_outside_length [OF assms(1)]
    by (auto simp: bytes_at_def rd_bytes_def mapped_def split: if_splits)
qed

subsection \<open>A line\<close>

text \<open>The hexadecimal and the readable form of the bytes of a line, from the \<open>i\<close>-th on.\<close>

definition hex_pair :: "nat \<Rightarrow> u8 \<Rightarrow> u8 list" where
  "hex_pair i c = [Hex ! (unat c div 16), Hex ! (unat c mod 16), if i = 7 then 45 else 32]"

fun val_bytes :: "nat \<Rightarrow> u8 list \<Rightarrow> u8 list" where
  "val_bytes i [] = []"
| "val_bytes i (c # cs) = hex_pair i c @ val_bytes (i + 1) cs"

definition readable :: "u8 \<Rightarrow> u8" where
  "readable c = (if c < 32 \<or> 122 < c then 46 else c)"

lemma length_val_bytes [simp]: "length (val_bytes i cs) = 3 * length cs"
  by (induction cs arbitrary: i) (simp_all add: hex_pair_def)

lemma nibbles: "unat (drop_bit 4 (c :: u8)) = unat c div 16" "unat (c AND 0xF) = unat c mod 16"
proof -
  show "unat (drop_bit 4 c) = unat c div 16" by (simp add: drop_bit_eq_div unat_div)
  have "c AND 0xF = take_bit 4 c" by (simp add: take_bit_eq_mask mask_eq_exp_minus_1)
  then have "unat (c AND 0xF) = take_bit 4 (unat c)" by (simp only: unsigned_take_bit_eq)
  then show "unat (c AND 0xF) = unat c mod 16" by (simp add: take_bit_eq_mod)
qed

lemma DumpHex_line_eq:
  assumes "mapped m v (3 * length bs)" "mapped m t (length bs)" "bytes_at m (Data + i) bs"
    and "disjoint_ranges (Data + i) (length bs) v (3 * length bs)" "disjoint_ranges (Data + i) (length bs) t (length bs)"
    and "disjoint_ranges v (3 * length bs) t (length bs)" "v = Val_array F + 3 * i" "t = Str_array F + i"
  shows "\<exists>m'. DumpHex_line F Data i (length bs) m = Some m' \<and> bytes_at m' v (val_bytes i bs) \<and>
    bytes_at m' t (map readable bs) \<and> keeps_off {(v, 3 * length bs), (t, length bs)} m m'"
  using assms
proof (induction bs arbitrary: m v t i)
  case Nil
  then show ?case by (auto simp: keeps_off_refl bytes_at_def rd_bytes_def mapped_def region_def)
next
  case (Cons c cs)
  let ?W = "{(v, 3 * length (c # cs)), (t, length (c # cs))}"
  let ?m1 = "overwrite m v (hex_pair i c)" let ?m2 = "overwrite ?m1 t [readable c]"
  have room: "0 < v" "v + 3 \<le> length m" "0 < t" "t + 1 \<le> length m" using Cons.prems(1,2) by (auto simp: mapped_def)
  have hp: "length (hex_pair i c) = 3" by (simp add: hex_pair_def)
  have m1: "mapped m v (length (hex_pair i c))" and m2: "mapped ?m1 t (length [readable c])"
    using room by (simp_all add: mapped_def hp)
  have k1: "keeps_off ?W m ?m1" by (rule keeps_off_overwrite [OF m1]) (auto simp: hp)
  have k2: "keeps_off ?W ?m1 ?m2" by (rule keeps_off_overwrite [OF m2, of t "length (c # cs)"]) auto
  note k = keeps_off_trans [OF k1 k2]
  have len: "length ?m2 = length m" by (rule keeps_off_length [OF k])
  have c: "rd8 m (Data + i) = Some c" "bytes_at m (Data + (i + 1)) cs"
    using Cons.prems(3) by (simp_all add: bytes_at_Cons add.assoc)
  have w: "wr8 m v a = Some (overwrite m v [a])" "wr8 (overwrite m v [a]) (v + 1) b = Some (overwrite m v [a, b])"
    "wr8 (overwrite m v [a, b]) (v + 2) d = Some (overwrite m v [a, b, d])" for a b d
    using room overwrite_append [of v "[a]" "[b]" m] overwrite_append [of v "[a, b]" "[d]" m]
    by (simp_all add: wr8_mapped mapped_def numeral_2_eq_2)
  have step: "DumpHex_line F Data i (length (c # cs)) m = DumpHex_line F Data (i + 1) (length cs) ?m2"
    using c(1) w wr8_mapped [of ?m1 t "readable c"] m2 Cons.prems(7,8)
    by (simp add: nibbles hex_pair_def readable_def add.assoc mult.commute)
  have "bytes_at ?m2 (Data + (i + 1)) cs"
    by (rule keeps_off_bytes [OF k c(2)]) (use Cons.prems(4,5) in \<open>auto simp: disjoint_ranges_def\<close>)
  then obtain m' where m': "DumpHex_line F Data (i + 1) (length cs) ?m2 = Some m'"
    "bytes_at m' (v + 3) (val_bytes (i + 1) cs)" "bytes_at m' (t + 1) (map readable cs)"
    "keeps_off {(v + 3, 3 * length cs), (t + 1, length cs)} ?m2 m'"
    using Cons.IH [of ?m2 "v + 3" "t + 1" "i + 1"] Cons.prems len by (auto simp: mapped_def disjoint_ranges_def)
  have d: "disjoint_ranges v 3 t (length (c # cs))" using Cons.prems(6) by (auto simp: disjoint_ranges_def)
  have "bytes_at ?m2 v (hex_pair i c)"
    using bytes_at_overwrite [OF m1] m2 d by (subst bytes_at_overwrite_disjoint) (auto simp: disjoint_ranges_def mapped_def hp)
  then have "bytes_at m' v (hex_pair i c)"
    by (rule keeps_off_bytes [OF m'(4)]) (use d in \<open>auto simp: disjoint_ranges_def hp\<close>)
  moreover have "bytes_at m' t [readable c]"
    by (rule keeps_off_bytes [OF m'(4) bytes_at_overwrite [OF m2]])
      (use Cons.prems(6) in \<open>auto simp: disjoint_ranges_def\<close>)
  moreover have "keeps_off ?W ?m2 m'" by (rule keeps_off_inside [OF m'(4)]) auto
  ultimately show ?case using step m'(1-3) keeps_off_trans [OF k]
    by (auto simp: bytes_at_append hp bytes_at_Cons)
qed


subsection \<open>Printing to the console\<close>

text \<open>The formats of the routine.\<close>

definition line_pieces :: "piece list" where
  "line_pieces = Dir [] (Some Star) None [] C_a # p_X # lits '': '' @ Dir [Left] None (Some (Num 48)) [] C_a #
     lits '' *'' @ p_a # lits ''*'' @ [Lit 10]"

definition prompt_pieces :: "piece list" where
  "prompt_pieces = lits ''Press Enter to continue :''"

lemma unparse_line: "unparse line_pieces = text16 ''%*a%X: %-.48a *%a*'' @ [10]"
  by code_simp

lemma pieces_ok: "list_all console_piece_ok line_pieces" "list_all console_piece_ok prompt_pieces"
  "list_all console_piece_ok [Lit 10]"
  by (simp_all add: line_pieces_def prompt_pieces_def text16_def)

lemma read_ascii:
  assumes "str8_at m (unat a) t" "a \<noteq> 0"
  shows "read_text m (str_arg Ascii a) 0 = Some (map ucast t)" "0 \<notin> set (map ucast t :: u16 list)"
  using src_text_Ascii [OF assms(1)] assms(2) by (simp_all add: str_arg_def read_text_src_text src_text_def)

lemma text_render_indent:
  assumes "str8_at m (unat a) []" "a \<noteq> 0"
  shows "text_render cv m (Dir [] (Some Star) None [] C_a # pcs) (w # a # args) =
    map_option ((@) (replicate (unat w) 32)) (text_render cv m pcs args)"
  using read_ascii [OF assms]
  by (cases "text_render cv m pcs args")
    (simp_all add: text_render_def dir_item_def new_item_def item_text_def Let_def)

lemma text_render_field:
  assumes "str8_at m (unat a) t" "a \<noteq> 0" "length t \<le> 48"
  shows "text_render cv m (Dir [Left] None (Some (Num 48)) [] C_a # pcs) (a # args) =
    map_option ((@) (map ucast t @ replicate (48 - length t) 32)) (text_render cv m pcs args)"
  using read_ascii [OF assms(1,2)] assms(3)
  by (cases "text_render cv m pcs args")
    (simp_all add: text_render_def dir_item_def new_item_def item_text_def Let_def)

text \<open>The text of a line.\<close>

definition dump_line :: "u64 \<Rightarrow> u64 \<Rightarrow> u8 list \<Rightarrow> u16 list" where
  "dump_line Indent off bs = replicate (unat Indent) 32 @ hex_digits 8 (unat (ucast off :: u32)) @ text16 '': '' @
     map ucast (val_bytes 0 bs) @ replicate (48 - 3 * length bs) 32 @ text16 '' *'' @
     map (ucast \<circ> readable) bs @ text16 ''*'' @ [10]"

lemma line_render:
  assumes "str8_at m (unat e) []" "str8_at m (unat v) (val_bytes 0 bs)" "str8_at m (unat t) (map readable bs)"
    and "e \<noteq> 0" "v \<noteq> 0" "t \<noteq> 0" "length bs \<le> 16"
  shows "text_render cv m line_pieces [Indent, e, off, v, t] = Some (dump_line Indent off bs)"
  using assms
  by (simp add: line_pieces_def text_render_indent text_render_padded text_render_lit text_render_field text_render_a
      dump_line_def hex_digits_def uint_arg_def unat_ucast_widen text_render_simps)

subsection \<open>A console that leaves memory alone\<close>

definition colours_ok :: "'w text_output \<Rightarrow> ('w \<Rightarrow> u16 list) \<Rightarrow> ('w \<Rightarrow> u16 list) \<Rightarrow> bool" where
  "colours_ok Out keys screen \<longleftrightarrow>
     (\<forall>a s. ram (snd (SetAttribute Out a s)) = ram s \<and> screen (fw (snd (SetAttribute Out a s))) = screen (fw s)) \<and>
     (\<forall>n s st c r s'. QueryMode Out n s = (st, c, r, s') \<longrightarrow> ram s' = ram s \<and> screen (fw s') = screen (fw s))"

interpretation dump: text_sink "console_output Out" "Some (\<lambda>a s. snd (SetAttribute Out a s))"
  "\<lambda>d t s. console_ok L Out In keys screen \<and> colours_ok Out keys screen \<and> ram s = m \<and> screen (fw s) = t0 @ t"
  "\<lambda>t. True" ram "\<lambda>m'. m' = m" for L Out In keys screen m t0
proof unfold_locales
  fix d t and s :: "'a st" and b :: "u16 list"
  assume "console_ok L Out In keys screen \<and> colours_ok Out keys screen \<and> ram s = m \<and> screen (fw s) = t0 @ t"
    and "0 \<notin> set b"
  moreover from this(2) have "takeWhile (\<lambda>c. c \<noteq> 0) b = b" by (auto simp: takeWhile_eq_all_conv)
  ultimately show "\<exists>x'. console_output Out b s = Some x' \<and> console_ok L Out In keys screen \<and>
      colours_ok Out keys screen \<and> ram x' = m \<and> screen (fw x') = t0 @ t @ b"
    by (auto simp: console_output_def console_ok_write)
qed (auto simp: colours_ok_def)

lemma Print_shows:
  assumes "BelowBuffer P \<noteq> 13" "console_ok L (ConOut P) In keys screen" "colours_ok (ConOut P) keys screen"
    and "f \<noteq> 0" "str16_at (ram s) f (unparse pcs)" "list_all console_piece_ok pcs"
    and "text_render (converters_of P) (ram s) pcs args = Some t" "13 \<notin> set t"
  shows "\<exists>n s'. Print P f args s = Some (n, s') \<and> ram s' = ram s \<and> screen (fw s') = screen (fw s) @ with_cr t"
proof -
  let ?attr = "scast (Mode_Attribute (ConOut P) s)"
  let ?cfg = "console_config P (Some (ConOut P)) ?attr (Wide f)"
  have "dump.sink_of (ConOut P) ?cfg" using assms(1) by (simp add: dump.sink_of_def console_config_def Let_def)
  moreover have "src_text (ram s) (fmt ?cfg) (unparse pcs)"
    using src_text_Wide [OF assms(5)] by (simp add: console_config_def Let_def)
  moreover have "renders (Convert ?cfg) (\<lambda>m. m = ram s) pcs args t"
    using assms(7) by (simp add: renders_one text_render_def console_config_def Let_def)
  ultimately show ?thesis
    using dump.Print_renders [of "ConOut P" ?cfg pcs "ram s" "print_start args ?attr s" t L In keys screen "screen (fw s)"] assms
    by (auto simp: print_start_def Print_def IPrint_1_def Let_def list_all_iff console_piece)
qed

text \<open>\<open>Input\<close> into a buffer of one character only waits.\<close>

lemma edit_one: "edit 1 [] ks = ([], fst (snd (edit 1 [] ks)), [])"
  by (induction ks) auto

lemma Input_waits:
  assumes ok: "console_ok (PLib P) (ConOut P) In keys screen" and m: "mapped (ram s) p 2"
  shows "\<exists>s'. Input P In (Some []) p 1 s = Some s' \<and> same_outside (ram s) (ram s') p 2 \<and> screen (fw s') = screen (fw s)"
proof -
  let ?s = "snd (OutputString (ConOut P) [] s)"
  have s: "ram ?s = ram s" "screen (fw ?s) = screen (fw s)" using console_ok_write [OF ok, of "[]" s] by simp_all
  obtain rest where e: "edit 1 [] (keys (fw ?s)) = ([], rest, [])" using edit_one by blast
  have "bytes_at (ram ?s) p (enc16 [])" "mapped (ram ?s) p (2 * 1)"
    using m s(1) by (auto simp: bytes_at_def rd_bytes_def region_def mapped_def)
  then obtain s1 where s1: "IInput_loop (PLib P) (ConOut P) In p 1 0 ?s = Some (0, s1)"
    "same_outside (ram s) (ram s1) p 2" "screen (fw s1) = screen (fw s)"
    using IInput_loop_run [OF ok, of 1 ?s p "[]"] s e by auto
  let ?m = "overwrite (ram s1) p (le_bytes 2 (0 :: u16))"
  have q: "mapped (ram s1) p (length (le_bytes 2 (0 :: u16)))"
    using m s1(2) by (auto simp: mapped_def same_outside_def)
  have "same_outside (ram s) ?m p 2" using s1(2) q by (auto simp: same_outside_def nth_overwrite mapped_def)
  moreover have "Input P In (Some []) p 1 s = Some (with_ram s1 ?m)"
    using s1(1) q by (simp add: Input_def IInput_def wr16_def wr_bytes_def)
  ultimately show ?thesis using s1(3) by (auto simp: with_ram_def)
qed


subsection \<open>The dump\<close>

text \<open>What appears on a screen of \<open>rows\<close> lines below the \<open>n\<close> lines of the dump that it shows already.\<close>

function dump_text :: "nat \<Rightarrow> nat \<Rightarrow> u64 \<Rightarrow> u64 \<Rightarrow> u8 list \<Rightarrow> u16 list" where
  "dump_text rows n Indent off bs =
     (if bs = [] then []
      else with_cr (dump_line Indent off (take 16 bs)) @
        (if rows \<le> n + 1 \<and> rows \<noteq> 0
         then text16 ''Press Enter to continue :'' @ [13, 10] @ dump_text rows 0 Indent (off + 16) (drop 16 bs)
         else dump_text rows (n + 1) Indent (off + 16) (drop 16 bs)))"
  by pat_completeness auto
termination by (relation "measure (\<lambda>(z, n, i, off, bs). length bs)") auto

declare dump_text.simps [simp del]

text \<open>The memory the routine writes to, and what else it needs of its frame.\<close>

definition dump_writes :: "dump_frame \<Rightarrow> ranges" where
  "dump_writes F = {(Val_array F, 50), (Str_array F, 20), (ReturnStr_array F, 2)}"

definition apart :: "dump_frame \<Rightarrow> addr \<Rightarrow> nat \<Rightarrow> bool" where
  "apart F q n \<longleftrightarrow> (\<forall>(p, k) \<in> dump_writes F. disjoint_ranges q n p k)"

definition dump_ready :: "dump_frame \<Rightarrow> mem \<Rightarrow> bool" where
  "dump_ready F m \<longleftrightarrow> length m < 2 ^ 64 \<and>
     mapped m (Val_array F) 50 \<and> mapped m (Str_array F) 20 \<and> mapped m (ReturnStr_array F) 2 \<and>
     disjoint_ranges (Val_array F) 50 (Str_array F) 20 \<and>
     (\<forall>(p, bs) \<in> {(line_lit F, enc16 (unparse line_pieces @ [0])), (prompt_lit F, enc16 (unparse prompt_pieces @ [0])),
        (newline_lit F, enc16 (unparse [Lit 10] @ [0])), (empty_lit F, [0])}. bytes_at m p bs \<and> apart F p (length bs))"

lemma dump_ready_keeps:
  assumes "dump_ready F m" "keeps_off (dump_writes F) m m'"
  shows "dump_ready F m'"
proof -
  have "bytes_at m' p bs" if "bytes_at m p bs \<and> apart F p (length bs)" for p bs
    using keeps_off_bytes [OF assms(2)] that unfolding apart_def by blast
  then show ?thesis using assms(1) keeps_off_length [OF assms(2)] unfolding dump_ready_def mapped_def by fastforce
qed

lemma str8_at_iff: "str8_at m p s \<longleftrightarrow> 0 \<notin> set s \<and> bytes_at m p (s @ [0])"
proof (induction s arbitrary: p)
  case Nil
  show ?case by (auto simp: bytes_at_def rd_bytes_def rd8_def mapped_def region_def take_Suc hd_drop_conv_nth)
next
  case (Cons c s)
  then show ?case by (auto simp: bytes_at_Cons)
qed

lemma Hex_printable: "d < 16 \<Longrightarrow> Hex ! d \<noteq> 0 \<and> Hex ! d \<noteq> 13"
proof -
  assume "d < 16"
  then have "d \<in> {0, 1, 2, 3, 4, 5, 6, 7, 8, 9, 10, 11, 12, 13, 14, 15}" unfolding insert_iff empty_iff by presburger
  then show ?thesis by (elim insertE) (simp_all add: Hex_def)
qed

lemma dump_chars: "0 \<notin> set (val_bytes i bs)" "0 \<notin> set (map readable bs)"
proof -
  show "0 \<notin> set (val_bytes i bs)"
  proof (induction bs arbitrary: i)
    case (Cons c cs)
    have "unat c div 16 < 16" "unat c mod 16 < 16" using unat_bounds(1) [of c] by simp_all
    then have "0 \<notin> set (hex_pair i c)" using Hex_printable by (auto simp: hex_pair_def eq_commute [of 0])
    then show ?case using Cons by simp
  qed simp
  show "0 \<notin> set (map readable bs)" by (auto simp: readable_def)
qed

text \<open>Filling the two arrays for a line.\<close>

lemma dump_fills:
  assumes r: "dump_ready F m" and b: "bytes_at m Data bs" "apart F Data (length bs)" "length bs \<le> 16"
  shows "\<exists>m1 m2 m3. DumpHex_line F Data 0 (length bs) m = Some m1 \<and>
    wr8 m1 (Val_array F + length bs * 3) 0 = Some m2 \<and> wr8 m2 (Str_array F + length bs) 0 = Some m3 \<and>
    str8_at m3 (Val_array F) (val_bytes 0 bs) \<and> str8_at m3 (Str_array F) (map readable bs) \<and>
    keeps_off (dump_writes F) m m3"
proof -
  let ?v = "Val_array F" and ?t = "Str_array F" and ?n = "length bs"
  have room: "mapped m ?v 50" "mapped m ?t 20" "disjoint_ranges ?v 50 ?t 20" using r by (simp_all add: dump_ready_def)
  have d: "disjoint_ranges Data ?n ?v 50" "disjoint_ranges Data ?n ?t 20" using b(2) by (simp_all add: apart_def dump_writes_def)
  obtain m1 where m1: "DumpHex_line F Data 0 ?n m = Some m1" "bytes_at m1 ?v (val_bytes 0 bs)"
    "bytes_at m1 ?t (map readable bs)" "keeps_off {(?v, 3 * ?n), (?t, ?n)} m m1"
    using DumpHex_line_eq [of m ?v bs ?t Data 0 F] room d b by (auto simp: mapped_def disjoint_ranges_def)
  have l1: "length m1 = length m" by (rule keeps_off_length [OF m1(4)])
  let ?m2 = "overwrite m1 (?v + ?n * 3) [0]" let ?m3 = "overwrite ?m2 (?t + ?n) [0]"
  have w2: "mapped m1 (?v + ?n * 3) (length [0])" and w3: "mapped ?m2 (?t + ?n) (length [0])"
    using room b(3) l1 by (auto simp: mapped_def)
  have k1: "keeps_off (dump_writes F) m m1"
    by (rule keeps_off_inside [OF m1(4)]) (use b(3) in \<open>auto simp: dump_writes_def\<close>)
  have k2: "keeps_off (dump_writes F) m1 ?m2"
    by (rule keeps_off_overwrite [OF w2, of ?v 50]) (use b(3) in \<open>auto simp: dump_writes_def\<close>)
  have k3: "keeps_off (dump_writes F) ?m2 ?m3"
    by (rule keeps_off_overwrite [OF w3, of ?t 20]) (use b(3) in \<open>auto simp: dump_writes_def\<close>)
  have "bytes_at ?m2 ?v (val_bytes 0 bs)" "bytes_at ?m2 ?t (map readable bs)"
    using m1(2,3) w2 room(3) b(3) by (auto simp: bytes_at_overwrite_disjoint disjoint_ranges_def mapped_def)
  moreover have "bytes_at ?m2 (?v + ?n * 3) [0]" by (rule bytes_at_overwrite [OF w2])
  ultimately have "bytes_at ?m2 ?v (val_bytes 0 bs @ [0])" "bytes_at ?m2 ?t (map readable bs)"
    by (simp_all add: bytes_at_append mult.commute)
  moreover have "bytes_at ?m3 (?t + ?n) [0]" by (rule bytes_at_overwrite [OF w3])
  moreover have "bytes_at ?m3 ?v (val_bytes 0 bs @ [0]) = bytes_at ?m2 ?v (val_bytes 0 bs @ [0])"
    "bytes_at ?m3 ?t (map readable bs) = bytes_at ?m2 ?t (map readable bs)"
    by (rule bytes_at_overwrite_disjoint; use w3 room(3) b(3) in \<open>auto simp: disjoint_ranges_def mapped_def\<close>)+
  ultimately have "str8_at ?m3 ?v (val_bytes 0 bs)" "str8_at ?m3 ?t (map readable bs)"
    using dump_chars(1) [of 0 bs] dump_chars(2) [of bs] by (simp_all add: str8_at_iff bytes_at_append)
  then show ?thesis
    using m1(1) w2 w3 keeps_off_trans [OF keeps_off_trans [OF k1 k2] k3] by (auto simp: wr8_mapped)
qed

lemma dump_line_clean: "13 \<notin> set (dump_line Indent off bs)"
proof -
  have u: "(ucast a :: u16) = 13 \<Longrightarrow> a = 13" for a :: u8
  proof -
    assume "(ucast a :: u16) = 13"
    then have "unat (ucast a :: u16) = 13" by simp
    then show "a = 13" using unsigned_word_eqI [of a 13] by (simp add: unat_ucast_widen)
  qed
  have "13 \<notin> set (val_bytes i bs)" for i
  proof (induction bs arbitrary: i)
    case (Cons c cs)
    have "unat c div 16 < 16" "unat c mod 16 < 16" using unat_bounds(1) [of c] by simp_all
    then have "13 \<notin> set (hex_pair i c)" using Hex_printable by (auto simp: hex_pair_def eq_commute [of 13])
    then show ?case using Cons by simp
  qed simp
  moreover have "readable c \<noteq> 13" for c by (auto simp: readable_def)
  moreover have "13 \<notin> set (hex_digits 8 k)" for k using one_line_fields(3) by (simp add: one_line_def)
  ultimately show ?thesis by (auto simp: dump_line_def text16_def dest!: u)
qed


lemma frame_address:
  assumes "mapped m p n" "length m < 2 ^ 64" "0 < n"
  shows "unat (word_of_nat p :: u64) = p" "(word_of_nat p :: u64) \<noteq> 0"
proof -
  have p: "0 < p" "p < 2 ^ 64" using assms by (auto simp: mapped_def)
  show u: "unat (word_of_nat p :: u64) = p" using p(2) by (simp add: unat_word_of_nat)
  then show "(word_of_nat p :: u64) \<noteq> 0" using p(1) by (metis less_numeral_extra(3) unat_0)
qed

definition dump_console ::
  "'w plib \<Rightarrow> 'w text_input \<Rightarrow> ('w \<Rightarrow> u16 list) \<Rightarrow> ('w \<Rightarrow> u16 list) \<Rightarrow> bool" where
  "dump_console P In keys screen \<longleftrightarrow> BelowBuffer P \<noteq> 13 \<and> console_ok (PLib P) (ConOut P) In keys screen \<and>
     colours_ok (ConOut P) keys screen"

lemma format_clean: "0 \<notin> set (unparse line_pieces)" "0 \<notin> set (unparse prompt_pieces)" "0 \<notin> set (unparse [Lit 10])"
proof -
  show "0 \<notin> set (unparse line_pieces)" unfolding unparse_line by (simp add: text16_def)
  show "0 \<notin> set (unparse prompt_pieces)" "0 \<notin> set (unparse [Lit 10])"
    by (simp_all add: prompt_pieces_def unparse_def text16_def)
qed

lemma ready_print:
  assumes c: "dump_console P In keys screen" and r: "dump_ready F (ram s)"
    and pcs: "(f, pcs) \<in> {(line_lit F, line_pieces), (prompt_lit F, prompt_pieces), (newline_lit F, [Lit 10])}"
    and t: "text_render (converters_of P) (ram s) pcs args = Some t" "13 \<notin> set t"
  shows "\<exists>n s'. Print P f args s = Some (n, s') \<and> ram s' = ram s \<and> screen (fw s') = screen (fw s) @ with_cr t"
proof (rule Print_shows [OF _ _ _ _ _ _ t])
  show "BelowBuffer P \<noteq> 13" "console_ok (PLib P) (ConOut P) In keys screen" "colours_ok (ConOut P) keys screen"
    using c by (simp_all add: dump_console_def)
  have "bytes_at (ram s) f (enc16 (unparse pcs @ [0]))" using r pcs by (auto simp: dump_ready_def)
  moreover have "0 \<notin> set (unparse pcs)" using pcs format_clean by auto
  ultimately show "str16_at (ram s) f (unparse pcs)" by (simp add: str16_at_bytes)
  show "f \<noteq> 0" using bytes_at_mapped [OF \<open>bytes_at (ram s) f (enc16 (unparse pcs @ [0]))\<close>] by (auto simp: mapped_def)
  show "list_all console_piece_ok pcs" using pcs pieces_ok by auto
qed

lemma dump_pauses:
  assumes c: "dump_console P In keys screen" and r: "dump_ready F (ram s)"
  shows "\<exists>s'. (do { (_, s) \<leftarrow> Print P (prompt_lit F) [] s; s \<leftarrow> Input P In (Some []) (ReturnStr_array F) 1 s;
      (_, s) \<leftarrow> Print P (newline_lit F) [] s; Some (0 :: nat, s) }) = Some (0, s') \<and>
    screen (fw s') = screen (fw s) @ text16 ''Press Enter to continue :'' @ [13, 10] \<and>
    keeps_off (dump_writes F) (ram s) (ram s')"
proof -
  let ?t = "text16 ''Press Enter to continue :''"
  have t: "text_render (converters_of P) m prompt_pieces [] = Some ?t" for m
    unfolding prompt_pieces_def using text_render_lit [of "converters_of P" m ?t "[]" "[]"] by (simp add: text_render_def)
  have "one_line ?t" by (simp add: one_line_def text16_def)
  then have cr: "with_cr ?t = ?t" "13 \<notin> set ?t" by (simp_all add: one_line_def with_cr_plain)
  obtain n1 s1 where s1: "Print P (prompt_lit F) [] s = Some (n1, s1)" "ram s1 = ram s" "screen (fw s1) = screen (fw s) @ ?t"
    using ready_print [OF c r _ t cr(2), of "prompt_lit F"] cr(1) by auto
  have "mapped (ram s1) (ReturnStr_array F) 2" using r s1(2) by (simp add: dump_ready_def)
  from Input_waits [OF _ this] c obtain s2 where s2: "Input P In (Some []) (ReturnStr_array F) 1 s1 = Some s2"
    "same_outside (ram s1) (ram s2) (ReturnStr_array F) 2" "screen (fw s2) = screen (fw s1)"
    unfolding dump_console_def by blast
  have k: "keeps_off (dump_writes F) (ram s) (ram s2)"
    using keeps_off_outside [OF s2(2)] s1(2) by (simp add: dump_writes_def)
  have "text_render (converters_of P) (ram s2) [Lit 10] [] = Some [10]" by (simp add: text_render_simps)
  from ready_print [OF c dump_ready_keeps [OF r k] _ this, of "newline_lit F"] obtain n3 s3 where
    s3: "Print P (newline_lit F) [] s2 = Some (n3, s3)" "ram s3 = ram s2" "screen (fw s3) = screen (fw s2) @ [13, 10]"
    by (auto simp: crlf_def)
  show ?thesis using s1 s2(1,3) s3 k by auto
qed

lemma dump_turns:
  fixes rows n :: nat
  assumes c: "dump_console P In keys screen" and r: "dump_ready F (ram s)"
  shows "\<exists>n' s'. (if rows \<le> n + 1 \<and> rows \<noteq> 0 then do { (_, s) \<leftarrow> Print P (prompt_lit F) [] s;
        s \<leftarrow> Input P In (Some []) (ReturnStr_array F) 1 s; (_, s) \<leftarrow> Print P (newline_lit F) [] s; Some (0, s) }
      else Some (n + 1, s)) = Some (n', s') \<and> n' = (if rows \<le> n + 1 \<and> rows \<noteq> 0 then 0 else n + 1) \<and>
    screen (fw s') = screen (fw s) @
      (if rows \<le> n + 1 \<and> rows \<noteq> 0 then text16 ''Press Enter to continue :'' @ [13, 10] else []) \<and>
    keeps_off (dump_writes F) (ram s) (ram s')"
proof (cases "rows \<le> n + 1 \<and> rows \<noteq> 0")
  case True
  from dump_pauses [OF c r] show ?thesis unfolding if_P [OF True] by blast
next
  case False
  show ?thesis unfolding if_not_P [OF False] by (simp add: keeps_off_refl)
qed

lemma DumpHex_loop_shows:
  assumes c: "dump_console P In keys screen"
  shows "dump_ready F (ram s) \<Longrightarrow> bytes_at (ram s) Data bs \<Longrightarrow> apart F Data (length bs) \<Longrightarrow>
   \<exists>s'. DumpHex_loop P In F Indent rows off (length bs) Data n s = Some s' \<and>
     screen (fw s') = screen (fw s) @ dump_text rows n Indent off bs \<and> keeps_off (dump_writes F) (ram s) (ram s')"
proof (induction bs arbitrary: s Data off n rule: measure_induct_rule [where f = length])
  case (less bs)
  note r = less.prems(1)
  show ?case
  proof (cases "bs = []")
    case True
    then show ?thesis by (simp add: DumpHex_loop.simps dump_text.simps keeps_off_refl)
  next
    case False
    let ?cs = "take 16 bs" and ?ds = "drop 16 bs"
    define k where "k = length ?cs"
    have k: "k = (if length bs < 16 then length bs else 16)" "k \<le> 16" "length bs - k = length ?ds" by (simp_all add: k_def)
    have b: "bytes_at (ram s) Data ?cs" "bytes_at (ram s) (Data + k) ?ds"
      using less.prems(2) bytes_at_append [of "ram s" Data ?cs ?ds] by (simp_all add: k_def)
    have ap: "apart F Data k" "apart F (Data + k) (length ?ds)"
      using less.prems(3) k(1) by (auto simp: apart_def disjoint_ranges_def split: if_splits)
    from dump_fills [OF r b(1)] ap(1) k(2) obtain m1 m2 m3 where
      m: "DumpHex_line F Data 0 k (ram s) = Some m1" "wr8 m1 (Val_array F + k * 3) 0 = Some m2"
        "wr8 m2 (Str_array F + k) 0 = Some m3" "str8_at m3 (Val_array F) (val_bytes 0 ?cs)"
        "str8_at m3 (Str_array F) (map readable ?cs)" "keeps_off (dump_writes F) (ram s) m3"
      unfolding k_def [symmetric] by blast
    have r3: "dump_ready F m3" by (rule dump_ready_keeps [OF r m(6)])
    then have "mapped m3 (Val_array F) 50" "mapped m3 (Str_array F) 20" "length m3 < 2 ^ 64"
      "bytes_at m3 (empty_lit F) [0]" by (simp_all add: dump_ready_def)
    moreover from this(4) have "mapped m3 (empty_lit F) 1" using bytes_at_mapped by fastforce
    ultimately have a: "unat (word_of_nat (Val_array F) :: u64) = Val_array F" "(word_of_nat (Val_array F) :: u64) \<noteq> 0"
      "unat (word_of_nat (Str_array F) :: u64) = Str_array F" "(word_of_nat (Str_array F) :: u64) \<noteq> 0"
      "unat (word_of_nat (empty_lit F) :: u64) = empty_lit F" "(word_of_nat (empty_lit F) :: u64) \<noteq> 0"
      "str8_at m3 (empty_lit F) []"
      using frame_address [of m3 _ 50] frame_address [of m3 _ 20] frame_address [of m3 _ 1] by (simp_all add: bytes_at_Cons)
    let ?args = "[Indent, word_of_nat (empty_lit F), off, word_of_nat (Val_array F), word_of_nat (Str_array F)]"
    have "text_render (converters_of P) (ram (with_ram s m3)) line_pieces ?args = Some (dump_line Indent off ?cs)"
      using a m(4,5) k(2) by (intro line_render) (simp_all add: with_ram_def k_def)
    from ready_print [OF c _ _ this dump_line_clean, of F "line_lit F"] r3 obtain i2 s2 where
      s2: "Print P (line_lit F) ?args (with_ram s m3) = Some (i2, s2)" "ram s2 = m3"
        "screen (fw s2) = screen (fw s) @ with_cr (dump_line Indent off ?cs)"
      by (auto simp: with_ram_def)
    let ?full = "rows \<le> n + 1 \<and> rows \<noteq> 0"
    obtain n' s3 where s3: "(if ?full then do { (_, s) \<leftarrow> Print P (prompt_lit F) [] s2;
          s \<leftarrow> Input P In (Some []) (ReturnStr_array F) 1 s; (_, s) \<leftarrow> Print P (newline_lit F) [] s; Some (0, s) }
        else Some (n + 1, s2)) = Some (n', s3)" "n' = (if ?full then 0 else n + 1)"
      "screen (fw s3) = screen (fw s2) @ (if ?full then text16 ''Press Enter to continue :'' @ [13, 10] else [])"
      "keeps_off (dump_writes F) (ram s2) (ram s3)"
      using dump_turns [OF c, of F s2 rows n] r3 s2(2) by blast
    have k3: "keeps_off (dump_writes F) (ram s) (ram s3)" using keeps_off_trans [OF m(6)] s3(4) s2(2) by simp
    have "bytes_at (ram s3) (Data + k) ?ds" using keeps_off_bytes [OF k3 b(2)] ap(2) by (simp add: apart_def)
    with less.IH [of ?ds s3 "Data + k" "off + word_of_nat k" n'] False dump_ready_keeps [OF r k3] ap(2)
    obtain s4 where s4: "DumpHex_loop P In F Indent rows (off + word_of_nat k) (length ?ds) (Data + k) n' s3 = Some s4"
      "screen (fw s4) = screen (fw s3) @ dump_text rows n' Indent (off + word_of_nat k) ?ds"
      "keeps_off (dump_writes F) (ram s3) (ram s4)" by auto
    have "DumpHex_loop P In F Indent rows off (length bs) Data n s = Some s4"
      using False m(1-3) s2(1) s3(1) s4(1) k(3)
      by (subst DumpHex_loop.simps) (simp add: k(1) [symmetric] Let_def)
    moreover have "dump_text rows n' Indent (off + word_of_nat k) ?ds = dump_text rows n' Indent (off + 16) ?ds"
      using k(1) by (cases "length bs < 16") (simp_all add: dump_text.simps)
    ultimately show ?thesis
      using s2(3) s3(2,3) s4(2) keeps_off_trans [OF k3 s4(3)] False dump_text.simps [of rows n Indent off bs] by auto
  qed
qed

text \<open>C22. \<open>DumpHex\<close> shows every byte of the memory it is given, sixteen a line with offset, hexadecimal and readable
  form, stops at every full screen for the Enter key, terminates, and writes nothing but its own frame.
\<close>

theorem DumpHex_dumps:
  assumes "dump_console P In keys screen"
    and "dump_ready F (ram s)" "bytes_at (ram s) UserData bs" "apart F UserData (length bs)"
    and "QueryMode (ConOut P) (Mode_Mode (ConOut P) s) s = (st, cols, rows, s1)"
  shows "\<exists>s'. DumpHex P In F Indent Offset (length bs) UserData s = Some s' \<and>
    screen (fw s') = screen (fw s) @ dump_text (uintn (rows + (2 ^ 64 - 2))) 0 Indent Offset bs \<and>
    keeps_off (dump_writes F) (ram s) (ram s')"
proof -
  have q: "ram s1 = ram s" "screen (fw s1) = screen (fw s)" using assms(1,5) unfolding dump_console_def colours_ok_def by blast+
  show ?thesis
    using DumpHex_loop_shows [OF assms(1), of F s1 UserData bs Indent "uintn (rows + (2 ^ 64 - 2))" Offset 0] assms(2-5) q
    by (simp add: DumpHex_def)
qed


text \<open>A frame behind the strings and three bytes of data at 98, shown from offset 0x100 with an indent of 2.\<close>

definition wit_dump_frame :: dump_frame where
  "wit_dump_frame = \<lparr>Val_array = 101, Str_array = 151, ReturnStr_array = 171, empty_lit = 97, line_lit = 1,
     prompt_lit = 41, newline_lit = 93\<rparr>"

definition wit_dump_mem :: "u8 list" where
  "wit_dump_mem = enc16 (unparse line_pieces @ [0]) @ enc16 (unparse prompt_pieces @ [0]) @ enc16 (unparse [Lit 10] @ [0]) @
     [0] @ [72, 105, 0] @ replicate 72 0"

lemma wit_dump_ready: "dump_ready wit_dump_frame (ram (demo_mem wit_dump_mem 0))"
proof -
  let ?s = "demo_mem wit_dump_mem 0"
  have len: "length (unparse line_pieces) = 19" "length (unparse prompt_pieces) = 25" "length (unparse [Lit 10]) = 1"
    by code_simp+
  have n: "length (ram ?s) = 173" by (simp add: demo_mem_def wit_dump_mem_def len)
  have "bytes_at (ram ?s) 1 (enc16 (unparse line_pieces @ [0]))" "bytes_at (ram ?s) 41 (enc16 (unparse prompt_pieces @ [0]))"
    "bytes_at (ram ?s) 93 (enc16 (unparse [Lit 10] @ [0]))" "bytes_at (ram ?s) 97 [0]"
    by code_simp+
  then show ?thesis
    unfolding dump_ready_def n by (simp add: wit_dump_frame_def mapped_def n disjoint_ranges_def apart_def dump_writes_def len)
qed

theorem DumpHex_dumps_witness:
  "\<exists>s'. DumpHex wit_plib demo_input wit_dump_frame 2 0x100 3 98 (demo_mem wit_dump_mem 0) = Some s' \<and>
    demo_screen (fw s') =
      text16 ''  00000100: 48 69 00                                         *Hi.*'' @ [13, 10] \<and>
    keeps_off (dump_writes wit_dump_frame) (ram (demo_mem wit_dump_mem 0)) (ram s')"
proof -
  let ?s = "demo_mem wit_dump_mem 0"
  have c: "dump_console wit_plib demo_input demo_keys demo_screen"
    using demo_console_ok by (simp add: dump_console_def wit_plib_def colours_ok_def demo_console_def)
  have b: "bytes_at (ram ?s) 98 [72, 105, 0]" by code_simp
  have a: "apart wit_dump_frame 98 (length [72 :: u8, 105, 0])"
    by (simp add: apart_def dump_writes_def wit_dump_frame_def disjoint_ranges_def)
  have q: "QueryMode (ConOut wit_plib) (Mode_Mode (ConOut wit_plib) ?s) ?s = (EFI_SUCCESS, 80, 25, ?s)"
    by (simp add: wit_plib_def demo_console_def)
  have "uintn (25 + (2 ^ 64 - 2)) = 23" by (simp add: uintn_def)
  moreover have "dump_text 23 0 2 0x100 [72, 105, 0] =
      text16 ''  00000100: 48 69 00                                         *Hi.*'' @ [13, 10]"
    by code_simp
  ultimately have "dump_text (uintn (25 + (2 ^ 64 - 2))) 0 2 0x100 [72, 105, 0] =
      text16 ''  00000100: 48 69 00                                         *Hi.*'' @ [13, 10]"
    by simp
  moreover have "demo_screen (fw ?s) = []" by (simp add: demo_mem_def)
  ultimately show ?thesis
    using DumpHex_dumps [OF c wit_dump_ready b a q, of 2 "0x100"] by (simp add: numeral_3_eq_3)
qed

end
