(* ===== verification/HwIo.thy ===== *)
theory HwIo
  imports DevPathText Events
begin

text \<open>
  lib/hw.c, lib/pause.c and \<open>LibGetUiString\<close> of lib/misc.c: access to ports and PCI configuration space
  through the device I/O protocol, waiting for a key, and the strings of a user interface protocol.
\<close>

subsection \<open>The device I/O protocol\<close>

datatype EFI_IO_WIDTH = IO_UINT8 | IO_UINT16 | IO_UINT32 | IO_UINT64 |
  MMIO_COPY_UINT8 | MMIO_COPY_UINT16 | MMIO_COPY_UINT32 | MMIO_COPY_UINT64

text \<open>
  \<open>Read\<close> and \<open>Write\<close> of ports and of configuration space: width, address and count; the bytes stored to
  the buffer, or those found there.
\<close>

record 'w device_io =
  Io_Read :: "EFI_IO_WIDTH \<Rightarrow> u64 \<Rightarrow> nat \<Rightarrow> 'w st \<Rightarrow> u64 \<times> u8 list \<times> 'w st"
  Io_Write :: "EFI_IO_WIDTH \<Rightarrow> u64 \<Rightarrow> nat \<Rightarrow> u8 list \<Rightarrow> 'w st \<Rightarrow> u64 \<times> 'w st"
  Pci_Read :: "EFI_IO_WIDTH \<Rightarrow> u64 \<Rightarrow> nat \<Rightarrow> 'w st \<Rightarrow> u64 \<times> u8 list \<times> 'w st"
  Pci_Write :: "EFI_IO_WIDTH \<Rightarrow> u64 \<Rightarrow> nat \<Rightarrow> u8 list \<Rightarrow> 'w st \<Rightarrow> u64 \<times> 'w st"

text \<open>
  The path's protocol must not be installed yet. \<open>None\<close> as \<open>GlobalIoFncs\<close> is a variable not stored to; a
  service that succeeds without storing its result is \<open>None\<close>.
\<close>

definition InitializeGlobalIoDevice ::
  "'w lib \<Rightarrow> addr \<Rightarrow> addr \<Rightarrow> addr \<Rightarrow> 'w st \<Rightarrow> (u64 \<times> addr option \<times> 'w st) option" where
  "InitializeGlobalIoDevice L DeviceIoProtocol DevicePath Protocol s =
     (case BS_LocateDevicePath (BS L) Protocol DevicePath s of
        (Status, out, s) \<Rightarrow>
          if \<not> EFI_ERROR Status then Some (EFI_LOAD_ERROR, None, s)
          else (let DevicePath = (case out of Some (p, h) \<Rightarrow> p | None \<Rightarrow> DevicePath) in
            case BS_LocateDevicePath (BS L) DeviceIoProtocol DevicePath s of
              (Status, out, s) \<Rightarrow>
                if \<not> EFI_ERROR Status then do {
                  (DevicePath, Handle) \<leftarrow> out;
                  Some (BS_HandleProtocol (BS L) Handle DeviceIoProtocol s) }
                else Some (Status, None, s)))"

text \<open>
  What a read stores over the local \<open>UINT32 Data\<close>, whose bytes so far are \<open>Data\<close>; more than four bytes
  would be written behind it.
\<close>

definition store_uint32 :: "u32 \<Rightarrow> u8 list \<Rightarrow> u32 option" where
  "store_uint32 Data bs = (if length bs \<le> 4 then Some (le_word (bs @ drop (length bs) (le_bytes 4 Data))) else None)"

text \<open>\<open>Data\<close> is the uninitialised local.\<close>

definition ReadPort :: "u32 \<Rightarrow> 'w device_io \<Rightarrow> EFI_IO_WIDTH \<Rightarrow> u64 \<Rightarrow> 'w st \<Rightarrow> (u32 \<times> 'w st) option" where
  "ReadPort Data GlobalIoFncs IoWidth Port s =
     (case Io_Read GlobalIoFncs IoWidth Port 1 s of
        (Status, bs, s) \<Rightarrow> do { Data \<leftarrow> store_uint32 Data bs; Some (Data, s) })"

definition WritePort :: "'w device_io \<Rightarrow> EFI_IO_WIDTH \<Rightarrow> u64 \<Rightarrow> u64 \<Rightarrow> 'w st \<Rightarrow> u32 \<times> 'w st" where
  "WritePort GlobalIoFncs IoWidth Port Data s =
     (case Io_Write GlobalIoFncs IoWidth Port 1 (le_bytes 8 Data) s of (Status, s) \<Rightarrow> (ucast Data, s))"

definition ReadPciConfig :: "u32 \<Rightarrow> 'w device_io \<Rightarrow> EFI_IO_WIDTH \<Rightarrow> u64 \<Rightarrow> 'w st \<Rightarrow> (u32 \<times> 'w st) option" where
  "ReadPciConfig Data GlobalIoFncs IoWidth Address s =
     (case Pci_Read GlobalIoFncs IoWidth Address 1 s of
        (Status, bs, s) \<Rightarrow> do { Data \<leftarrow> store_uint32 Data bs; Some (Data, s) })"

definition WritePciConfig :: "'w device_io \<Rightarrow> EFI_IO_WIDTH \<Rightarrow> u64 \<Rightarrow> u64 \<Rightarrow> 'w st \<Rightarrow> u32 \<times> 'w st" where
  "WritePciConfig GlobalIoFncs IoWidth Address Data s =
     (case Pci_Write GlobalIoFncs IoWidth Address 1 (le_bytes 8 Data) s of (Status, s) \<Rightarrow> (ucast Data, s))"

subsection \<open>Pausing\<close>

definition Pause :: "'w lib \<Rightarrow> 'w text_input \<Rightarrow> 'w st \<Rightarrow> 'w st" where
  "Pause L ConIn s =
     (case WaitForSingleEvent L (WaitForKey ConIn) 0 s of
        (_, s) \<Rightarrow> (case ReadKeyStroke ConIn s of (Status, ScanCode, UnicodeChar, s) \<Rightarrow> s))"

subsection \<open>Strings of a user interface\<close>

text \<open>A \<open>UI_STRING_ENTRY\<close> is 16 bytes: the language and the string; an entry without language ends a list.\<close>

lemma rd64_bound: "rd64 m p = Some w \<Longrightarrow> p + 8 \<le> length m \<and> 0 < p"
  by (auto simp: rd64_def rd_bytes_def mapped_def split: if_splits)

function Ui_skip_list :: "mem \<Rightarrow> addr \<Rightarrow> addr option" where
  "Ui_skip_list m Array = do {
     LangCode \<leftarrow> rd64 m Array;
     if LangCode \<noteq> 0 then Ui_skip_list m (Array + 16) else Some Array }"
  by auto
termination by (relation "measure (\<lambda>(m, a). length m - a)") (auto dest!: rd64_bound)

declare Ui_skip_list.simps [simp del]

primrec Ui_skip :: "mem \<Rightarrow> nat \<Rightarrow> addr \<Rightarrow> addr option" where
  "Ui_skip m 0 Array = Some Array"
| "Ui_skip m (Suc n) Array = do { Array \<leftarrow> Ui_skip_list m Array; Ui_skip m n (Array + 16) }"

text \<open>The search: the string of the entry, or \<open>Inl\<close> at the end of the list. \<open>Array\<close> does not change.\<close>

partial_function (option) Ui_search :: "mem \<Rightarrow> addr \<Rightarrow> addr \<Rightarrow> (unit + addr) option" where
  "Ui_search m Array LangCode = do {
     l \<leftarrow> rd64 m Array;
     if l \<noteq> 0 then do {
       r \<leftarrow> AsciiStrCmp m (unat l) LangCode;
       if r = 0 then do { u \<leftarrow> rd64 m (Array + 8); Some (Inr (unat u)) }
       else Ui_search m Array LangCode }
     else Some (Inl ()) }"

definition Ui_mismatch :: "'w plib \<Rightarrow> addr \<Rightarrow> addr \<Rightarrow> bool \<Rightarrow> 'w st \<Rightarrow> (addr \<times> 'w st) option" where
  "Ui_mismatch P DevicePathProtocol Handle ReturnDevicePathStrOnMismatch s =
     (if ReturnDevicePathStrOnMismatch then do {
        (DevPath, s) \<leftarrow> DevicePathFromHandle (PLib P) DevicePathProtocol Handle s;
        DevicePathToStr_1 P DevPath s }
      else Some (0, s))"

definition LibGetUiString ::
  "'w plib \<Rightarrow> addr \<Rightarrow> addr \<Rightarrow> addr \<Rightarrow> nat \<Rightarrow> addr \<Rightarrow> bool \<Rightarrow> 'w st \<Rightarrow> (addr \<times> 'w st) option" where
  "LibGetUiString P UiProtocol DevicePathProtocol Handle StringType LangCode ReturnDevicePathStrOnMismatch s =
     (case BS_HandleProtocol (BS (PLib P)) Handle UiProtocol s of
        (Status, Ui, s) \<Rightarrow>
          if EFI_ERROR Status then Ui_mismatch P DevicePathProtocol Handle ReturnDevicePathStrOnMismatch s
          else do {
            Ui \<leftarrow> Ui;
            Entry \<leftarrow> rd64 (ram s) (Ui + 8);
            Array \<leftarrow> Ui_skip (ram s) StringType (unat Entry);
            r \<leftarrow> Ui_search (ram s) Array LangCode;
            (case r of
               Inr UiString \<Rightarrow> Some (UiString, s)
             | Inl _ \<Rightarrow> Ui_mismatch P DevicePathProtocol Handle ReturnDevicePathStrOnMismatch s) })"

subsection \<open>Reading and writing a device\<close>

text \<open>The width of an access in bytes, and what the specification documents of a read of one unit.\<close>

fun io_bytes :: "EFI_IO_WIDTH \<Rightarrow> nat" where
  "io_bytes IO_UINT8 = 1" | "io_bytes IO_UINT16 = 2" | "io_bytes IO_UINT32 = 4" | "io_bytes IO_UINT64 = 8"
| "io_bytes MMIO_COPY_UINT8 = 1" | "io_bytes MMIO_COPY_UINT16 = 2" | "io_bytes MMIO_COPY_UINT32 = 4"
| "io_bytes MMIO_COPY_UINT64 = 8"

definition reads_units :: "(EFI_IO_WIDTH \<Rightarrow> u64 \<Rightarrow> nat \<Rightarrow> 'w st \<Rightarrow> u64 \<times> u8 list \<times> 'w st) \<Rightarrow> bool" where
  "reads_units R \<longleftrightarrow>
     (\<forall>w a s st bs s'. R w a 1 s = (st, bs, s') \<longrightarrow> (if EFI_ERROR st then bs = [] else length bs = io_bytes w))"

lemma reads_unitsD:
  assumes "reads_units R" "R w a 1 s = (st, bs, s')"
  shows "EFI_ERROR st \<Longrightarrow> bs = []" "\<not> EFI_ERROR st \<Longrightarrow> length bs = io_bytes w"
proof -
  have "if EFI_ERROR st then bs = [] else length bs = io_bytes w" using assms unfolding reads_units_def by blast
  then show "EFI_ERROR st \<Longrightarrow> bs = []" "\<not> EFI_ERROR st \<Longrightarrow> length bs = io_bytes w" by simp_all
qed

lemma bind_Some_map: "x \<bind> (\<lambda>v. Some (f v)) = map_option f x"
  by (cases x) simp_all

lemma store_uint32_nothing: "store_uint32 Data [] = Some Data"
  by (simp add: store_uint32_def)

lemma store_uint32_full: "length bs = 4 \<Longrightarrow> store_uint32 Data bs = Some (le_word bs)"
  by (simp add: store_uint32_def)

lemma store_uint32_bytes:
  assumes "length bs \<le> 4"
  shows "\<exists>v. store_uint32 Data bs = Some v \<and> le_bytes 4 v = bs @ drop (length bs) (le_bytes 4 Data)"
proof -
  have "length (bs @ drop (length bs) (le_bytes 4 Data)) = 4" using assms by simp
  from le_bytes_le_word_width(2) [OF this] show ?thesis using assms by (simp add: store_uint32_def)
qed

text \<open>The locale of the two routines that read a unit into an uninitialised variable.\<close>

locale unit_reader =
  fixes serve :: "EFI_IO_WIDTH \<Rightarrow> u64 \<Rightarrow> nat \<Rightarrow> 'w st \<Rightarrow> u64 \<times> u8 list \<times> 'w st"
    and get :: "u32 \<Rightarrow> EFI_IO_WIDTH \<Rightarrow> u64 \<Rightarrow> 'w st \<Rightarrow> (u32 \<times> 'w st) option"
  assumes get_serve: "serve w a 1 s = (st, bs, s') \<Longrightarrow> get Data w a s = map_option (\<lambda>v. (v, s')) (store_uint32 Data bs)"
begin

text \<open>The low bytes of the result are those of the device; the others are what was on the stack.\<close>

lemma get_reads:
  assumes "reads_units serve" "serve w a 1 s = (st, bs, s')" "\<not> EFI_ERROR st" "io_bytes w \<le> 4"
  shows "\<exists>v. get Data w a s = Some (v, s') \<and> le_bytes 4 v = bs @ drop (io_bytes w) (le_bytes 4 Data)"
proof -
  have "length bs = io_bytes w" by (rule reads_unitsD(2) [OF assms(1-3)])
  then show ?thesis using store_uint32_bytes [of bs Data] assms(4) get_serve [OF assms(2)] by auto
qed

text \<open>When the device fails the result is what was on the stack, and the caller is not told.\<close>

lemma get_fails:
  assumes "reads_units serve" "serve w a 1 s = (st, bs, s')" "EFI_ERROR st"
  shows "get Data w a s = Some (Data, s')"
proof -
  have "bs = []" by (rule reads_unitsD(1) [OF assms])
  then show ?thesis using get_serve [OF assms(2)] by (simp add: store_uint32_nothing)
qed

text \<open>A 64-bit access writes behind the variable.\<close>

lemma get_overruns:
  assumes "reads_units serve" "serve w a 1 s = (st, bs, s')" "\<not> EFI_ERROR st" "io_bytes w = 8"
  shows "get Data w a s = None"
proof -
  have "length bs = io_bytes w" by (rule reads_unitsD(2) [OF assms(1-3)])
  then show ?thesis using get_serve [OF assms(2)] assms(4) by (simp add: store_uint32_def)
qed

end

interpretation port: unit_reader "Io_Read IO" "\<lambda>Data. ReadPort Data IO" for IO
  by unfold_locales (simp add: ReadPort_def bind_Some_map)

interpretation pci: unit_reader "Pci_Read IO" "\<lambda>Data. ReadPciConfig Data IO" for IO
  by unfold_locales (simp add: ReadPciConfig_def bind_Some_map)

text \<open>A 32-bit read gives the device's value whatever was on the stack.\<close>

lemma ReadPort_32:
  assumes "reads_units (Io_Read IO)" "Io_Read IO IO_UINT32 a 1 s = (st, le_bytes 4 (v :: u32), s')"
  shows "ReadPort Data IO IO_UINT32 a s = Some (v, s')"
  using port.get_serve [OF assms(2), of Data] by (simp add: store_uint32_full)

text \<open>A failed read gives the uninitialised variable; a 64-bit one overruns it.\<close>

lemma ReadPort_error:
  "reads_units (Io_Read IO) \<Longrightarrow> Io_Read IO w a 1 s = (st, bs, s') \<Longrightarrow> EFI_ERROR st \<Longrightarrow> ReadPort Data IO w a s = Some (Data, s')"
  by (rule port.get_fails)

lemma ReadPort_64:
  "reads_units (Io_Read IO) \<Longrightarrow> Io_Read IO IO_UINT64 a 1 s = (st, bs, s') \<Longrightarrow> \<not> EFI_ERROR st \<Longrightarrow>
   ReadPort Data IO IO_UINT64 a s = None"
  by (rule port.get_overruns) simp_all

text \<open>The initialisation refuses a path that has the protocol already, and otherwise gives the interface of
  the device I/O protocol on the path.\<close>

lemma InitializeGlobalIoDevice_recursive:
  "BS_LocateDevicePath (BS L) Protocol DevicePath s = (st, out, s') \<Longrightarrow> \<not> EFI_ERROR st \<Longrightarrow>
   InitializeGlobalIoDevice L DeviceIoProtocol DevicePath Protocol s = Some (EFI_LOAD_ERROR, None, s')"
  by (simp add: InitializeGlobalIoDevice_def)

lemma InitializeGlobalIoDevice_finds:
  assumes "BS_LocateDevicePath (BS L) Protocol DevicePath s = (st, None, s1)" "EFI_ERROR st"
    and "BS_LocateDevicePath (BS L) DeviceIoProtocol DevicePath s1 = (EFI_SUCCESS, Some (rest, h), s2)"
    and "BS_HandleProtocol (BS L) h DeviceIoProtocol s2 = (st3, i, s3)"
  shows "InitializeGlobalIoDevice L DeviceIoProtocol DevicePath Protocol s = Some (st3, i, s3)"
  using assms by (simp add: InitializeGlobalIoDevice_def)

text \<open>\<open>Pause\<close> takes one key, and changes neither memory nor the screen.\<close>

lemma Pause_takes_key:
  assumes "console_ok L Out In keys screen"
  shows "ram (Pause L In s) = ram s \<and> screen (fw (Pause L In s)) = screen (fw s) \<and>
    keys (fw (Pause L In s)) = tl (keys (fw s))"
proof -
  obtain w s1 where w: "WaitForSingleEvent L (WaitForKey In) 0 s = (w, s1)" "ram s1 = ram s"
    "keys (fw s1) = keys (fw s)" "screen (fw s1) = screen (fw s)"
    using console_ok_wait [OF assms, of "WaitForKey In" s] by auto
  obtain st c k s2 where "ReadKeyStroke In s1 = (st, c, k, s2)" "ram s2 = ram s1" "screen (fw s2) = screen (fw s1)"
    "case keys (fw s1) of [] \<Rightarrow> EFI_ERROR st \<and> keys (fw s2) = []
     | k' # ks \<Rightarrow> \<not> EFI_ERROR st \<and> k = k' \<and> keys (fw s2) = ks"
    using console_ok_read [OF assms, of s1] by auto
  then show ?thesis using w by (auto simp: Pause_def split: list.splits)
qed

subsection \<open>The search for a language\<close>

text \<open>The lists of the interface in memory: each entry its language and string, an empty entry at the end.\<close>

definition ui_entries :: "(u64 \<times> u64) list \<Rightarrow> u8 list" where
  "ui_entries es = concat (map (\<lambda>(l, u). le_bytes 8 l @ le_bytes 8 u) (es @ [(0, 0)]))"

lemma ui_entries_simps [simp]:
  "ui_entries [] = replicate 16 0" "ui_entries ((l, u) # es) = le_bytes 8 l @ le_bytes 8 u @ ui_entries es"
  "length (ui_entries es) = 16 * (length es + 1)"
proof -
  show "ui_entries [] = replicate 16 0" by code_simp
  show "ui_entries ((l, u) # es) = le_bytes 8 l @ le_bytes 8 u @ ui_entries es" by (simp add: ui_entries_def)
  show "length (ui_entries es) = 16 * (length es + 1)" by (induction es) (auto simp: ui_entries_def)
qed

lemma rd64_bytes_at: "bytes_at m p (le_bytes 8 (w :: u64) @ bs) \<Longrightarrow> rd64 m p = Some w"
  unfolding bytes_at_append by (simp add: rd64_def bytes_at_def)

lemma Ui_skip_list_eq:
  "bytes_at m p (ui_entries es) \<Longrightarrow> list_all (\<lambda>(l, u). l \<noteq> 0) es \<Longrightarrow> Ui_skip_list m p = Some (p + 16 * length es)"
proof (induction es arbitrary: p)
  case Nil
  have "replicate 16 0 = le_bytes 8 (0 :: u64) @ (replicate 8 0 :: u8 list)" by code_simp
  then have "rd64 m p = Some 0" using Nil(1) rd64_bytes_at [of m p 0] by simp
  then show ?case by (subst Ui_skip_list.simps) simp
next
  case (Cons e es)
  obtain l u where e: "e = (l, u)" by (cases e)
  have "rd64 m p = Some l" using Cons.prems(1) e by (intro rd64_bytes_at) simp
  moreover have "bytes_at m (p + 16) (ui_entries es)" using Cons.prems(1) e by (simp add: bytes_at_append add.assoc)
  ultimately show ?case using Cons.IH [of "p + 16"] Cons.prems(2) e by (subst Ui_skip_list.simps) simp
qed

text \<open>Skipping \<open>n\<close> lists.\<close>

lemma Ui_skip_eq:
  "n \<le> length ess \<Longrightarrow> bytes_at m p (concat (map ui_entries ess)) \<Longrightarrow> list_all (list_all (\<lambda>(l, u). l \<noteq> 0)) ess \<Longrightarrow>
   Ui_skip m n p = Some (p + length (concat (map ui_entries (take n ess))))"
proof (induction n arbitrary: ess p)
  case (Suc n)
  then obtain es rest where ess: "ess = es # rest" by (cases ess) auto
  have b: "bytes_at m p (ui_entries es)" "bytes_at m (p + length (ui_entries es)) (concat (map ui_entries rest))"
    using Suc.prems(2) ess by (simp_all only: bytes_at_append list.map concat.simps)
  have "Ui_skip_list m p = Some (p + 16 * length es)" using Suc.prems(3) ess by (intro Ui_skip_list_eq [OF b(1)]) simp
  moreover have "p + 16 * length es + 16 = p + length (ui_entries es)" by simp
  moreover have "Ui_skip m n (p + length (ui_entries es)) =
      Some (p + length (ui_entries es) + length (concat (map ui_entries (take n rest))))"
    using Suc.prems ess by (intro Suc.IH b(2)) simp_all
  ultimately show ?case using ess by (simp add: ac_simps)
qed simp

text \<open>A first entry in another language: the search never ends.\<close>

lemma Ui_search_loops:
  assumes "rd64 m Array = Some l" "l \<noteq> 0" "AsciiStrCmp m (unat l) LangCode = Some r" "r \<noteq> 0"
  shows "Ui_search m Array LangCode = None"
proof -
  let ?Q = "\<lambda>m Array LangCode (x :: unit + addr).
    \<forall>l r. rd64 m Array = Some l \<longrightarrow> l \<noteq> 0 \<longrightarrow> AsciiStrCmp m (unat l) LangCode = Some r \<longrightarrow> r \<noteq> 0 \<longrightarrow> False"
  have "?Q m Array LangCode x" if "Ui_search m Array LangCode = Some x" for x
    using that by (rule Ui_search.raw_induct [where P = ?Q, rotated]) fastforce
  then show ?thesis using assms by (cases "Ui_search m Array LangCode") auto
qed

lemma Ui_search_first:
  "rd64 m Array = Some 0 \<Longrightarrow> Ui_search m Array LangCode = Some (Inl ())"
  "rd64 m Array = Some l \<Longrightarrow> l \<noteq> 0 \<Longrightarrow> AsciiStrCmp m (unat l) LangCode = Some 0 \<Longrightarrow> rd64 m (Array + 8) = Some u \<Longrightarrow>
   Ui_search m Array LangCode = Some (Inr (unat u))"
  by (subst Ui_search.simps, simp)+

text \<open>
  \<open>LibGetUiString\<close> looks at the first string of the wanted kind only: its string when it is in the wanted
  language, and no return when it is not.
\<close>

theorem LibGetUiString_first_language:
  assumes "BS_HandleProtocol (BS (PLib P)) Handle Ui s = (EFI_SUCCESS, Some ui, s')"
    and "rd64 (ram s') (ui + 8) = Some Entry"
    and "bytes_at (ram s') (unat Entry) (concat (map ui_entries (ess @ ((l, u) # es) # rest)))"
    and "list_all (list_all (\<lambda>(l, u). l \<noteq> 0)) ess" "l \<noteq> 0" "AsciiStrCmp (ram s') (unat l) LangCode = Some r"
  shows "LibGetUiString P Ui DPP Handle (length ess) LangCode b s = (if r = 0 then Some (unat u, s') else None)"
proof -
  let ?p = "unat Entry" and ?a = "unat Entry + length (concat (map ui_entries ess))"
  have b: "bytes_at (ram s') ?p (concat (map ui_entries ess))"
    "bytes_at (ram s') ?a (le_bytes 8 l @ le_bytes 8 u @ ui_entries es @ concat (map ui_entries rest))"
    using assms(3) by (simp_all add: bytes_at_append)
  have "Ui_skip (ram s') (length ess) ?p = Some ?a"
    using Ui_skip_eq [OF order.refl b(1) assms(4)] by simp
  moreover have "rd64 (ram s') ?a = Some l" "rd64 (ram s') (?a + 8) = Some u"
    using rd64_bytes_at [OF b(2)] rd64_bytes_at [of "ram s'" "?a + 8" u "ui_entries es @ concat (map ui_entries rest)"]
      b(2) bytes_at_append [of "ram s'" ?a "le_bytes 8 l"] by simp_all
  ultimately show ?thesis
    using assms(1,2,5,6) Ui_search_loops [of "ram s'" ?a l LangCode r] Ui_search_first(2) [of "ram s'" ?a l LangCode u]
    by (simp add: LibGetUiString_def)
qed

end
