(* ===== verification/BoxDraw.thy ===== *)
theory BoxDraw
  imports Machine
begin

text \<open>
  lib/boxdraw.c: which characters a text console can draw, and their PC ANSI and ASCII equivalents.
\<close>

subsection \<open>The code\<close>

text \<open>The rows of the table are the code, its PC ANSI and its ASCII equivalent; a row of zeros ends it.\<close>

definition UnicodeToPcAnsiOrAscii :: "(u16 \<times> u8 \<times> u8) list" where
  "UnicodeToPcAnsiOrAscii = [
     (0x2500, 0xc4, 45), (0x2502, 0xb3, 124), (0x250c, 0xda, 47), (0x2510, 0xbf, 92), (0x2514, 0xc0, 92),
     (0x2518, 0xd9, 47), (0x251c, 0xc3, 124), (0x2524, 0xb4, 124), (0x252c, 0xc2, 43), (0x2534, 0xc1, 43),
     (0x253c, 0xc5, 43), (0x2550, 0xcd, 45), (0x2551, 0xba, 124), (0x2552, 0xd5, 47), (0x2553, 0xd6, 47),
     (0x2554, 0xc9, 47), (0x2555, 0xb8, 92), (0x2556, 0xb7, 92), (0x2557, 0xbb, 92), (0x2558, 0xd4, 92),
     (0x2559, 0xd3, 92), (0x255a, 0xc8, 92), (0x255b, 0xbe, 47), (0x255c, 0xbd, 47), (0x255d, 0xbc, 47),
     (0x255e, 0xc6, 124), (0x255f, 0xc7, 124), (0x2560, 0xcc, 124), (0x2561, 0xb5, 124), (0x2562, 0xb6, 124),
     (0x2563, 0xb9, 124), (0x2564, 0xd1, 43), (0x2565, 0xd2, 43), (0x2566, 0xcb, 43), (0x2567, 0xcf, 43),
     (0x2568, 0xd0, 43), (0x2569, 0xca, 43), (0x256a, 0xd8, 43), (0x256b, 0xd7, 43), (0x256c, 0xce, 43),
     (0x2588, 0xdb, 42), (0x2591, 0xb0, 43), (0x25b2, 0x1e, 94), (0x25ba, 0x10, 62), (0x25bc, 0x1f, 118),
     (0x25c4, 0x11, 60), (0x2191, 0x18, 94), (0x2193, 0x19, 118), (0, 0x00, 0)]"

text \<open>An optional result is stored unless its address is \<open>NULL\<close>.\<close>

definition store_opt :: "mem \<Rightarrow> addr \<Rightarrow> u8 \<Rightarrow> mem option" where
  "store_opt m p v = (if p \<noteq> 0 then wr8 m p v else Some m)"

fun LibIsValidTextGraphics_loop ::
  "(u16 \<times> u8 \<times> u8) list \<Rightarrow> u16 \<Rightarrow> addr \<Rightarrow> addr \<Rightarrow> mem \<Rightarrow> (bool \<times> mem) option" where
  "LibIsValidTextGraphics_loop [] Graphic PcAnsi Ascii m = None"
| "LibIsValidTextGraphics_loop ((u, p, a) # Table) Graphic PcAnsi Ascii m =
     (if u = 0 then Some (False, m)
      else if Graphic = u then do {
        m \<leftarrow> store_opt m PcAnsi p;
        m \<leftarrow> store_opt m Ascii a;
        Some (True, m) }
      else LibIsValidTextGraphics_loop Table Graphic PcAnsi Ascii m)"

definition LibIsValidTextGraphics :: "u16 \<Rightarrow> addr \<Rightarrow> addr \<Rightarrow> mem \<Rightarrow> (bool \<times> mem) option" where
  "LibIsValidTextGraphics Graphic PcAnsi Ascii m =
     (if Graphic AND 0xff00 \<noteq> 0x2500 \<and> Graphic AND 0xff00 \<noteq> 0x2100 then Some (False, m)
      else LibIsValidTextGraphics_loop UnicodeToPcAnsiOrAscii Graphic PcAnsi Ascii m)"

definition IsValidAscii :: "u16 \<Rightarrow> bool" where
  "IsValidAscii Ascii \<longleftrightarrow> 0x20 \<le> Ascii \<and> Ascii \<le> 0x7f"

definition IsValidEfiCntlChar :: "u16 \<Rightarrow> bool" where
  "IsValidEfiCntlChar c \<longleftrightarrow> c = 0 \<or> c = 8 \<or> c = 10 \<or> c = 13"

subsection \<open>Lemmas\<close>

text \<open>The characters with an equivalent: the rows in front of the row of zeros.\<close>

definition graphics :: "(u16 \<times> u8 \<times> u8) list" where
  "graphics = butlast UnicodeToPcAnsiOrAscii"

lemma graphics_table: "UnicodeToPcAnsiOrAscii = graphics @ [(0, 0, 0)]"
  by code_simp

text \<open>The test in front of the loop rejects no character of the table.\<close>

lemma graphics_range: "list_all (\<lambda>(u, p, a). u AND 0xff00 = 0x2500 \<or> u AND 0xff00 = 0x2100) graphics"
  by code_simp

lemma graphics_codes: "list_all (\<lambda>(u, p, a). u \<noteq> 0 \<and> p \<noteq> 0 \<and> a \<noteq> 0) graphics"
  by code_simp

text \<open>No character is listed twice, and no two have the same PC ANSI code: the translation to PC ANSI can
  be undone.\<close>

lemma graphics_distinct: "distinct (map fst graphics)" "distinct (map (fst \<circ> snd) graphics)"
  by code_simp+

lemma LibIsValidTextGraphics_loop_finds:
  "list_all (\<lambda>(u, p, a). u \<noteq> 0) t \<Longrightarrow> LibIsValidTextGraphics_loop (t @ [(0, 0, 0)]) Graphic PcAnsi Ascii m =
     (case map_of t Graphic of
        None \<Rightarrow> Some (False, m)
      | Some (p, a) \<Rightarrow> do { m \<leftarrow> store_opt m PcAnsi p; m \<leftarrow> store_opt m Ascii a; Some (True, m) })"
  by (induction t) auto

text \<open>\<open>LibIsValidTextGraphics\<close> answers for exactly the characters of the table, and stores the equivalents of
  those and nothing for others.\<close>

theorem LibIsValidTextGraphics_looks_up:
  "LibIsValidTextGraphics Graphic PcAnsi Ascii m =
     (case map_of graphics Graphic of
        None \<Rightarrow> Some (False, m)
      | Some (p, a) \<Rightarrow> do { m \<leftarrow> store_opt m PcAnsi p; m \<leftarrow> store_opt m Ascii a; Some (True, m) })"
proof -
  have "list_all (\<lambda>(u, p, a). u \<noteq> 0) graphics" using graphics_codes by (auto simp: list_all_iff)
  note l = LibIsValidTextGraphics_loop_finds [OF this]
  show ?thesis
  proof (cases "map_of graphics Graphic")
    case None
    then show ?thesis by (simp add: LibIsValidTextGraphics_def graphics_table l)
  next
    case (Some e)
    then have "Graphic AND 0xff00 = 0x2500 \<or> Graphic AND 0xff00 = 0x2100"
      using graphics_range by (cases e) (auto simp: list_all_iff dest!: map_of_SomeD)
    then show ?thesis using Some by (auto simp: LibIsValidTextGraphics_def graphics_table l)
  qed
qed

text \<open>No control character counts as ASCII, and no drawing character as either.\<close>

lemma graphics_not_ascii: "list_all (\<lambda>(u, p, a). \<not> IsValidAscii u \<and> \<not> IsValidEfiCntlChar u \<and> IsValidAscii (ucast a)) graphics"
  by code_simp

lemma IsValidEfiCntlChar_not_ascii: "IsValidEfiCntlChar c \<Longrightarrow> \<not> IsValidAscii c"
  by (auto simp: IsValidEfiCntlChar_def IsValidAscii_def)

end
