(* ===== verification/PickleIter.thy ===== *)
theory PickleIter
  imports Pickle
begin

text \<open>
  inc/pickle/util/iterator.h and the operators of inc/pickle/util/dynamic_array.h: elements by index, and the
  loop \<open>for (auto x : array)\<close> that the iterators are for. \<open>k\<close> is \<open>sizeof (T)\<close>; an element is its bytes.
\<close>

subsection \<open>The code\<close>

definition Iterator_read :: "nat \<Rightarrow> mem \<Rightarrow> addr \<Rightarrow> u8 list option" where
  "Iterator_read k m ptr = rd_bytes m ptr k"

definition Iterator_next :: "nat \<Rightarrow> addr \<Rightarrow> addr" where
  "Iterator_next k ptr = ptr + k"

definition Iterator_differs :: "addr \<Rightarrow> addr \<Rightarrow> bool" where
  "Iterator_differs ptr other \<longleftrightarrow> ptr \<noteq> other"

definition DynamicArray_begin :: "darray \<Rightarrow> addr" where
  "DynamicArray_begin A = da_data A"

definition DynamicArray_end :: "nat \<Rightarrow> darray \<Rightarrow> addr" where
  "DynamicArray_end k A = da_data A + k * da_size A"

definition DynamicArray_copy_array :: "nat \<Rightarrow> darray \<Rightarrow> addr \<Rightarrow> nat \<Rightarrow> mem \<Rightarrow> mem option" where
  "DynamicArray_copy_array k A Arr SIZE m = DynamicArray_Copy k A Arr SIZE m"

definition DynamicArray_not_null :: "darray \<Rightarrow> bool" where
  "DynamicArray_not_null A \<longleftrightarrow> da_data A \<noteq> 0"

definition DynamicArray_is_null :: "darray \<Rightarrow> bool" where
  "DynamicArray_is_null A \<longleftrightarrow> da_data A = 0"

text \<open>The index is an \<open>int\<close>; nothing compares it with the size.\<close>

definition DynamicArray_nth :: "nat \<Rightarrow> darray \<Rightarrow> u32 \<Rightarrow> mem \<Rightarrow> u8 list option" where
  "DynamicArray_nth k A index m =
     (let p = int (da_data A) + int k * sint index in if p < 0 then None else rd_bytes m (nat p) k)"

text \<open>The loop over an array, which collects what the iterator reads.\<close>

partial_function (option) range_for :: "nat \<Rightarrow> mem \<Rightarrow> addr \<Rightarrow> addr \<Rightarrow> u8 list list option" where
  "range_for k m it stop =
     (if Iterator_differs it stop then do {
        x \<leftarrow> Iterator_read k m it;
        xs \<leftarrow> range_for k m (Iterator_next k it) stop;
        Some (x # xs) }
      else Some [])"

subsection \<open>What a loop sees\<close>

lemma bytes_at_element:
  assumes "bytes_at m p (concat xs)" "list_all (\<lambda>x. length x = k) xs" "i < length xs"
  shows "bytes_at m (p + k * i) (xs ! i)"
proof -
  have len: "length (concat (take i xs)) = k * i"
    using assms(2,3) by (induction xs arbitrary: i) (auto simp: take_Cons split: nat.splits)
  have "concat xs = concat (take i xs) @ xs ! i @ concat (drop (Suc i) xs)"
    using assms(3) by (metis append_take_drop_id concat_append concat.simps(2) Cons_nth_drop_Suc)
  then show ?thesis using assms(1) len by (metis bytes_at_append)
qed

text \<open>The loop ends and has visited exactly the elements, in order; over an empty array it does nothing.\<close>

theorem range_for_visits:
  assumes "0 < k" "bytes_at m (da_data A) (concat xs)" "list_all (\<lambda>x. length x = k) xs" "da_size A = length xs"
  shows "range_for k m (DynamicArray_begin A) (DynamicArray_end k A) = Some xs"
proof -
  have "bytes_at m p (concat ys) \<Longrightarrow> list_all (\<lambda>x. length x = k) ys \<Longrightarrow> range_for k m p (p + k * length ys) = Some ys" for p ys
  proof (induction ys arbitrary: p)
    case Nil
    show ?case by (subst range_for.simps) (simp add: Iterator_differs_def)
  next
    case (Cons y ys)
    have y: "length y = k" "bytes_at m p y" "bytes_at m (p + k) (concat ys)"
      using Cons.prems by (auto simp: bytes_at_append)
    have "range_for k m (p + k) (p + k + k * length ys) = Some ys" using Cons y(3) by simp
    then show ?case using y(1,2) assms(1)
      by (subst range_for.simps)
        (simp add: Iterator_differs_def Iterator_read_def Iterator_next_def bytes_at_def add.assoc)
  qed
  from this [OF assms(2,3)] show ?thesis by (simp add: DynamicArray_begin_def DynamicArray_end_def assms(4))
qed

lemma range_for_empty: "range_for k m (DynamicArray_begin DynamicArray_new) (DynamicArray_end k DynamicArray_new) = Some []"
  by (subst range_for.simps) (simp add: DynamicArray_begin_def DynamicArray_end_def DynamicArray_new_def Iterator_differs_def)

text \<open>An index within the size gives the element.\<close>

lemma DynamicArray_nth_element:
  assumes "bytes_at m (da_data A) (concat xs)" "list_all (\<lambda>x. length x = k) xs" "i < length xs" "i < 2 ^ 31"
  shows "DynamicArray_nth k A (word_of_nat i) m = Some (xs ! i)"
proof -
  have "sint (word_of_nat i :: u32) = int i" using assms(4) by (simp add: signed_of_nat signed_take_bit_int_eq_self)
  moreover have "nat (int (da_data A) + int k * int i) = da_data A + k * i" by (simp add: nat_int_add [symmetric])
  moreover have "0 \<le> int (da_data A) + int k * int i" by (intro add_nonneg_nonneg mult_nonneg_nonneg) simp_all
  then have "\<not> int (da_data A) + int k * int i < 0" by (simp only: not_less)
  moreover have "length (xs ! i) = k" using assms(2,3) by (simp add: list_all_length)
  ultimately show ?thesis using bytes_at_element [OF assms(1-3)]
    by (simp add: DynamicArray_nth_def Let_def bytes_at_def)
qed

text \<open>A negative index reads in front of the array.\<close>

lemma DynamicArray_nth_negative:
  assumes "bytes_at m p (x @ y)" "length x = k" "da_data A = p + k"
  shows "DynamicArray_nth k A (- 1) m = Some x"
proof -
  have "bytes_at m p x" using assms(1) by (simp only: bytes_at_append)
  then show ?thesis using assms(2,3) by (simp add: DynamicArray_nth_def Let_def bytes_at_def)
qed

end
