(* ===== verification/Spec2Isabelle.thy ===== *)
theory Spec2Isabelle
  imports Machine RtMem RtStr StrLib Crc Math64 Firmware Pool Variables Mbr DevPath DevPathOps
    PrintFmt Print PrintSpec PrintPieces Guids PrintApi PrintOut PrintNames
    Handles Locks LinkList Events Reloc Smbios CmdLine SimpleRead InitLib Elf Pickle PrintPool DevPathText DevPathPrint DevPathStr HexDump HwIo BoxDraw PickleIter
begin

text \<open>
  \<^bold>\<open>Verification of the EFI support library of Pickle\<close>

  The repository is a fork of gnu-efi: a library (src/lib) that UEFI applications are linked with, the
  start-up code that relocates them (src/gnuefi), headers (src/inc) and sample applications (src/apps).
  Pickle itself is a layer of C++ classes over the library (src/lib/pickle, src/inc/pickle) and the boot
  program src/apps/pickle.cc, which reads an ELF image from the volume it was started from and runs it.
  An application is started by the firmware; \<open>_relocate\<close> fixes its addresses, \<open>InitializeLib\<close> stores the
  firmware's tables in the library's globals, and everything else the library does it does by calling the
  services in these tables. The development models the library and the layer above it, for x86_64, as
  functions on a byte memory and the firmware's state, and the services as parameters.

  \<^bold>\<open>The machine and the firmware\<close>

  \<^item> Machine: byte memory, faults as \<open>None\<close>, little endian words, strings, status codes. A theorem that
    gives \<open>Some\<close> says that no unmapped byte is touched; \<open>overwrite\<close> says what is written and that nothing
    else is. \<open>UINTN\<close> is a 64-bit word, or a natural number brought back to 64 bits by \<open>uintn\<close>.
  \<^item> Firmware: the tables of services as records of functions, what the UEFI specification documents of
    them as predicates (\<open>pool_ok\<close>, \<open>variables_ok\<close>, \<open>tpl_ok\<close>, \<open>protocols_ok\<close>), and \<open>demo\<close>, a concrete firmware
    that satisfies them and on which the witnesses run. \<open>variables_ok\<close> speaks of the two kinds of attributes
    the library writes variables with. Whether a request is served is the firmware's choice; theorems about
    operations that may be refused say what decides it (\<open>pool_gives\<close> for the allocations of \<open>GrowBuffer\<close>,
    \<open>pages_status\<close> for the pages of an image).

  \<^bold>\<open>The library, from the bottom up\<close>

  \<^item> RtMem (lib/runtime/efirtlib.c, lib/misc.c, lib/guid.c, lib/init.c): memory and GUID primitives. The
    locales \<open>mem_filler\<close>, \<open>mem_copier\<close> and \<open>mem_mover\<close> are what the other components rely on; \<open>RtCopyMem\<close> is
    memmove.
  \<^item> RtStr, StrLib (lib/runtime/rtstr.c, lib/str.c): strings. What each routine writes and returns; the
    pattern matcher decides a language of patterns given by syntax trees; numbers are read positionally.
  \<^item> Crc (lib/crc.c): the table driven checksum equals the bitwise one; set and check round trip.
  \<^item> Math64 (lib/*/math.c): 64-bit arithmetic on eight architectures; the locale \<open>divider\<close> is their common
    contract, for divisors below \<open>2 ^ 31\<close> on ia32.
  \<^item> Pool, Variables, Mbr (lib/misc.c): pool memory and the \<open>GrowBuffer\<close> loop that every caller of a service
    with a buffer runs; variables and the boot order; partition tables; the configuration table.
  \<^item> DevPath, DevPathOps (lib/dpath.c, inc/efidevp.h): device paths. \<open>enc_path\<close> encodes a list of instances
    of nodes, and the operations are functions of that list.
  \<^item> PrintFmt, Print, PrintSpec, PrintPieces (lib/print.c, inc/internal/va_print.h): the print engine. The
    specification parses nothing: a format is a list of pieces with a meaning (\<open>render\<close>) and a spelling
    (\<open>unparse\<close>), and the engine on the spelling gives the meaning, for every output routine that satisfies
    the locale \<open>text_sink\<close>. The engine reads the format and the arguments in the memory as it is at each
    read, output included. The locale's parameter \<open>kept\<close> says which memories printing can lead to; the
    format and the strings must read the same in all of them (\<open>renders\<close>), which for a buffer means that they
    do not overlap it and for the pool and a console that they lie in memory in use.
  \<^item> PrintApi, PrintOut, PrintNames, Guids (lib/print.c, lib/va_print.c, lib/guid.c, lib/error.c,
    lib/data.c): the routines that print to buffers, pool and consoles, each an interpretation of
    \<open>text_sink\<close>; names of GUIDs, status codes and times.
  \<^item> PrintPool (lib/print.c): \<open>PoolPrint\<close> and \<open>CatPrint\<close>, whose string grows in the pool. \<open>pool_room\<close> is a pool
    with memory left; the square of the text's length (and a bit more) is enough, since the buffer grows
    by at least 200 characters at a time and the old one is freed.
  \<^item> DevPathText, DevPathPrint, DevPathStr (lib/dpath.c): the text of a device path. DevPathText is the
    code, a routine for every kind of node, the table and the walk; \<open>node_text\<close> is the text of a node as a
    function of its bytes, \<open>path_text\<close> that of a path, and \<open>DevicePathToStr\<close> returns just that text. The rules
    for \<open>appends\<close> follow a routine's reads and calls of \<open>CatPrint\<close>.
  \<^item> HexDump (lib/print.c): \<open>DumpHex\<close>, the dump of memory with its pages, over Print and the line editor.
  \<^item> Handles (lib/hand.c): handles, protocols, files. Installing a list of interfaces is atomic, and
    uninstalling undoes it.
  \<^item> SimpleRead (lib/sread.c): reading a file from memory, a file system or a load file protocol.
  \<^item> InitLib (lib/init.c, lib/entry.c, lib/data.c): the library's variables, start-up and the order of constructors
    and destructors.
  \<^item> Locks (lib/lock.c, lib/runtime/rtlock.c): locks are task priority levels; \<open>lock_step\<close> is the step
    relation of a program that uses several, with its invariant.
  \<^item> LinkList (inc/efilink.h, lib/runtime/vm.c): doubly linked lists in memory as lists of addresses, and
    the conversion of their pointers to virtual addresses.
  \<^item> Events (lib/event.c, lib/console.c): waiting with a time limit, and the line editor.
  \<^item> Reloc (gnuefi/reloc_*.c): self relocation, on six architectures.
  \<^item> Smbios (lib/smbios.c), CmdLine (lib/cmdline.c): the system's identity and the command line.
  \<^item> BoxDraw (lib/boxdraw.c), HwIo (lib/hw.c, lib/pause.c, lib/misc.c): the characters a text console can
    draw; ports and configuration space; the search for a string in a language. The locale \<open>unit_reader\<close> is
    what the two routines that read a device share.

  \<^bold>\<open>Pickle\<close>

  \<^item> Elf (lib/pickle/amoeba/elf.cc, inc/pickle/amoeba): the loader checks the headers, allocates the pages
    of the loadable segment and copies it. \<open>pages_ok\<close> states the page services, \<open>says_ok\<close> that messages
    leave memory alone.
  \<^item> Pickle, PickleIter (inc/pickle/util, lib/pickle/util/file.cc, apps/pickle.cc): dynamic arrays with their
    iterators, strings, optional values, files, and the boot program that uses them with the loader.

  \<^bold>\<open>Loops\<close>

  Structural recursion over a count or a list where the source counts; \<open>function\<close> with a measure where
  the source walks memory upwards (memory ends); \<open>partial_function (option)\<close> where a loop follows
  lengths or links stored in memory or waits for the firmware, with \<open>None\<close> for not returning. The
  theorems about the latter state that the result is \<open>Some\<close>. There is no fuel.

  \<^bold>\<open>Bounds\<close>

  \<^item> An address is a natural number and memory is finite, so that a pointer behind the end faults instead of
    wrapping around; lengths and sums of \<open>UINTN\<close> do wrap.
  \<^item> The index of the relocators' loop over the dynamic section is not bounded by the size of a C \<open>int\<close>.
  \<^item> What lies in front of the print engine's buffer, which \<open>PFLUSH\<close> makes it look at, is a constant of each
    call. What \<open>DevicePathInstance\<close> prints of a path with more than 512 nodes is left out.

  \<^bold>\<open>Not modelled\<close>

  \<^item> Floating point: \<open>FloatToString\<close> is a parameter of the print engine. So is the conversion of \<open>%D\<close>, although
    \<open>DevicePathToStr\<close> itself is modelled: it would have to be called in the middle of an engine that calls it.
  \<^item> Assembly: set jump, the start files (crt0), constructor tables, the calling convention wrappers and the
    firmware calls of ia64.
  \<^item> \<open>Exit\<close> (lib/exit.c), a service and an endless loop; \<open>DbgAssert\<close> (lib/debug.c), a message and a breakpoint;
    the platform initialisation, which is empty. Assertions are empty in a release build and are left out.
  \<^item> The self relocation of mips64el, which uses names the headers do not define, and of ia64, in assembly.
  \<^item> inc/pickle/util/result.h, whose assignments do not compile when they are used, and the templates that
    the compiler evaluates (type_traits.h, utility.h).
  \<^item> The headers of protocols the library does not call, and the other sample applications.
\<close>

subsection \<open>Numbers printed and read back\<close>

lemma hex_digit_hex_char: "d < 16 \<Longrightarrow> hex_digit (hex_char d) = Some d"
proof -
  assume "d < 16"
  then have "d \<in> {0, 1, 2, 3, 4, 5, 6, 7, 8, 9, 10, 11, 12, 13, 14, 15}" unfolding insert_iff empty_iff by presburger
  then show ?thesis by (elim insertE) (simp_all add: hex_char_def hex_digit_def)
qed

lemma dec_digit_dec_char: "d < 10 \<Longrightarrow> dec_digit (dec_char d) = Some d"
proof -
  assume "d < 10"
  then have "d \<in> {0, 1, 2, 3, 4, 5, 6, 7, 8, 9}" unfolding insert_iff empty_iff by presburger
  then show ?thesis by (elim insertE) (simp_all add: dec_char_def dec_digit_def)
qed

lemma digits_value_map:
  "(\<And>d. d \<in> set ds \<Longrightarrow> f (g d) = Some d) \<Longrightarrow>
   digits_value b f n (map g ds) = foldl (\<lambda>n d. b * n + d) n ds"
  by (induction ds arbitrary: n) simp_all

lemma hex_text_value:
  "digits_value 16 hex_digit 0 (hex_text n) = n" "list_all (\<lambda>c. hex_digit c \<noteq> None) (hex_text n)"
  "hex_text n \<noteq> []"
proof -
  have d: "hex_digit (hex_char d) = Some d" if "d \<in> set (digits_of 16 n)" for d
    using digits_of_less [OF that] by (rule hex_digit_hex_char)
  show "digits_value 16 hex_digit 0 (hex_text n) = n"
    using digits_value_map [of "digits_of 16 n" hex_digit hex_char 16 0, OF d] digits_of_value [of 16 n]
    by (simp add: hex_text_def hex_digit_def)
  show "list_all (\<lambda>c. hex_digit c \<noteq> None) (hex_text n)"
    using d by (auto simp: hex_text_def list_all_iff hex_digit_def)
  show "hex_text n \<noteq> []" using digits_of_leading [of 16 n] by (auto simp: hex_text_def)
qed

lemma dec_text_value:
  "digits_value 10 dec_digit 0 (dec_text n) = n" "list_all (\<lambda>c. dec_digit c \<noteq> None) (dec_text n)"
  "dec_text n \<noteq> []"
proof -
  have d: "dec_digit (dec_char d) = Some d" if "d \<in> set (digits_of 10 n)" for d
    using digits_of_less [OF that] by (rule dec_digit_dec_char)
  show "digits_value 10 dec_digit 0 (dec_text n) = n"
    using digits_value_map [of "digits_of 10 n" dec_digit dec_char 10 0, OF d] digits_of_value [of 10 n]
    by (simp add: dec_text_def dec_digit_def)
  show "list_all (\<lambda>c. dec_digit c \<noteq> None) (dec_text n)"
    using d by (auto simp: dec_text_def list_all_iff dec_digit_def)
  show "dec_text n \<noteq> []" using digits_of_leading [of 10 n] by (auto simp: dec_text_def)
qed

text \<open>C26. What \<open>ValueToHex\<close> prints, \<open>xtoi\<close> reads back, for every 64-bit value. What \<open>ValueToString\<close> prints
  without commas, \<open>Atoi\<close> reads back, for every value that is not negative; of a negative value it reads 0, with
  or without commas, since it knows no sign. Spaces in front and text behind that does not continue the number
  make no difference. Values that are not negative and are printed with commas are outside the statement.\<close>

theorem numbers_read_back:
  assumes "str16_at m p (replicate k 32 @ t @ rest)"
  shows "(ValueToHex v = Some t \<and> ends_number hex_digit rest \<longrightarrow> xtoi m p = Some v) \<and>
    (ValueToString DivU64x32_x86_64 False v = Some t \<and> 0 \<le> sint v \<and> ends_number dec_digit rest \<longrightarrow>
       Atoi m p = Some v) \<and>
    (ValueToString DivU64x32_x86_64 comma v = Some t \<and> sint v < 0 \<longrightarrow> Atoi m p = Some 0)"
proof (intro conjI impI; elim conjE)
  assume "ValueToHex v = Some t" and e: "ends_number hex_digit rest"
  then have t: "t = hex_text (unat v)" by (simp add: ValueToHex_eq)
  show "xtoi m p = Some v"
    using xtoi_eq [OF assms, unfolded t] e hex_text_value [of "unat v"] by simp
next
  assume "ValueToString DivU64x32_x86_64 False v = Some t" and v: "0 \<le> sint v"
    and e: "ends_number dec_digit rest"
  then have t: "t = dec_text (nat (sint v))" by (simp add: ValueToString_x86_64 signed_text_def)
  have "Atoi m p = Some (word_of_nat (nat (sint v)))"
    using Atoi_eq [OF assms, unfolded t] e dec_text_value [of "nat (sint v)"] by simp
  also have "word_of_nat (nat (sint v)) = (word_of_int (sint v) :: u64)"
    using v by (simp only: of_nat_nat)
  finally show "Atoi m p = Some v" by simp
next
  assume "ValueToString DivU64x32_x86_64 comma v = Some t" "sint v < 0"
  then obtain t' where "t = 45 # t'" by (auto simp: ValueToString_x86_64 signed_text_def Let_def)
  then show "Atoi m p = Some 0"
    using Atoi_eq [of m p k "[]" "t @ rest"] assms by (simp add: ends_number_def dec_digit_def)
qed

theorem numbers_read_back_witness:
  "xtoi ([0] @ enc16 [32, 49, 65, 70, 120, 0]) 1 = Some 0x1AF \<and>
   Atoi ([0] @ enc16 [32, 49, 50, 55, 120, 0]) 1 = Some 127 \<and> Atoi ([0] @ enc16 [32, 45, 53, 120, 0]) 1 = Some 0"
proof -
  have "str16_at ([0] @ enc16 [32, 49, 65, 70, 120, 0]) 1 (replicate 1 32 @ [49, 65, 70] @ [120])"
    "ValueToHex 0x1AF = Some [49, 65, 70]" "ends_number hex_digit [120]"
    by code_simp+
  moreover have "str16_at ([0] @ enc16 [32, 49, 50, 55, 120, 0]) 1 (replicate 1 32 @ [49, 50, 55] @ [120])"
    "ValueToString DivU64x32_x86_64 False 127 = Some [49, 50, 55]" "0 \<le> sint (127 :: u64)" "ends_number dec_digit [120]"
    by code_simp+
  moreover have "str16_at ([0] @ enc16 [32, 45, 53, 120, 0]) 1 (replicate 1 32 @ [45, 53] @ [120])"
    "ValueToString DivU64x32_x86_64 False (- 5) = Some [45, 53]" "sint (- 5 :: u64) < 0"
    by code_simp+
  ultimately show ?thesis
    using numbers_read_back [of _ 1 1 "[49, 65, 70]" "[120]" "0x1AF"] numbers_read_back [of _ 1 1 "[49, 50, 55]" "[120]" 127]
      numbers_read_back [of _ 1 1 "[45, 53]" "[120]" "- 5"] by blast
qed

end
